(* ===== verification/BW_Prelude.thy ===== *)
theory BW_Prelude
  imports Main "HOL-Library.Word" "HOL-Library.Monad_Syntax"
begin

text \<open>
  Shared vocabulary of the development: C's \<open>size_t\<close> arithmetic with its wrap-around
  written out, byte memory with \<open>memcpy\<close>, the status enum of \<open>include/machine.h\<close>,
  and paths through \<open>next\<close> pointers, on which block rings and filter chains are built.
  A C call that never comes back (it follows a pointer to no object, or it spins for
  ever) has the value \<open>None\<close>; every other call returns \<open>Some\<close> result.
\<close>

named_theorems sz_simps \<open>size_t operations that do not wrap\<close>
named_theorems path_simps \<open>paths through next pointers\<close>
named_theorems mem_simps \<open>reads and writes of byte memory\<close>

text \<open>A call that returns is a sequence of calls that return.\<close>

lemma bind_SomeE: "Option.bind x f = Some y \<Longrightarrow> (\<And>z. x = Some z \<Longrightarrow> f z = Some y \<Longrightarrow> P) \<Longrightarrow> P"
  by (cases x) auto

section \<open>Machine integers\<close>

text \<open>
  \<open>size_t\<close> is 64 bits wide. A value is a natural number; an operation whose result is
  stored is one of the following, so that a wrap is visible.
\<close>

type_synonym size_t = nat

definition sz_max :: nat where
  "sz_max = 2 ^ 64"

definition sz_add :: "size_t \<Rightarrow> size_t \<Rightarrow> size_t" where
  "sz_add a b = (a + b) mod sz_max"

definition sz_sub :: "size_t \<Rightarrow> size_t \<Rightarrow> size_t" where
  "sz_sub a b = (a + (sz_max - b mod sz_max)) mod sz_max"

definition sz_mul :: "size_t \<Rightarrow> size_t \<Rightarrow> size_t" where
  "sz_mul a b = (a * b) mod sz_max"

lemma sz_add_lt [simp]: "sz_add a b < sz_max"
  and sz_sub_lt [simp]: "sz_sub a b < sz_max"
  and sz_mul_lt [simp]: "sz_mul a b < sz_max"
  by (simp_all add: sz_add_def sz_sub_def sz_mul_def sz_max_def)

lemma sz_add_exact [sz_simps]: "a + b < sz_max \<Longrightarrow> sz_add a b = a + b"
  by (simp add: sz_add_def)

lemma sz_mul_exact [sz_simps]: "a * b < sz_max \<Longrightarrow> sz_mul a b = a * b"
  by (simp add: sz_mul_def)

lemma sz_sub_exact [sz_simps]:
  assumes "b \<le> a" and "a < sz_max"
  shows "sz_sub a b = a - b"
proof -
  from assms have b: "b mod sz_max = b" by simp
  from assms have "a + (sz_max - b) = (a - b) + sz_max" by simp
  then have "sz_sub a b = ((a - b) + sz_max) mod sz_max" by (simp only: sz_sub_def b)
  also have "\<dots> = (a - b) mod sz_max" by (rule mod_add_self2)
  also have "\<dots> = a - b" using assms by simp
  finally show ?thesis .
qed

lemma sz_sub_zero [simp]: "a < sz_max \<Longrightarrow> sz_sub a 0 = a"
  by (simp add: sz_sub_exact)

lemma sz_add_zero [simp]: "a < sz_max \<Longrightarrow> sz_add a 0 = a"
  by (simp add: sz_add_exact)

lemma sz_add_sub_cancel:
  assumes "a < sz_max"
  shows "sz_sub (sz_add a b) b = a"
proof -
  let ?M = sz_max
  have M: "0 < ?M" by (simp add: sz_max_def)
  have lt: "b mod ?M < ?M" using M by simp
  have "sz_sub (sz_add a b) b = ((a + b) mod ?M + (?M - b mod ?M)) mod ?M"
    by (simp add: sz_sub_def sz_add_def)
  also have "\<dots> = (a + (b mod ?M + (?M - b mod ?M))) mod ?M"
    by (metis add.assoc mod_add_left_eq mod_add_right_eq)
  also have "\<dots> = (a + ?M) mod ?M" using lt by simp
  also have "\<dots> = a" using assms by simp
  finally show ?thesis .
qed

text \<open>The number of blocks of \<open>a\<close> bytes that hold \<open>m\<close> bytes.\<close>

definition ceil_div :: "nat \<Rightarrow> nat \<Rightarrow> nat" where
  "ceil_div m a = (if m mod a = 0 then m div a else m div a + 1)"

lemma ceil_div_bounds:
  assumes "0 < a"
  shows ceil_div_le: "m \<le> ceil_div m a * a" and ceil_div_less: "ceil_div m a * a < m + a"
proof -
  have m: "m = m div a * a + m mod a" and r: "m mod a < a" using assms by simp_all
  have "m \<le> ceil_div m a * a \<and> ceil_div m a * a < m + a"
  proof (cases "m mod a = 0")
    case True
    then have "ceil_div m a * a = m" using m by (simp add: ceil_div_def)
    then show ?thesis using assms by simp
  next
    case False
    then have "ceil_div m a * a = m div a * a + a" by (simp add: ceil_div_def)
    then show ?thesis using m r False by linarith
  qed
  then show "m \<le> ceil_div m a * a" and "ceil_div m a * a < m + a" by auto
qed

lemma ceil_div_0 [simp]: "ceil_div 0 a = 0"
  by (simp add: ceil_div_def)

lemma ceil_div_pos: "0 < m \<Longrightarrow> 0 < a \<Longrightarrow> 0 < ceil_div m a"
  using ceil_div_le [of a m] by (cases "ceil_div m a") auto

lemma ceil_div_small: "0 < m \<Longrightarrow> m \<le> a \<Longrightarrow> ceil_div m a = 1"
  by (cases "m = a") (auto simp: ceil_div_def)

lemma ceil_div_step: "0 < a \<Longrightarrow> a \<le> m \<Longrightarrow> ceil_div m a = Suc (ceil_div (m - a) a)"
  by (auto simp: ceil_div_def le_mod_geq le_div_geq)

section \<open>Byte memory\<close>

type_synonym addr = nat
type_synonym byte = "8 word"
type_synonym memory = "addr \<Rightarrow> byte"

definition mem_read :: "memory \<Rightarrow> addr \<Rightarrow> nat \<Rightarrow> byte list" where
  "mem_read m a n = map m [a..<a + n]"

definition mem_write :: "memory \<Rightarrow> addr \<Rightarrow> byte list \<Rightarrow> memory" where
  "mem_write m a xs = (\<lambda>p. if a \<le> p \<and> p < a + length xs then xs ! (p - a) else m p)"

text \<open>\<open>memmove\<close>: the source is read before the destination is written. \<open>memcpy\<close> does the same if the two areas are apart. Where the code copies
  within one area it is \<open>None\<close> for areas that overlap (\<open>copy_out\<close> of \<open>Sdr_Rx\<close>); elsewhere it copies between a buffer of the caller and memory of the
  library, which the properties assume to be apart.\<close>

definition mem_copy :: "memory \<Rightarrow> addr \<Rightarrow> addr \<Rightarrow> nat \<Rightarrow> memory" where
  "mem_copy m dst src n = mem_write m dst (mem_read m src n)"

text \<open>Two regions, each an address with a length, have no byte in common.\<close>

definition disj :: "addr \<Rightarrow> nat \<Rightarrow> addr \<Rightarrow> nat \<Rightarrow> bool" where
  "disj a n b k \<longleftrightarrow> a + n \<le> b \<or> b + k \<le> a \<or> n = 0 \<or> k = 0"

lemma disj_sym: "disj a n b k \<longleftrightarrow> disj b k a n"
  by (auto simp: disj_def)

lemma disj_sub:
  "disj a n b k \<Longrightarrow> a \<le> a' \<Longrightarrow> a' + n' \<le> a + n \<Longrightarrow> b \<le> b' \<Longrightarrow> b' + k' \<le> b + k \<Longrightarrow> disj a' n' b' k'"
  by (auto simp: disj_def)

lemma length_mem_read [simp]: "length (mem_read m a n) = n"
  by (simp add: mem_read_def)

lemma mem_read_0 [simp]: "mem_read m a 0 = []"
  by (simp add: mem_read_def)

lemma nth_mem_read [simp]: "i < n \<Longrightarrow> mem_read m a n ! i = m (a + i)"
  by (simp add: mem_read_def)

lemma mem_write_Nil [simp]: "mem_write m a [] = m"
  by (rule ext) (auto simp: mem_write_def)

lemma mem_copy_0 [simp]: "mem_copy m d s 0 = m"
  by (simp add: mem_copy_def)

lemma mem_read_same [mem_simps]: "mem_read (mem_write m a xs) a (length xs) = xs"
  by (rule nth_equalityI) (auto simp: mem_write_def)

lemma mem_read_write_prefix [mem_simps]:
  "n \<le> length xs \<Longrightarrow> mem_read (mem_write m a xs) a n = take n xs"
  by (rule nth_equalityI) (auto simp: mem_write_def)

lemma mem_read_disj [mem_simps]:
  "disj a (length xs) b n \<Longrightarrow> mem_read (mem_write m a xs) b n = mem_read m b n"
  by (rule nth_equalityI) (auto simp: mem_write_def disj_def)

lemma mem_write_append: "mem_write m a (xs @ ys) = mem_write (mem_write m a xs) (a + length xs) ys"
  by (rule ext) (auto simp: mem_write_def nth_append)

lemma mem_read_add: "mem_read m a (n + k) = mem_read m a n @ mem_read m (a + n) k"
  by (rule nth_equalityI) (auto simp: nth_append)

lemma mem_read_drop: "k \<le> n \<Longrightarrow> mem_read m (a + k) (n - k) = drop k (mem_read m a n)"
  by (rule nth_equalityI) (auto simp: add.assoc)

lemma mem_read_take: "k \<le> n \<Longrightarrow> mem_read m a k = take k (mem_read m a n)"
  by (rule nth_equalityI) auto

lemma mem_read_copy [mem_simps]: "mem_read (mem_copy m d s n) d n = mem_read m s n"
  using mem_read_same [of m d "mem_read m s n"] by (simp add: mem_copy_def)

lemma mem_read_copy_disj [mem_simps]:
  "disj d n b k \<Longrightarrow> mem_read (mem_copy m d s n) b k = mem_read m b k"
  by (simp add: mem_copy_def mem_read_disj)

lemma mem_copy_other: "\<not> (d \<le> p \<and> p < d + n) \<Longrightarrow> mem_copy m d s n p = m p"
  by (auto simp: mem_copy_def mem_write_def)

text \<open>A number as \<open>k\<close> bytes, the least significant first, and back.\<close>

fun le_bytes :: "nat \<Rightarrow> nat \<Rightarrow> byte list" where
  "le_bytes 0 n = []"
| "le_bytes (Suc k) n = of_nat (n mod 256) # le_bytes k (n div 256)"

fun le_nat :: "byte list \<Rightarrow> nat" where
  "le_nat [] = 0"
| "le_nat (x # xs) = unat x + 256 * le_nat xs"

lemma length_le_bytes [simp]: "length (le_bytes k n) = k"
  by (induction k arbitrary: n) auto

lemma le_nat_le_bytes: "le_nat (le_bytes k n) = n mod 256 ^ k"
proof (induction k arbitrary: n)
  case (Suc k)
  have "n mod 256 ^ Suc k = n mod 256 + 256 * (n div 256 mod 256 ^ k)" by (simp add: mod_mult2_eq)
  moreover have "unat (of_nat (n mod 256) :: byte) = n mod 256" by (simp add: unat_of_nat)
  ultimately show ?case using Suc by simp
qed simp

lemma le_nat_less: "le_nat xs < 256 ^ length xs"
proof (induction xs)
  case (Cons x xs)
  have "unat x < 256" using unsigned_less [of x] by simp
  then show ?case using Cons by simp
qed simp

lemma le_bytes_le_nat: "le_bytes (length xs) (le_nat xs) = xs"
proof (induction xs)
  case (Cons x xs)
  have "unat x < 256" using unsigned_less [of x] by simp
  then show ?case using Cons by simp
qed simp

section \<open>Status values\<close>

text \<open>
  \<open>enum io_status\<close> of \<open>include/machine.h\<close>. A machine may return codes of its own from
  \<open>IO_IMPL\<close> = 100 upwards. The order is the numeric order of the codes, since the code
  tests \<open>status < IO_SUCCESS\<close>.
\<close>

datatype io_status =
    IO_ERROR | IO_SUCCESS | IO_COMPLETE | IO_NODATA | IO_DATABREAK | IO_CONTINUE | IO_BREAK
  | IO_IMPL nat

fun io_code :: "io_status \<Rightarrow> int" where
  "io_code IO_ERROR = -1"
| "io_code IO_SUCCESS = 0"
| "io_code IO_COMPLETE = 1"
| "io_code IO_NODATA = 2"
| "io_code IO_DATABREAK = 3"
| "io_code IO_CONTINUE = 4"
| "io_code IO_BREAK = 5"
| "io_code (IO_IMPL n) = 100 + int n"

lemma io_code_inject: "io_code x = io_code y \<longleftrightarrow> x = y"
  by (cases x; cases y; simp)

instantiation io_status :: linorder
begin

definition less_eq_io_status :: "io_status \<Rightarrow> io_status \<Rightarrow> bool" where
  "less_eq_io_status x y \<longleftrightarrow> io_code x \<le> io_code y"

definition less_io_status :: "io_status \<Rightarrow> io_status \<Rightarrow> bool" where
  "less_io_status x y \<longleftrightarrow> io_code x < io_code y"

instance
  by standard (auto simp: less_eq_io_status_def less_io_status_def io_code_inject)

end

lemma io_error_iff [simp]: "s < IO_SUCCESS \<longleftrightarrow> s = IO_ERROR"
  by (cases s) (simp_all add: less_io_status_def)

section \<open>Paths through next pointers\<close>

text \<open>
  \<open>nxt\<close> gives the \<open>next\<close> field of the object at an address and is undefined where there is
  no object; address 0 is \<open>NULL\<close>. \<open>path nxt x as y\<close>: following \<open>next\<close> from \<open>x\<close> visits the
  objects \<open>as\<close> and arrives at \<open>y\<close>.
\<close>

fun path :: "(addr \<rightharpoonup> addr) \<Rightarrow> addr \<Rightarrow> addr list \<Rightarrow> addr \<Rightarrow> bool" where
  "path nxt x [] y \<longleftrightarrow> x = y"
| "path nxt x (a # as) y \<longleftrightarrow> x = a \<and> a \<noteq> 0 \<and> (\<exists>z. nxt a = Some z \<and> path nxt z as y)"

text \<open>A ring: the objects \<open>as\<close>, each once, lead from \<open>x\<close> back to \<open>x\<close>.\<close>

definition is_ring :: "(addr \<rightharpoonup> addr) \<Rightarrow> addr \<Rightarrow> addr list \<Rightarrow> bool" where
  "is_ring nxt x as \<longleftrightarrow> as \<noteq> [] \<and> distinct as \<and> path nxt x as x"

lemma path_append [path_simps]:
  "path nxt x (as @ bs) z \<longleftrightarrow> (\<exists>y. path nxt x as y \<and> path nxt y bs z)"
  by (induction as arbitrary: x) auto

lemma path_upd_notin [path_simps]:
  "u \<notin> set as \<Longrightarrow> path (nxt(u := v)) x as y \<longleftrightarrow> path nxt x as y"
  by (induction as arbitrary: x) auto

lemma path_cong: "(\<And>a. a \<in> set as \<Longrightarrow> nxt a = nxt' a) \<Longrightarrow> path nxt x as y \<longleftrightarrow> path nxt' x as y"
  by (induction as arbitrary: x) auto

lemma path_nonzero: "path nxt x as y \<Longrightarrow> 0 \<notin> set as"
  by (induction as arbitrary: x) auto

lemma path_dom: "path nxt x as y \<Longrightarrow> set as \<subseteq> dom nxt"
  by (induction as arbitrary: x) auto

lemma path_hd: "path nxt x as y \<Longrightarrow> as \<noteq> [] \<Longrightarrow> x = hd as"
  by (cases as) auto

lemma is_ring_hd: "is_ring nxt x as \<Longrightarrow> hd as = x"
  by (auto simp: is_ring_def dest: path_hd)

text \<open>A ring may be entered at any of its objects.\<close>

lemma is_ring_rotate:
  assumes "is_ring nxt x (as @ bs)" and "bs \<noteq> []"
  shows "is_ring nxt (hd bs) (bs @ as)"
proof -
  from assms(1) obtain y where p: "path nxt x as y" and q: "path nxt y bs x"
    by (auto simp: is_ring_def path_append)
  from q assms(2) have y: "y = hd bs" by (rule path_hd)
  have "path nxt (hd bs) (bs @ as) (hd bs)"
    using p q by (auto simp: path_append y)
  then show ?thesis using assms by (auto simp: is_ring_def)
qed

lemma is_ring_step:
  assumes "is_ring nxt x (a # bs)"
  shows "nxt a = Some (hd (bs @ [a]))" and "is_ring nxt (hd (bs @ [a])) (bs @ [a])"
proof -
  from assms obtain z where z: "nxt a = Some z" and p: "path nxt z bs a" and a: "x = a" "a \<noteq> 0"
    by (auto simp: is_ring_def)
  have zhd: "z = hd (bs @ [a])"
  proof (cases bs)
    case Nil
    with p show ?thesis by simp
  next
    case (Cons b bs')
    with p show ?thesis by simp
  qed
  show "nxt a = Some (hd (bs @ [a]))" using z zhd by simp
  have "path nxt z (bs @ [a]) z" using p z a by (auto simp: path_append)
  then show "is_ring nxt (hd (bs @ [a])) (bs @ [a])"
    using assms zhd by (auto simp: is_ring_def)
qed

text \<open>Splicing a chain into a ring behind one of its objects gives a larger ring.\<close>

lemma is_ring_splice:
  assumes ring: "is_ring nxt x (as @ [w])"
    and chain: "path nxt c cs 0" and cs: "cs \<noteq> []" "distinct cs" "set cs \<inter> set (as @ [w]) = {}"
  shows "is_ring (nxt(w \<mapsto> c, last cs \<mapsto> x)) x (as @ w # cs)"
proof -
  obtain bs l where l: "cs = bs @ [l]" using cs(1) by (cases cs rule: rev_cases) auto
  let ?n = "nxt(w \<mapsto> c, last cs \<mapsto> x)"
  have wl: "w \<noteq> l" "w \<notin> set as" "l \<notin> set as" "w \<notin> set bs" "l \<notin> set bs"
    using ring cs l by (auto simp: is_ring_def)
  from ring have pa: "path nxt x as w" and w0: "w \<noteq> 0"
    by (auto simp: is_ring_def path_append)
  from chain l have pb: "path nxt c bs l" and l0: "l \<noteq> 0" by (auto simp: path_append)
  have "path ?n x as w" using pa wl l by (simp add: path_upd_notin)
  moreover have "path ?n c bs l" using pb wl l by (simp add: path_upd_notin)
  ultimately have "path ?n x (as @ w # bs @ [l]) x"
    using w0 l0 l wl by (auto simp: path_append)
  moreover have "distinct (as @ w # cs)" using ring cs by (auto simp: is_ring_def)
  ultimately show ?thesis using l by (simp add: is_ring_def)
qed

end
