(* ===== verification/Block_List.thy ===== *)
theory Block_List
  imports BW_Prelude
begin

text \<open>
  Model of \<open>src/buf/block-list-buf.c\<close> and \<open>include/block-list-buffer.h\<close>: block descriptors
  linked by \<open>next\<close>, the allocation of their data areas, and the read/write handle
  \<open>blb_rw_t\<close>. Block descriptors live in a store from addresses to blocks, their data in byte
  memory. The memory pools (memex) and \<open>sysinfo\<close> are not part of the repository: they are
  the fields of an \<open>env\<close>, and \<open>pool_sound\<close> and \<open>pool_plenty\<close> say what the code relies on.
\<close>

section \<open>Blocks, heap and environment\<close>

datatype block_state_e = BLB_STATE_NORMAL | BLB_STATE_DELETE | BLB_STATE_BREAK | BLB_STATE_ERROR

record block =
  b_next :: addr
  b_data :: addr
  b_size :: size_t
  b_bytes :: size_t
  b_state :: block_state_e
  b_d_ret :: io_status

text \<open>A descriptor as \<open>pcalloc\<close> returns it: every field zero.\<close>

definition zero_block :: block where
  "zero_block = \<lparr>b_next = 0, b_data = 0, b_size = 0, b_bytes = 0,
     b_state = BLB_STATE_NORMAL, b_d_ret = IO_SUCCESS\<rparr>"

definition BLOCK_EMPTY :: "block \<Rightarrow> bool" where
  "BLOCK_EMPTY b \<longleftrightarrow> b_bytes b = 0"

definition BLOCK_FULL :: "block \<Rightarrow> bool" where
  "BLOCK_FULL b \<longleftrightarrow> b_size b = b_bytes b"

text \<open>
  \<open>live\<close> records the regions of byte memory handed out so far; no operation of the program
  reads it, it only lets \<open>pool_sound\<close> say that a fresh region overlaps no earlier one.
\<close>

type_synonym pool = nat

record heap =
  blocks :: "addr \<rightharpoonup> block"
  mem :: memory
  live :: "(addr \<times> nat) list"

record env =
  palloc :: "heap \<Rightarrow> pool \<Rightarrow> size_t \<Rightarrow> addr option"
  pcalloc :: "heap \<Rightarrow> pool \<Rightarrow> size_t \<Rightarrow> addr option"
  create_subpool :: "heap \<Rightarrow> pool \<Rightarrow> pool"
  free_pool :: "pool \<Rightarrow> heap \<Rightarrow> heap"
  pfree :: "pool \<Rightarrow> addr \<Rightarrow> heap \<Rightarrow> heap"
  sysinfo :: "heap \<Rightarrow> size_t option"

text \<open>Access through a pointer: there is no result where the pointer leads to no block.\<close>

definition get_blk :: "addr \<Rightarrow> heap \<Rightarrow> block option" where
  "get_blk a h = (if a = 0 then None else blocks h a)"

definition upd_blk :: "addr \<Rightarrow> (block \<Rightarrow> block) \<Rightarrow> heap \<Rightarrow> heap option" where
  "upd_blk a f h = do {
     b \<leftarrow> get_blk a h;
     Some (h\<lparr>blocks := (blocks h)(a \<mapsto> f b)\<rparr>)
   }"

definition nxt :: "heap \<Rightarrow> addr \<rightharpoonup> addr" where
  "nxt h a = map_option b_next (blocks h a)"

section \<open>Lists of empty descriptors\<close>

definition sizeof_block :: size_t where
  "sizeof_block = 48"

text \<open>The loop of \<open>block_list_alloc_custom\<close>: \<open>blks\<close> is the head so far, \<open>b\<close> the last block.\<close>

fun block_list_alloc_loop ::
    "env \<Rightarrow> pool \<Rightarrow> size_t \<Rightarrow> nat \<Rightarrow> addr \<Rightarrow> addr \<Rightarrow> heap \<Rightarrow> (addr \<times> heap) option" where
  "block_list_alloc_loop E p size_of 0 blks b h = Some (blks, h)"
| "block_list_alloc_loop E p size_of (Suc remaining) blks b h =
     (case pcalloc E h p size_of of
        None \<Rightarrow> Some (0, h)
      | Some new \<Rightarrow>
          (let h1 = h\<lparr>blocks := (blocks h)(new \<mapsto> zero_block), live := (new, size_of) # live h\<rparr> in
           if b = 0 then block_list_alloc_loop E p size_of remaining new new h1
           else do {
             h2 \<leftarrow> upd_blk b (b_next_update (\<lambda>_. new)) h1;
             block_list_alloc_loop E p size_of remaining blks new h2
           }))"

definition block_list_alloc_custom ::
    "env \<Rightarrow> pool \<Rightarrow> size_t \<Rightarrow> size_t \<Rightarrow> heap \<Rightarrow> (addr \<times> heap) option" where
  "block_list_alloc_custom E p size_of block_count h =
     (if block_count = 0 then Some (0, h)
      else block_list_alloc_loop E p size_of block_count 0 0 h)"

definition block_list_alloc :: "env \<Rightarrow> pool \<Rightarrow> size_t \<Rightarrow> heap \<Rightarrow> (addr \<times> heap) option" where
  "block_list_alloc E p block_count h = block_list_alloc_custom E p sizeof_block block_count h"

section \<open>Data areas\<close>

text \<open>The counting loop of \<open>block_data_fastalloc\<close>: the block after the last one and the
  number of blocks whose data fits into free memory. The number is an \<open>int\<close> in the code; it would leave the range of one with a list
  of \<open>2 ^ 31\<close> blocks, whose descriptors alone take more than 100 GB.\<close>

partial_function (option) fastalloc_count ::
    "size_t \<Rightarrow> size_t \<Rightarrow> addr \<Rightarrow> addr \<Rightarrow> nat \<Rightarrow> heap \<Rightarrow> (addr \<times> nat) option" where
  "fastalloc_count bytes_per_block freeram block b n_blocks h = do {
     blk \<leftarrow> get_blk b h;
     let n = n_blocks + 1;
     let n_blocks' = (if sz_mul n bytes_per_block < freeram then n_blocks + 1 else n_blocks);
     let b' = b_next blk;
     if b' \<noteq> 0 \<and> b' \<noteq> block
     then fastalloc_count bytes_per_block freeram block b' n_blocks' h
     else Some (b', n_blocks')
   }"

text \<open>The partition loop: \<open>k\<close> blocks are still to be set up, \<open>buf\<close> is the rest of the area.\<close>

fun fastalloc_partition ::
    "size_t \<Rightarrow> addr \<Rightarrow> nat \<Rightarrow> addr \<Rightarrow> addr \<Rightarrow> heap \<Rightarrow> heap option" where
  "fastalloc_partition bytes_per_block final_next 0 b buf h = Some h"
| "fastalloc_partition bytes_per_block final_next (Suc k) b buf h = do {
     h1 \<leftarrow> upd_blk b (\<lambda>x. x\<lparr>b_data := buf, b_bytes := 0, b_size := bytes_per_block\<rparr>) h;
     if Suc k > 1 then do {
       blk \<leftarrow> get_blk b h1;
       fastalloc_partition bytes_per_block final_next k (b_next blk) (buf + bytes_per_block) h1
     } else upd_blk b (b_next_update (\<lambda>_. final_next)) h1
   }"

definition block_data_fastalloc ::
    "env \<Rightarrow> pool \<Rightarrow> addr \<Rightarrow> size_t \<Rightarrow> heap \<Rightarrow> (size_t \<times> heap) option" where
  "block_data_fastalloc E p block bytes_per_block h =
     (if block = 0 then Some (0, h)
      else case sysinfo E h of
        None \<Rightarrow> Some (0, h)
      | Some freeram \<Rightarrow>
          if bytes_per_block > freeram then Some (0, h)
          else do {
            (final_next, n_blocks) \<leftarrow> fastalloc_count bytes_per_block freeram block block 0 h;
            let bytes = sz_mul n_blocks bytes_per_block;
            (case palloc E h p bytes of
               None \<Rightarrow> Some (0, h)
             | Some buf \<Rightarrow> do {
                 h' \<leftarrow> fastalloc_partition bytes_per_block final_next n_blocks block buf
                        (h\<lparr>live := (buf, bytes) # live h\<rparr>);
                 Some (bytes, h')
               })
          })"

text \<open>
  \<open>block_data_alloc\<close> allocates one area per block while memory lasts. Its last statement
  indexes the linked descriptors as if they were an array, \<open>b[n_blocks - 1]\<close>: the address
  computed is \<open>n_blocks - 1\<close> descriptor sizes behind the first block.
\<close>

partial_function (option) data_alloc_loop ::
    "env \<Rightarrow> pool \<Rightarrow> size_t \<Rightarrow> size_t \<Rightarrow> addr \<Rightarrow> addr \<Rightarrow> nat \<Rightarrow> heap \<Rightarrow> (addr \<times> nat \<times> heap) option" where
  "data_alloc_loop E p bytes_per_block freeram block b n_blocks h = do {
     (n_blocks', h1) \<leftarrow>
       (if sz_mul (n_blocks + 1) bytes_per_block < freeram
        then (case palloc E h p bytes_per_block of
            None \<Rightarrow> do {
              h1 \<leftarrow> upd_blk b (\<lambda>x. x\<lparr>b_data := 0, b_bytes := 0, b_size := bytes_per_block\<rparr>) h;
              Some (n_blocks + 1, h1) }
          | Some buf \<Rightarrow> do {
              h1 \<leftarrow> upd_blk b (\<lambda>x. x\<lparr>b_data := buf, b_bytes := 0, b_size := bytes_per_block\<rparr>)
                      (h\<lparr>live := (buf, bytes_per_block) # live h\<rparr>);
              Some (n_blocks + 1, h1) })
        else Some (n_blocks, h));
     blk \<leftarrow> get_blk b h1;
     let b' = b_next blk;
     if b' \<noteq> 0 \<and> b' \<noteq> block
     then data_alloc_loop E p bytes_per_block freeram block b' n_blocks' h1
     else Some (b', n_blocks', h1)
   }"

definition block_data_alloc ::
    "env \<Rightarrow> pool \<Rightarrow> addr \<Rightarrow> size_t \<Rightarrow> heap \<Rightarrow> (size_t \<times> heap) option" where
  "block_data_alloc E p block bytes_per_block h =
     (if block = 0 then Some (0, h)
      else case sysinfo E h of
        None \<Rightarrow> Some (0, h)
      | Some freeram \<Rightarrow>
          if bytes_per_block > freeram then Some (0, h)
          else do {
            (final_next, n_blocks, h1) \<leftarrow> data_alloc_loop E p bytes_per_block freeram block block 0 h;
            h2 \<leftarrow> upd_blk (sz_sub (block + n_blocks * sizeof_block) sizeof_block)
                   (b_next_update (\<lambda>_. final_next)) h1;
            Some (sz_mul n_blocks bytes_per_block, h2)
          })"

section \<open>Rings and the read/write handle\<close>

partial_function (option) forge_ring_loop :: "addr \<Rightarrow> addr \<Rightarrow> heap \<Rightarrow> heap option" where
  "forge_ring_loop first blks h = do {
     blk \<leftarrow> get_blk blks h;
     if b_next blk \<noteq> 0 then
       (if b_next blk = first then Some h else forge_ring_loop first (b_next blk) h)
     else upd_blk blks (b_next_update (\<lambda>_. first)) h
   }"

definition forge_ring :: "addr \<Rightarrow> heap \<Rightarrow> heap option" where
  "forge_ring blocklist h = forge_ring_loop blocklist blocklist h"

record blb_rw =
  rw_pool :: pool
  rw_buf :: addr
  rw_wp :: addr
  rw_rp :: addr

definition sizeof_blb_rw :: size_t where
  "sizeof_blb_rw = 112"

text \<open>\<open>blb_init_rw\<close> stores through the result of \<open>palloc\<close> without testing it.\<close>

definition blb_init_rw ::
    "env \<Rightarrow> pool \<Rightarrow> size_t \<Rightarrow> size_t \<Rightarrow> heap \<Rightarrow> (blb_rw \<times> heap) option" where
  "blb_init_rw E pool bytes_per_block n_blocks h = do {
     let p = create_subpool E h pool;
     ret \<leftarrow> palloc E h p sizeof_blb_rw;
     let h0 = h\<lparr>live := (ret, sizeof_blb_rw) # live h\<rparr>;
     (buf, h1) \<leftarrow> block_list_alloc E p n_blocks h0;
     (_, h2) \<leftarrow> block_data_fastalloc E p buf bytes_per_block h1;
     h3 \<leftarrow> forge_ring buf h2;
     Some (\<lparr>rw_pool = p, rw_buf = buf, rw_wp = buf, rw_rp = buf\<rparr>, h3)
   }"

definition blb_rw_destroy :: "env \<Rightarrow> blb_rw option \<Rightarrow> heap \<Rightarrow> heap" where
  "blb_rw_destroy E rw h = (case rw of None \<Rightarrow> h | Some rw \<Rightarrow> free_pool E (rw_pool rw) h)"

text \<open>\<open>blb_empty\<close> clears \<open>bytes\<close> of a block, steps to the next one and then resets \<open>state\<close>
  there, before it tests the pointer.\<close>

partial_function (option) blb_empty_loop :: "addr \<Rightarrow> addr \<Rightarrow> heap \<Rightarrow> heap option" where
  "blb_empty_loop blb b h = do {
     h1 \<leftarrow> upd_blk b (b_bytes_update (\<lambda>_. 0)) h;
     blk \<leftarrow> get_blk b h1;
     let b' = b_next blk;
     h2 \<leftarrow> upd_blk b' (b_state_update (\<lambda>_. BLB_STATE_NORMAL)) h1;
     if b' \<noteq> 0 \<and> b' \<noteq> blb then blb_empty_loop blb b' h2 else Some h2
   }"

definition blb_empty :: "addr \<Rightarrow> heap \<Rightarrow> heap option" where
  "blb_empty blb h = blb_empty_loop blb blb h"

definition blb_rw_empty :: "blb_rw option \<Rightarrow> heap \<Rightarrow> (blb_rw option \<times> heap) option" where
  "blb_rw_empty rw h = (case rw of
      None \<Rightarrow> Some (None, h)
    | Some rw \<Rightarrow> do {
        h' \<leftarrow> blb_empty (rw_buf rw) h;
        Some (Some (rw\<lparr>rw_rp := rw_buf rw, rw_wp := rw_buf rw\<rparr>), h')
      })"

partial_function (option) get_bytes_loop ::
    "addr \<Rightarrow> addr \<Rightarrow> size_t \<Rightarrow> size_t \<Rightarrow> heap \<Rightarrow> (size_t \<times> size_t) option" where
  "get_bytes_loop buf b sz by h = do {
     blk \<leftarrow> get_blk b h;
     let sz' = sz_add sz (b_size blk);
     let by' = sz_add by (b_bytes blk);
     let b' = b_next blk;
     if b' \<noteq> 0 \<and> b' \<noteq> buf then get_bytes_loop buf b' sz' by' h else Some (sz', by')
   }"

text \<open>The pair of \<open>*size\<close> and \<open>*bytes\<close> as \<open>blb_rw_get_bytes\<close> leaves them.\<close>

definition blb_rw_get_bytes :: "blb_rw option \<Rightarrow> heap \<Rightarrow> (size_t \<times> size_t) option" where
  "blb_rw_get_bytes rw h = (case rw of
      None \<Rightarrow> Some (0, 0)
    | Some rw \<Rightarrow> get_bytes_loop (rw_buf rw) (rw_buf rw) 0 0 h)"

section \<open>What the code relies on\<close>

text \<open>
  Pools hand out non-null memory that overlaps nothing handed out before, and the free
  memory reported is below 2^63 bytes.
\<close>

definition pool_sound :: "env \<Rightarrow> bool" where
  "pool_sound E \<longleftrightarrow>
     (\<forall>h p n a. palloc E h p n = Some a \<longrightarrow> a \<noteq> 0 \<and> (\<forall>(b, k) \<in> set (live h). disj a n b k)) \<and>
     (\<forall>h p n a. pcalloc E h p n = Some a \<longrightarrow> a \<noteq> 0 \<and> (\<forall>(b, k) \<in> set (live h). disj a n b k)) \<and>
     (\<forall>h freeram. sysinfo E h = Some freeram \<longrightarrow> freeram \<le> 2 ^ 63)"

text \<open>Memory for blocks of \<open>bpb\<close> bytes does not run out.\<close>

definition pool_plenty :: "env \<Rightarrow> size_t \<Rightarrow> bool" where
  "pool_plenty E bpb \<longleftrightarrow>
     (\<forall>h. \<exists>freeram. sysinfo E h = Some freeram \<and> bpb < freeram) \<and>
     (\<forall>h p n. palloc E h p n \<noteq> None) \<and> (\<forall>h p n. pcalloc E h p n \<noteq> None)"

text \<open>Every descriptor in the store lies in a region that was handed out.\<close>

definition heap_ok :: "heap \<Rightarrow> bool" where
  "heap_ok h \<longleftrightarrow> (\<forall>a \<in> dom (blocks h). \<exists>k > 0. (a, k) \<in> set (live h))"

text \<open>A pool that never reuses memory and a machine with the given amount of free memory:
  the environment of the concrete runs below.\<close>

definition heap_top :: "heap \<Rightarrow> addr" where
  "heap_top h = foldr (\<lambda>(b, k) m. max (b + k) m) (live h) 1"

definition bump_env :: "size_t \<Rightarrow> env" where
  "bump_env freeram = \<lparr>palloc = \<lambda>h p n. Some (heap_top h), pcalloc = \<lambda>h p n. Some (heap_top h),
     create_subpool = \<lambda>h p. p, free_pool = \<lambda>p h. h, pfree = \<lambda>p a h. h, sysinfo = \<lambda>h. Some freeram\<rparr>"

definition empty_heap :: heap where
  "empty_heap = \<lparr>blocks = Map.empty, mem = (\<lambda>_. 0), live = []\<rparr>"

lemma heap_top_above: "(b, k) \<in> set (live h) \<Longrightarrow> b + k \<le> heap_top h"
  unfolding heap_top_def
proof (induction "live h" arbitrary: h)
  case Nil
  then show ?case by simp
next
  case (Cons x L)
  have IH: "(b, k) \<in> set L \<Longrightarrow> b + k \<le> foldr (\<lambda>(b, k) m. max (b + k) m) L 1"
    using Cons.hyps(1) [of "h\<lparr>live := L\<rparr>"] by simp
  show ?case using Cons.prems IH by (cases x) (auto simp flip: Cons.hyps(2))
qed

lemma heap_top_pos [simp]: "0 < heap_top h"
proof -
  have "0 < foldr (\<lambda>(b, k) m. max (b + k) m) L (1::nat)" for L
    by (induction L) (auto simp: less_max_iff_disj)
  then show ?thesis by (simp add: heap_top_def)
qed

lemma bump_env_sound: "freeram \<le> 2 ^ 63 \<Longrightarrow> pool_sound (bump_env freeram)"
  by (auto simp: pool_sound_def bump_env_def disj_def dest: heap_top_above)

lemma bump_env_plenty: "bpb < freeram \<Longrightarrow> pool_plenty (bump_env freeram) bpb"
  by (simp add: pool_plenty_def bump_env_def)

lemma not_plenty:
  "sysinfo E h = None \<Longrightarrow> \<not> pool_plenty E bpb"
  "sysinfo E h = Some freeram \<Longrightarrow> \<not> bpb < freeram \<Longrightarrow> \<not> pool_plenty E bpb"
  "palloc E h p n = None \<Longrightarrow> \<not> pool_plenty E bpb"
  "pcalloc E h p n = None \<Longrightarrow> \<not> pool_plenty E bpb"
  by (unfold pool_plenty_def) (metis option.distinct(1) option.inject)+

lemma heap_ok_empty [simp]: "heap_ok empty_heap"
  by (simp add: heap_ok_def empty_heap_def)

section \<open>Pointer access\<close>

lemma get_blk_Some [simp]: "a \<noteq> 0 \<Longrightarrow> get_blk a h = blocks h a"
  by (simp add: get_blk_def)

lemma upd_blk_Some:
  "a \<noteq> 0 \<Longrightarrow> blocks h a = Some b \<Longrightarrow> upd_blk a f h = Some (h\<lparr>blocks := (blocks h)(a \<mapsto> f b)\<rparr>)"
  by (simp add: upd_blk_def)

lemma nxt_blocks_upd [simp]: "nxt (h\<lparr>blocks := B(a \<mapsto> b)\<rparr>) = (nxt (h\<lparr>blocks := B\<rparr>))(a \<mapsto> b_next b)"
  by (auto simp: nxt_def fun_eq_iff)

lemma nxt_blocks_same [simp]: "nxt (h\<lparr>blocks := blocks h\<rparr>) = nxt h"
  and nxt_mem [simp]: "nxt (h\<lparr>mem := m\<rparr>) = nxt h"
  and nxt_live [simp]: "nxt (h\<lparr>live := L\<rparr>) = nxt h"
  by (auto simp: nxt_def fun_eq_iff)

lemma nxt_Some: "nxt h a = Some z \<longleftrightarrow> (\<exists>b. blocks h a = Some b \<and> b_next b = z)"
  by (auto simp: nxt_def)

lemma dom_nxt [simp]: "dom (nxt h) = dom (blocks h)"
  by (auto simp: nxt_def dom_def)

lemma path_Cons_blk:
  "path (nxt h) x (a # as) y \<longleftrightarrow>
     x = a \<and> a \<noteq> 0 \<and> (\<exists>b. blocks h a = Some b \<and> path (nxt h) (b_next b) as y)"
  by (auto simp: nxt_def)

lemma nxt_cong: "blocks h a = blocks h' a \<Longrightarrow> nxt h a = nxt h' a"
  by (simp add: nxt_def)

section \<open>Descriptor lists\<close>

text \<open>\<open>h\<close> extends \<open>h0\<close> by a NULL-terminated chain \<open>cs\<close> of cleared descriptors, all new.\<close>

definition fresh_chain :: "heap \<Rightarrow> heap \<Rightarrow> addr \<Rightarrow> addr list \<Rightarrow> bool" where
  "fresh_chain h0 h a cs \<longleftrightarrow>
     path (nxt h) a cs 0 \<and> distinct cs \<and> set cs \<inter> dom (blocks h0) = {} \<and>
     (\<forall>x. x \<notin> set cs \<longrightarrow> blocks h x = blocks h0 x) \<and> mem h = mem h0 \<and>
     (\<forall>c \<in> set cs. \<exists>b. blocks h c = Some b \<and> b\<lparr>b_next := 0\<rparr> = zero_block) \<and>
     heap_ok h \<and> set (live h0) \<subseteq> set (live h)"

lemma fresh_chain_Nil: "heap_ok h \<Longrightarrow> fresh_chain h h 0 []"
  by (simp add: fresh_chain_def)

lemma pcalloc_fresh:
  assumes "pool_sound E" and "heap_ok h" and "pcalloc E h p n = Some a" and "0 < n"
  shows "a \<noteq> 0" and "blocks h a = None"
proof -
  from assms(1,3) have a: "a \<noteq> 0" "\<And>b k. (b, k) \<in> set (live h) \<Longrightarrow> disj a n b k"
    unfolding pool_sound_def by blast+
  show "a \<noteq> 0" by (fact a(1))
  show "blocks h a = None"
  proof (rule ccontr)
    assume "blocks h a \<noteq> None"
    with assms(2) obtain k where "0 < k" "(a, k) \<in> set (live h)"
      by (auto simp: heap_ok_def dom_def)
    with a(2) [of a k] assms(4) show False by (simp add: disj_def)
  qed
qed

lemma fresh_chain_first:
  assumes "fresh_chain h0 h 0 []" and "new \<noteq> 0" and "blocks h new = None" and "0 < n"
  shows "fresh_chain h0 (h\<lparr>blocks := (blocks h)(new \<mapsto> zero_block), live := (new, n) # live h\<rparr>) new [new]"
  using assms by (auto simp: fresh_chain_def heap_ok_def zero_block_def dom_def)

lemma fresh_chain_snoc:
  assumes fc: "fresh_chain h0 h a cs" and cs: "cs \<noteq> []"
    and new: "new \<noteq> 0" "blocks h new = None" "0 < n"
    and lb: "blocks h (last cs) = Some lb"
  shows "fresh_chain h0 (h\<lparr>live := (new, n) # live h,
      blocks := (blocks h)(new \<mapsto> zero_block, last cs \<mapsto> lb\<lparr>b_next := new\<rparr>)\<rparr>) a (cs @ [new])"
proof -
  let ?h = "h\<lparr>live := (new, n) # live h,
      blocks := (blocks h)(new \<mapsto> zero_block, last cs \<mapsto> lb\<lparr>b_next := new\<rparr>)\<rparr>"
  obtain as l where l: "cs = as @ [l]" using cs by (cases cs rule: rev_cases) auto
  from fc have d: "distinct cs" "set cs \<subseteq> dom (blocks h)"
    using path_dom [of "nxt h" a cs 0] by (auto simp: fresh_chain_def)
  with new(2) have nn: "new \<notin> set cs" by auto
  have nx: "nxt ?h = (nxt h)(new \<mapsto> 0, l \<mapsto> new)"
    by (auto simp: nxt_def zero_block_def l fun_eq_iff)
  from fc l have "path (nxt h) a as l" "l \<noteq> 0" by (auto simp: fresh_chain_def path_append)
  then have p: "path (nxt ?h) a (cs @ [new]) 0"
    using nn d new(1) l unfolding nx by (auto simp: path_append path_upd_notin)
  from fc have ok: "heap_ok h" by (simp add: fresh_chain_def)
  have "heap_ok ?h"
    unfolding heap_ok_def
  proof
    fix x assume "x \<in> dom (blocks ?h)"
    then have "x = new \<or> x \<in> dom (blocks h)" using lb by (auto split: if_splits)
    then show "\<exists>k > 0. (x, k) \<in> set (live ?h)"
      using ok new(3) by (auto simp: heap_ok_def dom_def)
  qed
  moreover have "new \<notin> dom (blocks h0)"
    using fc new(2) nn by (auto simp: fresh_chain_def dom_def)
  ultimately show ?thesis
    using fc p d nn lb l
    by (auto simp: fresh_chain_def zero_block_def)
qed

lemma block_list_alloc_loop_spec:
  assumes "pool_sound E" and "0 < n" and "fresh_chain h0 h blks as"
    and "b = (if as = [] then 0 else last as)"
  shows "\<exists>a h' c cs. block_list_alloc_loop E p n k blks b h = Some (a, h') \<and> fresh_chain h0 h' c cs \<and>
     (a = c \<and> length cs = length as + k \<or> a = 0 \<and> (\<exists>h. pcalloc E h p n = None))"
  using assms(3,4)
proof (induction k arbitrary: blks as b h)
  case 0
  then show ?case by auto
next
  case (Suc k)
  from Suc.prems have ok: "heap_ok h" by (simp add: fresh_chain_def)
  show ?case
  proof (cases "pcalloc E h p n")
    case None
    then show ?thesis using Suc.prems by auto
  next
    case (Some new)
    note new = pcalloc_fresh [OF assms(1) ok Some assms(2)]
    show ?thesis
    proof (cases "as = []")
      case True
      with Suc.prems have "fresh_chain h0 h 0 []" "b = 0" by (auto simp: fresh_chain_def)
      from Suc.IH [OF fresh_chain_first [OF this(1) new assms(2)], of new] Some \<open>b = 0\<close> True
      show ?thesis by simp
    next
      case False
      then have "last as \<in> set as" by simp
      with Suc.prems(1) obtain lb where lb: "blocks h (last as) = Some lb"
        unfolding fresh_chain_def by metis
      have l0: "last as \<noteq> 0" using Suc.prems(1) False path_nonzero [of "nxt h" blks as 0]
        by (metis fresh_chain_def last_in_set)
      have "new \<noteq> last as" using new(2) lb by auto
      moreover note Suc.IH [OF fresh_chain_snoc [OF Suc.prems(1) False new assms(2) lb], of new]
      ultimately show ?thesis using Some l0 lb False Suc.prems(2)
        by (simp add: upd_blk_Some fun_upd_twist)
    qed
  qed
qed

lemma block_list_alloc_spec:
  assumes "pool_sound E" and "heap_ok h" and "0 < k"
  shows "\<exists>a h' c cs. block_list_alloc E p k h = Some (a, h') \<and> fresh_chain h h' c cs \<and>
     (a = c \<and> length cs = k \<or> a = 0 \<and> (\<exists>h. pcalloc E h p sizeof_block = None))"
  using block_list_alloc_loop_spec [OF assms(1) _ fresh_chain_Nil [OF assms(2)], of sizeof_block 0 p k]
    assms(3)
  by (simp add: block_list_alloc_def block_list_alloc_custom_def sizeof_block_def)

section \<open>Partitioning a data area\<close>

text \<open>The number of blocks, out of \<open>k\<close> more, that the counting loop accepts.\<close>

fun fit_count :: "size_t \<Rightarrow> size_t \<Rightarrow> nat \<Rightarrow> nat \<Rightarrow> nat" where
  "fit_count bpb freeram 0 n = n"
| "fit_count bpb freeram (Suc k) n =
     fit_count bpb freeram k (if sz_mul (n + 1) bpb < freeram then n + 1 else n)"

lemma fastalloc_count_path:
  assumes "path (nxt h) b bs y" and "bs \<noteq> []" and "y = 0 \<or> y = block" and "block \<notin> set (tl bs)"
  shows "fastalloc_count bpb freeram block b n h = Some (y, fit_count bpb freeram (length bs) n)"
  using assms
proof (induction bs arbitrary: b n)
  case Nil
  then show ?case by simp
next
  case (Cons a bs)
  then obtain blk where blk: "b = a" "a \<noteq> 0" "blocks h a = Some blk" "path (nxt h) (b_next blk) bs y"
    unfolding path_Cons_blk by auto
  show ?case
  proof (cases "bs = []")
    case True
    with Cons.prems blk show ?thesis
      by (subst fastalloc_count.simps) (auto simp: Let_def)
  next
    case False
    then obtain c bs' where c: "bs = c # bs'" by (cases bs) auto
    with blk(4) have "b_next blk = c" "c \<noteq> 0" by auto
    moreover have "c \<noteq> block" "block \<notin> set (tl bs)" using Cons.prems(4) c by auto
    moreover note Cons.IH [OF blk(4) False Cons.prems(3)]
    ultimately show ?thesis using blk
      by (subst fastalloc_count.simps) (simp add: Let_def)
  qed
qed

lemma fit_count_le: "fit_count bpb freeram k n \<le> n + k"
proof (induction k arbitrary: n)
  case (Suc k)
  from Suc [of n] Suc [of "n + 1"] show ?case by simp
qed simp

lemma fit_count_ge: "n \<le> fit_count bpb freeram k n"
proof (induction k arbitrary: n)
  case (Suc k)
  from Suc [of n] Suc [of "n + 1"] show ?case by auto
qed simp

text \<open>What was accepted fits into free memory without wrapping.\<close>

lemma fit_count_fits:
  assumes "bpb \<le> freeram" and "freeram \<le> 2 ^ 63" and "n * bpb < freeram"
  shows "fit_count bpb freeram k n * bpb < freeram"
  using assms(3)
proof (induction k arbitrary: n)
  case (Suc k)
  have "(n + 1) * bpb < sz_max" using Suc.prems assms(1,2) by (simp add: sz_max_def)
  then have "sz_mul (n + 1) bpb = (n + 1) * bpb" by (rule sz_mul_exact)
  then show ?case using Suc.IH [of "n + 1"] Suc.IH [of n] Suc.prems by simp
qed simp

lemma fit_count_pos:
  assumes "bpb < freeram" and "bpb < sz_max" and "0 < k"
  shows "0 < fit_count bpb freeram k 0"
proof -
  obtain j where "k = Suc j" using assms(3) by (cases k) auto
  then show ?thesis using assms fit_count_ge [of 1 bpb freeram j] by (simp add: sz_mul_def)
qed

text \<open>The block \<open>x\<close> as the partition loop leaves it when it is the \<open>i\<close>-th of \<open>k\<close>.\<close>

definition part_block :: "size_t \<Rightarrow> addr \<Rightarrow> addr \<Rightarrow> nat \<Rightarrow> nat \<Rightarrow> block \<Rightarrow> block" where
  "part_block bpb final_next buf k i x =
     x\<lparr>b_data := buf + i * bpb, b_bytes := 0, b_size := bpb,
       b_next := (if Suc i = k then final_next else b_next x)\<rparr>"

lemma fastalloc_partition_spec:
  assumes "path (nxt h) b bs y" and "distinct bs" and "k \<le> length bs"
  shows "\<exists>h'. fastalloc_partition bpb fin k b buf h = Some h' \<and> mem h' = mem h \<and> live h' = live h \<and>
     (\<forall>i < k. blocks h' (bs ! i) = map_option (part_block bpb fin buf k i) (blocks h (bs ! i))) \<and>
     (\<forall>x. x \<notin> set (take k bs) \<longrightarrow> blocks h' x = blocks h x)"
  using assms
proof (induction k arbitrary: b bs buf h)
  case 0
  then show ?case by simp
next
  case (Suc k)
  then obtain c cs where bs: "bs = c # cs" by (cases bs) auto
  with Suc.prems(1) obtain blk where blk: "b = c" "c \<noteq> 0" "blocks h c = Some blk"
    "path (nxt h) (b_next blk) cs y"
    unfolding bs path_Cons_blk by auto
  let ?blk1 = "blk\<lparr>b_data := buf, b_bytes := 0, b_size := bpb\<rparr>"
  let ?h1 = "h\<lparr>blocks := (blocks h)(c \<mapsto> ?blk1)\<rparr>"
  have nx: "nxt ?h1 = nxt h" using blk by (auto simp: nxt_def fun_eq_iff)
  have d: "c \<notin> set cs" "distinct cs" using Suc.prems(2) bs by auto
  show ?case
  proof (cases "k = 0")
    case True
    then show ?thesis using blk bs
      by (auto simp: upd_blk_Some part_block_def)
  next
    case False
    have p: "path (nxt ?h1) (b_next blk) cs y" using blk(4) nx by simp
    from Suc.IH [OF p d(2), of "buf + bpb"] Suc.prems(3) bs obtain h' where
      h': "fastalloc_partition bpb fin k (b_next blk) (buf + bpb) ?h1 = Some h'"
        "mem h' = mem ?h1" "live h' = live ?h1"
        "\<And>i. i < k \<Longrightarrow> blocks h' (cs ! i) =
           map_option (part_block bpb fin (buf + bpb) k i) (blocks ?h1 (cs ! i))"
        "\<And>x. x \<notin> set (take k cs) \<Longrightarrow> blocks h' x = blocks ?h1 x"
      by auto
    have inner: "blocks h' (bs ! i) = map_option (part_block bpb fin buf (Suc k) i) (blocks h (bs ! i))"
      if "i < Suc k" for i
    proof (cases i)
      case 0
      have "c \<notin> set (take k cs)" using d(1) by (meson in_set_takeD)
      with h'(5) [of c] 0 blk(3) bs False show ?thesis by (simp add: part_block_def)
    next
      case (Suc j)
      with that Suc.prems(3) bs have "j < k" "cs ! j \<noteq> c" using d(1) by auto
      with h'(4) [of j] Suc bs show ?thesis
        by (simp add: part_block_def [abs_def] add.assoc)
    qed
    have outer: "blocks h' x = blocks h x" if "x \<notin> set (take (Suc k) bs)" for x
      using that h'(5) [of x] bs by auto
    have "fastalloc_partition bpb fin (Suc k) b buf h = Some h'"
      using h'(1) blk False by (simp add: upd_blk_Some)
    then show ?thesis using inner outer h'(2,3) by auto
  qed
qed

lemma path_part:
  assumes p: "path (nxt h) x bs y" and n: "0 < n" "n \<le> length bs"
    and part: "\<And>i. i < n \<Longrightarrow> blocks h' (bs ! i) = map_option (part_block bpb fin buf n i) (blocks h (bs ! i))"
  shows "path (nxt h') x (take n bs) fin"
proof -
  obtain m where m: "n = Suc m" using n by (cases n) auto
  with n have tk: "take n bs = take m bs @ [bs ! m]" by (simp add: take_Suc_conv_app_nth)
  have bs: "bs = take m bs @ bs ! m # drop (Suc m) bs" using m n by (simp add: id_take_nth_drop)
  with p have pm: "path (nxt h) x (take m bs) (bs ! m)" and pd: "path (nxt h) (bs ! m) (bs ! m # drop (Suc m) bs) y"
    by (metis path_append path_hd list.distinct(1) list.sel(1))+
  have "nxt h' a = nxt h a" if "a \<in> set (take m bs)" for a
  proof -
    from that obtain i where "i < m" "a = bs ! i" using m n by (auto simp: in_set_conv_nth)
    with part [of i] m show ?thesis by (simp add: nxt_def part_block_def option.map_comp comp_def)
  qed
  then have "path (nxt h') x (take m bs) (bs ! m)" using pm by (simp cong: path_cong)
  moreover have "nxt h' (bs ! m) = Some fin"
    using part [of m] pd m by (auto simp: nxt_def part_block_def)
  ultimately show ?thesis using pd by (auto simp: tk path_append)
qed

lemma fit_count_full:
  assumes "(n + k) * bpb < freeram" and "freeram \<le> 2 ^ 63"
  shows "fit_count bpb freeram k n = n + k"
  using assms(1)
proof (induction k arbitrary: n)
  case (Suc k)
  have "(n + 1) * bpb \<le> (n + Suc k) * bpb" by (intro mult_right_mono) auto
  then have "(n + 1) * bpb < freeram" using Suc.prems by (rule le_less_trans)
  moreover from this assms(2) have "(n + 1) * bpb < sz_max" by (simp add: sz_max_def)
  then have "sz_mul (n + 1) bpb = (n + 1) * bpb" by (rule sz_mul_exact)
  ultimately show ?case using Suc.IH [of "n + 1"] Suc.prems by simp
qed simp

text \<open>
  \<open>h'\<close> is \<open>h\<close> after the first \<open>n\<close> blocks of \<open>bs\<close> got the consecutive \<open>bpb\<close>-byte pieces of a
  fresh region that starts at \<open>buf\<close>; the chain now ends behind the \<open>n\<close>-th block.
\<close>

definition parted :: "size_t \<Rightarrow> addr list \<Rightarrow> nat \<Rightarrow> addr \<Rightarrow> addr \<Rightarrow> heap \<Rightarrow> heap \<Rightarrow> bool" where
  "parted bpb bs n y buf h h' \<longleftrightarrow>
     0 < n \<and> n \<le> length bs \<and> n * bpb < 2 ^ 63 \<and>
     live h' = (buf, n * bpb) # live h \<and> (\<forall>(b, k) \<in> set (live h). disj buf (n * bpb) b k) \<and>
     (\<forall>i < n. blocks h' (bs ! i) = map_option (part_block bpb y buf n i) (blocks h (bs ! i))) \<and>
     (\<forall>x. x \<notin> set (take n bs) \<longrightarrow> blocks h' x = blocks h x)"

lemma block_data_fastalloc_spec:
  assumes E: "pool_sound E" and p: "path (nxt h) block bs y" and bs: "bs \<noteq> []" "distinct bs"
    and y: "y = 0 \<or> y = block" and bpb: "0 < bpb"
  shows "\<exists>bytes h'. block_data_fastalloc E q block bpb h = Some (bytes, h') \<and> mem h' = mem h \<and>
     (bytes = 0 \<and> blocks h' = blocks h \<and> set (live h) \<subseteq> set (live h') \<and> \<not> pool_plenty E bpb \<or>
      (\<exists>n buf. bytes = n * bpb \<and> parted bpb bs n y buf h h' \<and>
        (pool_plenty E (length bs * bpb) \<longrightarrow> n = length bs)))"
proof -
  from p bs(1) have b0: "block \<noteq> 0" and hd: "block = hd bs" by (cases bs; auto)+
  have "block \<notin> set (tl bs)" using hd bs by (cases bs) auto
  note count = fastalloc_count_path [OF p bs(1) y this]
  show ?thesis
  proof (cases "sysinfo E h")
    case None
    then show ?thesis using b0 by (auto simp: block_data_fastalloc_def not_plenty)
  next
    case (Some freeram)
    from E Some have fr: "freeram \<le> 2 ^ 63" by (auto simp: pool_sound_def)
    let ?n = "fit_count bpb freeram (length bs) 0"
    let ?bytes = "sz_mul ?n bpb"
    show ?thesis
    proof (cases "bpb > freeram")
      case True
      then show ?thesis using b0 Some
        by (auto simp: block_data_fastalloc_def not_plenty)
    next
      case le: False
      have "?n * bpb < freeram" using le fr bpb by (intro fit_count_fits) auto
      then have nb: "?bytes = ?n * bpb" "?n * bpb < 2 ^ 63"
        using fr by (auto simp: sz_mul_exact sz_max_def)
      show ?thesis
      proof (cases "palloc E h q ?bytes")
        case None
        then show ?thesis using b0 Some le count
          by (auto simp: block_data_fastalloc_def not_plenty)
      next
        case (Some buf)
        let ?h1 = "h\<lparr>live := (buf, ?bytes) # live h\<rparr>"
        have "path (nxt ?h1) block bs y" "?n \<le> length bs"
          using p fit_count_le [of bpb freeram "length bs" 0] by auto
        from fastalloc_partition_spec [OF this(1) bs(2) this(2), of bpb y buf] obtain h' where
          h': "fastalloc_partition bpb y ?n block buf ?h1 = Some h'" "mem h' = mem h"
            "live h' = (buf, ?bytes) # live h"
            "\<And>i. i < ?n \<Longrightarrow> blocks h' (bs ! i) = map_option (part_block bpb y buf ?n i) (blocks h (bs ! i))"
            "\<And>x. x \<notin> set (take ?n bs) \<Longrightarrow> blocks h' x = blocks h x"
          by auto
        have run: "block_data_fastalloc E q block bpb h = Some (?bytes, h')"
          using b0 \<open>sysinfo E h = Some freeram\<close> le count Some h'(1)
          by (simp add: block_data_fastalloc_def)
        show ?thesis
        proof (cases "?n = 0")
          case True
          have "\<not> bpb < freeram"
            using True fit_count_pos [of bpb freeram "length bs"] bs(1) fr by (auto simp: sz_max_def)
          then have "\<not> pool_plenty E bpb"
            using \<open>sysinfo E h = Some freeram\<close> by (rule not_plenty(2) [rotated])
          moreover have "blocks h' = blocks h" using h'(5) True by auto
          ultimately show ?thesis using run h' True by (auto simp: sz_mul_def)
        next
          case False
          have "parted bpb bs ?n y buf h h'"
            using False h' nb fit_count_le [of bpb freeram "length bs" 0] E Some
            by (auto simp: parted_def pool_sound_def)
          moreover have "pool_plenty E (length bs * bpb) \<longrightarrow> ?n = length bs"
            using fit_count_full [of 0 "length bs" bpb freeram] fr \<open>sysinfo E h = Some freeram\<close>
            by (auto simp: pool_plenty_def dest: spec [of _ h])
          ultimately show ?thesis using run h'(2) nb(1) by metis
        qed
      qed
    qed
  qed
qed

lemma parted_path: "parted bpb bs n y buf h h' \<Longrightarrow> path (nxt h) x bs z \<Longrightarrow> path (nxt h') x (take n bs) y"
  unfolding parted_def by (rule path_part [of h x bs z n h' bpb y buf]) auto

section \<open>Rings\<close>

lemma path_forward:
  assumes "path (nxt h) b (a # c # bs) y" and "first \<notin> set (c # bs)"
  shows "\<exists>blk. b = a \<and> a \<noteq> 0 \<and> blocks h a = Some blk \<and> b_next blk = c \<and> c \<noteq> 0 \<and> c \<noteq> first \<and>
     path (nxt h) c (c # bs) y"
  using assms unfolding path_Cons_blk by auto

lemma forge_ring_loop_list:
  assumes "path (nxt h) b (bs @ [l]) 0" and "first \<notin> set (tl (bs @ [l]))"
  shows "\<exists>lb. blocks h l = Some lb \<and>
     forge_ring_loop first b h = Some (h\<lparr>blocks := (blocks h)(l \<mapsto> lb\<lparr>b_next := first\<rparr>)\<rparr>)"
  using assms
proof (induction bs arbitrary: b)
  case Nil
  then show ?case by (subst forge_ring_loop.simps) (auto simp: upd_blk_Some nxt_Some)
next
  case (Cons a bs)
  obtain c cs where c: "bs @ [l] = c # cs" by (cases bs) auto
  from Cons.prems c path_forward [of h b a c cs 0 first] obtain blk where blk: "b = a" "a \<noteq> 0"
    "blocks h a = Some blk" "b_next blk = c" "c \<noteq> 0" "c \<noteq> first" "path (nxt h) c (bs @ [l]) 0"
    by auto
  have "forge_ring_loop first b h = forge_ring_loop first c h"
    using blk(1-6) by (subst forge_ring_loop.simps) simp
  moreover have "first \<notin> set (tl (bs @ [l]))" using Cons.prems(2) c by simp
  ultimately show ?case using Cons.IH [OF blk(7)] by (simp only: simp_thms)
qed

lemma forge_ring_loop_ring:
  assumes "path (nxt h) b (bs @ [l]) first" and "first \<notin> set (tl (bs @ [l]))" and "first \<noteq> 0"
  shows "forge_ring_loop first b h = Some h"
  using assms
proof (induction bs arbitrary: b)
  case Nil
  then show ?case by (subst forge_ring_loop.simps) (auto simp: nxt_Some)
next
  case (Cons a bs)
  obtain c cs where c: "bs @ [l] = c # cs" by (cases bs) auto
  from Cons.prems c path_forward [of h b a c cs first first] obtain blk where blk: "b = a" "a \<noteq> 0"
    "blocks h a = Some blk" "b_next blk = c" "c \<noteq> 0" "c \<noteq> first" "path (nxt h) c (bs @ [l]) first"
    by auto
  from Cons.IH [OF blk(7)] Cons.prems(2,3) c blk(1-6) show ?case
    by (subst forge_ring_loop.simps) simp
qed

lemma forge_ring_list:
  assumes "path (nxt h) x bs 0" and "bs \<noteq> []" and "distinct bs"
  shows "\<exists>lb. blocks h (last bs) = Some lb \<and>
     forge_ring x h = Some (h\<lparr>blocks := (blocks h)(last bs \<mapsto> lb\<lparr>b_next := x\<rparr>)\<rparr>) \<and>
     is_ring (nxt (h\<lparr>blocks := (blocks h)(last bs \<mapsto> lb\<lparr>b_next := x\<rparr>)\<rparr>)) x bs"
proof -
  obtain as l where l: "bs = as @ [l]" using assms(2) by (cases bs rule: rev_cases) auto
  have x: "x = hd bs" "x \<noteq> 0" using assms(1,2) by (cases bs; auto)+
  then have "x \<notin> set (tl bs)" using assms(2,3) by (cases bs) auto
  with assms(1) l forge_ring_loop_list [of h x as l x] obtain lb where lb: "blocks h (last bs) = Some lb"
    "forge_ring x h = Some (h\<lparr>blocks := (blocks h)(last bs \<mapsto> lb\<lparr>b_next := x\<rparr>)\<rparr>)"
    by (auto simp: forge_ring_def)
  have "path ((nxt h)(l \<mapsto> x)) x bs x"
    using assms l by (auto simp: path_append path_upd_notin)
  then show ?thesis using lb assms l by (auto simp: is_ring_def)
qed

lemma forge_ring_ring: "is_ring (nxt h) x bs \<Longrightarrow> forge_ring x h = Some h"
proof -
  assume r: "is_ring (nxt h) x bs"
  then have "x = hd bs" "x \<noteq> 0" by (cases bs; auto simp: is_ring_def)+
  moreover from this r have "x \<notin> set (tl bs)" by (cases bs) (auto simp: is_ring_def)
  moreover obtain as l where "bs = as @ [l]" using r by (cases bs rule: rev_cases) (auto simp: is_ring_def)
  ultimately show ?thesis using r forge_ring_loop_ring [of h x as l x]
    by (auto simp: forge_ring_def is_ring_def)
qed

section \<open>Emptying and measuring a ring\<close>

lemma get_bytes_loop_path:
  assumes "path (nxt h) b (bs @ [l]) y" and "y = 0 \<or> y = buf" and "buf \<notin> set (tl (bs @ [l]))"
  shows "get_bytes_loop buf b sz by h =
     Some (foldl (\<lambda>s a. sz_add s (b_size (the (blocks h a)))) sz (bs @ [l]),
           foldl (\<lambda>s a. sz_add s (b_bytes (the (blocks h a)))) by (bs @ [l]))"
  using assms
proof (induction bs arbitrary: b sz "by")
  case Nil
  then show ?case by (subst get_bytes_loop.simps) (auto simp: nxt_Some)
next
  case (Cons a bs)
  obtain c cs where c: "bs @ [l] = c # cs" by (cases bs) auto
  from Cons.prems c path_forward [of h b a c cs y buf] obtain blk where blk: "b = a" "a \<noteq> 0"
    "blocks h a = Some blk" "b_next blk = c" "c \<noteq> 0" "c \<noteq> buf" "path (nxt h) c (bs @ [l]) y"
    by auto
  moreover have "buf \<notin> set (tl (bs @ [l]))" using Cons.prems(3) c by simp
  ultimately show ?case using Cons.IH [OF blk(7) Cons.prems(2)]
    by (subst get_bytes_loop.simps) (simp add: Let_def)
qed

lemma foldl_sz_add:
  assumes "(\<Sum>a\<leftarrow>as. f a) + s < sz_max"
  shows "foldl (\<lambda>s a. sz_add s (f a)) s as = s + (\<Sum>a\<leftarrow>as. f a)"
  using assms by (induction as arbitrary: s) (simp_all add: sz_add_exact add_ac)

text \<open>The store after \<open>bytes\<close> was cleared in the blocks \<open>S\<close> and \<open>state\<close> in the blocks \<open>T\<close>.\<close>

definition clr :: "addr set \<Rightarrow> addr set \<Rightarrow> (addr \<rightharpoonup> block) \<Rightarrow> (addr \<rightharpoonup> block)" where
  "clr S T B = (\<lambda>a. map_option (\<lambda>x. x\<lparr>b_bytes := (if a \<in> S then 0 else b_bytes x),
     b_state := (if a \<in> T then BLB_STATE_NORMAL else b_state x)\<rparr>) (B a))"

lemma clr_clr: "clr S T (clr S' T' B) = clr (S \<union> S') (T \<union> T') B"
  by (auto simp: clr_def fun_eq_iff option.map_comp comp_def intro!: option.map_cong)

lemma nxt_clr [simp]: "nxt (h\<lparr>blocks := clr S T (blocks h)\<rparr>) = nxt h"
  by (auto simp: nxt_def clr_def fun_eq_iff option.map_comp comp_def)

lemma dom_clr [simp]: "dom (clr S T B) = dom B"
  by (auto simp: clr_def dom_def)

lemma clr_single:
  assumes "B a = Some x" and "B c = Some y" and "a \<noteq> c"
  shows "B(a \<mapsto> x\<lparr>b_bytes := 0\<rparr>, c \<mapsto> y\<lparr>b_state := BLB_STATE_NORMAL\<rparr>) = clr {a} {c} B"
  using assms by (auto simp: clr_def fun_eq_iff option.map_ident_strong)

lemma clr_self:
  assumes "B a = Some x"
  shows "B(a \<mapsto> x\<lparr>b_bytes := 0, b_state := BLB_STATE_NORMAL\<rparr>) = clr {a} {a} B"
  using assms by (auto simp: clr_def fun_eq_iff option.map_ident_strong)

lemma blb_empty_loop_ring:
  assumes "path (nxt h) b (bs @ [l]) blb" and "distinct (bs @ [l])" and "blb \<notin> set (tl (bs @ [l]))"
    and "blb \<noteq> 0" and "blb \<in> dom (blocks h)"
  shows "blb_empty_loop blb b h =
     Some (h\<lparr>blocks := clr (set (bs @ [l])) (insert blb (set (tl (bs @ [l])))) (blocks h)\<rparr>)"
  using assms
proof (induction bs arbitrary: b h)
  case Nil
  then obtain blk x where blk: "b = l" "l \<noteq> 0" "blocks h l = Some blk" "b_next blk = blb"
    "blocks h blb = Some x"
    by (auto simp: nxt_Some)
  show ?case
  proof (cases "blb = l")
    case True
    with blk show ?thesis
      by (subst blb_empty_loop.simps) (simp add: upd_blk_def clr_self Let_def)
  next
    case False
    with blk Nil.prems(4) show ?thesis
      by (subst blb_empty_loop.simps) (simp add: upd_blk_def clr_single Let_def)
  qed
next
  case (Cons a bs)
  obtain c cs where c: "bs @ [l] = c # cs" by (cases bs) auto
  from Cons.prems c path_forward [of h b a c cs blb blb] obtain blk where blk: "b = a" "a \<noteq> 0"
    "blocks h a = Some blk" "b_next blk = c" "c \<noteq> 0" "c \<noteq> blb" "path (nxt h) c (bs @ [l]) blb"
    by auto
  from blk(7) c obtain cb where cb: "blocks h c = Some cb" by (auto simp: nxt_Some)
  have ac: "a \<noteq> c" "distinct (bs @ [l])" using Cons.prems(2) c by auto
  let ?h2 = "h\<lparr>blocks := clr {a} {c} (blocks h)\<rparr>"
  have step: "blb_empty_loop blb b h = blb_empty_loop blb c ?h2"
    using blk cb ac
    by (subst blb_empty_loop.simps) (simp add: upd_blk_def Let_def clr_single [symmetric])
  have "blb_empty_loop blb c ?h2 =
     Some (?h2\<lparr>blocks := clr (set (bs @ [l])) (insert blb (set (tl (bs @ [l])))) (blocks ?h2)\<rparr>)"
    using Cons.prems blk(7) ac(2) c
    by (intro Cons.IH) auto
  then show ?case using step c by (simp add: clr_clr Un_commute insert_commute del: set_append)
qed

lemma blb_empty_ring:
  assumes "is_ring (nxt h) x bs"
  shows "blb_empty x h = Some (h\<lparr>blocks := clr (set bs) (set bs) (blocks h)\<rparr>)"
proof -
  obtain as l where l: "bs = as @ [l]" using assms by (cases bs rule: rev_cases) (auto simp: is_ring_def)
  have x: "x = hd bs" "x \<noteq> 0" "x \<notin> set (tl bs)" "insert x (set (tl bs)) = set bs" "x \<in> dom (blocks h)"
    using assms path_dom [of "nxt h" x bs x] by (cases bs; auto simp: is_ring_def)+
  from assms l have "path (nxt h) x (as @ [l]) x" "distinct (as @ [l])" by (auto simp: is_ring_def)
  from blb_empty_loop_ring [OF this] x l show ?thesis by (simp add: blb_empty_def)
qed

lemma blb_rw_get_bytes_ring:
  assumes "is_ring (nxt h) (rw_buf rw) bs"
    and "(\<Sum>a\<leftarrow>bs. b_size (the (blocks h a))) < sz_max" and "(\<Sum>a\<leftarrow>bs. b_bytes (the (blocks h a))) < sz_max"
  shows "blb_rw_get_bytes (Some rw) h =
     Some (\<Sum>a\<leftarrow>bs. b_size (the (blocks h a)), \<Sum>a\<leftarrow>bs. b_bytes (the (blocks h a)))"
proof -
  obtain as l where l: "bs = as @ [l]" using assms by (cases bs rule: rev_cases) (auto simp: is_ring_def)
  have "rw_buf rw \<notin> set (tl bs)"
    using assms(1) is_ring_hd [OF assms(1)] by (cases bs) (auto simp: is_ring_def)
  with assms(1) l have "get_bytes_loop (rw_buf rw) (rw_buf rw) 0 0 h =
     Some (foldl (\<lambda>s a. sz_add s (b_size (the (blocks h a)))) 0 bs,
           foldl (\<lambda>s a. sz_add s (b_bytes (the (blocks h a)))) 0 bs)"
    by (subst get_bytes_loop_path [of h _ as l "rw_buf rw"]) (auto simp: is_ring_def)
  then show ?thesis using assms(2,3) by (simp add: blb_rw_get_bytes_def foldl_sz_add)
qed

end
