(* ===== verification/C_Double.thy ===== *)
theory C_Double
  imports Complex_Main BW_Prelude
begin

text \<open>
  IEEE-754 arithmetic as the C code uses it for sizes, water marks and samples. A finite
  double is a rational; \<open>dbl x\<close> is \<open>x\<close> rounded to 53 significant bits, ties to even, so
  \<open>dbl (x + y)\<close> is the C sum of two doubles and likewise for the other operations; \<open>sgl\<close> rounds to the
  24 bits of a \<open>float\<close>. The values the code computes with lie between \<open>2 ^ -60\<close> and \<open>2 ^ 128\<close>, far inside the
  exponent range of doubles, so overflow and subnormal doubles play no part; a division by zero is
  handled where it occurs.
\<close>

section \<open>Rounding\<close>

fun nlog2 :: "nat \<Rightarrow> nat" where
  "nlog2 n = (if n \<le> 1 then 0 else Suc (nlog2 (n div 2)))"

declare nlog2.simps [simp del]

text \<open>The exponent of a positive rational: \<open>2 ^ e \<le> x < 2 ^ (e + 1)\<close>.\<close>

definition dexp :: "rat \<Rightarrow> int" where
  "dexp x = (let (p, q) = quotient_of x;
                 e = int (nlog2 (nat p)) - int (nlog2 (nat q))
             in if 2 powi e \<le> x then e else e - 1)"

definition round_even :: "rat \<Rightarrow> int" where
  "round_even x = (let f = \<lfloor>x\<rfloor>; d = x - of_int f in
     if d < 1 / 2 then f else if d > 1 / 2 then f + 1 else if even f then f else f + 1)"

text \<open>Rounding to \<open>p + 1\<close> significant bits.\<close>

definition rnd_pos :: "nat \<Rightarrow> rat \<Rightarrow> rat" where
  "rnd_pos p x = (let u = 2 powi (dexp x - int p) in of_int (round_even (x / u)) * u)"

definition rnd :: "nat \<Rightarrow> rat \<Rightarrow> rat" where
  "rnd p x = (if x = 0 then 0 else if x > 0 then rnd_pos p x else - rnd_pos p (- x))"

definition dbl :: "rat \<Rightarrow> rat" where "dbl x = rnd 52 x"

definition sgl :: "rat \<Rightarrow> rat" where "sgl x = rnd 23 x"

text \<open>Conversion to \<open>size_t\<close> truncates; outside the range of \<open>size_t\<close> it is undefined.\<close>

definition dbl_to_size :: "rat \<Rightarrow> size_t option" where
  "dbl_to_size x = (if 0 \<le> x \<and> x < of_nat sz_max then Some (nat \<lfloor>x\<rfloor>) else None)"

definition dbl_of_size :: "size_t \<Rightarrow> rat" where
  "dbl_of_size n = dbl (of_nat n)"

lemma nlog2_bounds: "0 < n \<Longrightarrow> 2 ^ nlog2 n \<le> n \<and> n < 2 ^ Suc (nlog2 n)"
proof (induction n rule: nlog2.induct)
  case (1 n)
  show ?case
  proof (cases "n \<le> 1")
    case True
    with "1.prems" have "n = 1" by simp
    then show ?thesis by (simp add: nlog2.simps)
  next
    case False
    then have "0 < n div 2" by auto
    with "1.IH" False have *: "2 ^ nlog2 (n div 2) \<le> n div 2" "n div 2 < 2 ^ Suc (nlog2 (n div 2))"
      by auto
    have "nlog2 n = Suc (nlog2 (n div 2))" using False by (simp add: nlog2.simps [of n])
    moreover have "2 * (n div 2) \<le> n" "n < 2 * (n div 2) + 2" by auto
    ultimately show ?thesis using * by auto
  qed
qed

lemma dexp_bounds:
  assumes "0 < x"
  shows "2 powi dexp x \<le> x" and "x < 2 powi (dexp x + 1)"
proof -
  obtain p q where pq: "quotient_of x = (p, q)" by force
  have q: "0 < q" and x: "x = of_int p / of_int q"
    using quotient_of_denom_pos [OF pq] quotient_of_div [OF pq] by auto
  with assms have p: "0 < p" by (simp add: zero_less_divide_iff)
  define a b where "a = nlog2 (nat p)" and "b = nlog2 (nat q)"
  note bnd = nlog2_bounds [of "nat p"] nlog2_bounds [of "nat q"]
  have "2 ^ a \<le> p" "p < 2 ^ Suc a" "2 ^ b \<le> q" "q < 2 ^ Suc b"
    using bnd p q by (simp_all only: a_def b_def) (simp_all add: nat_less_iff le_nat_iff)
  then have P: "(2::rat) ^ a \<le> of_int p" "of_int p < (2::rat) ^ Suc a"
    and Q: "(2::rat) ^ b \<le> of_int q" "of_int q < (2::rat) ^ Suc b"
    by (metis of_int_le_iff of_int_less_iff of_int_numeral of_int_power)+
  have pw: "(2::rat) powi (int a - int b) = 2 ^ a / 2 ^ b"
    by (simp add: power_int_diff)
  have hi: "x < 2 powi (int a - int b + 1)"
  proof -
    have "x < 2 ^ Suc a / 2 ^ b"
      unfolding x using P Q p by (intro frac_less) auto
    also have "\<dots> = 2 powi (int a - int b + 1)" by (simp add: power_int_add pw)
    finally show ?thesis .
  qed
  have lo: "2 powi (int a - int b - 1) \<le> x"
  proof -
    have "2 powi (int a - int b - 1) = 2 ^ a / (2::rat) ^ Suc b"
      by (simp add: power_int_diff)
    also have "\<dots> \<le> x" unfolding x using P Q p q by (intro frac_le) auto
    finally show ?thesis .
  qed
  have e: "dexp x = (if 2 powi (int a - int b) \<le> x then int a - int b else int a - int b - 1)"
    by (simp add: dexp_def pq a_def b_def Let_def)
  show "2 powi dexp x \<le> x" using lo by (simp add: e)
  show "x < 2 powi (dexp x + 1)" using hi by (simp add: e)
qed

lemma round_even_error: "\<bar>of_int (round_even x) - x\<bar> \<le> 1 / 2"
  unfolding round_even_def Let_def
  using floor_correct [of x] by (auto simp: abs_le_iff)

lemma round_even_int [simp]: "round_even (of_int k) = k"
  by (simp add: round_even_def)

lemma rnd_0 [simp]: "rnd p 0 = 0" "dbl 0 = 0" "sgl 0 = 0"
  by (simp_all add: rnd_def dbl_def sgl_def)

lemma rnd_minus: "rnd p (- x) = - rnd p x"
  by (auto simp: rnd_def)

text \<open>Rounding errs by at most one part in \<open>2 ^ (p + 1)\<close>.\<close>

lemma rnd_error:
  assumes "0 < x"
  shows "\<bar>rnd p x - x\<bar> \<le> x / 2 ^ Suc p"
proof -
  define u where "u = (2::rat) powi (dexp x - int p)"
  have u: "0 < u" by (simp add: u_def)
  have u2: "u * 2 ^ p = 2 powi dexp x" by (simp add: u_def power_int_diff)
  have "\<bar>of_int (round_even (x / u)) - x / u\<bar> * u \<le> 1 / 2 * u"
    using round_even_error [of "x / u"] u by (intro mult_right_mono) auto
  also have "\<bar>of_int (round_even (x / u)) - x / u\<bar> * u = \<bar>of_int (round_even (x / u)) * u - x\<bar>"
    using u abs_mult [of "of_int (round_even (x / u)) - x / u" u] by (simp add: left_diff_distrib)
  finally have "\<bar>rnd p x - x\<bar> \<le> u / 2"
    using assms by (simp add: rnd_def rnd_pos_def u_def [symmetric])
  also have "u / 2 \<le> x / 2 ^ Suc p" using dexp_bounds(1) [OF assms] u2 by (simp add: field_simps)
  finally show ?thesis .
qed

lemma rnd_error_abs: "\<bar>rnd p x - x\<bar> \<le> \<bar>x\<bar> / 2 ^ Suc p"
proof (cases x "0 :: rat" rule: linorder_cases)
  case less
  then have "\<bar>rnd p (- x) - (- x)\<bar> \<le> (- x) / 2 ^ Suc p" by (intro rnd_error) simp
  then show ?thesis using less by (simp add: rnd_minus)
qed (use rnd_error [of x p] in simp_all)

lemma dbl_error: "0 < x \<Longrightarrow> \<bar>dbl x - x\<bar> \<le> x / 2 ^ 53"
  using rnd_error [of x 52] by (simp add: dbl_def)

text \<open>Integers of at most \<open>p + 1\<close> bits are exact.\<close>

lemma rnd_nat_exact:
  assumes "n < 2 ^ Suc p"
  shows "rnd p (of_nat n) = of_nat n"
proof (cases "n = 0")
  case True
  then show ?thesis by simp
next
  case False
  let ?x = "of_nat n :: rat"
  have x: "0 < ?x" using False by simp
  define e where "e = dexp ?x"
  have "2 powi e \<le> ?x" using dexp_bounds(1) [OF x] by (simp add: e_def)
  also have "?x < of_nat (2 ^ Suc p)" using assms by (simp only: of_nat_less_iff)
  also have "\<dots> = 2 powi int (Suc p)" by (simp only: power_int_of_nat of_nat_power of_nat_numeral)
  finally have lt: "(2::rat) powi e < 2 powi int (Suc p)" .
  have e: "e < int (Suc p)"
  proof (rule ccontr)
    assume "\<not> e < int (Suc p)"
    then have "(2::rat) powi int (Suc p) \<le> 2 powi e" by (intro power_int_increasing) auto
    with lt show False by simp
  qed
  define k where "k = nat (int p - e)"
  have k: "e - int p = - int k" using e by (simp add: k_def)
  define u where "u = (2::rat) powi (e - int p)"
  have u: "u = 1 / 2 ^ k" by (simp add: u_def k power_int_minus divide_inverse)
  then have "?x / u = of_int (int n * 2 ^ k)" by simp
  then have "round_even (?x / u) = int n * 2 ^ k" by (metis round_even_int)
  then show ?thesis using x u by (simp add: rnd_def rnd_pos_def e_def [symmetric] u_def [symmetric])
qed

lemma dbl_nat_exact: "n < 2 ^ 53 \<Longrightarrow> dbl (of_nat n) = of_nat n"
  using rnd_nat_exact [of n 52] by (simp add: dbl_def)

lemma dbl_int_exact: "\<bar>k\<bar> < 2 ^ 53 \<Longrightarrow> dbl (of_int k) = of_int k"
  using dbl_nat_exact [of "nat \<bar>k\<bar>"] rnd_minus [of 52 "of_int k"] by (cases "0 \<le> k") (simp_all add: dbl_def nat_less_iff)

lemma sgl_nat_exact: "n < 2 ^ 24 \<Longrightarrow> sgl (of_nat n) = of_nat n"
  using rnd_nat_exact [of n 23] by (simp add: sgl_def)

section \<open>Division of sizes\<close>

text \<open>
  The quotient of two sizes below \<open>2 ^ 53\<close>, computed in doubles, truncates to the integer
  quotient, and it equals that integer exactly when the division leaves no remainder.
\<close>

lemma dbl_div_between:
  assumes m: "m < 2 ^ 53" and a: "0 < a" and r: "m mod a \<noteq> 0"
  defines "d \<equiv> dbl (of_nat m / of_nat a)"
  shows "of_nat (m div a) < d" and "d < of_nat (m div a) + 1"
proof -
  let ?x = "of_nat m / of_nat a :: rat" and ?n = "of_nat (m div a) :: rat" and ?a = "of_nat a :: rat"
  have A: "0 < ?a" using a by simp
  have mx: "of_nat m = ?n * ?a + of_nat (m mod a)"
    by (metis of_nat_add of_nat_mult div_mult_mod_eq)
  have r1: "1 \<le> (of_nat (m mod a) :: rat)" using r by simp
  have "of_nat (Suc (m mod a)) \<le> ?a" using a by (simp only: of_nat_le_iff Suc_le_eq mod_less_divisor)
  then have r2: "of_nat (m mod a) + 1 \<le> ?a" by simp
  have x0: "0 < ?x" using r a by (cases "m = 0") auto
  have "of_nat m < (2 ^ 53 :: rat)" using m by (metis of_nat_less_iff of_nat_numeral of_nat_power)
  then have "?x / 2 ^ 53 < 1 / ?a" using A by (simp add: field_simps)
  with dbl_error [OF x0] have err: "\<bar>d - ?x\<bar> < 1 / ?a" by (simp add: d_def)
  have x: "?x = ?n + of_nat (m mod a) / ?a" unfolding mx using A by (simp add: add_divide_distrib)
  have lo: "?n + 1 / ?a \<le> ?x" unfolding x using divide_right_mono [OF r1, of ?a] A by simp
  have hi: "?x \<le> ?n + 1 - 1 / ?a"
    unfolding x using divide_right_mono [OF r2, of ?a] A by (simp add: add_divide_distrib)
  show "?n < d" using err lo by (simp add: abs_less_iff)
  show "d < ?n + 1" using err hi by (simp add: abs_less_iff)
qed

lemma dbl_div_sizes:
  assumes m: "m < 2 ^ 53" and a: "0 < a" "a < 2 ^ 53"
  defines "d \<equiv> dbl (dbl_of_size m / dbl_of_size a)"
  shows "dbl_to_size d = Some (m div a)" and "d \<noteq> dbl_of_size (m div a) \<longleftrightarrow> m mod a \<noteq> 0"
proof -
  have n: "m div a < 2 ^ 53" using m div_le_dividend [of m a] by linarith
  have d: "d = dbl (of_nat m / of_nat a)" using m a by (simp add: d_def dbl_of_size_def dbl_nat_exact)
  have dn: "dbl_of_size (m div a) = of_nat (m div a)" using n by (simp add: dbl_of_size_def dbl_nat_exact)
  have "Suc (m div a) \<le> sz_max" using n by (simp add: sz_max_def)
  then have "of_nat (Suc (m div a)) \<le> (of_nat sz_max :: rat)" by (simp only: of_nat_le_iff)
  then have big: "of_nat (m div a) + 1 \<le> (of_nat sz_max :: rat)" by simp
  have "dbl_to_size d = Some (m div a) \<and> (d \<noteq> dbl_of_size (m div a) \<longleftrightarrow> m mod a \<noteq> 0)"
  proof (cases "m mod a = 0")
    case True
    then have "m = m div a * a" using div_mult_mod_eq [of m a] by simp
    then have "(of_nat m :: rat) = of_nat (m div a) * of_nat a" using of_nat_mult [of "m div a" a] by simp
    then have "(of_nat m / of_nat a :: rat) = of_nat (m div a)" using a(1) by simp
    then have dm: "d = of_nat (m div a)" using d dbl_nat_exact [OF n] by simp
    moreover have "(of_nat (m div a) :: rat) < of_nat sz_max" using big by linarith
    ultimately have "dbl_to_size d = Some (m div a)"
      unfolding dbl_to_size_def by (simp only: of_nat_0_le_iff simp_thms if_True floor_of_nat nat_int)
    then show ?thesis using dm dn True by simp
  next
    case False
    note b = dbl_div_between [OF m a(1) False, folded d]
    have "\<lfloor>d\<rfloor> = int (m div a)" using b by (intro floor_unique) auto
    moreover have "0 \<le> d" using b(1) by (meson less_le_trans of_nat_0_le_iff less_imp_le order_trans)
    moreover have "d < of_nat sz_max" using b(2) big by linarith
    ultimately show ?thesis using b(1) dn False by (auto simp: dbl_to_size_def)
  qed
  then show "dbl_to_size d = Some (m div a)" and "d \<noteq> dbl_of_size (m div a) \<longleftrightarrow> m mod a \<noteq> 0"
    by auto
qed


section \<open>Bounds\<close>

lemma dbl_bounds:
  assumes "0 \<le> x"
  shows dbl_le: "dbl x \<le> x * (1 + 1 / 2 ^ 53)" and dbl_ge: "x * (1 - 1 / 2 ^ 53) \<le> dbl x"
proof -
  have "dbl x \<le> x * (1 + 1 / 2 ^ 53) \<and> x * (1 - 1 / 2 ^ 53) \<le> dbl x"
  proof (cases "x = 0")
    case True
    then show ?thesis by simp
  next
    case False
    then have "\<bar>dbl x - x\<bar> \<le> x / 2 ^ 53" using assms by (intro dbl_error) simp
    moreover define e where "e = (1 / 2 ^ 53 :: rat)"
    have "x / 2 ^ 53 = x * e" by (simp add: e_def)
    ultimately have "\<bar>dbl x - x\<bar> \<le> x * e" by (simp only:)
    then have "dbl x \<le> x + x * e" "x - x * e \<le> dbl x" by (simp_all only: abs_le_iff) (simp_all add: algebra_simps)
    then have "dbl x \<le> x * (1 + e) \<and> x * (1 - e) \<le> dbl x" by (simp add: distrib_left right_diff_distrib)
    then show ?thesis by (simp only: e_def)
  qed
  then show "dbl x \<le> x * (1 + 1 / 2 ^ 53)" and "x * (1 - 1 / 2 ^ 53) \<le> dbl x" by auto
qed

lemma dbl_nonneg: "0 \<le> x \<Longrightarrow> 0 \<le> dbl x"
  by (rule order_trans [OF _ dbl_ge]) simp_all

lemma dbl_neg: "x \<le> 0 \<Longrightarrow> dbl x \<le> 0"
  using dbl_nonneg [of "- x"] by (simp add: dbl_def rnd_minus)

end
