(* ===== verification/Ring_Buf.thy ===== *)
theory Ring_Buf
  imports Block_List C_Double
begin

text \<open>
  Model of \<open>src/buf/ring-buf.c\<close>, the flexible ring buffer: the descriptor \<open>ring_t\<close> and the
  operations on it, as functions of the ring and the heap. The look-up of the ring from its
  handle and the state of its io descriptors belong to the machine layer and are added in
  the theory of the machines. A mutex that a call holds when it returns is a boolean of the
  ring; locking a held mutex blocks, so the call has no result.
\<close>

section \<open>The ring descriptor\<close>

datatype rb_state_e = RB_STATE_NOINIT | RB_STATE_READY

datatype io_block_e = IO_NO_BLOCK | IO_BLOCK

record ring_t =
  r_size :: size_t
  r_bytes :: size_t
  r_wp :: addr
  r_wlock :: bool
  r_rp :: addr
  r_rlock :: bool
  r_flush :: bool
  r_block_size :: size_t
  r_block_align :: size_t
  r_block_realloc :: size_t
  r_high_water_mark :: size_t
  r_high_water_count :: size_t
  r_low_water_mark :: size_t
  r_min_return_size :: size_t
  r_state :: rb_state_e

definition KB :: nat where "KB = 1024"
definition MB :: nat where "MB = KB * KB"

definition RB_DEFAULT_BUF_BYTES :: size_t where "RB_DEFAULT_BUF_BYTES = 100 * MB"
definition RB_DEFAULT_ALIGN :: size_t where "RB_DEFAULT_ALIGN = 1 * MB"
definition RB_DEFAULT_REALLOC :: size_t where "RB_DEFAULT_REALLOC = 16"

section \<open>Water marks\<close>

text \<open>The fraction of the high water mark at which writing resumes, as doubles compute it.\<close>

definition lwm_fraction :: "size_t \<Rightarrow> rat" where
  "lwm_fraction count =
     (let lwm = dbl (1 - dbl (dbl (1 / 10) * dbl_of_size count))
      in if lwm > 0 then lwm else dbl (1 / 10))"

definition high_water_mark_hit :: "ring_t \<Rightarrow> ring_t option" where
  "high_water_mark_hit ring = do {
     let count = sz_add (r_high_water_count ring) 1;
     mark \<leftarrow> dbl_to_size (dbl (lwm_fraction count * dbl_of_size (r_high_water_mark ring)));
     Some (ring\<lparr>r_high_water_count := count, r_low_water_mark := mark\<rparr>)
   }"

definition low_water_mark_hit :: "ring_t \<Rightarrow> ring_t" where
  "low_water_mark_hit ring =
     (if r_bytes ring < r_low_water_mark ring then ring\<lparr>r_low_water_mark := 0\<rparr> else ring)"

section \<open>Reading\<close>

text \<open>\<open>while (remaining % align != 0) remaining--\<close>\<close>

function align_down :: "size_t \<Rightarrow> nat \<Rightarrow> size_t" where
  "align_down remaining align =
     (if remaining mod align \<noteq> 0 then align_down (remaining - 1) align else remaining)"
  by pat_completeness auto
termination
proof (relation "measure fst")
  fix remaining align :: nat
  assume "remaining mod align \<noteq> 0"
  then have "remaining \<noteq> 0" by (metis mod_0)
  then show "((remaining - 1, align), remaining, align) \<in> measure fst" by simp
qed simp

declare align_down.simps [simp del]

text \<open>
  The copying loop of \<open>buf_read\<close>. A read that finds the current block empty goes on waiting
  if it is blocking or stands inside an aligned unit: with no other thread that is a loop
  without end, and the loop has no result.
\<close>

partial_function (option) rb_read_loop ::
    "io_block_e \<Rightarrow> nat \<Rightarrow> addr \<Rightarrow> addr \<Rightarrow> size_t \<Rightarrow> size_t \<Rightarrow> heap \<Rightarrow> (addr \<times> size_t \<times> heap) option" where
  "rb_read_loop block align b data remaining bytes_read h =
     (if remaining = 0 then Some (b, bytes_read, h)
      else do {
        blk \<leftarrow> get_blk b h;
        let n = b_bytes blk;
        (if n = 0 then
           (if block = IO_BLOCK then rb_read_loop block align b data remaining bytes_read h
            else if bytes_read mod align \<noteq> 0 then rb_read_loop block align b data remaining bytes_read h
            else Some (b, bytes_read, h))
         else if remaining < n then do {
           let m1 = mem_copy (mem h) data (b_data blk) remaining;
           let m2 = mem_copy m1 (b_data blk) (b_data blk + remaining) (n - remaining);
           h' \<leftarrow> upd_blk b (b_bytes_update (\<lambda>k. k - remaining)) (h\<lparr>mem := m2\<rparr>);
           rb_read_loop block align b (data + remaining) 0 (bytes_read + remaining) h'
         } else do {
           let m1 = mem_copy (mem h) data (b_data blk) n;
           h' \<leftarrow> upd_blk b (b_bytes_update (\<lambda>k. k - n)) (h\<lparr>mem := m1\<rparr>);
           rb_read_loop block align (b_next blk) (data + n) (remaining - n) (bytes_read + n) h'
         })
      })"

text \<open>\<open>buf_read\<close> on a ring that was found: the status, the new value of \<open>*bytes\<close>, and the state.\<close>

definition rb_buf_read ::
    "ring_t \<Rightarrow> addr \<Rightarrow> size_t \<Rightarrow> io_block_e \<Rightarrow> nat \<Rightarrow> heap \<Rightarrow> (io_status \<times> size_t \<times> ring_t \<times> heap) option" where
  "rb_buf_read ring data bytes block align h =
     (if r_rlock ring \<or> align = 0 then None
      else do {
        let flush = r_flush ring;
        let remaining = (if r_min_return_size ring > r_bytes ring then 0 else align_down bytes align);
        (b, bytes_read, h') \<leftarrow> rb_read_loop block align (r_rp ring) data remaining 0 h;
        let ring' = ring\<lparr>r_bytes := sz_sub (r_bytes ring) bytes_read, r_rp := b\<rparr>;
        Some (if flush \<and> bytes_read = 0 then IO_COMPLETE else IO_SUCCESS, bytes_read, ring', h')
      })"

section \<open>Writing\<close>

text \<open>The block size for a first write of \<open>min_bytes\<close>: the division is done in doubles.\<close>

definition rb_block_size :: "size_t \<Rightarrow> size_t \<Rightarrow> size_t option" where
  "rb_block_size min_bytes align =
     (if align = 0 then None
      else do {
        let n_d = dbl (dbl_of_size min_bytes / dbl_of_size align);
        n_i \<leftarrow> dbl_to_size n_d;
        Some (if n_d \<noteq> dbl_of_size n_i then sz_mul (sz_add n_i 1) align else sz_mul n_i align)
      })"

definition rb_data_init :: "env \<Rightarrow> pool \<Rightarrow> ring_t \<Rightarrow> size_t \<Rightarrow> heap \<Rightarrow> (io_status \<times> ring_t \<times> heap) option" where
  "rb_data_init E p ring min_bytes h =
     (if r_wlock ring \<or> r_rlock ring then None
      else do {
        block_size \<leftarrow> rb_block_size min_bytes (r_block_align ring);
        (bytes, h') \<leftarrow> block_data_fastalloc E p (r_wp ring) block_size h;
        let ring' = ring\<lparr>r_block_size := block_size, r_size := sz_add (r_size ring) bytes\<rparr>;
        Some (if bytes = 0 then IO_ERROR else IO_SUCCESS, ring', h')
      })"

text \<open>The result is the \<open>int\<close> the function returns: 0 on success, 1 on failure.\<close>

definition ring_data_init :: "env \<Rightarrow> pool \<Rightarrow> ring_t \<Rightarrow> size_t \<Rightarrow> heap \<Rightarrow> (nat \<times> ring_t \<times> heap) option" where
  "ring_data_init E p ring bytes h = do {
     (ret, ring1, h1) \<leftarrow> rb_data_init E p ring bytes h;
     Some (if ret < IO_SUCCESS then (1, ring1, h1) else (0, ring1\<lparr>r_state := RB_STATE_READY\<rparr>, h1))
   }"

partial_function (option) chain_tail :: "addr \<Rightarrow> heap \<Rightarrow> addr option" where
  "chain_tail a h = do {
     blk \<leftarrow> get_blk a h;
     if b_next blk \<noteq> 0 then chain_tail (b_next blk) h else Some a
   }"

text \<open>\<open>get_next_block\<close>: its return value, the new value of \<open>*b\<close>, and the state.\<close>

definition get_next_block :: "env \<Rightarrow> pool \<Rightarrow> ring_t \<Rightarrow> addr \<Rightarrow> heap \<Rightarrow> (nat \<times> addr \<times> ring_t \<times> heap) option" where
  "get_next_block E p ring b h = do {
     blk \<leftarrow> get_blk b h;
     let nx = b_next blk;
     nblk \<leftarrow> get_blk nx h;
     if BLOCK_EMPTY nblk then Some (0, nx, ring, h)
     else do {
       let ring1 = ring\<lparr>r_block_realloc := sz_mul (r_block_realloc ring) 2\<rparr>;
       (add_head, h1) \<leftarrow> block_list_alloc E p (r_block_realloc ring1) h;
       (added_bytes, h2) \<leftarrow> block_data_fastalloc E p add_head (r_block_size ring1) h1;
       if added_bytes = 0 then Some (1, b, ring1, pfree E p add_head h2)
       else do {
         add_tail \<leftarrow> chain_tail add_head h2;
         h3 \<leftarrow> upd_blk b (b_next_update (\<lambda>_. add_head)) h2;
         h4 \<leftarrow> upd_blk add_tail (b_next_update (\<lambda>_. nx)) h3;
         blk' \<leftarrow> get_blk b h4;
         Some (0, b_next blk', ring1\<lparr>r_size := sz_add (r_size ring1) added_bytes\<rparr>, h4)
       }
     }
   }"

text \<open>The inner loop of \<open>buf_write\<close> copies byte by byte.\<close>

fun byte_copy :: "memory \<Rightarrow> addr \<Rightarrow> addr \<Rightarrow> nat \<Rightarrow> memory" where
  "byte_copy m dst src 0 = m"
| "byte_copy m dst src (Suc k) = byte_copy (m(dst := m src)) (dst + 1) (src + 1) k"

text \<open>The outer loop. It does not look at what \<open>get_next_block\<close> returns.\<close>

partial_function (option) rb_write_loop ::
    "env \<Rightarrow> pool \<Rightarrow> addr \<Rightarrow> addr \<Rightarrow> size_t \<Rightarrow> size_t \<Rightarrow> ring_t \<Rightarrow> heap
       \<Rightarrow> (addr \<times> size_t \<times> ring_t \<times> heap) option" where
  "rb_write_loop E p b data remaining written ring h =
     (if remaining = 0 then Some (b, written, ring, h)
      else do {
        blk \<leftarrow> get_blk b h;
        let n = (if remaining < b_size blk then remaining else b_size blk);
        h1 \<leftarrow> upd_blk b (b_bytes_update (\<lambda>_. n)) (h\<lparr>mem := byte_copy (mem h) (b_data blk) data n\<rparr>);
        (ret, b', ring', h2) \<leftarrow> get_next_block E p ring b h1;
        rb_write_loop E p b' (data + n) (remaining - n) (written + n) ring' h2
      })"

text \<open>The test that ends a write: the high water mark, if one is set, was reached.\<close>

definition rb_check_high_water :: "ring_t \<Rightarrow> ring_t option" where
  "rb_check_high_water ring =
     (if r_high_water_mark ring \<noteq> 0 \<and> r_bytes ring \<ge> r_high_water_mark ring
      then high_water_mark_hit ring else Some ring)"

definition rb_buf_write ::
    "env \<Rightarrow> pool \<Rightarrow> ring_t \<Rightarrow> addr \<Rightarrow> size_t \<Rightarrow> heap \<Rightarrow> (io_status \<times> size_t \<times> ring_t \<times> heap) option" where
  "rb_buf_write E p ring data bytes h = do {
     (ret, ring1, h1) \<leftarrow> (if r_state ring = RB_STATE_NOINIT then ring_data_init E p ring bytes h
                         else Some (0, ring, h));
     if ret \<noteq> 0 then Some (IO_ERROR, bytes, ring1, h1)
     else if r_low_water_mark ring1 \<noteq> 0 then Some (IO_NODATA, 0, low_water_mark_hit ring1, h1)
     else if r_wlock ring1 then None
     else do {
       (b, written, ring2, h2) \<leftarrow> rb_write_loop E p (r_wp ring1) data bytes 0 ring1 h1;
       ring3 \<leftarrow> rb_check_high_water (ring2\<lparr>r_bytes := sz_add (r_bytes ring2) written\<rparr>);
       Some (IO_SUCCESS, written, ring3\<lparr>r_wp := b\<rparr>, h2)
     }
   }"

section \<open>Creation, direct access to blocks, settings\<close>

text \<open>The part of \<open>create_buffer\<close> that sets up the ring: \<open>None\<close> inside the result is the
  failure branch, which frees the pool.\<close>

definition rb_create :: "env \<Rightarrow> pool \<Rightarrow> heap \<Rightarrow> (ring_t option \<times> heap) option" where
  "rb_create E p h = do {
     (blks, h1) \<leftarrow> block_list_alloc E p RB_DEFAULT_REALLOC h;
     if blks = 0 then Some (None, free_pool E p h1)
     else do {
       h2 \<leftarrow> forge_ring blks h1;
       Some (Some \<lparr>r_size = 0, r_bytes = 0, r_wp = blks, r_wlock = False, r_rp = blks, r_rlock = False,
         r_flush = False, r_block_size = 0, r_block_align = RB_DEFAULT_ALIGN,
         r_block_realloc = RB_DEFAULT_REALLOC, r_high_water_mark = 0, r_high_water_count = 0,
         r_low_water_mark = 0, r_min_return_size = 0, r_state = RB_STATE_NOINIT\<rparr>, h2)
     }
   }"

text \<open>\<open>rb_acquire_write_block\<close> returns with the write lock held when it hands out a block;
  0 is the NULL block.\<close>

definition rb_acquire_write_block ::
    "env \<Rightarrow> pool \<Rightarrow> ring_t \<Rightarrow> size_t \<Rightarrow> heap \<Rightarrow> (io_status \<times> addr \<times> ring_t \<times> heap) option" where
  "rb_acquire_write_block E p ring init_bytes h = do {
     (ret, ring1, h1) \<leftarrow>
       (if r_state ring = RB_STATE_NOINIT
        then ring_data_init E p ring (if init_bytes > 0 then init_bytes else RB_DEFAULT_BUF_BYTES) h
        else Some (0, ring, h));
     if ret \<noteq> 0 then Some (IO_ERROR, 0, ring1, h1)
     else if r_low_water_mark ring1 \<noteq> 0 then Some (IO_NODATA, 0, low_water_mark_hit ring1, h1)
     else if r_wlock ring1 then None
     else Some (IO_SUCCESS, r_wp ring1, ring1\<lparr>r_wlock := True\<rparr>, h1)
   }"

definition rb_release_write_block :: "env \<Rightarrow> pool \<Rightarrow> ring_t \<Rightarrow> size_t \<Rightarrow> heap \<Rightarrow> (ring_t \<times> heap) option" where
  "rb_release_write_block E p ring bytes h = do {
     h1 \<leftarrow> upd_blk (r_wp ring) (b_bytes_update (\<lambda>_. bytes)) h;
     (ret, b, ring1, h2) \<leftarrow> get_next_block E p ring (r_wp ring) h1;
     ring2 \<leftarrow> rb_check_high_water (ring1\<lparr>r_bytes := sz_add (r_bytes ring1) bytes\<rparr>);
     Some (ring2\<lparr>r_wp := b, r_wlock := False\<rparr>, h2)
   }"

definition rb_set_min_return_size :: "size_t \<Rightarrow> ring_t \<Rightarrow> ring_t" where
  "rb_set_min_return_size bytes ring = ring\<lparr>r_min_return_size := bytes\<rparr>"

definition rb_get_size :: "ring_t option \<Rightarrow> size_t" where
  "rb_get_size ring = (case ring of None \<Rightarrow> 0 | Some r \<Rightarrow> r_size r)"

definition rb_get_bytes :: "ring_t option \<Rightarrow> size_t option" where
  "rb_get_bytes ring = (case ring of None \<Rightarrow> Some 0
      | Some r \<Rightarrow> if r_rlock r then None else Some (r_bytes r))"

text \<open>The alignment argument is a \<open>uint32_t\<close>.\<close>

definition rb_set_alignment :: "32 word \<Rightarrow> ring_t \<Rightarrow> ring_t" where
  "rb_set_alignment align ring = ring\<lparr>r_block_align := unat align\<rparr>"

definition rb_set_high_water_mark :: "size_t \<Rightarrow> ring_t \<Rightarrow> ring_t" where
  "rb_set_high_water_mark bytes ring = ring\<lparr>r_high_water_mark := bytes\<rparr>"

end
