(* ===== verification/Byte_Queue.thy ===== *)
theory Byte_Queue
  imports BW_Prelude
begin

text \<open>
  The contract of a byte buffer, as its clients (segments, streams) rely on it: what is put in
  comes out again, in order, in pieces of the reader's choice. The states of an implementation
  are related to the bytes stored and to a budget, the number of bytes that may still be put in
  before a resource of the implementation (memory, counters) can run out.
\<close>

datatype queue_op = Put "byte list" | Get nat

text \<open>The abstract queue: the outputs of a sequence of operations.\<close>

fun queue_run :: "byte list \<Rightarrow> queue_op list \<Rightarrow> byte list list" where
  "queue_run q [] = []"
| "queue_run q (Put xs # ops) = queue_run (q @ xs) ops"
| "queue_run q (Get n # ops) = take n q # queue_run (drop n q) ops"

fun put_total :: "queue_op list \<Rightarrow> nat" where
  "put_total [] = 0"
| "put_total (Put xs # ops) = length xs + put_total ops"
| "put_total (Get n # ops) = put_total ops"

text \<open>Every operation moves at most \<open>cap\<close> bytes, the size of the client's buffer.\<close>

fun ops_fit :: "nat \<Rightarrow> queue_op list \<Rightarrow> bool" where
  "ops_fit cap [] \<longleftrightarrow> True"
| "ops_fit cap (Put xs # ops) \<longleftrightarrow> length xs \<le> cap \<and> ops_fit cap ops"
| "ops_fit cap (Get n # ops) \<longleftrightarrow> n \<le> cap \<and> ops_fit cap ops"

text \<open>An implementation run on a sequence of operations; there is no result if one fails.\<close>

fun impl_run :: "(byte list \<Rightarrow> 's \<Rightarrow> 's option) \<Rightarrow> (nat \<Rightarrow> 's \<Rightarrow> (byte list \<times> 's) option)
    \<Rightarrow> 's \<Rightarrow> queue_op list \<Rightarrow> byte list list option" where
  "impl_run put get s [] = Some []"
| "impl_run put get s (Put xs # ops) = do { s' \<leftarrow> put xs s; impl_run put get s' ops }"
| "impl_run put get s (Get n # ops) = do {
     (xs, s') \<leftarrow> get n s; out \<leftarrow> impl_run put get s' ops; Some (xs # out) }"

locale byte_queue =
  fixes rel :: "'s \<Rightarrow> byte list \<Rightarrow> nat \<Rightarrow> bool"
    and cap :: nat
    and put :: "byte list \<Rightarrow> 's \<Rightarrow> 's option"
    and get :: "nat \<Rightarrow> 's \<Rightarrow> (byte list \<times> 's) option"
  assumes put_ok: "rel s q b \<Longrightarrow> length xs \<le> cap \<Longrightarrow> length xs \<le> b \<Longrightarrow>
      \<exists>s'. put xs s = Some s' \<and> rel s' (q @ xs) (b - length xs)"
    and get_ok: "rel s q b \<Longrightarrow> n \<le> cap \<Longrightarrow> \<exists>s'. get n s = Some (take n q, s') \<and> rel s' (drop n q) b"
begin

lemma run_refines:
  "rel s q b \<Longrightarrow> ops_fit cap ops \<Longrightarrow> put_total ops \<le> b \<Longrightarrow>
     impl_run put get s ops = Some (queue_run q ops)"
proof (induction q ops arbitrary: s b rule: queue_run.induct)
  case (2 q xs ops)
  then obtain s' where "put xs s = Some s'" "rel s' (q @ xs) (b - length xs)"
    using put_ok [of s q b xs] by auto
  then show ?case using 2 by auto
next
  case (3 q n ops)
  then obtain s' where "get n s = Some (take n q, s')" "rel s' (drop n q) b"
    using get_ok [of s q b n] by auto
  then show ?case using 3 by auto
qed simp

end

text \<open>What was put and not yet taken is what remains: nothing is lost, repeated or reordered.\<close>

lemma queue_run_prefix:
  "\<exists>rest. concat (queue_run q ops) @ rest = q @ concat (map (\<lambda>op. case op of Put xs \<Rightarrow> xs | Get n \<Rightarrow> []) ops)"
proof (induction q ops rule: queue_run.induct)
  case (2 q xs ops)
  then show ?case by simp
next
  case (3 q n ops)
  then obtain rest where "concat (queue_run (drop n q) ops) @ rest =
      drop n q @ concat (map (\<lambda>op. case op of Put xs \<Rightarrow> xs | Get n \<Rightarrow> []) ops)"
    by blast
  then have "concat (queue_run q (Get n # ops)) @ rest =
      take n q @ drop n q @ concat (map (\<lambda>op. case op of Put xs \<Rightarrow> xs | Get n \<Rightarrow> []) ops)"
    by simp
  then show ?case by (metis append.assoc append_take_drop_id concat.simps(2) list.simps(9)
        queue_op.simps(6) self_append_conv2)
qed simp

end
