(* ===== verification/Ring_Fifo.thy ===== *)
theory Ring_Fifo
  imports Ring_Buf Byte_Queue
begin

text \<open>
  The ring buffer of \<open>Ring_Buf\<close> is a queue of bytes. \<open>ring_fifo R h q k\<close> relates a ring and
  its heap to the bytes \<open>q\<close> that were written and not yet read, held in \<open>k\<close> blocks: from the
  read pointer on, the ring consists of \<open>k\<close> blocks with data, in order, and then of empty
  blocks, the first of which is the write pointer. A write appends to \<open>q\<close>, a read takes a
  prefix away, and the relation holds again.
\<close>

section \<open>Blocks and their data areas\<close>

definition blk :: "heap \<Rightarrow> addr \<Rightarrow> block" where
  "blk h a = the (blocks h a)"

text \<open>A region of memory lies inside a region that was handed out.\<close>

definition covered :: "heap \<Rightarrow> addr \<Rightarrow> nat \<Rightarrow> bool" where
  "covered h a n \<longleftrightarrow> (\<exists>(b, k) \<in> set (live h). b \<le> a \<and> a + n \<le> b + k)"

text \<open>The blocks \<open>as\<close> have data areas of \<open>sz\<close> bytes each, which do not overlap.\<close>

definition areas :: "size_t \<Rightarrow> heap \<Rightarrow> addr list \<Rightarrow> bool" where
  "areas sz h as \<longleftrightarrow>
     (\<forall>a \<in> set as. b_size (blk h a) = sz \<and> covered h (b_data (blk h a)) sz) \<and>
     (\<forall>a \<in> set as. \<forall>b \<in> set as. a \<noteq> b \<longrightarrow> disj (b_data (blk h a)) sz (b_data (blk h b)) sz)"

text \<open>A region, such as a caller's buffer, is outside the data areas of \<open>as\<close>.\<close>

definition outside :: "addr \<Rightarrow> nat \<Rightarrow> size_t \<Rightarrow> heap \<Rightarrow> addr list \<Rightarrow> bool" where
  "outside d n sz h as \<longleftrightarrow> (\<forall>a \<in> set as. disj d n (b_data (blk h a)) sz)"

definition contents :: "heap \<Rightarrow> addr list \<Rightarrow> byte list" where
  "contents h as = concat (map (\<lambda>a. mem_read (mem h) (b_data (blk h a)) (b_bytes (blk h a))) as)"

definition full :: "size_t \<Rightarrow> heap \<Rightarrow> addr list \<Rightarrow> bool" where
  "full sz h as \<longleftrightarrow> (\<forall>a \<in> set as. 0 < b_bytes (blk h a) \<and> b_bytes (blk h a) \<le> sz)"

definition empty :: "heap \<Rightarrow> addr list \<Rightarrow> bool" where
  "empty h as \<longleftrightarrow> (\<forall>a \<in> set as. b_bytes (blk h a) = 0)"

text \<open>The ring, entered at \<open>rp\<close>, is \<open>fs\<close> with data and then \<open>es\<close> without.\<close>

definition ring_blocks :: "size_t \<Rightarrow> addr \<Rightarrow> addr list \<Rightarrow> addr list \<Rightarrow> heap \<Rightarrow> bool" where
  "ring_blocks sz rp fs es h \<longleftrightarrow>
     is_ring (nxt h) rp (fs @ es) \<and> areas sz h (fs @ es) \<and> full sz h fs \<and> empty h es \<and> heap_ok h"

lemma blk_upd [simp]:
  "blk (h\<lparr>blocks := B(a \<mapsto> x)\<rparr>) b = (if b = a then x else blk (h\<lparr>blocks := B\<rparr>) b)"
  "blk (h\<lparr>blocks := blocks h\<rparr>) = blk h" "blk (h\<lparr>mem := m\<rparr>) = blk h" "blk (h\<lparr>live := L\<rparr>) = blk h"
  by (auto simp: blk_def)

lemma is_ring_blk: "is_ring (nxt h) x as \<Longrightarrow> a \<in> set as \<Longrightarrow> a \<noteq> 0 \<and> blocks h a = Some (blk h a)"
  using path_nonzero [of "nxt h" x as x] path_dom [of "nxt h" x as x]
  by (cases "a = 0") (auto simp: is_ring_def blk_def subset_iff)

lemma is_ring_dom: "is_ring (nxt h) x as \<Longrightarrow> set as \<subseteq> dom (blocks h)"
  using path_dom [of "nxt h" x as x] by (simp add: is_ring_def)

lemma nxt_blk: "blocks h a = Some (blk h a) \<Longrightarrow> nxt h a = Some (b_next (blk h a))"
  by (simp add: nxt_def)

lemma length_contents: "length (contents h as) = (\<Sum>a\<leftarrow>as. b_bytes (blk h a))"
  by (induction as) (simp_all add: contents_def)

lemma contents_simps [simp]:
  "contents h [] = []"
  "contents h (a # as) = mem_read (mem h) (b_data (blk h a)) (b_bytes (blk h a)) @ contents h as"
  "contents h (as @ bs) = contents h as @ contents h bs"
  by (simp_all add: contents_def)

lemma areas_append:
  "areas sz h (as @ bs) \<Longrightarrow> areas sz h as \<and> areas sz h bs"
  by (auto simp: areas_def)

lemma areas_perm: "set as = set bs \<Longrightarrow> areas sz h as \<longleftrightarrow> areas sz h bs"
  by (simp add: areas_def)

text \<open>Only the data pointers, the sizes and the live regions matter to \<open>areas\<close> and \<open>outside\<close>.\<close>

lemma covered_mono: "covered h a n \<Longrightarrow> set (live h) \<subseteq> set (live h') \<Longrightarrow> covered h' a n"
  by (auto simp: covered_def)

lemma covered_sub: "covered h d n \<Longrightarrow> d \<le> d' \<Longrightarrow> d' + n' \<le> d + n \<Longrightarrow> covered h d' n'"
  unfolding covered_def by (elim bexE, rename_tac r, rule_tac x = r in bexI) auto

lemma b_bytes_minus [simp]: "b_bytes_update (\<lambda>k. k - n) b = b\<lparr>b_bytes := b_bytes b - n\<rparr>" for b :: block
  by (cases b) simp

lemma heap_ok_mono:
  "heap_ok h \<Longrightarrow> dom (blocks h') = dom (blocks h) \<Longrightarrow> set (live h) \<subseteq> set (live h') \<Longrightarrow> heap_ok h'"
  unfolding heap_ok_def by (metis subsetD)

lemma areas_cong:
  assumes "areas sz h as" and "set (live h) \<subseteq> set (live h')"
    and "\<And>a. a \<in> set as \<Longrightarrow> b_data (blk h' a) = b_data (blk h a) \<and> b_size (blk h' a) = b_size (blk h a)"
  shows "areas sz h' as"
  using assms by (auto simp: areas_def intro: covered_mono)

lemma outside_cong:
  assumes "\<And>a. a \<in> set as \<Longrightarrow> b_data (blk h' a) = b_data (blk h a)"
  shows "outside d n sz h' as \<longleftrightarrow> outside d n sz h as"
  using assms by (auto simp: outside_def)

lemma outside_sub: "outside d n sz h as \<Longrightarrow> d \<le> d' \<Longrightarrow> d' + n' \<le> d + n \<Longrightarrow> outside d' n' sz h as"
  by (auto simp: outside_def intro: disj_sub)

lemma outside_append: "outside d n sz h (as @ bs) \<longleftrightarrow> outside d n sz h as \<and> outside d n sz h bs"
  by (auto simp: outside_def)

lemma contents_cong:
  assumes "\<And>a. a \<in> set as \<Longrightarrow> b_bytes (blk h' a) = b_bytes (blk h a) \<and>
     mem_read (mem h') (b_data (blk h' a)) (b_bytes (blk h a)) = mem_read (mem h) (b_data (blk h a)) (b_bytes (blk h a))"
  shows "contents h' as = contents h as"
  unfolding contents_def by (rule arg_cong [where f = concat]) (use assms in auto)

section \<open>Small loops\<close>

lemma align_down_eq: "0 < align \<Longrightarrow> align_down n align = n - n mod align"
proof (induction n align rule: align_down.induct)
  case (1 n align)
  show ?case
  proof (cases "n mod align = 0")
    case True
    then show ?thesis by (simp add: align_down.simps)
  next
    case False
    then have n: "0 < n" by (cases n) auto
    have "(n - 1) mod align = n mod align - 1" using False n
      by (metis Suc_pred' mod_Suc diff_Suc_1 nat.distinct(1))
    moreover have "n mod align \<le> n" by simp
    ultimately have "align_down (n - 1) align = n - n mod align"
      using "1.IH" [OF False "1.prems"] False n by linarith
    then show ?thesis using False by (simp add: align_down.simps [of n])
  qed
qed

lemma byte_copy_eq:
  "disj dst n src n \<Longrightarrow> byte_copy m dst src n = mem_copy m dst src n"
proof (induction n arbitrary: m dst src)
  case 0
  then show ?case by simp
next
  case (Suc k)
  have "disj (dst + 1) k (src + 1) k" using Suc.prems by (auto simp: disj_def)
  from Suc.IH [OF this] have "byte_copy m dst src (Suc k) =
      mem_copy (m(dst := m src)) (dst + 1) (src + 1) k" by (simp only: byte_copy.simps)
  also have "\<dots> = mem_copy m dst src (Suc k)"
  proof
    fix p
    show "mem_copy (m(dst := m src)) (dst + 1) (src + 1) k p = mem_copy m dst src (Suc k) p"
      using Suc.prems
      by (cases "p = dst") (auto simp: mem_copy_def mem_write_def disj_def Suc_diff_Suc)
  qed
  finally show ?case .
qed

text \<open>For requests and alignments below \<open>2 ^ 53\<close> the division in doubles gives the least
  multiple of the alignment that holds the request.\<close>

lemma rb_block_size_eq:
  assumes "m < 2 ^ 53" and "0 < a" and "a < 2 ^ 53"
  shows "rb_block_size m a = Some (ceil_div m a * a)"
proof -
  have "ceil_div m a * a < sz_max"
    using ceil_div_less [OF assms(2), of m] assms by (simp add: sz_max_def)
  moreover have "m div a < 2 ^ 53" using div_le_dividend assms(1) by (rule le_less_trans)
  moreover from this have "sz_add (m div a) 1 = m div a + 1" by (simp add: sz_add_exact sz_max_def)
  ultimately show ?thesis using dbl_div_sizes [OF assms] assms(2)
    by (auto simp: rb_block_size_def ceil_div_def Let_def sz_mul_exact)
qed


section \<open>Fresh data areas\<close>

lemma part_block_empty: "b_bytes (part_block sz y buf n i x) = 0"
  by (simp add: part_block_def)

lemma parted_blk:
  assumes "parted sz bs n y buf h h'" and "set bs \<subseteq> dom (blocks h)" and "i < n"
  shows "blocks h' (bs ! i) = Some (part_block sz y buf n i (blk h (bs ! i)))"
proof -
  have "i < length bs" using assms by (auto simp: parted_def)
  then have "bs ! i \<in> dom (blocks h)" using assms(2) nth_mem by blast
  then have "blocks h (bs ! i) = Some (blk h (bs ! i))" by (auto simp: blk_def)
  then show ?thesis using assms by (simp add: parted_def)
qed

lemma parted_areas:
  assumes P: "parted sz bs n y buf h h'" and bs: "distinct bs" "set bs \<subseteq> dom (blocks h)"
  shows "areas sz h' (take n bs)" and "empty h' (take n bs)"
    and "covered h d k \<Longrightarrow> outside d k sz h' (take n bs)"
    and "dom (blocks h') = dom (blocks h)" and "set (live h) \<subseteq> set (live h')"
proof -
  have n: "n \<le> length bs" using P by (simp add: parted_def)
  have nth: "\<exists>i < n. a = bs ! i" if "a \<in> set (take n bs)" for a
    using that n by (auto simp: in_set_conv_nth)
  have at: "blk h' (bs ! i) = part_block sz y buf n i (blk h (bs ! i))" if "i < n" for i
    using parted_blk [OF P bs(2) that] by (simp add: blk_def)
  have in_area: "buf \<le> buf + i * sz \<and> buf + i * sz + sz \<le> buf + n * sz" if "i < n" for i
    using mult_le_mono1 [of "Suc i" n sz] that by simp
  have lv: "(buf, n * sz) \<in> set (live h')" using P by (simp add: parted_def)
  show "empty h' (take n bs)"
    unfolding empty_def by (metis nth at part_block_empty)
  have cov: "b_size (blk h' a) = sz \<and> covered h' (b_data (blk h' a)) sz" if a: "a \<in> set (take n bs)" for a
  proof -
    obtain i where "i < n" "a = bs ! i" using nth [OF a] by blast
    then show ?thesis using at in_area [of i] lv unfolding covered_def
      by (auto simp: part_block_def intro!: bexI [of _ "(buf, n * sz)"])
  qed
  have "disj (b_data (blk h' a)) sz (b_data (blk h' b)) sz"
    if "a \<in> set (take n bs)" "b \<in> set (take n bs)" "a \<noteq> b" for a b
  proof -
    from nth that obtain i j where ij: "i < n" "j < n" "a = bs ! i" "b = bs ! j" by metis
    with that(3) consider "i < j" | "j < i" by (metis linorder_neqE_nat)
    then show ?thesis
      using mult_le_mono1 [of "Suc i" j sz] mult_le_mono1 [of "Suc j" i sz]
      by cases (auto simp: ij at part_block_def disj_def)
  qed
  then show "areas sz h' (take n bs)" using cov by (simp add: areas_def)
  show "outside d k sz h' (take n bs)" if "covered h d k"
    unfolding outside_def
  proof
    fix a assume "a \<in> set (take n bs)"
    then obtain i where i: "i < n" "a = bs ! i" using nth by blast
    from that obtain b l where b: "(b, l) \<in> set (live h)" "b \<le> d" "d + k \<le> b + l"
      by (auto simp: covered_def)
    with P have "disj buf (n * sz) b l" by (auto simp: parted_def)
    then have "disj (buf + i * sz) sz d k" using in_area [OF i(1)] b by (auto intro: disj_sub)
    then show "disj d k (b_data (blk h' a)) sz" using i at by (simp add: part_block_def disj_sym)
  qed
  show "set (live h) \<subseteq> set (live h')" using P by (auto simp: parted_def)
  show "dom (blocks h') = dom (blocks h)"
  proof (intro set_eqI)
    fix a
    show "a \<in> dom (blocks h') \<longleftrightarrow> a \<in> dom (blocks h)"
    proof (cases "a \<in> set (take n bs)")
      case True
      then obtain i where "i < n" "a = bs ! i" using nth by blast
      then show ?thesis using parted_blk [OF P bs(2)] True bs(2) by (auto dest: in_set_takeD)
    next
      case False
      then show ?thesis using P by (simp add: parted_def dom_def)
    qed
  qed
qed

lemma chain_tail_path:
  assumes "path (nxt h) a cs 0" and "cs \<noteq> []"
  shows "chain_tail a h = Some (last cs)"
  using assms
proof (induction cs arbitrary: a)
  case (Cons c cs)
  then obtain x where x: "a = c" "c \<noteq> 0" "blocks h c = Some x" "path (nxt h) (b_next x) cs 0"
    unfolding path_Cons_blk by auto
  show ?case
  proof (cases "cs = []")
    case True
    then show ?thesis using x by (subst chain_tail.simps) simp
  next
    case False
    then have "b_next x \<noteq> 0" using x(4) by (cases cs) auto
    then show ?thesis using x Cons.IH [OF x(4) False] False by (subst chain_tail.simps) simp
  qed
qed simp


section \<open>The next block to write\<close>

text \<open>A step of the writer keeps what the blocks \<open>as\<close> hold; it may change their \<open>next\<close> pointers.\<close>

definition keeps :: "heap \<Rightarrow> heap \<Rightarrow> addr list \<Rightarrow> bool" where
  "keeps h h' as \<longleftrightarrow> mem h' = mem h \<and> set (live h) \<subseteq> set (live h') \<and>
     (\<forall>a \<in> set as. \<exists>x. blk h' a = (blk h a)\<lparr>b_next := x\<rparr>)"

lemma keepsD:
  assumes "keeps h h' as"
  shows "mem h' = mem h" and "set (live h) \<subseteq> set (live h')"
    and "a \<in> set as \<Longrightarrow> b_data (blk h' a) = b_data (blk h a) \<and> b_size (blk h' a) = b_size (blk h a) \<and>
           b_bytes (blk h' a) = b_bytes (blk h a)"
  using assms by (auto simp: keeps_def)

lemma same_next [simp]: "\<exists>x. b = b\<lparr>b_next := x\<rparr>" for b :: block
  by (rule exI [of _ "b_next b"]) simp

lemma keeps_refl: "keeps h h as"
  by (simp add: keeps_def)

lemma keeps_contents: "keeps h h' as \<Longrightarrow> contents h' as = contents h as"
  by (rule contents_cong) (simp add: keepsD)

lemma keeps_full: "keeps h h' as \<Longrightarrow> full sz h as \<Longrightarrow> full sz h' as"
  by (auto simp: full_def dest: keepsD(3))

lemma keeps_areas: "keeps h h' as \<Longrightarrow> areas sz h as \<Longrightarrow> areas sz h' as"
  by (rule areas_cong) (simp_all add: keepsD)

lemma keeps_outside: "keeps h h' as \<Longrightarrow> outside d n sz h' as \<longleftrightarrow> outside d n sz h as"
  by (rule outside_cong) (auto dest: keepsD)

text \<open>Blocks with data areas of their own, added to a group of blocks that had theirs before.\<close>

lemma areas_join:
  assumes "areas sz h as" and "areas sz h bs" and "\<And>a. a \<in> set as \<Longrightarrow> outside (b_data (blk h a)) sz sz h bs"
  shows "areas sz h (as @ bs)"
  using assms disj_sym unfolding areas_def outside_def set_append by blast

text \<open>\<open>block_list_alloc\<close> and \<open>block_data_fastalloc\<close> in sequence give a chain of empty blocks.\<close>

lemma alloc_chain:
  assumes E: "pool_sound E" and ok: "heap_ok h" and n: "0 < n" and sz: "0 < sz"
    and plenty: "pool_plenty E (n * sz)"
  shows "\<exists>c h1 h2 cs. block_list_alloc E p n h = Some (c, h1) \<and>
     block_data_fastalloc E p c sz h1 = Some (n * sz, h2) \<and>
     length cs = n \<and> distinct cs \<and> path (nxt h2) c cs 0 \<and> set cs \<inter> dom (blocks h) = {} \<and>
     areas sz h2 cs \<and> empty h2 cs \<and> (\<forall>d k. covered h d k \<longrightarrow> outside d k sz h2 cs) \<and>
     (\<forall>a. a \<notin> set cs \<longrightarrow> blocks h2 a = blocks h a) \<and> mem h2 = mem h \<and>
     set (live h) \<subseteq> set (live h2) \<and> heap_ok h2"
proof -
  have pl: "pool_plenty E sz"
  proof -
    have "sz \<le> n * sz" using n by (cases n) auto
    then show ?thesis using plenty unfolding pool_plenty_def by (meson le_less_trans)
  qed
  from block_list_alloc_spec [OF E ok n, of p] not_plenty(4) pl obtain c h1 cs where
    c: "block_list_alloc E p n h = Some (c, h1)" and fc: "fresh_chain h h1 c cs" and len: "length cs = n"
    by blast
  have cs: "cs \<noteq> []" "distinct cs" "path (nxt h1) c cs 0" "set cs \<subseteq> dom (blocks h1)"
    using fc len n path_dom [of "nxt h1" c cs 0] by (auto simp: fresh_chain_def)
  from block_data_fastalloc_spec [OF E cs(3,1,2) _ sz, of p] pl plenty len obtain h2 buf where
    h2: "block_data_fastalloc E p c sz h1 = Some (n * sz, h2)" "mem h2 = mem h1" and
    P: "parted sz cs n 0 buf h1 h2"
    by auto
  note pa = parted_areas [OF P cs(2,4)]
  have tk: "take n cs = cs" using len by simp
  have "covered h1 d k" if "covered h d k" for d k
    using that fc by (auto simp: fresh_chain_def intro: covered_mono)
  moreover have "heap_ok h2" using fc pa(4,5) by (auto simp: fresh_chain_def intro: heap_ok_mono)
  moreover have "blocks h2 a = blocks h a" if "a \<notin> set cs" for a
    using that P fc by (simp add: parted_def fresh_chain_def tk)
  ultimately show ?thesis
    using c h2 len cs pa parted_path [OF P cs(3)] fc unfolding tk fresh_chain_def
    by (intro exI [of _ c] exI [of _ h1] exI [of _ h2] exI [of _ cs]) auto
qed


text \<open>Splicing the new chain in behind the writer's block \<open>w\<close> of a ring without empty blocks.\<close>

lemma splice_blocks:
  assumes ring: "is_ring (nxt h) rp (fs @ [w])"
    and cs: "path (nxt h2) c cs 0" "cs \<noteq> []" "distinct cs" "set cs \<inter> dom (blocks h) = {}"
    and same: "\<And>a. a \<notin> set cs \<Longrightarrow> blocks h2 a = blocks h a"
  shows "\<exists>h3 h4. upd_blk w (b_next_update (\<lambda>_. c)) h2 = Some h3 \<and>
     upd_blk (last cs) (b_next_update (\<lambda>_. rp)) h3 = Some h4 \<and>
     is_ring (nxt h4) rp (fs @ w # cs) \<and> b_next (blk h4 w) = c \<and>
     mem h4 = mem h2 \<and> live h4 = live h2 \<and> dom (blocks h4) = dom (blocks h2) \<and>
     (\<forall>a. \<exists>x. blk h4 a = (blk h2 a)\<lparr>b_next := x\<rparr>)"
proof -
  from is_ring_dom [OF ring] cs(4) have dj: "set cs \<inter> set (fs @ [w]) = {}" by blast
  have "path (nxt h) rp (fs @ [w]) rp" using ring by (simp add: is_ring_def)
  then have "path (nxt h2) rp (fs @ [w]) rp"
    using same dj by (subst path_cong [of _ _ "nxt h"]) (auto intro!: nxt_cong)
  then have ring2: "is_ring (nxt h2) rp (fs @ [w])" using ring by (simp add: is_ring_def)
  let ?l = "last cs"
  from is_ring_blk [OF ring2] have w: "w \<noteq> 0" "blocks h2 w = Some (blk h2 w)" by auto
  have "?l \<in> set cs" using cs(2) by simp
  then have l: "?l \<noteq> 0" "blocks h2 ?l = Some (blk h2 ?l)"
    using path_nonzero [OF cs(1)] path_dom [OF cs(1)] by (metis, auto simp: blk_def)
  have wl: "?l \<noteq> w" using dj cs(2) by (auto dest: last_in_set)
  let ?h3 = "h2\<lparr>blocks := (blocks h2)(w \<mapsto> (blk h2 w)\<lparr>b_next := c\<rparr>)\<rparr>"
  let ?h4 = "?h3\<lparr>blocks := (blocks ?h3)(?l \<mapsto> (blk h2 ?l)\<lparr>b_next := rp\<rparr>)\<rparr>"
  have up: "upd_blk w (b_next_update (\<lambda>_. c)) h2 = Some ?h3"
    "upd_blk ?l (b_next_update (\<lambda>_. rp)) ?h3 = Some ?h4"
    using w l wl by (simp_all add: upd_blk_Some)
  have "is_ring (nxt ?h4) rp (fs @ w # cs)"
    using is_ring_splice [OF ring2 cs(1-3) dj] by simp
  moreover have "\<exists>x. blk ?h4 a = (blk h2 a)\<lparr>b_next := x\<rparr>" for a
    by (cases "a = ?l"; cases "a = w") auto
  moreover have "dom (blocks ?h4) = dom (blocks h2)" using w l by auto
  ultimately show ?thesis using up wl
    by (intro exI [of _ ?h3] exI [of _ ?h4]) auto
qed

lemma ring_next:
  assumes "is_ring (nxt h) rp (fs @ w # es)"
  shows "nxt h w = Some (if es = [] then rp else hd es)" and "w \<noteq> 0"
  using assms path_hd [of "nxt h" _ es rp] by (auto simp: is_ring_def path_append)

lemma get_next_block_step:
  assumes ring: "ring_blocks sz rp (fs @ [w]) es h" and es: "es \<noteq> []"
  shows "get_next_block E p R w h = Some (0, hd es, R, h)"
proof -
  from ring have ir: "is_ring (nxt h) rp (fs @ w # es)" and em: "empty h es" by (simp_all add: ring_blocks_def)
  from ring_next [OF ir] es have nx: "nxt h w = Some (hd es)" "w \<noteq> 0" by auto
  have "blocks h (hd es) = Some (blk h (hd es))" "hd es \<noteq> 0" "blocks h w = Some (blk h w)"
    using is_ring_blk [OF ir] es by auto
  moreover from this nx have "b_next (blk h w) = hd es" by (auto simp: nxt_Some)
  moreover have "BLOCK_EMPTY (blk h (hd es))" using em es by (simp add: empty_def BLOCK_EMPTY_def)
  ultimately show ?thesis using nx(2) by (simp add: get_next_block_def)
qed

lemma get_next_block_extend:
  assumes E: "pool_sound E" and ring: "ring_blocks sz rp (fs @ [w]) [] h" and sz: "0 < sz"
    and R: "r_block_size R = sz" "0 < r_block_realloc R" "r_block_realloc R \<le> length (fs @ [w])"
    and plenty: "pool_plenty E (2 * length (fs @ [w]) * sz)" and len: "2 * length (fs @ [w]) < sz_max"
  shows "\<exists>b R' h' cs. get_next_block E p R w h = Some (0, b, R', h') \<and>
     ring_blocks sz rp (fs @ [w]) cs h' \<and> cs \<noteq> [] \<and> b = hd cs \<and> keeps h h' (fs @ [w]) \<and>
     (\<exists>s k. R' = R\<lparr>r_size := s, r_block_realloc := k\<rparr> \<and> 0 < k \<and> k \<le> length (fs @ w # cs)) \<and>
     (\<forall>d n. covered h d n \<and> outside d n sz h (fs @ [w]) \<longrightarrow> outside d n sz h' (fs @ w # cs))"
proof -
  let ?k = "2 * r_block_realloc R" and ?fs = "fs @ [w]"
  from ring have ir: "is_ring (nxt h) rp ?fs" and ok: "heap_ok h" and ar: "areas sz h ?fs"
    and fu: "full sz h ?fs" by (simp_all add: ring_blocks_def)
  from ring_next [of h rp fs w "[]"] ir have nx: "nxt h w = Some rp" "w \<noteq> 0" by auto
  have rp: "rp \<in> set ?fs" using is_ring_hd [OF ir] by (metis append_is_Nil_conv hd_in_set list.discI)
  have at: "blocks h w = Some (blk h w)" "blocks h rp = Some (blk h rp)" "rp \<noteq> 0"
    using is_ring_blk [OF ir] rp by auto
  with nx have bn: "b_next (blk h w) = rp" by (auto simp: nxt_Some)
  have ne: "\<not> BLOCK_EMPTY (blk h rp)" using fu rp by (auto simp: full_def BLOCK_EMPTY_def)
  have k: "?k \<le> 2 * length ?fs" "0 < ?k" using R by auto
  have mul: "sz_mul (r_block_realloc R) 2 = ?k" using k len by (simp add: sz_mul_exact)
  have "?k * sz \<le> 2 * length ?fs * sz" using k(1) by (rule mult_le_mono1)
  then have pl: "pool_plenty E (?k * sz)"
    using plenty unfolding pool_plenty_def by (meson le_less_trans)
  from alloc_chain [OF E ok k(2) sz pl, of p] obtain c h1 h2 cs where
    c: "block_list_alloc E p ?k h = Some (c, h1)" "block_data_fastalloc E p c sz h1 = Some (?k * sz, h2)" and
    cs: "length cs = ?k" "distinct cs" "path (nxt h2) c cs 0" "set cs \<inter> dom (blocks h) = {}"
      "areas sz h2 cs" "empty h2 cs" and
    out: "\<And>d k. covered h d k \<Longrightarrow> outside d k sz h2 cs" and
    h2: "\<And>a. a \<notin> set cs \<Longrightarrow> blocks h2 a = blocks h a" "mem h2 = mem h" "set (live h) \<subseteq> set (live h2)" "heap_ok h2"
    by blast
  have cs0: "cs \<noteq> []" using cs(1) k by auto
  from splice_blocks [OF ir cs(3) cs0 cs(2,4) h2(1)] obtain h3 h4 where
    up: "upd_blk w (b_next_update (\<lambda>_. c)) h2 = Some h3" "upd_blk (last cs) (b_next_update (\<lambda>_. rp)) h3 = Some h4" and
    h4: "is_ring (nxt h4) rp (fs @ w # cs)" "b_next (blk h4 w) = c" "mem h4 = mem h2" "live h4 = live h2"
      "dom (blocks h4) = dom (blocks h2)" and
    kp: "\<And>a. \<exists>x. blk h4 a = (blk h2 a)\<lparr>b_next := x\<rparr>"
    by blast
  have "blocks h4 w = Some (blk h4 w)" using is_ring_blk [OF h4(1)] by auto
  moreover have "chain_tail c h2 = Some (last cs)" using cs(3) cs0 by (rule chain_tail_path)
  ultimately have run: "get_next_block E p R w h =
      Some (0, c, R\<lparr>r_block_realloc := ?k, r_size := sz_add (r_size R) (?k * sz)\<rparr>, h4)"
    using at bn nx ne mul c R up h4(2) sz k(2) by (simp add: get_next_block_def)
  have k24: "keeps h2 h4 as" for as using kp h4 by (auto simp: keeps_def)
  have dj: "a \<notin> set cs" if "a \<in> set ?fs" for a
    using that cs(4) is_ring_dom [OF ir] by blast
  have "\<exists>x. blk h4 a = (blk h a)\<lparr>b_next := x\<rparr>" if "a \<in> set ?fs" for a
    using kp [of a] dj [OF that] h2(1) [of a] by (simp add: blk_def)
  then have k04: "keeps h h4 ?fs" using h2 h4 by (simp add: keeps_def)
  have em: "empty h4 cs" using cs(6) keepsD(3) [OF k24] by (auto simp: empty_def)
  have cov: "covered h (b_data (blk h4 a)) sz" if "a \<in> set ?fs" for a
    using ar that keepsD(3) [OF k04 that] unfolding areas_def by metis
  have out4: "outside d n sz h4 cs" if "covered h d n" for d n
    using out [OF that] keeps_outside [OF k24] by blast
  have "areas sz h4 (?fs @ cs)"
    using areas_join [OF keeps_areas [OF k04 ar] keeps_areas [OF k24 cs(5)]] cov out4 by blast
  then have "ring_blocks sz rp ?fs cs h4"
    using h4 em keeps_full [OF k04 fu] h2(4) by (auto simp: ring_blocks_def intro: heap_ok_mono)
  moreover have "outside d n sz h4 (fs @ w # cs)" if "covered h d n" "outside d n sz h ?fs" for d n
    using out4 [OF that(1)] that(2) keeps_outside [OF k04] outside_append [of d n sz h4 ?fs cs] by simp
  moreover have "c = hd cs" using cs(3) cs0 by (rule path_hd)
  moreover have "\<exists>s k. R\<lparr>r_block_realloc := ?k, r_size := sz_add (r_size R) (?k * sz)\<rparr> =
      R\<lparr>r_size := s, r_block_realloc := k\<rparr> \<and> 0 < k \<and> k \<le> length (fs @ w # cs)"
    by (intro exI [of _ "sz_add (r_size R) (?k * sz)"] exI [of _ ?k]) (use cs k in simp)
  ultimately show ?thesis using run cs0 k04
    by (intro exI [of _ c] exI [of _ "R\<lparr>r_block_realloc := ?k, r_size := sz_add (r_size R) (?k * sz)\<rparr>"]
        exI [of _ h4] exI [of _ cs]) auto
qed

text \<open>
  \<open>get_next_block\<close> from the writer's block \<open>w\<close>, which has just been filled: it steps to the
  next empty block, or extends the ring by twice as many blocks as the last time.
\<close>

lemma get_next_block_spec:
  assumes E: "pool_sound E" and ring: "ring_blocks sz rp (fs @ [w]) es h" and sz: "0 < sz"
    and R: "r_block_size R = sz" "0 < r_block_realloc R" "r_block_realloc R \<le> length (fs @ w # es)"
    and plenty: "pool_plenty E (2 * length (fs @ [w]) * sz)" and len: "2 * length (fs @ [w]) < sz_max"
  shows "\<exists>b R' h' es'. get_next_block E p R w h = Some (0, b, R', h') \<and>
     ring_blocks sz rp (fs @ [w]) es' h' \<and> es' \<noteq> [] \<and> b = hd es' \<and> keeps h h' (fs @ [w]) \<and>
     (\<exists>s k. R' = R\<lparr>r_size := s, r_block_realloc := k\<rparr> \<and> 0 < k \<and> k \<le> length (fs @ w # es')) \<and>
     (\<forall>d n. covered h d n \<and> outside d n sz h (fs @ w # es) \<longrightarrow> outside d n sz h' (fs @ w # es'))"
proof (cases "es = []")
  case False
  have "R = R\<lparr>r_size := r_size R, r_block_realloc := r_block_realloc R\<rparr>" by simp
  then show ?thesis using get_next_block_step [OF ring False] ring False R keeps_refl
    by (intro exI [of _ "hd es"] exI [of _ R] exI [of _ h] exI [of _ es]) blast
next
  case True
  then show ?thesis using get_next_block_extend [OF E _ sz R(1,2) _ plenty len, of rp h p] ring R(3) by simp
qed


section \<open>The write loop\<close>

text \<open>A region outside the ring is out of reach of the writer: it stays outside and keeps its bytes.\<close>

definition undisturbed :: "size_t \<Rightarrow> heap \<Rightarrow> addr list \<Rightarrow> heap \<Rightarrow> addr list \<Rightarrow> bool" where
  "undisturbed sz h as h' as' \<longleftrightarrow> set (live h) \<subseteq> set (live h') \<and>
     (\<forall>d n. covered h d n \<and> outside d n sz h as \<longrightarrow>
        outside d n sz h' as' \<and> mem_read (mem h') d n = mem_read (mem h) d n)"

lemma undisturbed_refl: "undisturbed sz h as h as"
  by (simp add: undisturbed_def)

lemma undisturbed_trans:
  assumes "undisturbed sz h as h1 as1" and "undisturbed sz h1 as1 h2 as2"
  shows "undisturbed sz h as h2 as2"
  using assms unfolding undisturbed_def by (metis covered_mono order_trans)

lemma undisturbedD:
  assumes "undisturbed sz h as h' as'" and "covered h d n" and "outside d n sz h as"
  shows "covered h' d n" and "outside d n sz h' as'" and "mem_read (mem h') d n = mem_read (mem h) d n"
  using assms by (auto simp: undisturbed_def intro: covered_mono)

text \<open>The bytes \<open>xs\<close> go into block \<open>w\<close> behind the blocks \<open>fs\<close>, whatever \<open>w\<close> held.\<close>

lemma overwrite_block:
  assumes ring: "is_ring (nxt h) rp (fs @ w # es)" "areas sz h (fs @ w # es)" "full sz h fs" "empty h es" "heap_ok h"
    and xs: "xs \<noteq> []" "length xs \<le> sz"
  defines "h1 \<equiv> h\<lparr>mem := mem_write (mem h) (b_data (blk h w)) xs,
                 blocks := (blocks h)(w \<mapsto> (blk h w)\<lparr>b_bytes := length xs\<rparr>)\<rparr>"
  shows "ring_blocks sz rp (fs @ [w]) es h1"
    and "contents h1 (fs @ [w]) = contents h fs @ xs"
    and "undisturbed sz h (fs @ w # es) h1 (fs @ w # es)"
proof -
  note ir = ring(1) and ar = ring(2) and fu = ring(3) and em = ring(4) and ok = ring(5)
  have w: "w \<notin> set fs" "w \<notin> set es" using ir by (auto simp: is_ring_def)
  have bw: "blocks h w = Some (blk h w)" using is_ring_blk [OF ir] by auto
  let ?a = "b_data (blk h w)" and ?n = "length xs"
  have n: "0 < ?n" "?n \<le> sz" using xs by auto
  have mem1: "mem h1 = mem_write (mem h) ?a xs" by (simp add: h1_def)
  have blk1: "blk h1 a = (if a = w then (blk h w)\<lparr>b_bytes := ?n\<rparr> else blk h a)" for a
    by (simp add: h1_def blk_def)
  have nx1: "nxt h1 = nxt h" using bw by (auto simp: h1_def nxt_def fun_eq_iff)
  have ar1: "areas sz h1 (fs @ w # es)" using ar by (rule areas_cong) (auto simp: blk1 h1_def)
  have other: "disj ?a ?n (b_data (blk h a)) (b_bytes (blk h a))" if "a \<in> set fs" for a
  proof -
    have "disj ?a sz (b_data (blk h a)) sz" using ar that w by (auto simp: areas_def)
    moreover have "b_bytes (blk h a) \<le> sz" using fu that by (simp add: full_def)
    ultimately show ?thesis using n(2) by (auto intro: disj_sub)
  qed
  have "full sz h1 (fs @ [w])" using fu n by (simp add: full_def blk1)
  moreover have "empty h1 es" using em w by (auto simp: empty_def blk1)
  moreover have "heap_ok h1" using ok by (rule heap_ok_mono) (use bw in \<open>auto simp: h1_def\<close>)
  ultimately show "ring_blocks sz rp (fs @ [w]) es h1"
    using ir ar1 nx1 by (simp add: ring_blocks_def)
  have "contents h1 fs = contents h fs"
    using w other by (intro contents_cong) (auto simp: blk1 mem1 mem_simps)
  then show "contents h1 (fs @ [w]) = contents h fs @ xs"
    by (simp add: blk1 mem1 mem_simps)
  show "undisturbed sz h (fs @ w # es) h1 (fs @ w # es)"
    unfolding undisturbed_def
  proof (intro conjI allI impI)
    show "set (live h) \<subseteq> set (live h1)" by (simp add: h1_def)
    fix x k assume x: "covered h x k \<and> outside x k sz h (fs @ w # es)"
    then show "outside x k sz h1 (fs @ w # es)" by (simp add: outside_def blk1)
    have "disj ?a sz x k" using x by (simp add: outside_def disj_sym)
    then have "disj ?a ?n x k" using n(2) by (auto intro: disj_sub)
    then show "mem_read (mem h1) x k = mem_read (mem h) x k" by (simp add: mem1 mem_simps)
  qed
qed


lemma fill_block:
  assumes ring: "ring_blocks sz rp fs (w # es) h" and xs: "xs \<noteq> []" "length xs \<le> sz"
  defines "h1 \<equiv> h\<lparr>mem := mem_write (mem h) (b_data (blk h w)) xs,
                 blocks := (blocks h)(w \<mapsto> (blk h w)\<lparr>b_bytes := length xs\<rparr>)\<rparr>"
  shows "ring_blocks sz rp (fs @ [w]) es h1"
    and "contents h1 (fs @ [w]) = contents h fs @ xs"
    and "undisturbed sz h (fs @ w # es) h1 (fs @ w # es)"
  using overwrite_block [OF _ _ _ _ _ xs, of h rp fs w es] ring
  by (simp_all add: ring_blocks_def empty_def h1_def)

text \<open>What the ring descriptor must satisfy for its blocks \<open>fs @ es\<close>.\<close>

definition ring_desc :: "ring_t \<Rightarrow> addr list \<Rightarrow> addr list \<Rightarrow> bool" where
  "ring_desc R fs es \<longleftrightarrow> es \<noteq> [] \<and> 0 < r_block_size R \<and>
     0 < r_block_realloc R \<and> r_block_realloc R \<le> length (fs @ es)"

text \<open>\<open>R'\<close> is \<open>R\<close> with more blocks.\<close>

definition grown :: "ring_t \<Rightarrow> ring_t \<Rightarrow> bool" where
  "grown R R' \<longleftrightarrow> (\<exists>s k. R' = R\<lparr>r_size := s, r_block_realloc := k\<rparr>)"

lemma grownD: "grown R R' \<Longrightarrow> r_block_size R' = r_block_size R"
  by (auto simp: grown_def)

lemma grown_trans:
  assumes "grown R R1" and "grown R1 R2"
  shows "grown R R2"
proof -
  from assms obtain s k s' k' where "R1 = R\<lparr>r_size := s, r_block_realloc := k\<rparr>"
    "R2 = R1\<lparr>r_size := s', r_block_realloc := k'\<rparr>" unfolding grown_def by blast
  then have "R2 = R\<lparr>r_size := s', r_block_realloc := k'\<rparr>" by simp
  then show ?thesis unfolding grown_def by blast
qed

lemma grown_refl: "grown R R"
  unfolding grown_def by (rule exI [of _ "r_size R"], rule exI [of _ "r_block_realloc R"]) simp

lemma undisturbed_keeps:
  assumes "keeps h h' as"
    and "\<And>d n. covered h d n \<Longrightarrow> outside d n sz h as0 \<Longrightarrow> outside d n sz h' as'"
  shows "undisturbed sz h as0 h' as'"
  using assms by (auto simp: undisturbed_def keeps_def)

text \<open>The writer's block takes the bytes \<open>xs\<close>, and the writer moves on.\<close>

lemma fill_step:
  assumes E: "pool_sound E" and ring: "ring_blocks (r_block_size R) rp fs es h" and R: "ring_desc R fs es"
    and xs: "xs \<noteq> []" "length xs \<le> r_block_size R"
    and plenty: "pool_plenty E (2 * Suc (length fs) * r_block_size R)" and len: "2 * Suc (length fs) < sz_max"
  shows "\<exists>h1 R' h' es'.
     upd_blk (hd es) (b_bytes_update (\<lambda>_. length xs))
       (h\<lparr>mem := mem_write (mem h) (b_data (blk h (hd es))) xs\<rparr>) = Some h1 \<and>
     get_next_block E p R (hd es) h1 = Some (0, hd es', R', h') \<and>
     ring_blocks (r_block_size R) rp (fs @ [hd es]) es' h' \<and> ring_desc R' (fs @ [hd es]) es' \<and>
     grown R R' \<and> contents h' (fs @ [hd es]) = contents h fs @ xs \<and>
     undisturbed (r_block_size R) h (fs @ es) h' ((fs @ [hd es]) @ es')"
proof -
  let ?sz = "r_block_size R"
  from R obtain w es1 where es: "es = w # es1" and sz: "0 < ?sz" by (cases es) (auto simp: ring_desc_def)
  from ring es have ring': "ring_blocks ?sz rp fs (w # es1) h" by simp
  from ring es have w: "w \<noteq> 0" "blocks h w = Some (blk h w)"
    using is_ring_blk [of h rp "fs @ es" w] by (auto simp: ring_blocks_def)
  let ?h1 = "h\<lparr>mem := mem_write (mem h) (b_data (blk h w)) xs,
              blocks := (blocks h)(w \<mapsto> (blk h w)\<lparr>b_bytes := length xs\<rparr>)\<rparr>"
  have up: "upd_blk w (b_bytes_update (\<lambda>_. length xs)) (h\<lparr>mem := mem_write (mem h) (b_data (blk h w)) xs\<rparr>) = Some ?h1"
    using w by (simp add: upd_blk_Some)
  note fill = fill_block [OF ring' xs]
  have "0 < r_block_realloc R" "r_block_realloc R \<le> length (fs @ w # es1)"
    using R es by (auto simp: ring_desc_def)
  moreover have "pool_plenty E (2 * length (fs @ [w]) * ?sz)" "2 * length (fs @ [w]) < sz_max"
    using plenty len by simp_all
  ultimately obtain b R' h' es' where
    gn: "get_next_block E p R w ?h1 = Some (0, b, R', h')" "ring_blocks ?sz rp (fs @ [w]) es' h'" "es' \<noteq> []"
      "b = hd es'" and kp: "keeps ?h1 h' (fs @ [w])" and
    R': "\<exists>s k. R' = R\<lparr>r_size := s, r_block_realloc := k\<rparr> \<and> 0 < k \<and> k \<le> length (fs @ w # es')" and
    out: "\<And>d n. covered ?h1 d n \<Longrightarrow> outside d n ?sz ?h1 (fs @ w # es1) \<Longrightarrow> outside d n ?sz h' (fs @ w # es')"
    using get_next_block_spec [OF E fill(1) sz refl, of p] by blast
  have "undisturbed ?sz ?h1 (fs @ w # es1) h' (fs @ w # es')"
    using undisturbed_keeps [OF kp] out by blast
  with fill(3) have "undisturbed ?sz h (fs @ es) h' ((fs @ [w]) @ es')"
    unfolding es append_assoc append_Cons append_Nil by (rule undisturbed_trans)
  moreover have "contents h' (fs @ [w]) = contents h fs @ xs"
    using keeps_contents [OF kp] fill(2) by (simp only:)
  moreover have "ring_desc R' (fs @ [w]) es'" "grown R R'"
    using R' gn(3) sz by (auto simp: ring_desc_def grown_def)
  ultimately show ?thesis using up gn unfolding es list.sel by blast
qed

text \<open>One turn of the write loop: fill the writer's block from the caller's buffer and move on.\<close>

lemma write_step:
  assumes E: "pool_sound E" and ring: "ring_blocks (r_block_size R) rp fs es h" and R: "ring_desc R fs es"
    and n: "0 < n" "n \<le> r_block_size R" and d: "outside d n (r_block_size R) h (fs @ es)"
    and plenty: "pool_plenty E (2 * Suc (length fs) * r_block_size R)" and len: "2 * Suc (length fs) < sz_max"
  shows "\<exists>h1 R' h' es'.
     upd_blk (hd es) (b_bytes_update (\<lambda>_. n)) (h\<lparr>mem := byte_copy (mem h) (b_data (blk h (hd es))) d n\<rparr>) = Some h1 \<and>
     get_next_block E p R (hd es) h1 = Some (0, hd es', R', h') \<and>
     ring_blocks (r_block_size R) rp (fs @ [hd es]) es' h' \<and> ring_desc R' (fs @ [hd es]) es' \<and>
     grown R R' \<and> contents h' (fs @ [hd es]) = contents h fs @ mem_read (mem h) d n \<and>
     undisturbed (r_block_size R) h (fs @ es) h' ((fs @ [hd es]) @ es')"
proof -
  let ?xs = "mem_read (mem h) d n"
  have "hd es \<in> set (fs @ es)" using R by (simp add: ring_desc_def)
  then have "disj (b_data (blk h (hd es))) (r_block_size R) d n" using d by (auto simp: outside_def disj_sym)
  then have "disj (b_data (blk h (hd es))) n d n" using n(2) by (auto intro: disj_sub)
  then have cp: "byte_copy (mem h) (b_data (blk h (hd es))) d n = mem_write (mem h) (b_data (blk h (hd es))) ?xs"
    by (simp add: byte_copy_eq mem_copy_def)
  have xs: "?xs \<noteq> []" "length ?xs \<le> r_block_size R" using n by (auto simp flip: length_0_conv)
  show ?thesis unfolding cp using fill_step [OF E ring R xs plenty len, of p] by (simp only: length_mem_read)
qed

text \<open>The whole loop appends the caller's bytes, in as many blocks as they need.\<close>

lemma rb_write_loop_spec:
  assumes E: "pool_sound E" and ring: "ring_blocks (r_block_size R) rp fs es h" and R: "ring_desc R fs es"
    and d: "covered h d n" "outside d n (r_block_size R) h (fs @ es)"
    and plenty: "pool_plenty E (2 * (length fs + ceil_div n (r_block_size R)) * r_block_size R)"
    and len: "2 * (length fs + ceil_div n (r_block_size R)) < sz_max"
  shows "\<exists>R' h' gs es'. rb_write_loop E p (hd es) d n written R h = Some (hd es', written + n, R', h') \<and>
     ring_blocks (r_block_size R) rp (fs @ gs) es' h' \<and> ring_desc R' (fs @ gs) es' \<and> grown R R' \<and>
     length gs = ceil_div n (r_block_size R) \<and>
     contents h' (fs @ gs) = contents h fs @ mem_read (mem h) d n \<and>
     undisturbed (r_block_size R) h (fs @ es) h' ((fs @ gs) @ es')"
  using assms
proof (induction n arbitrary: fs es h R d written rule: less_induct)
  case (less n)
  let ?sz = "r_block_size R"
  have sz: "0 < ?sz" using less.prems(3) by (simp add: ring_desc_def)
  show ?case
  proof (cases "n = 0")
    case True
    then have "rb_write_loop E p (hd es) d n written R h = Some (hd es, written + n, R, h)"
      by (subst rb_write_loop.simps) simp
    then show ?thesis using less.prems(2,3) True grown_refl undisturbed_refl
      by (intro exI [of _ R] exI [of _ h] exI [of _ "[]"] exI [of _ es]) simp
  next
    case False
    define m where "m = (if n < ?sz then n else ?sz)"
    have m: "0 < m" "m \<le> ?sz" "m \<le> n" using False sz by (auto simp: m_def)
    have cd: "ceil_div n ?sz = Suc (ceil_div (n - m) ?sz)"
      using False sz ceil_div_small [of n ?sz] ceil_div_step [of ?sz n] by (auto simp: m_def)
    have od: "outside d m ?sz h (fs @ es)" using less.prems(5) by (rule outside_sub) (use m in auto)
    have pl: "pool_plenty E (2 * Suc (length fs) * ?sz)"
    proof -
      have "2 * Suc (length fs) * ?sz \<le> 2 * (length fs + ceil_div n ?sz) * ?sz"
        unfolding cd by (intro mult_le_mono) auto
      then show ?thesis using less.prems(6) unfolding pool_plenty_def by (meson le_less_trans)
    qed
    have "2 * Suc (length fs) < sz_max" using less.prems(7) cd by simp
    from write_step [OF E less.prems(2,3) m(1,2) od pl this, of p] obtain h1 R' h' es' where
      st: "upd_blk (hd es) (b_bytes_update (\<lambda>_. m))
             (h\<lparr>mem := byte_copy (mem h) (b_data (blk h (hd es))) d m\<rparr>) = Some h1"
          "get_next_block E p R (hd es) h1 = Some (0, hd es', R', h')"
      and iv: "ring_blocks ?sz rp (fs @ [hd es]) es' h'" "ring_desc R' (fs @ [hd es]) es'" "grown R R'"
      and ct: "contents h' (fs @ [hd es]) = contents h fs @ mem_read (mem h) d m"
      and ud: "undisturbed ?sz h (fs @ es) h' ((fs @ [hd es]) @ es')"
      by auto
    have sz': "r_block_size R' = ?sz" using iv(3) by (rule grownD)
    have "hd es \<in> set (fs @ es)" using less.prems(3) by (simp add: ring_desc_def)
    then have he: "get_blk (hd es) h = Some (blk h (hd es))" "b_size (blk h (hd es)) = ?sz"
      using less.prems(2) is_ring_blk [of h rp "fs @ es" "hd es"]
      by (auto simp: ring_blocks_def areas_def)
    have run: "rb_write_loop E p (hd es) d n written R h =
       rb_write_loop E p (hd es') (d + m) (n - m) (written + m) R' h'"
      using False he st by (subst rb_write_loop.simps, cases "n < ?sz") (simp_all add: m_def Let_def)
    have cov: "covered h (d + m) (n - m)" using less.prems(4) by (rule covered_sub) (use m in auto)
    have out: "outside (d + m) (n - m) ?sz h (fs @ es)"
      using less.prems(5) by (rule outside_sub) (use m in auto)
    note un = undisturbedD [OF ud cov out]
    have lf: "length (fs @ [hd es]) + ceil_div (n - m) ?sz = length fs + ceil_div n ?sz" by (simp add: cd)
    have "n - m < n" using False m by simp
    from less.IH [OF this E, of R' "fs @ [hd es]" es' h' "d + m" "written + m", unfolded sz' lf,
        OF iv(1,2) un(1,2) less.prems(6,7)]
    obtain R2 h2 gs es2 where
      ih: "rb_write_loop E p (hd es') (d + m) (n - m) (written + m) R' h' =
             Some (hd es2, written + m + (n - m), R2, h2)"
        "ring_blocks ?sz rp ((fs @ [hd es]) @ gs) es2 h2" "ring_desc R2 ((fs @ [hd es]) @ gs) es2" "grown R' R2"
        "length gs = ceil_div (n - m) ?sz"
        "contents h2 ((fs @ [hd es]) @ gs) = contents h' (fs @ [hd es]) @ mem_read (mem h') (d + m) (n - m)"
        "undisturbed ?sz h' ((fs @ [hd es]) @ es') h2 (((fs @ [hd es]) @ gs) @ es2)"
      by blast
    have "mem_read (mem h) d n = mem_read (mem h) d m @ mem_read (mem h) (d + m) (n - m)"
      using m mem_read_add [of "mem h" d m "n - m"] by simp
    with ih(6) ct un(3) have "contents h2 (fs @ hd es # gs) = contents h fs @ mem_read (mem h) d n" by simp
    moreover have "undisturbed ?sz h (fs @ es) h2 ((fs @ hd es # gs) @ es2)"
      using undisturbed_trans [OF ud ih(7)] by simp
    moreover have "grown R R2" using iv(3) ih(4) by (rule grown_trans)
    moreover have "written + m + (n - m) = written + n" using m by simp
    ultimately show ?thesis using run ih(1-5) cd
      by (intro exI [of _ R2] exI [of _ h2] exI [of _ "hd es # gs"] exI [of _ es2]) simp
  qed
qed


section \<open>The read loop\<close>

text \<open>A read changes its destination and the ring's own areas, and nothing else.\<close>

definition reads_into :: "addr \<Rightarrow> nat \<Rightarrow> size_t \<Rightarrow> heap \<Rightarrow> addr list \<Rightarrow> heap \<Rightarrow> addr list \<Rightarrow> bool" where
  "reads_into d n sz h as h' as' \<longleftrightarrow> live h' = live h \<and>
     (\<forall>x k. outside x k sz h as \<longrightarrow> outside x k sz h' as' \<and>
        (disj d n x k \<longrightarrow> mem_read (mem h') x k = mem_read (mem h) x k))"

lemma reads_into_refl: "reads_into d n sz h as h as"
  by (simp add: reads_into_def)

lemma reads_into_trans:
  assumes "reads_into d m sz h as h1 as1" and "reads_into (d + m) (n - m) sz h1 as1 h2 as2" and "m \<le> n"
  shows "reads_into d n sz h as h2 as2"
  unfolding reads_into_def
proof (intro conjI allI impI)
  show "live h2 = live h" using assms by (simp add: reads_into_def)
  fix x k assume x: "outside x k sz h as"
  then show "outside x k sz h2 as2" using assms(1,2) by (simp add: reads_into_def)
  assume "disj d n x k"
  then have "disj d m x k" "disj (d + m) (n - m) x k" using assms(3) by (auto simp: disj_def)
  then show "mem_read (mem h2) x k = mem_read (mem h) x k"
    using assms(1,2) x unfolding reads_into_def by metis
qed

lemma reads_into_mono: "reads_into d m sz h as h' as' \<Longrightarrow> m \<le> n \<Longrightarrow> reads_into d n sz h as h' as'"
  unfolding reads_into_def by (auto simp: disj_def)

text \<open>The reader empties its block \<open>a\<close> and moves on: the block joins the empty ones.\<close>

lemma drain_block_any:
  assumes ring: "ring_blocks sz rp (a # fs) es h"
    and d: "outside d (b_bytes (blk h a)) sz h (a # fs @ es)"
  defines "n \<equiv> b_bytes (blk h a)"
  defines "h1 \<equiv> h\<lparr>mem := mem_copy (mem h) d (b_data (blk h a)) n,
                 blocks := (blocks h)(a \<mapsto> (blk h a)\<lparr>b_bytes := 0\<rparr>)\<rparr>"
  shows "ring_blocks sz (b_next (blk h a)) fs (es @ [a]) h1"
    and "contents h1 fs = contents h fs"
    and "mem_read (mem h1) d n = mem_read (mem h) (b_data (blk h a)) n"
    and "b_next (blk h a) = hd (fs @ es @ [a])"
    and "reads_into d n sz h (a # fs @ es) h1 (fs @ es @ [a])"
proof -
  from ring have ir: "is_ring (nxt h) rp (a # fs @ es)" and ar: "areas sz h (a # fs @ es)"
    and fu: "full sz h (a # fs)" and em: "empty h es" and ok: "heap_ok h"
    by (simp_all add: ring_blocks_def)
  have a: "a \<notin> set fs" "a \<notin> set es" using ir by (auto simp: is_ring_def)
  have ba: "blocks h a = Some (blk h a)" using is_ring_blk [OF ir] by auto
  have blk1: "blk h1 x = (if x = a then (blk h a)\<lparr>b_bytes := 0\<rparr> else blk h x)" for x
    by (simp add: h1_def blk_def)
  have nx1: "nxt h1 = nxt h" using ba by (auto simp: h1_def nxt_def fun_eq_iff)
  note step = is_ring_step [OF ir]
  have nx: "b_next (blk h a) = hd ((fs @ es) @ [a])" using step(1) ba by (auto simp: nxt_Some)
  then show "b_next (blk h a) = hd (fs @ es @ [a])" by simp
  have "areas sz h1 (a # fs @ es)" using ar by (rule areas_cong) (auto simp: blk1 h1_def)
  then have "areas sz h1 (fs @ es @ [a])" by (subst areas_perm [of _ "a # fs @ es"]) auto
  moreover have "is_ring (nxt h1) (b_next (blk h a)) (fs @ es @ [a])"
    using step(2) nx nx1 by simp
  moreover have "full sz h1 fs" using fu a by (auto simp: full_def blk1)
  moreover have "empty h1 (es @ [a])" using em by (auto simp: empty_def blk1)
  moreover have "heap_ok h1" using ok by (rule heap_ok_mono) (use ba in \<open>auto simp: h1_def\<close>)
  ultimately show "ring_blocks sz (b_next (blk h a)) fs (es @ [a]) h1"
    by (simp add: ring_blocks_def)
  have "disj d n (b_data (blk h x)) (b_bytes (blk h x))" if "x \<in> set fs" for x
  proof -
    have "disj d n (b_data (blk h x)) sz" "b_bytes (blk h x) \<le> sz"
      using d fu that by (auto simp: outside_def full_def n_def)
    then show ?thesis by (auto intro: disj_sub)
  qed
  then show "contents h1 fs = contents h fs"
    using a by (intro contents_cong) (auto simp: blk1 h1_def mem_simps)
  show "mem_read (mem h1) d n = mem_read (mem h) (b_data (blk h a)) n" by (simp add: h1_def mem_simps)
  show "reads_into d n sz h (a # fs @ es) h1 (fs @ es @ [a])"
    by (auto simp: reads_into_def outside_def blk1) (simp_all add: h1_def mem_simps)
qed

lemma drain_block:
  assumes ring: "ring_blocks sz rp (a # fs) es h" and es: "es \<noteq> []"
    and d: "outside d (b_bytes (blk h a)) sz h (a # fs @ es)"
  defines "n \<equiv> b_bytes (blk h a)"
  defines "h1 \<equiv> h\<lparr>mem := mem_copy (mem h) d (b_data (blk h a)) n,
                 blocks := (blocks h)(a \<mapsto> (blk h a)\<lparr>b_bytes := 0\<rparr>)\<rparr>"
  shows "ring_blocks sz (b_next (blk h a)) fs (es @ [a]) h1"
    and "contents h1 fs = contents h fs"
    and "mem_read (mem h1) d n = mem_read (mem h) (b_data (blk h a)) n"
    and "b_next (blk h a) = hd (fs @ es)"
    and "reads_into d n sz h (a # fs @ es) h1 (fs @ es @ [a])"
  using drain_block_any [OF ring d] es by (simp_all add: n_def h1_def hd_append)

text \<open>A read that ends inside block \<open>a\<close> takes a prefix and moves the rest to the front.\<close>

lemma part_block_read:
  assumes ring: "ring_blocks sz rp (a # fs) es h" and n: "0 < n" "n < b_bytes (blk h a)"
    and d: "outside d n sz h (a # fs @ es)"
  defines "k \<equiv> b_bytes (blk h a) - n" and "x \<equiv> b_data (blk h a)"
  defines "h1 \<equiv> h\<lparr>mem := mem_copy (mem_copy (mem h) d x n) x (x + n) k,
                 blocks := (blocks h)(a \<mapsto> (blk h a)\<lparr>b_bytes := k\<rparr>)\<rparr>"
  shows "ring_blocks sz rp (a # fs) es h1"
    and "contents h1 (a # fs) = drop n (contents h (a # fs))"
    and "mem_read (mem h1) d n = take n (contents h (a # fs))"
    and "reads_into d n sz h (a # fs @ es) h1 (a # fs @ es)"
proof -
  from ring have ir: "is_ring (nxt h) rp (a # fs @ es)" and ar: "areas sz h (a # fs @ es)"
    and fu: "full sz h (a # fs)" and em: "empty h es" and ok: "heap_ok h"
    by (simp_all add: ring_blocks_def)
  have a: "a \<notin> set fs" "a \<notin> set es" using ir by (auto simp: is_ring_def)
  have ba: "blocks h a = Some (blk h a)" using is_ring_blk [OF ir] by auto
  have sz: "b_bytes (blk h a) \<le> sz" using fu by (simp add: full_def)
  have blk1: "blk h1 y = (if y = a then (blk h a)\<lparr>b_bytes := k\<rparr> else blk h y)" for y
    by (simp add: h1_def blk_def)
  have nx1: "nxt h1 = nxt h" using ba by (auto simp: h1_def nxt_def fun_eq_iff)
  have dx: "disj d n x sz" using d by (simp add: outside_def x_def)
  then have xd: "disj x k d n" "disj d n (x + n) k" using sz n by (auto simp: k_def disj_def)
  have "areas sz h1 (a # fs @ es)" using ar by (rule areas_cong) (auto simp: blk1 h1_def)
  moreover have "full sz h1 (a # fs)" using fu a n by (auto simp: full_def blk1 k_def)
  moreover have "empty h1 es" using em a by (auto simp: empty_def blk1)
  moreover have "heap_ok h1" using ok by (rule heap_ok_mono) (use ba in \<open>auto simp: h1_def\<close>)
  ultimately show "ring_blocks sz rp (a # fs) es h1" using ir nx1 by (simp add: ring_blocks_def)
  have "disj d n (b_data (blk h y)) (b_bytes (blk h y)) \<and> disj x k (b_data (blk h y)) (b_bytes (blk h y))"
    if "y \<in> set fs" for y
  proof -
    have "disj d n (b_data (blk h y)) sz" "disj x sz (b_data (blk h y)) sz" "b_bytes (blk h y) \<le> sz"
      using d fu ar a that by (auto simp: outside_def full_def areas_def x_def)
    then show ?thesis using sz by (auto intro: disj_sub simp: k_def)
  qed
  then have rest: "contents h1 fs = contents h fs"
    using a by (intro contents_cong) (auto simp: blk1 h1_def mem_simps)
  have "mem_read (mem h1) x k = mem_read (mem h) (x + n) k" using xd by (simp add: h1_def mem_simps)
  also have "\<dots> = drop n (mem_read (mem h) x (b_bytes (blk h a)))"
    unfolding k_def using n by (intro mem_read_drop) simp
  finally show "contents h1 (a # fs) = drop n (contents h (a # fs))"
    using rest n by (simp add: blk1 x_def)
  have "mem_read (mem h1) d n = mem_read (mem h) x n" using xd(1) by (simp add: h1_def mem_simps)
  also have "\<dots> = take n (mem_read (mem h) x (b_bytes (blk h a)))" using n by (intro mem_read_take) simp
  finally show "mem_read (mem h1) d n = take n (contents h (a # fs))" using n by (simp add: x_def)
  have "disj x k y l" if "disj y l x sz" for y l using that sz by (auto simp: disj_def k_def)
  then show "reads_into d n sz h (a # fs @ es) h1 (a # fs @ es)"
    by (auto simp: reads_into_def outside_def blk1 x_def [symmetric]) (simp_all add: h1_def mem_simps x_def)
qed

lemma rb_read_loop_spec:
  assumes ring: "ring_blocks sz rp fs es h" and es: "es \<noteq> []" and d: "outside d n sz h (fs @ es)"
    and enough: "n \<le> length (contents h fs) \<or>
       block = IO_NO_BLOCK \<and> (got + length (contents h fs)) mod align = 0"
    and r: "r = min n (length (contents h fs))"
  shows "\<exists>b h' fs' es'. rb_read_loop block align rp d n got h = Some (b, got + r, h') \<and>
     ring_blocks sz b fs' es' h' \<and> es' \<noteq> [] \<and> hd es' = hd es \<and> length fs' \<le> length fs \<and>
     length (fs' @ es') = length (fs @ es) \<and>
     contents h' fs' = drop r (contents h fs) \<and> mem_read (mem h') d r = take r (contents h fs) \<and>
     reads_into d n sz h (fs @ es) h' (fs' @ es')"
  using assms
proof (induction fs arbitrary: rp es h d n got r)
  case Nil
  have rp: "rp = hd es" using is_ring_hd [of "nxt h" rp es] Nil.prems(1) by (simp add: ring_blocks_def)
  have "rp \<in> set es" using Nil.prems(2) rp by simp
  with Nil.prems(1) have "get_blk rp h = Some (blk h rp)" "b_bytes (blk h rp) = 0"
    using is_ring_blk [of h rp es rp] by (auto simp: ring_blocks_def empty_def)
  then have "rb_read_loop block align rp d n got h = Some (rp, got, h)"
    using Nil.prems(4) by (subst rb_read_loop.simps) auto
  then show ?case using Nil.prems(1,2,5) reads_into_refl
    by (intro exI [of _ rp] exI [of _ h] exI [of _ "[]"] exI [of _ es]) simp
next
  case (Cons a fs)
  let ?k = "b_bytes (blk h a)"
  from Cons.prems(1) have ir: "is_ring (nxt h) rp (a # fs @ es)" and k: "0 < ?k"
    by (auto simp: ring_blocks_def full_def)
  then have rp: "rp = a" "get_blk a h = Some (blk h a)"
    using is_ring_hd [OF ir] is_ring_blk [OF ir, of a] by auto
  have od: "outside d n sz h (a # fs @ es)" using Cons.prems(3) by simp
  consider "n = 0" | "0 < n" "n < ?k" | "?k \<le> n" by linarith
  then show ?case
  proof cases
    case 1
    then have "rb_read_loop block align rp d n got h = Some (rp, got, h)"
      by (subst rb_read_loop.simps) simp
    then show ?thesis using Cons.prems 1 reads_into_refl
      by (intro exI [of _ rp] exI [of _ h] exI [of _ "a # fs"] exI [of _ es]) simp
  next
    case 2
    note part = part_block_read [OF Cons.prems(1) 2 od]
    let ?x = "b_data (blk h a)"
    let ?h1 = "h\<lparr>mem := mem_copy (mem_copy (mem h) d ?x n) ?x (?x + n) (?k - n),
                 blocks := (blocks h)(a \<mapsto> (blk h a)\<lparr>b_bytes := ?k - n\<rparr>)\<rparr>"
    have r: "r = n" using 2 Cons.prems(5) by simp
    have "rb_read_loop block align rp d n got h = rb_read_loop block align a (d + n) 0 (got + n) ?h1"
      using 2 rp ir is_ring_blk [OF ir, of a] by (subst rb_read_loop.simps) (simp add: upd_blk_def Let_def)
    also have "\<dots> = Some (rp, got + r, ?h1)" using rp r by (subst rb_read_loop.simps) simp
    finally show ?thesis using part Cons.prems(2) r
      by (intro exI [of _ rp] exI [of _ ?h1] exI [of _ "a # fs"] exI [of _ es]) simp
  next
    case 3
    have "outside d ?k sz h (a # fs @ es)" using od by (rule outside_sub) (use 3 in auto)
    note drain = drain_block [OF Cons.prems(1,2) this]
    let ?h1 = "h\<lparr>mem := mem_copy (mem h) d (b_data (blk h a)) ?k,
                 blocks := (blocks h)(a \<mapsto> (blk h a)\<lparr>b_bytes := 0\<rparr>)\<rparr>"
    have run: "rb_read_loop block align rp d n got h =
        rb_read_loop block align (b_next (blk h a)) (d + ?k) (n - ?k) (got + ?k) ?h1"
      using 3 k rp is_ring_blk [OF ir, of a] by (subst rb_read_loop.simps) (simp add: upd_blk_def Let_def)
    have "outside (d + ?k) (n - ?k) sz h (a # fs @ es)" using od by (rule outside_sub) (use 3 in auto)
    moreover have "disj d ?k (d + ?k) (n - ?k)" by (simp add: disj_def)
    ultimately have out: "outside (d + ?k) (n - ?k) sz ?h1 (fs @ es @ [a])"
      using drain(5) by (auto simp: reads_into_def)
    have "n - ?k \<le> length (contents ?h1 fs) \<or>
       block = IO_NO_BLOCK \<and> (got + ?k + length (contents ?h1 fs)) mod align = 0"
      using Cons.prems(4) 3 drain(2) by (auto simp: add.assoc)
    from Cons.IH [OF drain(1) _ out this refl] obtain b h' fs' es' where
      ih: "rb_read_loop block align (b_next (blk h a)) (d + ?k) (n - ?k) (got + ?k) ?h1 =
             Some (b, got + ?k + min (n - ?k) (length (contents h fs)), h')"
        "ring_blocks sz b fs' es' h'" "es' \<noteq> []" "hd es' = hd (es @ [a])" "length fs' \<le> length fs"
        "length (fs' @ es') = length (fs @ es @ [a])"
        "contents h' fs' = drop (min (n - ?k) (length (contents h fs))) (contents h fs)"
        "mem_read (mem h') (d + ?k) (min (n - ?k) (length (contents h fs))) =
           take (min (n - ?k) (length (contents h fs))) (contents h fs)"
        "reads_into (d + ?k) (n - ?k) sz ?h1 (fs @ es @ [a]) h' (fs' @ es')"
      unfolding drain(2) by blast
    have r: "r = ?k + min (n - ?k) (length (contents h fs))" using 3 Cons.prems(5) by simp
    have od1: "outside d ?k sz ?h1 (fs @ es @ [a])"
      using \<open>outside d ?k sz h (a # fs @ es)\<close> by (auto simp: outside_def)
    then have "mem_read (mem h') d ?k = mem_read (mem h) (b_data (blk h a)) ?k"
      using ih(9) drain(3) by (auto simp: reads_into_def disj_def)
    then have "mem_read (mem h') d r = take r (contents h (a # fs))"
      unfolding r by (simp add: mem_read_add ih(8))
    moreover have "contents h' fs' = drop r (contents h (a # fs))" using ih(7) r by simp
    moreover have "reads_into d n sz h ((a # fs) @ es) h' (fs' @ es')"
      using reads_into_trans [OF drain(5) ih(9) 3] by simp
    ultimately show ?thesis using run ih r Cons.prems(2)
      by (intro exI [of _ b] exI [of _ h'] exI [of _ fs'] exI [of _ es']) (simp add: add.assoc)
  qed
qed


section \<open>Water marks\<close>

text \<open>Whatever the rounding, the fraction stays clear of 1.\<close>

lemma lwm_fraction_bounds:
  assumes "0 < count"
  shows "0 \<le> lwm_fraction count" and "lwm_fraction count \<le> 92 / 100"
proof -
  let ?e = "1 - 1 / 2 ^ 53 :: rat"
  let ?t = "dbl (dbl (1 / 10) * dbl_of_size count)"
  have c: "1 * ?e \<le> dbl_of_size count"
    using dbl_ge [of "of_nat count"] assms mult_right_mono [of 1 "of_nat count" ?e]
    by (simp add: dbl_of_size_def del: of_nat_le_iff)
  have e: "1 / 10 * ?e \<le> dbl (1 / 10)" using dbl_ge [of "1 / 10"] by simp
  have "1 / 10 * ?e * (1 * ?e) \<le> dbl (1 / 10) * dbl_of_size count"
    using e c by (intro mult_mono) auto
  then have p: "9 / 100 \<le> dbl (1 / 10) * dbl_of_size count * ?e" by simp
  have "0 \<le> dbl (1 / 10) * dbl_of_size count"
    using dbl_nonneg [of "1 / 10"] dbl_nonneg [of "of_nat count"] by (simp add: dbl_of_size_def)
  from dbl_ge [OF this] p have t: "9 / 100 \<le> ?t" by linarith
  have "dbl (1 - ?t) \<le> 92 / 100"
  proof (cases "0 \<le> 1 - ?t")
    case True
    have "(1 - ?t) * (1 + 1 / 2 ^ 53) \<le> 91 / 100 * (1 + 1 / 2 ^ 53)" using t by (intro mult_right_mono) auto
    then show ?thesis using dbl_le [OF True] by simp
  next
    case False
    then show ?thesis using dbl_neg [of "1 - ?t"] by simp
  qed
  moreover have "dbl (1 / 10) \<le> 92 / 100" "0 \<le> dbl (1 / 10)"
    using dbl_le [of "1 / 10"] dbl_nonneg [of "1 / 10"] by simp_all
  ultimately show "0 \<le> lwm_fraction count" and "lwm_fraction count \<le> 92 / 100"
    by (auto simp: lwm_fraction_def Let_def)
qed

lemma high_water_mark_hit_spec:
  assumes "0 < r_high_water_mark R" and "r_high_water_mark R < sz_max" and "r_high_water_count R + 1 < sz_max"
  shows "\<exists>m < r_high_water_mark R. high_water_mark_hit R =
     Some (R\<lparr>r_high_water_count := r_high_water_count R + 1, r_low_water_mark := m\<rparr>)"
proof -
  let ?c = "r_high_water_count R + 1" and ?w = "of_nat (r_high_water_mark R) :: rat"
  let ?y = "lwm_fraction ?c * dbl_of_size (r_high_water_mark R)"
  note f = lwm_fraction_bounds [of ?c]
  have w: "0 < ?w" "?w \<le> of_nat sz_max" using assms by simp_all
  have d: "dbl_of_size (r_high_water_mark R) \<le> ?w * (1 + 1 / 2 ^ 53)" "0 \<le> dbl_of_size (r_high_water_mark R)"
    using dbl_le [of ?w] dbl_nonneg [of ?w] by (simp_all add: dbl_of_size_def)
  have y: "0 \<le> ?y" using f d by simp
  have "?y \<le> 92 / 100 * (?w * (1 + 1 / 2 ^ 53))" using f d by (intro mult_mono) auto
  then have "?y * (1 + 1 / 2 ^ 53) \<le> 92 / 100 * (?w * (1 + 1 / 2 ^ 53)) * (1 + 1 / 2 ^ 53)"
    by (intro mult_right_mono) auto
  also have "\<dots> < ?w" using w(1) by simp
  finally have lt: "dbl ?y < ?w" using dbl_le [OF y] by linarith
  have nn: "0 \<le> dbl ?y" using y by (rule dbl_nonneg)
  have "nat \<lfloor>dbl ?y\<rfloor> < r_high_water_mark R"
    using lt nn by (simp add: nat_less_iff floor_less_iff)
  moreover have "dbl_to_size (dbl ?y) = Some (nat \<lfloor>dbl ?y\<rfloor>)"
    using lt nn w(2) by (simp add: dbl_to_size_def)
  ultimately show ?thesis using assms(3)
    by (intro exI [of _ "nat \<lfloor>dbl ?y\<rfloor>"]) (simp add: high_water_mark_hit_def sz_add_exact)
qed


text \<open>The test at the end of a write never fails, and it changes the water-mark fields only.\<close>

lemma rb_check_high_water_spec:
  assumes "r_high_water_mark R < sz_max" and "r_high_water_count R + 1 < sz_max"
  shows "\<exists>c m. rb_check_high_water R = Some (R\<lparr>r_high_water_count := c, r_low_water_mark := m\<rparr>) \<and>
     (if r_high_water_mark R \<noteq> 0 \<and> r_high_water_mark R \<le> r_bytes R
      then c = r_high_water_count R + 1 \<and> m < r_high_water_mark R
      else c = r_high_water_count R \<and> m = r_low_water_mark R)"
proof (cases "r_high_water_mark R \<noteq> 0 \<and> r_high_water_mark R \<le> r_bytes R")
  case True
  then show ?thesis using high_water_mark_hit_spec [of R] assms by (auto simp: rb_check_high_water_def)
next
  case False
  then show ?thesis
    by (intro exI [of _ "r_high_water_count R"] exI [of _ "r_low_water_mark R"])
      (auto simp: rb_check_high_water_def)
qed

section \<open>The ring as a queue of bytes\<close>

text \<open>
  \<open>B\<close> lists buffers of the callers, as address and length: they lie in memory that was handed
  out and outside the ring. \<open>q\<close> holds the bytes stored, in the order in which they were
  written, and \<open>k\<close> the number of blocks they occupy.
\<close>

definition ring_fifo :: "(addr \<times> nat) list \<Rightarrow> ring_t \<Rightarrow> heap \<Rightarrow> byte list \<Rightarrow> nat \<Rightarrow> bool" where
  "ring_fifo B R h q k \<longleftrightarrow>
     r_state R = RB_STATE_READY \<and> \<not> r_wlock R \<and> \<not> r_rlock R \<and>
     r_bytes R = length q \<and> length q < sz_max \<and> r_high_water_mark R < sz_max \<and>
     (\<exists>fs es. ring_desc R fs es \<and> ring_blocks (r_block_size R) (r_rp R) fs es h \<and> r_wp R = hd es \<and>
        contents h fs = q \<and> length fs = k \<and>
        (\<forall>(d, n) \<in> set B. covered h d n \<and> outside d n (r_block_size R) h (fs @ es)))"

lemma ring_fifoE:
  assumes "ring_fifo B R h q k"
  obtains fs es where "r_state R = RB_STATE_READY" "\<not> r_wlock R" "\<not> r_rlock R"
      "r_bytes R = length q" "length q < sz_max" "r_high_water_mark R < sz_max"
    and "ring_desc R fs es" and "ring_blocks (r_block_size R) (r_rp R) fs es h" and "r_wp R = hd es"
    and "contents h fs = q" and "length fs = k"
    and "\<And>d n. (d, n) \<in> set B \<Longrightarrow> covered h d n \<and> outside d n (r_block_size R) h (fs @ es)"
  using assms unfolding ring_fifo_def by blast

lemma ring_fifoI:
  assumes "r_state R = RB_STATE_READY" "\<not> r_wlock R" "\<not> r_rlock R"
      "r_bytes R = length q" "length q < sz_max" "r_high_water_mark R < sz_max"
    and "ring_desc R fs es" and "ring_blocks (r_block_size R) (r_rp R) fs es h" and "r_wp R = hd es"
    and "contents h fs = q" and "length fs = k"
    and "\<And>d n. (d, n) \<in> set B \<Longrightarrow> covered h d n \<and> outside d n (r_block_size R) h (fs @ es)"
  shows "ring_fifo B R h q k"
  unfolding ring_fifo_def using assms by blast

text \<open>A ring before its first write: descriptors without data areas.\<close>

definition ring_new :: "(addr \<times> nat) list \<Rightarrow> ring_t \<Rightarrow> heap \<Rightarrow> bool" where
  "ring_new B R h \<longleftrightarrow>
     r_state R = RB_STATE_NOINIT \<and> \<not> r_wlock R \<and> \<not> r_rlock R \<and>
     r_bytes R = 0 \<and> r_low_water_mark R = 0 \<and> r_high_water_mark R < sz_max \<and> r_wp R = r_rp R \<and> heap_ok h \<and>
     (\<exists>bs. is_ring (nxt h) (r_rp R) bs \<and> empty h bs \<and> length bs = r_block_realloc R) \<and>
     (\<forall>(d, n) \<in> set B. covered h d n)"

text \<open>The buffers in \<open>B\<close> keep their bytes, apart from those that overlap the region given.\<close>

definition bufs_same :: "(addr \<times> nat) list \<Rightarrow> addr \<Rightarrow> nat \<Rightarrow> heap \<Rightarrow> heap \<Rightarrow> bool" where
  "bufs_same B d n h h' \<longleftrightarrow>
     (\<forall>(x, k) \<in> set B. disj d n x k \<longrightarrow> mem_read (mem h') x k = mem_read (mem h) x k)"

text \<open>The low water mark after a write that leaves \<open>tot\<close> bytes in the ring: it is set, below the
  high water mark, when that mark is in use and was reached.\<close>

definition marked :: "ring_t \<Rightarrow> nat \<Rightarrow> ring_t \<Rightarrow> bool" where
  "marked R tot R' \<longleftrightarrow>
     (if r_high_water_mark R \<noteq> 0 \<and> r_high_water_mark R \<le> tot
      then r_low_water_mark R' < r_high_water_mark R \<and> r_high_water_count R' = r_high_water_count R + 1
      else r_low_water_mark R' = 0 \<and> r_high_water_count R' = r_high_water_count R)"

text \<open>The fields that only the setters and \<open>stop\<close> change.\<close>

definition settings :: "ring_t \<Rightarrow> bool \<times> size_t \<times> size_t \<times> size_t \<times> size_t" where
  "settings R = (r_flush R, r_block_size R, r_block_align R, r_high_water_mark R, r_min_return_size R)"

lemma rb_buf_write_ready:
  assumes E: "pool_sound E" and F: "ring_fifo B R h q k" and d: "(d, c) \<in> set B" "n \<le> c"
    and lwm: "r_low_water_mark R = 0" and cnt: "r_high_water_count R + 1 < sz_max"
    and room: "length q + n < sz_max"
    and plenty: "pool_plenty E (2 * (k + ceil_div n (r_block_size R)) * r_block_size R)"
    and len: "2 * (k + ceil_div n (r_block_size R)) < sz_max"
  shows "\<exists>R' h'. rb_buf_write E p R d n h = Some (IO_SUCCESS, n, R', h') \<and>
     ring_fifo B R' h' (q @ mem_read (mem h) d n) (k + ceil_div n (r_block_size R)) \<and>
     bufs_same B 0 0 h h' \<and> settings R' = settings R \<and> marked R (length q + n) R'"
proof -
  from F obtain fs es where S: "r_state R = RB_STATE_READY" "\<not> r_wlock R" "\<not> r_rlock R"
      "r_bytes R = length q" "length q < sz_max" "r_high_water_mark R < sz_max"
    and rd: "ring_desc R fs es" and rb: "ring_blocks (r_block_size R) (r_rp R) fs es h" and wp: "r_wp R = hd es"
    and q: "contents h fs = q" and k: "length fs = k"
    and B: "\<And>d n. (d, n) \<in> set B \<Longrightarrow> covered h d n \<and> outside d n (r_block_size R) h (fs @ es)"
    using ring_fifoE [OF F] by blast
  have dn: "covered h d n" "outside d n (r_block_size R) h (fs @ es)"
    using B [OF d(1)] d(2) by (auto intro: covered_sub outside_sub)
  from rb_write_loop_spec [OF E rb rd dn plenty [folded k] len [folded k], of p 0]
  obtain R1 h' gs es' where
    L: "rb_write_loop E p (hd es) d n 0 R h = Some (hd es', n, R1, h')"
      "ring_blocks (r_block_size R) (r_rp R) (fs @ gs) es' h'" "ring_desc R1 (fs @ gs) es'" "grown R R1"
      "length gs = ceil_div n (r_block_size R)" "contents h' (fs @ gs) = q @ mem_read (mem h) d n"
      "undisturbed (r_block_size R) h (fs @ es) h' ((fs @ gs) @ es')"
    using q by auto
  from L(4) obtain s j where R1: "R1 = R\<lparr>r_size := s, r_block_realloc := j\<rparr>" by (auto simp: grown_def)
  let ?R2 = "R1\<lparr>r_bytes := length q + n\<rparr>"
  have "r_high_water_mark ?R2 < sz_max" "r_high_water_count ?R2 + 1 < sz_max" using S(6) cnt R1 by simp_all
  from rb_check_high_water_spec [OF this] obtain wc m where
    W: "rb_check_high_water ?R2 = Some (?R2\<lparr>r_high_water_count := wc, r_low_water_mark := m\<rparr>)"
      "if r_high_water_mark ?R2 \<noteq> 0 \<and> r_high_water_mark ?R2 \<le> r_bytes ?R2
       then wc = r_high_water_count ?R2 + 1 \<and> m < r_high_water_mark ?R2
       else wc = r_high_water_count ?R2 \<and> m = r_low_water_mark ?R2"
    by blast
  let ?R' = "?R2\<lparr>r_high_water_count := wc, r_low_water_mark := m, r_wp := hd es'\<rparr>"
  have "r_bytes R1 = length q" using S R1 by simp
  then have run: "rb_buf_write E p R d n h = Some (IO_SUCCESS, n, ?R', h')"
    using S(1,2) lwm wp L(1) W(1) room by (simp add: rb_buf_write_def sz_add_exact)
  have "covered h' x l \<and> outside x l (r_block_size R) h' ((fs @ gs) @ es')" if "(x, l) \<in> set B" for x l
    using undisturbedD [OF L(7)] B [OF that] by blast
  then have "ring_fifo B ?R' h' (q @ mem_read (mem h) d n) (k + ceil_div n (r_block_size R))"
    using S L(2,3,5,6) room k R1
    by (intro ring_fifoI [of _ _ "fs @ gs" es']) (simp_all add: ring_desc_def)
  moreover have "bufs_same B 0 0 h h'"
    using undisturbedD(3) [OF L(7)] B by (auto simp: bufs_same_def)
  ultimately show ?thesis using run W(2) lwm R1
    by (intro exI [of _ ?R'] exI [of _ h']) (auto simp: marked_def settings_def split: if_splits)
qed


lemma ring_data_init_new:
  assumes E: "pool_sound E" and N: "ring_new B R h" and n: "0 < n" "n < 2 ^ 53"
    and al: "0 < r_block_align R" "r_block_align R < 2 ^ 53"
  defines "sz \<equiv> ceil_div n (r_block_align R) * r_block_align R"
  assumes plenty: "pool_plenty E (r_block_realloc R * sz)"
  shows "\<exists>s h'. ring_data_init E p R n h =
       Some (0, R\<lparr>r_block_size := sz, r_size := s, r_state := RB_STATE_READY\<rparr>, h') \<and>
     ring_fifo B (R\<lparr>r_block_size := sz, r_size := s, r_state := RB_STATE_READY\<rparr>) h' [] 0 \<and> mem h' = mem h"
proof -
  from N obtain bs where S: "\<not> r_wlock R" "\<not> r_rlock R" "r_bytes R = 0" "r_high_water_mark R < sz_max"
      "r_wp R = r_rp R" "heap_ok h"
    and bs: "is_ring (nxt h) (r_rp R) bs" "empty h bs" "length bs = r_block_realloc R"
    and B: "\<And>d n. (d, n) \<in> set B \<Longrightarrow> covered h d n"
    unfolding ring_new_def by blast
  have sz: "0 < sz" using n(1) al(1) ceil_div_pos by (simp add: sz_def)
  have bs': "path (nxt h) (r_rp R) bs (r_rp R)" "bs \<noteq> []" "distinct bs" "set bs \<subseteq> dom (blocks h)"
    using bs(1) is_ring_dom [OF bs(1)] by (auto simp: is_ring_def)
  have "sz \<le> r_block_realloc R * sz" using bs(3) bs'(2) by (cases "r_block_realloc R") auto
  then have "pool_plenty E sz" using plenty unfolding pool_plenty_def by (meson le_less_trans)
  with block_data_fastalloc_spec [OF E bs'(1,2,3) _ sz, of p] plenty bs(3) obtain h' buf where
    A: "block_data_fastalloc E p (r_rp R) sz h = Some (length bs * sz, h')" "mem h' = mem h"
      "parted sz bs (length bs) (r_rp R) buf h h'"
    by auto
  note pa = parted_areas [OF A(3) bs'(3,4), unfolded take_all_iff [THEN iffD2, OF order_refl]]
  let ?R = "R\<lparr>r_block_size := sz, r_size := sz_add (r_size R) (length bs * sz), r_state := RB_STATE_READY\<rparr>"
  have "is_ring (nxt h') (r_rp R) bs"
    using parted_path [OF A(3) bs'(1)] bs'(2,3) by (simp add: is_ring_def)
  then have rb: "ring_blocks sz (r_rp R) [] bs h'"
    using pa(1,2,4,5) S(6) by (auto simp: ring_blocks_def full_def intro: heap_ok_mono)
  have "covered h' d k \<and> outside d k sz h' bs" if "(d, k) \<in> set B" for d k
    using pa(3,5) B [OF that] by (auto intro: covered_mono)
  then have "ring_fifo B ?R h' [] 0"
    using S rb sz bs(3) bs'(2) is_ring_hd [OF bs(1)]
    by (intro ring_fifoI [of _ _ "[]" bs]) (auto simp: ring_desc_def sz_max_def dest: sym)
  moreover have "ring_data_init E p R n h = Some (0, ?R, h')"
    using S A(1) rb_block_size_eq [OF n(2) al] sz bs'(2)
    by (simp add: ring_data_init_def rb_data_init_def sz_def)
  ultimately show ?thesis using A(2) by blast
qed

text \<open>A first write allocates the data areas and then behaves like any other.\<close>

lemma rb_buf_write_first:
  assumes E: "pool_sound E" and N: "ring_new B R h" and d: "(d, c) \<in> set B" "n \<le> c" and n: "0 < n" "n < 2 ^ 53"
    and al: "0 < r_block_align R" "r_block_align R < 2 ^ 53" and cnt: "r_high_water_count R + 1 < sz_max"
  defines "sz \<equiv> ceil_div n (r_block_align R) * r_block_align R"
  assumes plenty: "pool_plenty E (r_block_realloc R * sz)" "pool_plenty E (2 * sz)"
  shows "\<exists>R' h'. rb_buf_write E p R d n h = Some (IO_SUCCESS, n, R', h') \<and>
     ring_fifo B R' h' (mem_read (mem h) d n) 1 \<and> bufs_same B 0 0 h h' \<and> settings R' = settings (R\<lparr>r_block_size := sz\<rparr>) \<and> marked R n R'"
proof -
  have lwm: "r_low_water_mark R = 0" "r_state R = RB_STATE_NOINIT" using N by (simp_all add: ring_new_def)
  obtain s h1 where I: "ring_data_init E p R n h =
       Some (0, R\<lparr>r_block_size := sz, r_size := s, r_state := RB_STATE_READY\<rparr>, h1)"
     "ring_fifo B (R\<lparr>r_block_size := sz, r_size := s, r_state := RB_STATE_READY\<rparr>) h1 [] 0" "mem h1 = mem h"
    using ring_data_init_new [OF E N n al plenty(1) [unfolded sz_def], of p] unfolding sz_def by blast
  let ?R = "R\<lparr>r_block_size := sz, r_size := s, r_state := RB_STATE_READY\<rparr>"
  have eq: "rb_buf_write E p R d n h = rb_buf_write E p ?R d n h1"
    using I(1) lwm by (simp add: rb_buf_write_def)
  have one: "ceil_div n sz = 1" using n(1) ceil_div_le [OF al(1), of n] by (simp add: ceil_div_small sz_def)
  have "\<exists>R' h'. rb_buf_write E p ?R d n h1 = Some (IO_SUCCESS, n, R', h') \<and>
     ring_fifo B R' h' ([] @ mem_read (mem h1) d n) (0 + ceil_div n (r_block_size ?R)) \<and>
     bufs_same B 0 0 h1 h' \<and> settings R' = settings ?R \<and> marked ?R (length ([] :: byte list) + n) R'"
    using lwm cnt n(2) plenty(2) one by (intro rb_buf_write_ready [OF E I(2) d]) (simp_all add: sz_max_def)
  moreover have "marked ?R n = marked R n" "settings ?R = settings (R\<lparr>r_block_size := sz\<rparr>)"
    by (simp_all add: marked_def settings_def fun_eq_iff)
  ultimately show ?thesis using eq I(3) one by (simp add: bufs_same_def)
qed

text \<open>A read takes a prefix of the queue.\<close>

lemma rb_buf_read_ready:
  assumes F: "ring_fifo B R h q k" and d: "(d, c) \<in> set B" "n \<le> c" and al: "0 < align"
    and enough: "n - n mod align \<le> length q \<or> length q < r_min_return_size R \<or>
       block = IO_NO_BLOCK \<and> length q mod align = 0"
  defines "r \<equiv> (if length q < r_min_return_size R then 0 else min (n - n mod align) (length q))"
  shows "\<exists>R' h' k'. rb_buf_read R d n block align h =
       Some (if r_flush R \<and> r = 0 then IO_COMPLETE else IO_SUCCESS, r, R', h') \<and>
     ring_fifo B R' h' (drop r q) k' \<and> k' \<le> k \<and> mem_read (mem h') d r = take r q \<and> bufs_same B d n h h' \<and>
     (\<exists>b. R' = R\<lparr>r_bytes := length q - r, r_rp := b\<rparr>)"
proof -
  obtain fs es where S: "r_state R = RB_STATE_READY" "\<not> r_wlock R" "\<not> r_rlock R"
      "r_bytes R = length q" "length q < sz_max" "r_high_water_mark R < sz_max"
    and rd: "ring_desc R fs es" and rb: "ring_blocks (r_block_size R) (r_rp R) fs es h" and wp: "r_wp R = hd es"
    and q: "contents h fs = q" and k: "length fs = k"
    and B: "\<And>d n. (d, n) \<in> set B \<Longrightarrow> covered h d n \<and> outside d n (r_block_size R) h (fs @ es)"
    using ring_fifoE [OF F] by blast
  define m where "m = (if length q < r_min_return_size R then 0 else n - n mod align)"
  have m: "m \<le> n" by (simp add: m_def)
  have "outside d c (r_block_size R) h (fs @ es)" using B [OF d(1)] by blast
  then have od: "outside d m (r_block_size R) h (fs @ es)" by (rule outside_sub) (use m d(2) in auto)
  have es: "es \<noteq> []" using rd by (simp add: ring_desc_def)
  have en: "m \<le> length (contents h fs) \<or> block = IO_NO_BLOCK \<and> (0 + length (contents h fs)) mod align = 0"
    using enough q by (auto simp: m_def)
  have r: "r = min m (length (contents h fs))" using q by (simp add: r_def m_def)
  from rb_read_loop_spec [OF rb es od en r] obtain b h' fs' es' where
    L: "rb_read_loop block align (r_rp R) d m 0 h = Some (b, 0 + r, h')" "ring_blocks (r_block_size R) b fs' es' h'"
      "es' \<noteq> []" "hd es' = hd es" "length fs' \<le> length fs" "length (fs' @ es') = length (fs @ es)"
      "contents h' fs' = drop r q" "mem_read (mem h') d r = take r q"
      "reads_into d m (r_block_size R) h (fs @ es) h' (fs' @ es')"
    unfolding q by blast
  let ?R' = "R\<lparr>r_bytes := length q - r, r_rp := b\<rparr>"
  have "sz_sub (length q) r = length q - r" using S(5) r q by (simp add: sz_sub_exact)
  moreover have rem: "(if r_min_return_size R > r_bytes R then 0 else align_down n align) = m"
    using S(4) al by (simp add: m_def align_down_eq)
  ultimately have run: "rb_buf_read R d n block align h =
      Some (if r_flush R \<and> r = 0 then IO_COMPLETE else IO_SUCCESS, r, ?R', h')"
    unfolding rb_buf_read_def Let_def rem using S(3,4) L(1) al by simp
  have "covered h' x l \<and> outside x l (r_block_size R) h' (fs' @ es')" if "(x, l) \<in> set B" for x l
    using L(9) B [OF that] by (auto simp: reads_into_def covered_def)
  then have "ring_fifo B ?R' h' (drop r q) (length fs')"
    using S L(2-7) wp rd by (intro ring_fifoI [of _ _ fs' es']) (simp_all add: ring_desc_def)
  moreover have "bufs_same B d n h h'"
    unfolding bufs_same_def
  proof (clarify)
    fix x l assume "(x, l) \<in> set B" "disj d n x l"
    then have "disj d m x l" "outside x l (r_block_size R) h (fs @ es)"
      using m B by (auto intro: disj_sub)
    then show "mem_read (mem h') x l = mem_read (mem h) x l" using L(9) by (simp add: reads_into_def)
  qed
  ultimately show ?thesis using run L(5,8) k by blast
qed


text \<open>A caller may fill one of its own buffers.\<close>

lemma ring_fifo_poke:
  assumes F: "ring_fifo B R h q k" and d: "(d, n) \<in> set B" "length xs \<le> n"
  shows "ring_fifo B R (h\<lparr>mem := mem_write (mem h) d xs\<rparr>) q k"
proof -
  let ?h = "h\<lparr>mem := mem_write (mem h) d xs\<rparr>" and ?sz = "r_block_size R"
  obtain fs es where S: "r_state R = RB_STATE_READY" "\<not> r_wlock R" "\<not> r_rlock R"
      "r_bytes R = length q" "length q < sz_max" "r_high_water_mark R < sz_max"
    and rd: "ring_desc R fs es" and rb: "ring_blocks ?sz (r_rp R) fs es h" and wp: "r_wp R = hd es"
    and q: "contents h fs = q" and k: "length fs = k"
    and B: "\<And>d n. (d, n) \<in> set B \<Longrightarrow> covered h d n \<and> outside d n ?sz h (fs @ es)"
    using ring_fifoE [OF F] by blast
  have "disj d (length xs) (b_data (blk h a)) (b_bytes (blk h a))" if "a \<in> set fs" for a
  proof -
    have "disj d n (b_data (blk h a)) ?sz" using B [OF d(1)] that by (auto simp: outside_def)
    moreover have "b_bytes (blk h a) \<le> ?sz" using rb that by (auto simp: ring_blocks_def full_def)
    ultimately show ?thesis using d(2) by (auto intro: disj_sub)
  qed
  then have ct: "contents ?h fs = q" unfolding q [symmetric] by (intro contents_cong) (auto simp: mem_simps)
  have rb': "ring_blocks ?sz (r_rp R) fs es ?h"
    using rb by (auto simp: ring_blocks_def areas_def full_def empty_def covered_def heap_ok_def)
  have "covered ?h x l \<and> outside x l ?sz ?h (fs @ es)" if "(x, l) \<in> set B" for x l
    using B [OF that] by (simp add: covered_def outside_def)
  with S rd rb' wp ct k show ?thesis by (rule ring_fifoI)
qed

section \<open>Creation and direct access to blocks\<close>

lemma rb_create_new:
  assumes E: "pool_sound E" and ok: "heap_ok h" and plenty: "pool_plenty E m"
    and B: "\<And>d n. (d, n) \<in> set B \<Longrightarrow> covered h d n"
  shows "\<exists>R h'. rb_create E p h = Some (Some R, h') \<and> ring_new B R h' \<and> mem h' = mem h \<and>
     r_block_align R = RB_DEFAULT_ALIGN \<and> r_block_realloc R = RB_DEFAULT_REALLOC \<and>
     r_high_water_mark R = 0 \<and> r_high_water_count R = 0 \<and> r_min_return_size R = 0 \<and> \<not> r_flush R"
proof -
  have "0 < RB_DEFAULT_REALLOC" by (simp add: RB_DEFAULT_REALLOC_def)
  from block_list_alloc_spec [OF E ok this, of p] not_plenty(4) plenty obtain a h1 cs where
    A: "block_list_alloc E p RB_DEFAULT_REALLOC h = Some (a, h1)" "fresh_chain h h1 a cs"
      "length cs = RB_DEFAULT_REALLOC"
    by blast
  have cs: "path (nxt h1) a cs 0" "cs \<noteq> []" "distinct cs"
    using A(2,3) by (auto simp: fresh_chain_def RB_DEFAULT_REALLOC_def)
  then have a: "a \<noteq> 0" by (cases cs) auto
  from forge_ring_list [OF cs] obtain lb where
    G: "blocks h1 (last cs) = Some lb"
      "forge_ring a h1 = Some (h1\<lparr>blocks := (blocks h1)(last cs \<mapsto> lb\<lparr>b_next := a\<rparr>)\<rparr>)"
      "is_ring (nxt (h1\<lparr>blocks := (blocks h1)(last cs \<mapsto> lb\<lparr>b_next := a\<rparr>)\<rparr>)) a cs"
    by blast
  let ?h = "h1\<lparr>blocks := (blocks h1)(last cs \<mapsto> lb\<lparr>b_next := a\<rparr>)\<rparr>"
  have zero: "b_bytes (blk h1 c) = 0" if "c \<in> set cs" for c
  proof -
    from A(2) that obtain b where "blocks h1 c = Some b" "b\<lparr>b_next := 0\<rparr> = zero_block"
      unfolding fresh_chain_def by blast
    then have "b_bytes (b\<lparr>b_next := 0\<rparr>) = 0" "blk h1 c = b" by (simp_all add: zero_block_def blk_def)
    then show ?thesis by simp
  qed
  have "empty ?h cs" using zero zero [of "last cs"] G(1) cs(2) unfolding empty_def by (auto simp: blk_def)
  moreover have "heap_ok ?h"
    by (rule heap_ok_mono [of h1]) (use A(2) G(1) in \<open>auto simp: fresh_chain_def\<close>)
  moreover have "covered ?h d n" if "(d, n) \<in> set B" for d n
    using B [OF that] A(2) by (auto simp: fresh_chain_def covered_def)
  ultimately show ?thesis using A G(2,3) a
    by (auto simp: rb_create_def ring_new_def sz_max_def fresh_chain_def)
qed


section \<open>Out of memory\<close>

text \<open>\<open>get_next_block\<close> at the end of a full ring when no memory can be had: the writer stays where it was.\<close>

lemma get_next_block_fails:
  assumes E: "pool_sound E" "\<And>h. sysinfo E h = None" "\<And>a h. pfree E p a h = h"
    and ring: "ring_blocks sz rp (fs @ [w]) [] h" and R: "0 < r_block_realloc R" "2 * r_block_realloc R < sz_max"
  shows "\<exists>h'. get_next_block E p R w h = Some (1, w, R\<lparr>r_block_realloc := 2 * r_block_realloc R\<rparr>, h') \<and>
     ring_blocks sz rp (fs @ [w]) [] h' \<and> (\<forall>a \<in> set (fs @ [w]). blocks h' a = blocks h a) \<and> mem h' = mem h \<and>
     set (live h) \<subseteq> set (live h')"
proof -
  let ?k = "2 * r_block_realloc R" and ?fs = "fs @ [w]"
  from ring have ir: "is_ring (nxt h) rp ?fs" and ok: "heap_ok h" and ar: "areas sz h ?fs"
    and fu: "full sz h ?fs" by (simp_all add: ring_blocks_def)
  from ring_next [of h rp fs w "[]"] ir have nx: "nxt h w = Some rp" "w \<noteq> 0" by auto
  have rp: "rp \<in> set ?fs" using is_ring_hd [OF ir] by (metis append_is_Nil_conv hd_in_set list.discI)
  have at: "blocks h w = Some (blk h w)" "blocks h rp = Some (blk h rp)" "rp \<noteq> 0"
    using is_ring_blk [OF ir] rp by auto
  with nx have bn: "b_next (blk h w) = rp" by (auto simp: nxt_Some)
  have ne: "\<not> BLOCK_EMPTY (blk h rp)" using fu rp by (auto simp: full_def BLOCK_EMPTY_def)
  have k: "0 < ?k" "sz_mul (r_block_realloc R) 2 = ?k" using R by (simp_all add: sz_mul_exact)
  from block_list_alloc_spec [OF E(1) ok k(1), of p] obtain a h1 c cs where
    A: "block_list_alloc E p ?k h = Some (a, h1)" "fresh_chain h h1 c cs" by blast
  have same: "blocks h1 x = blocks h x" if "x \<in> set ?fs" for x
    using that A(2) is_ring_dom [OF ir] unfolding fresh_chain_def by blast
  have "block_data_fastalloc E p a (r_block_size R) h1 = Some (0, h1)"
    using E(2) by (simp add: block_data_fastalloc_def)
  then have run: "get_next_block E p R w h = Some (1, w, R\<lparr>r_block_realloc := ?k\<rparr>, h1)"
    using at bn nx ne k A(1) E(3) by (simp add: get_next_block_def)
  have mem: "mem h1 = mem h" "set (live h) \<subseteq> set (live h1)" "heap_ok h1" using A(2) by (auto simp: fresh_chain_def)
  have "blk h1 x = blk h x" if "x \<in> set ?fs" for x using same [OF that] by (simp add: blk_def)
  then have kp: "keeps h h1 ?fs" using mem by (simp add: keeps_def)
  have "is_ring (nxt h1) rp ?fs"
    using ir same by (auto simp: is_ring_def intro!: path_cong [THEN iffD1, of ?fs "nxt h"] nxt_cong)
  then have "ring_blocks sz rp ?fs [] h1"
    using keeps_areas [OF kp ar] keeps_full [OF kp fu] mem by (simp add: ring_blocks_def empty_def)
  then show ?thesis using run same mem by blast
qed

text \<open>
  The direct-access pair: the block handed out takes up to a block of bytes straight from its
  producer, and the release appends them.
\<close>

lemma rb_acquire_ready:
  assumes "ring_fifo B R h q k" and "r_low_water_mark R = 0"
  shows "rb_acquire_write_block E p R init_bytes h = Some (IO_SUCCESS, r_wp R, R\<lparr>r_wlock := True\<rparr>, h)"
  using assms by (simp add: rb_acquire_write_block_def ring_fifo_def)

lemma rb_release_fills:
  assumes E: "pool_sound E" and F: "ring_fifo B R h q k" and xs: "xs \<noteq> []" "length xs \<le> r_block_size R"
    and lwm: "r_low_water_mark R = 0" and cnt: "r_high_water_count R + 1 < sz_max"
    and room: "length q + length xs < sz_max"
    and plenty: "pool_plenty E (2 * Suc k * r_block_size R)" and len: "2 * Suc k < sz_max"
  shows "\<exists>R' h'. rb_release_write_block E p (R\<lparr>r_wlock := True\<rparr>) (length xs)
         (h\<lparr>mem := mem_write (mem h) (b_data (blk h (r_wp R))) xs\<rparr>) = Some (R', h') \<and>
     ring_fifo B R' h' (q @ xs) (Suc k) \<and> settings R' = settings R \<and> marked R (length q + length xs) R'"
proof -
  obtain fs es where S: "r_state R = RB_STATE_READY" "\<not> r_wlock R" "\<not> r_rlock R"
      "r_bytes R = length q" "length q < sz_max" "r_high_water_mark R < sz_max"
    and rd: "ring_desc R fs es" and rb: "ring_blocks (r_block_size R) (r_rp R) fs es h" and wp: "r_wp R = hd es"
    and q: "contents h fs = q" and k: "length fs = k"
    and B: "\<And>d n. (d, n) \<in> set B \<Longrightarrow> covered h d n \<and> outside d n (r_block_size R) h (fs @ es)"
    using ring_fifoE [OF F] by blast
  let ?R = "R\<lparr>r_wlock := True\<rparr>"
  have rd': "ring_desc ?R fs es" using rd by (simp add: ring_desc_def)
  obtain h1 R1 h' es' where
    L: "upd_blk (hd es) (b_bytes_update (\<lambda>_. length xs))
          (h\<lparr>mem := mem_write (mem h) (b_data (blk h (hd es))) xs\<rparr>) = Some h1"
      "get_next_block E p ?R (hd es) h1 = Some (0, hd es', R1, h')"
      "ring_blocks (r_block_size R) (r_rp R) (fs @ [hd es]) es' h'" "ring_desc R1 (fs @ [hd es]) es'"
      "grown ?R R1" "contents h' (fs @ [hd es]) = contents h fs @ xs"
      "undisturbed (r_block_size R) h (fs @ es) h' ((fs @ [hd es]) @ es')"
    using fill_step [OF E _ rd', of "r_rp R" h xs p] rb xs plenty len k by auto
  from L(5) obtain s j where R1: "R1 = ?R\<lparr>r_size := s, r_block_realloc := j\<rparr>" by (auto simp: grown_def)
  let ?R2 = "R1\<lparr>r_bytes := length q + length xs\<rparr>"
  have "r_high_water_mark ?R2 < sz_max" "r_high_water_count ?R2 + 1 < sz_max" using S(6) cnt R1 by simp_all
  from rb_check_high_water_spec [OF this] obtain wc m where
    W: "rb_check_high_water ?R2 = Some (?R2\<lparr>r_high_water_count := wc, r_low_water_mark := m\<rparr>)"
      "if r_high_water_mark ?R2 \<noteq> 0 \<and> r_high_water_mark ?R2 \<le> r_bytes ?R2
       then wc = r_high_water_count ?R2 + 1 \<and> m < r_high_water_mark ?R2
       else wc = r_high_water_count ?R2 \<and> m = r_low_water_mark ?R2"
    by blast
  let ?R' = "?R2\<lparr>r_high_water_count := wc, r_low_water_mark := m, r_wp := hd es', r_wlock := False\<rparr>"
  have "r_bytes R1 = length q" using S R1 by simp
  then have run: "rb_release_write_block E p ?R (length xs)
      (h\<lparr>mem := mem_write (mem h) (b_data (blk h (r_wp R))) xs\<rparr>) = Some (?R', h')"
    using wp L(1,2) W(1) room by (simp add: rb_release_write_block_def sz_add_exact)
  have "covered h' x l \<and> outside x l (r_block_size R) h' ((fs @ [hd es]) @ es')" if "(x, l) \<in> set B" for x l
    using undisturbedD [OF L(7)] B [OF that] by blast
  then have "ring_fifo B ?R' h' (q @ xs) (Suc k)"
    using S L(3,4,6) room k q R1
    by (intro ring_fifoI [of _ _ "fs @ [hd es]" es']) (simp_all add: ring_desc_def)
  then show ?thesis using run W(2) lwm R1
    by (intro exI [of _ ?R'] exI [of _ h']) (auto simp: marked_def settings_def split: if_splits)
qed

section \<open>The contract of a byte queue\<close>

text \<open>A client with one buffer at \<open>d\<close>: it fills the buffer and writes it, or reads into it.\<close>

definition rb_put :: "env \<Rightarrow> pool \<Rightarrow> addr \<Rightarrow> byte list \<Rightarrow> ring_t \<times> heap \<Rightarrow> (ring_t \<times> heap) option" where
  "rb_put E p d xs = (\<lambda>(R, h).
     case rb_buf_write E p R d (length xs) (h\<lparr>mem := mem_write (mem h) d xs\<rparr>) of
       Some (IO_SUCCESS, n, R', h') \<Rightarrow> if n = length xs then Some (R', h') else None
     | _ \<Rightarrow> None)"

definition rb_get :: "addr \<Rightarrow> nat \<Rightarrow> ring_t \<times> heap \<Rightarrow> (byte list \<times> ring_t \<times> heap) option" where
  "rb_get d n = (\<lambda>(R, h). do {
     (st, r, R', h') \<leftarrow> rb_buf_read R d n IO_NO_BLOCK 1 h;
     Some (mem_read (mem h') d r, R', h')
   })"

text \<open>The budget is what the pool can hold and the counters can count.\<close>

definition rb_rel :: "env \<Rightarrow> addr \<Rightarrow> nat \<Rightarrow> ring_t \<times> heap \<Rightarrow> byte list \<Rightarrow> nat \<Rightarrow> bool" where
  "rb_rel E d cap = (\<lambda>(R, h) q b. pool_sound E \<and> (\<exists>k. ring_fifo [(d, cap)] R h q k \<and>
     pool_plenty E (2 * (k + b) * r_block_size R) \<and> 2 * (k + b) < sz_max) \<and> length q + b < sz_max \<and>
     r_low_water_mark R = 0 \<and> r_high_water_mark R = 0 \<and> r_high_water_count R + 1 < sz_max \<and>
     r_min_return_size R = 0)"

lemma rb_relI:
  assumes "pool_sound E" and "ring_fifo [(d, cap)] R h q k"
    and "pool_plenty E (2 * (k + b) * r_block_size R)" and "2 * (k + b) < sz_max" and "length q + b < sz_max"
    and "r_low_water_mark R = 0" "r_high_water_mark R = 0" "r_high_water_count R + 1 < sz_max"
      "r_min_return_size R = 0"
  shows "rb_rel E d cap (R, h) q b"
  unfolding rb_rel_def prod.case using assms by blast

lemma pool_plenty_mono: "pool_plenty E n \<Longrightarrow> m \<le> n \<Longrightarrow> pool_plenty E m"
  unfolding pool_plenty_def by (meson le_less_trans)

lemma ceil_div_le_self: "0 < a \<Longrightarrow> ceil_div n a \<le> n"
  using ceil_div_less [of a n] by (cases "ceil_div n a \<le> n") (auto simp: not_le dest!: less_imp_Suc_add)


lemma rb_put_full:
  assumes I: "rb_rel E d cap s q b" and xs: "length xs \<le> cap" "length xs \<le> b"
  shows "\<exists>s'. rb_put E p d xs s = Some s' \<and> rb_rel E d cap s' (q @ xs) (b - length xs) \<and>
    r_flush (fst s') = r_flush (fst s)"
proof -
  obtain R h where s: "s = (R, h)" by (cases s)
  obtain k where E: "pool_sound E" and F: "ring_fifo [(d, cap)] R h q k"
    and pl: "pool_plenty E (2 * (k + b) * r_block_size R)" "2 * (k + b) < sz_max" "length q + b < sz_max"
    and R: "r_low_water_mark R = 0" "r_high_water_mark R = 0" "r_high_water_count R + 1 < sz_max"
      "r_min_return_size R = 0"
    using I unfolding rb_rel_def s prod.case by blast
  let ?h = "h\<lparr>mem := mem_write (mem h) d xs\<rparr>" and ?c = "ceil_div (length xs) (r_block_size R)"
  have F1: "ring_fifo [(d, cap)] R ?h q k" using F xs(1) by (intro ring_fifo_poke) auto
  have "0 < r_block_size R" using F by (auto simp: ring_fifo_def ring_desc_def)
  then have c: "?c \<le> length xs" by (rule ceil_div_le_self)
  then have le: "k + ?c + (b - length xs) \<le> k + b" "k + ?c \<le> k + b" using xs(2) by auto
  have "pool_plenty E (2 * (k + ?c) * r_block_size R)"
    by (rule pool_plenty_mono [OF pl(1)]) (use le(2) in \<open>auto intro!: mult_le_mono1\<close>)
  moreover have "length q + length xs < sz_max" "2 * (k + ?c) < sz_max" using pl le xs by auto
  ultimately obtain R' h' where
    W: "rb_buf_write E p R d (length xs) ?h = Some (IO_SUCCESS, length xs, R', h')"
      "ring_fifo [(d, cap)] R' h' (q @ mem_read (mem ?h) d (length xs)) (k + ?c)"
      "settings R' = settings R" "marked R (length q + length xs) R'"
    using rb_buf_write_ready [OF E F1 _ xs(1) R(1,3), of d p] by auto
  have xs': "mem_read (mem ?h) d (length xs) = xs" by (simp add: mem_simps)
  have bs: "r_block_size R' = r_block_size R" using W(3) by (simp add: settings_def)
  have "rb_rel E d cap (R', h') (q @ xs) (b - length xs)"
  proof (rule rb_relI [OF E W(2) [unfolded xs']])
    show "pool_plenty E (2 * (k + ?c + (b - length xs)) * r_block_size R')"
      unfolding bs by (intro pool_plenty_mono [OF pl(1)] mult_le_mono le order_refl)
    show "2 * (k + ?c + (b - length xs)) < sz_max"
      by (rule le_less_trans [OF mult_le_mono2 [OF le(1)] pl(2)])
    show "length (q @ xs) + (b - length xs) < sz_max" using pl(3) xs(2) by simp
  qed (use W(3,4) R in \<open>simp_all add: settings_def marked_def\<close>)
  then show ?thesis using W(1,3) by (simp add: rb_put_def s settings_def)
qed

lemma rb_get_full:
  assumes I: "rb_rel E d cap s q b" and n: "n \<le> cap"
  shows "\<exists>s'. rb_get d n s = Some (take n q, s') \<and> rb_rel E d cap s' (drop n q) b \<and> r_flush (fst s') = r_flush (fst s)"
proof -
  obtain R h where s: "s = (R, h)" by (cases s)
  obtain k where E: "pool_sound E" and F: "ring_fifo [(d, cap)] R h q k"
    and pl: "pool_plenty E (2 * (k + b) * r_block_size R)" "2 * (k + b) < sz_max" "length q + b < sz_max"
    and R: "r_low_water_mark R = 0" "r_high_water_mark R = 0" "r_high_water_count R + 1 < sz_max"
      "r_min_return_size R = 0"
    using I unfolding rb_rel_def s prod.case by blast
  from rb_buf_read_ready [OF F _ n, of d 1 IO_NO_BLOCK] R(4) obtain R' h' k' where
    W: "rb_buf_read R d n IO_NO_BLOCK 1 h =
         Some (if r_flush R \<and> min n (length q) = 0 then IO_COMPLETE else IO_SUCCESS, min n (length q), R', h')"
      "ring_fifo [(d, cap)] R' h' (drop (min n (length q)) q) k'" "k' \<le> k"
      "mem_read (mem h') d (min n (length q)) = take (min n (length q)) q"
      "\<exists>b. R' = R\<lparr>r_bytes := length q - min n (length q), r_rp := b\<rparr>"
    by auto
  have cut: "take (min n (length q)) q = take n q" "drop (min n (length q)) q = drop n q"
    by (cases "n \<le> length q"; simp)+
  have "pool_plenty E (2 * (k' + b) * r_block_size R)"
    by (rule pool_plenty_mono [OF pl(1)]) (use W(3) in \<open>auto intro!: mult_le_mono1\<close>)
  then have "rb_rel E d cap (R', h') (drop n q) b"
    using W(2,3,5) R E pl unfolding cut by (auto simp: rb_rel_def)
  moreover have "r_flush R' = r_flush R" using W(5) by auto
  ultimately show ?thesis using W(1,4) cut by (auto simp: rb_get_def s)
qed

lemma rb_put_ok:
  "rb_rel E d cap s q b \<Longrightarrow> length xs \<le> cap \<Longrightarrow> length xs \<le> b \<Longrightarrow>
     \<exists>s'. rb_put E p d xs s = Some s' \<and> rb_rel E d cap s' (q @ xs) (b - length xs)"
  using rb_put_full by blast

lemma rb_get_ok:
  "rb_rel E d cap s q b \<Longrightarrow> n \<le> cap \<Longrightarrow> \<exists>s'. rb_get d n s = Some (take n q, s') \<and> rb_rel E d cap s' (drop n q) b"
  using rb_get_full by blast

interpretation ring_queue: byte_queue "rb_rel E d cap" cap "rb_put E p d" "rb_get d" for E p d cap
  by unfold_locales (fact rb_put_ok rb_get_ok)+

end
