(* ===== verification/Ring_Properties.thy ===== *)
theory Ring_Properties
  imports Ring_Fifo
begin

text \<open>
  What the ring buffer promises, stated over the operations of \<open>Ring_Buf\<close>, with concrete rings
  on which each statement applies, and the situations in which the code departs from the
  promise.
\<close>

section \<open>Concrete rings\<close>

text \<open>A machine with 2^40 bytes of free memory and one caller's buffer of 64 bytes at address 1.\<close>

definition demo_env :: env where
  "demo_env = bump_env (2 ^ 40)"

definition demo_heap :: heap where
  "demo_heap = empty_heap\<lparr>mem := (\<lambda>a. of_nat a), live := [(1, 64)]\<rparr>"

definition demo_new :: "ring_t \<times> heap" where
  "demo_new = (case rb_create demo_env 0 demo_heap of
     Some (Some R, h) \<Rightarrow> (rb_set_alignment 4 R, h) | _ \<Rightarrow> undefined)"

text \<open>The ring after a first write of eight bytes.\<close>

definition demo_ready :: "ring_t \<times> heap" where
  "demo_ready = (case rb_buf_write demo_env 0 (fst demo_new) 1 8 (snd demo_new) of
     Some (_, _, R, h) \<Rightarrow> (R, h) | None \<Rightarrow> undefined)"

text \<open>The ring with its data areas allocated for such a write and nothing stored.\<close>

lemma demo_env_sound: "pool_sound demo_env"
  by (simp add: demo_env_def bump_env_sound)

lemma demo_env_plenty: "n < 2 ^ 40 \<Longrightarrow> pool_plenty demo_env n"
  unfolding demo_env_def by (rule bump_env_plenty)

lemma ring_new_align: "ring_new B (rb_set_alignment a R) h \<longleftrightarrow> ring_new B R h"
  by (simp add: ring_new_def rb_set_alignment_def)

lemma ring_new_mem: "ring_new B R (h\<lparr>mem := m\<rparr>) \<longleftrightarrow> ring_new B R h"
  by (simp add: ring_new_def empty_def heap_ok_def covered_def)

lemma demo_new_ok:
  "ring_new [(1, 64)] (fst demo_new) (snd demo_new)" "r_block_align (fst demo_new) = 4"
  "r_block_realloc (fst demo_new) = 16" "r_high_water_mark (fst demo_new) = 0"
  "r_high_water_count (fst demo_new) = 0" "r_min_return_size (fst demo_new) = 0"
  "mem (snd demo_new) = (\<lambda>a. of_nat a)" "\<not> r_flush (fst demo_new)"
proof -
  have "heap_ok demo_heap" "\<And>d n. (d, n) \<in> set [(1, 64)] \<Longrightarrow> covered demo_heap d n"
    by (auto simp: demo_heap_def empty_heap_def heap_ok_def covered_def)
  from rb_create_new [OF demo_env_sound this(1) demo_env_plenty [of 0], of "[(1, 64)]" 0] this(2)
  obtain R h where D: "rb_create demo_env 0 demo_heap = Some (Some R, h)" "ring_new [(1, 64)] R h"
    "mem h = mem demo_heap" "r_block_realloc R = RB_DEFAULT_REALLOC" "r_high_water_mark R = 0"
    "r_high_water_count R = 0" "r_min_return_size R = 0" "\<not> r_flush R"
    by auto
  then have demo: "demo_new = (rb_set_alignment 4 R, h)" by (simp add: demo_new_def)
  show "ring_new [(1, 64)] (fst demo_new) (snd demo_new)" "r_block_align (fst demo_new) = 4"
    "r_block_realloc (fst demo_new) = 16" "r_high_water_mark (fst demo_new) = 0"
    "r_high_water_count (fst demo_new) = 0" "r_min_return_size (fst demo_new) = 0"
    "mem (snd demo_new) = (\<lambda>a. of_nat a)" "\<not> r_flush (fst demo_new)"
    unfolding demo fst_conv snd_conv ring_new_align using D(2-)
    by (simp_all add: rb_set_alignment_def RB_DEFAULT_REALLOC_def demo_heap_def)
qed

lemma demo_ready_ok:
  "ring_fifo [(1, 64)] (fst demo_ready) (snd demo_ready) [1, 2, 3, 4, 5, 6, 7, 8] 1"
  "settings (fst demo_ready) = (False, 8, 4, 0, 0)"
  "r_low_water_mark (fst demo_ready) = 0" "r_high_water_count (fst demo_ready) = 0"
proof -
  have cd: "ceil_div 8 4 * 4 = (8 :: nat)" by (simp add: ceil_div_def)
  have "\<exists>R' h'. rb_buf_write demo_env 0 (fst demo_new) 1 8 (snd demo_new) = Some (IO_SUCCESS, 8, R', h') \<and>
     ring_fifo [(1, 64)] R' h' (mem_read (mem (snd demo_new)) 1 8) 1 \<and> bufs_same [(1, 64)] 0 0 (snd demo_new) h' \<and>
     settings R' = settings ((fst demo_new)\<lparr>r_block_size := ceil_div 8 (r_block_align (fst demo_new)) *
       r_block_align (fst demo_new)\<rparr>) \<and> marked (fst demo_new) 8 R'"
    by (rule rb_buf_write_first [OF demo_env_sound demo_new_ok(1), of _ 64])
      (simp_all add: demo_new_ok demo_env_plenty sz_max_def cd)
  then show "ring_fifo [(1, 64)] (fst demo_ready) (snd demo_ready) [1, 2, 3, 4, 5, 6, 7, 8] 1"
    "settings (fst demo_ready) = (False, 8, 4, 0, 0)"
    "r_low_water_mark (fst demo_ready) = 0" "r_high_water_count (fst demo_ready) = 0"
    by (auto simp: demo_ready_def demo_new_ok settings_def cd marked_def mem_read_def upt_rec)
qed


section \<open>Reading and writing\<close>

text \<open>C2. The life of a ring buffer from its creation on. Under a pool that returns fresh memory
  and has room for the blocks involved, \<open>create_buffer\<close> sets up a ring, and every sequence of
  writes and reads by a client that begins with a non-empty write and stays within the budget
  behaves as the queue of bytes: each read returns the next bytes written, none lost, repeated
  or reordered, and no call hangs or fails.\<close>

theorem ring_buffer_is_fifo:
  assumes E: "pool_sound E" and ok: "heap_ok h" and buf: "covered h d cap"
    and align: "0 < unat align" and xs: "xs \<noteq> []" "length xs < 2 ^ 53"
    and fit: "ops_fit cap (Put xs # ops)"
    and size: "2 * (put_total ops + 16) < sz_max" "length xs + put_total ops < sz_max"
    and plenty: "pool_plenty E (2 * (put_total ops + 16) * (ceil_div (length xs) (unat align) * unat align))"
  shows "\<exists>R h1. rb_create E p h = Some (Some R, h1) \<and>
     impl_run (rb_put E p d) (rb_get d) (rb_set_alignment align R, h1) (Put xs # ops) =
       Some (queue_run [] (Put xs # ops))"
proof -
  let ?sz = "ceil_div (length xs) (unat align) * unat align" and ?t = "put_total ops"
  obtain R h1 where C: "rb_create E p h = Some (Some R, h1)" "ring_new [(d, cap)] R h1"
    "r_block_realloc R = RB_DEFAULT_REALLOC" "r_high_water_mark R = 0" "r_high_water_count R = 0"
    "r_min_return_size R = 0" "\<not> r_flush R"
    using rb_create_new [OF E ok plenty, of "[(d, cap)]" p] buf by auto
  let ?R = "rb_set_alignment align R" and ?h = "h1\<lparr>mem := mem_write (mem h1) d xs\<rparr>"
  have N: "ring_new [(d, cap)] ?R ?h" using C(2) by (simp add: ring_new_align ring_new_mem)
  have R: "r_block_align ?R = unat align" "r_block_realloc ?R = 16" "r_high_water_mark ?R = 0"
    "r_high_water_count ?R = 0" "r_min_return_size ?R = 0"
    using C by (simp_all add: rb_set_alignment_def RB_DEFAULT_REALLOC_def)
  have al: "0 < r_block_align ?R" "r_block_align ?R < 2 ^ 53"
    using align unsigned_less [of align, where 'a = nat] by (simp_all add: R)
  have pl: "pool_plenty E (r_block_realloc ?R * ?sz)" "pool_plenty E (2 * ?sz)" "pool_plenty E (2 * (1 + ?t) * ?sz)"
    using plenty by (rule pool_plenty_mono, intro mult_le_mono1, simp add: R)+
  have "\<exists>R' h'. rb_buf_write E p ?R d (length xs) ?h = Some (IO_SUCCESS, length xs, R', h') \<and>
     ring_fifo [(d, cap)] R' h' (mem_read (mem ?h) d (length xs)) 1 \<and> bufs_same [(d, cap)] 0 0 ?h h' \<and>
     settings R' = settings (?R\<lparr>r_block_size := ?sz\<rparr>) \<and> marked ?R (length xs) R'"
    using xs fit R pl al by (intro rb_buf_write_first [OF E N, of d cap, unfolded R]) (auto simp: sz_max_def R)
  then obtain R' h' where W: "rb_buf_write E p ?R d (length xs) ?h = Some (IO_SUCCESS, length xs, R', h')"
     "ring_fifo [(d, cap)] R' h' xs 1" "settings R' = settings (?R\<lparr>r_block_size := ?sz\<rparr>)" "marked ?R (length xs) R'"
    by (auto simp: mem_simps)
  have "rb_rel E d cap (R', h') xs ?t"
    using W R pl(3) size by (intro rb_relI [OF E W(2)]) (simp_all add: settings_def marked_def sz_max_def)
  then have "impl_run (rb_put E p d) (rb_get d) (R', h') ops = Some (queue_run xs ops)"
    using fit by (intro ring_queue.run_refines [of E d cap _ _ ?t]) simp_all
  then show ?thesis using C(1) W(1) by (simp add: rb_put_def)
qed

theorem ring_buffer_is_fifo_witness:
  "\<exists>R h1. rb_create demo_env 0 demo_heap = Some (Some R, h1) \<and>
     impl_run (rb_put demo_env 0 1) (rb_get 1) (rb_set_alignment 4 R, h1)
       [Put [1, 2, 3], Put [4, 5, 6, 7, 8], Get 2, Get 4, Put [9], Get 10] =
     Some [[1, 2], [3, 4, 5, 6], [7, 8, 9]]"
  using ring_buffer_is_fifo [OF demo_env_sound, of demo_heap 1 64 4 "[1, 2, 3]"
      "[Put [4, 5, 6, 7, 8], Get 2, Get 4, Put [9], Get 10]" 0]
    demo_env_plenty [of "44 * (ceil_div 3 4 * 4)"]
  by (simp add: demo_heap_def empty_heap_def heap_ok_def covered_def sz_max_def ceil_div_def)

text \<open>C12. A write to a ring that is in use appends the caller's bytes to what is stored, whole, and
  reports their number, growing the ring as needed; buffers of the callers are untouched.
  If a high water mark is in use and was reached, a low water mark below it is set.\<close>

theorem rb_write_appends:
  assumes "pool_sound E" and "ring_fifo B R h q k" and "(d, c) \<in> set B" and "n \<le> c"
    and "r_low_water_mark R = 0" and "r_high_water_count R + 1 < sz_max" and "length q + n < sz_max"
    and "pool_plenty E (2 * (k + ceil_div n (r_block_size R)) * r_block_size R)"
    and "2 * (k + ceil_div n (r_block_size R)) < sz_max"
  shows "\<exists>R' h'. rb_buf_write E p R d n h = Some (IO_SUCCESS, n, R', h') \<and>
     ring_fifo B R' h' (q @ mem_read (mem h) d n) (k + ceil_div n (r_block_size R)) \<and>
     bufs_same B 0 0 h h' \<and> settings R' = settings R \<and> marked R (length q + n) R'"
  using assms by (rule rb_buf_write_ready)

theorem rb_write_appends_witness:
  "\<exists>R' h'. rb_buf_write demo_env 0 (fst demo_ready) 1 20 (snd demo_ready) = Some (IO_SUCCESS, 20, R', h') \<and>
     ring_fifo [(1, 64)] R' h' ([1, 2, 3, 4, 5, 6, 7, 8] @ mem_read (mem (snd demo_ready)) 1 20) 4"
  using rb_write_appends [OF demo_env_sound demo_ready_ok(1), of 1 64 20 0]
    demo_ready_ok(2-4) demo_env_plenty [of 64]
  by (auto simp: settings_def sz_max_def ceil_div_def)


text \<open>The first write to a new ring rounds its length up to the block alignment, gives every block
  a data area of that size, and stores the bytes.\<close>

lemma rb_first_write:
  assumes "pool_sound E" and "ring_new B R h" and "(d, c) \<in> set B" and "n \<le> c" and "0 < n" and "n < 2 ^ 53"
    and "0 < r_block_align R" and "r_block_align R < 2 ^ 53" and "r_high_water_count R + 1 < sz_max"
    and "pool_plenty E (r_block_realloc R * (ceil_div n (r_block_align R) * r_block_align R))"
    and "pool_plenty E (2 * (ceil_div n (r_block_align R) * r_block_align R))"
  shows "\<exists>R' h'. rb_buf_write E p R d n h = Some (IO_SUCCESS, n, R', h') \<and>
     ring_fifo B R' h' (mem_read (mem h) d n) 1 \<and> bufs_same B 0 0 h h' \<and>
     settings R' = settings (R\<lparr>r_block_size := ceil_div n (r_block_align R) * r_block_align R\<rparr>) \<and> marked R n R'"
  using assms by (rule rb_buf_write_first)

text \<open>C13. A read returns the longest prefix of what is stored that the request, rounded down to the
  alignment, covers; it removes exactly those bytes. It returns without waiting if enough is
  stored, or if the call is non-blocking and whole units are stored. With \<open>flush\<close> set, an empty
  result is reported as the end of the data.\<close>

theorem rb_read_takes_prefix:
  assumes "ring_fifo B R h q k" and "(d, c) \<in> set B" and "n \<le> c" and "0 < align"
    and "n - n mod align \<le> length q \<or> length q < r_min_return_size R \<or>
       block = IO_NO_BLOCK \<and> length q mod align = 0"
    and "r = (if length q < r_min_return_size R then 0 else min (n - n mod align) (length q))"
  shows "\<exists>R' h' k'. rb_buf_read R d n block align h =
       Some (if r_flush R \<and> r = 0 then IO_COMPLETE else IO_SUCCESS, r, R', h') \<and>
     ring_fifo B R' h' (drop r q) k' \<and> k' \<le> k \<and> mem_read (mem h') d r = take r q \<and> bufs_same B d n h h' \<and>
     (\<exists>b. R' = R\<lparr>r_bytes := length q - r, r_rp := b\<rparr>)"
  unfolding assms(6) using assms(1-5) by (rule rb_buf_read_ready)

theorem rb_read_takes_prefix_witness:
  "\<exists>R' h' k'. rb_buf_read (fst demo_ready) 1 7 IO_BLOCK 2 (snd demo_ready) = Some (IO_SUCCESS, 6, R', h') \<and>
     ring_fifo [(1, 64)] R' h' [7, 8] k' \<and> mem_read (mem h') 1 6 = [1, 2, 3, 4, 5, 6]"
  using rb_read_takes_prefix [OF demo_ready_ok(1), of 1 64 7 2 IO_BLOCK 6] demo_ready_ok(2)
  by (auto simp: settings_def)

text \<open>C31. Once a low water mark is set, writes store nothing and report no data, however often they
  are tried, until the reader has brought the ring below the mark; the write that finds it
  below clears the mark, still storing nothing.\<close>

theorem rb_write_throttled:
  assumes "ring_fifo B R h q k" and "r_low_water_mark R \<noteq> 0"
  shows "\<exists>R'. rb_buf_write E p R d n h = Some (IO_NODATA, 0, R', h) \<and> ring_fifo B R' h q k \<and>
     settings R' = settings R \<and>
     r_low_water_mark R' = (if length q < r_low_water_mark R then 0 else r_low_water_mark R)"
proof -
  let ?R = "low_water_mark_hit R"
  have "rb_buf_write E p R d n h = Some (IO_NODATA, 0, ?R, h)"
    using assms by (simp add: rb_buf_write_def ring_fifo_def)
  moreover have "ring_fifo B ?R h q k" using assms(1) by (simp add: ring_fifo_def low_water_mark_hit_def ring_desc_def)
  moreover have "r_bytes R = length q" using assms(1) by (simp add: ring_fifo_def)
  then have "r_low_water_mark ?R = (if length q < r_low_water_mark R then 0 else r_low_water_mark R)"
    by (simp add: low_water_mark_hit_def)
  moreover have "settings ?R = settings R" by (simp add: settings_def low_water_mark_hit_def)
  ultimately show ?thesis by blast
qed

theorem rb_write_throttled_witness:
  "\<exists>R'. rb_buf_write demo_env 0 ((fst demo_ready)\<lparr>r_low_water_mark := 6\<rparr>) 1 8 (snd demo_ready) =
       Some (IO_NODATA, 0, R', snd demo_ready) \<and> r_low_water_mark R' = 6"
proof -
  have "ring_fifo [(1, 64)] ((fst demo_ready)\<lparr>r_low_water_mark := 6\<rparr>) (snd demo_ready) [1, 2, 3, 4, 5, 6, 7, 8] 1"
    using demo_ready_ok(1) by (simp add: ring_fifo_def ring_desc_def)
  from rb_write_throttled [OF this, of demo_env 0 1 8] show ?thesis by auto
qed

text \<open>C14. Direct access: \<open>rb_acquire_write_block\<close> hands out the block to be written next, with the write
  lock held, and \<open>rb_release_write_block\<close> of the number of bytes put there appends them to the
  queue and gives the lock back.\<close>

theorem rb_direct_access:
  assumes E: "pool_sound E" and F: "ring_fifo B R h q k" and xs: "xs \<noteq> []" "length xs \<le> r_block_size R"
    and lwm: "r_low_water_mark R = 0" and cnt: "r_high_water_count R + 1 < sz_max"
    and room: "length q + length xs < sz_max"
    and plenty: "pool_plenty E (2 * Suc k * r_block_size R)" and len: "2 * Suc k < sz_max"
  shows "\<exists>w R1 R2 h2. rb_acquire_write_block E p R init_bytes h = Some (IO_SUCCESS, w, R1, h) \<and> r_wlock R1 \<and>
     b_size (blk h w) = r_block_size R \<and>
     rb_release_write_block E p R1 (length xs) (h\<lparr>mem := mem_write (mem h) (b_data (blk h w)) xs\<rparr>) = Some (R2, h2) \<and>
     \<not> r_wlock R2 \<and> ring_fifo B R2 h2 (q @ xs) (Suc k) \<and> marked R (length q + length xs) R2"
proof -
  obtain fs es where "ring_desc R fs es" "ring_blocks (r_block_size R) (r_rp R) fs es h" "r_wp R = hd es"
    using F by (auto simp: ring_fifo_def)
  then have "b_size (blk h (r_wp R)) = r_block_size R"
    by (cases es) (auto simp: ring_desc_def ring_blocks_def areas_def)
  moreover from rb_release_fills [OF E F xs lwm cnt room plenty len, of p] obtain R' h' where
    "rb_release_write_block E p (R\<lparr>r_wlock := True\<rparr>) (length xs)
       (h\<lparr>mem := mem_write (mem h) (b_data (blk h (r_wp R))) xs\<rparr>) = Some (R', h')"
    "ring_fifo B R' h' (q @ xs) (Suc k)" "marked R (length q + length xs) R'"
    by blast
  moreover from this(2) have "\<not> r_wlock R'" by (simp add: ring_fifo_def)
  ultimately show ?thesis using rb_acquire_ready [OF F lwm, of E p init_bytes]
    by (intro exI [of _ "r_wp R"] exI [of _ "R\<lparr>r_wlock := True\<rparr>"] exI [of _ R'] exI [of _ h']) simp
qed

theorem rb_direct_access_witness:
  "\<exists>w R1 R2 h2. rb_acquire_write_block demo_env 0 (fst demo_ready) 0 (snd demo_ready) =
       Some (IO_SUCCESS, w, R1, snd demo_ready) \<and>
     rb_release_write_block demo_env 0 R1 (length [9 :: byte, 10])
       ((snd demo_ready)\<lparr>mem := mem_write (mem (snd demo_ready)) (b_data (blk (snd demo_ready) w)) [9, 10]\<rparr>) =
       Some (R2, h2) \<and> ring_fifo [(1, 64)] R2 h2 [1, 2, 3, 4, 5, 6, 7, 8, 9, 10] (Suc 1)"
  using rb_direct_access [OF demo_env_sound demo_ready_ok(1), of "[9, 10]" 0 0]
    demo_ready_ok(2-4) demo_env_plenty [of 32]
  by (auto simp: settings_def sz_max_def)

text \<open>C32. The block size chosen by the first write, computed in double arithmetic, is the least multiple
  of the alignment that holds the request, for requests and alignments below \<open>2 ^ 53\<close>.\<close>

theorem rb_block_size_rounds_up:
  assumes "m < 2 ^ 53" and "0 < a" and "a < 2 ^ 53"
  shows "\<exists>s. rb_block_size m a = Some s \<and> a dvd s \<and> m \<le> s \<and> s < m + a"
  using rb_block_size_eq [OF assms] ceil_div_le [OF assms(2), of m] ceil_div_less [OF assms(2), of m] by simp

theorem rb_block_size_rounds_up_witness: "rb_block_size (3 * MB + 1) (2 * MB) = Some (4 * MB)"
proof -
  from rb_block_size_rounds_up [of "3 * MB + 1" "2 * MB"] obtain s where
    "rb_block_size (3 * MB + 1) (2 * MB) = Some s" "2 * MB dvd s" "3 * MB + 1 \<le> s" "s < 3 * MB + 1 + 2 * MB"
    by (auto simp: MB_def KB_def)
  moreover from this(2) obtain j where "s = 2 * MB * j" by auto
  ultimately have "s = 2 * MB * j" "3 * MB + 1 \<le> 2 * MB * j" "2 * MB * j < 5 * MB + 1" by simp_all
  then have "j = 2" by (simp add: MB_def KB_def)
  with \<open>s = 2 * MB * j\<close> \<open>rb_block_size (3 * MB + 1) (2 * MB) = Some s\<close> show ?thesis by simp
qed


section \<open>Where the code departs from the promise\<close>

lemma release_zero_strands:
  assumes ring: "ring_blocks (r_block_size R) (r_rp R) [] (w # e # es) h" and wp: "r_wp R = w"
    and R: "r_state R = RB_STATE_READY" "r_wlock R" "\<not> r_rlock R" "r_bytes R = 0"
      "r_low_water_mark R = 0" "r_high_water_mark R = 0" "\<not> r_flush R" "0 < r_block_size R"
    and n: "0 < n" "n \<le> r_block_size R" "n < sz_max"
    and d: "covered h d n" "outside d n (r_block_size R) h (w # e # es)" and al: "0 < align"
  shows "\<exists>R1 R2 h1 h2. rb_release_write_block E p R 0 h = Some (R1, h1) \<and>
     rb_buf_write E p R1 d n h1 = Some (IO_SUCCESS, n, R2, h2) \<and> r_bytes R2 = n \<and>
     rb_buf_read R2 d' n' IO_NO_BLOCK align h2 = Some (IO_SUCCESS, 0, R2, h2)"
proof -
  let ?sz = "r_block_size R"
  from ring have ir: "is_ring (nxt h) (r_rp R) (w # e # es)" and em: "empty h (w # e # es)"
    by (simp_all add: ring_blocks_def)
  have rp: "r_rp R = w" using is_ring_hd [OF ir] by simp
  have at: "w \<noteq> 0" "blocks h w = Some (blk h w)" "e \<noteq> 0" "blocks h e = Some (blk h e)"
    using is_ring_blk [OF ir] by auto
  have we: "w \<noteq> e" "w \<notin> set es" "e \<notin> set es" using ir by (auto simp: is_ring_def)
  have nx: "b_next (blk h w) = e" using is_ring_step(1) [OF ir] at by (auto simp: nxt_Some)
  have zero: "b_bytes (blk h w) = 0" "b_bytes (blk h e) = 0" using em by (auto simp: empty_def)
  let ?R1 = "R\<lparr>r_wp := e, r_wlock := False\<rparr>"
  have bw: "(blk h w)\<lparr>b_bytes := 0\<rparr> = blk h w" using zero by (cases "blk h w") simp
  then have h1: "h\<lparr>blocks := (blocks h)(w \<mapsto> (blk h w)\<lparr>b_bytes := 0\<rparr>)\<rparr> = h"
    using at by (simp add: fun_upd_idem)
  have rel: "rb_release_write_block E p R 0 h = Some (?R1, h)"
    using at wp nx zero R h1
    by (simp add: rb_release_write_block_def upd_blk_Some get_next_block_def BLOCK_EMPTY_def
        rb_check_high_water_def sz_max_def)
  have "is_ring (nxt h) e ((e # es) @ [w])" using is_ring_step(2) [OF ir] by simp
  moreover have "areas ?sz h (w # e # es)" "heap_ok h" using ring by (simp_all add: ring_blocks_def)
  moreover from this(1) have "areas ?sz h (e # es @ [w])" by (subst areas_perm [of _ "w # e # es"]) auto
  ultimately have rot: "ring_blocks ?sz e [] (e # es @ [w]) h"
    using em by (auto simp: ring_blocks_def full_def empty_def)
  have od: "outside d n ?sz h (e # es @ [w])" using d(2) by (auto simp: outside_def)
  let ?h2 = "h\<lparr>mem := mem_write (mem h) (b_data (blk h e)) (mem_read (mem h) d n),
               blocks := (blocks h)(e \<mapsto> (blk h e)\<lparr>b_bytes := n\<rparr>)\<rparr>"
  have xs: "mem_read (mem h) d n \<noteq> []" "length (mem_read (mem h) d n) \<le> ?sz" using n by (auto simp flip: length_0_conv)
  note fill = fill_block [OF rot xs, unfolded length_mem_read append_Nil]
  have step: "get_next_block E p ?R1 e ?h2 = Some (0, hd (es @ [w]), ?R1, ?h2)"
    using get_next_block_step [of ?sz e "[]" e "es @ [w]" ?h2 E p ?R1] fill(1) by simp
  have "disj (b_data (blk h e)) ?sz d n" using d(2) by (auto simp: outside_def disj_sym)
  then have "disj (b_data (blk h e)) n d n" using n(2) by (auto intro: disj_sub)
  then have cp: "byte_copy (mem h) (b_data (blk h e)) d n = mem_write (mem h) (b_data (blk h e)) (mem_read (mem h) d n)"
    by (simp add: byte_copy_eq mem_copy_def)
  have "b_size (blk h e) = ?sz" using ring by (auto simp: ring_blocks_def areas_def)
  then have "rb_write_loop E p e d n 0 ?R1 h = rb_write_loop E p (hd (es @ [w])) (d + n) 0 n ?R1 ?h2"
    using n at step cp by (subst rb_write_loop.simps) (auto simp: upd_blk_Some Let_def)
  also have "\<dots> = Some (hd (es @ [w]), n, ?R1, ?h2)" by (subst rb_write_loop.simps) simp
  finally have lp: "rb_write_loop E p e d n 0 ?R1 h = Some (hd (es @ [w]), n, ?R1, ?h2)" .
  let ?R2 = "?R1\<lparr>r_bytes := n, r_wp := hd (es @ [w])\<rparr>"
  have wr: "rb_buf_write E p ?R1 d n h = Some (IO_SUCCESS, n, ?R2, ?h2)"
    using R lp n(3) by (simp add: rb_buf_write_def rb_check_high_water_def sz_add_exact)
  have "rb_read_loop IO_NO_BLOCK align w d' m 0 ?h2 = Some (w, 0, ?h2)" for m
    using at we zero by (subst rb_read_loop.simps) (simp add: Let_def)
  then have "rb_buf_read ?R2 d' n' IO_NO_BLOCK align ?h2 = Some (IO_SUCCESS, 0, ?R2, ?h2)"
    using R al rp n(3) by (simp add: rb_buf_read_def sz_sub_exact)
  then show ?thesis using rel wr by (intro exI [of _ ?R1] exI [of _ ?R2] exI [of _ h] exI [of _ ?h2]) simp
qed


text \<open>\<open>rb_release_write_block\<close> with no bytes, which a segment performs when its source had no data,
  moves the write pointer past a block that stays empty. A later write of \<open>xs\<close> is counted, but a
  read finds the empty block under its read pointer and returns nothing.\<close>

lemma rb_release_zero_strands_data:
  assumes F: "ring_fifo B R h [] 0" and two: "2 \<le> r_block_realloc R"
    and R: "r_low_water_mark R = 0" "r_high_water_mark R = 0" "\<not> r_flush R"
    and n: "0 < n" "n \<le> r_block_size R" "n < sz_max" and d: "(d, c) \<in> set B" "n \<le> c" and al: "0 < align"
  shows "\<exists>w R0 R1 R2 h1 h2. rb_acquire_write_block E p R init_bytes h = Some (IO_SUCCESS, w, R0, h) \<and>
     rb_release_write_block E p R0 0 h = Some (R1, h1) \<and>
     rb_buf_write E p R1 d n h1 = Some (IO_SUCCESS, n, R2, h2) \<and> r_bytes R2 = n \<and>
     rb_buf_read R2 d' n' IO_NO_BLOCK align h2 = Some (IO_SUCCESS, 0, R2, h2)"
proof -
  obtain fs es where S: "r_state R = RB_STATE_READY" "\<not> r_rlock R" "r_bytes R = 0"
    and rd: "ring_desc R fs es" and rb: "ring_blocks (r_block_size R) (r_rp R) fs es h" and wp: "r_wp R = hd es"
    and fs: "length fs = 0" and B: "covered h d c \<and> outside d c (r_block_size R) h (fs @ es)"
    using ring_fifoE [OF F] d(1) by (metis list.size(3))
  have dn: "covered h d n" "outside d n (r_block_size R) h es"
    using B d(2) fs by (auto intro: covered_sub outside_sub)
  have "2 \<le> length es" "0 < r_block_size R" using rd two fs by (simp_all add: ring_desc_def)
  then obtain w e es1 where es: "es = w # e # es1" by (cases es; cases "tl es") auto
  have "\<exists>R1 R2 h1 h2. rb_release_write_block E p (R\<lparr>r_wlock := True\<rparr>) 0 h = Some (R1, h1) \<and>
     rb_buf_write E p R1 d n h1 = Some (IO_SUCCESS, n, R2, h2) \<and> r_bytes R2 = n \<and>
     rb_buf_read R2 d' n' IO_NO_BLOCK align h2 = Some (IO_SUCCESS, 0, R2, h2)"
    using S R wp rb dn n al fs \<open>0 < r_block_size R\<close> unfolding es
    by (intro release_zero_strands [of _ w e es1]) simp_all
  then show ?thesis using rb_acquire_ready [OF F R(1), of E p init_bytes] by blast
qed


text \<open>A ring that was told to stop (\<open>flush\<close>) and has a minimum return size larger than what is
  left reports the end of the data on every read, while the bytes stay in the ring for ever.\<close>

lemma rb_flush_loses_tail:
  assumes F: "ring_fifo B R h q k" and flush: "r_flush R" and q: "q \<noteq> []" "length q < r_min_return_size R"
    and d: "(d, c) \<in> set B" "n \<le> c" and al: "0 < align"
  shows "\<exists>R' h' k'. rb_buf_read R d n block align h = Some (IO_COMPLETE, 0, R', h') \<and>
     ring_fifo B R' h' q k' \<and> r_flush R' \<and> length q < r_min_return_size R'"
  using rb_buf_read_ready [OF F d al, of block] flush q by auto

text \<open>One turn of the write loop at the end of a full ring, when \<open>sysinfo\<close> fails: the block \<open>w\<close> is overwritten.\<close>

lemma write_turn_fails:
  assumes E: "pool_sound E" "\<And>h. sysinfo E h = None" "\<And>a h. pfree E p a h = h"
    and ring: "is_ring (nxt h) rp (fs @ [w])" "areas sz h (fs @ [w])" "full sz h fs" "heap_ok h"
    and R: "0 < r_block_realloc R" "2 * r_block_realloc R < sz_max"
    and sz: "0 < sz" "sz \<le> n" and d: "covered h d n" "outside d n sz h (fs @ [w])"
  shows "\<exists>h'. rb_write_loop E p w d n got R h =
       rb_write_loop E p w (d + sz) (n - sz) (got + sz) (R\<lparr>r_block_realloc := 2 * r_block_realloc R\<rparr>) h' \<and>
     ring_blocks sz rp (fs @ [w]) [] h' \<and>
     contents h' fs = contents h fs \<and>
     mem_read (mem h') (b_data (blk h' w)) (b_bytes (blk h' w)) = mem_read (mem h) d sz \<and>
     undisturbed sz h (fs @ [w]) h' (fs @ [w])"
proof -
  let ?xs = "mem_read (mem h) d sz"
  have xs: "?xs \<noteq> []" "length ?xs \<le> sz" using sz by (auto simp flip: length_0_conv)
  note ow = overwrite_block [OF ring(1-3) _ ring(4) xs, unfolded length_mem_read]
  let ?h1 = "h\<lparr>mem := mem_write (mem h) (b_data (blk h w)) ?xs, blocks := (blocks h)(w \<mapsto> (blk h w)\<lparr>b_bytes := sz\<rparr>)\<rparr>"
  have em: "empty h []" by (simp add: empty_def)
  from get_next_block_fails [OF E ow(1) [OF em] R] obtain h' where
    G: "get_next_block E p R w ?h1 = Some (1, w, R\<lparr>r_block_realloc := 2 * r_block_realloc R\<rparr>, h')"
      "ring_blocks sz rp (fs @ [w]) [] h'" "\<And>a. a \<in> set (fs @ [w]) \<Longrightarrow> blocks h' a = blocks ?h1 a"
      "mem h' = mem ?h1" "set (live ?h1) \<subseteq> set (live h')"
    by blast
  have w: "w \<noteq> 0" "blocks h w = Some (blk h w)" using is_ring_blk [OF ring(1)] by auto
  have wf: "w \<notin> set fs" using ring(1) by (auto simp: is_ring_def)
  have "b_size (blk h w) = sz" using ring(2) by (auto simp: areas_def)
  moreover have "disj (b_data (blk h w)) sz d sz"
    using d(2) sz(2) by (auto simp: outside_def disj_sym intro: disj_sub)
  then have "byte_copy (mem h) (b_data (blk h w)) d sz = mem_write (mem h) (b_data (blk h w)) ?xs"
    by (simp add: byte_copy_eq mem_copy_def)
  ultimately have run: "rb_write_loop E p w d n got R h =
      rb_write_loop E p w (d + sz) (n - sz) (got + sz) (R\<lparr>r_block_realloc := 2 * r_block_realloc R\<rparr>) h'"
    using sz w G(1) by (subst rb_write_loop.simps) (simp add: upd_blk_Some Let_def)
  have bk: "blk h' a = blk ?h1 a" if "a \<in> set (fs @ [w])" for a using G(3) [OF that] by (simp add: blk_def)
  then have kp: "keeps ?h1 h' (fs @ [w])" using G(4,5) by (simp add: keeps_def)
  have "contents h' (fs @ [w]) = contents h fs @ ?xs" using keeps_contents [OF kp] ow(2) [OF em] by simp
  moreover have b: "b_data (blk h' w) = b_data (blk h w)" "b_bytes (blk h' w) = sz" using bk [of w] by auto
  have "mem_read (mem h') (b_data (blk h' w)) (b_bytes (blk h' w)) = ?xs"
    unfolding b G(4) using mem_read_same [of "mem h" "b_data (blk h w)" ?xs] by simp
  moreover have "undisturbed sz ?h1 (fs @ [w]) h' (fs @ [w])"
    by (rule undisturbed_keeps [OF kp]) (simp only: keeps_outside [OF kp])
  then have "undisturbed sz h (fs @ [w]) h' (fs @ [w])" using ow(3) [OF em] undisturbed_trans by blast
  ultimately show ?thesis using run G(2) by auto
qed

text \<open>\<open>buf_write\<close> ignores the result of \<open>get_next_block\<close>. When a full ring cannot be extended because \<open>sysinfo\<close> fails (here with a \<open>pfree\<close> that
  keeps the descriptors), the second block's worth of a write overwrites the first: two blocks are reported as
  written and counted, and only the second is stored.\<close>

lemma rb_write_loses_data_when_full:
  assumes E: "pool_sound E" "\<And>h. sysinfo E h = None" "\<And>a h. pfree E p a h = h"
    and ring: "ring_blocks (r_block_size R) (r_rp R) fs [r_wp R] h"
    and R: "r_state R = RB_STATE_READY" "\<not> r_wlock R" "r_low_water_mark R = 0" "r_high_water_mark R = 0"
      "0 < r_block_size R" "0 < r_block_realloc R" "4 * r_block_realloc R < sz_max"
    and n: "r_bytes R + 2 * r_block_size R < sz_max"
    and d: "covered h d (2 * r_block_size R)" "outside d (2 * r_block_size R) (r_block_size R) h (fs @ [r_wp R])"
  shows "\<exists>R' h'. rb_buf_write E p R d (2 * r_block_size R) h = Some (IO_SUCCESS, 2 * r_block_size R, R', h') \<and>
     r_bytes R' = r_bytes R + 2 * r_block_size R \<and>
     contents h' (fs @ [r_wp R]) = contents h fs @ mem_read (mem h) (d + r_block_size R) (r_block_size R)"
proof -
  let ?sz = "r_block_size R" and ?w = "r_wp R" and ?fs = "fs @ [r_wp R]"
  let ?R1 = "R\<lparr>r_block_realloc := 2 * r_block_realloc R\<rparr>"
  let ?R2 = "?R1\<lparr>r_block_realloc := 2 * r_block_realloc ?R1\<rparr>"
  from ring have r: "is_ring (nxt h) (r_rp R) ?fs" "areas ?sz h ?fs" "full ?sz h fs" "heap_ok h"
    by (simp_all add: ring_blocks_def)
  from write_turn_fails [OF E r, of R "2 * ?sz" d 0] R d obtain h1 where
    T1: "rb_write_loop E p ?w d (2 * ?sz) 0 R h = rb_write_loop E p ?w (d + ?sz) ?sz ?sz ?R1 h1"
      "ring_blocks ?sz (r_rp R) ?fs [] h1" "contents h1 fs = contents h fs" "undisturbed ?sz h ?fs h1 ?fs"
    by auto
  have "covered h (d + ?sz) ?sz" "outside (d + ?sz) ?sz ?sz h ?fs"
    using d by (auto intro: covered_sub outside_sub)
  note d1 = undisturbedD [OF T1(4) this]
  from T1(2) have r1: "is_ring (nxt h1) (r_rp R) ?fs" "areas ?sz h1 ?fs" "full ?sz h1 fs" "heap_ok h1"
    by (simp_all add: ring_blocks_def full_def)
  from write_turn_fails [OF E r1, of ?R1 ?sz "d + ?sz" ?sz] R d1 obtain h2 where
    T2: "rb_write_loop E p ?w (d + ?sz) ?sz ?sz ?R1 h1 = rb_write_loop E p ?w (d + ?sz + ?sz) 0 (?sz + ?sz) ?R2 h2"
      "contents h2 fs = contents h1 fs"
      "mem_read (mem h2) (b_data (blk h2 ?w)) (b_bytes (blk h2 ?w)) = mem_read (mem h1) (d + ?sz) ?sz"
    by auto
  have "rb_write_loop E p ?w d (2 * ?sz) 0 R h = Some (?w, 2 * ?sz, ?R2, h2)"
    using T1(1) T2(1) by (simp add: rb_write_loop.simps [of E p ?w _ 0] mult_2)
  then have "rb_buf_write E p R d (2 * ?sz) h = Some (IO_SUCCESS, 2 * ?sz, ?R2\<lparr>r_bytes := r_bytes R + 2 * ?sz\<rparr>, h2)"
    using R n by (simp add: rb_buf_write_def rb_check_high_water_def sz_add_exact)
  then show ?thesis using T1(3) T2(2,3) d1(3) by simp
qed

text \<open>A ring of one block of four bytes, on a system where \<open>sysinfo\<close> fails.\<close>

definition tight_env :: env where
  "tight_env = (bump_env 0)\<lparr>sysinfo := \<lambda>h. None\<rparr>"

definition tight_heap :: heap where
  "tight_heap = \<lparr>blocks = [100 \<mapsto> \<lparr>b_next = 100, b_data = 200, b_size = 4, b_bytes = 0,
     b_state = BLB_STATE_NORMAL, b_d_ret = IO_SUCCESS\<rparr>], mem = (\<lambda>a. of_nat a),
     live = [(100, 48), (200, 4), (1, 8)]\<rparr>"

definition tight_ring :: ring_t where
  "tight_ring = \<lparr>r_size = 4, r_bytes = 0, r_wp = 100, r_wlock = False, r_rp = 100, r_rlock = False,
     r_flush = False, r_block_size = 4, r_block_align = 4, r_block_realloc = 1, r_high_water_mark = 0,
     r_high_water_count = 0, r_low_water_mark = 0, r_min_return_size = 0, r_state = RB_STATE_READY\<rparr>"

lemma tight_ok:
  "pool_sound tight_env" "ring_blocks 4 100 [] [100] tight_heap"
  "covered tight_heap 1 8" "outside 1 8 4 tight_heap [100]"
proof -
  show "pool_sound tight_env"
    using bump_env_sound [of 0] by (simp add: tight_env_def pool_sound_def bump_env_def)
  show "ring_blocks 4 100 [] [100] tight_heap"
    by (auto simp: ring_blocks_def is_ring_def areas_def full_def empty_def heap_ok_def covered_def tight_heap_def
        nxt_def blk_def)
  show "covered tight_heap 1 8" "outside 1 8 4 tight_heap [100]"
    by (auto simp: covered_def outside_def disj_def tight_heap_def blk_def)
qed

lemma tight_ring_overwritten:
  "\<exists>R' h'. rb_buf_write tight_env 0 tight_ring 1 8 tight_heap = Some (IO_SUCCESS, 8, R', h') \<and>
     r_bytes R' = 8 \<and> contents h' [100] = [5, 6, 7, 8]"
  using rb_write_loses_data_when_full [OF tight_ok(1), of 0 tight_ring "[]" tight_heap 1] tight_ok(2-4)
  by (simp add: tight_env_def bump_env_def tight_ring_def sz_max_def)
    (simp add: tight_heap_def mem_read_def upt_rec)

end
