(* ===== verification/Posix.thy ===== *)
theory Posix
  imports BW_Prelude
begin

text \<open>
  The parts of the C library and of the system that the file, fifo and socket machines use: strings, \<open>stat\<close>, \<open>mkdir\<close>,
  the streams of \<open>stdio.h\<close>, named pipes and datagram sockets. A \<open>posix\<close> is the state the system keeps. What the system decides
  (which object a path leads to, permissions, how much of a write succeeds, file numbers, the calendar)
  is a parameter \<open>os\<close>. No other process changes the state.
\<close>

section \<open>Strings\<close>

text \<open>The place of the last \<open>c\<close> in a string.\<close>

fun strrchr :: "char \<Rightarrow> string \<Rightarrow> nat option" where
  "strrchr c [] = None"
| "strrchr c (x # xs) = (case strrchr c xs of
      Some i \<Rightarrow> Some (Suc i)
    | None \<Rightarrow> if x = c then Some 0 else None)"

text \<open>\<open>snprintf\<close> into \<open>n\<close> bytes keeps \<open>n - 1\<close> characters.\<close>

definition snprintf :: "nat \<Rightarrow> string \<Rightarrow> string" where
  "snprintf n s = take (n - 1) s"

lemma snprintf_fits [simp]: "length s < n \<Longrightarrow> snprintf n s = s"
  by (simp add: snprintf_def)

definition digit :: "nat \<Rightarrow> char" where
  "digit n = char_of (48 + n)"

fun dec :: "nat \<Rightarrow> string" where
  "dec n = (if n < 10 then [digit n] else dec (n div 10) @ [digit (n mod 10)])"

declare dec.simps [simp del]

text \<open>\<open>%d\<close> and \<open>%05d\<close>.\<close>

definition fmt_d :: "int \<Rightarrow> string" where
  "fmt_d i = (if i < 0 then CHR ''-'' # dec (nat (- i)) else dec (nat i))"

definition pad0 :: "nat \<Rightarrow> string \<Rightarrow> string" where
  "pad0 k s = replicate (k - length s) (CHR ''0'') @ s"

definition fmt_05d :: "int \<Rightarrow> string" where
  "fmt_05d i = (if i < 0 then CHR ''-'' # pad0 4 (dec (nat (- i))) else pad0 5 (dec (nat i)))"

text \<open>\<open>atoi\<close> skips blanks, takes a sign and the digits that follow.\<close>

fun atoi_digits :: "nat \<Rightarrow> string \<Rightarrow> nat" where
  "atoi_digits n [] = n"
| "atoi_digits n (c # cs) = (if c \<in> set ''0123456789'' then atoi_digits (10 * n + (of_char c - 48)) cs else n)"

definition atoi :: "string \<Rightarrow> int" where
  "atoi s = (case dropWhile (\<lambda>c. c = CHR '' '' \<or> of_char c \<in> {9 ..< 14 :: nat}) s of
      [] \<Rightarrow> 0
    | c # cs \<Rightarrow>
        if c = CHR ''-'' then - int (atoi_digits 0 cs) else if c = CHR ''+'' then int (atoi_digits 0 cs)
        else int (atoi_digits 0 (c # cs)))"

text \<open>\<open>dirname\<close> and \<open>basename\<close> of \<open>libgen.h\<close>.\<close>

definition strip :: "string \<Rightarrow> string" where
  "strip s = rev (dropWhile (\<lambda>c. c = CHR ''/'') (rev s))"

definition dirname :: "string \<Rightarrow> string" where
  "dirname s = (case strrchr (CHR ''/'') (strip s) of
      None \<Rightarrow> if s \<noteq> [] \<and> strip s = [] then ''/'' else ''.''
    | Some i \<Rightarrow> if strip (take i s) = [] then ''/'' else strip (take i s))"

definition basename :: "string \<Rightarrow> string" where
  "basename s = (if s = [] then ''.'' else if strip s = [] then ''/''
     else case strrchr (CHR ''/'') (strip s) of None \<Rightarrow> strip s | Some i \<Rightarrow> drop (Suc i) (strip s))"

section \<open>State\<close>

type_synonym path_t = "string list"

record file_stream =
  fi_path :: path_t
  fi_pos :: nat
  fi_write :: bool
  fi_eof :: bool
  fi_err :: bool

record posix =
  px_files :: "path_t \<rightharpoonup> byte list"
  px_dirs :: "path_t list"
  px_streams :: "nat \<rightharpoonup> file_stream"
  px_next :: nat
  px_pipes :: "path_t \<rightharpoonup> byte list"
  px_fds :: "int \<rightharpoonup> path_t"
  px_inbox :: "int \<rightharpoonup> byte list list"
  px_sent :: "(int \<times> 32 word \<times> 16 word \<times> byte list) list"

record os =
  path_of :: "string \<Rightarrow> path_t"
  os_deny :: "posix \<Rightarrow> string \<Rightarrow> bool"
  os_fwritten :: "posix \<Rightarrow> nat \<Rightarrow> nat \<Rightarrow> nat"
  os_freads :: "posix \<Rightarrow> nat \<Rightarrow> nat \<Rightarrow> nat"
  os_new_fd :: "posix \<Rightarrow> int"
  os_written :: "posix \<Rightarrow> int \<Rightarrow> nat \<Rightarrow> nat option"
  os_reads :: "posix \<Rightarrow> int \<Rightarrow> nat \<Rightarrow> nat option"
  os_bind_ok :: "posix \<Rightarrow> int \<Rightarrow> 32 word \<Rightarrow> 16 word \<Rightarrow> bool"
  os_sent :: "posix \<Rightarrow> int \<Rightarrow> nat \<Rightarrow> bool"
  os_received :: "posix \<Rightarrow> int \<Rightarrow> bool"
  strftime :: "string \<Rightarrow> int \<Rightarrow> string"

section \<open>Files and directories\<close>

datatype file_kind = S_IFREG | S_IFDIR | S_IFIFO

definition stat :: "os \<Rightarrow> posix \<Rightarrow> string \<Rightarrow> file_kind option" where
  "stat sy px s = (let p = path_of sy s in
     if s = [] then None
     else if p \<in> set (px_dirs px) then Some S_IFDIR
     else if last s = CHR ''/'' then None
     else if px_files px p \<noteq> None then Some S_IFREG
     else if px_pipes px p \<noteq> None then Some S_IFIFO
     else None)"

definition occupied :: "posix \<Rightarrow> path_t \<Rightarrow> bool" where
  "occupied px p \<longleftrightarrow> p \<in> set (px_dirs px) \<or> px_files px p \<noteq> None \<or> px_pipes px p \<noteq> None"

definition mkdir :: "os \<Rightarrow> string \<Rightarrow> posix \<Rightarrow> posix option" where
  "mkdir sy s px = (let p = path_of sy s in
     if s = [] \<or> os_deny sy px s \<or> occupied px p \<or> butlast p \<notin> set (px_dirs px) then None
     else Some (px\<lparr>px_dirs := p # px_dirs px\<rparr>))"

section \<open>Streams\<close>

text \<open>\<open>fopen\<close> for writing makes the file or empties it. A directory can be opened for reading.
  Opening a pipe waits for its other end.\<close>

definition fopen_w :: "os \<Rightarrow> string \<Rightarrow> posix \<Rightarrow> (nat option \<times> posix) option" where
  "fopen_w sy s px = (let p = path_of sy s in
     if px_pipes px p \<noteq> None then None
     else if s = [] \<or> last s = CHR ''/'' \<or> os_deny sy px s \<or> p \<in> set (px_dirs px) \<or> butlast p \<notin> set (px_dirs px) then Some (None, px)
     else Some (Some (px_next px), px\<lparr>px_files := (px_files px)(p \<mapsto> []),
       px_streams := (px_streams px)(px_next px \<mapsto> \<lparr>fi_path = p, fi_pos = 0, fi_write = True, fi_eof = False, fi_err = False\<rparr>),
       px_next := px_next px + 1\<rparr>))"

definition fopen_r :: "os \<Rightarrow> string \<Rightarrow> posix \<Rightarrow> (nat option \<times> posix) option" where
  "fopen_r sy s px = (let p = path_of sy s in
     if px_pipes px p \<noteq> None then None
     else if s = [] \<or> os_deny sy px s \<or> stat sy px s = None then Some (None, px)
     else Some (Some (px_next px), px\<lparr>
       px_streams := (px_streams px)(px_next px \<mapsto> \<lparr>fi_path = p, fi_pos = 0, fi_write = False, fi_eof = False, fi_err = False\<rparr>),
       px_next := px_next px + 1\<rparr>))"

text \<open>The use of a stream that is not open has no result.\<close>

definition fclose :: "nat \<Rightarrow> posix \<Rightarrow> posix option" where
  "fclose f px = (case px_streams px f of
      None \<Rightarrow> None
    | Some _ \<Rightarrow> Some (px\<lparr>px_streams := (px_streams px)(f := None)\<rparr>))"

text \<open>The contents after writing \<open>xs\<close> at \<open>pos\<close>; a gap is filled with zeros.\<close>

definition write_at :: "nat \<Rightarrow> byte list \<Rightarrow> byte list \<Rightarrow> byte list" where
  "write_at pos xs c = take pos (c @ replicate (pos - length c) 0) @ xs @ drop (pos + length xs) c"

definition fwrite :: "os \<Rightarrow> nat \<Rightarrow> byte list \<Rightarrow> posix \<Rightarrow> (nat \<times> posix) option" where
  "fwrite sy f xs px = (case px_streams px f of
      None \<Rightarrow> None
    | Some fi \<Rightarrow>
        if \<not> fi_write fi then Some (0, px\<lparr>px_streams := (px_streams px)(f \<mapsto> fi\<lparr>fi_err := True\<rparr>)\<rparr>)
        else (let n = min (os_fwritten sy px f (length xs)) (length xs);
                  c = (case px_files px (fi_path fi) of None \<Rightarrow> [] | Some c \<Rightarrow> c)
              in Some (n, px\<lparr>px_files := (px_files px)(fi_path fi \<mapsto> write_at (fi_pos fi) (take n xs) c),
                   px_streams := (px_streams px)(f \<mapsto> fi\<lparr>fi_pos := fi_pos fi + n, fi_err := fi_err fi \<or> n < length xs\<rparr>)\<rparr>)))"

text \<open>\<open>fread\<close> gives fewer bytes than asked for at the end of the file or on an error only.\<close>

definition fread :: "os \<Rightarrow> nat \<Rightarrow> nat \<Rightarrow> posix \<Rightarrow> (byte list \<times> posix) option" where
  "fread sy f n px = (case px_streams px f of
      None \<Rightarrow> None
    | Some fi \<Rightarrow> (case px_files px (fi_path fi) of
        None \<Rightarrow> Some ([], px\<lparr>px_streams := (px_streams px)(f \<mapsto> fi\<lparr>fi_err := True\<rparr>)\<rparr>)
      | Some c \<Rightarrow>
          if fi_write fi then Some ([], px\<lparr>px_streams := (px_streams px)(f \<mapsto> fi\<lparr>fi_err := True\<rparr>)\<rparr>)
          else (let avail = take n (drop (fi_pos fi) c);
                    xs = take (os_freads sy px f n) avail;
                    fi' = fi\<lparr>fi_pos := fi_pos fi + length xs, fi_eof := fi_eof fi \<or> length xs = length avail \<and> length avail < n,
                             fi_err := fi_err fi \<or> length xs < length avail\<rparr>
                in Some (xs, px\<lparr>px_streams := (px_streams px)(f \<mapsto> fi')\<rparr>))))"

definition feof :: "nat \<Rightarrow> posix \<Rightarrow> bool option" where
  "feof f px = map_option fi_eof (px_streams px f)"

definition ferror :: "nat \<Rightarrow> posix \<Rightarrow> bool option" where
  "ferror f px = map_option fi_err (px_streams px f)"

section \<open>Named pipes\<close>

text \<open>\<open>open(name, O_RDWR)\<close>; the result is -1 on failure. A name that leads to a file is not considered.\<close>

definition open_rdwr :: "os \<Rightarrow> string \<Rightarrow> posix \<Rightarrow> (int \<times> posix) option" where
  "open_rdwr sy s px = (let p = path_of sy s; f = os_new_fd sy px in
     if px_files px p \<noteq> None then None
     else if s = [] \<or> last s = CHR ''/'' \<or> os_deny sy px s \<or> px_pipes px p = None \<or> f < 0 then Some (-1, px)
     else Some (f, px\<lparr>px_fds := (px_fds px)(f \<mapsto> p)\<rparr>))"

text \<open>\<open>write\<close> and \<open>read\<close>: \<open>None\<close> inside the result is -1. Reading an empty pipe waits: the descriptor itself
  keeps the pipe open for writing, so that there is no end of file.\<close>

definition write_fd :: "os \<Rightarrow> int \<Rightarrow> byte list \<Rightarrow> posix \<Rightarrow> (nat option \<times> posix) option" where
  "write_fd sy f xs px = (case px_fds px f of
      None \<Rightarrow> Some (None, px)
    | Some p \<Rightarrow> (case px_pipes px p of
        None \<Rightarrow> Some (None, px)
      | Some c \<Rightarrow> (case os_written sy px f (length xs) of
          None \<Rightarrow> Some (None, px)
        | Some k \<Rightarrow> let n = min k (length xs) in
            Some (Some n, px\<lparr>px_pipes := (px_pipes px)(p \<mapsto> c @ take n xs)\<rparr>))))"

definition read_fd :: "os \<Rightarrow> int \<Rightarrow> nat \<Rightarrow> posix \<Rightarrow> (byte list option \<times> posix) option" where
  "read_fd sy f n px = (case px_fds px f of
      None \<Rightarrow> Some (None, px)
    | Some p \<Rightarrow> (case px_pipes px p of
        None \<Rightarrow> Some (None, px)
      | Some c \<Rightarrow>
          if n = 0 then Some (Some [], px)
          else (case os_reads sy px f n of
              None \<Rightarrow> Some (None, px)
            | Some k \<Rightarrow>
                if c = [] then None
                else let m = min (max 1 k) n in Some (Some (take m c), px\<lparr>px_pipes := (px_pipes px)(p \<mapsto> drop m c)\<rparr>))))"

section \<open>Datagram sockets\<close>

text \<open>\<open>px_inbox\<close> has the datagrams that have arrived at a socket, \<open>px_sent\<close> the datagrams that were sent, oldest first, with
  the socket and the destination. A datagram is sent whole or not at all; one that is longer than the
  reader's buffer is cut. Receiving waits for a datagram.\<close>

definition socket :: "os \<Rightarrow> posix \<Rightarrow> int \<times> posix" where
  "socket sy px = (let f = os_new_fd sy px in if f < 0 then (-1, px) else (f, px\<lparr>px_inbox := (px_inbox px)(f \<mapsto> [])\<rparr>))"

definition sendto :: "os \<Rightarrow> int \<Rightarrow> byte list \<Rightarrow> 32 word \<Rightarrow> 16 word \<Rightarrow> posix \<Rightarrow> nat option \<times> posix" where
  "sendto sy f xs ip port px =
     (if px_inbox px f = None \<or> \<not> os_sent sy px f (length xs) then (None, px)
      else (Some (length xs), px\<lparr>px_sent := px_sent px @ [(f, ip, port, xs)]\<rparr>))"

definition recvfrom :: "os \<Rightarrow> int \<Rightarrow> nat \<Rightarrow> posix \<Rightarrow> (byte list option \<times> posix) option" where
  "recvfrom sy f n px = (case px_inbox px f of
      None \<Rightarrow> Some (None, px)
    | Some ds \<Rightarrow>
        if \<not> os_received sy px f then Some (None, px)
        else (case ds of
            [] \<Rightarrow> None
          | xs # ds' \<Rightarrow> Some (Some (take n xs), px\<lparr>px_inbox := (px_inbox px)(f \<mapsto> ds')\<rparr>)))"

definition close_socket :: "int \<Rightarrow> posix \<Rightarrow> posix" where
  "close_socket f px = px\<lparr>px_inbox := (px_inbox px)(f := None)\<rparr>"

end
