(* ===== verification/C_Float.thy ===== *)
theory C_Float
  imports C_Double
begin

text \<open>
  Infinite results of double arithmetic, and the \<open>float\<close> of C as it lies in memory: 4 bytes with a sign, an
  exponent of 8 bits and a mantissa of 23 bits.
\<close>

section \<open>Doubles that are not finite\<close>

text \<open>A double that may be an infinity or not a number, as a division by zero gives it.\<close>

datatype cdouble = Fin rat | PInf | NInf | NaN

definition cdiv :: "rat \<Rightarrow> rat \<Rightarrow> cdouble" where
  "cdiv x y = (if y \<noteq> 0 then Fin (dbl (x / y)) else if x > 0 then PInf else if x < 0 then NInf else NaN)"

text \<open>Products with a factor that is not negative, and sums with a finite number.\<close>

definition cmul :: "cdouble \<Rightarrow> rat \<Rightarrow> cdouble" where
  "cmul x s = (case x of Fin v \<Rightarrow> Fin (dbl (v * s)) | _ \<Rightarrow> if s = 0 then NaN else x)"

definition cadd :: "cdouble \<Rightarrow> rat \<Rightarrow> cdouble" where
  "cadd x y = (case x of Fin v \<Rightarrow> Fin (dbl (v + y)) | _ \<Rightarrow> x)"

section \<open>Floats\<close>

text \<open>The bits of the float nearest to \<open>x\<close>. The mantissa \<open>m\<close> has its leading bit; adding it to the exponent
  carries into the exponent when it was rounded up to a power of two, and makes the exponent 0 for a subnormal number.\<close>

definition enc32 :: "rat \<Rightarrow> nat" where
  "enc32 x = (if x = 0 then 0 else
     let y = \<bar>x\<bar>; e = max (dexp y) (- 126); m = round_even (y / 2 powi (e - 23))
     in (if x < 0 then 2 ^ 31 else 0) + min (255 * 2 ^ 23) (nat ((e + 126) * 2 ^ 23 + m)))"

definition dec32 :: "nat \<Rightarrow> cdouble" where
  "dec32 n = (let neg = odd (n div 2 ^ 31); e = n div 2 ^ 23 mod 2 ^ 8; m = n mod 2 ^ 23 in
     if e = 255 then (if m \<noteq> 0 then NaN else if neg then NInf else PInf)
     else let v = (if e = 0 then of_nat m * 2 powi (- 149) else of_nat (2 ^ 23 + m) * 2 powi (int e - 150))
       in Fin (if neg then - v else v))"

definition float_bytes :: "rat \<Rightarrow> byte list" where
  "float_bytes x = le_bytes 4 (enc32 x)"

definition float_of :: "byte list \<Rightarrow> cdouble" where
  "float_of xs = dec32 (le_nat xs)"

lemma round_even_mono: "x \<le> y \<Longrightarrow> round_even x \<le> round_even y"
proof -
  assume "x \<le> y"
  then consider "\<lfloor>x\<rfloor> = \<lfloor>y\<rfloor>" | "\<lfloor>x\<rfloor> + 1 \<le> \<lfloor>y\<rfloor>" using floor_mono by fastforce
  then show ?thesis
  proof cases
    case 1
    then show ?thesis using \<open>x \<le> y\<close> by (auto simp: round_even_def Let_def)
  next
    case 2
    then show ?thesis by (auto simp: round_even_def Let_def)
  qed
qed

text \<open>The mantissa of a normal number.\<close>

lemma mantissa_bounds:
  assumes "0 < x"
  shows "2 ^ p \<le> round_even (x / 2 powi (dexp x - int p))" and "round_even (x / 2 powi (dexp x - int p)) \<le> 2 ^ Suc p"
proof -
  let ?u = "2 powi (dexp x - int p) :: rat"
  have "of_int (2 ^ p) \<le> x / ?u" "x / ?u \<le> of_int (2 ^ Suc p)"
    using dexp_bounds [OF assms] by (simp_all add: field_simps power_int_diff power_int_add)
  from this [THEN round_even_mono] show "2 ^ p \<le> round_even (x / ?u)" "round_even (x / ?u) \<le> 2 ^ Suc p"
    unfolding round_even_int .
qed

lemma powi2_less: "(2::rat) powi a < 2 powi b \<Longrightarrow> a < b"
  using power_int_increasing [of b a "2::rat"] by (cases "a < b") auto

lemma dexp_range:
  assumes "0 < x" and "2 powi a \<le> x" and "x < 2 powi b"
  shows "a \<le> dexp x" and "dexp x < b"
proof -
  have "(2::rat) powi a < 2 powi (dexp x + 1)" using dexp_bounds(2) [OF assms(1)] assms(2) by linarith
  from powi2_less [OF this] show "a \<le> dexp x" by simp
  have "(2::rat) powi dexp x < 2 powi b" using dexp_bounds(1) [OF assms(1)] assms(3) by linarith
  from powi2_less [OF this] show "dexp x < b" .
qed

lemma dexp_eq:
  assumes "0 < x" and "2 powi e \<le> x" and "x < 2 powi (e + 1)"
  shows "dexp x = e"
  using dexp_range [OF assms] by simp

lemma rnd_half: "rnd p (x / 2) = rnd p x / 2"
proof -
  have pos: "rnd_pos p (y / 2) = rnd_pos p y / 2" if "0 < y" for y
  proof -
    have "dexp (y / 2) = dexp y - 1"
      using dexp_bounds [OF that] that by (intro dexp_eq) (simp_all add: power_int_diff power_int_add)
    then show ?thesis by (simp add: rnd_pos_def Let_def power_int_diff diff_right_commute)
  qed
  show ?thesis
  proof (cases "0 < x")
    case True
    then show ?thesis using pos [of x] by (simp add: rnd_def)
  next
    case False
    then show ?thesis using pos [of "- x"] by (simp add: rnd_def)
  qed
qed

lemma dbl_half_exact: "\<bar>k\<bar> < 2 ^ 53 \<Longrightarrow> dbl (of_int k / 2) = of_int k / 2"
  using rnd_half [of 52 "of_int k"] dbl_int_exact [of k] by (simp add: dbl_def)

lemma enc32_minus: "0 < x \<Longrightarrow> enc32 (- x) = 2 ^ 31 + enc32 x"
  by (simp add: enc32_def Let_def)

lemma enc32_le: "0 < x \<Longrightarrow> enc32 x \<le> 255 * 2 ^ 23"
  by (simp add: enc32_def Let_def)

lemma dec32_minus:
  assumes "n < 255 * 2 ^ 23" and "dec32 n = Fin x"
  shows "dec32 (2 ^ 31 + n) = Fin (- x)"
proof -
  have "(2 ^ 31 + n) div 2 ^ 31 = 1" "n div 2 ^ 31 = 0" using assms(1) by (simp_all add: div_nat_eqI)
  moreover have "(n + a * b) div b mod a = n div b mod a" "(n + a * b) mod b = n mod b" if "0 < b" for a b :: nat
    using that by simp_all
  from this [of "2 ^ 23" "2 ^ 8"] have "(2 ^ 31 + n) div 2 ^ 23 mod 2 ^ 8 = n div 2 ^ 23 mod 2 ^ 8" "(2 ^ 31 + n) mod 2 ^ 23 = n mod 2 ^ 23"
    by (simp_all add: add.commute)
  ultimately show ?thesis using assms(2) by (auto simp: dec32_def Let_def split: if_splits)
qed

text \<open>A number in the range of normal floats is read back as the nearest float.\<close>

lemma dec32_enc32_pos:
  assumes "0 < x" and "2 powi (- 126) \<le> x" and "x < 2 powi 127"
  shows "dec32 (enc32 x) = Fin (sgl x) \<and> enc32 x < 255 * 2 ^ 23"
proof -
  define e where "e = dexp x"
  have e: "- 126 \<le> e" "e < 127" using dexp_range [OF assms] by (simp_all add: e_def)
  define m where "m = round_even (x / 2 powi (e - 23))"
  have m: "2 ^ 23 \<le> m" "m \<le> 2 ^ 24" using mantissa_bounds [OF assms(1), of 23] by (simp_all add: m_def e_def)
  define E where "E = nat (e + 126)" define M where "M = nat m"
  have EM: "e = int E - 126" "m = int M" "E \<le> 252" "2 ^ 23 \<le> M" "M \<le> 2 ^ 24" using e m by (simp_all add: E_def M_def)
  have "enc32 x = min (255 * 2 ^ 23) (nat ((e + 126) * 2 ^ 23 + m))"
    using assms(1) e by (simp add: enc32_def Let_def e_def [symmetric] m_def [symmetric] max_absorb1)
  also have "nat ((e + 126) * 2 ^ 23 + m) = E * 2 ^ 23 + M" by (simp add: EM(1,2) nat_add_distrib nat_mult_distrib)
  finally have enc: "enc32 x = E * 2 ^ 23 + M" using EM(3,5) by simp
  have f: "sgl x = of_nat M * 2 powi (int E - 149)"
    using assms(1) EM(2) by (simp add: sgl_def rnd_def rnd_pos_def Let_def e_def [symmetric] m_def [symmetric]) (simp add: EM(1))
  have "dec32 (E * 2 ^ 23 + M) = Fin (of_nat M * 2 powi (int E - 149))"
  proof (cases "M = 2 ^ 24")
    case True
    then have "E * 2 ^ 23 + M = (E + 2) * 2 ^ 23" by simp
    moreover have "((E + 2) * 2 ^ 23) div 2 ^ 31 = 0" using EM(3) by (simp add: div_nat_eqI)
    ultimately show ?thesis using EM(3) True by (simp add: dec32_def Let_def power_int_add power_int_diff)
  next
    case False
    obtain K where "M = 2 ^ 23 + K" using EM(4) le_Suc_ex by blast
    then have K: "M = 2 ^ 23 + K" "K < 2 ^ 23" using EM(5) False by simp_all
    then have eq: "E * 2 ^ 23 + M = (E + 1) * 2 ^ 23 + K" by simp
    have "((E + 1) * b + K) div b = E + 1 \<and> ((E + 1) * b + K) mod b = K" if "K < b" for b
      using that mod_mult_self3 [of "E + 1" b K] by (simp add: div_nat_eqI del: mod_mult_self3)
    from this [OF K(2)] have "((E + 1) * 2 ^ 23 + K) div 2 ^ 23 = E + 1" "((E + 1) * 2 ^ 23 + K) mod 2 ^ 23 = K" by blast+
    moreover have "((E + 1) * 2 ^ 23 + K) div 2 ^ 31 = 0" using K(2) EM(3) by (simp add: div_nat_eqI)
    ultimately show ?thesis unfolding eq using EM(3) K(1) by (simp add: dec32_def Let_def)
  qed
  then show ?thesis using enc f EM(3,5) by simp
qed

theorem dec32_enc32:
  assumes "x \<noteq> 0 \<Longrightarrow> 2 powi (- 126) \<le> \<bar>x\<bar>" and "\<bar>x\<bar> < 2 powi 127"
  shows "dec32 (enc32 x) = Fin (sgl x)"
proof (cases x "0 :: rat" rule: linorder_cases)
  case less
  then have p: "dec32 (enc32 (- x)) = Fin (sgl (- x)) \<and> enc32 (- x) < 255 * 2 ^ 23" using assms by (intro dec32_enc32_pos) auto
  then have "dec32 (2 ^ 31 + enc32 (- x)) = Fin (- sgl (- x))" by (intro dec32_minus) auto
  then show ?thesis using enc32_minus [of "- x"] less by (simp add: sgl_def rnd_minus)
next
  case equal
  then show ?thesis by (simp add: enc32_def dec32_def)
next
  case greater
  then show ?thesis using assms dec32_enc32_pos by auto
qed

section \<open>Arrays of floats\<close>

lemma length_float_bytes [simp]: "length (float_bytes x) = 4"
  by (simp add: float_bytes_def)

definition float_array :: "rat list \<Rightarrow> byte list" where
  "float_array xs = concat (map float_bytes xs)"

lemma length_float_array [simp]: "length (float_array xs) = 4 * length xs"
  by (induction xs) (simp_all add: float_array_def)

lemma float_array_Nil [simp]: "float_array [] = []"
  and float_array_Cons [simp]: "float_array (x # xs) = float_bytes x @ float_array xs"
  by (simp_all add: float_array_def)

lemma float_array_nth: "float_array xs = map (\<lambda>i. float_bytes (xs ! (i div 4)) ! (i mod 4)) [0..<4 * length xs]"
proof (induction xs)
  case (Cons x xs)
  have "[0..<4 * length (x # xs)] = [0..<4] @ map (\<lambda>i. i + 4) [0..<4 * length xs]"
    using upt_add_eq_append [of 0 4 "4 * length xs"] by (simp add: map_add_upt add.commute)
  moreover have "map (\<lambda>i. float_bytes ((x # xs) ! (i div 4)) ! (i mod 4)) [0..<4] = float_bytes x" by (rule nth_equalityI) simp_all
  ultimately show ?case using Cons by (simp add: comp_def del: upt_rec_numeral upt_conv_Cons_Cons)
qed simp

end
