(* ===== verification/Radio.thy ===== *)
theory Radio
  imports Block_List C_Float
begin

text \<open>
  The data of the radio machines: \<open>include/sdr-machine.h\<close>, \<open>include/sdrs.h\<close>, \<open>include/rtlsdr.h\<close>, \<open>include/soapy.h\<close> and
  \<open>include/bw-uhd.h\<close>. The libraries that drive the devices are not part of the repository: each is a record of functions. A
  function takes the number of calls that were made before, so that it may answer differently each time.
\<close>

section \<open>Channels and devices\<close>

datatype sdr_chan_state_e = SDR_CHAN_NOINIT | SDR_CHAN_RESET | SDR_CHAN_READY | SDR_CHAN_ERROR
datatype sdr_chan_mode_e = SDR_MODE_UNBUFFERED | SDR_MODE_BUFFERED | SDR_MODE_ERROR

text \<open>The functions of a kind of radio (\<open>SDR_API\<close>) are named by the radio. \<open>API_LIME\<close> are those of a Soapy radio after
  \<open>lime-machine.c\<close> has set its functions for gains.\<close>

datatype sdr_api_id = API_RTLSDR | API_SOAPY | API_LIME | API_UHD

text \<open>What \<open>args\<close> points to when a channel is created.\<close>

datatype sdr_arg = ARG_NULL | ARG_STR string | ARG_UHD size_t string

text \<open>The fields that \<open>rtlsdr_channel_t\<close> adds to a channel; the device is a number.\<close>

record rtlsdr_channel =
  rc_sdr :: nat
  rc_gain_vals :: "int list"
  rc_gain_mode :: int
  rc_test_mode :: int

text \<open>The fields that \<open>soapy_channel_t\<close> adds; device and stream are numbers.\<close>

datatype soapy_antennas_e = LIME_MINI_LNAH

record soapy_channel =
  so_sdr :: nat
  so_rx :: nat
  so_antenna :: soapy_antennas_e
  so_error_counter :: int
  so_tia_gain :: rat
  so_pga_gain :: rat
  so_expected_timestamp :: cdouble
  so_ns_per_sample :: cdouble
  so_chan :: size_t

text \<open>The fields that \<open>uhd_channel_t\<close> adds. Of the request for tuning the frequency is kept, of the command for the stream its mode;
  the other fields of these structs are constant.\<close>

datatype uhd_stream_mode_t = UHD_STREAM_MODE_START_CONTINUOUS | UHD_STREAM_MODE_STOP_CONTINUOUS

record uhd_channel =
  uc_sdr :: nat
  uc_channel :: size_t
  uc_target_freq :: rat
  uc_stream_mode :: uhd_stream_mode_t
  uc_rx_streamer :: nat
  uc_rx_metadata :: nat
  uc_max_samples :: size_t
  uc_error_counter :: int

datatype sdr_impl = SDR_RTL rtlsdr_channel | SDR_SOAPY soapy_channel | SDR_UHD uhd_channel

text \<open>A gain model: the common part, and the fields of \<open>lime_gain_model_t\<close>.\<close>

datatype gm_type_e = GM_TYPE_UNKNOWN | GM_TYPE_LIME

record gain_model =
  gm_type :: gm_type_e
  gm_len :: int
  gm_lna :: rat
  gm_pga :: rat
  gm_tia :: rat

text \<open>A channel is what follows the generic part of its machine descriptor. \<open>sc_ptr\<close> is its own address, \<open>sc_obj\<close> the flag
  \<open>do_fill\<close> of the struct that \<open>obj\<close> points to.\<close>

record sdr_channel =
  sc_ptr :: addr
  sc_device :: addr
  sc_freq :: rat
  sc_rate :: rat
  sc_bandwidth :: rat
  sc_ppm :: rat
  sc_gain :: rat
  sc_state :: sdr_chan_state_e
  sc_mode :: sdr_chan_mode_e
  sc_buffer :: "blb_rw option"
  sc_obj :: "bool option"
  sc_counter :: size_t
  sc_allow_overruns :: bool
  sc_destroy :: "sdr_api_id option"
  sc_impl :: sdr_impl

definition zero_channel :: "addr \<Rightarrow> sdr_impl \<Rightarrow> sdr_channel" where
  "zero_channel a i = \<lparr>sc_ptr = a, sc_device = 0, sc_freq = 0, sc_rate = 0, sc_bandwidth = 0, sc_ppm = 0, sc_gain = 0,
     sc_state = SDR_CHAN_NOINIT, sc_mode = SDR_MODE_UNBUFFERED, sc_buffer = None, sc_obj = None, sc_counter = 0,
     sc_allow_overruns = False, sc_destroy = None, sc_impl = i\<rparr>"

text \<open>\<open>sd_channels\<close> are the \<open>n_chan\<close> channels, by their addresses; \<open>sd_chan_len\<close> is the room there is for them.\<close>

record sdr_device =
  sd_ptr :: addr
  sd_id :: nat
  sd_handle :: int
  sd_pool :: pool
  sd_hw :: nat
  sd_channels :: "addr list"
  sd_channels_ptr :: addr
  sd_chan_len :: nat
  sd_destroy :: sdr_api_id

section \<open>The RTL-SDR library\<close>

text \<open>A result 0 is success. \<open>rtlsdr_read_sync\<close> also gives the bytes it has stored, \<open>rtlsdr_open\<close> the device.\<close>

record rtl_lib =
  rtlsdr_get_device_count :: "nat \<Rightarrow> int"
  rtlsdr_serial :: "nat \<Rightarrow> nat \<Rightarrow> string"
  rtlsdr_open :: "nat \<Rightarrow> nat \<Rightarrow> int \<times> nat"
  rtlsdr_set_center_freq :: "nat \<Rightarrow> nat \<Rightarrow> 32 word \<Rightarrow> int"
  rtlsdr_set_sample_rate :: "nat \<Rightarrow> nat \<Rightarrow> 32 word \<Rightarrow> int"
  rtlsdr_set_tuner_bandwidth :: "nat \<Rightarrow> nat \<Rightarrow> 32 word \<Rightarrow> int"
  rtlsdr_set_freq_correction :: "nat \<Rightarrow> nat \<Rightarrow> int \<Rightarrow> int"
  rtlsdr_set_tuner_gain_mode :: "nat \<Rightarrow> nat \<Rightarrow> int \<Rightarrow> int"
  rtlsdr_set_tuner_gain :: "nat \<Rightarrow> nat \<Rightarrow> int \<Rightarrow> int"
  rtlsdr_set_testmode :: "nat \<Rightarrow> nat \<Rightarrow> int \<Rightarrow> int"
  rtlsdr_reset_buffer :: "nat \<Rightarrow> nat \<Rightarrow> int"
  rtlsdr_read_sync :: "nat \<Rightarrow> nat \<Rightarrow> int \<Rightarrow> int \<times> byte list"
  rtlsdr_get_tuner_gains :: "nat \<Rightarrow> nat \<Rightarrow> int \<times> int list"

section \<open>The SoapySDR library\<close>

text \<open>
  Devices are lists of keys and values; a device or a stream that could not be made is 0. \<open>readStream\<close> gives the number of samples or
  an error below 0, the bytes it has stored and the time of the first sample.
\<close>

record soapy_lib =
  SoapySDRDevice_enumerate :: "nat \<Rightarrow> (string \<times> string) list list"
  SoapySDRDevice_make :: "nat \<Rightarrow> (string \<times> string) list \<Rightarrow> nat"
  SoapySDRDevice_setupStream :: "nat \<Rightarrow> nat \<Rightarrow> size_t \<Rightarrow> nat"
  SoapySDRDevice_setAntenna :: "nat \<Rightarrow> nat \<Rightarrow> string \<Rightarrow> int"
  SoapySDRDevice_setSampleRate :: "nat \<Rightarrow> nat \<Rightarrow> rat \<Rightarrow> int"
  SoapySDRDevice_setBandwidth :: "nat \<Rightarrow> nat \<Rightarrow> rat \<Rightarrow> int"
  SoapySDRDevice_setFrequency :: "nat \<Rightarrow> nat \<Rightarrow> rat \<Rightarrow> int"
  SoapySDRDevice_setFrequencyCorrection :: "nat \<Rightarrow> nat \<Rightarrow> rat \<Rightarrow> int"
  SoapySDRDevice_setGainElement :: "nat \<Rightarrow> nat \<Rightarrow> string \<Rightarrow> rat \<Rightarrow> int"
  SoapySDRDevice_getGainElement :: "nat \<Rightarrow> nat \<Rightarrow> string \<Rightarrow> rat"
  SoapySDRDevice_deactivateStream :: "nat \<Rightarrow> nat \<Rightarrow> nat \<Rightarrow> int"
  SoapySDRDevice_readStream :: "nat \<Rightarrow> nat \<Rightarrow> nat \<Rightarrow> size_t \<Rightarrow> int \<times> byte list \<times> int"

section \<open>The UHD library\<close>

text \<open>
  A result 0 is success; what a function makes comes with its result. \<open>recv\<close> gives the bytes it has stored and the number of
  samples, unless it failed and left the number as it was. The size of a channel depends on structs of the library.
\<close>

datatype uhd_rx_metadata_error_code_t = UHD_RX_METADATA_ERROR_CODE_NONE | UHD_RX_METADATA_ERROR_CODE_TIMEOUT
  | UHD_RX_METADATA_ERROR_CODE_LATE_COMMAND | UHD_RX_METADATA_ERROR_CODE_BROKEN_CHAIN | UHD_RX_METADATA_ERROR_CODE_OVERFLOW
  | UHD_RX_METADATA_ERROR_CODE_ALIGNMENT | UHD_RX_METADATA_ERROR_CODE_BAD_PACKET | UHD_RX_METADATA_ERROR_OTHER nat

record uhd_lib =
  sizeof_uhd_channel :: size_t
  uhd_usrp_make :: "nat \<Rightarrow> string \<Rightarrow> int \<times> nat"
  uhd_rx_streamer_make :: "nat \<Rightarrow> int \<times> nat"
  uhd_rx_metadata_make :: "nat \<Rightarrow> int \<times> nat"
  uhd_usrp_set_rx_rate :: "nat \<Rightarrow> nat \<Rightarrow> rat \<Rightarrow> size_t \<Rightarrow> int"
  uhd_usrp_set_rx_bandwidth :: "nat \<Rightarrow> nat \<Rightarrow> rat \<Rightarrow> size_t \<Rightarrow> int"
  uhd_usrp_set_rx_freq :: "nat \<Rightarrow> nat \<Rightarrow> rat \<Rightarrow> size_t \<Rightarrow> int"
  uhd_usrp_set_rx_gain :: "nat \<Rightarrow> nat \<Rightarrow> rat \<Rightarrow> size_t \<Rightarrow> int"
  uhd_usrp_get_rx_stream :: "nat \<Rightarrow> nat \<Rightarrow> size_t \<Rightarrow> nat \<Rightarrow> int"
  uhd_rx_streamer_max_num_samps :: "nat \<Rightarrow> nat \<Rightarrow> int \<times> size_t"
  uhd_rx_streamer_issue_stream_cmd :: "nat \<Rightarrow> nat \<Rightarrow> uhd_stream_mode_t \<Rightarrow> int"
  uhd_rx_streamer_recv :: "nat \<Rightarrow> nat \<Rightarrow> size_t \<Rightarrow> byte list \<times> size_t option"
  uhd_rx_metadata_error_code :: "nat \<Rightarrow> nat \<Rightarrow> int \<times> uhd_rx_metadata_error_code_t"

section \<open>Conversions of doubles\<close>

text \<open>Conversions of a double to 32-bit integers truncate; outside of the range they are undefined.\<close>

definition trunc :: "rat \<Rightarrow> int" where
  "trunc x = (if 0 \<le> x then \<lfloor>x\<rfloor> else \<lceil>x\<rceil>)"

definition dbl_to_u32 :: "rat \<Rightarrow> 32 word option" where
  "dbl_to_u32 x = (if 0 \<le> trunc x \<and> trunc x < 2 ^ 32 then Some (of_int (trunc x)) else None)"

definition dbl_to_int :: "rat \<Rightarrow> int option" where
  "dbl_to_int x = (if - (2 ^ 31) \<le> trunc x \<and> trunc x < 2 ^ 31 then Some (trunc x) else None)"

text \<open>64-bit results, undefined outside of the range; the conversion of 64 bits to 32 wraps.\<close>

definition in_i64 :: "int \<Rightarrow> int option" where
  "in_i64 x = (if - (2 ^ 63) \<le> x \<and> x < 2 ^ 63 then Some x else None)"

definition dbl_to_i64 :: "cdouble \<Rightarrow> int option" where
  "dbl_to_i64 x = (case x of Fin v \<Rightarrow> in_i64 (trunc v) | _ \<Rightarrow> None)"

definition i64_to_int :: "int \<Rightarrow> int" where
  "i64_to_int x = (x + 2 ^ 31) mod 2 ^ 32 - 2 ^ 31"

end
