(* ===== verification/World.thy ===== *)
theory World
  imports Ring_Buf Posix Radio
begin

text \<open>
  The data of the machine layer: \<open>include/machine.h\<close>, \<open>include/filter.h\<close> and the structs of the
  machines and filters that are modelled. A \<open>world\<close> is the state the library keeps: the heap of
  blocks and bytes, the filters (objects with addresses, since chains are linked through
  \<open>next\<close>), the list of machine descriptors in the order of \<open>machine_descriptors\<close>, the table of
  registered machines and the handle map of \<open>machine-mgmt.c\<close>. A descriptor is addressed by its
  handle. Function pointers are constructors of a datatype with one value per function.
\<close>

section \<open>Metrics\<close>

record timeval =
  tv_sec :: int
  tv_usec :: int

record io_metrics_count =
  mc_count :: size_t
  mc_bytes :: size_t
  mc_total_count :: size_t
  mc_total_bytes :: size_t

record io_metrics_calc =
  ca_time :: timeval
  ca_elapsed :: rat
  ca_total_bytes :: size_t
  ca_data_rate :: cdouble
  ca_req_rate :: cdouble
  ca_avg_req_size :: cdouble
  ca_avg_rec_size :: cdouble
  ca_utilization :: cdouble

datatype metrics_call = METRICS_INIT | METRICS_UPDATE_FN

text \<open>\<open>calc\<close> is the array \<open>mt_calc\<close>; \<open>calc_len\<close> is its allocated length.\<close>

record io_metrics_data =
  mt_fn :: metrics_call
  mt_update_signal :: bool
  mt_print_signal :: bool
  mt_req :: io_metrics_count
  mt_rec :: io_metrics_count
  mt_t_start :: timeval
  mt_t_prev :: timeval
  mt_t_cur :: timeval
  mt_t_stop :: timeval
  mt_calc :: "io_metrics_calc list"
  mt_n_calc :: size_t
  mt_calc_len :: size_t

record io_metrics =
  ms_in :: io_metrics_data
  ms_out :: io_metrics_data

section \<open>Filters\<close>

type_synonym io_handle = int

datatype io_filter_direction = IOF_BIDIRECTIONAL | IOF_READ | IOF_WRITE

text \<open>The functions a filter's \<open>call\<close> may point to; \<open>FN_EXT\<close> numbers the functions of the user
  and of machines that are not modelled.\<close>

datatype io_filter_fn =
    FN_RB_READ | FN_RB_WRITE | FN_FBB_READ | FN_FBB_WRITE | FN_HQ_READ | FN_HQ_WRITE
  | FN_NULL_READ | FN_NULL_WRITE | FN_BYTE_COUNT_LIMITER | FN_TIME_LIMITER | FN_BYTE_COUNTER
  | FN_FEEDBACK_METRIC | FN_FEEDBACK_CONTROLLER | FN_FILE_READ | FN_FILE_WRITE | FN_FILE_ROTATE | FN_DIR_ROTATE
  | FN_FIFO_READ | FN_FIFO_WRITE | FN_UDP_READ | FN_UDP_WRITE | FN_TCP_READ | FN_TCP_WRITE | FN_SDRRX_READ | FN_IQ_TYPE_CONVERSION
  | FN_EXT nat

record generic_counter =
  gc_total :: size_t
  gc_limit :: size_t
  gc_period :: size_t

datatype time_limit_state_e = TIME_LIMIT_NOINIT | TIME_LIMIT_RUNNING | TIME_LIMIT_DONE

record time_limit =
  tl_state :: time_limit_state_e
  tl_ms :: size_t

record fb_ctl =
  fc_filter_buf :: addr
  fc_bytes :: size_t
  fc_reset_fn :: "nat option"
  fc_reset_arg :: addr

text \<open>The formats of samples (\<open>iq_desc\<close> in \<open>conversions.c\<close>) and the object of a conversion filter.\<close>

datatype iq_data_type_e = IQ_UNSUPPORTED | IQ_FC32 | IQ_SC16 | IQ_SC8

record iq_datatype =
  iq_type :: iq_data_type_e
  iq_data_size :: nat
  iq_is_float :: bool

record gcb =
  cb_buf :: addr
  cb_tmp :: addr
  cb_precision :: int
  cb_from :: iq_datatype
  cb_to :: iq_datatype

datatype filter_obj =
    OBJ_NULL | OBJ_HANDLE io_handle | OBJ_DESC io_handle | OBJ_COUNTER generic_counter | OBJ_TIME time_limit
  | OBJ_FILTER addr | OBJ_FB fb_ctl | OBJ_CONV gcb | OBJ_EXT nat

record io_filter =
  f_enabled :: bool
  f_direction :: io_filter_direction
  f_name :: string
  f_alloc :: pool
  f_obj :: filter_obj
  f_next :: addr
  f_call :: io_filter_fn
  f_reset :: "nat option"

definition IO_MAX_NAME_LEN :: nat where "IO_MAX_NAME_LEN = 64"
definition IO_DEFAULT_ALIGN :: nat where "IO_DEFAULT_ALIGN = 1"

section \<open>Machines\<close>

datatype io_desc_state_e = IO_DESC_ENABLED | IO_DESC_DISABLING | IO_DESC_DISABLED | IO_DESC_STOPPED | IO_DESC_ERROR

record io_desc =
  io_state :: io_desc_state_e
  io_size :: size_t
  io_alloc :: pool
  io_obj :: addr

text \<open>The ring of \<open>fixed-block-buf.c\<close>.\<close>

record fbb_ring =
  fb_size :: size_t
  fb_stored :: size_t
  fb_wp :: addr
  fb_rp :: addr
  fb_block_size :: size_t
  fb_fill :: bool

text \<open>The entry of a handle queue. The list that holds the entries belongs to memex and is opaque.\<close>

record hq_entry =
  hq_pool :: pool
  hq_buf :: addr
  hq_len :: size_t
  hq_tv :: timeval

type_synonym mlist = "nat \<times> hq_entry list"

record hq =
  hq_list :: mlist
  hq_flush :: bool

text \<open>A string in a pool: its address and its characters; \<open>None\<close> is NULL. A \<open>FILE *\<close> is the number of a stream.\<close>

type_synonym cstr = "(addr \<times> string) option"

record file_desc =
  fd_root_dir :: cstr
  fd_base_dir :: cstr
  fd_file_tag :: cstr
  fd_file_ext :: cstr
  fd_timestamp :: string
  fd_date_fmt :: string
  fd_flags :: "32 word"
  fd_basedir_index :: "32 word"
  fd_file_index :: "32 word"
  fd_fr :: "nat option"
  fd_fw :: "nat option"

record fifo_desc =
  ff_fname :: cstr
  ff_flags :: "32 word"
  ff_fr :: "nat option"
  ff_fw :: "nat option"
  ff_f :: int

text \<open>The descriptor of a socket, which is not a machine descriptor.\<close>

datatype sock_type_e = SOCK_TYPE_SERVER | SOCK_TYPE_CLIENT
datatype sock_protocol_e = AF_INET_UDP | AF_INET_TCP

record sock_desc =
  sk_fd :: int
  sk_type :: sock_type_e
  sk_protocol :: sock_protocol_e
  sk_ip :: "32 word"
  sk_port :: "16 word"
  sk_payload_size :: size_t
  sk_handle :: io_handle
  sk_in_use :: "8 word"
  sk_lock :: bool
  sk_io_read :: "io_desc option"
  sk_io_write :: "io_desc option"
  sk_pool :: pool

text \<open>What follows the generic part of a descriptor.\<close>

datatype impl = IMPL_NONE | IMPL_RING ring_t | IMPL_FBB fbb_ring | IMPL_HQ hq | IMPL_FILE file_desc | IMPL_FIFO fifo_desc
  | IMPL_SDR sdr_channel | IMPL_EXT nat

record machine_desc =
  md_handle :: io_handle
  md_machine :: nat
  md_pool :: pool
  md_in_use :: "8 word"
  md_lock :: bool
  md_io_read :: "io_desc option"
  md_io_write :: "io_desc option"
  md_metrics :: "io_metrics option"
  md_impl :: impl

datatype io_creator = CREATE_NOIMPL | CREATE_RB | CREATE_FBB | CREATE_HQ | CREATE_NULL | CREATE_FILE | CREATE_FIFO | CREATE_SOCK | CREATE_SDR | CREATE_EXT nat
datatype io_destroyer = DESTROY_NOIMPL | DESTROY_DESC | DESTROY_NULL | DESTROY_FILE | DESTROY_FIFO | DESTROY_SOCK | DESTROY_SDR | DESTROY_EXT nat
datatype io_locker = LOCK_MACHINE | LOCK_SDR
datatype io_stopper = STOP_MACHINE | STOP_BUFFER | STOP_QUEUE | STOP_DISABLE_READ | STOP_EXT nat

text \<open>The other function pointers of \<open>IOM\<close> hold the functions of \<open>machine.c\<close>; the socket machine has its own \<open>read\<close>
  and \<open>write\<close>, which its clients call directly, and radios their own \<open>write\<close>. \<open>m_lock\<close> stands for the two pointers \<open>lock\<close> and \<open>unlock\<close>,
  which are set together. \<open>m_obj\<close> is the API of a radio.\<close>

record iom =
  m_name :: string
  m_alloc :: pool
  m_create :: io_creator
  m_destroy :: io_destroyer
  m_stop :: io_stopper
  m_lock :: io_locker
  m_obj :: "sdr_api_id option"

record world =
  w_heap :: heap
  w_filters :: "addr \<rightharpoonup> io_filter"
  w_descs :: "machine_desc list"
  w_machines :: "iom list"
  w_machines_ptr :: addr
  w_handle_map :: "(io_handle \<times> nat) list"
  w_handle_map_ptr :: addr
  w_handle_alloc :: nat
  w_handle_counter :: size_t
  w_pool :: "pool option"
  w_rb_machine :: "nat option"
  w_fbb_machine :: "nat option"
  w_hq_machine :: "nat option"
  w_null_machine :: "nat option"
  w_file_machine :: "nat option"
  w_fifo_machine :: "nat option"
  w_socket_machine :: "nat option"
  w_socks :: "sock_desc list"
  w_sock_list_lock :: bool
  w_rtlsdr_machine :: "nat option"
  w_soapy_machine :: "nat option"
  w_lime_machine :: "nat option"
  w_uhd_machine :: "nat option"
  w_b210_machine :: "nat option"
  w_devices :: "sdr_device list"
  w_hw :: nat
  w_turn :: nat
  w_px :: posix
  w_ticks :: nat
  w_signals :: "(io_handle \<times> bool) list"
  w_signals_ptr :: addr
  w_signals_size :: nat
  w_signals_pool :: "pool option"

text \<open>A call of a filter: the filter, the buffer, \<open>*bytes\<close>, blocking, alignment; the result is the
  status, the new \<open>*bytes\<close> and the new state.\<close>

type_synonym filter_call =
  "addr \<Rightarrow> addr \<Rightarrow> size_t \<Rightarrow> io_block_e \<Rightarrow> nat \<Rightarrow> world \<Rightarrow> (io_status \<times> size_t \<times> world) option"

text \<open>The functions of a radio: on a device or on the channel with the given handle. Those
  for gains change a gain model, or store a gain if they succeed (\<open>get_net_gain\<close>).\<close>

type_synonym sdr_rw = "io_handle \<Rightarrow> addr \<Rightarrow> size_t \<Rightarrow> world \<Rightarrow> (io_status \<times> size_t \<times> world) option"
type_synonym sdr_ref = "io_handle \<Rightarrow> world \<Rightarrow> (io_status \<times> world) option"

record sdr_api =
  api_set_vars :: "(pool \<Rightarrow> sdr_arg \<Rightarrow> world \<Rightarrow> world option) option"
  api_device :: "pool \<Rightarrow> sdr_arg \<Rightarrow> world \<Rightarrow> (sdr_device option \<times> world) option"
  api_channel :: "pool \<Rightarrow> sdr_device \<Rightarrow> sdr_arg \<Rightarrow> world \<Rightarrow> (sdr_channel option \<times> world) option"
  api_rx_filter :: "(pool \<Rightarrow> world \<Rightarrow> (addr \<times> world) option) option"
  api_hw_read :: sdr_rw
  api_channel_set :: sdr_ref
  api_channel_reset :: sdr_ref
  api_channel_start :: sdr_ref
  api_destroy_device :: "sdr_device \<Rightarrow> world \<Rightarrow> world option"
  api_destroy_channel :: "io_handle \<Rightarrow> world \<Rightarrow> world option"
  api_init_gain_model :: "(pool \<Rightarrow> world \<Rightarrow> (gain_model \<times> world) option) option"
  api_get_gain_model :: "io_handle \<Rightarrow> gain_model \<Rightarrow> world \<Rightarrow> (int \<times> gain_model \<times> world) option"
  api_set_gain_model :: "io_handle \<Rightarrow> gain_model \<Rightarrow> world \<Rightarrow> (int \<times> world) option"
  api_get_net_gain :: "io_handle \<Rightarrow> world \<Rightarrow> (int \<times> rat option \<times> world) option"
  api_gain_inc :: "gain_model \<Rightarrow> int \<times> gain_model"
  api_gain_dec :: "gain_model \<Rightarrow> int \<times> gain_model"

text \<open>
  The surroundings: the memory functions, \<open>repalloc\<close> and the lists of memex, the clock (the
  n-th call of \<open>gettimeofday\<close>), the system, variables of the environment, the scheduler of the thread
  that reads from a radio (whether it goes next, at the n-th step), the libraries of the radios, the value that a function
  gives which ends without a \<open>return\<close>, and the functions behind \<open>FN_EXT\<close>, which may call the next
  filter, and behind the other numbered function pointers.
\<close>

record sys =
  s_mem :: env
  create_pool :: "heap \<Rightarrow> pool"
  repalloc :: "heap \<Rightarrow> addr \<Rightarrow> size_t \<Rightarrow> pool \<Rightarrow> (addr \<times> heap) option"
  gettimeofday :: "nat \<Rightarrow> timeval"
  s_os :: os
  envex_double :: "string \<Rightarrow> rat \<Rightarrow> rat"
  envex_exists :: "string \<Rightarrow> bool"
  s_sched :: "nat \<Rightarrow> bool"
  s_rtl :: rtl_lib
  s_soapy :: soapy_lib
  s_uhd :: uhd_lib
  no_return :: "world \<Rightarrow> io_status"
  memex_fifo_create :: "pool \<Rightarrow> mlist"
  memex_stack_create :: "pool \<Rightarrow> mlist"
  memex_list_push :: "mlist \<Rightarrow> hq_entry \<Rightarrow> mlist option"
  memex_list_pop :: "mlist \<Rightarrow> (hq_entry option \<times> mlist) option"
  ext_filter :: "nat \<Rightarrow> filter_call \<Rightarrow> filter_call"
  ext_reset :: "nat \<Rightarrow> addr \<Rightarrow> world \<Rightarrow> world option"
  ext_create :: "nat \<Rightarrow> world \<Rightarrow> (io_handle \<times> world) option"
  ext_destroy :: "nat \<Rightarrow> io_handle \<Rightarrow> world \<Rightarrow> world option"
  ext_stop :: "nat \<Rightarrow> io_handle \<Rightarrow> world \<Rightarrow> world option"

section \<open>Access through pointers and handles\<close>

definition get_filter :: "addr \<Rightarrow> world \<Rightarrow> io_filter option" where
  "get_filter a w = (if a = 0 then None else w_filters w a)"

definition upd_filter :: "addr \<Rightarrow> (io_filter \<Rightarrow> io_filter) \<Rightarrow> world \<Rightarrow> world option" where
  "upd_filter a g w = do {
     f \<leftarrow> get_filter a w;
     Some (w\<lparr>w_filters := (w_filters w)(a \<mapsto> g f)\<rparr>)
   }"

definition fnext :: "world \<Rightarrow> addr \<rightharpoonup> addr" where
  "fnext w a = map_option f_next (w_filters w a)"

text \<open>Change the first descriptor with the given handle.\<close>

fun upd_first :: "io_handle \<Rightarrow> (machine_desc \<Rightarrow> machine_desc) \<Rightarrow> machine_desc list \<Rightarrow> machine_desc list" where
  "upd_first h g [] = []"
| "upd_first h g (d # ds) = (if md_handle d = h then g d # ds else d # upd_first h g ds)"

definition upd_desc :: "io_handle \<Rightarrow> (machine_desc \<Rightarrow> machine_desc) \<Rightarrow> world \<Rightarrow> world" where
  "upd_desc h g w = w\<lparr>w_descs := upd_first h g (w_descs w)\<rparr>"

lemma get_filter_Some [simp]: "a \<noteq> 0 \<Longrightarrow> get_filter a w = w_filters w a"
  by (simp add: get_filter_def)

lemma find_upd_first:
  assumes "\<And>d. md_handle (g d) = md_handle d"
  shows "find (\<lambda>d. md_handle d = k) (upd_first h g ds) =
     map_option (if k = h then g else id) (find (\<lambda>d. md_handle d = k) ds)"
  by (induction ds) (auto simp: assms option.map_ident)

lemma upd_first_handles: "(\<And>d. md_handle (g d) = md_handle d) \<Longrightarrow> map md_handle (upd_first h g ds) = map md_handle ds"
  by (induction ds) auto

lemma upd_first_upd_first:
  assumes "\<And>d. md_handle (g d) = md_handle d"
  shows "upd_first h f (upd_first h g ds) = upd_first h (\<lambda>d. f (g d)) ds"
  by (induction ds) (auto simp: assms)

end
