(* ===== verification/Metrics.thy ===== *)
theory Metrics
  imports World
begin

text \<open>
  Model of \<open>src/machine-metrics.c\<close> as far as it keeps state: counting requests and received
  bytes, the periodic update that folds the counters into totals and appends a calculation,
  and the signal through which the timers ask for an update. The texts and
  the timers are in \<open>Reports\<close>.
\<close>

section \<open>Counting\<close>

definition zero_time :: timeval where "zero_time = \<lparr>tv_sec = 0, tv_usec = 0\<rparr>"

definition zero_count :: io_metrics_count where
  "zero_count = \<lparr>mc_count = 0, mc_bytes = 0, mc_total_count = 0, mc_total_bytes = 0\<rparr>"

text \<open>\<open>pcalloc\<close> and the settings of \<open>machine_metrics_create\<close>.\<close>

definition new_metrics :: io_metrics_data where
  "new_metrics = \<lparr>mt_fn = METRICS_INIT, mt_update_signal = False, mt_print_signal = False,
     mt_req = zero_count, mt_rec = zero_count, mt_t_start = zero_time, mt_t_prev = zero_time,
     mt_t_cur = zero_time, mt_t_stop = zero_time, mt_calc = [], mt_n_calc = 0, mt_calc_len = 0\<rparr>"

definition METRIC_CALC_ALLOC :: nat where "METRIC_CALC_ALLOC = 10"

definition TIMEVAL_US :: "timeval \<Rightarrow> rat" where
  "TIMEVAL_US t = dbl (dbl (of_int (tv_sec t * 1000000)) + dbl (of_int (tv_usec t)))"

text \<open>Add the counters of the period to the totals and clear them.\<close>

definition fold_count :: "io_metrics_count \<Rightarrow> io_metrics_count" where
  "fold_count c = \<lparr>mc_count = 0, mc_bytes = 0,
     mc_total_count = sz_add (mc_total_count c) (mc_count c),
     mc_total_bytes = sz_add (mc_total_bytes c) (mc_bytes c)\<rparr>"

definition calc_of :: "io_metrics_data \<Rightarrow> io_metrics_calc" where
  "calc_of m = (let sec = dbl (dbl (TIMEVAL_US (mt_t_cur m) - TIMEVAL_US (mt_t_prev m)) / 1000000);
       req = dbl_of_size (mc_count (mt_req m)); rec = dbl_of_size (mc_count (mt_rec m)) in
     \<lparr>ca_time = mt_t_cur m, ca_elapsed = sec, ca_total_bytes = 0,
      ca_data_rate = cdiv (dbl_of_size (mc_total_bytes (mt_rec m))) sec,
      ca_req_rate = cdiv req sec,
      ca_avg_req_size = cdiv (dbl_of_size (mc_bytes (mt_req m))) req,
      ca_avg_rec_size = cdiv (dbl_of_size (mc_bytes (mt_rec m))) rec,
      ca_utilization = cdiv rec req\<rparr>)"

text \<open>
  \<open>machine_metrics_update\<close>. The array grows by ten entries whenever \<open>n_calc <= calc_len\<close>; the
  entry at \<open>n_calc\<close> is written. Entries that were allocated and not written are left out of
  \<open>mt_calc\<close>, whose length is at most \<open>calc_len\<close>.
\<close>

definition machine_metrics_update :: "io_metrics_data \<Rightarrow> io_metrics_data" where
  "machine_metrics_update m =
     (let len = (if mt_n_calc m \<le> mt_calc_len m then sz_add (mt_calc_len m) METRIC_CALC_ALLOC else mt_calc_len m);
          n = mt_n_calc m;
          calc = (if n < length (mt_calc m) then (mt_calc m)[n := calc_of m] else mt_calc m @ [calc_of m]) in
      m\<lparr>mt_calc_len := len, mt_calc := calc, mt_req := fold_count (mt_req m), mt_rec := fold_count (mt_rec m),
        mt_update_signal := False\<rparr>)"

text \<open>\<open>machine_metrics_update_fn\<close> at time \<open>now\<close>. Printing leaves the metrics as an update does when
  nothing was calculated before, and otherwise alone.\<close>

definition metrics_print_effect :: "io_metrics_data \<Rightarrow> io_metrics_data" where
  "metrics_print_effect m = (if mt_n_calc m = 0 then machine_metrics_update m else m)"

definition machine_metrics_update_fn :: "timeval \<Rightarrow> size_t \<Rightarrow> size_t \<Rightarrow> io_metrics_data \<Rightarrow> io_metrics_data" where
  "machine_metrics_update_fn now req_bytes rec_bytes m =
     (let req = (mt_req m)\<lparr>mc_count := sz_add (mc_count (mt_req m)) 1,
                           mc_bytes := sz_add (mc_bytes (mt_req m)) req_bytes\<rparr>;
          rec = (if rec_bytes > 0 then (mt_rec m)\<lparr>mc_count := sz_add (mc_count (mt_rec m)) 1,
                           mc_bytes := sz_add (mc_bytes (mt_rec m)) rec_bytes\<rparr> else mt_rec m);
          m1 = m\<lparr>mt_req := req, mt_rec := rec, mt_t_prev := mt_t_cur m, mt_t_cur := now, mt_t_stop := now\<rparr>;
          m2 = (if mt_update_signal m1 then machine_metrics_update m1 else m1) in
      if mt_print_signal m2 then metrics_print_effect m2 else m2)"

text \<open>\<open>m->fn(m, req_bytes, rec_bytes)\<close>; the first call goes through \<open>machine_metrics_init\<close>, which
  reads the clock once more. The second component is the number of clock reads.\<close>

definition metrics_fn :: "(nat \<Rightarrow> timeval) \<Rightarrow> nat \<Rightarrow> size_t \<Rightarrow> size_t \<Rightarrow> io_metrics_data \<Rightarrow> io_metrics_data \<times> nat" where
  "metrics_fn clock t req_bytes rec_bytes m = (case mt_fn m of
      METRICS_INIT \<Rightarrow>
        (machine_metrics_update_fn (clock (t + 1)) req_bytes rec_bytes
           (m\<lparr>mt_t_cur := clock t, mt_t_start := clock t, mt_fn := METRICS_UPDATE_FN\<rparr>), t + 2)
    | METRICS_UPDATE_FN \<Rightarrow> (machine_metrics_update_fn (clock t) req_bytes rec_bytes m, t + 1))"

section \<open>Timers\<close>

datatype timer_state_e = MM_TIMER_STOPPED | MM_TIMER_RUNNING

record timer =
  t_ms :: size_t
  t_state :: timer_state_e

definition start_timer :: "size_t \<Rightarrow> timer \<Rightarrow> timer" where
  "start_timer ms t = (if t_state t = MM_TIMER_STOPPED then t\<lparr>t_ms := ms, t_state := MM_TIMER_RUNNING\<rparr> else t)"

text \<open>\<open>stop_timer\<close> acts when the timer is stopped, and only warns when it is running.\<close>

definition stop_timer :: "timer \<Rightarrow> timer" where
  "stop_timer t = (if t_state t = MM_TIMER_STOPPED then t\<lparr>t_state := MM_TIMER_STOPPED\<rparr> else t)"

section \<open>Formatting\<close>

text \<open>The loop of \<open>double_fmt\<close> (\<open>src/bw-util.c\<close>): the value and the power of 1024.\<close>

partial_function (option) double_fmt_loop :: "cdouble \<Rightarrow> nat \<Rightarrow> (cdouble \<times> nat) option" where
  "double_fmt_loop vd f10 = (case vd of
      Fin x \<Rightarrow> if x > 1000 then double_fmt_loop (Fin (dbl (x / 1024))) (f10 + 1) else Some (vd, f10)
    | PInf \<Rightarrow> double_fmt_loop PInf (f10 + 1)
    | NInf \<Rightarrow> Some (vd, f10)
    | NaN \<Rightarrow> Some (vd, f10))"

definition fmt_suffix :: "nat \<Rightarrow> string" where
  "fmt_suffix f10 = (if f10 < 9 then ['''', ''K'', ''M'', ''G'', ''T'', ''P'', ''E'', ''Z'', ''Y''] ! f10 else ''??'')"

end
