(* ===== verification/Machine.thy ===== *)
theory Machine
  imports Metrics
begin

text \<open>
  Model of \<open>src/machine-mgmt.c\<close> (registered machines and handles) and \<open>src/machine.c\<close> (machine
  descriptors). \<open>None\<close> stands for a call that does not return: a NULL pointer is followed, or a
  lock that is held is taken.
\<close>

section \<open>Machines and handles\<close>

text \<open>The 32-bit \<open>int\<close> that a \<open>size_t\<close> is converted to.\<close>

definition to_int32 :: "nat \<Rightarrow> int" where
  "to_int32 n = (int n + 2 ^ 31) mod 2 ^ 32 - 2 ^ 31"

definition MACHINE_CHUNK :: nat where "MACHINE_CHUNK = 0x100"

fun find_index :: "('a \<Rightarrow> bool) \<Rightarrow> 'a list \<Rightarrow> nat option" where
  "find_index P [] = None"
| "find_index P (x # xs) = (if P x then Some 0 else map_option Suc (find_index P xs))"

text \<open>A machine is referred to by its index in the array \<open>machines\<close>.\<close>

definition get_machine :: "string \<Rightarrow> world \<Rightarrow> nat option" where
  "get_machine name w = find_index (\<lambda>m. m_name m = name) (w_machines w)"

definition get_machine_by_handle :: "io_handle \<Rightarrow> world \<Rightarrow> nat option" where
  "get_machine_by_handle handle w = map_option snd (find (\<lambda>hm. fst hm = handle) (w_handle_map w))"

definition get_machine_ref :: "io_handle \<Rightarrow> world \<Rightarrow> nat option" where
  "get_machine_ref handle w = get_machine_by_handle handle w"

definition sizeof_iom :: size_t where "sizeof_iom = 112"
definition sizeof_iom_ptr :: size_t where "sizeof_iom_ptr = 8"
definition sizeof_handle_map :: size_t where "sizeof_handle_map = 16"

definition add_live :: "addr \<Rightarrow> size_t \<Rightarrow> world \<Rightarrow> world" where
  "add_live a n w = w\<lparr>w_heap := (w_heap w)\<lparr>live := (a, n) # live (w_heap w)\<rparr>\<rparr>"

text \<open>\<open>machine_register\<close>: \<open>None\<close> inside the result is the NULL returned for a name that exists.\<close>

definition machine_register :: "sys \<Rightarrow> string \<Rightarrow> world \<Rightarrow> (nat option \<times> world) option" where
  "machine_register S name w = do {
     let p = (case w_pool w of None \<Rightarrow> create_pool S (w_heap w) | Some p \<Rightarrow> p);
     let w1 = w\<lparr>w_pool := Some p\<rparr>;
     (case get_machine name w1 of
        Some _ \<Rightarrow> Some (None, w1)
      | None \<Rightarrow> do {
          a \<leftarrow> pcalloc (s_mem S) (w_heap w1) p sizeof_iom;
          let w2 = add_live a sizeof_iom w1;
          let sub = create_subpool (s_mem S) (w_heap w2) p;
          n \<leftarrow> palloc (s_mem S) (w_heap w2) sub (length name + 1);
          let w3 = add_live n (length name + 1) w2;
          let machine = \<lparr>m_name = name, m_alloc = sub, m_create = CREATE_NOIMPL,
                         m_destroy = DESTROY_NOIMPL, m_stop = STOP_MACHINE, m_lock = LOCK_MACHINE, m_obj = None\<rparr>;
          (t, hp) \<leftarrow> repalloc S (w_heap w3) (w_machines_ptr w3) ((length (w_machines w3) + 1) * sizeof_iom_ptr) p;
          Some (Some (length (w_machines w3)),
            w3\<lparr>w_heap := hp, w_machines := w_machines w3 @ [machine], w_machines_ptr := t\<rparr>)
        })
   }"

text \<open>\<open>request_handle\<close>: the table grows in chunks; the counter is a \<open>size_t\<close>, the handle an \<open>int\<close>.\<close>

definition request_handle :: "sys \<Rightarrow> nat \<Rightarrow> world \<Rightarrow> (io_handle \<times> world) option" where
  "request_handle S machine w = do {
     w1 \<leftarrow> (if w_handle_alloc w = 0 then do {
              p \<leftarrow> w_pool w;
              a \<leftarrow> palloc (s_mem S) (w_heap w) p (MACHINE_CHUNK * sizeof_handle_map);
              Some ((add_live a (MACHINE_CHUNK * sizeof_handle_map) w)\<lparr>w_handle_alloc := MACHINE_CHUNK, w_handle_map_ptr := a\<rparr>)
            } else Some w);
     w2 \<leftarrow> (if length (w_handle_map w1) = w_handle_alloc w1 then do {
              let n = w_handle_alloc w1 + MACHINE_CHUNK;
              p \<leftarrow> w_pool w1;
              (a, hp) \<leftarrow> repalloc S (w_heap w1) (w_handle_map_ptr w1) (n * sizeof_handle_map) p;
              Some (w1\<lparr>w_heap := hp, w_handle_alloc := n, w_handle_map_ptr := a\<rparr>)
            } else Some w1);
     let c = sz_add (w_handle_counter w2) 1;
     Some (to_int32 c, w2\<lparr>w_handle_counter := c, w_handle_map := w_handle_map w2 @ [(to_int32 c, machine)]\<rparr>)
   }"

section \<open>The list of descriptors\<close>

definition machine_get_desc :: "io_handle \<Rightarrow> world \<Rightarrow> machine_desc option" where
  "machine_get_desc h w = find (\<lambda>d. md_handle d = h) (w_descs w)"

text \<open>Set the object of the first filter of an io descriptor, if there is a descriptor.\<close>

definition set_filter_handle :: "io_desc option \<Rightarrow> io_handle \<Rightarrow> world \<Rightarrow> world option" where
  "set_filter_handle io h w = (case io of
      None \<Rightarrow> Some w
    | Some io \<Rightarrow> upd_filter (io_obj io) (f_obj_update (\<lambda>_. OBJ_HANDLE h)) w)"

definition machine_register_desc :: "sys \<Rightarrow> machine_desc \<Rightarrow> world \<Rightarrow> (io_handle \<times> world) option" where
  "machine_register_desc S addme w = do {
     (h, w1) \<leftarrow> request_handle S (md_machine addme) w;
     if h = 0 then Some (0, w1)
     else do {
       w2 \<leftarrow> set_filter_handle (md_io_read addme) h w1;
       w3 \<leftarrow> set_filter_handle (md_io_write addme) h w2;
       Some (h, w3\<lparr>w_descs := w_descs w3 @ [addme\<lparr>md_handle := h\<rparr>]\<rparr>)
     }
   }"

text \<open>\<open>machine_destroy_desc\<close> unlinks the first descriptor with the handle and frees its pool once
  it is not in use; with no other thread a descriptor in use is never released.\<close>

fun remove_first :: "io_handle \<Rightarrow> machine_desc list \<Rightarrow> machine_desc list" where
  "remove_first h [] = []"
| "remove_first h (d # ds) = (if md_handle d = h then ds else d # remove_first h ds)"

definition machine_destroy_desc :: "sys \<Rightarrow> io_handle \<Rightarrow> world \<Rightarrow> world option" where
  "machine_destroy_desc S h w = (case machine_get_desc h w of
      None \<Rightarrow> Some w
    | Some d \<Rightarrow>
        if md_in_use d \<noteq> 0 then None
        else Some (w\<lparr>w_descs := remove_first h (w_descs w),
                     w_heap := free_pool (s_mem S) (md_pool d) (w_heap w)\<rparr>))"

section \<open>Locks and in-use counts\<close>

definition machine_desc_acquire :: "io_handle \<Rightarrow> world \<Rightarrow> world option" where
  "machine_desc_acquire h w = do {
     d \<leftarrow> machine_get_desc h w;
     if md_lock d then None else Some (upd_desc h (\<lambda>d. d\<lparr>md_in_use := md_in_use d + 1\<rparr>) w)
   }"

definition machine_desc_release :: "io_handle \<Rightarrow> world \<Rightarrow> world option" where
  "machine_desc_release h w = do {
     d \<leftarrow> machine_get_desc h w;
     if md_lock d then None else Some (upd_desc h (\<lambda>d. d\<lparr>md_in_use := md_in_use d - 1\<rparr>) w)
   }"

definition machine_lock :: "io_handle \<Rightarrow> world \<Rightarrow> world option" where
  "machine_lock h w = (case machine_get_desc h w of
      None \<Rightarrow> Some w
    | Some d \<Rightarrow> if md_lock d then None else Some (upd_desc h (md_lock_update (\<lambda>_. True)) w))"

definition machine_unlock :: "io_handle \<Rightarrow> world \<Rightarrow> world" where
  "machine_unlock h w = (case machine_get_desc h w of
      None \<Rightarrow> w
    | Some d \<Rightarrow> upd_desc h (md_lock_update (\<lambda>_. False)) w)"

definition machine_get_read_desc :: "io_handle \<Rightarrow> world \<Rightarrow> io_desc option" where
  "machine_get_read_desc h w = (case machine_get_desc h w of None \<Rightarrow> None | Some d \<Rightarrow> md_io_read d)"

definition machine_get_write_desc :: "io_handle \<Rightarrow> world \<Rightarrow> io_desc option" where
  "machine_get_write_desc h w = (case machine_get_desc h w of None \<Rightarrow> None | Some d \<Rightarrow> md_io_write d)"

text \<open>\<open>io_desc_set_state\<close> on the read or the write descriptor of machine \<open>h\<close>; the descriptor must exist.\<close>

definition set_read_state :: "io_handle \<Rightarrow> io_desc_state_e \<Rightarrow> world \<Rightarrow> world" where
  "set_read_state h st w =
     upd_desc h (\<lambda>d. d\<lparr>md_io_read := map_option (io_state_update (\<lambda>_. st)) (md_io_read d)\<rparr>) w"

definition set_write_state :: "io_handle \<Rightarrow> io_desc_state_e \<Rightarrow> world \<Rightarrow> world" where
  "set_write_state h st w =
     upd_desc h (\<lambda>d. d\<lparr>md_io_write := map_option (io_state_update (\<lambda>_. st)) (md_io_write d)\<rparr>) w"

section \<open>Reading and writing\<close>

text \<open>The metrics of one direction after a transfer.\<close>

definition count_out :: "sys \<Rightarrow> io_handle \<Rightarrow> io_status \<Rightarrow> size_t \<Rightarrow> size_t \<Rightarrow> world \<Rightarrow> world" where
  "count_out S h ret in_bytes bytes w = (case machine_get_desc h w of
      None \<Rightarrow> w
    | Some d \<Rightarrow> (case md_metrics d of
        None \<Rightarrow> w
      | Some ms \<Rightarrow>
          let (m, t) = metrics_fn (gettimeofday S) (w_ticks w) in_bytes bytes (ms_out ms);
              m' = (if ret = IO_COMPLETE then machine_metrics_update m else m)
          in (upd_desc h (md_metrics_update (\<lambda>_. Some (ms\<lparr>ms_out := m'\<rparr>))) w)\<lparr>w_ticks := t\<rparr>))"

definition count_in :: "sys \<Rightarrow> io_handle \<Rightarrow> io_status \<Rightarrow> size_t \<Rightarrow> size_t \<Rightarrow> world \<Rightarrow> world" where
  "count_in S h ret in_bytes bytes w = (case machine_get_desc h w of
      None \<Rightarrow> w
    | Some d \<Rightarrow> (case md_metrics d of
        None \<Rightarrow> w
      | Some ms \<Rightarrow>
          let (m, t) = metrics_fn (gettimeofday S) (w_ticks w) in_bytes bytes (ms_in ms);
              m' = (if ret = IO_COMPLETE then machine_metrics_update m else m)
          in (upd_desc h (md_metrics_update (\<lambda>_. Some (ms\<lparr>ms_in := m'\<rparr>))) w)\<lparr>w_ticks := t\<rparr>))"

text \<open>\<open>call\<close> is the call of a filter through its function pointer. A machine in error state is used
  like an enabled one.\<close>

definition machine_desc_read ::
    "sys \<Rightarrow> filter_call \<Rightarrow> io_handle \<Rightarrow> addr \<Rightarrow> size_t \<Rightarrow> world \<Rightarrow> (io_status \<times> size_t \<times> world) option" where
  "machine_desc_read S call h buf bytes w = (case machine_get_desc h w of
      None \<Rightarrow> Some (IO_ERROR, bytes, w)
    | Some d \<Rightarrow> (case md_io_read d of
        None \<Rightarrow> Some (IO_ERROR, bytes, w)
      | Some io \<Rightarrow>
          if io_obj io = 0 then Some (IO_ERROR, bytes, w)
          else (case io_state io of
              IO_DESC_DISABLING \<Rightarrow> Some (IO_SUCCESS, 0, set_read_state h IO_DESC_DISABLED w)
            | IO_DESC_DISABLED \<Rightarrow> Some (IO_SUCCESS, 0, w)
            | IO_DESC_STOPPED \<Rightarrow> Some (IO_COMPLETE, 0, w)
            | _ \<Rightarrow> do {
                w1 \<leftarrow> machine_desc_acquire h w;
                (ret, n, w2) \<leftarrow> call (io_obj io) buf bytes IO_NO_BLOCK IO_DEFAULT_ALIGN w1;
                w3 \<leftarrow> machine_desc_release h (count_out S h ret bytes n w2);
                Some (ret, n, w3)
              })))"

definition machine_desc_write ::
    "sys \<Rightarrow> filter_call \<Rightarrow> io_handle \<Rightarrow> addr \<Rightarrow> size_t \<Rightarrow> world \<Rightarrow> (io_status \<times> size_t \<times> world) option" where
  "machine_desc_write S call h buf bytes w = (case machine_get_desc h w of
      None \<Rightarrow> Some (IO_ERROR, bytes, w)
    | Some d \<Rightarrow> (case md_io_write d of
        None \<Rightarrow> Some (IO_ERROR, bytes, w)
      | Some io \<Rightarrow>
          if io_obj io = 0 then Some (IO_ERROR, bytes, w)
          else (case io_state io of
              IO_DESC_DISABLING \<Rightarrow> Some (IO_SUCCESS, 0, set_write_state h IO_DESC_DISABLED w)
            | IO_DESC_DISABLED \<Rightarrow> Some (IO_SUCCESS, 0, w)
            | IO_DESC_STOPPED \<Rightarrow> Some (IO_COMPLETE, 0, w)
            | _ \<Rightarrow> do {
                w1 \<leftarrow> machine_desc_acquire h w;
                (ret, n, w2) \<leftarrow> call (io_obj io) buf bytes IO_NO_BLOCK IO_DEFAULT_ALIGN w1;
                w3 \<leftarrow> machine_desc_release h (count_in S h ret bytes n w2);
                Some (ret, n, w3)
              })))"

section \<open>Disabling, stopping, settings\<close>

definition update_out_metrics :: "machine_desc \<Rightarrow> machine_desc" where
  "update_out_metrics d = d\<lparr>md_metrics := map_option (ms_out_update machine_metrics_update) (md_metrics d)\<rparr>"

definition update_in_metrics :: "machine_desc \<Rightarrow> machine_desc" where
  "update_in_metrics d = d\<lparr>md_metrics := map_option (ms_in_update machine_metrics_update) (md_metrics d)\<rparr>"

text \<open>\<open>machine_disable_read\<close> tests the write descriptor and then follows the read descriptor.\<close>

definition machine_disable_read :: "io_handle \<Rightarrow> world \<Rightarrow> world option" where
  "machine_disable_read h w = (case machine_get_desc h w of
      None \<Rightarrow> Some w
    | Some d \<Rightarrow> (case md_io_write d of
        None \<Rightarrow> Some w
      | Some _ \<Rightarrow> (case md_io_read d of
          None \<Rightarrow> None
        | Some _ \<Rightarrow> Some (upd_desc h update_out_metrics (set_read_state h IO_DESC_DISABLING w)))))"

definition machine_disable_write :: "io_handle \<Rightarrow> world \<Rightarrow> world" where
  "machine_disable_write h w = (case machine_get_desc h w of
      None \<Rightarrow> w
    | Some d \<Rightarrow> (case md_io_write d of
        None \<Rightarrow> w
      | Some _ \<Rightarrow> upd_desc h update_in_metrics (set_write_state h IO_DESC_DISABLING w)))"

definition machine_stop :: "io_handle \<Rightarrow> world \<Rightarrow> world" where
  "machine_stop h w = (case machine_get_desc h w of
      None \<Rightarrow> w
    | Some d \<Rightarrow> set_read_state h IO_DESC_DISABLING (set_write_state h IO_DESC_DISABLING w))"

definition sizeof_io_desc :: size_t where "sizeof_io_desc = 80"

text \<open>\<open>machine_desc_init\<close> on the descriptor \<open>d\<close> at hand: the status, the descriptor and the state.\<close>

definition machine_desc_init ::
    "sys \<Rightarrow> pool \<Rightarrow> nat \<Rightarrow> machine_desc \<Rightarrow> world \<Rightarrow> io_status \<times> machine_desc \<times> world" where
  "machine_desc_init S p machine d w =
     (let d1 = d\<lparr>md_lock := False, md_pool := p\<rparr>; io = \<lparr>io_state = IO_DESC_ENABLED, io_size = 0, io_alloc = p, io_obj = 0\<rparr> in
      case pcalloc (s_mem S) (w_heap w) p sizeof_io_desc of
        None \<Rightarrow> (IO_ERROR, d1\<lparr>md_io_read := None\<rparr>, w)
      | Some a \<Rightarrow>
          let w1 = add_live a sizeof_io_desc w; d2 = d1\<lparr>md_io_read := Some io\<rparr> in
          case pcalloc (s_mem S) (w_heap w1) p sizeof_io_desc of
            None \<Rightarrow> (IO_ERROR, d2\<lparr>md_io_write := None\<rparr>, w1)
          | Some a' \<Rightarrow>
              (IO_SUCCESS, d2\<lparr>md_io_write := Some io, md_handle := 0, md_machine := machine\<rparr>,
               add_live a' sizeof_io_desc w1))"

definition machine_desc_set_write_size :: "io_handle \<Rightarrow> size_t \<Rightarrow> world \<Rightarrow> world option" where
  "machine_desc_set_write_size h len w = (case machine_get_desc h w of
      None \<Rightarrow> Some w
    | Some d \<Rightarrow> (case md_io_write d of
        None \<Rightarrow> None
      | Some io \<Rightarrow> Some (upd_desc h (md_io_write_update (\<lambda>_. Some (io\<lparr>io_size := len\<rparr>))) w)))"

definition machine_desc_set_read_size :: "io_handle \<Rightarrow> size_t \<Rightarrow> world \<Rightarrow> world option" where
  "machine_desc_set_read_size h len w = (case machine_get_desc h w of
      None \<Rightarrow> Some w
    | Some d \<Rightarrow> (case md_io_read d of
        None \<Rightarrow> None
      | Some io \<Rightarrow> Some (upd_desc h (md_io_read_update (\<lambda>_. Some (io\<lparr>io_size := len\<rparr>))) w)))"

definition machine_metrics :: "io_handle \<Rightarrow> world \<Rightarrow> io_metrics option" where
  "machine_metrics h w = (case machine_get_desc h w of None \<Rightarrow> None | Some d \<Rightarrow> md_metrics d)"

definition sizeof_io_metrics :: size_t where "sizeof_io_metrics = 464"

text \<open>\<open>track_new_metric\<close> remembers the address of an update signal, named here by the machine's handle and
  the direction (true for the output). The table has room for \<open>w_signals_size\<close> addresses.\<close>

definition sizeof_signal_ptr :: size_t where "sizeof_signal_ptr = 8"

definition track_new_metric :: "sys \<Rightarrow> io_handle \<Rightarrow> bool \<Rightarrow> world \<Rightarrow> world option" where
  "track_new_metric S h dir w = do {
     let p = (case w_signals_pool w of None \<Rightarrow> create_pool S (w_heap w) | Some p \<Rightarrow> p);
     let w1 = w\<lparr>w_signals_pool := Some p\<rparr>;
     w2 \<leftarrow> (if length (w_signals w1) \<ge> w_signals_size w1 then do {
              let n = w_signals_size w1 + 10;
              (a, hp) \<leftarrow> repalloc S (w_heap w1) (w_signals_ptr w1) (n * sizeof_signal_ptr) p;
              Some (w1\<lparr>w_heap := hp, w_signals_size := n, w_signals_ptr := a\<rparr>)
            } else Some w1);
     Some (w2\<lparr>w_signals := w_signals w2 @ [(h, dir)]\<rparr>)
   }"

text \<open>\<open>machine_metrics_create\<close> for machine \<open>h\<close>.\<close>

definition machine_metrics_create :: "sys \<Rightarrow> pool \<Rightarrow> io_handle \<Rightarrow> world \<Rightarrow> (io_metrics \<times> world) option" where
  "machine_metrics_create S p h w = do {
     a \<leftarrow> pcalloc (s_mem S) (w_heap w) p sizeof_io_metrics;
     w1 \<leftarrow> track_new_metric S h False (add_live a sizeof_io_metrics w);
     w2 \<leftarrow> track_new_metric S h True w1;
     Some (\<lparr>ms_in = new_metrics, ms_out = new_metrics\<rparr>, w2)
   }"

definition machine_metrics_enable :: "sys \<Rightarrow> io_handle \<Rightarrow> world \<Rightarrow> world option" where
  "machine_metrics_enable S h w =
     (if h = 0 then Some w
      else case machine_get_desc h w of
        None \<Rightarrow> Some w
      | Some d \<Rightarrow>
          if md_lock d then None
          else (case md_metrics d of
              Some _ \<Rightarrow> Some w
            | None \<Rightarrow> do {
                (ms, w1) \<leftarrow> machine_metrics_create S (md_pool d) h w;
                Some (upd_desc h (md_metrics_update (\<lambda>_. Some ms)) w1)
              }))"

text \<open>The callback of both timers raises every remembered update signal. The signal of a machine
  that was destroyed lies in freed memory.\<close>

fun raise_signals :: "(io_handle \<times> bool) list \<Rightarrow> world \<Rightarrow> world option" where
  "raise_signals [] w = Some w"
| "raise_signals ((h, out) # ss) w = (case machine_get_desc h w of
      None \<Rightarrow> None
    | Some d \<Rightarrow> raise_signals ss (upd_desc h (\<lambda>d. d\<lparr>md_metrics := map_option (\<lambda>ms.
        if out then ms\<lparr>ms_out := (ms_out ms)\<lparr>mt_update_signal := True\<rparr>\<rparr>
        else ms\<lparr>ms_in := (ms_in ms)\<lparr>mt_update_signal := True\<rparr>\<rparr>) (md_metrics d)\<rparr>) w))"

definition machine_metrics_update_callback :: "world \<Rightarrow> world option" where
  "machine_metrics_update_callback w = raise_signals (w_signals w) w"

end
