(* ===== verification/Locks.thy ===== *)
theory Locks
  imports Machine
begin

text \<open>
  The locks of machines: \<open>machine_lock\<close> of \<open>src/machine-mgmt.c\<close>, or for radios \<open>sdr_lock\<close> of \<open>src/sdr/sdr-rx-machine.c\<close>, which looks for the
  channel among those of its own devices. \<open>src/filter.c\<close> calls them through the pointers of the machine.
\<close>

section \<open>The channels of the radios\<close>

text \<open>The descriptor of the channel at an address; there is none once the channel was destroyed.\<close>

definition channel_at :: "addr \<Rightarrow> world \<Rightarrow> machine_desc option" where
  "channel_at p w = find (\<lambda>d. case md_impl d of IMPL_SDR c \<Rightarrow> sc_ptr c = p | _ \<Rightarrow> False) (w_descs w)"

text \<open>\<open>get_channel\<close>: the loop over the channels of a device, and over the devices.\<close>

fun find_channel :: "addr list \<Rightarrow> io_handle \<Rightarrow> world \<Rightarrow> bool option" where
  "find_channel [] h w = Some False"
| "find_channel (p # ps) h w = do {
     d \<leftarrow> channel_at p w;
     if md_handle d = h then Some True else find_channel ps h w
   }"

fun get_channel_loop :: "sdr_device list \<Rightarrow> io_handle \<Rightarrow> world \<Rightarrow> bool option" where
  "get_channel_loop [] h w = Some False"
| "get_channel_loop (d # ds) h w = do {
     found \<leftarrow> find_channel (sd_channels d) h w;
     if found then Some True else get_channel_loop ds h w
   }"

text \<open>Whether there is a channel with the handle; it is then the machine descriptor with that handle.\<close>

definition get_channel :: "io_handle \<Rightarrow> world \<Rightarrow> bool option" where
  "get_channel h w = get_channel_loop (w_devices w) h w"

section \<open>Locks\<close>

definition sdr_lock :: "io_handle \<Rightarrow> world \<Rightarrow> world option" where
  "sdr_lock h w = do {
     found \<leftarrow> get_channel h w;
     if \<not> found then Some w else machine_lock h w
   }"

definition sdr_unlock :: "io_handle \<Rightarrow> world \<Rightarrow> world option" where
  "sdr_unlock h w = do {
     found \<leftarrow> get_channel h w;
     if \<not> found then Some w else Some (machine_unlock h w)
   }"

text \<open>\<open>machine->lock (h)\<close> and \<open>machine->unlock (h)\<close>.\<close>

definition iom_lock :: "nat \<Rightarrow> io_handle \<Rightarrow> world \<Rightarrow> world option" where
  "iom_lock machine h w =
     (if machine < length (w_machines w)
      then (case m_lock (w_machines w ! machine) of LOCK_MACHINE \<Rightarrow> machine_lock h w | LOCK_SDR \<Rightarrow> sdr_lock h w)
      else None)"

definition iom_unlock :: "nat \<Rightarrow> io_handle \<Rightarrow> world \<Rightarrow> world option" where
  "iom_unlock machine h w =
     (if machine < length (w_machines w)
      then (case m_lock (w_machines w ! machine) of LOCK_MACHINE \<Rightarrow> Some (machine_unlock h w) | LOCK_SDR \<Rightarrow> sdr_unlock h w)
      else None)"

end
