(* ===== verification/Filter_Chain.thy ===== *)
theory Filter_Chain
  imports Locks
begin

text \<open>
  Model of \<open>src/filter.c\<close>: filters, the chains that machines hang their input and output on,
  and the feedback loop. A filter calls the next one through \<open>call\<close>, the call of a filter by
  its function pointer.
\<close>

section \<open>Filters\<close>

definition sizeof_filter :: size_t where "sizeof_filter = 112"

text \<open>\<open>create_filter\<close> stores through the result of \<open>pcalloc\<close> without testing it. \<open>strncpy\<close> keeps
  the first 64 characters of the name.\<close>

definition create_filter :: "sys \<Rightarrow> pool \<Rightarrow> string \<Rightarrow> io_filter_fn \<Rightarrow> world \<Rightarrow> (addr \<times> world) option" where
  "create_filter S p name fn w = do {
     let fpool = create_subpool (s_mem S) (w_heap w) p;
     a \<leftarrow> pcalloc (s_mem S) (w_heap w) p sizeof_filter;
     let f = \<lparr>f_enabled = True, f_direction = IOF_BIDIRECTIONAL, f_name = take IO_MAX_NAME_LEN name,
              f_alloc = fpool, f_obj = OBJ_NULL, f_next = 0, f_call = fn, f_reset = None\<rparr>;
     Some (a, (add_live a sizeof_filter w)\<lparr>w_filters := (w_filters w)(a \<mapsto> f)\<rparr>)
   }"

text \<open>The first filter of the chain with the name, 0 if there is none.\<close>

partial_function (option) find_filter :: "addr \<Rightarrow> string \<Rightarrow> world \<Rightarrow> addr option" where
  "find_filter flt name w =
     (if flt = 0 then Some 0
      else do {
        f \<leftarrow> get_filter flt w;
        if f_name f = name then Some flt else find_filter (f_next f) name w
      })"

definition get_io_filter :: "addr \<Rightarrow> string option \<Rightarrow> world \<Rightarrow> addr option" where
  "get_io_filter flt name w = (case name of None \<Rightarrow> Some 0 | Some n \<Rightarrow> find_filter flt n w)"

definition set_enabled :: "bool \<Rightarrow> addr \<Rightarrow> string option \<Rightarrow> world \<Rightarrow> world option" where
  "set_enabled e flt name w = do {
     f \<leftarrow> (case name of None \<Rightarrow> Some flt | Some _ \<Rightarrow> get_io_filter flt name w);
     if f = 0 then Some w else upd_filter f (f_enabled_update (\<lambda>_. e)) w
   }"

definition io_filter_disable :: "addr \<Rightarrow> string option \<Rightarrow> world \<Rightarrow> world option" where
  "io_filter_disable flt name w = set_enabled False flt name w"

definition io_filter_enable :: "addr \<Rightarrow> string option \<Rightarrow> world \<Rightarrow> world option" where
  "io_filter_enable flt name w = set_enabled True flt name w"

section \<open>Chains\<close>

text \<open>\<open>io->obj = f\<close> for the read or the write descriptor of machine \<open>h\<close>.\<close>

definition set_read_obj :: "io_handle \<Rightarrow> addr \<Rightarrow> world \<Rightarrow> world" where
  "set_read_obj h a w = upd_desc h (\<lambda>d. d\<lparr>md_io_read := map_option (io_obj_update (\<lambda>_. a)) (md_io_read d)\<rparr>) w"

definition set_write_obj :: "io_handle \<Rightarrow> addr \<Rightarrow> world \<Rightarrow> world" where
  "set_write_obj h a w = upd_desc h (\<lambda>d. d\<lparr>md_io_write := map_option (io_obj_update (\<lambda>_. a)) (md_io_write d)\<rparr>) w"

definition register_read_filter :: "sys \<Rightarrow> io_handle \<Rightarrow> io_filter_fn \<Rightarrow> string \<Rightarrow> world \<Rightarrow> world option" where
  "register_read_filter S h fn name w = do {
     machine \<leftarrow> get_machine_ref h w;
     w1 \<leftarrow> iom_lock machine h w;
     io \<leftarrow> machine_get_read_desc h w1;
     (new, w2) \<leftarrow> create_filter S (io_alloc io) name fn w1;
     w3 \<leftarrow> upd_filter new (\<lambda>f. f\<lparr>f_direction := IOF_READ, f_next := io_obj io\<rparr>) w2;
     iom_unlock machine h (set_read_obj h new w3)
   }"

definition register_write_filter :: "sys \<Rightarrow> io_handle \<Rightarrow> io_filter_fn \<Rightarrow> string \<Rightarrow> world \<Rightarrow> world option" where
  "register_write_filter S h fn name w = do {
     machine \<leftarrow> get_machine_ref h w;
     w1 \<leftarrow> iom_lock machine h w;
     io \<leftarrow> machine_get_write_desc h w1;
     (new, w2) \<leftarrow> create_filter S (io_alloc io) name fn w1;
     w3 \<leftarrow> upd_filter new (\<lambda>f. f\<lparr>f_direction := IOF_WRITE, f_next := io_obj io\<rparr>) w2;
     iom_unlock machine h (set_write_obj h new w3)
   }"

text \<open>Walk to the end of a chain, setting the direction of every filter but the last.\<close>

partial_function (option) chain_end :: "io_filter_direction \<Rightarrow> addr \<Rightarrow> world \<Rightarrow> (addr \<times> world) option" where
  "chain_end dir f w = do {
     fl \<leftarrow> get_filter f w;
     if f_next fl \<noteq> 0 then do {
       w' \<leftarrow> upd_filter f (f_direction_update (\<lambda>_. dir)) w;
       chain_end dir (f_next fl) w'
     } else Some (f, w)
   }"

definition add_read_filter :: "io_handle \<Rightarrow> addr \<Rightarrow> world \<Rightarrow> world option" where
  "add_read_filter h addme w = do {
     (f, w1) \<leftarrow> chain_end IOF_READ addme w;
     w2 \<leftarrow> upd_filter addme (f_direction_update (\<lambda>_. IOF_READ)) w1;
     machine \<leftarrow> get_machine_ref h w2;
     w3 \<leftarrow> iom_lock machine h w2;
     io \<leftarrow> machine_get_read_desc h w3;
     w4 \<leftarrow> upd_filter f (f_next_update (\<lambda>_. io_obj io)) w3;
     iom_unlock machine h (set_read_obj h addme w4)
   }"

definition add_write_filter :: "io_handle \<Rightarrow> addr \<Rightarrow> world \<Rightarrow> world option" where
  "add_write_filter h addme w = do {
     (f, w1) \<leftarrow> chain_end IOF_WRITE addme w;
     w2 \<leftarrow> upd_filter addme (f_direction_update (\<lambda>_. IOF_WRITE)) w1;
     machine \<leftarrow> get_machine_ref h w2;
     w3 \<leftarrow> iom_lock machine h w2;
     io \<leftarrow> machine_get_write_desc h w3;
     w4 \<leftarrow> upd_filter f (f_next_update (\<lambda>_. io_obj io)) w3;
     iom_unlock machine h (set_write_obj h addme w4)
   }"

definition filter_read_init ::
    "sys \<Rightarrow> pool \<Rightarrow> string \<Rightarrow> io_filter_fn \<Rightarrow> machine_desc \<Rightarrow> world \<Rightarrow> (addr \<times> machine_desc \<times> world) option" where
  "filter_read_init S p name fn d w = (case md_io_read d of
      None \<Rightarrow> Some (0, d, w)
    | Some io \<Rightarrow> do {
        (flt, w1) \<leftarrow> create_filter S p name fn w;
        Some (flt, d\<lparr>md_io_read := Some (io\<lparr>io_obj := flt\<rparr>)\<rparr>, w1)
      })"

definition filter_write_init ::
    "sys \<Rightarrow> pool \<Rightarrow> string \<Rightarrow> io_filter_fn \<Rightarrow> machine_desc \<Rightarrow> world \<Rightarrow> (addr \<times> machine_desc \<times> world) option" where
  "filter_write_init S p name fn d w = (case md_io_write d of
      None \<Rightarrow> Some (0, d, w)
    | Some io \<Rightarrow> do {
        (flt, w1) \<leftarrow> create_filter S p name fn w;
        Some (flt, d\<lparr>md_io_write := Some (io\<lparr>io_obj := flt\<rparr>)\<rparr>, w1)
      })"

text \<open>\<open>strncmp\<close> compares the first 64 characters.\<close>

partial_function (option) find_filter_n :: "addr \<Rightarrow> string \<Rightarrow> world \<Rightarrow> addr option" where
  "find_filter_n flt name w =
     (if flt = 0 then Some 0
      else do {
        f \<leftarrow> get_filter flt w;
        if take IO_MAX_NAME_LEN (f_name f) = take IO_MAX_NAME_LEN name then Some flt
        else find_filter_n (f_next f) name w
      })"

definition filter_get_read_filter :: "io_handle \<Rightarrow> string \<Rightarrow> world \<Rightarrow> addr option" where
  "filter_get_read_filter h name w = do {
     machine \<leftarrow> get_machine_ref h w;
     io \<leftarrow> machine_get_read_desc h w;
     find_filter_n (io_obj io) name w
   }"

definition filter_get_write_filter :: "io_handle \<Rightarrow> string \<Rightarrow> world \<Rightarrow> addr option" where
  "filter_get_write_filter h name w = do {
     machine \<leftarrow> get_machine_ref h w;
     io \<leftarrow> machine_get_write_desc h w;
     find_filter_n (io_obj io) name w
   }"

section \<open>Feedback\<close>

definition feedback_metric_fn :: "filter_call \<Rightarrow> filter_call" where
  "feedback_metric_fn call a buf bytes block align w = do {
     f \<leftarrow> get_filter a w;
     (case f_obj f of
        OBJ_FILTER metric \<Rightarrow> do {
          (ret, n, w1) \<leftarrow> call metric buf bytes block align w;
          if ret = IO_SUCCESS then call (f_next f) buf n block align w1 else Some (ret, n, w1)
        }
      | _ \<Rightarrow> None)
   }"

text \<open>The loop copies the caller's bytes into the controller's buffer and calls the next filter, as
  long as that answers \<open>IO_CONTINUE\<close>.\<close>

partial_function (option) feedback_loop ::
    "(addr \<Rightarrow> size_t \<Rightarrow> world \<Rightarrow> (io_status \<times> size_t \<times> world) option) \<Rightarrow> addr \<Rightarrow> addr \<Rightarrow> size_t \<Rightarrow> world
       \<Rightarrow> (io_status \<times> size_t \<times> world) option" where
  "feedback_loop nextc filter_buf caller_buf caller_bytes w = do {
     let w1 = w\<lparr>w_heap := (w_heap w)\<lparr>mem := mem_copy (mem (w_heap w)) filter_buf caller_buf caller_bytes\<rparr>\<rparr>;
     (ret, n, w2) \<leftarrow> nextc filter_buf caller_bytes w1;
     if ret = IO_CONTINUE then feedback_loop nextc filter_buf caller_buf caller_bytes w2
     else Some (ret, n, w2)
   }"

definition feedback_controller_fn :: "sys \<Rightarrow> filter_call \<Rightarrow> filter_call" where
  "feedback_controller_fn S call a buf bytes block align w = do {
     f \<leftarrow> get_filter a w;
     (case f_obj f of
        OBJ_FB fb \<Rightarrow>
          if f_direction f = IOF_READ then Some (IO_ERROR, 0, w)
          else do {
            (fb1, w1) \<leftarrow> (if fc_bytes fb < bytes then do {
                 (nb, hp) \<leftarrow> repalloc S (w_heap w) (fc_filter_buf fb) bytes (f_alloc f);
                 let fb1 = fb\<lparr>fc_filter_buf := nb\<rparr>;
                 w1 \<leftarrow> upd_filter a (f_obj_update (\<lambda>_. OBJ_FB fb1)) (w\<lparr>w_heap := hp\<rparr>);
                 Some (fb1, w1)
               } else Some (fb, w));
            (ret, n, w2) \<leftarrow> feedback_loop (\<lambda>b n. call (f_next f) b n block align) (fc_filter_buf fb1) buf bytes w1;
            r \<leftarrow> fc_reset_fn fb1;
            w3 \<leftarrow> ext_reset S r (fc_reset_arg fb1) w2;
            Some (if ret = IO_BREAK then IO_SUCCESS else ret, n, w3)
          }
      | _ \<Rightarrow> None)
   }"

definition sizeof_fb_ctl :: size_t where "sizeof_fb_ctl = 32"

text \<open>\<open>ctl->reset_arg\<close> is the object of the metric filter, named by the filter's address.\<close>

definition add_feedback_controller ::
    "sys \<Rightarrow> pool \<Rightarrow> addr \<Rightarrow> addr \<Rightarrow> addr \<Rightarrow> world \<Rightarrow> (addr \<times> world) option" where
  "add_feedback_controller S alloc head feedback metric w = do {
     (fc, w1) \<leftarrow> create_filter S alloc ''feedback_controller'' FN_FEEDBACK_CONTROLLER w;
     c \<leftarrow> palloc (s_mem S) (w_heap w1) alloc sizeof_fb_ctl;
     let w2 = add_live c sizeof_fb_ctl w1;
     m \<leftarrow> get_filter metric w2;
     w3 \<leftarrow> upd_filter fc (f_obj_update (\<lambda>_. OBJ_FB \<lparr>fc_filter_buf = 0, fc_bytes = 0,
             fc_reset_fn = f_reset m, fc_reset_arg = metric\<rparr>)) w2;
     (fm, w4) \<leftarrow> create_filter S alloc ''feedback_metric'' FN_FEEDBACK_METRIC w3;
     w5 \<leftarrow> upd_filter fm (f_obj_update (\<lambda>_. OBJ_FILTER metric)) w4;
     fb \<leftarrow> get_filter feedback w5;
     w6 \<leftarrow> upd_filter fm (f_next_update (\<lambda>_. f_next fb)) w5;
     w7 \<leftarrow> upd_filter feedback (f_next_update (\<lambda>_. fm)) w6;
     w8 \<leftarrow> upd_filter fc (f_next_update (\<lambda>_. head)) w7;
     Some (fc, w8)
   }"

text \<open>Is \<open>feedback\<close> one of the filters of the chain?\<close>

partial_function (option) chain_has :: "addr \<Rightarrow> addr \<Rightarrow> world \<Rightarrow> bool option" where
  "chain_has f feedback w =
     (if f = 0 then Some False
      else if f = feedback then Some True
      else do { fl \<leftarrow> get_filter f w; chain_has (f_next fl) feedback w })"

text \<open>If the feedback filter is not found, the function returns with the machine's lock held.\<close>

definition add_feedback_write_filter :: "sys \<Rightarrow> io_handle \<Rightarrow> addr \<Rightarrow> addr \<Rightarrow> addr \<Rightarrow> world \<Rightarrow> world option" where
  "add_feedback_write_filter S h addme feedback feedback_metric w = do {
     machine \<leftarrow> get_machine_ref h w;
     w1 \<leftarrow> iom_lock machine h w;
     io \<leftarrow> machine_get_write_desc h w1;
     found \<leftarrow> chain_has (io_obj io) feedback w1;
     if \<not> found then Some w1
     else do {
       (f, w2) \<leftarrow> chain_end IOF_WRITE addme w1;
       w3 \<leftarrow> upd_filter addme (f_direction_update (\<lambda>_. IOF_WRITE)) w2;
       w4 \<leftarrow> upd_filter f (f_next_update (\<lambda>_. io_obj io)) w3;
       (fbc, w5) \<leftarrow> add_feedback_controller S (io_alloc io) addme feedback feedback_metric w4;
       iom_unlock machine h (set_write_obj h fbc w5)
     }
   }"

end
