(* ===== verification/Simple_Filters.thy ===== *)
theory Simple_Filters
  imports Filter_Chain
begin

text \<open>
  Model of \<open>src/filter/filters.c\<close>: the filters that limit or count the bytes that pass, and the
  time limit. The counters live in the filter's object.
\<close>

text \<open>\<open>IOF_DISABLED()\<close>: a disabled filter passes the call on.\<close>

definition unless_disabled :: "filter_call \<Rightarrow> (io_filter \<Rightarrow> filter_call) \<Rightarrow> filter_call" where
  "unless_disabled call body a buf bytes block align w = do {
     f \<leftarrow> get_filter a w;
     if \<not> f_enabled f then call (f_next f) buf bytes block align w
     else body f a buf bytes block align w
   }"

definition get_counter :: "addr \<Rightarrow> world \<Rightarrow> generic_counter option" where
  "get_counter a w = do {
     f \<leftarrow> get_filter a w;
     (case f_obj f of OBJ_COUNTER c \<Rightarrow> Some c | _ \<Rightarrow> None)
   }"

definition set_counter :: "addr \<Rightarrow> generic_counter \<Rightarrow> world \<Rightarrow> world option" where
  "set_counter a c w = upd_filter a (f_obj_update (\<lambda>_. OBJ_COUNTER c)) w"

text \<open>The test that ends \<open>byte_count_limiter\<close>.\<close>

definition limiter_end :: "addr \<Rightarrow> size_t \<Rightarrow> world \<Rightarrow> (io_status \<times> size_t \<times> world) option" where
  "limiter_end a n w = do {
     c \<leftarrow> get_counter a w;
     Some (if gc_total c \<ge> gc_limit c then IO_COMPLETE else IO_SUCCESS, n, w)
   }"

text \<open>The number of bytes that the limit still allows, and the counter after they are counted.\<close>

definition limiter_count :: "generic_counter \<Rightarrow> size_t \<Rightarrow> size_t \<times> generic_counter" where
  "limiter_count c bytes =
     (if sz_add (gc_total c) bytes \<le> gc_limit c then (bytes, c\<lparr>gc_total := sz_add (gc_total c) bytes\<rparr>)
      else let rest = sz_sub (gc_limit c) (gc_total c) in (rest, c\<lparr>gc_total := sz_add (gc_total c) rest\<rparr>))"

definition byte_count_limiter :: "filter_call \<Rightarrow> filter_call" where
  "byte_count_limiter call = unless_disabled call (\<lambda>f a buf bytes block align w.
     if f_direction f = IOF_READ then do {
       (ret, n, w1) \<leftarrow> call (f_next f) buf bytes block align w;
       if ret \<noteq> IO_SUCCESS then Some (ret, n, w1)
       else do {
         c \<leftarrow> get_counter a w1;
         w2 \<leftarrow> set_counter a (snd (limiter_count c n)) w1;
         limiter_end a n w2
       }
     } else do {
       c \<leftarrow> get_counter a w;
       let (m, c') = limiter_count c bytes;
       w1 \<leftarrow> set_counter a c' w;
       if f_direction f = IOF_WRITE then do {
         (ret, n, w2) \<leftarrow> call (f_next f) buf m block align w1;
         if ret \<noteq> IO_SUCCESS then Some (ret, n, w2) else limiter_end a n w2
       } else limiter_end a bytes w1
     })"

definition sizeof_counter :: size_t where "sizeof_counter = 24"

text \<open>The limiter never reads \<open>period\<close>, which is left as the allocator provides it.\<close>

definition create_byte_count_limit_filter ::
    "sys \<Rightarrow> pool \<Rightarrow> string \<Rightarrow> size_t \<Rightarrow> size_t \<Rightarrow> world \<Rightarrow> (addr \<times> world) option" where
  "create_byte_count_limit_filter S p name byte_limit garbage w = do {
     (f, w1) \<leftarrow> create_filter S p name FN_BYTE_COUNT_LIMITER w;
     a \<leftarrow> palloc (s_mem S) (w_heap w1) p sizeof_counter;
     w2 \<leftarrow> upd_filter f (f_obj_update (\<lambda>_. OBJ_COUNTER \<lparr>gc_total = 0, gc_limit = byte_limit, gc_period = garbage\<rparr>))
            (add_live a sizeof_counter w1);
     Some (f, w2)
   }"

definition get_time :: "addr \<Rightarrow> world \<Rightarrow> time_limit option" where
  "get_time a w = do {
     f \<leftarrow> get_filter a w;
     (case f_obj f of OBJ_TIME t \<Rightarrow> Some t | _ \<Rightarrow> None)
   }"

text \<open>The timer thread ends by setting the state; \<open>run_timer_done\<close> is that step.\<close>

definition run_timer_done :: "addr \<Rightarrow> world \<Rightarrow> world option" where
  "run_timer_done a w = do {
     t \<leftarrow> get_time a w;
     upd_filter a (f_obj_update (\<lambda>_. OBJ_TIME (t\<lparr>tl_state := TIME_LIMIT_DONE\<rparr>))) w
   }"

definition time_limiter :: "filter_call \<Rightarrow> filter_call" where
  "time_limiter call = unless_disabled call (\<lambda>f a buf bytes block align w. do {
     t \<leftarrow> get_time a w;
     (case tl_state t of
        TIME_LIMIT_NOINIT \<Rightarrow> do {
          w1 \<leftarrow> upd_filter a (f_obj_update (\<lambda>_. OBJ_TIME (t\<lparr>tl_state := TIME_LIMIT_RUNNING\<rparr>))) w;
          call (f_next f) buf bytes block align w1
        }
      | TIME_LIMIT_RUNNING \<Rightarrow> call (f_next f) buf bytes block align w
      | TIME_LIMIT_DONE \<Rightarrow> Some (IO_COMPLETE, bytes, w))
   })"

definition sizeof_time_limit :: size_t where "sizeof_time_limit = 24"

definition create_time_limit_filter :: "sys \<Rightarrow> pool \<Rightarrow> string \<Rightarrow> size_t \<Rightarrow> world \<Rightarrow> (addr \<times> world) option" where
  "create_time_limit_filter S p name time_ms w = do {
     (f, w1) \<leftarrow> create_filter S p name FN_TIME_LIMITER w;
     a \<leftarrow> pcalloc (s_mem S) (w_heap w1) p sizeof_time_limit;
     w2 \<leftarrow> upd_filter f (f_obj_update (\<lambda>_. OBJ_TIME \<lparr>tl_state = TIME_LIMIT_NOINIT, tl_ms = time_ms\<rparr>))
            (add_live a sizeof_time_limit w1);
     Some (f, w2)
   }"

definition byte_counter :: "filter_call \<Rightarrow> filter_call" where
  "byte_counter call = unless_disabled call (\<lambda>f a buf bytes block align w. do {
     (ret, n, w1) \<leftarrow> call (f_next f) buf bytes block align w;
     f1 \<leftarrow> get_filter a w1;
     (case f_obj f1 of
        OBJ_NULL \<Rightarrow> Some (ret, n, w1)
      | OBJ_COUNTER c \<Rightarrow> do {
          let c1 = c\<lparr>gc_total := sz_add (gc_total c) n\<rparr>;
          let c2 = (if gc_total c1 \<ge> gc_limit c1 then c1\<lparr>gc_limit := sz_add (gc_limit c1) (gc_period c1)\<rparr> else c1);
          w2 \<leftarrow> set_counter a c2 w1;
          Some (ret, n, w2)
        }
      | _ \<Rightarrow> None)
   })"

definition create_byte_counter_filter :: "sys \<Rightarrow> pool \<Rightarrow> string \<Rightarrow> size_t \<Rightarrow> world \<Rightarrow> (addr \<times> world) option" where
  "create_byte_counter_filter S p name bytes_per_sample w = do {
     (f, w1) \<leftarrow> create_filter S p name FN_BYTE_COUNTER w;
     a \<leftarrow> palloc (s_mem S) (w_heap w1) p sizeof_counter;
     w2 \<leftarrow> upd_filter f (f_obj_update (\<lambda>_. OBJ_COUNTER
              \<lparr>gc_total = 0, gc_limit = bytes_per_sample, gc_period = bytes_per_sample\<rparr>))
            (add_live a sizeof_counter w1);
     Some (f, w2)
   }"

end
