(* ===== verification/Ring_Machine.thy ===== *)
theory Ring_Machine
  imports Simple_Filters
begin

text \<open>
  The machine side of \<open>src/buf/ring-buf.c\<close>: the filters at the ends of its chains, creation,
  stopping, registration, and the calls that find the ring by its handle. Also the sequence
  that every machine's creation ends with. A pool number 0 is a NULL pool.
\<close>

section \<open>Setting up a machine\<close>

definition zero_desc :: machine_desc where
  "zero_desc = \<lparr>md_handle = 0, md_machine = 0, md_pool = 0, md_in_use = 0, md_lock = False,
     md_io_read = None, md_io_write = None, md_metrics = None, md_impl = IMPL_NONE\<rparr>"

definition discard_pool :: "sys \<Rightarrow> pool \<Rightarrow> world \<Rightarrow> world" where
  "discard_pool S p w = w\<lparr>w_heap := free_pool (s_mem S) p (w_heap w)\<rparr>"

text \<open>The common end of the \<open>create\<close> functions: initialise the generic part, create the read and
  the write filter, register. A failure frees the pool and the handle is 0.\<close>

definition setup_desc ::
    "sys \<Rightarrow> pool \<Rightarrow> nat \<Rightarrow> string \<Rightarrow> io_filter_fn \<Rightarrow> string \<Rightarrow> io_filter_fn \<Rightarrow> machine_desc \<Rightarrow> world
       \<Rightarrow> (io_handle \<times> world) option" where
  "setup_desc S p m rname rfn wname wfn d w = do {
     let (st, d1, w1) = machine_desc_init S p m d w;
     if st < IO_SUCCESS then Some (0, discard_pool S p w1)
     else do {
       (fr, d2, w2) \<leftarrow> filter_read_init S p rname rfn d1 w1;
       if fr = 0 then Some (0, discard_pool S p w2)
       else do {
         (fw, d3, w3) \<leftarrow> filter_write_init S p wname wfn d2 w2;
         if fw = 0 then Some (0, discard_pool S p w3)
         else machine_register_desc S d3 w3
       }
     }
   }"

text \<open>The machine behind a static pointer such as \<open>_ring_buffer_machine\<close>.\<close>

definition get_iom :: "nat option \<Rightarrow> world \<Rightarrow> (nat \<times> iom) option" where
  "get_iom m w = (case m of
      None \<Rightarrow> None
    | Some i \<Rightarrow> if i < length (w_machines w) then Some (i, w_machines w ! i) else None)"

section \<open>The filters of the ring buffer\<close>

definition handle_of :: "addr \<Rightarrow> world \<Rightarrow> io_handle option" where
  "handle_of a w = do {
     f \<leftarrow> get_filter a w;
     (case f_obj f of OBJ_HANDLE h \<Rightarrow> Some h | _ \<Rightarrow> None)
   }"

definition ring_of :: "machine_desc \<Rightarrow> ring_t option" where
  "ring_of d = (case md_impl d of IMPL_RING r \<Rightarrow> Some r | _ \<Rightarrow> None)"

definition put_ring :: "io_handle \<Rightarrow> ring_t \<Rightarrow> heap \<Rightarrow> world \<Rightarrow> world" where
  "put_ring h r hp w = (upd_desc h (md_impl_update (\<lambda>_. IMPL_RING r)) w)\<lparr>w_heap := hp\<rparr>"

definition rbm_buf_read :: filter_call where
  "rbm_buf_read a buf bytes block align w = do {
     h \<leftarrow> handle_of a w;
     (case machine_get_desc h w of
        None \<Rightarrow> Some (IO_ERROR, 0, w)
      | Some d \<Rightarrow> do {
          ring \<leftarrow> ring_of d;
          if md_lock d then None
          else do {
            (st, n, ring', hp) \<leftarrow> rb_buf_read ring buf bytes block align (w_heap w);
            let w1 = put_ring h ring' hp w;
            if st = IO_COMPLETE then
              (case md_io_read d of None \<Rightarrow> None | Some _ \<Rightarrow> Some (st, n, set_read_state h IO_DESC_DISABLING w1))
            else Some (st, n, w1)
          }
        })
   }"

text \<open>A write that stores data takes the descriptor's lock; one that is throttled or fails to allocate does not.\<close>

definition rbm_buf_write :: "sys \<Rightarrow> filter_call" where
  "rbm_buf_write S a buf bytes block align w = do {
     h \<leftarrow> handle_of a w;
     (case machine_get_desc h w of
        None \<Rightarrow> Some (IO_ERROR, 0, w)
      | Some d \<Rightarrow> do {
          ring \<leftarrow> ring_of d;
          (st, n, ring', hp) \<leftarrow> rb_buf_write (s_mem S) (md_pool d) ring buf bytes (w_heap w);
          if md_lock d \<and> st = IO_SUCCESS then None else Some (st, n, put_ring h ring' hp w)
        })
   }"

section \<open>The machine\<close>

definition sizeof_ring :: size_t where "sizeof_ring = 296"

definition rbm_create_buffer :: "sys \<Rightarrow> world \<Rightarrow> (io_handle \<times> world) option" where
  "rbm_create_buffer S w = do {
     (m, iom) \<leftarrow> get_iom (w_rb_machine w) w;
     let p = create_subpool (s_mem S) (w_heap w) (m_alloc iom);
     if p = 0 then Some (0, w)
     else (case pcalloc (s_mem S) (w_heap w) p sizeof_ring of
        None \<Rightarrow> Some (0, discard_pool S p w)
      | Some a \<Rightarrow> do {
          let w1 = add_live a sizeof_ring w;
          (ring, hp) \<leftarrow> rb_create (s_mem S) p (w_heap w1);
          (case ring of
             None \<Rightarrow> Some (0, w1\<lparr>w_heap := hp\<rparr>)
           | Some r \<Rightarrow> setup_desc S p m ''ring_buf_r'' FN_RB_READ ''ring_buf_w'' FN_RB_WRITE
               (zero_desc\<lparr>md_impl := IMPL_RING r\<rparr>) (w1\<lparr>w_heap := hp\<rparr>))
        })
   }"

text \<open>Stopping disables writing and lets the readers drain the buffer.\<close>

definition rbm_stop_buffer :: "io_handle \<Rightarrow> world \<Rightarrow> world option" where
  "rbm_stop_buffer h w = (case machine_get_desc h w of
      None \<Rightarrow> Some w
    | Some d \<Rightarrow>
        let w1 = (case md_io_write d of None \<Rightarrow> w | Some _ \<Rightarrow> set_write_state h IO_DESC_DISABLING w) in
        (case md_io_read d of
           None \<Rightarrow> Some w1
         | Some _ \<Rightarrow> do {
             r \<leftarrow> ring_of d;
             Some (upd_desc h (md_impl_update (\<lambda>_. IMPL_RING (r\<lparr>r_flush := True\<rparr>))) w1)
           }))"

definition get_rb_machine :: "sys \<Rightarrow> world \<Rightarrow> (nat \<times> world) option" where
  "get_rb_machine S w = (case w_rb_machine w of
      Some m \<Rightarrow> Some (m, w)
    | None \<Rightarrow> do {
        (mo, w1) \<leftarrow> machine_register S ''ring_buffer'' w;
        m \<leftarrow> mo;
        let ms = (w_machines w1)[m := (w_machines w1 ! m)\<lparr>m_create := CREATE_RB, m_stop := STOP_BUFFER,
                    m_destroy := DESTROY_DESC\<rparr>];
        Some (m, w1\<lparr>w_machines := ms, w_rb_machine := Some m\<rparr>)
      })"

definition new_rb_machine :: "sys \<Rightarrow> world \<Rightarrow> (io_handle \<times> world) option" where
  "new_rb_machine S w = do {
     (m, w1) \<leftarrow> get_rb_machine S w;
     rbm_create_buffer S w1
   }"

section \<open>Direct access and settings by handle\<close>

definition rbm_acquire_write_block ::
    "sys \<Rightarrow> io_handle \<Rightarrow> size_t \<Rightarrow> world \<Rightarrow> (io_status \<times> addr \<times> world) option" where
  "rbm_acquire_write_block S h init_bytes w = (case machine_get_desc h w of
      None \<Rightarrow> Some (IO_ERROR, 0, w)
    | Some d \<Rightarrow> do {
        ring \<leftarrow> ring_of d;
        (st, b, ring', hp) \<leftarrow> rb_acquire_write_block (s_mem S) (md_pool d) ring init_bytes (w_heap w);
        Some (st, b, put_ring h ring' hp w)
      })"

definition rbm_release_write_block :: "sys \<Rightarrow> io_handle \<Rightarrow> size_t \<Rightarrow> world \<Rightarrow> world option" where
  "rbm_release_write_block S h bytes w = (case machine_get_desc h w of
      None \<Rightarrow> Some w
    | Some d \<Rightarrow> do {
        ring \<leftarrow> ring_of d;
        if md_lock d then None
        else do {
          (ring', hp) \<leftarrow> rb_release_write_block (s_mem S) (md_pool d) ring bytes (w_heap w);
          Some (put_ring h ring' hp w)
        }
      })"

text \<open>The setters report an unknown handle and then follow the NULL pointer.\<close>

definition rbm_set :: "(ring_t \<Rightarrow> ring_t) \<Rightarrow> io_handle \<Rightarrow> world \<Rightarrow> world option" where
  "rbm_set g h w = do {
     d \<leftarrow> machine_get_desc h w;
     ring \<leftarrow> ring_of d;
     Some (upd_desc h (md_impl_update (\<lambda>_. IMPL_RING (g ring))) w)
   }"

definition rbm_set_min_return_size :: "io_handle \<Rightarrow> size_t \<Rightarrow> world \<Rightarrow> world option" where
  "rbm_set_min_return_size h bytes w = rbm_set (rb_set_min_return_size bytes) h w"

definition rbm_set_alignment :: "io_handle \<Rightarrow> 32 word \<Rightarrow> world \<Rightarrow> world option" where
  "rbm_set_alignment h align w = rbm_set (rb_set_alignment align) h w"

definition rbm_set_high_water_mark :: "io_handle \<Rightarrow> size_t \<Rightarrow> world \<Rightarrow> world option" where
  "rbm_set_high_water_mark h bytes w = rbm_set (rb_set_high_water_mark bytes) h w"

end
