(* ===== verification/Fixed_Block.thy ===== *)
theory Fixed_Block
  imports Ring_Machine
begin

unbundle bit_operations_syntax

text \<open>
  Model of \<open>src/buf/fixed-block-buf.c\<close>: a ring in which every write fills one block and every
  read takes one block.
\<close>

section \<open>Reading and writing\<close>

text \<open>\<open>locked\<close>: the descriptor's lock, which both functions take on the way, is held by someone else.\<close>

definition fbb_buf_read ::
    "bool \<Rightarrow> fbb_ring \<Rightarrow> addr \<Rightarrow> size_t \<Rightarrow> nat \<Rightarrow> heap \<Rightarrow> (io_status \<times> size_t \<times> fbb_ring \<times> heap) option" where
  "fbb_buf_read locked ring buf n align h = do {
     b \<leftarrow> get_blk (fb_rp ring) h;
     if b_bytes b = 0 then Some (IO_SUCCESS, 0, ring, h)
     else if align = 0 \<or> locked then None
     else do {
       let bytes = align_down (b_bytes b) align;
       let (m, n') = (if n \<ge> bytes then (mem_copy (mem h) buf (b_data b) bytes, bytes) else (mem h, 0));
       h1 \<leftarrow> upd_blk (fb_rp ring) (b_bytes_update (\<lambda>_. 0)) (h\<lparr>mem := m\<rparr>);
       Some (IO_SUCCESS, n', ring\<lparr>fb_stored := sz_sub (fb_stored ring) (b_bytes b), fb_rp := b_next b\<rparr>, h1)
     }
   }"

text \<open>A write that does not fit is ignored, with \<open>*bytes\<close> left as it is. The results of the
  allocations that extend a full ring are not tested.\<close>

definition fbb_buf_write ::
    "env \<Rightarrow> pool \<Rightarrow> bool \<Rightarrow> fbb_ring \<Rightarrow> addr \<Rightarrow> size_t \<Rightarrow> heap \<Rightarrow> (io_status \<times> size_t \<times> fbb_ring \<times> heap) option" where
  "fbb_buf_write E p locked ring buf n h = do {
     b \<leftarrow> get_blk (fb_wp ring) h;
     if n > b_size b then Some (IO_SUCCESS, n, ring, h)
     else if locked then None
     else do {
       h1 \<leftarrow> upd_blk (fb_wp ring) (b_bytes_update (\<lambda>_. n)) (h\<lparr>mem := mem_copy (mem h) (b_data b) buf n\<rparr>);
       let nx = b_next b;
       nb \<leftarrow> get_blk nx h1;
       h4 \<leftarrow> (if BLOCK_EMPTY nb then Some h1
             else if fb_block_size ring = 0 then None
             else do {
               (add, h2) \<leftarrow> block_list_alloc E p (n div fb_block_size ring + 1) h1;
               (_, h3) \<leftarrow> block_data_fastalloc E p add (fb_block_size ring) h2;
               h3' \<leftarrow> upd_blk (fb_wp ring) (b_next_update (\<lambda>_. add)) h3;
               tail \<leftarrow> chain_tail add h3';
               upd_blk tail (b_next_update (\<lambda>_. nx)) h3'
             });
       b' \<leftarrow> get_blk (fb_wp ring) h4;
       Some (IO_SUCCESS, n, ring\<lparr>fb_stored := sz_add (fb_stored ring) n, fb_wp := b_next b'\<rparr>, h4)
     }
   }"

section \<open>Arguments\<close>

record fbbiom_args =
  fa_buf_bytes :: size_t
  fa_block_bytes :: size_t
  fa_align :: nat
  fa_flags :: nat

definition FBB_DEFAULT_BUF_BYTES :: size_t where "FBB_DEFAULT_BUF_BYTES = 100 * MB"
definition FBB_DEFAULT_BLK_BYTES :: size_t where "FBB_DEFAULT_BLK_BYTES = 1 * MB"
definition FBB_DEFAULT_ALIGN :: nat where "FBB_DEFAULT_ALIGN = 4"
definition BF_BLOCKFILL :: nat where "BF_BLOCKFILL = 1"

text \<open>The search for a power of two, from bit \<open>i\<close> down.\<close>

fun check_align :: "nat \<Rightarrow> nat \<Rightarrow> nat" where
  "check_align i align =
     (if 2 ^ i = align then align
      else case i of 0 \<Rightarrow> FBB_DEFAULT_ALIGN | Suc j \<Rightarrow> check_align j align)"

declare check_align.simps [simp del]

definition align_adjust :: "size_t \<Rightarrow> nat \<Rightarrow> size_t" where
  "align_adjust block_bytes a = sz_sub a (block_bytes AND (a - 1)) AND (a - 1)"

definition sanitize_args :: "fbbiom_args \<Rightarrow> fbbiom_args" where
  "sanitize_args args =
     (let args1 = (if fa_buf_bytes args = 0 then args\<lparr>fa_buf_bytes := FBB_DEFAULT_BUF_BYTES\<rparr> else args);
          args2 = (if fa_block_bytes args1 = 0 then args1\<lparr>fa_block_bytes := FBB_DEFAULT_BLK_BYTES\<rparr> else args1);
          args3 = (if fa_align args2 = 0 then args2\<lparr>fa_align := FBB_DEFAULT_ALIGN\<rparr> else args2);
          args4 = args3\<lparr>fa_align := check_align 15 (fa_align args3)\<rparr>
      in args4\<lparr>fa_block_bytes := sz_add (fa_block_bytes args4) (align_adjust (fa_block_bytes args4) (fa_align args4))\<rparr>)"

section \<open>The machine\<close>

definition fbb_of :: "machine_desc \<Rightarrow> fbb_ring option" where
  "fbb_of d = (case md_impl d of IMPL_FBB r \<Rightarrow> Some r | _ \<Rightarrow> None)"

definition put_fbb :: "io_handle \<Rightarrow> fbb_ring \<Rightarrow> heap \<Rightarrow> world \<Rightarrow> world" where
  "put_fbb h r hp w = (upd_desc h (md_impl_update (\<lambda>_. IMPL_FBB r)) w)\<lparr>w_heap := hp\<rparr>"

definition fbbm_buf_read :: filter_call where
  "fbbm_buf_read a buf bytes block align w = do {
     h \<leftarrow> handle_of a w;
     (case machine_get_desc h w of
        None \<Rightarrow> Some (IO_ERROR, 0, w)
      | Some d \<Rightarrow> do {
          ring \<leftarrow> fbb_of d;
          (st, n, ring', hp) \<leftarrow> fbb_buf_read (md_lock d) ring buf bytes align (w_heap w);
          Some (st, n, put_fbb h ring' hp w)
        })
   }"

definition fbbm_buf_write :: "sys \<Rightarrow> filter_call" where
  "fbbm_buf_write S a buf bytes block align w = do {
     h \<leftarrow> handle_of a w;
     (case machine_get_desc h w of
        None \<Rightarrow> Some (IO_ERROR, 0, w)
      | Some d \<Rightarrow> do {
          ring \<leftarrow> fbb_of d;
          (st, n, ring', hp) \<leftarrow> fbb_buf_write (s_mem S) (md_pool d) (md_lock d) ring buf bytes (w_heap w);
          Some (st, n, put_fbb h ring' hp w)
        })
   }"

text \<open>The blocks of a new buffer. The test \<open>block_data_fastalloc(...) < IO_SUCCESS\<close> compares an
  unsigned size with 0 and never holds, so a failed allocation of the data goes unnoticed.\<close>

definition fbb_create :: "env \<Rightarrow> pool \<Rightarrow> fbbiom_args \<Rightarrow> heap \<Rightarrow> (fbb_ring option \<times> heap) option" where
  "fbb_create E p args h = do {
     let bytes = fa_buf_bytes args;
     let block_size = fa_block_bytes args;
     if block_size = 0 then None
     else do {
       let n = bytes div block_size;
       let block_count = (if sz_mul n block_size < bytes then n + 1 else n);
       (blks, h1) \<leftarrow> block_list_alloc E p block_count h;
       if blks = 0 then Some (None, free_pool E p h1)
       else do {
         (_, h2) \<leftarrow> block_data_fastalloc E p blks block_size h1;
         h3 \<leftarrow> forge_ring blks h2;
         Some (Some \<lparr>fb_size = 0, fb_stored = 0, fb_wp = blks, fb_rp = blks, fb_block_size = block_size,
                 fb_fill = (fa_flags args AND BF_BLOCKFILL \<noteq> 0)\<rparr>, h3)
       }
     }
   }"

definition sizeof_fbb :: size_t where "sizeof_fbb = 240"

definition fbbm_create_buffer :: "sys \<Rightarrow> fbbiom_args \<Rightarrow> world \<Rightarrow> (io_handle \<times> world) option" where
  "fbbm_create_buffer S args w = do {
     (m, iom) \<leftarrow> get_iom (w_fbb_machine w) w;
     let p = create_subpool (s_mem S) (w_heap w) (m_alloc iom);
     if p = 0 then Some (0, w)
     else (case pcalloc (s_mem S) (w_heap w) p sizeof_fbb of
        None \<Rightarrow> Some (0, discard_pool S p w)
      | Some a \<Rightarrow> do {
          let w1 = add_live a sizeof_fbb w;
          (ring, hp) \<leftarrow> fbb_create (s_mem S) p (sanitize_args args) (w_heap w1);
          (case ring of
             None \<Rightarrow> Some (0, w1\<lparr>w_heap := hp\<rparr>)
           | Some r \<Rightarrow> setup_desc S p m ''_buf'' FN_FBB_READ ''_buf'' FN_FBB_WRITE
               (zero_desc\<lparr>md_impl := IMPL_FBB r\<rparr>) (w1\<lparr>w_heap := hp\<rparr>))
        })
   }"

definition get_fbb_machine :: "sys \<Rightarrow> world \<Rightarrow> (nat \<times> world) option" where
  "get_fbb_machine S w = (case w_fbb_machine w of
      Some m \<Rightarrow> Some (m, w)
    | None \<Rightarrow> do {
        (mo, w1) \<leftarrow> machine_register S ''fixed_block_buffer'' w;
        m \<leftarrow> mo;
        let ms = (w_machines w1)[m := (w_machines w1 ! m)\<lparr>m_create := CREATE_FBB, m_destroy := DESTROY_DESC\<rparr>];
        Some (m, w1\<lparr>w_machines := ms, w_fbb_machine := Some m\<rparr>)
      })"

definition new_fbb_machine :: "sys \<Rightarrow> size_t \<Rightarrow> size_t \<Rightarrow> world \<Rightarrow> (io_handle \<times> world) option" where
  "new_fbb_machine S buffer_size block_size w = do {
     (m, w1) \<leftarrow> get_fbb_machine S w;
     fbbm_create_buffer S \<lparr>fa_buf_bytes = buffer_size, fa_block_bytes = block_size, fa_align = 0, fa_flags = 0\<rparr> w1
   }"

definition new_fbb_machine_fill :: "sys \<Rightarrow> size_t \<Rightarrow> size_t \<Rightarrow> world \<Rightarrow> (io_handle \<times> world) option" where
  "new_fbb_machine_fill S buffer_size block_size w = do {
     (m, w1) \<leftarrow> get_fbb_machine S w;
     fbbm_create_buffer S \<lparr>fa_buf_bytes = buffer_size, fa_block_bytes = block_size, fa_align = 0,
       fa_flags = BF_BLOCKFILL\<rparr> w1
   }"

definition fbb_get_size :: "io_handle \<Rightarrow> world \<Rightarrow> size_t option" where
  "fbb_get_size h w = (case machine_get_desc h w of
      None \<Rightarrow> Some 0
    | Some d \<Rightarrow> map_option fb_size (fbb_of d))"

definition fbb_get_bytes :: "io_handle \<Rightarrow> world \<Rightarrow> size_t option" where
  "fbb_get_bytes h w = (case machine_get_desc h w of
      None \<Rightarrow> Some 0
    | Some d \<Rightarrow> map_option fb_stored (fbb_of d))"

end
