(* ===== verification/Handle_Queue.thy ===== *)
theory Handle_Queue
  imports Fixed_Block
begin

text \<open>
  Model of \<open>src/buf/handle-queue.c\<close>, a queue (or stack) of messages, each in a pool of its own,
  and of \<open>src/null-machine.c\<close>. The list that holds the entries belongs to memex: its
  operations are fields of the surroundings.
\<close>

section \<open>The entry as bytes\<close>

text \<open>A 64-bit value, least significant byte first.\<close>

definition le64 :: "nat \<Rightarrow> byte list" where "le64 n = le_bytes 8 n"

text \<open>A signed value in two's complement.\<close>

definition les64 :: "int \<Rightarrow> byte list" where "les64 i = le64 (nat (i mod 2 ^ 64))"

definition sizeof_hq_entry :: size_t where "sizeof_hq_entry = 40"

definition hq_entry_bytes :: "hq_entry \<Rightarrow> byte list" where
  "hq_entry_bytes e = le64 (hq_pool e) @ le64 (hq_buf e) @ le64 (hq_len e) @
     les64 (tv_sec (hq_tv e)) @ les64 (tv_usec (hq_tv e))"

section \<open>The filters\<close>

definition hq_of :: "machine_desc \<Rightarrow> hq option" where
  "hq_of d = (case md_impl d of IMPL_HQ q \<Rightarrow> Some q | _ \<Rightarrow> None)"

definition put_hq :: "io_handle \<Rightarrow> hq \<Rightarrow> world \<Rightarrow> world" where
  "put_hq h q w = upd_desc h (md_impl_update (\<lambda>_. IMPL_HQ q)) w"

definition queue_write :: "sys \<Rightarrow> filter_call" where
  "queue_write S a buf bytes block align w = do {
     h \<leftarrow> handle_of a w;
     (case machine_get_desc h w of
        None \<Rightarrow> Some (IO_ERROR, 0, w)
      | Some d \<Rightarrow> do {
          q \<leftarrow> hq_of d;
          let tv = gettimeofday S (w_ticks w);
          let p = create_subpool (s_mem S) (w_heap w) (md_pool d);
          e \<leftarrow> palloc (s_mem S) (w_heap w) p bytes;
          let hp = (w_heap w)\<lparr>live := (e, bytes) # live (w_heap w), mem := mem_copy (mem (w_heap w)) e buf bytes\<rparr>;
          let w1 = w\<lparr>w_heap := hp, w_ticks := w_ticks w + 1\<rparr>;
          (case memex_list_push S (hq_list q) \<lparr>hq_pool = p, hq_buf = e, hq_len = bytes, hq_tv = tv\<rparr> of
             None \<Rightarrow> Some (IO_ERROR, 0, discard_pool S p w1)
           | Some l \<Rightarrow> Some (IO_SUCCESS, bytes, put_hq h (q\<lparr>hq_list := l\<rparr>) w1))
        })
   }"

text \<open>With \<open>flush\<close> set and nothing queued, \<open>*bytes\<close> is left as the caller set it.\<close>

definition queue_read :: "sys \<Rightarrow> filter_call" where
  "queue_read S a buf bytes block align w = do {
     h \<leftarrow> handle_of a w;
     (case machine_get_desc h w of
        None \<Rightarrow> Some (IO_ERROR, 0, w)
      | Some d \<Rightarrow> do {
          q \<leftarrow> hq_of d;
          if bytes < sizeof_hq_entry then Some (IO_ERROR, 0, w)
          else (case memex_list_pop S (hq_list q) of
             None \<Rightarrow> Some (IO_ERROR, 0, w)
           | Some (Some e, l) \<Rightarrow>
               Some (IO_SUCCESS, sizeof_hq_entry,
                 (put_hq h (q\<lparr>hq_list := l\<rparr>) w)\<lparr>w_heap := (w_heap w)\<lparr>mem := mem_write (mem (w_heap w)) buf (hq_entry_bytes e)\<rparr>\<rparr>)
           | Some (None, l) \<Rightarrow>
               if hq_flush q then
                 (case md_io_read d of
                    None \<Rightarrow> None
                  | Some _ \<Rightarrow> Some (IO_COMPLETE, bytes, set_read_state h IO_DESC_DISABLING (put_hq h (q\<lparr>hq_list := l\<rparr>) w)))
               else Some (IO_SUCCESS, 0, put_hq h (q\<lparr>hq_list := l\<rparr>) w))
        })
   }"

section \<open>The machine\<close>

datatype handle_queue_type_e = HQ_TYPE_FIFO | HQ_TYPE_STACK

definition sizeof_hq :: size_t where "sizeof_hq = 128"

definition create_queue :: "sys \<Rightarrow> handle_queue_type_e option \<Rightarrow> world \<Rightarrow> (io_handle \<times> world) option" where
  "create_queue S arg w = do {
     (m, iom) \<leftarrow> get_iom (w_hq_machine w) w;
     let p = create_subpool (s_mem S) (w_heap w) (m_alloc iom);
     if p = 0 then Some (0, w)
     else (case pcalloc (s_mem S) (w_heap w) p sizeof_hq of
        None \<Rightarrow> Some (0, discard_pool S p w)
      | Some a \<Rightarrow>
          (let l = (if arg = Some HQ_TYPE_FIFO then memex_fifo_create S p
                    else if arg = Some HQ_TYPE_STACK then memex_stack_create S p
                    else memex_fifo_create S p)
           in setup_desc S p m ''ring_buf_r'' FN_HQ_READ ''ring_buf_w'' FN_HQ_WRITE
                (zero_desc\<lparr>md_impl := IMPL_HQ \<lparr>hq_list = l, hq_flush = False\<rparr>\<rparr>) (add_live a sizeof_hq w)))
   }"

definition stop_queue :: "io_handle \<Rightarrow> world \<Rightarrow> world option" where
  "stop_queue h w = (case machine_get_desc h w of
      None \<Rightarrow> Some w
    | Some d \<Rightarrow>
        let w1 = (case md_io_write d of None \<Rightarrow> w | Some _ \<Rightarrow> set_write_state h IO_DESC_DISABLING w) in
        (case md_io_read d of
           None \<Rightarrow> Some w1
         | Some _ \<Rightarrow> do {
             q \<leftarrow> hq_of d;
             Some (put_hq h (q\<lparr>hq_flush := True\<rparr>) w1)
           }))"

definition get_hq_machine :: "sys \<Rightarrow> world \<Rightarrow> (nat \<times> world) option" where
  "get_hq_machine S w = (case w_hq_machine w of
      Some m \<Rightarrow> Some (m, w)
    | None \<Rightarrow> do {
        (mo, w1) \<leftarrow> machine_register S ''handle_queue'' w;
        m \<leftarrow> mo;
        let ms = (w_machines w1)[m := (w_machines w1 ! m)\<lparr>m_create := CREATE_HQ, m_stop := STOP_QUEUE,
                    m_destroy := DESTROY_DESC\<rparr>];
        Some (m, w1\<lparr>w_machines := ms, w_hq_machine := Some m\<rparr>)
      })"

definition new_hq_machine :: "sys \<Rightarrow> world \<Rightarrow> (io_handle \<times> world) option" where
  "new_hq_machine S w = do { (m, w1) \<leftarrow> get_hq_machine S w; create_queue S None w1 }"

definition new_hq_fifo_machine :: "sys \<Rightarrow> world \<Rightarrow> (io_handle \<times> world) option" where
  "new_hq_fifo_machine S w = do { (m, w1) \<leftarrow> get_hq_machine S w; create_queue S (Some HQ_TYPE_FIFO) w1 }"

definition new_hq_stack_machine :: "sys \<Rightarrow> world \<Rightarrow> (io_handle \<times> world) option" where
  "new_hq_stack_machine S w = do { (m, w1) \<leftarrow> get_hq_machine S w; create_queue S (Some HQ_TYPE_STACK) w1 }"

section \<open>The null machine\<close>

definition null_read :: filter_call where
  "null_read a buf bytes block align w = Some (IO_ERROR, bytes, w)"

definition null_write :: filter_call where
  "null_write a buf bytes block align w = Some (IO_SUCCESS, bytes, w)"

definition sizeof_machine_desc :: size_t where "sizeof_machine_desc = 112"

definition create_null :: "sys \<Rightarrow> world \<Rightarrow> (io_handle \<times> world) option" where
  "create_null S w = do {
     (m, iom) \<leftarrow> get_iom (w_null_machine w) w;
     let p = create_subpool (s_mem S) (w_heap w) (m_alloc iom);
     if p = 0 then Some (0, w)
     else (case pcalloc (s_mem S) (w_heap w) p sizeof_machine_desc of
        None \<Rightarrow> Some (0, discard_pool S p w)
      | Some a \<Rightarrow> setup_desc S p m ''_null'' FN_NULL_READ ''_null'' FN_NULL_WRITE
          (zero_desc\<lparr>md_pool := p\<rparr>) (add_live a sizeof_machine_desc w))
   }"

definition destroy_null :: "io_handle \<Rightarrow> world \<Rightarrow> world" where
  "destroy_null h w = w"

definition get_null_machine :: "sys \<Rightarrow> world \<Rightarrow> (nat \<times> world) option" where
  "get_null_machine S w = (case w_null_machine w of
      Some m \<Rightarrow> Some (m, w)
    | None \<Rightarrow> do {
        (mo, w1) \<leftarrow> machine_register S ''null'' w;
        m \<leftarrow> mo;
        let ms = (w_machines w1)[m := (w_machines w1 ! m)\<lparr>m_create := CREATE_NULL, m_destroy := DESTROY_NULL,
                    m_stop := STOP_DISABLE_READ\<rparr>];
        Some (m, w1\<lparr>w_machines := ms, w_null_machine := Some m\<rparr>)
      })"

definition new_null_machine :: "sys \<Rightarrow> world \<Rightarrow> (io_handle \<times> world) option" where
  "new_null_machine S w = do { (m, w1) \<leftarrow> get_null_machine S w; create_null S w1 }"

end
