(* ===== verification/File_Machine.thy ===== *)
theory File_Machine
  imports Handle_Queue
begin

text \<open>
  Model of \<open>src/file-machine.c\<close>: a machine that writes to or reads from files. With the flags of
  \<open>include/file-machine.h\<close> it numbers its files, rotates them, and puts them into directories
  named after the date or numbered.
\<close>

unbundle bit_operations_syntax

section \<open>Flags and limits\<close>

definition FFILE_READ :: "32 word" where "FFILE_READ = 0x1"
definition FFILE_WRITE :: "32 word" where "FFILE_WRITE = 0x2"
definition FFILE_ROTATE :: "32 word" where "FFILE_ROTATE = 0x10"
definition FFILE_INDEX :: "32 word" where "FFILE_INDEX = 0x20"
definition FFILE_DIR_ROTATE :: "32 word" where "FFILE_DIR_ROTATE = 0x40"
definition FFILE_AUTO_DATE :: "32 word" where "FFILE_AUTO_DATE = 0x100"

definition FILE_IOM_MAX_STRLEN :: size_t where "FILE_IOM_MAX_STRLEN = 1024"
definition FILE_IOM_MAX_DIRLEN :: size_t where "FILE_IOM_MAX_DIRLEN = 2048"
definition FILE_IOM_MAX_PATHLEN :: size_t where "FILE_IOM_MAX_PATHLEN = 4096"
definition TIMESTAMP_FMT :: string where "TIMESTAMP_FMT = ''%Y/%m/%d/%H''"
definition BASEDIR_INDEX_NOINIT :: "32 word" where "BASEDIR_INDEX_NOINIT = 0xffffffff"

definition has_flag :: "file_desc \<Rightarrow> 32 word \<Rightarrow> bool" where
  "has_flag fd f \<longleftrightarrow> fd_flags fd AND f \<noteq> 0"

section \<open>Names\<close>

text \<open>Store a string, cut to \<open>maxlen - 1\<close> characters, in the pool; the fifo machine has a copy of this function
  with another limit.\<close>

definition set_input_str :: "size_t \<Rightarrow> sys \<Rightarrow> pool \<Rightarrow> string \<Rightarrow> cstr \<Rightarrow> world \<Rightarrow> (cstr \<times> world) option" where
  "set_input_str maxlen S p src dst w = (let len = min (length src + 1) maxlen in
     case dst of
       None \<Rightarrow> do {
         a \<leftarrow> pcalloc (s_mem S) (w_heap w) p len;
         Some (Some (a, snprintf len src), add_live a len w)
       }
     | Some (a, str) \<Rightarrow>
         if len > length str then do {
           (b, hp) \<leftarrow> repalloc S (w_heap w) a len p;
           Some (Some (b, snprintf len src), w\<lparr>w_heap := hp\<rparr>)
         } else Some (Some (a, snprintf len src), w))"

definition init_basedir :: "sys \<Rightarrow> pool \<Rightarrow> string option \<Rightarrow> file_desc \<Rightarrow> world \<Rightarrow> (file_desc \<times> world) option" where
  "init_basedir S p basedir fd w = (case basedir of
      None \<Rightarrow> Some (fd\<lparr>fd_basedir_index := BASEDIR_INDEX_NOINIT\<rparr>, w)
    | Some b \<Rightarrow> do {
        (s, w1) \<leftarrow> set_input_str FILE_IOM_MAX_STRLEN S p b (fd_base_dir fd) w;
        Some (fd\<lparr>fd_base_dir := s, fd_basedir_index := BASEDIR_INDEX_NOINIT\<rparr>, w1)
      })"

text \<open>\<open>strftime\<close> leaves its buffer undefined when the text does not fit.\<close>

definition gen_timestamp :: "sys \<Rightarrow> size_t \<Rightarrow> string \<Rightarrow> world \<Rightarrow> (string \<times> world) option" where
  "gen_timestamp S bytes fmt w = (let t = strftime (s_os S) fmt (tv_sec (gettimeofday S (w_ticks w))) in
     if length t < 64 then Some (snprintf bytes t, w\<lparr>w_ticks := w_ticks w + 1\<rparr>) else None)"

text \<open>The test for a trailing \<open>/\<close> looks at \<open>dir[len - 1]\<close>, which is the terminating zero: it never holds. The
  result is true for the return value 0.\<close>

lemma strrchr_less: "strrchr c s = Some i \<Longrightarrow> i < length s"
  by (induction s arbitrary: i) (auto split: option.splits if_splits)

function create_dir :: "os \<Rightarrow> string \<Rightarrow> posix \<Rightarrow> bool \<times> posix" where
  "create_dir sy dir px =
     (if stat sy px dir = Some S_IFDIR then (True, px)
      else case mkdir sy dir px of
        Some px' \<Rightarrow> (True, px')
      | None \<Rightarrow> (case strrchr (CHR ''/'') dir of
          None \<Rightarrow> (False, px)
        | Some i \<Rightarrow>
            if i = 0 then (False, px)
            else (case create_dir sy (take i dir) px of
                (False, px1) \<Rightarrow> (False, px1)
              | (True, px1) \<Rightarrow> (case mkdir sy dir px1 of
                  None \<Rightarrow> (False, px1)
                | Some px2 \<Rightarrow> (True, px2)))))"
  by pat_completeness auto
termination
  by (relation "measure (\<lambda>(sy, dir, px). length dir)") (auto dest: strrchr_less)

declare create_dir.simps [simp del]

definition basedir_name :: "cstr \<Rightarrow> 32 word \<Rightarrow> string" where
  "basedir_name basedir index = (case basedir of
      Some (a, b) \<Rightarrow> ''/'' @ b @ ''-'' @ fmt_05d (sint index)
    | None \<Rightarrow> ''/'' @ fmt_05d (sint index))"

text \<open>Append to the path that is built in an array of \<open>FILE_IOM_MAX_DIRLEN + 2\<close> bytes, with room for \<open>r\<close> bytes
  left. After a text that did not fit, \<open>r\<close> has wrapped, and appending more writes behind the array.\<close>

definition path_print :: "string \<Rightarrow> size_t \<Rightarrow> string \<Rightarrow> (string \<times> size_t) option" where
  "path_print dpath r s = (if r > FILE_IOM_MAX_DIRLEN then None else Some (dpath @ snprintf r s, sz_sub r (length s)))"

text \<open>\<open>while (stat(path, &s) == 0)\<close>: the next number.\<close>

partial_function (option) basedir_loop ::
    "os \<Rightarrow> posix \<Rightarrow> string \<Rightarrow> size_t \<Rightarrow> cstr \<Rightarrow> string \<Rightarrow> 32 word \<Rightarrow> (string \<times> 32 word) option" where
  "basedir_loop sy px pre r basedir dpath index =
     (if stat sy px dpath = None then Some (dpath, index)
      else basedir_loop sy px pre r basedir (pre @ snprintf r (basedir_name basedir (index + 1))) (index + 1))"

definition build_directory_path :: "sys \<Rightarrow> file_desc \<Rightarrow> world \<Rightarrow> (string \<times> file_desc \<times> world) option" where
  "build_directory_path S fd w = do {
     (a, root) \<leftarrow> fd_root_dir fd;
     (path1, r1) \<leftarrow> path_print [] FILE_IOM_MAX_DIRLEN root;
     (path2, r2, fd2, w2) \<leftarrow> (if has_flag fd FFILE_AUTO_DATE then do {
         (ts, w') \<leftarrow> gen_timestamp S 32 (fd_date_fmt fd) w;
         let fd' = (if ts \<noteq> fd_timestamp fd
                    then fd\<lparr>fd_timestamp := ts, fd_basedir_index := BASEDIR_INDEX_NOINIT, fd_file_index := 0\<rparr> else fd);
         (dpath', r') \<leftarrow> path_print path1 r1 (''/'' @ ts);
         Some (dpath', r', fd', w')
       } else Some (path1, r1, fd, w));
     if has_flag fd2 FFILE_DIR_ROTATE then do {
       let index = (if fd_basedir_index fd2 = BASEDIR_INDEX_NOINIT then 0 else fd_basedir_index fd2);
       (path3, r3) \<leftarrow> path_print path2 r2 (basedir_name (fd_base_dir fd2) index);
       if fd_basedir_index fd2 = BASEDIR_INDEX_NOINIT then do {
         (path4, index') \<leftarrow> basedir_loop (s_os S) (w_px w2) path2 r2 (fd_base_dir fd2) path3 index;
         Some (path4, fd2\<lparr>fd_basedir_index := index'\<rparr>, w2)
       } else Some (path3, fd2, w2)
     } else Some (path2, fd2, w2)
   }"

definition file_name :: "string \<Rightarrow> string \<Rightarrow> 32 word option \<Rightarrow> cstr \<Rightarrow> string" where
  "file_name dpath tag index ext = snprintf FILE_IOM_MAX_PATHLEN (dpath @ ''/'' @ tag @
     (case index of None \<Rightarrow> [] | Some i \<Rightarrow> ''-'' @ fmt_05d (sint i)) @
     (case ext of None \<Rightarrow> [] | Some (a, e) \<Rightarrow> ''.'' @ e))"

section \<open>Opening and rotating\<close>

definition close_opt :: "nat option \<Rightarrow> posix \<Rightarrow> posix option" where
  "close_opt f px = (case f of None \<Rightarrow> Some px | Some n \<Rightarrow> fclose n px)"

definition rotate_wfile :: "file_desc \<Rightarrow> posix \<Rightarrow> (file_desc \<times> posix) option" where
  "rotate_wfile fd px = do {
     px1 \<leftarrow> close_opt (fd_fw fd) px;
     let fd1 = fd\<lparr>fd_fw := None\<rparr>;
     Some (if has_flag fd1 FFILE_INDEX then fd1\<lparr>fd_file_index := fd_file_index fd1 + 1\<rparr> else fd1, px1)
   }"

definition rotate_basedir :: "file_desc \<Rightarrow> posix \<Rightarrow> (file_desc \<times> posix) option" where
  "rotate_basedir fd px = do {
     px1 \<leftarrow> close_opt (fd_fw fd) px;
     Some (fd\<lparr>fd_fw := None, fd_file_index := 0, fd_basedir_index := fd_basedir_index fd + 1\<rparr>, px1)
   }"

text \<open>The search for a name that is not in use.\<close>

partial_function (option) free_name_loop ::
    "os \<Rightarrow> posix \<Rightarrow> string \<Rightarrow> string \<Rightarrow> cstr \<Rightarrow> string \<Rightarrow> 32 word \<Rightarrow> (string \<times> 32 word) option" where
  "free_name_loop sy px dpath tag ext fname index =
     (if stat sy px fname = None then Some (fname, index)
      else free_name_loop sy px dpath tag ext (file_name dpath tag (Some index) ext) (index + 1))"

definition write_name :: "os \<Rightarrow> posix \<Rightarrow> string \<Rightarrow> string \<Rightarrow> file_desc \<Rightarrow> (string \<times> file_desc) option" where
  "write_name sy px dpath tag fd = do {
     let fname = file_name dpath tag (if has_flag fd FFILE_INDEX then Some (fd_file_index fd) else None) (fd_file_ext fd);
     if has_flag fd FFILE_ROTATE \<and> stat sy px fname \<noteq> None then do {
       (fname', index) \<leftarrow> free_name_loop sy px dpath tag (fd_file_ext fd) fname 1;
       Some (fname', if has_flag fd FFILE_INDEX then fd\<lparr>fd_file_index := index\<rparr> else fd)
     } else Some (fname, fd)
   }"

text \<open>\<open>open_file\<close>: true for the return value 0. The stream of the other direction is closed, and the pointer to
  it kept.\<close>

definition open_write :: "sys \<Rightarrow> file_desc \<Rightarrow> world \<Rightarrow> (bool \<times> file_desc \<times> world) option" where
  "open_write S fd w = do {
     if fd_fw fd \<noteq> None then Some (True, fd, w)
     else do {
       (dpath, fd1, w1) \<leftarrow> build_directory_path S fd w;
       let (ok, px1) = create_dir (s_os S) dpath (w_px w1);
       if \<not> ok then Some (False, fd1, w1\<lparr>w_px := px1\<rparr>)
       else do {
         px2 \<leftarrow> close_opt (fd_fr fd1) px1;
         (b, tag) \<leftarrow> fd_file_tag fd1;
         (fname, fd2) \<leftarrow> write_name (s_os S) px2 dpath tag fd1;
         (f, px3) \<leftarrow> fopen_w (s_os S) fname px2;
         Some (f \<noteq> None, fd2\<lparr>fd_fw := f\<rparr>, w1\<lparr>w_px := px3\<rparr>)
       }
     }
   }"

definition open_read :: "sys \<Rightarrow> file_desc \<Rightarrow> world \<Rightarrow> (bool \<times> file_desc \<times> world) option" where
  "open_read S fd w = do {
     if fd_fr fd \<noteq> None then Some (True, fd, w)
     else do {
       (dpath, fd1, w1) \<leftarrow> build_directory_path S fd w;
       let (ok, px1) = create_dir (s_os S) dpath (w_px w1);
       if \<not> ok then Some (False, fd1, w1\<lparr>w_px := px1\<rparr>)
       else do {
         px2 \<leftarrow> close_opt (fd_fw fd1) px1;
         (b, tag) \<leftarrow> fd_file_tag fd1;
         (f, px3) \<leftarrow> fopen_r (s_os S) (file_name dpath tag None (fd_file_ext fd1)) px2;
         Some (f \<noteq> None, fd1\<lparr>fd_fr := f\<rparr>, w1\<lparr>w_px := px3\<rparr>)
       }
     }
   }"

definition open_file :: "sys \<Rightarrow> 32 word \<Rightarrow> file_desc \<Rightarrow> world \<Rightarrow> (bool \<times> file_desc \<times> world) option" where
  "open_file S rw fd w =
     (if rw = FFILE_READ then open_read S fd w
      else if rw = FFILE_WRITE then open_write S fd w
      else Some (False, fd, w))"

section \<open>The filters\<close>

definition file_of :: "machine_desc \<Rightarrow> file_desc option" where
  "file_of d = (case md_impl d of IMPL_FILE fd \<Rightarrow> Some fd | _ \<Rightarrow> None)"

definition put_file :: "io_handle \<Rightarrow> file_desc \<Rightarrow> world \<Rightarrow> world" where
  "put_file h fd w = upd_desc h (md_impl_update (\<lambda>_. IMPL_FILE fd)) w"

text \<open>\<open>while (remaining)\<close> around \<open>fwrite\<close>: the sum of the counts and the new state.\<close>

partial_function (option) file_write_loop ::
    "os \<Rightarrow> nat \<Rightarrow> memory \<Rightarrow> addr \<Rightarrow> size_t \<Rightarrow> size_t \<Rightarrow> posix \<Rightarrow> (size_t \<times> posix) option" where
  "file_write_loop sy f m ptr remaining t px =
     (if remaining = 0 then Some (t, px)
      else do {
        (b, px') \<leftarrow> fwrite sy f (mem_read m ptr remaining) px;
        file_write_loop sy f m (ptr + b) (sz_sub remaining b) (sz_add t b) px'
      })"

text \<open>The part of \<open>file_write\<close> under the lock, and the whole.\<close>

definition file_write_fd :: "sys \<Rightarrow> addr \<Rightarrow> size_t \<Rightarrow> nat \<Rightarrow> file_desc \<Rightarrow> world \<Rightarrow> (io_status \<times> size_t \<times> file_desc \<times> world) option" where
  "file_write_fd S buf bytes align fd w = do {
     (ok, fd1, w1) \<leftarrow> open_file S FFILE_WRITE fd w;
     if \<not> ok then Some (IO_ERROR, bytes, fd1, w1)
     else if align = 0 then None
     else do {
       f \<leftarrow> fd_fw fd1;
       (t, px) \<leftarrow> file_write_loop (s_os S) f (mem (w_heap w1)) buf (bytes - bytes mod align) 0 (w_px w1);
       (fd2, px2) \<leftarrow> (if has_flag fd1 FFILE_ROTATE then rotate_wfile fd1 px else Some (fd1, px));
       Some (IO_SUCCESS, t, fd2, w1\<lparr>w_px := px2\<rparr>)
     }
   }"

definition file_write :: "sys \<Rightarrow> filter_call" where
  "file_write S a buf bytes block align w =
     (if bytes = 0 then Some (IO_SUCCESS, bytes, w)
      else do {
        h \<leftarrow> handle_of a w;
        (case machine_get_desc h w of
           None \<Rightarrow> Some (IO_ERROR, 0, w)
         | Some d \<Rightarrow> do {
             fd \<leftarrow> file_of d;
             if \<not> has_flag fd FFILE_WRITE then Some (IO_ERROR, 0, w)
             else if md_lock d then None
             else do {
               (st, n, fd', w') \<leftarrow> file_write_fd S buf bytes align fd w;
               Some (st, n, put_file h fd' w')
             }
           })
      })"

text \<open>\<open>while (remaining)\<close> around \<open>fread\<close>; the flag says that the loop was left for want of data.\<close>

partial_function (option) file_read_loop ::
    "os \<Rightarrow> nat \<Rightarrow> addr \<Rightarrow> size_t \<Rightarrow> size_t \<Rightarrow> memory \<Rightarrow> posix \<Rightarrow> (bool \<times> size_t \<times> memory \<times> posix) option" where
  "file_read_loop sy f ptr remaining t m px =
     (if remaining = 0 then Some (False, t, m, px)
      else do {
        (xs, px') \<leftarrow> fread sy f remaining px;
        if xs = [] then Some (True, t, m, px')
        else file_read_loop sy f (ptr + length xs) (sz_sub remaining (length xs)) (sz_add t (length xs)) (mem_write m ptr xs) px'
      })"

definition file_read_fd :: "sys \<Rightarrow> addr \<Rightarrow> size_t \<Rightarrow> nat \<Rightarrow> file_desc \<Rightarrow> world \<Rightarrow> (io_status \<times> size_t \<times> file_desc \<times> world) option" where
  "file_read_fd S buf bytes align fd w = do {
     (ok, fd1, w1) \<leftarrow> open_file S FFILE_READ fd w;
     if \<not> ok then Some (IO_ERROR, bytes, fd1, w1)
     else if align = 0 then None
     else do {
       f \<leftarrow> fd_fr fd1;
       (short, t, m, px) \<leftarrow> file_read_loop (s_os S) f buf (bytes - bytes mod align) 0 (mem (w_heap w1)) (w_px w1);
       let w2 = w1\<lparr>w_px := px, w_heap := (w_heap w1)\<lparr>mem := m\<rparr>\<rparr>;
       if short then do {
         eof \<leftarrow> feof f px;
         Some (if eof then (IO_COMPLETE, t, fd1, w2) else (IO_ERROR, bytes, fd1, w2))
       } else Some (IO_SUCCESS, t, fd1, w2)
     }
   }"

definition file_read :: "sys \<Rightarrow> filter_call" where
  "file_read S a buf bytes block align w = do {
     h \<leftarrow> handle_of a w;
     (case machine_get_desc h w of
        None \<Rightarrow> Some (IO_ERROR, 0, w)
      | Some d \<Rightarrow> do {
          fd \<leftarrow> file_of d;
          if \<not> has_flag fd FFILE_READ then Some (IO_ERROR, 0, w)
          else if md_lock d then None
          else do {
            (st, n, fd', w') \<leftarrow> file_read_fd S buf bytes align fd w;
            Some (st, n, put_file h fd' w')
          }
        })
   }"

text \<open>The filters that rotate before a write have no \<open>return\<close> statement: the status of the next filter is lost.\<close>

definition rotate_fn :: "sys \<Rightarrow> (file_desc \<Rightarrow> posix \<Rightarrow> (file_desc \<times> posix) option) \<Rightarrow> filter_call \<Rightarrow> filter_call" where
  "rotate_fn S rot call a buf bytes block align w = do {
     f \<leftarrow> get_filter a w;
     (case f_obj f of
        OBJ_DESC h \<Rightarrow> do {
          d \<leftarrow> machine_get_desc h w;
          fd \<leftarrow> file_of d;
          if md_lock d then None
          else do {
            (fd1, px1) \<leftarrow> rot fd (w_px w);
            (ret, n, w1) \<leftarrow> call (f_next f) buf bytes block align ((put_file h fd1 w)\<lparr>w_px := px1\<rparr>);
            Some (no_return S w1, n, w1)
          }
        }
      | _ \<Rightarrow> None)
   }"

definition file_rotate_fn :: "sys \<Rightarrow> filter_call \<Rightarrow> filter_call" where
  "file_rotate_fn S = rotate_fn S rotate_wfile"

definition dir_rotate_fn :: "sys \<Rightarrow> filter_call \<Rightarrow> filter_call" where
  "dir_rotate_fn S = rotate_fn S rotate_basedir"

section \<open>The machine\<close>

record fileiom_args =
  fi_fname :: "string option"
  fi_flags :: "32 word"
  fi_root_dir :: "string option"
  fi_base_dir :: "string option"
  fi_ext :: "string option"

definition sizeof_file_desc :: size_t where "sizeof_file_desc = 216"

text \<open>\<open>if (src) set_input_str(p, src, dst)\<close> on a field that is NULL.\<close>

definition input_opt :: "sys \<Rightarrow> pool \<Rightarrow> string option \<Rightarrow> world \<Rightarrow> (cstr \<times> world) option" where
  "input_opt S p src w = (case src of
      None \<Rightarrow> Some (None, w)
    | Some s \<Rightarrow> set_input_str FILE_IOM_MAX_STRLEN S p s None w)"

definition zero_file :: file_desc where
  "zero_file = \<lparr>fd_root_dir = None, fd_base_dir = None, fd_file_tag = None, fd_file_ext = None, fd_timestamp = [],
     fd_date_fmt = [], fd_flags = 0, fd_basedir_index = 0, fd_file_index = 0, fd_fr = None, fd_fw = None\<rparr>"

definition create_file :: "sys \<Rightarrow> fileiom_args \<Rightarrow> world \<Rightarrow> (io_handle \<times> world) option" where
  "create_file S args w = do {
     (m, iom) \<leftarrow> get_iom (w_file_machine w) w;
     let p = create_subpool (s_mem S) (w_heap w) (m_alloc iom);
     if p = 0 then Some (0, w)
     else (case pcalloc (s_mem S) (w_heap w) p sizeof_file_desc of
        None \<Rightarrow> Some (0, discard_pool S p w)
      | Some a \<Rightarrow> do {
          fname \<leftarrow> fi_fname args;
          (tag, w1) \<leftarrow> set_input_str FILE_IOM_MAX_STRLEN S p fname None (add_live a sizeof_file_desc w);
          (root, w2) \<leftarrow> input_opt S p (fi_root_dir args) w1;
          (ext, w3) \<leftarrow> input_opt S p (fi_ext args) w2;
          (fd, w4) \<leftarrow> init_basedir S p (fi_base_dir args) (zero_file\<lparr>fd_file_tag := tag, fd_root_dir := root, fd_file_ext := ext\<rparr>) w3;
          setup_desc S p m ''_file'' FN_FILE_READ ''_file'' FN_FILE_WRITE
            (zero_desc\<lparr>md_impl := IMPL_FILE (fd\<lparr>fd_file_index := 0, fd_date_fmt := TIMESTAMP_FMT, fd_flags := fi_flags args\<rparr>)\<rparr>) w4
        })
   }"

definition destroy_file :: "sys \<Rightarrow> io_handle \<Rightarrow> world \<Rightarrow> world option" where
  "destroy_file S h w = do {
     d \<leftarrow> machine_get_desc h w;
     fd \<leftarrow> file_of d;
     px1 \<leftarrow> close_opt (fd_fr fd) (w_px w);
     px2 \<leftarrow> close_opt (fd_fw fd) px1;
     machine_destroy_desc S h (w\<lparr>w_px := px2\<rparr>)
   }"

definition get_file_machine :: "sys \<Rightarrow> world \<Rightarrow> (nat \<times> world) option" where
  "get_file_machine S w = (case w_file_machine w of
      Some m \<Rightarrow> Some (m, w)
    | None \<Rightarrow> do {
        (mo, w1) \<leftarrow> machine_register S ''file'' w;
        m \<leftarrow> mo;
        let ms = (w_machines w1)[m := (w_machines w1 ! m)\<lparr>m_create := CREATE_FILE, m_destroy := DESTROY_FILE,
                    m_stop := STOP_DISABLE_READ\<rparr>];
        Some (m, w1\<lparr>w_machines := ms, w_file_machine := Some m\<rparr>)
      })"

section \<open>Settings by handle\<close>

definition file_set :: "(file_desc \<Rightarrow> file_desc) \<Rightarrow> io_handle \<Rightarrow> world \<Rightarrow> world option" where
  "file_set g h w = (case machine_get_desc h w of
      None \<Rightarrow> Some w
    | Some d \<Rightarrow> do { fd \<leftarrow> file_of d; Some (put_file h (g fd) w) })"

definition file_iom_set_flags :: "io_handle \<Rightarrow> 32 word \<Rightarrow> world \<Rightarrow> world option" where
  "file_iom_set_flags h flags w = file_set (fd_flags_update (\<lambda>_. flags)) h w"

definition file_iom_set_auto_rotate :: "io_handle \<Rightarrow> world \<Rightarrow> world option" where
  "file_iom_set_auto_rotate h w = file_set (fd_flags_update (\<lambda>f. f OR (FFILE_ROTATE OR FFILE_INDEX))) h w"

definition file_iom_set_auto_date :: "io_handle \<Rightarrow> world \<Rightarrow> world option" where
  "file_iom_set_auto_date h w = file_set (fd_flags_update (\<lambda>f. f OR FFILE_AUTO_DATE)) h w"

definition file_iom_set_auto_date_fmt :: "io_handle \<Rightarrow> string \<Rightarrow> world \<Rightarrow> world option" where
  "file_iom_set_auto_date_fmt h fmt w = file_set (fd_date_fmt_update (\<lambda>_. fmt)) h w"

definition file_iom_set_filetag :: "sys \<Rightarrow> io_handle \<Rightarrow> string \<Rightarrow> world \<Rightarrow> world option" where
  "file_iom_set_filetag S h file_tag w = (case machine_get_desc h w of
      None \<Rightarrow> Some w
    | Some d \<Rightarrow> do {
        fd \<leftarrow> file_of d;
        if md_lock d then None
        else do {
          (fd1, px1) \<leftarrow> rotate_wfile fd (w_px w);
          (tag, w1) \<leftarrow> set_input_str FILE_IOM_MAX_STRLEN S (md_pool d) file_tag (fd_file_tag fd1) (w\<lparr>w_px := px1\<rparr>);
          Some (put_file h (fd1\<lparr>fd_file_tag := tag, fd_file_index := 0\<rparr>) w1)
        }
      })"

definition file_iom_set_rootdir :: "sys \<Rightarrow> io_handle \<Rightarrow> string \<Rightarrow> world \<Rightarrow> world option" where
  "file_iom_set_rootdir S h root_dir w = (case machine_get_desc h w of
      None \<Rightarrow> Some w
    | Some d \<Rightarrow> do {
        fd \<leftarrow> file_of d;
        if md_lock d then None
        else do {
          (root, w1) \<leftarrow> set_input_str FILE_IOM_MAX_STRLEN S (md_pool d) root_dir (fd_root_dir fd) w;
          Some (put_file h (fd\<lparr>fd_root_dir := root\<rparr>) w1)
        }
      })"

section \<open>New machines and filters\<close>

definition new_file_machine ::
    "sys \<Rightarrow> string option \<Rightarrow> string option \<Rightarrow> string option \<Rightarrow> 32 word \<Rightarrow> world \<Rightarrow> (io_handle \<times> world) option" where
  "new_file_machine S rootdir fname ext flags w = do {
     (m, w1) \<leftarrow> get_file_machine S w;
     create_file S \<lparr>fi_fname = fname, fi_flags = flags, fi_root_dir = rootdir, fi_base_dir = None, fi_ext = ext\<rparr> w1
   }"

definition new_file_read_machine :: "sys \<Rightarrow> string \<Rightarrow> world \<Rightarrow> (io_handle \<times> world) option" where
  "new_file_read_machine S fname w =
     (if length fname \<ge> FILE_IOM_MAX_PATHLEN then Some (0, w)
      else let root = dirname fname; base = basename fname in
        case strrchr (CHR ''.'') base of
          None \<Rightarrow> new_file_machine S (Some root) (Some base) None FFILE_READ w
        | Some i \<Rightarrow>
            if i = 0 then new_file_machine S (Some root) (Some base) None FFILE_READ w
            else new_file_machine S (Some root) (Some (take i base)) (Some (drop (Suc i) base)) FFILE_READ w)"

definition new_file_write_machine ::
    "sys \<Rightarrow> string option \<Rightarrow> string option \<Rightarrow> string option \<Rightarrow> world \<Rightarrow> (io_handle \<times> world) option" where
  "new_file_write_machine S rootdir fname ext w = new_file_machine S rootdir fname ext FFILE_WRITE w"

definition file_rotate_filter :: "sys \<Rightarrow> io_handle \<Rightarrow> world \<Rightarrow> (addr \<times> world) option" where
  "file_rotate_filter S h w = (case machine_get_desc h w of
      None \<Rightarrow> Some (0, w)
    | Some d \<Rightarrow> do {
        fd \<leftarrow> file_of d;
        (m, iom) \<leftarrow> get_iom (w_file_machine w) w;
        let p = create_subpool (s_mem S) (w_heap w) (m_alloc iom);
        (f, w1) \<leftarrow> create_filter S p (snprintf 64 (''file-machine-'' @ fmt_d h @ '' rotate filter'')) FN_FILE_ROTATE w;
        w2 \<leftarrow> upd_filter f (f_obj_update (\<lambda>_. OBJ_DESC h)) w1;
        Some (f, put_file h (fd\<lparr>fd_flags := fd_flags fd OR FFILE_INDEX, fd_file_index := 0\<rparr>) w2)
      })"

definition file_dir_rotate_filter :: "sys \<Rightarrow> io_handle \<Rightarrow> string option \<Rightarrow> world \<Rightarrow> (addr \<times> world) option" where
  "file_dir_rotate_filter S h basedir w = (case machine_get_desc h w of
      None \<Rightarrow> Some (0, w)
    | Some d \<Rightarrow> do {
        fd \<leftarrow> file_of d;
        (m, iom) \<leftarrow> get_iom (w_file_machine w) w;
        let p = create_subpool (s_mem S) (w_heap w) (m_alloc iom);
        (f, w1) \<leftarrow> create_filter S p (snprintf 64 (''file-machine-'' @ fmt_d h @ '' dir rotate filter'')) FN_DIR_ROTATE w;
        (fd1, w2) \<leftarrow> init_basedir S p basedir (fd\<lparr>fd_flags := fd_flags fd OR (FFILE_ROTATE OR FFILE_DIR_ROTATE)\<rparr>) w1;
        w3 \<leftarrow> upd_filter f (f_obj_update (\<lambda>_. OBJ_DESC h)) w2;
        Some (f, put_file h (fd1\<lparr>fd_file_index := 0\<rparr>) w3)
      })"

end
