(* ===== verification/Fifo_Machine.thy ===== *)
theory Fifo_Machine
  imports File_Machine
begin

text \<open>
  Model of \<open>src/fifo-machine.c\<close>: a machine on a named pipe. The results of \<open>read\<close> and \<open>write\<close> go into a
  \<open>size_t\<close>, so that -1 becomes the largest value and goes on being used as a count.
  \<open>open_fifo_bak\<close> is not called by anything and left out.
\<close>

section \<open>Opening\<close>

definition FFIFO_READ :: "32 word" where "FFIFO_READ = 0x1"
definition FFIFO_WRITE :: "32 word" where "FFIFO_WRITE = 0x2"
definition FFIFO_LEAVE_OPEN :: "32 word" where "FFIFO_LEAVE_OPEN = 0x10"
definition FIFO_IOM_MAX_STRLEN :: size_t where "FIFO_IOM_MAX_STRLEN = 2048"

definition fifo_set_input_str :: "sys \<Rightarrow> pool \<Rightarrow> string \<Rightarrow> cstr \<Rightarrow> world \<Rightarrow> (cstr \<times> world) option" where
  "fifo_set_input_str S p src dst w = set_input_str FIFO_IOM_MAX_STRLEN S p src dst w"

definition fifo_of :: "machine_desc \<Rightarrow> fifo_desc option" where
  "fifo_of d = (case md_impl d of IMPL_FIFO fd \<Rightarrow> Some fd | _ \<Rightarrow> None)"

definition put_fifo :: "io_handle \<Rightarrow> fifo_desc \<Rightarrow> world \<Rightarrow> world" where
  "put_fifo h fd w = upd_desc h (md_impl_update (\<lambda>_. IMPL_FIFO fd)) w"

text \<open>The file number, 0 if the pipe could not be opened (or was given the number 0).\<close>

definition open_fifo :: "os \<Rightarrow> fifo_desc \<Rightarrow> posix \<Rightarrow> (int \<times> fifo_desc \<times> posix) option" where
  "open_fifo sy fd px =
     (if ff_f fd \<noteq> 0 then Some (ff_f fd, fd, px)
      else do {
        (a, fname) \<leftarrow> ff_fname fd;
        (f, px1) \<leftarrow> open_rdwr sy fname px;
        if f < 0 then Some (ff_f fd, fd, px1) else Some (f, fd\<lparr>ff_f := f\<rparr>, px1)
      })"

section \<open>The filters\<close>

text \<open>The result of \<open>write\<close> as a \<open>size_t\<close>, and a pointer moved by it.\<close>

definition as_size :: "nat option \<Rightarrow> size_t" where
  "as_size r = (case r of None \<Rightarrow> sz_max - 1 | Some n \<Rightarrow> n)"

definition ptr_add :: "addr \<Rightarrow> size_t \<Rightarrow> addr" where
  "ptr_add p n = (p + n) mod sz_max"

partial_function (option) fifo_write_loop ::
    "os \<Rightarrow> int \<Rightarrow> memory \<Rightarrow> addr \<Rightarrow> size_t \<Rightarrow> size_t \<Rightarrow> posix \<Rightarrow> (size_t \<times> posix) option" where
  "fifo_write_loop sy f m ptr remaining t px =
     (if remaining = 0 then Some (t, px)
      else do {
        (r, px') \<leftarrow> write_fd sy f (mem_read m ptr remaining) px;
        let b = as_size r;
        fifo_write_loop sy f m (ptr_add ptr b) (sz_sub remaining b) (sz_add t b) px'
      })"

definition fifo_write :: "sys \<Rightarrow> filter_call" where
  "fifo_write S a buf bytes block align w =
     (if bytes = 0 then Some (IO_SUCCESS, bytes, w)
      else do {
        h \<leftarrow> handle_of a w;
        (case machine_get_desc h w of
           None \<Rightarrow> Some (IO_ERROR, 0, w)
         | Some d \<Rightarrow> do {
             fd \<leftarrow> fifo_of d;
             if md_lock d then None
             else do {
               (f, fd1, px1) \<leftarrow> open_fifo (s_os S) fd (w_px w);
               let w1 = (put_fifo h fd1 w)\<lparr>w_px := px1\<rparr>;
               if f = 0 then Some (IO_ERROR, bytes, w1)
               else if align = 0 then None
               else do {
                 (t, px2) \<leftarrow> fifo_write_loop (s_os S) f (mem (w_heap w)) buf (bytes - bytes mod align) 0 px1;
                 Some (IO_SUCCESS, t, w1\<lparr>w_px := px2\<rparr>)
               }
             }
           })
      })"

text \<open>\<open>if (b < 1)\<close> is true for 0 only.\<close>

definition fifo_read :: "sys \<Rightarrow> filter_call" where
  "fifo_read S a buf bytes block align w = do {
     h \<leftarrow> handle_of a w;
     (case machine_get_desc h w of
        None \<Rightarrow> Some (IO_ERROR, 0, w)
      | Some d \<Rightarrow> do {
          fd \<leftarrow> fifo_of d;
          if md_lock d then None
          else do {
            (f, fd1, px1) \<leftarrow> open_fifo (s_os S) fd (w_px w);
            let w1 = (put_fifo h fd1 w)\<lparr>w_px := px1\<rparr>;
            if f = 0 then Some (IO_ERROR, bytes, w1)
            else if align = 0 then None
            else do {
              (r, px2) \<leftarrow> read_fd (s_os S) f (bytes - bytes mod align) px1;
              let b = as_size (map_option length r);
              let xs = (case r of None \<Rightarrow> [] | Some xs \<Rightarrow> xs);
              let w2 = w1\<lparr>w_px := px2, w_heap := (w_heap w)\<lparr>mem := mem_write (mem (w_heap w)) buf xs\<rparr>\<rparr>;
              if b < 1 then Some (IO_ERROR, 0, w2) else Some (IO_SUCCESS, b, w2)
            }
          }
        })
   }"

section \<open>The machine\<close>

definition sizeof_fifo_desc :: size_t where "sizeof_fifo_desc = 152"

definition create_fifo :: "sys \<Rightarrow> string option \<Rightarrow> 32 word \<Rightarrow> world \<Rightarrow> (io_handle \<times> world) option" where
  "create_fifo S fname flags w = do {
     (m, iom) \<leftarrow> get_iom (w_fifo_machine w) w;
     let p = create_subpool (s_mem S) (w_heap w) (m_alloc iom);
     if p = 0 then Some (0, w)
     else (case pcalloc (s_mem S) (w_heap w) p sizeof_fifo_desc of
        None \<Rightarrow> Some (0, discard_pool S p w)
      | Some a \<Rightarrow> do {
          name \<leftarrow> fname;
          (s, w1) \<leftarrow> fifo_set_input_str S p name None (add_live a sizeof_fifo_desc w);
          setup_desc S p m ''_fifo'' FN_FIFO_READ ''_fifo'' FN_FIFO_WRITE
            (zero_desc\<lparr>md_impl := IMPL_FIFO \<lparr>ff_fname = s, ff_flags = flags, ff_fr = None, ff_fw = None, ff_f = 0\<rparr>\<rparr>) w1
        })
   }"

text \<open>\<open>desc->flags & FFIFO_LEAVE_OPEN == 0\<close> is \<open>desc->flags & (FFIFO_LEAVE_OPEN == 0)\<close>, which is 0: nothing is closed.\<close>

definition leave_open_test :: "fifo_desc \<Rightarrow> bool" where
  "leave_open_test fd \<longleftrightarrow> ff_flags fd AND (if FFIFO_LEAVE_OPEN = 0 then 1 else 0) \<noteq> 0"

definition destroy_fifo :: "sys \<Rightarrow> io_handle \<Rightarrow> world \<Rightarrow> world option" where
  "destroy_fifo S h w = do {
     d \<leftarrow> machine_get_desc h w;
     fd \<leftarrow> fifo_of d;
     px \<leftarrow> (if leave_open_test fd then do { px1 \<leftarrow> close_opt (ff_fr fd) (w_px w); close_opt (ff_fw fd) px1 } else Some (w_px w));
     machine_destroy_desc S h (w\<lparr>w_px := px\<rparr>)
   }"

definition get_fifo_machine :: "sys \<Rightarrow> world \<Rightarrow> (nat \<times> world) option" where
  "get_fifo_machine S w = (case w_fifo_machine w of
      Some m \<Rightarrow> Some (m, w)
    | None \<Rightarrow> do {
        (mo, w1) \<leftarrow> machine_register S ''fifo'' w;
        m \<leftarrow> mo;
        let ms = (w_machines w1)[m := (w_machines w1 ! m)\<lparr>m_create := CREATE_FIFO, m_destroy := DESTROY_FIFO,
                    m_stop := STOP_DISABLE_READ\<rparr>];
        Some (m, w1\<lparr>w_machines := ms, w_fifo_machine := Some m\<rparr>)
      })"

definition fifo_iom_set_leave_open :: "io_handle \<Rightarrow> world \<Rightarrow> world option" where
  "fifo_iom_set_leave_open h w = do {
     d \<leftarrow> machine_get_desc h w;
     fd \<leftarrow> fifo_of d;
     Some (put_fifo h (fd\<lparr>ff_flags := ff_flags fd OR FFIFO_LEAVE_OPEN\<rparr>) w)
   }"

definition new_fifo_machine :: "sys \<Rightarrow> string option \<Rightarrow> 32 word \<Rightarrow> world \<Rightarrow> (io_handle \<times> world) option" where
  "new_fifo_machine S fname flags w = do { (m, w1) \<leftarrow> get_fifo_machine S w; create_fifo S fname flags w1 }"

definition new_fifo_read_machine :: "sys \<Rightarrow> string option \<Rightarrow> world \<Rightarrow> (io_handle \<times> world) option" where
  "new_fifo_read_machine S fname w = new_fifo_machine S fname FFIFO_READ w"

definition new_fifo_write_machine :: "sys \<Rightarrow> string option \<Rightarrow> world \<Rightarrow> (io_handle \<times> world) option" where
  "new_fifo_write_machine S fname w = new_fifo_machine S fname FFIFO_WRITE w"

end
