(* ===== verification/Socket_Machine.thy ===== *)
theory Socket_Machine
  imports Fifo_Machine
begin

text \<open>
  Model of \<open>src/socket-machine.c\<close>: datagram sockets as machines. Sockets have a list of their own, so that the
  functions of \<open>machine.c\<close> do not find them; their machine has its own read and write functions. An
  address is kept as the numbers it was given as, without the change of byte order.
\<close>

definition UDP_PACKET_SIZE :: size_t where "UDP_PACKET_SIZE = 1500 - 20 - 8"

section \<open>The list of sockets\<close>

text \<open>The list has a lock; taking it while it is held blocks.\<close>

definition add_socket :: "sock_desc \<Rightarrow> world \<Rightarrow> world option" where
  "add_socket sock w = (if w_sock_list_lock w then None else Some (w\<lparr>w_socks := w_socks w @ [sock]\<rparr>))"

definition get_socket :: "io_handle \<Rightarrow> world \<Rightarrow> sock_desc option option" where
  "get_socket h w = (if w_sock_list_lock w then None else Some (find (\<lambda>s. sk_handle s = h) (w_socks w)))"

text \<open>Change the first socket with the handle.\<close>

fun upd_sock :: "io_handle \<Rightarrow> (sock_desc \<Rightarrow> sock_desc) \<Rightarrow> sock_desc list \<Rightarrow> sock_desc list" where
  "upd_sock h g [] = []"
| "upd_sock h g (s # ss) = (if sk_handle s = h then g s # ss else s # upd_sock h g ss)"

definition acquire_socket :: "io_handle \<Rightarrow> world \<Rightarrow> world option" where
  "acquire_socket h w = do {
     s \<leftarrow> find (\<lambda>s. sk_handle s = h) (w_socks w);
     if sk_lock s then None else Some (w\<lparr>w_socks := upd_sock h (\<lambda>s. s\<lparr>sk_in_use := sk_in_use s + 1\<rparr>) (w_socks w)\<rparr>)
   }"

definition release_socket :: "io_handle \<Rightarrow> world \<Rightarrow> world option" where
  "release_socket h w = do {
     s \<leftarrow> find (\<lambda>s. sk_handle s = h) (w_socks w);
     if sk_lock s then None else Some (w\<lparr>w_socks := upd_sock h (\<lambda>s. s\<lparr>sk_in_use := sk_in_use s - 1\<rparr>) (w_socks w)\<rparr>)
   }"

fun remove_sock :: "io_handle \<Rightarrow> sock_desc list \<Rightarrow> sock_desc list" where
  "remove_sock h [] = []"
| "remove_sock h (s # ss) = (if sk_handle s = h then ss else s # remove_sock h ss)"

text \<open>For a handle that is not found, \<open>destroy_sock\<close> returns with the lock of the list held. With no other thread a
  socket in use is never released.\<close>

definition destroy_sock :: "sys \<Rightarrow> io_handle \<Rightarrow> world \<Rightarrow> world option" where
  "destroy_sock S h w =
     (if w_sock_list_lock w then None
      else case find (\<lambda>s. sk_handle s = h) (w_socks w) of
        None \<Rightarrow> Some (w\<lparr>w_sock_list_lock := True\<rparr>)
      | Some s \<Rightarrow>
          if sk_in_use s \<noteq> 0 then None
          else Some (w\<lparr>w_socks := remove_sock h (w_socks w), w_px := close_socket (sk_fd s) (w_px w),
                 w_heap := free_pool (s_mem S) (sk_pool s) (w_heap w)\<rparr>))"

section \<open>The filters\<close>

text \<open>The result -1 of \<open>recvfrom\<close> goes into a \<open>size_t\<close>, so that the test for an error never holds. A datagram of
  no bytes ends the read.\<close>

partial_function (option) udp_read_loop ::
    "os \<Rightarrow> sock_desc \<Rightarrow> size_t \<Rightarrow> addr \<Rightarrow> size_t \<Rightarrow> size_t \<Rightarrow> memory \<Rightarrow> posix \<Rightarrow> (size_t \<times> memory \<times> posix) option" where
  "udp_read_loop sy sk bytes buf remaining t m px =
     (if remaining = 0 then Some (bytes, m, px)
      else if sk_lock sk then None
      else do {
        let b = (if remaining > sk_payload_size sk then sk_payload_size sk else remaining);
        (r, px') \<leftarrow> recvfrom sy (sk_fd sk) b px;
        let n = as_size (map_option length r);
        let m' = mem_write m buf (case r of None \<Rightarrow> [] | Some xs \<Rightarrow> xs);
        if n = 0 then Some (t, m', px')
        else udp_read_loop sy sk bytes (ptr_add buf n) (sz_sub remaining n) (sz_add t n) m' px'
      })"

definition udp_read :: "sys \<Rightarrow> filter_call" where
  "udp_read S a buf bytes block align w = do {
     h \<leftarrow> handle_of a w;
     so \<leftarrow> get_socket h w;
     (case so of
        None \<Rightarrow> Some (IO_ERROR, 0, w)
      | Some sk \<Rightarrow> do {
          (n, m, px) \<leftarrow> udp_read_loop (s_os S) sk bytes buf bytes 0 (mem (w_heap w)) (w_px w);
          Some (IO_SUCCESS, n, w\<lparr>w_px := px, w_heap := (w_heap w)\<lparr>mem := m\<rparr>\<rparr>)
        })
   }"

text \<open>The loop of \<open>udp_write\<close>: the bytes written, or \<open>None\<close> for an error of \<open>sendto\<close>.\<close>

partial_function (option) udp_write_loop ::
    "os \<Rightarrow> sock_desc \<Rightarrow> memory \<Rightarrow> addr \<Rightarrow> size_t \<Rightarrow> size_t \<Rightarrow> posix \<Rightarrow> (size_t option \<times> posix) option" where
  "udp_write_loop sy sk m buf remaining written px =
     (if remaining = 0 then Some (Some written, px)
      else let b = (if remaining > sk_payload_size sk then sk_payload_size sk else remaining) in
        case sendto sy (sk_fd sk) (mem_read m buf b) (sk_ip sk) (sk_port sk) px of
          (None, px') \<Rightarrow> Some (None, px')
        | (Some n, px') \<Rightarrow> udp_write_loop sy sk m (buf + n) (sz_sub remaining n) (sz_add written n) px')"

text \<open>After an error the socket's lock stays held.\<close>

definition udp_write :: "sys \<Rightarrow> filter_call" where
  "udp_write S a buf bytes block align w = do {
     h \<leftarrow> handle_of a w;
     so \<leftarrow> get_socket h w;
     (case so of
        None \<Rightarrow> Some (IO_ERROR, 0, w)
      | Some sk \<Rightarrow>
          if sk_lock sk then None
          else do {
            (r, px) \<leftarrow> udp_write_loop (s_os S) sk (mem (w_heap w)) buf bytes 0 (w_px w);
            (case r of
               None \<Rightarrow> Some (IO_ERROR, 0, w\<lparr>w_px := px, w_socks := upd_sock h (sk_lock_update (\<lambda>_. True)) (w_socks w)\<rparr>)
             | Some n \<Rightarrow> Some (IO_SUCCESS, n, w\<lparr>w_px := px\<rparr>))
          })
   }"

definition tcp_read :: filter_call where
  "tcp_read a buf bytes block align w = Some (IO_SUCCESS, bytes, w)"

definition tcp_write :: filter_call where
  "tcp_write a buf bytes block align w = Some (IO_SUCCESS, bytes, w)"

section \<open>The machine\<close>

definition sock_filter :: "sock_desc \<Rightarrow> string \<times> io_filter_fn" where
  "sock_filter sk = (case sk_protocol sk of
      AF_INET_UDP \<Rightarrow> (''_udp'', case sk_type sk of SOCK_TYPE_SERVER \<Rightarrow> FN_UDP_READ | SOCK_TYPE_CLIENT \<Rightarrow> FN_UDP_WRITE)
    | AF_INET_TCP \<Rightarrow> (''_tcp'', case sk_type sk of SOCK_TYPE_SERVER \<Rightarrow> FN_TCP_READ | SOCK_TYPE_CLIENT \<Rightarrow> FN_TCP_WRITE))"

definition sizeof_io_handle :: size_t where "sizeof_io_handle = 4"

definition init_filters :: "sys \<Rightarrow> sock_desc \<Rightarrow> world \<Rightarrow> (io_status \<times> sock_desc \<times> world) option" where
  "init_filters S sk w = (let fpool = create_subpool (s_mem S) (w_heap w) (sk_pool sk) in
     case pcalloc (s_mem S) (w_heap w) fpool sizeof_io_desc of
       None \<Rightarrow> Some (IO_ERROR, sk, discard_pool S fpool w)
     | Some a \<Rightarrow> do {
         let (name, fn) = sock_filter sk;
         (fil, w1) \<leftarrow> create_filter S fpool name fn (add_live a sizeof_io_desc w);
         f \<leftarrow> get_filter fil w1;
         b \<leftarrow> palloc (s_mem S) (w_heap w1) (f_alloc f) sizeof_io_handle;
         w2 \<leftarrow> upd_filter fil (f_obj_update (\<lambda>_. OBJ_HANDLE (sk_handle sk))) (add_live b sizeof_io_handle w1);
         let io = \<lparr>io_state = IO_DESC_ENABLED, io_size = 0, io_alloc = fpool, io_obj = fil\<rparr>;
         Some (IO_SUCCESS, case sk_type sk of
             SOCK_TYPE_SERVER \<Rightarrow> sk\<lparr>sk_io_read := Some io\<rparr>
           | SOCK_TYPE_CLIENT \<Rightarrow> sk\<lparr>sk_io_write := Some io\<rparr>, w2)
       })"

record sockiom_args =
  so_ip :: "32 word"
  so_port :: "16 word"
  so_type :: sock_type_e
  so_protocol :: sock_protocol_e
  so_payload_size :: size_t

definition sizeof_sock_desc :: size_t where "sizeof_sock_desc = 136"

text \<open>When \<open>socket\<close> fails, the status \<open>IO_ERROR\<close> is returned as the handle; the pool is kept then, and when \<open>bind\<close> fails
  the socket is, too.\<close>

definition create_sock :: "sys \<Rightarrow> sockiom_args \<Rightarrow> world \<Rightarrow> (io_handle \<times> world) option" where
  "create_sock S args w = do {
     (m, iom) \<leftarrow> get_iom (w_socket_machine w) w;
     let p = create_subpool (s_mem S) (w_heap w) (m_alloc iom);
     if p = 0 then Some (0, w)
     else (case pcalloc (s_mem S) (w_heap w) p sizeof_sock_desc of
        None \<Rightarrow> Some (0, discard_pool S p w)
      | Some a \<Rightarrow> do {
          let w1 = add_live a sizeof_sock_desc w;
          let (fd, px1) = socket (s_os S) (w_px w1);
          if fd < 0 then Some (io_code IO_ERROR, w1\<lparr>w_px := px1\<rparr>)
          else if so_type args = SOCK_TYPE_SERVER \<and> \<not> os_bind_ok (s_os S) px1 fd (so_ip args) (so_port args)
          then Some (0, w1\<lparr>w_px := px1\<rparr>)
          else do {
            (h, w2) \<leftarrow> request_handle S m (w1\<lparr>w_px := px1\<rparr>);
            (st, sk, w3) \<leftarrow> init_filters S \<lparr>sk_fd = fd, sk_type = so_type args, sk_protocol = so_protocol args, sk_ip = so_ip args,
               sk_port = so_port args, sk_payload_size = so_payload_size args, sk_handle = h, sk_in_use = 0, sk_lock = False,
               sk_io_read = None, sk_io_write = None, sk_pool = p\<rparr> w2;
            if st < IO_SUCCESS then Some (0, discard_pool S p w3)
            else do { w4 \<leftarrow> add_socket sk w3; Some (h, w4) }
          }
        })
   }"

definition sock_read :: "filter_call \<Rightarrow> io_handle \<Rightarrow> addr \<Rightarrow> size_t \<Rightarrow> world \<Rightarrow> (io_status \<times> size_t \<times> world) option" where
  "sock_read call h buf len w = do {
     so \<leftarrow> get_socket h w;
     (case so of
        None \<Rightarrow> Some (IO_ERROR, 0, w)
      | Some sk \<Rightarrow> do {
          w1 \<leftarrow> acquire_socket h w;
          io \<leftarrow> sk_io_read sk;
          (st, n, w2) \<leftarrow> call (io_obj io) buf len IO_NO_BLOCK IO_DEFAULT_ALIGN w1;
          w3 \<leftarrow> release_socket h w2;
          Some (st, n, w3)
        })
   }"

definition sock_write :: "filter_call \<Rightarrow> io_handle \<Rightarrow> addr \<Rightarrow> size_t \<Rightarrow> world \<Rightarrow> (io_status \<times> size_t \<times> world) option" where
  "sock_write call h buf len w = do {
     so \<leftarrow> get_socket h w;
     (case so of
        None \<Rightarrow> Some (IO_ERROR, 0, w)
      | Some sk \<Rightarrow> do {
          w1 \<leftarrow> acquire_socket h w;
          io \<leftarrow> sk_io_write sk;
          (st, n, w2) \<leftarrow> call (io_obj io) buf len IO_NO_BLOCK IO_DEFAULT_ALIGN w1;
          w3 \<leftarrow> release_socket h w2;
          Some (st, n, w3)
        })
   }"

definition get_sock_machine :: "sys \<Rightarrow> world \<Rightarrow> (nat \<times> world) option" where
  "get_sock_machine S w = (case w_socket_machine w of
      Some m \<Rightarrow> Some (m, w)
    | None \<Rightarrow> do {
        (mo, w1) \<leftarrow> machine_register S ''socket'' w;
        m \<leftarrow> mo;
        let ms = (w_machines w1)[m := (w_machines w1 ! m)\<lparr>m_create := CREATE_SOCK, m_destroy := DESTROY_SOCK,
                    m_stop := STOP_DISABLE_READ\<rparr>];
        Some (m, w1\<lparr>w_machines := ms, w_socket_machine := Some m\<rparr>)
      })"

text \<open>\<open>set_payload_size\<close> looks for the socket among the machine descriptors: it does nothing to a socket, and
  writes into a descriptor of another type if there is one with that handle.\<close>

definition set_payload_size :: "io_handle \<Rightarrow> size_t \<Rightarrow> world \<Rightarrow> world option" where
  "set_payload_size h n w = (case machine_get_desc h w of None \<Rightarrow> Some w | Some d \<Rightarrow> None)"

definition new_socket_machine ::
    "sys \<Rightarrow> 32 word \<Rightarrow> 16 word \<Rightarrow> size_t \<Rightarrow> sock_type_e \<Rightarrow> sock_protocol_e \<Rightarrow> world \<Rightarrow> (io_handle \<times> world) option" where
  "new_socket_machine S ip port payload_size type protocol w = do {
     (m, w1) \<leftarrow> get_sock_machine S w;
     create_sock S \<lparr>so_ip = ip, so_port = port, so_type = type, so_protocol = protocol, so_payload_size = payload_size\<rparr> w1
   }"

definition new_udp_server_machine :: "sys \<Rightarrow> 32 word \<Rightarrow> 16 word \<Rightarrow> world \<Rightarrow> (io_handle \<times> world) option" where
  "new_udp_server_machine S ip port w = new_socket_machine S ip port UDP_PACKET_SIZE SOCK_TYPE_SERVER AF_INET_UDP w"

definition new_udp_client_machine :: "sys \<Rightarrow> 32 word \<Rightarrow> 16 word \<Rightarrow> world \<Rightarrow> (io_handle \<times> world) option" where
  "new_udp_client_machine S ip port w = new_socket_machine S ip port UDP_PACKET_SIZE SOCK_TYPE_CLIENT AF_INET_UDP w"

end
