(* ===== verification/Sdr_Rx.thy ===== *)
theory Sdr_Rx
  imports Socket_Machine
begin

text \<open>
  Model of \<open>src/sdr/sdr-rx-machine.c\<close>, the part that the radio machines share: devices and their channels, and reading,
  directly from the hardware or through a ring of blocks that a thread of its own fills. The functions of the
  particular radio are an argument \<open>A\<close>, by the \<open>SDR_API\<close> that the machine points to.
\<close>

section \<open>Channels\<close>

text \<open>A call of the library of a radio.\<close>

definition hw_call :: "(nat \<Rightarrow> 'a) \<Rightarrow> world \<Rightarrow> 'a \<times> world" where
  "hw_call f w = (f (w_hw w), w\<lparr>w_hw := Suc (w_hw w)\<rparr>)"

definition chan_of :: "machine_desc \<Rightarrow> sdr_channel option" where
  "chan_of d = (case md_impl d of IMPL_SDR c \<Rightarrow> Some c | _ \<Rightarrow> None)"

definition put_chan :: "io_handle \<Rightarrow> sdr_channel \<Rightarrow> world \<Rightarrow> world" where
  "put_chan h c w = upd_desc h (md_impl_update (\<lambda>_. IMPL_SDR c)) w"

definition upd_chan :: "io_handle \<Rightarrow> (sdr_channel \<Rightarrow> sdr_channel) \<Rightarrow> world \<Rightarrow> world option" where
  "upd_chan h g w = do {
     d \<leftarrow> machine_get_desc h w;
     c \<leftarrow> chan_of d;
     Some (put_chan h (g c) w)
   }"

definition SDR_RX_CHAN_ALLOC :: nat where "SDR_RX_CHAN_ALLOC = 10"
definition sizeof_chan_ptr :: size_t where "sizeof_chan_ptr = 8"

fun upd_dev :: "addr \<Rightarrow> (sdr_device \<Rightarrow> sdr_device) \<Rightarrow> sdr_device list \<Rightarrow> sdr_device list" where
  "upd_dev p g [] = []"
| "upd_dev p g (d # ds) = (if sd_ptr d = p then g d # ds else d # upd_dev p g ds)"

definition get_dev :: "addr \<Rightarrow> world \<Rightarrow> sdr_device option" where
  "get_dev p w = find (\<lambda>d. sd_ptr d = p) (w_devices w)"

definition add_channel :: "sys \<Rightarrow> addr \<Rightarrow> sdr_channel \<Rightarrow> world \<Rightarrow> (sdr_channel \<times> world) option" where
  "add_channel S dev chan w = do {
     d \<leftarrow> get_dev dev w;
     (d1, w1) \<leftarrow> (if length (sd_channels d) \<ge> sd_chan_len d then do {
          let len = sd_chan_len d + SDR_RX_CHAN_ALLOC;
          let bytes = sizeof_chan_ptr * len;
          if len = SDR_RX_CHAN_ALLOC then do {
            a \<leftarrow> pcalloc (s_mem S) (w_heap w) (sd_pool d) bytes;
            Some (d\<lparr>sd_chan_len := len, sd_channels_ptr := a\<rparr>, add_live a bytes w)
          } else do {
            (a, hp) \<leftarrow> repalloc S (w_heap w) (sd_channels_ptr d) bytes (sd_pool d);
            Some (d\<lparr>sd_chan_len := len, sd_channels_ptr := a\<rparr>, w\<lparr>w_heap := hp\<rparr>)
          }
        } else Some (d, w));
     Some (chan\<lparr>sc_device := dev\<rparr>,
       w1\<lparr>w_devices := upd_dev dev (\<lambda>_. d1\<lparr>sd_channels := sd_channels d1 @ [sc_ptr chan]\<rparr>) (w_devices w1)\<rparr>)
   }"

text \<open>The list without the first channel that has the handle; \<open>None\<close> inside the result if there is none.\<close>

fun without_channel :: "addr list \<Rightarrow> io_handle \<Rightarrow> world \<Rightarrow> addr list option option" where
  "without_channel [] h w = Some None"
| "without_channel (p # ps) h w = do {
     d \<leftarrow> channel_at p w;
     if md_handle d = h then Some (Some ps)
     else do {
       r \<leftarrow> without_channel ps h w;
       Some (map_option ((#) p) r)
     }
   }"

definition remove_channel_from_device :: "io_handle \<Rightarrow> sdr_channel \<Rightarrow> world \<Rightarrow> world option" where
  "remove_channel_from_device h chan w =
     (if sc_device chan = 0 then Some w
      else do {
        dev \<leftarrow> get_dev (sc_device chan) w;
        r \<leftarrow> without_channel (sd_channels dev) h w;
        (case r of
           None \<Rightarrow> Some w
         | Some ps \<Rightarrow> Some (w\<lparr>w_devices := upd_dev (sd_ptr dev) (sd_channels_update (\<lambda>_. ps)) (w_devices w)\<rparr>))
      })"

section \<open>Devices\<close>

fun remove_dev :: "addr \<Rightarrow> sdr_device list \<Rightarrow> sdr_device list" where
  "remove_dev p [] = []"
| "remove_dev p (d # ds) = (if sd_ptr d = p then ds else d # remove_dev p ds)"

text \<open>A device is destroyed with its last channel.\<close>

definition cleanup_device :: "sys \<Rightarrow> (sdr_api_id \<Rightarrow> sdr_api) \<Rightarrow> addr \<Rightarrow> world \<Rightarrow> world option" where
  "cleanup_device S A device w = (case get_dev device w of
      None \<Rightarrow> Some w
    | Some d \<Rightarrow>
        if sd_channels d \<noteq> [] then Some w
        else do {
          w1 \<leftarrow> api_destroy_device (A (sd_destroy d)) d w;
          Some (discard_pool S (sd_pool d) (w1\<lparr>w_devices := remove_dev device (w_devices w1)\<rparr>))
        })"

definition sdr_destroy :: "sys \<Rightarrow> (sdr_api_id \<Rightarrow> sdr_api) \<Rightarrow> io_handle \<Rightarrow> world \<Rightarrow> world option" where
  "sdr_destroy S A h w = (case machine_get_desc h w of
      None \<Rightarrow> Some w
    | Some d \<Rightarrow> do {
        c \<leftarrow> chan_of d;
        w1 \<leftarrow> remove_channel_from_device h c w;
        w2 \<leftarrow> (case sc_destroy c of
             None \<Rightarrow> Some w1
           | Some i \<Rightarrow> if md_lock d then None else api_destroy_channel (A i) h w1);
        w3 \<leftarrow> machine_destroy_desc S h w2;
        cleanup_device S A (sc_device c) w3
      })"

definition add_device :: "sdr_device \<Rightarrow> world \<Rightarrow> world" where
  "add_device dev w = w\<lparr>w_devices := w_devices w @ [dev]\<rparr>"

definition sdr_rx_write :: "io_handle \<Rightarrow> addr \<Rightarrow> size_t \<Rightarrow> world \<Rightarrow> (io_status \<times> size_t \<times> world) option" where
  "sdr_rx_write h buf len w = Some (IO_ERROR, len, w)"

definition sdr_init_filters :: "sys \<Rightarrow> sdr_api \<Rightarrow> machine_desc \<Rightarrow> world \<Rightarrow> (io_status \<times> machine_desc \<times> world) option" where
  "sdr_init_filters S a d w = (case api_rx_filter a of
      None \<Rightarrow> Some (IO_ERROR, d, w)
    | Some rx \<Rightarrow> (case pcalloc (s_mem S) (w_heap w) (md_pool d) sizeof_io_desc of
        None \<Rightarrow> Some (IO_ERROR, d\<lparr>md_io_read := None\<rparr>, w)
      | Some p \<Rightarrow> do {
          (f, w1) \<leftarrow> rx (md_pool d) (add_live p sizeof_io_desc w);
          let io = \<lparr>io_state = IO_DESC_ENABLED, io_size = 0, io_alloc = md_pool d, io_obj = f\<rparr>;
          if f = 0 then Some (IO_ERROR, d\<lparr>md_io_read := Some io\<rparr>, w1)
          else Some (IO_SUCCESS, d\<lparr>md_io_read := Some io, md_io_write := None\<rparr>, w1)
        }))"

text \<open>The creation of a channel on machine \<open>m\<close>, with a device of its own.\<close>

definition sdr_create :: "sys \<Rightarrow> (sdr_api_id \<Rightarrow> sdr_api) \<Rightarrow> nat \<Rightarrow> sdr_arg \<Rightarrow> world \<Rightarrow> (io_handle \<times> world) option" where
  "sdr_create S A m arg w = do {
     (i, iom) \<leftarrow> get_iom (Some m) w;
     (case m_obj iom of
        None \<Rightarrow> Some (0, w)
      | Some ai \<Rightarrow> do {
          let a = A ai;
          let var_pool = create_subpool (s_mem S) (w_heap w) (m_alloc iom);
          if var_pool = 0 then Some (0, w)
          else do {
            w1 \<leftarrow> (case api_set_vars a of None \<Rightarrow> Some w | Some f \<Rightarrow> f var_pool arg w);
            let device_pool = create_subpool (s_mem S) (w_heap w1) (m_alloc iom);
            if device_pool = 0 then Some (0, w1)
            else do {
              (dev, w2) \<leftarrow> api_device a device_pool arg w1;
              (case dev of
                 None \<Rightarrow> Some (0, discard_pool S device_pool w2)
               | Some dev0 \<Rightarrow> do {
                   let device = dev0\<lparr>sd_pool := device_pool\<rparr>;
                   let channel_pool = create_subpool (s_mem S) (w_heap w2) (m_alloc iom);
                   if channel_pool = 0 then Some (0, discard_pool S device_pool w2)
                   else do {
                     (ch, w3) \<leftarrow> api_channel a channel_pool device arg w2;
                     let discard = (\<lambda>w. discard_pool S channel_pool (discard_pool S device_pool w));
                     (case ch of
                        None \<Rightarrow> Some (0, discard w3)
                      | Some chan \<Rightarrow> do {
                          let (st, d1, w4) = machine_desc_init S channel_pool m (zero_desc\<lparr>md_impl := IMPL_SDR chan\<rparr>) w3;
                          if st < IO_SUCCESS then Some (0, discard w4)
                          else do {
                            (st2, d2, w5) \<leftarrow> sdr_init_filters S a d1 w4;
                            if st2 < IO_SUCCESS then Some (0, discard w5)
                            else do {
                              (chan', w6) \<leftarrow> add_channel S (sd_ptr device) chan (add_device device w5);
                              (h, w7) \<leftarrow> machine_register_desc S (d2\<lparr>md_impl := IMPL_SDR chan'\<rparr>) w6;
                              (dh, w8) \<leftarrow> request_handle S m w7;
                              Some (h, w8\<lparr>w_devices := upd_dev (sd_ptr device) (sd_handle_update (\<lambda>_. dh)) (w_devices w8)\<rparr>)
                            }
                          }
                        })
                   }
                 })
            }
          }
        })
   }"

section \<open>Settings\<close>

text \<open>The setters follow the result of \<open>get_channel\<close> without a test.\<close>

definition sdr_set :: "(sdr_channel \<Rightarrow> sdr_channel) \<Rightarrow> io_handle \<Rightarrow> world \<Rightarrow> world option" where
  "sdr_set g h w = do {
     found \<leftarrow> get_channel h w;
     if found then upd_chan h g w else None
   }"

definition set_freq :: "io_handle \<Rightarrow> rat \<Rightarrow> world \<Rightarrow> world option" where
  "set_freq h freq w = sdr_set (sc_freq_update (\<lambda>_. freq)) h w"

definition set_rate :: "io_handle \<Rightarrow> rat \<Rightarrow> world \<Rightarrow> world option" where
  "set_rate h rate w = sdr_set (sc_rate_update (\<lambda>_. rate)) h w"

definition set_gain :: "io_handle \<Rightarrow> rat \<Rightarrow> world \<Rightarrow> world option" where
  "set_gain h gain w = sdr_set (sc_gain_update (\<lambda>_. gain)) h w"

definition get_gain :: "io_handle \<Rightarrow> world \<Rightarrow> (int \<times> rat option \<times> world) option" where
  "get_gain h w = do {
     found \<leftarrow> get_channel h w;
     if found then do { d \<leftarrow> machine_get_desc h w; c \<leftarrow> chan_of d; Some (0, Some (sc_gain c), w) } else None
   }"

text \<open>The functions for gain models that radios have by default do nothing.\<close>

definition get_gain_model :: "io_handle \<Rightarrow> gain_model \<Rightarrow> world \<Rightarrow> (int \<times> gain_model \<times> world) option" where
  "get_gain_model h gm w = Some (0, gm, w)"

definition set_gain_model :: "io_handle \<Rightarrow> gain_model \<Rightarrow> world \<Rightarrow> (int \<times> world) option" where
  "set_gain_model h gm w = Some (0, w)"

definition gain_inc :: "gain_model \<Rightarrow> int \<times> gain_model" where "gain_inc gm = (0, gm)"

definition gain_dec :: "gain_model \<Rightarrow> int \<times> gain_model" where "gain_dec gm = (0, gm)"

section \<open>Reading through the buffer\<close>

text \<open>
  \<open>read_from_buffer\<close> starts a thread that fills the ring (\<open>fill_from_hw\<close>), takes what it needs from the ring, and joins the
  thread. One step of a thread is what it does between two accesses to what the other one changes: the flag \<open>do_fill\<close> and the
  field \<open>bytes\<close> of a block. The filling thread writes a block only while \<open>bytes\<close> is 0, the reader only while it is not.
  The thread tests \<open>do_fill\<close> and \<open>bytes\<close> (\<open>FILL_TEST\<close>), reads from the hardware into the block (\<open>FILL_READ\<close>), and sets \<open>bytes\<close> and
  goes to the next block (\<open>FILL_STORE\<close>).
\<close>

definition sizeof_complex :: size_t where "sizeof_complex = 8"
definition sizeof_hw_fill :: size_t where "sizeof_hw_fill = 16"

datatype fill_pc = FILL_TEST | FILL_READ | FILL_STORE size_t | FILL_EXIT io_status
datatype read_pc = READ_LOOP | READ_JOIN | READ_DONE io_status size_t

record buffered =
  bf_do_fill :: bool
  bf_fill :: fill_pc
  bf_wp :: addr
  bf_read :: read_pc
  bf_rp :: addr
  bf_data :: addr
  bf_remaining :: size_t
  bf_total :: size_t
  bf_ret :: io_status

definition upd_heap_blk :: "addr \<Rightarrow> (block \<Rightarrow> block) \<Rightarrow> world \<Rightarrow> world option" where
  "upd_heap_blk a f w = do { hp \<leftarrow> upd_blk a f (w_heap w); Some (w\<lparr>w_heap := hp\<rparr>) }"

text \<open>Set \<open>rw->wp\<close> or \<open>rw->rp\<close> of the channel.\<close>

definition put_rw :: "io_handle \<Rightarrow> (blb_rw \<Rightarrow> blb_rw) \<Rightarrow> world \<Rightarrow> world option" where
  "put_rw h g w = upd_chan h (\<lambda>c. c\<lparr>sc_buffer := map_option g (sc_buffer c)\<rparr>) w"

definition fill_step :: "sdr_rw \<Rightarrow> io_handle \<Rightarrow> buffered \<times> world \<Rightarrow> (buffered \<times> world) option" where
  "fill_step hw_read h = (\<lambda>(b, w). case bf_fill b of
      FILL_TEST \<Rightarrow> do {
        wp \<leftarrow> get_blk (bf_wp b) (w_heap w);
        if bf_do_fill b \<and> b_bytes wp = 0 then Some (b\<lparr>bf_fill := FILL_READ\<rparr>, w)
        else do {
          w1 \<leftarrow> put_rw h (rw_wp_update (\<lambda>_. bf_wp b)) w;
          Some (b\<lparr>bf_fill := FILL_EXIT IO_SUCCESS\<rparr>, w1)
        }
      }
    | FILL_READ \<Rightarrow> do {
        wp \<leftarrow> get_blk (bf_wp b) (w_heap w);
        (st, n_samp, w1) \<leftarrow> hw_read h (b_data wp) (b_size wp div sizeof_complex) w;
        w2 \<leftarrow> upd_heap_blk (bf_wp b) (b_d_ret_update (\<lambda>_. st)) w1;
        if st < IO_SUCCESS then do {
          w3 \<leftarrow> put_rw h (rw_wp_update (\<lambda>_. bf_wp b)) w2;
          Some (b\<lparr>bf_fill := FILL_EXIT st\<rparr>, w3)
        } else Some (b\<lparr>bf_fill := FILL_STORE n_samp\<rparr>, w2)
      }
    | FILL_STORE n_samp \<Rightarrow> do {
        wp \<leftarrow> get_blk (bf_wp b) (w_heap w);
        w1 \<leftarrow> upd_heap_blk (bf_wp b) (b_bytes_update (\<lambda>_. sz_mul n_samp sizeof_complex)) w;
        Some (b\<lparr>bf_fill := FILL_TEST, bf_wp := b_next wp\<rparr>, w1)
      }
    | FILL_EXIT st \<Rightarrow> Some (b, w))"

text \<open>The end of the reading loop with status \<open>ret\<close> at block \<open>rp\<close>: the thread is told to stop.\<close>

definition read_return :: "io_handle \<Rightarrow> io_status \<Rightarrow> addr \<Rightarrow> buffered \<Rightarrow> world \<Rightarrow> (buffered \<times> world) option" where
  "read_return h ret rp b w = do {
     w1 \<leftarrow> put_rw h (rw_rp_update (\<lambda>_. rp)) w;
     Some (b\<lparr>bf_read := READ_JOIN, bf_rp := rp, bf_ret := ret, bf_do_fill := False\<rparr>, w1)
   }"

text \<open>Release block \<open>rp\<close>, and return the status of the block that follows it.\<close>

definition read_abort :: "io_handle \<Rightarrow> buffered \<Rightarrow> world \<Rightarrow> (buffered \<times> world) option" where
  "read_abort h b w = do {
     w1 \<leftarrow> upd_heap_blk (bf_rp b) (b_bytes_update (\<lambda>_. 0)) w;
     rp \<leftarrow> get_blk (bf_rp b) (w_heap w1);
     rn \<leftarrow> get_blk (b_next rp) (w_heap w1);
     read_return h (b_d_ret rn) (b_next rp) b w1
   }"

text \<open>\<open>memcpy\<close>, which is undefined for areas that overlap.\<close>

definition copy_out :: "addr \<Rightarrow> addr \<Rightarrow> size_t \<Rightarrow> world \<Rightarrow> world option" where
  "copy_out dst src n w =
     (if disj dst n src n then Some (w\<lparr>w_heap := (w_heap w)\<lparr>mem := mem_copy (mem (w_heap w)) dst src n\<rparr>\<rparr>) else None)"

text \<open>Copy \<open>n\<close> samples out of block \<open>rp\<close>; what remains in the block goes to its front. If more remains than was taken, the two
  places overlap.\<close>

definition read_copy :: "size_t \<Rightarrow> buffered \<Rightarrow> world \<Rightarrow> (buffered \<times> world) option" where
  "read_copy n b w = do {
     rp \<leftarrow> get_blk (bf_rp b) (w_heap w);
     let bytes = sz_mul n sizeof_complex;
     w1 \<leftarrow> copy_out (bf_data b) (b_data rp) bytes w;
     let b1 = b\<lparr>bf_data := bf_data b + bytes, bf_remaining := sz_sub (bf_remaining b) n, bf_total := sz_add (bf_total b) n\<rparr>;
     if sz_sub (b_bytes rp) bytes = 0 then do {
       w2 \<leftarrow> upd_heap_blk (bf_rp b) (b_bytes_update (\<lambda>_. 0)) w1;
       Some (b1\<lparr>bf_rp := b_next rp\<rparr>, w2)
     } else do {
       let rest = sz_sub (b_bytes rp) bytes;
       w2 \<leftarrow> upd_heap_blk (bf_rp b) (b_bytes_update (\<lambda>_. rest)) w1;
       w3 \<leftarrow> copy_out (b_data rp) (b_data rp + bytes) rest w2;
       Some (b1, w3)
     }
   }"

definition read_step :: "io_handle \<Rightarrow> buffered \<times> world \<Rightarrow> (buffered \<times> world) option" where
  "read_step h = (\<lambda>(b, w). case bf_read b of
      READ_LOOP \<Rightarrow>
        if bf_remaining b = 0
        then read_return h (if bf_ret b < IO_SUCCESS then IO_SUCCESS else bf_ret b) (bf_rp b) b w
        else do {
          rp \<leftarrow> get_blk (bf_rp b) (w_heap w);
          if b_bytes rp = 0 then Some (b, w)
          else if b_d_ret rp < IO_SUCCESS then read_abort h b w
          else do {
            let rp_samp = b_bytes rp div sizeof_complex;
            let n = (if bf_remaining b \<ge> rp_samp then rp_samp else bf_remaining b);
            (case b_d_ret rp of
               IO_SUCCESS \<Rightarrow> read_copy n b w
             | IO_DATABREAK \<Rightarrow>
                 if bf_total b > 0 then read_return h IO_DATABREAK (bf_rp b) b w
                 else read_copy n (b\<lparr>bf_ret := IO_DATABREAK\<rparr>) w
             | _ \<Rightarrow> do {
                 w1 \<leftarrow> copy_out (bf_data b) (b_data rp) (sz_mul n sizeof_complex) w;
                 read_abort h (b\<lparr>bf_total := sz_add (bf_total b) n\<rparr>) w1
               })
          }
        }
    | READ_JOIN \<Rightarrow> (case bf_fill b of
        FILL_EXIT st \<Rightarrow>
          let ret = (if st < IO_SUCCESS then st else bf_ret b)
          in Some (b\<lparr>bf_read := READ_DONE ret (if ret < IO_SUCCESS then 0 else bf_total b)\<rparr>, w)
      | _ \<Rightarrow> Some (b, w))
    | READ_DONE ret n \<Rightarrow> Some (b, w))"

text \<open>The two threads until the reader is done; the scheduler says who goes next.\<close>

partial_function (option) buffered_run ::
    "sys \<Rightarrow> sdr_rw \<Rightarrow> io_handle \<Rightarrow> buffered \<Rightarrow> world \<Rightarrow> (io_status \<times> size_t \<times> world) option" where
  "buffered_run S hw_read h b w = (case bf_read b of
      READ_DONE ret n \<Rightarrow> Some (ret, n, w)
    | _ \<Rightarrow> do {
        (b', w') \<leftarrow> (if s_sched S (w_turn w) then fill_step hw_read h (b, w) else read_step h (b, w));
        buffered_run S hw_read h b' (w'\<lparr>w_turn := Suc (w_turn w)\<rparr>)
      })"

definition read_from_buffer :: "sys \<Rightarrow> sdr_rw \<Rightarrow> sdr_rw" where
  "read_from_buffer S hw_read h buf n_samp w = do {
     d \<leftarrow> machine_get_desc h w;
     c \<leftarrow> chan_of d;
     rw \<leftarrow> sc_buffer c;
     w1 \<leftarrow> (case sc_obj c of
          Some _ \<Rightarrow> Some w
        | None \<Rightarrow> do {
            a \<leftarrow> pcalloc (s_mem S) (w_heap w) (md_pool d) sizeof_hw_fill;
            Some (add_live a sizeof_hw_fill w)
          });
     (ret, n, w2) \<leftarrow> buffered_run S hw_read h \<lparr>bf_do_fill = True, bf_fill = FILL_TEST, bf_wp = rw_wp rw,
        bf_read = READ_LOOP, bf_rp = rw_rp rw, bf_data = buf, bf_remaining = n_samp, bf_total = 0, bf_ret = IO_ERROR\<rparr> w1;
     w3 \<leftarrow> upd_chan h (sc_obj_update (\<lambda>_. Some False)) w2;
     Some (ret, n, w3)
   }"

section \<open>The filter\<close>

text \<open>The API of the machine that a descriptor belongs to.\<close>

definition desc_api :: "(sdr_api_id \<Rightarrow> sdr_api) \<Rightarrow> machine_desc \<Rightarrow> world \<Rightarrow> sdr_api option" where
  "desc_api A d w = do {
     (i, iom) \<leftarrow> get_iom (Some (md_machine d)) w;
     map_option A (m_obj iom)
   }"

text \<open>Bring a channel to state \<open>SDR_CHAN_READY\<close>; false if that fails.\<close>

definition sdr_make_ready :: "sdr_api \<Rightarrow> io_handle \<Rightarrow> sdr_channel \<Rightarrow> world \<Rightarrow> (bool \<times> world) option" where
  "sdr_make_ready a h c w = (let start = (\<lambda>w. do {
        (st, w1) \<leftarrow> api_channel_start a h w;
        if st < IO_SUCCESS then Some (False, w1)
        else do { w2 \<leftarrow> upd_chan h (sc_state_update (\<lambda>_. SDR_CHAN_READY)) w1; Some (True, w2) }
      }) in
     case sc_state c of
       SDR_CHAN_ERROR \<Rightarrow> Some (False, w)
     | SDR_CHAN_NOINIT \<Rightarrow> do {
         (st, w1) \<leftarrow> api_channel_set a h w;
         if st < IO_SUCCESS then Some (False, w1) else start w1
       }
     | SDR_CHAN_RESET \<Rightarrow> start w
     | SDR_CHAN_READY \<Rightarrow> Some (True, w))"

definition sdrrx_read :: "sys \<Rightarrow> (sdr_api_id \<Rightarrow> sdr_api) \<Rightarrow> filter_call" where
  "sdrrx_read S A f buf bytes block align w = do {
     h \<leftarrow> handle_of f w;
     d \<leftarrow> machine_get_desc h w;
     c \<leftarrow> chan_of d;
     a \<leftarrow> desc_api A d w;
     (ready, w1) \<leftarrow> sdr_make_ready a h c w;
     if \<not> ready then Some (IO_ERROR, 0, w1)
     else do {
       d1 \<leftarrow> machine_get_desc h w1;
       c1 \<leftarrow> chan_of d1;
       let n_samp = bytes div sizeof_complex;
       (ret, n, w2) \<leftarrow> (case sc_mode c1 of
            SDR_MODE_UNBUFFERED \<Rightarrow> api_hw_read a h buf n_samp w1
          | SDR_MODE_BUFFERED \<Rightarrow> read_from_buffer S (api_hw_read a) h buf n_samp w1
          | SDR_MODE_ERROR \<Rightarrow> Some (IO_ERROR, n_samp, w1));
       Some (ret, if ret < IO_SUCCESS then 0 else sz_mul n sizeof_complex, w2)
     }
   }"

text \<open>The counter that stands in for a radio in tests: each sample is two floats.\<close>

fun counter_loop :: "nat \<Rightarrow> addr \<Rightarrow> size_t \<Rightarrow> memory \<Rightarrow> size_t \<times> memory" where
  "counter_loop 0 data counter m = (counter, m)"
| "counter_loop (Suc k) data counter m =
     counter_loop k (data + 4) ((counter + 1) mod 0x1000000) (mem_write m data (float_bytes (of_nat counter)))"

definition sdr_read_from_counter :: sdr_rw where
  "sdr_read_from_counter h buf n_samp w = do {
     d \<leftarrow> machine_get_desc h w;
     c \<leftarrow> chan_of d;
     let (counter, m) = counter_loop (sz_mul n_samp 2) buf (sc_counter c) (mem (w_heap w));
     Some (IO_SUCCESS, n_samp, (put_chan h (c\<lparr>sc_counter := counter\<rparr>) w)\<lparr>w_heap := (w_heap w)\<lparr>mem := m\<rparr>\<rparr>)
   }"

section \<open>Machine functions\<close>

definition sdr_init_machine_functions :: "nat \<Rightarrow> world \<Rightarrow> world" where
  "sdr_init_machine_functions m w =
     w\<lparr>w_machines := (w_machines w)[m := (w_machines w ! m)\<lparr>m_lock := LOCK_SDR, m_destroy := DESTROY_SDR\<rparr>]\<rparr>"

text \<open>The result is 0 for success.\<close>

definition sdrrx_reset :: "(sdr_api_id \<Rightarrow> sdr_api) \<Rightarrow> io_handle \<Rightarrow> world \<Rightarrow> (int \<times> world) option" where
  "sdrrx_reset A h w = (case machine_get_desc h w of
      None \<Rightarrow> Some (1, w)
    | Some d \<Rightarrow> do {
        a \<leftarrow> desc_api A d w;
        c \<leftarrow> chan_of d;
        if sc_state c = SDR_CHAN_NOINIT \<or> sc_state c = SDR_CHAN_RESET then Some (0, w)
        else do {
          (st, w1) \<leftarrow> api_channel_reset a h w;
          if st < IO_SUCCESS then Some (1, w1)
          else do {
            d1 \<leftarrow> machine_get_desc h w1;
            c1 \<leftarrow> chan_of d1;
            (rw, hp) \<leftarrow> blb_rw_empty (sc_buffer c1) (w_heap w1);
            Some (0, (put_chan h (c1\<lparr>sc_buffer := rw\<rparr>) w1)\<lparr>w_heap := hp\<rparr>)
          }
        }
      })"

definition sdrrx_enable_buffering_bytes :: "sys \<Rightarrow> io_handle \<Rightarrow> size_t \<Rightarrow> size_t \<Rightarrow> world \<Rightarrow> world option" where
  "sdrrx_enable_buffering_bytes S h bytes_per_block n_blocks w = (case machine_get_desc h w of
      None \<Rightarrow> Some w
    | Some d \<Rightarrow> do {
        c \<leftarrow> chan_of d;
        (rw, hp) \<leftarrow> blb_init_rw (s_mem S) (md_pool d) bytes_per_block n_blocks (blb_rw_destroy (s_mem S) (sc_buffer c) (w_heap w));
        Some ((put_chan h (c\<lparr>sc_buffer := Some rw, sc_mode := SDR_MODE_BUFFERED\<rparr>) w)\<lparr>w_heap := hp\<rparr>)
      })"

definition sdrrx_disable_buffering :: "sys \<Rightarrow> io_handle \<Rightarrow> world \<Rightarrow> world option" where
  "sdrrx_disable_buffering S h w = (case machine_get_desc h w of
      None \<Rightarrow> Some w
    | Some d \<Rightarrow> do {
        c \<leftarrow> chan_of d;
        let hp = blb_rw_destroy (s_mem S) (sc_buffer c) (w_heap w);
        Some ((put_chan h (c\<lparr>sc_buffer := None, sc_mode := SDR_MODE_UNBUFFERED\<rparr>) w)\<lparr>w_heap := hp\<rparr>)
      })"

definition sdrrx_enable_buffering :: "sys \<Rightarrow> io_handle \<Rightarrow> size_t \<Rightarrow> size_t \<Rightarrow> world \<Rightarrow> world option" where
  "sdrrx_enable_buffering S h samp_per_block n_blocks w =
     sdrrx_enable_buffering_bytes S h (sz_mul samp_per_block sizeof_complex) n_blocks w"

text \<open>When the time of the whole buffer is below the time of a block, an error is logged and nothing else is done about it.\<close>

definition sdrrx_enable_buffering_rate :: "sys \<Rightarrow> io_handle \<Rightarrow> rat \<Rightarrow> world \<Rightarrow> world option" where
  "sdrrx_enable_buffering_rate S h rate w = do {
     let sec = envex_double S ''BW_SDR_BUFFER_TIME'' 1;
     let step = envex_double S ''BW_SDR_BUFFER_TIMESTEP'' (dbl (1 / 10));
     let total_samples = dbl (rate * sec);
     let block_samples = dbl (rate * step);
     n \<leftarrow> (case cdiv total_samples block_samples of Fin x \<Rightarrow> dbl_to_size x | _ \<Rightarrow> None);
     block_bytes \<leftarrow> dbl_to_size (dbl (block_samples * of_nat sizeof_complex));
     sdrrx_enable_buffering_bytes S h block_bytes (sz_add n 1) w
   }"

text \<open>What is stored through \<open>size\<close> and \<open>bytes\<close>, if anything is.\<close>

definition sdrrx_get_buffer_info :: "io_handle \<Rightarrow> world \<Rightarrow> (size_t \<times> size_t) option option" where
  "sdrrx_get_buffer_info h w = (case machine_get_desc h w of
      None \<Rightarrow> Some None
    | Some d \<Rightarrow> do {
        c \<leftarrow> chan_of d;
        (case sc_buffer c of
           None \<Rightarrow> Some (Some (0, 0))
         | Some rw \<Rightarrow> do { r \<leftarrow> blb_rw_get_bytes (Some rw) (w_heap w); Some (Some r) })
      })"

definition sdrrx_allow_overruns :: "io_handle \<Rightarrow> world \<Rightarrow> world option" where
  "sdrrx_allow_overruns h w = (case machine_get_desc h w of
      None \<Rightarrow> Some w
    | Some d \<Rightarrow> upd_chan h (sc_allow_overruns_update (\<lambda>_. True)) w)"

end
