(* ===== verification/Rtlsdr.thy ===== *)
theory Rtlsdr
  imports Sdr_Rx
begin

text \<open>
  Model of \<open>src/sdr/rtlsdr-machine.c\<close>: RTL-SDR devices as machines. The library functions count as hardware
  calls (\<open>w_hw\<close>).
\<close>

section \<open>Settings of the hardware\<close>

definition rtl_of :: "sdr_channel \<Rightarrow> rtlsdr_channel option" where
  "rtl_of c = (case sc_impl c of SDR_RTL r \<Rightarrow> Some r | _ \<Rightarrow> None)"

definition rtl_chan :: "io_handle \<Rightarrow> world \<Rightarrow> (sdr_channel \<times> rtlsdr_channel) option" where
  "rtl_chan h w = do {
     d \<leftarrow> machine_get_desc h w;
     c \<leftarrow> chan_of d;
     r \<leftarrow> rtl_of c;
     Some (c, r)
   }"

definition RTLSDR_GAIN_MODE_MANUAL :: int where "RTLSDR_GAIN_MODE_MANUAL = 1"

text \<open>\<open>select_rtl_gain\<close>: \<open>i\<close> is the next index, \<open>g_ind\<close> and \<open>g_diff\<close> the best so far. The result is the gain, unless
  a conversion is undefined or there are no gains.\<close>

fun select_gain_loop :: "int list \<Rightarrow> rat \<Rightarrow> nat \<Rightarrow> nat \<Rightarrow> rat \<Rightarrow> (int + nat) option" where
  "select_gain_loop [] g_target i g_ind g_diff = Some (Inr g_ind)"
| "select_gain_loop (g # gs) g_target i g_ind g_diff = do {
     t \<leftarrow> dbl_to_int (sgl (g_target * 10));
     let g_cand = sgl (dbl (sgl (of_int g) / 10));
     let diff = \<bar>sgl (g_target - g_cand)\<bar>;
     if g = t then Some (Inl g)
     else if diff < g_diff then select_gain_loop gs g_target (Suc i) i diff
     else select_gain_loop gs g_target (Suc i) g_ind g_diff
   }"

definition select_rtl_gain :: "sdr_channel \<Rightarrow> rtlsdr_channel \<Rightarrow> int option" where
  "select_rtl_gain c r = do {
     res \<leftarrow> select_gain_loop (rc_gain_vals r) (sc_gain c) 0 0 999999;
     (case res of
        Inl g \<Rightarrow> Some g
      | Inr i \<Rightarrow> if i < length (rc_gain_vals r) then Some (rc_gain_vals r ! i) else None)
   }"

definition rtlsdr_channel_set :: "sys \<Rightarrow> sdr_ref" where
  "rtlsdr_channel_set S h w = do {
     (c, r) \<leftarrow> rtl_chan h w;
     let L = s_rtl S;
     freq \<leftarrow> dbl_to_u32 (sc_freq c);
     let (e1, w1) = hw_call (\<lambda>n. rtlsdr_set_center_freq L n (rc_sdr r) freq) w;
     if e1 \<noteq> 0 then Some (IO_ERROR, w1) else do {
       rate \<leftarrow> dbl_to_u32 (sc_rate c);
       let (e2, w2) = hw_call (\<lambda>n. rtlsdr_set_sample_rate L n (rc_sdr r) rate) w1;
       if e2 \<noteq> 0 then Some (IO_ERROR, w2) else do {
         bw \<leftarrow> dbl_to_u32 (if sc_bandwidth c \<noteq> 0 then sc_bandwidth c else sc_rate c);
         let (e3, w3) = hw_call (\<lambda>n. rtlsdr_set_tuner_bandwidth L n (rc_sdr r) bw) w2;
         if e3 \<noteq> 0 then Some (IO_ERROR, w3) else do {
           let (e4, w4) = hw_call (\<lambda>n. rtlsdr_set_tuner_gain_mode L n (rc_sdr r) (rc_gain_mode r)) w3;
           if e4 \<noteq> 0 then Some (IO_ERROR, w4) else do {
             (e5, w5) \<leftarrow> (if rc_gain_mode r = RTLSDR_GAIN_MODE_MANUAL then do {
                  gain \<leftarrow> select_rtl_gain c r;
                  Some (hw_call (\<lambda>n. rtlsdr_set_tuner_gain L n (rc_sdr r) gain) w4)
                } else Some (0, w4));
             if e5 \<noteq> 0 then Some (IO_ERROR, w5) else do {
               let (e6, w6) = hw_call (\<lambda>n. rtlsdr_set_testmode L n (rc_sdr r) (rc_test_mode r)) w5;
               Some (if e6 \<noteq> 0 then IO_ERROR else IO_SUCCESS, w6)
             }
           }
         }
       }
     }
   }"

definition rtlsdr_channel_reset :: sdr_ref where
  "rtlsdr_channel_reset h w = do {
     w1 \<leftarrow> upd_chan h (sc_state_update (\<lambda>_. SDR_CHAN_RESET)) w;
     Some (IO_SUCCESS, w1)
   }"

text \<open>Reads are tried until one gives all bytes, or the time is used up.\<close>

partial_function (option) start_loop :: "sys \<Rightarrow> nat \<Rightarrow> int \<Rightarrow> rat \<Rightarrow> rat \<Rightarrow> world \<Rightarrow> (io_status \<times> world) option" where
  "start_loop S dev blen ts timeout w =
     (let ((e, bs), w1) = hw_call (\<lambda>n. rtlsdr_read_sync (s_rtl S) n dev blen) w in
      if e = 0 \<and> int (length bs) = blen then Some (IO_SUCCESS, w1)
      else let timeout' = dbl (timeout - ts) in
        if timeout' \<le> 0 then Some (IO_ERROR, w1) else start_loop S dev blen ts timeout' w1)"

definition rtlsdr_channel_start :: "sys \<Rightarrow> sdr_ref" where
  "rtlsdr_channel_start S h w = do {
     (c, r) \<leftarrow> rtl_chan h w;
     let (e, w1) = hw_call (\<lambda>n. rtlsdr_reset_buffer (s_rtl S) n (rc_sdr r)) w;
     if e \<noteq> 0 then Some (IO_ERROR, w1)
     else do {
       let ts = dbl (1 / 100);
       n_samp \<leftarrow> dbl_to_size (dbl (sc_rate c * ts));
       start_loop S (rc_sdr r) (to_int32 (sz_mul n_samp 2)) ts 2 w1
     }
   }"

section \<open>Samples\<close>

text \<open>\<open>uint8_to_float\<close> from index \<open>i\<close> on: the bytes are at \<open>u\<close>, the floats go to \<open>f\<close>; the areas may overlap.\<close>

definition rtl_sample :: "byte \<Rightarrow> rat" where
  "rtl_sample x = dbl (dbl (of_nat (unat x) - 127.5) / 127.5)"

fun uint8_to_float_loop :: "nat \<Rightarrow> nat \<Rightarrow> addr \<Rightarrow> addr \<Rightarrow> memory \<Rightarrow> memory" where
  "uint8_to_float_loop 0 i f u m = m"
| "uint8_to_float_loop (Suc k) i f u m =
     uint8_to_float_loop k (Suc i) f u (mem_write m (f + 4 * i) (float_bytes (rtl_sample (m (u + i)))))"

definition uint8_to_float :: "addr \<Rightarrow> addr \<Rightarrow> size_t \<Rightarrow> memory \<Rightarrow> memory" where
  "uint8_to_float f u n_samp m = uint8_to_float_loop (sz_mul n_samp 2) 0 f u m"

text \<open>The loop of \<open>read_from_hw\<close>: the status, the samples read and the state. The read pointer \<open>rb\<close> points to bytes, but
  is moved by the number of samples, of two bytes each.\<close>

partial_function (option) rtl_read_loop ::
    "sys \<Rightarrow> nat \<Rightarrow> addr \<Rightarrow> size_t \<Rightarrow> size_t \<Rightarrow> world \<Rightarrow> (io_status \<times> size_t \<times> world) option" where
  "rtl_read_loop S dev rb remaining total_samp w =
     (if remaining = 0 then Some (IO_SUCCESS, total_samp, w)
      else let ((e, bs), w1) = hw_call (\<lambda>n. rtlsdr_read_sync (s_rtl S) n dev (to_int32 (sz_mul remaining 2))) w;
               w2 = w1\<lparr>w_heap := (w_heap w1)\<lparr>mem := mem_write (mem (w_heap w1)) rb bs\<rparr>\<rparr>
        in if e \<noteq> 0 then Some (IO_ERROR, total_samp, w2)
           else let samples_read = length bs div 2 in
             rtl_read_loop S dev (rb + samples_read) (sz_sub remaining samples_read) (sz_add total_samp samples_read) w2)"

definition rtl_read_from_hw :: "sys \<Rightarrow> sdr_rw" where
  "rtl_read_from_hw S h buf n_samp w = do {
     (c, r) \<leftarrow> rtl_chan h w;
     let data_uc = buf + 8 * n_samp - 2 * n_samp;
     (st, total_samp, w1) \<leftarrow> rtl_read_loop S (rc_sdr r) data_uc n_samp 0 w;
     if st < IO_SUCCESS then Some (IO_ERROR, total_samp, w1)
     else Some (IO_SUCCESS, total_samp, w1\<lparr>w_heap := (w_heap w1)\<lparr>mem := uint8_to_float buf data_uc total_samp (mem (w_heap w1))\<rparr>\<rparr>)
   }"

section \<open>Devices and channels\<close>

text \<open>The loop over the devices: a device is found by its index or its serial number.\<close>

fun find_rtl :: "sys \<Rightarrow> string \<Rightarrow> nat list \<Rightarrow> world \<Rightarrow> nat option \<times> world" where
  "find_rtl S id_str [] w = (None, w)"
| "find_rtl S id_str (i # is) w =
     (let (serial, w1) = hw_call (\<lambda>n. rtlsdr_serial (s_rtl S) n i) w in
      if atoi id_str = int i \<or> take 256 id_str = take 256 serial then (Some i, w1) else find_rtl S id_str is w1)"

definition sizeof_rtlsdr_device :: size_t where "sizeof_rtlsdr_device = 120"
definition sizeof_rtlsdr_channel :: size_t where "sizeof_rtlsdr_channel = 264"

definition rtl_create_device :: "sys \<Rightarrow> pool \<Rightarrow> sdr_arg \<Rightarrow> world \<Rightarrow> (sdr_device option \<times> world) option" where
  "rtl_create_device S p arg w = do {
     let (n_dev, w1) = hw_call (rtlsdr_get_device_count (s_rtl S)) w;
     if n_dev = 0 then Some (None, w1)
     else do {
       (index, w2) \<leftarrow> (case arg of
            ARG_NULL \<Rightarrow> Some (Some 0, w1)
          | ARG_STR id_str \<Rightarrow> Some (find_rtl S id_str [0 ..< nat n_dev] w1)
          | ARG_UHD ch str \<Rightarrow> None);
       (case index of
          None \<Rightarrow> Some (None, w2)
        | Some i \<Rightarrow> do {
            let ((e, hw), w3) = hw_call (\<lambda>n. rtlsdr_open (s_rtl S) n i) w2;
            if e \<noteq> 0 then Some (None, w3)
            else do {
              a \<leftarrow> pcalloc (s_mem S) (w_heap w3) p sizeof_rtlsdr_device;
              Some (Some \<lparr>sd_ptr = a, sd_id = i, sd_handle = 0, sd_pool = 0, sd_hw = hw, sd_channels = [], sd_channels_ptr = 0,
                      sd_chan_len = 0, sd_destroy = API_RTLSDR\<rparr>, add_live a sizeof_rtlsdr_device w3)
            }
          })
     }
   }"

definition rtl_create_channel :: "sys \<Rightarrow> pool \<Rightarrow> sdr_device \<Rightarrow> sdr_arg \<Rightarrow> world \<Rightarrow> (sdr_channel option \<times> world) option" where
  "rtl_create_channel S p dev arg w = do {
     a \<leftarrow> pcalloc (s_mem S) (w_heap w) p sizeof_rtlsdr_channel;
     let w1 = add_live a sizeof_rtlsdr_channel w;
     let (e, w2) = hw_call (\<lambda>n. rtlsdr_set_tuner_gain_mode (s_rtl S) n (sd_hw dev) RTLSDR_GAIN_MODE_MANUAL) w1;
     if e \<noteq> 0 then Some (None, w2)
     else do {
       let ((n_val, gs), w3) = hw_call (\<lambda>n. rtlsdr_get_tuner_gains (s_rtl S) n (sd_hw dev)) w2;
       if n_val < 0 then Some (None, w3)
       else do {
         g \<leftarrow> palloc (s_mem S) (w_heap w3) p (nat n_val * 4);
         let w4 = add_live g (nat n_val * 4) w3;
         let ((k, gains), w5) = hw_call (\<lambda>n. rtlsdr_get_tuner_gains (s_rtl S) n (sd_hw dev)) w4;
         Some (Some (zero_channel a (SDR_RTL \<lparr>rc_sdr = sd_hw dev, rc_gain_vals = take (nat n_val) gains,
                 rc_gain_mode = RTLSDR_GAIN_MODE_MANUAL, rc_test_mode = 0\<rparr>)), w5)
       }
     }
   }"

text \<open>The object of the filter is the channel, whose first field is its handle, 0 until the channel is registered.\<close>

definition rtl_create_rx_filter :: "sys \<Rightarrow> pool \<Rightarrow> world \<Rightarrow> (addr \<times> world) option" where
  "rtl_create_rx_filter S p w = do {
     (f, w1) \<leftarrow> create_filter S p ''_rtlsdr_hw'' FN_SDRRX_READ w;
     w2 \<leftarrow> upd_filter f (f_obj_update (\<lambda>_. OBJ_HANDLE 0)) w1;
     Some (f, w2)
   }"

text \<open>The API struct; closing a device is a call to the library only.\<close>

definition rtlsdr_api :: "sys \<Rightarrow> sdr_api" where
  "rtlsdr_api S = \<lparr>api_set_vars = Some (\<lambda>p arg w. Some w), api_device = rtl_create_device S, api_channel = rtl_create_channel S,
     api_rx_filter = Some (rtl_create_rx_filter S), api_hw_read = rtl_read_from_hw S, api_channel_set = rtlsdr_channel_set S,
     api_channel_reset = rtlsdr_channel_reset, api_channel_start = rtlsdr_channel_start S,
     api_destroy_device = (\<lambda>d w. Some (w\<lparr>w_hw := Suc (w_hw w)\<rparr>)), api_destroy_channel = (\<lambda>h w. Some w),
     api_init_gain_model = None, api_get_gain_model = get_gain_model, api_set_gain_model = set_gain_model, api_get_net_gain = get_gain,
     api_gain_inc = gain_inc, api_gain_dec = gain_dec\<rparr>"

section \<open>The machine\<close>

datatype rtlsdr_var_e = RTLSDR_VAR_FREQ | RTLSDR_VAR_RATE | RTLSDR_VAR_BANDWIDTH | RTLSDR_VAR_PPM

definition set_var :: "rtlsdr_var_e \<Rightarrow> rat \<Rightarrow> sdr_channel \<Rightarrow> sdr_channel" where
  "set_var var val c = (case var of
      RTLSDR_VAR_FREQ \<Rightarrow> c\<lparr>sc_freq := val\<rparr>
    | RTLSDR_VAR_RATE \<Rightarrow> c\<lparr>sc_rate := val\<rparr>
    | RTLSDR_VAR_BANDWIDTH \<Rightarrow> c\<lparr>sc_bandwidth := val\<rparr>
    | RTLSDR_VAR_PPM \<Rightarrow> c\<lparr>sc_ppm := val\<rparr>)"

definition set_hw_var :: "rtl_lib \<Rightarrow> nat \<Rightarrow> rtlsdr_var_e \<Rightarrow> rat \<Rightarrow> world \<Rightarrow> (int \<times> world) option" where
  "set_hw_var L dev var val w = (case var of
      RTLSDR_VAR_FREQ \<Rightarrow> do { v \<leftarrow> dbl_to_u32 val; Some (hw_call (\<lambda>n. rtlsdr_set_center_freq L n dev v) w) }
    | RTLSDR_VAR_RATE \<Rightarrow> do { v \<leftarrow> dbl_to_u32 val; Some (hw_call (\<lambda>n. rtlsdr_set_sample_rate L n dev v) w) }
    | RTLSDR_VAR_BANDWIDTH \<Rightarrow> do { v \<leftarrow> dbl_to_u32 val; Some (hw_call (\<lambda>n. rtlsdr_set_tuner_bandwidth L n dev v) w) }
    | RTLSDR_VAR_PPM \<Rightarrow> do { v \<leftarrow> dbl_to_int val; Some (hw_call (\<lambda>n. rtlsdr_set_freq_correction L n dev v) w) })"

text \<open>The result is 0 for success. With no other thread, a channel in use stays in use.\<close>

definition rtlsdr_set_val :: "sys \<Rightarrow> io_handle \<Rightarrow> rtlsdr_var_e \<Rightarrow> rat \<Rightarrow> world \<Rightarrow> (int \<times> world) option" where
  "rtlsdr_set_val S h var val w = (case machine_get_desc h w of
      None \<Rightarrow> Some (1, w)
    | Some d \<Rightarrow>
        if md_in_use d \<noteq> 0 \<or> md_lock d then None
        else do {
          (c, r) \<leftarrow> rtl_chan h w;
          let w1 = put_chan h (set_var var val c) w;
          if sc_state c = SDR_CHAN_NOINIT then Some (0, w1)
          else do {
            (e, w2) \<leftarrow> set_hw_var (s_rtl S) (rc_sdr r) var val w1;
            (st, w3) \<leftarrow> (if e \<noteq> 0 then Some (IO_ERROR, w2) else rtlsdr_channel_start S h w2);
            if st < IO_SUCCESS then do { w4 \<leftarrow> upd_chan h (sc_state_update (\<lambda>_. SDR_CHAN_ERROR)) w3; Some (1, w4) }
            else Some (0, w3)
          }
        })"

definition rtlsdr_rx_set_freq :: "sys \<Rightarrow> io_handle \<Rightarrow> rat \<Rightarrow> world \<Rightarrow> (int \<times> world) option" where
  "rtlsdr_rx_set_freq S h freq w = rtlsdr_set_val S h RTLSDR_VAR_FREQ freq w"

definition rtlsdr_rx_set_samp_rate :: "sys \<Rightarrow> io_handle \<Rightarrow> rat \<Rightarrow> world \<Rightarrow> (int \<times> world) option" where
  "rtlsdr_rx_set_samp_rate S h samp_rate w = rtlsdr_set_val S h RTLSDR_VAR_RATE samp_rate w"

definition rtlsdr_rx_set_bandwidth :: "sys \<Rightarrow> io_handle \<Rightarrow> rat \<Rightarrow> world \<Rightarrow> (int \<times> world) option" where
  "rtlsdr_rx_set_bandwidth S h bandwidth w = rtlsdr_set_val S h RTLSDR_VAR_BANDWIDTH bandwidth w"

definition rtlsdr_rx_set_ppm :: "sys \<Rightarrow> io_handle \<Rightarrow> rat \<Rightarrow> world \<Rightarrow> (int \<times> world) option" where
  "rtlsdr_rx_set_ppm S h ppm w = rtlsdr_set_val S h RTLSDR_VAR_PPM ppm w"

definition rtlsdr_rx_set_testmode :: "io_handle \<Rightarrow> world \<Rightarrow> (io_status \<times> world) option" where
  "rtlsdr_rx_set_testmode h w = do {
     (c, r) \<leftarrow> rtl_chan h w;
     Some (IO_SUCCESS, put_chan h (c\<lparr>sc_impl := SDR_RTL (r\<lparr>rc_test_mode := 1\<rparr>)\<rparr>) w)
   }"

definition get_rtlsdr_rx_machine :: "sys \<Rightarrow> world \<Rightarrow> (nat \<times> world) option" where
  "get_rtlsdr_rx_machine S w = (case w_rtlsdr_machine w of
      Some m \<Rightarrow> Some (m, w)
    | None \<Rightarrow> do {
        (mo, w1) \<leftarrow> machine_register S ''rtlsdr_rx'' w;
        m \<leftarrow> mo;
        let w2 = sdr_init_machine_functions m w1;
        (i, iom) \<leftarrow> get_iom (Some m) w2;
        a \<leftarrow> pcalloc (s_mem S) (w_heap w2) (m_alloc iom) 152;
        let ms = (w_machines w2)[m := (w_machines w2 ! m)\<lparr>m_obj := Some API_RTLSDR, m_create := CREATE_SDR\<rparr>];
        Some (m, (add_live a 152 w2)\<lparr>w_machines := ms, w_rtlsdr_machine := Some m\<rparr>)
      })"

definition new_rtlsdr_rx_machine :: "sys \<Rightarrow> (sdr_api_id \<Rightarrow> sdr_api) \<Rightarrow> string option \<Rightarrow> world \<Rightarrow> (io_handle \<times> world) option" where
  "new_rtlsdr_rx_machine S A sn w = do {
     (m, w1) \<leftarrow> get_rtlsdr_rx_machine S w;
     sdr_create S A m (case sn of None \<Rightarrow> ARG_NULL | Some s \<Rightarrow> ARG_STR s) w1
   }"

definition rtlsdr_set_rx :: "io_handle \<Rightarrow> rat \<Rightarrow> rat \<Rightarrow> rat \<Rightarrow> world \<Rightarrow> world option" where
  "rtlsdr_set_rx h freq rate bandwidth w = (case machine_get_desc h w of
      None \<Rightarrow> Some w
    | Some d \<Rightarrow> upd_chan h (\<lambda>c. c\<lparr>sc_freq := freq, sc_rate := rate, sc_bandwidth := bandwidth\<rparr>) w)"

definition rtlsdr_rx_set_gain :: "io_handle \<Rightarrow> rat \<Rightarrow> world \<Rightarrow> world option" where
  "rtlsdr_rx_set_gain h lna w = (case machine_get_desc h w of
      None \<Rightarrow> Some w
    | Some d \<Rightarrow> upd_chan h (sc_gain_update (\<lambda>_. lna)) w)"

end
