(* ===== verification/Soapy.thy ===== *)
theory Soapy
  imports Sdr_Rx
begin

text \<open>
  Model of \<open>src/sdr/soapy-machine.c\<close>: radios behind the SoapySDR library. The calls of the library count as hardware
  calls (\<open>w_hw\<close>); the texts of its errors, which are only logged, are left out.
\<close>

section \<open>Channels\<close>

definition soapy_of :: "sdr_channel \<Rightarrow> soapy_channel option" where
  "soapy_of c = (case sc_impl c of SDR_SOAPY s \<Rightarrow> Some s | _ \<Rightarrow> None)"

definition soapy_chan :: "io_handle \<Rightarrow> world \<Rightarrow> (sdr_channel \<times> soapy_channel) option" where
  "soapy_chan h w = do {
     d \<leftarrow> machine_get_desc h w;
     c \<leftarrow> chan_of d;
     s \<leftarrow> soapy_of c;
     Some (c, s)
   }"

definition put_soapy :: "io_handle \<Rightarrow> sdr_channel \<Rightarrow> soapy_channel \<Rightarrow> world \<Rightarrow> world" where
  "put_soapy h c s w = put_chan h (c\<lparr>sc_impl := SDR_SOAPY s\<rparr>) w"

text \<open>Calls of the library until one fails.\<close>

fun hw_steps :: "(nat \<Rightarrow> int) list \<Rightarrow> world \<Rightarrow> bool \<times> world" where
  "hw_steps [] w = (True, w)"
| "hw_steps (f # fs) w = (let (e, w1) = hw_call f w in if e \<noteq> 0 then (False, w1) else hw_steps fs w1)"

definition antenna_name :: "soapy_antennas_e \<Rightarrow> string" where
  "antenna_name a = (case a of LIME_MINI_LNAH \<Rightarrow> ''LNAH'')"

definition soapy_channel_set :: "sys \<Rightarrow> sdr_ref" where
  "soapy_channel_set S h w = do {
     (c, s) \<leftarrow> soapy_chan h w;
     let L = s_soapy S;
     let dev = so_sdr s;
     let (ok1, w1) = hw_steps [\<lambda>n. SoapySDRDevice_setAntenna L n dev (antenna_name (so_antenna s)),
       \<lambda>n. SoapySDRDevice_setSampleRate L n dev (sc_rate c)] w;
     if \<not> ok1 then Some (IO_ERROR, w1)
     else do {
       let w2 = put_soapy h c (s\<lparr>so_ns_per_sample := cdiv 1000000000 (sc_rate c)\<rparr>) w1;
       let (ok2, w3) = hw_steps [
         \<lambda>n. SoapySDRDevice_setBandwidth L n dev (if sc_bandwidth c \<noteq> 0 then sc_bandwidth c else sc_rate c),
         \<lambda>n. SoapySDRDevice_setFrequency L n dev (sc_freq c),
         \<lambda>n. SoapySDRDevice_setGainElement L n dev ''LNA'' (sc_gain c),
         \<lambda>n. SoapySDRDevice_setGainElement L n dev ''TIA'' (so_tia_gain s),
         \<lambda>n. SoapySDRDevice_setGainElement L n dev ''PGA'' (so_pga_gain s)] w2;
       Some (if ok2 then IO_SUCCESS else IO_ERROR, w3)
     }
   }"

definition soapy_channel_reset :: "sys \<Rightarrow> sdr_ref" where
  "soapy_channel_reset S h w = do {
     (c, s) \<leftarrow> soapy_chan h w;
     let (e, w1) = hw_call (\<lambda>n. SoapySDRDevice_deactivateStream (s_soapy S) n (so_sdr s) (so_rx s)) w;
     w2 \<leftarrow> upd_chan h (sc_state_update (\<lambda>_. if e \<noteq> 0 then SDR_CHAN_ERROR else SDR_CHAN_RESET)) w1;
     Some (if e \<noteq> 0 then IO_ERROR else IO_SUCCESS, w2)
   }"

section \<open>The clock\<close>

text \<open>The time that is expected for the sample after \<open>k\<close> samples from time \<open>t\<close>, and the difference of a time from the expected one,
  if it is defined.\<close>

definition next_timestamp :: "cdouble \<Rightarrow> int \<Rightarrow> int \<Rightarrow> cdouble" where
  "next_timestamp ns t k = (case cmul ns (of_int k) of Fin v \<Rightarrow> Fin (dbl (dbl (of_int t) + v)) | x \<Rightarrow> x)"

definition clock_diff :: "soapy_channel \<Rightarrow> int \<Rightarrow> int option" where
  "clock_diff s t = do {
     expected \<leftarrow> dbl_to_i64 (cadd (so_expected_timestamp s) (1 / 2));
     d \<leftarrow> in_i64 (t - expected);
     Some (i64_to_int d)
   }"

text \<open>
  The loop of \<open>soapy_channel_start\<close>. The difference that the condition tests is declared outside of the loop; the body assigns
  the new difference to a variable of its own with the same name. After the last read in time the result is success as well.
\<close>

partial_function (option) soapy_start_loop ::
    "sys \<Rightarrow> io_handle \<Rightarrow> size_t \<Rightarrow> rat \<Rightarrow> int \<Rightarrow> int \<Rightarrow> rat \<Rightarrow> world \<Rightarrow> (io_status \<times> world) option" where
  "soapy_start_loop S h n_samp ts diff timeNs timeout w =
     (if \<not> (timeNs = 0 \<or> diff < - 1 \<or> diff > 1) then Some (IO_SUCCESS, w)
      else do {
        (c, s) \<leftarrow> soapy_chan h w;
        let ((samples_read, bs, t), w1) = hw_call (\<lambda>n. SoapySDRDevice_readStream (s_soapy S) n (so_sdr s) (so_rx s) n_samp) w;
        if samples_read < 0 then Some (IO_ERROR, w1)
        else do {
          inner_diff \<leftarrow> clock_diff s t;
          let w2 = put_soapy h c (s\<lparr>so_expected_timestamp := next_timestamp (so_ns_per_sample s) t samples_read\<rparr>) w1;
          let timeout' = dbl (timeout - ts);
          if timeout' \<le> 0 then Some (IO_SUCCESS, w2) else soapy_start_loop S h n_samp ts diff t timeout' w2
        }
      })"

text \<open>The samples that are read go to memory that is freed at the end.\<close>

definition soapy_channel_start :: "sys \<Rightarrow> sdr_ref" where
  "soapy_channel_start S h w = do {
     (c, s) \<leftarrow> soapy_chan h w;
     let ts = dbl (1 / 100);
     n_samp \<leftarrow> dbl_to_size (dbl (sc_rate c * ts));
     soapy_start_loop S h n_samp ts 0 0 2 (w\<lparr>w_hw := Suc (w_hw w)\<rparr>)
   }"

section \<open>Samples\<close>

definition poke :: "addr \<Rightarrow> byte list \<Rightarrow> world \<Rightarrow> world" where
  "poke a bs w = w\<lparr>w_heap := (w_heap w)\<lparr>mem := mem_write (mem (w_heap w)) a bs\<rparr>\<rparr>"

text \<open>The loop of \<open>read_from_hw\<close>: \<open>ret\<close> is the status so far. When the clock has jumped after the first samples, what was just read is
  not counted.\<close>

partial_function (option) soapy_read_loop ::
    "sys \<Rightarrow> io_handle \<Rightarrow> addr \<Rightarrow> size_t \<Rightarrow> size_t \<Rightarrow> io_status \<Rightarrow> world \<Rightarrow> (io_status \<times> size_t \<times> world) option" where
  "soapy_read_loop S h data remaining total_samp ret w =
     (if remaining = 0 then Some (if ret < IO_SUCCESS then IO_SUCCESS else ret, total_samp, w)
      else do {
        (c, s) \<leftarrow> soapy_chan h w;
        let ((samples_read, bs, t), w1) = hw_call (\<lambda>n. SoapySDRDevice_readStream (s_soapy S) n (so_sdr s) (so_rx s) remaining) w;
        let w2 = poke data bs w1;
        if samples_read < 0 then Some (ret, total_samp, w2)
        else do {
          diff \<leftarrow> clock_diff s t;
          let mismatch = (diff < - 1 \<or> diff > 1);
          let s1 = s\<lparr>so_expected_timestamp := next_timestamp (so_ns_per_sample s) t samples_read\<rparr>;
          let w3 = put_soapy h c (if mismatch then s1 else s1\<lparr>so_error_counter := 0\<rparr>) w2;
          if mismatch \<and> \<not> sc_allow_overruns c then Some (ret, total_samp, w3)
          else if mismatch \<and> total_samp > 0 then Some (IO_DATABREAK, total_samp, w3)
          else soapy_read_loop S h (data + 8 * nat samples_read) (sz_sub remaining (nat samples_read))
            (sz_add total_samp (nat samples_read)) (if mismatch then IO_DATABREAK else ret) w3
        }
      })"

definition soapy_read_from_hw :: "sys \<Rightarrow> sdr_rw" where
  "soapy_read_from_hw S h buf n_samp w = soapy_read_loop S h buf n_samp 0 IO_ERROR w"

section \<open>Devices\<close>

definition SOAPY_SERIAL_LEN :: nat where "SOAPY_SERIAL_LEN = 32"

text \<open>The loop of \<open>get_soapy_info\<close> from the \<open>i\<close>-th device on: the number and the serial of the device that has \<open>str\<close> among its values.
  A device without a serial sets the number, and the search goes on.\<close>

fun get_soapy_info_loop :: "(string \<times> string) list list \<Rightarrow> nat \<Rightarrow> string \<Rightarrow> int \<Rightarrow> int" where
  "get_soapy_info_loop [] i str id_no = id_no"
| "get_soapy_info_loop (r # rs) i str id_no =
     (if str \<notin> set (map snd r) then get_soapy_info_loop rs (Suc i) str id_no
      else if ''serial'' \<in> set (map fst r) then int i
      else get_soapy_info_loop rs (Suc i) str (int i))"

fun get_soapy_serial :: "(string \<times> string) list list \<Rightarrow> string \<Rightarrow> string" where
  "get_soapy_serial [] str = []"
| "get_soapy_serial (r # rs) str =
     (if str \<notin> set (map snd r) then get_soapy_serial rs str
      else case map_of r ''serial'' of Some v \<Rightarrow> v | None \<Rightarrow> get_soapy_serial rs str)"

definition sizeof_soapy_device :: size_t where "sizeof_soapy_device = 120"
definition sizeof_soapy_channel :: size_t where "sizeof_soapy_channel = 288"

text \<open>
  Without any device, the number and the serial are not set before they are used. A serial that fills its array has no end. The name to
  look for must not be NULL. If the memory for the device cannot be had, its pool is freed here and once more by the caller.
\<close>

definition soapy_create_device :: "sys \<Rightarrow> pool \<Rightarrow> sdr_arg \<Rightarrow> world \<Rightarrow> (sdr_device option \<times> world) option" where
  "soapy_create_device S p arg w = (case arg of
      ARG_STR id_str \<Rightarrow> do {
        let (results, w1) = hw_call (SoapySDRDevice_enumerate (s_soapy S)) w;
        if results = [] then None
        else do {
          let id_no = get_soapy_info_loop results 0 id_str (- 1);
          let serial = get_soapy_serial results id_str;
          if id_no < 0 then Some (None, w1\<lparr>w_hw := Suc (w_hw w1)\<rparr>)
          else if length serial \<ge> SOAPY_SERIAL_LEN then None
          else do {
            let (hw, w2) = hw_call (\<lambda>n. SoapySDRDevice_make (s_soapy S) n [(''serial'', serial)]) w1;
            if hw = 0 then Some (None, w2)
            else do {
              a \<leftarrow> pcalloc (s_mem S) (w_heap w2) p sizeof_soapy_device;
              Some (Some \<lparr>sd_ptr = a, sd_id = nat id_no, sd_handle = 0, sd_pool = 0, sd_hw = hw, sd_channels = [], sd_channels_ptr = 0,
                      sd_chan_len = 0, sd_destroy = API_SOAPY\<rparr>, add_live a sizeof_soapy_device w2)
            }
          }
        }
      }
    | _ \<Rightarrow> None)"

definition zero_soapy :: soapy_channel where
  "zero_soapy = \<lparr>so_sdr = 0, so_rx = 0, so_antenna = LIME_MINI_LNAH, so_error_counter = 0, so_tia_gain = 0, so_pga_gain = 0,
     so_expected_timestamp = Fin 0, so_ns_per_sample = Fin 0, so_chan = 0\<rparr>"

definition soapy_create_channel :: "sys \<Rightarrow> pool \<Rightarrow> sdr_device \<Rightarrow> sdr_arg \<Rightarrow> world \<Rightarrow> (sdr_channel option \<times> world) option" where
  "soapy_create_channel S p dev arg w = do {
     a \<leftarrow> pcalloc (s_mem S) (w_heap w) p sizeof_soapy_channel;
     let w1 = add_live a sizeof_soapy_channel w;
     let (rx, w2) = hw_call (\<lambda>n. SoapySDRDevice_setupStream (s_soapy S) n (sd_hw dev) (so_chan zero_soapy)) w1;
     if rx = 0 then Some (None, w2)
     else Some (Some ((zero_channel a (SDR_SOAPY (zero_soapy\<lparr>so_sdr := sd_hw dev, so_rx := rx\<rparr>)))\<lparr>sc_destroy := Some API_SOAPY\<rparr>), w2)
   }"

definition soapy_create_rx_filter :: "sys \<Rightarrow> pool \<Rightarrow> world \<Rightarrow> (addr \<times> world) option" where
  "soapy_create_rx_filter S p w = do {
     (f, w1) \<leftarrow> create_filter S p ''_soapy_hw'' FN_SDRRX_READ w;
     w2 \<leftarrow> upd_filter f (f_obj_update (\<lambda>_. OBJ_HANDLE 0)) w1;
     Some (f, w2)
   }"

text \<open>Unmaking a device is one call of the library, deactivating and closing the stream of a channel two.\<close>

definition soapy_destroy_device :: "sdr_device \<Rightarrow> world \<Rightarrow> world option" where
  "soapy_destroy_device d w = Some (w\<lparr>w_hw := w_hw w + 1\<rparr>)"

definition destroy_soapy_channel :: "io_handle \<Rightarrow> world \<Rightarrow> world option" where
  "destroy_soapy_channel h w = do { (c, s) \<leftarrow> soapy_chan h w; Some (w\<lparr>w_hw := w_hw w + 2\<rparr>) }"

text \<open>The API struct.\<close>

definition soapy_api :: "sys \<Rightarrow> sdr_api" where
  "soapy_api S = \<lparr>api_set_vars = Some (\<lambda>p arg w. Some w), api_device = soapy_create_device S, api_channel = soapy_create_channel S,
     api_rx_filter = Some (soapy_create_rx_filter S),
     api_hw_read = (if envex_exists S ''BW_SOAPY_COUNTER_TEST'' then sdr_read_from_counter else soapy_read_from_hw S),
     api_channel_set = soapy_channel_set S, api_channel_reset = soapy_channel_reset S, api_channel_start = soapy_channel_start S,
     api_destroy_device = soapy_destroy_device, api_destroy_channel = destroy_soapy_channel,
     api_init_gain_model = None, api_get_gain_model = get_gain_model, api_set_gain_model = set_gain_model, api_get_net_gain = get_gain,
     api_gain_inc = gain_inc, api_gain_dec = gain_dec\<rparr>"

section \<open>The machine\<close>

definition get_soapy_rx_machine :: "sys \<Rightarrow> world \<Rightarrow> (nat \<times> world) option" where
  "get_soapy_rx_machine S w = (case w_soapy_machine w of
      Some m \<Rightarrow> Some (m, w)
    | None \<Rightarrow> do {
        (mo, w1) \<leftarrow> machine_register S ''soapy_rx'' w;
        m \<leftarrow> mo;
        let w2 = sdr_init_machine_functions m w1;
        (i, iom) \<leftarrow> get_iom (Some m) w2;
        a \<leftarrow> pcalloc (s_mem S) (w_heap w2) (m_alloc iom) 152;
        let ms = (w_machines w2)[m := (w_machines w2 ! m)\<lparr>m_obj := Some API_SOAPY, m_create := CREATE_SDR\<rparr>];
        Some (m, (add_live a 152 w2)\<lparr>w_machines := ms, w_soapy_machine := Some m\<rparr>)
      })"

definition new_soapy_rx_machine :: "sys \<Rightarrow> (sdr_api_id \<Rightarrow> sdr_api) \<Rightarrow> string option \<Rightarrow> world \<Rightarrow> (io_handle \<times> world) option" where
  "new_soapy_rx_machine S A sn w = do {
     (m, w1) \<leftarrow> get_soapy_rx_machine S w;
     sdr_create S A m (case sn of None \<Rightarrow> ARG_NULL | Some s \<Rightarrow> ARG_STR s) w1
   }"

section \<open>Settings\<close>

text \<open>Restart a channel whose settings have changed; the result is 0 for success.\<close>

definition soapy_restart :: "sys \<Rightarrow> io_handle \<Rightarrow> world \<Rightarrow> (int \<times> world) option" where
  "soapy_restart S h w = do {
     (st, w1) \<leftarrow> soapy_channel_start S h w;
     if st < IO_SUCCESS then do { w2 \<leftarrow> upd_chan h (sc_state_update (\<lambda>_. SDR_CHAN_ERROR)) w1; Some (1, w2) }
     else Some (0, w1)
   }"

text \<open>With no other thread, a channel in use stays in use. The functions for gain models are those of the machine.\<close>

definition soapy_rx_set_gain_model :: "sys \<Rightarrow> (sdr_api_id \<Rightarrow> sdr_api) \<Rightarrow> io_handle \<Rightarrow> gain_model \<Rightarrow> world \<Rightarrow> (int \<times> world) option" where
  "soapy_rx_set_gain_model S A h model w = (case machine_get_desc h w of
      None \<Rightarrow> Some (1, w)
    | Some d \<Rightarrow>
        if md_in_use d \<noteq> 0 \<or> md_lock d then None
        else do {
          (c, s) \<leftarrow> soapy_chan h w;
          if sc_state c = SDR_CHAN_NOINIT then Some (0, w)
          else do {
            (i, iom) \<leftarrow> get_iom (w_soapy_machine w) w;
            ai \<leftarrow> m_obj iom;
            (e, w1) \<leftarrow> api_set_gain_model (A ai) h model w;
            let (e1, w2) = hw_call (\<lambda>n. SoapySDRDevice_deactivateStream (s_soapy S) n (so_sdr s) (so_rx s)) w1;
            soapy_restart S h w2
          }
        })"

datatype soapy_var_e = SOAPY_VAR_FREQ | SOAPY_VAR_RATE | SOAPY_VAR_BANDWIDTH | SOAPY_VAR_PPM

definition soapy_set_var :: "soapy_var_e \<Rightarrow> rat \<Rightarrow> sdr_channel \<Rightarrow> sdr_channel" where
  "soapy_set_var var val c = (case var of
      SOAPY_VAR_FREQ \<Rightarrow> c\<lparr>sc_freq := val\<rparr>
    | SOAPY_VAR_RATE \<Rightarrow> c\<lparr>sc_rate := val\<rparr>
    | SOAPY_VAR_BANDWIDTH \<Rightarrow> c\<lparr>sc_bandwidth := val\<rparr>
    | SOAPY_VAR_PPM \<Rightarrow> c\<lparr>sc_ppm := val\<rparr>)"

definition soapy_set_hw_var :: "soapy_lib \<Rightarrow> nat \<Rightarrow> soapy_var_e \<Rightarrow> rat \<Rightarrow> nat \<Rightarrow> int" where
  "soapy_set_hw_var L dev var val n = (case var of
      SOAPY_VAR_FREQ \<Rightarrow> SoapySDRDevice_setFrequency L n dev val
    | SOAPY_VAR_RATE \<Rightarrow> SoapySDRDevice_setSampleRate L n dev val
    | SOAPY_VAR_BANDWIDTH \<Rightarrow> SoapySDRDevice_setBandwidth L n dev val
    | SOAPY_VAR_PPM \<Rightarrow> SoapySDRDevice_setFrequencyCorrection L n dev val)"

definition soapy_set_val :: "sys \<Rightarrow> io_handle \<Rightarrow> soapy_var_e \<Rightarrow> rat \<Rightarrow> world \<Rightarrow> (int \<times> world) option" where
  "soapy_set_val S h var val w = (case machine_get_desc h w of
      None \<Rightarrow> Some (1, w)
    | Some d \<Rightarrow>
        if md_in_use d \<noteq> 0 \<or> md_lock d then None
        else do {
          (c, s) \<leftarrow> soapy_chan h w;
          let w1 = put_chan h (soapy_set_var var val c) w;
          if sc_state c = SDR_CHAN_NOINIT then Some (0, w1)
          else do {
            let (e1, w2) = hw_call (\<lambda>n. SoapySDRDevice_deactivateStream (s_soapy S) n (so_sdr s) (so_rx s)) w1;
            let (e2, w3) = hw_call (soapy_set_hw_var (s_soapy S) (so_sdr s) var val) w2;
            if e2 \<noteq> 0 then do { w4 \<leftarrow> upd_chan h (sc_state_update (\<lambda>_. SDR_CHAN_ERROR)) w3; Some (1, w4) }
            else soapy_restart S h w3
          }
        })"

definition soapy_rx_set_freq :: "sys \<Rightarrow> io_handle \<Rightarrow> rat \<Rightarrow> world \<Rightarrow> (int \<times> world) option" where
  "soapy_rx_set_freq S h freq w = soapy_set_val S h SOAPY_VAR_FREQ freq w"

definition soapy_rx_set_samp_rate :: "sys \<Rightarrow> io_handle \<Rightarrow> rat \<Rightarrow> world \<Rightarrow> (int \<times> world) option" where
  "soapy_rx_set_samp_rate S h samp_rate w = soapy_set_val S h SOAPY_VAR_RATE samp_rate w"

definition soapy_rx_set_bandwidth :: "sys \<Rightarrow> io_handle \<Rightarrow> rat \<Rightarrow> world \<Rightarrow> (int \<times> world) option" where
  "soapy_rx_set_bandwidth S h bandwidth w = soapy_set_val S h SOAPY_VAR_BANDWIDTH bandwidth w"

definition soapy_rx_set_ppm :: "sys \<Rightarrow> io_handle \<Rightarrow> rat \<Rightarrow> world \<Rightarrow> (int \<times> world) option" where
  "soapy_rx_set_ppm S h ppm w = soapy_set_val S h SOAPY_VAR_PPM ppm w"

definition soapy_rx_set_gain_elem :: "sys \<Rightarrow> io_handle \<Rightarrow> string \<Rightarrow> rat \<Rightarrow> world \<Rightarrow> (io_status \<times> world) option" where
  "soapy_rx_set_gain_elem S h elem gain w = (case machine_get_desc h w of
      None \<Rightarrow> Some (IO_ERROR, w)
    | Some d \<Rightarrow> do {
        (c, s) \<leftarrow> soapy_chan h w;
        let (e, w1) = hw_call (\<lambda>n. SoapySDRDevice_setGainElement (s_soapy S) n (so_sdr s) elem gain) w;
        Some (if e \<noteq> 0 then IO_ERROR else IO_SUCCESS, w1)
      })"

text \<open>The status, and the gain that is stored on success.\<close>

definition soapy_rx_get_gain_elem :: "sys \<Rightarrow> io_handle \<Rightarrow> string \<Rightarrow> world \<Rightarrow> (io_status \<times> rat \<times> world) option" where
  "soapy_rx_get_gain_elem S h elem w = (case machine_get_desc h w of
      None \<Rightarrow> Some (IO_ERROR, 0, w)
    | Some d \<Rightarrow> do {
        (c, s) \<leftarrow> soapy_chan h w;
        let (g, w1) = hw_call (\<lambda>n. SoapySDRDevice_getGainElement (s_soapy S) n (so_sdr s) elem) w;
        Some (IO_SUCCESS, sgl g, w1)
      })"

text \<open>What \<open>soapy_gain_elem_info\<close> asks the library for is only logged.\<close>

definition soapy_gain_elem_info :: "io_handle \<Rightarrow> world \<Rightarrow> world option" where
  "soapy_gain_elem_info h w = (case machine_get_desc h w of
      None \<Rightarrow> Some w
    | Some d \<Rightarrow> do { (c, s) \<leftarrow> soapy_chan h w; Some (w\<lparr>w_hw := Suc (w_hw w)\<rparr>) })"

definition soapy_set_rx :: "io_handle \<Rightarrow> rat \<Rightarrow> rat \<Rightarrow> rat \<Rightarrow> world \<Rightarrow> world option" where
  "soapy_set_rx h freq rate bandwidth w = (case machine_get_desc h w of
      None \<Rightarrow> Some w
    | Some d \<Rightarrow> upd_chan h (\<lambda>c. c\<lparr>sc_freq := freq, sc_rate := rate, sc_bandwidth := bandwidth\<rparr>) w)"

end
