(* ===== verification/Lime.thy ===== *)
theory Lime
  imports Soapy
begin

text \<open>
  Model of \<open>src/sdr/lime-machine.c\<close>: a LimeSDR is a Soapy radio with three gain elements. A gain model holds their values; the
  functions that change one give it back. Functions that end without a \<open>return\<close> have no result here but the state.
\<close>

section \<open>Gains\<close>

text \<open>Gain elements are set until one fails; the failure is not passed on.\<close>

definition set_gain_model_internal :: "sys \<Rightarrow> io_handle \<Rightarrow> gain_model \<Rightarrow> world \<Rightarrow> world option" where
  "set_gain_model_internal S h model w = do {
     (e1, w1) \<leftarrow> soapy_rx_set_gain_elem S h ''LNA'' (gm_lna model) w;
     if e1 \<noteq> IO_SUCCESS then Some w1
     else do {
       (e2, w2) \<leftarrow> soapy_rx_set_gain_elem S h ''PGA'' (gm_pga model) w1;
       if e2 \<noteq> IO_SUCCESS then Some w2
       else do { (e3, w3) \<leftarrow> soapy_rx_set_gain_elem S h ''TIA'' (gm_tia model) w2; Some w3 }
     }
   }"

text \<open>The values of the elements LNA, PGA and TIA, if all can be had.\<close>

definition get_gain_elems :: "sys \<Rightarrow> io_handle \<Rightarrow> world \<Rightarrow> ((rat \<times> rat \<times> rat) option \<times> world) option" where
  "get_gain_elems S h w = do {
     (e1, lna, w1) \<leftarrow> soapy_rx_get_gain_elem S h ''LNA'' w;
     if e1 \<noteq> IO_SUCCESS then Some (None, w1)
     else do {
       (e2, pga, w2) \<leftarrow> soapy_rx_get_gain_elem S h ''PGA'' w1;
       if e2 \<noteq> IO_SUCCESS then Some (None, w2)
       else do {
         (e3, tia, w3) \<leftarrow> soapy_rx_get_gain_elem S h ''TIA'' w2;
         Some (if e3 \<noteq> IO_SUCCESS then None else Some (lna, pga, tia), w3)
       }
     }
   }"

definition get_gain_model_internal :: "sys \<Rightarrow> io_handle \<Rightarrow> gain_model \<Rightarrow> world \<Rightarrow> (int \<times> gain_model \<times> world) option" where
  "get_gain_model_internal S h model w = do {
     (g, w1) \<leftarrow> get_gain_elems S h w;
     Some (case g of
        None \<Rightarrow> (1, model, w1)
      | Some (lna, pga, tia) \<Rightarrow> (0, model\<lparr>gm_lna := lna, gm_pga := pga, gm_tia := tia\<rparr>, w1))
   }"

definition lime_rx_get_net_gain :: "sys \<Rightarrow> io_handle \<Rightarrow> world \<Rightarrow> (int \<times> rat option \<times> world) option" where
  "lime_rx_get_net_gain S h w = do {
     (g, w1) \<leftarrow> get_gain_elems S h w;
     Some (case g of
        None \<Rightarrow> (1, None, w1)
      | Some (lna, pga, tia) \<Rightarrow> (0, Some (sgl (sgl (lna + pga) + tia)), w1))
   }"

text \<open>One step up or down: the result is 1 at the end of the range, -1 for another kind of model. Constants are doubles, variables floats.\<close>

definition lime_rx_gain_inc :: "gain_model \<Rightarrow> int \<times> gain_model" where
  "lime_rx_gain_inc m = (if gm_type m \<noteq> GM_TYPE_LIME then (- 1, m) else
     let inc = 3; lna = sgl (dbl (30 - gm_lna m)) in
     if lna \<ge> inc then (0, m\<lparr>gm_lna := sgl (gm_lna m + inc)\<rparr>)
     else let m1 = m\<lparr>gm_lna := sgl (gm_lna m + lna)\<rparr>; inc1 = sgl (inc - lna); pga = sgl (dbl (19 - gm_pga m)) in
       if pga \<ge> inc1 then (0, m1\<lparr>gm_pga := sgl (gm_pga m + inc1)\<rparr>)
       else (1, m1\<lparr>gm_pga := sgl (gm_pga m + pga)\<rparr>))"

definition lime_rx_gain_dec :: "gain_model \<Rightarrow> int \<times> gain_model" where
  "lime_rx_gain_dec m = (if gm_type m \<noteq> GM_TYPE_LIME then (- 1, m) else
     let dec = 3 in
     if gm_pga m \<ge> dec then (0, m\<lparr>gm_pga := sgl (gm_pga m - dec)\<rparr>)
     else let dec1 = sgl (dec - gm_pga m); m1 = m\<lparr>gm_pga := 0\<rparr> in
       if gm_lna m \<ge> dec1 then (0, m1\<lparr>gm_lna := sgl (gm_lna m - dec1)\<rparr>)
       else (1, m1\<lparr>gm_lna := 0\<rparr>))"

definition lime_rx_set_gain_model :: "sys \<Rightarrow> io_handle \<Rightarrow> gain_model \<Rightarrow> world \<Rightarrow> (int \<times> world) option" where
  "lime_rx_set_gain_model S h model w =
     (if gm_type model \<noteq> GM_TYPE_LIME then Some (1, w)
      else do { w1 \<leftarrow> set_gain_model_internal S h model w; Some (0, w1) })"

definition sizeof_lime_gain_model :: size_t where "sizeof_lime_gain_model = 32"

definition lime_rx_gain_model_init :: "sys \<Rightarrow> pool \<Rightarrow> world \<Rightarrow> (gain_model \<times> world) option" where
  "lime_rx_gain_model_init S p w = do {
     a \<leftarrow> pcalloc (s_mem S) (w_heap w) p sizeof_lime_gain_model;
     Some (\<lparr>gm_type = GM_TYPE_LIME, gm_len = int sizeof_lime_gain_model, gm_lna = 0, gm_pga = 0, gm_tia = 0\<rparr>,
       add_live a sizeof_lime_gain_model w)
   }"

definition lime_rx_get_gain_model :: "sys \<Rightarrow> io_handle \<Rightarrow> gain_model \<Rightarrow> world \<Rightarrow> (int \<times> gain_model \<times> world) option" where
  "lime_rx_get_gain_model S h model w =
     (if gm_type model \<noteq> GM_TYPE_LIME then Some (1, model, w) else get_gain_model_internal S h model w)"

section \<open>The machine\<close>

definition lime_api :: "sys \<Rightarrow> sdr_api" where
  "lime_api S = (soapy_api S)\<lparr>api_init_gain_model := Some (lime_rx_gain_model_init S), api_get_gain_model := lime_rx_get_gain_model S,
     api_set_gain_model := lime_rx_set_gain_model S, api_get_net_gain := lime_rx_get_net_gain S, api_gain_inc := lime_rx_gain_inc,
     api_gain_dec := lime_rx_gain_dec\<rparr>"

text \<open>The first call sets the functions for gains in the API of the Soapy machine, for all its channels.\<close>

definition new_lime_rx_machine :: "sys \<Rightarrow> (sdr_api_id \<Rightarrow> sdr_api) \<Rightarrow> world \<Rightarrow> (io_handle \<times> world) option" where
  "new_lime_rx_machine S A w = do {
     (h, w1) \<leftarrow> new_soapy_rx_machine S A (Some ''lime'') w;
     (case w_lime_machine w1 of
        Some m \<Rightarrow> Some (h, w1)
      | None \<Rightarrow> do {
          (m, iom) \<leftarrow> get_iom (w_soapy_machine w1) w1;
          Some (h, w1\<lparr>w_machines := (w_machines w1)[m := (w_machines w1 ! m)\<lparr>m_obj := Some API_LIME\<rparr>], w_lime_machine := Some m\<rparr>)
        })
   }"

definition lime_set_gains :: "io_handle \<Rightarrow> rat \<Rightarrow> rat \<Rightarrow> rat \<Rightarrow> world \<Rightarrow> world option" where
  "lime_set_gains h lna tia pga w = (case machine_get_desc h w of
      None \<Rightarrow> Some w
    | Some d \<Rightarrow> do {
        (c, s) \<leftarrow> soapy_chan h w;
        Some (put_soapy h (c\<lparr>sc_gain := lna\<rparr>) (s\<lparr>so_tia_gain := tia, so_pga_gain := pga\<rparr>) w)
      })"

definition lime_gain_info :: "io_handle \<Rightarrow> world \<Rightarrow> world option" where
  "lime_gain_info h w = do {
     w1 \<leftarrow> soapy_gain_elem_info h w;
     w2 \<leftarrow> soapy_gain_elem_info h w1;
     soapy_gain_elem_info h w2
   }"

definition lime_set_rx :: "io_handle \<Rightarrow> rat \<Rightarrow> rat \<Rightarrow> rat \<Rightarrow> world \<Rightarrow> world option" where
  "lime_set_rx h freq rate bandwidth w = soapy_set_rx h freq rate bandwidth w"

definition lime_rx_set_freq :: "sys \<Rightarrow> io_handle \<Rightarrow> rat \<Rightarrow> world \<Rightarrow> world option" where
  "lime_rx_set_freq S h freq w = do { (e, w1) \<leftarrow> soapy_rx_set_freq S h freq w; Some w1 }"

definition lime_rx_set_samp_rate :: "sys \<Rightarrow> io_handle \<Rightarrow> rat \<Rightarrow> world \<Rightarrow> world option" where
  "lime_rx_set_samp_rate S h samp_rate w = do { (e, w1) \<leftarrow> soapy_rx_set_samp_rate S h samp_rate w; Some w1 }"

definition lime_rx_set_bandwidth :: "sys \<Rightarrow> io_handle \<Rightarrow> rat \<Rightarrow> world \<Rightarrow> world option" where
  "lime_rx_set_bandwidth S h bandwidth w = do { (e, w1) \<leftarrow> soapy_rx_set_bandwidth S h bandwidth w; Some w1 }"

definition lime_rx_set_ppm :: "sys \<Rightarrow> io_handle \<Rightarrow> rat \<Rightarrow> world \<Rightarrow> (int \<times> world) option" where
  "lime_rx_set_ppm S h ppm w = soapy_rx_set_ppm S h ppm w"

end
