(* ===== verification/Uhd.thy ===== *)
theory Uhd
  imports Soapy
begin

text \<open>
  Model of \<open>src/sdr/uhd-machine.c\<close> and \<open>src/sdr/b210-machine.c\<close>: radios behind the UHD library. The calls of the library count as
  hardware calls (\<open>w_hw\<close>); the texts of its errors, which are only logged, are left out.
\<close>

section \<open>Channels\<close>

definition uhd_of :: "sdr_channel \<Rightarrow> uhd_channel option" where
  "uhd_of c = (case sc_impl c of SDR_UHD u \<Rightarrow> Some u | _ \<Rightarrow> None)"

definition uhd_chan :: "io_handle \<Rightarrow> world \<Rightarrow> (sdr_channel \<times> uhd_channel) option" where
  "uhd_chan h w = do {
     d \<leftarrow> machine_get_desc h w;
     c \<leftarrow> chan_of d;
     u \<leftarrow> uhd_of c;
     Some (c, u)
   }"

definition put_uhd :: "io_handle \<Rightarrow> sdr_channel \<Rightarrow> uhd_channel \<Rightarrow> world \<Rightarrow> world" where
  "put_uhd h c u w = put_chan h (c\<lparr>sc_impl := SDR_UHD u\<rparr>) w"

definition uhd_channel_set :: "sys \<Rightarrow> sdr_ref" where
  "uhd_channel_set S h w = do {
     (c, u) \<leftarrow> uhd_chan h w;
     let L = s_uhd S;
     let usrp = uc_sdr u;
     let ch = uc_channel u;
     let (ok1, w1) = hw_steps [\<lambda>n. uhd_usrp_set_rx_rate L n usrp (sc_rate c) ch,
       \<lambda>n. uhd_usrp_set_rx_bandwidth L n usrp (sc_bandwidth c) ch] w;
     if \<not> ok1 then Some (IO_ERROR, w1)
     else do {
       let u1 = u\<lparr>uc_target_freq := sc_freq c\<rparr>;
       let (ok2, w2) = hw_steps [\<lambda>n. uhd_usrp_set_rx_freq L n usrp (sc_freq c) ch, \<lambda>n. uhd_usrp_set_rx_gain L n usrp (sc_gain c) ch,
         \<lambda>n. uhd_usrp_get_rx_stream L n usrp ch (uc_rx_streamer u)] (put_uhd h c u1 w1);
       if \<not> ok2 then Some (IO_ERROR, w2)
       else do {
         let ((e, k), w3) = hw_call (\<lambda>n. uhd_rx_streamer_max_num_samps L n (uc_rx_streamer u)) w2;
         if e \<noteq> 0 then Some (IO_ERROR, w3)
         else Some (IO_SUCCESS, put_uhd h c (u1\<lparr>uc_max_samples := k\<rparr>) w3)
       }
     }
   }"

text \<open>Send a command for the stream, which is kept in the channel.\<close>

definition stream_cmd :: "sys \<Rightarrow> io_handle \<Rightarrow> uhd_stream_mode_t \<Rightarrow> world \<Rightarrow> (int \<times> world) option" where
  "stream_cmd S h mode w = do {
     (c, u) \<leftarrow> uhd_chan h w;
     Some (hw_call (\<lambda>n. uhd_rx_streamer_issue_stream_cmd (s_uhd S) n (uc_rx_streamer u) mode) (put_uhd h c (u\<lparr>uc_stream_mode := mode\<rparr>) w))
   }"

definition uhd_channel_reset :: "sys \<Rightarrow> sdr_ref" where
  "uhd_channel_reset S h w = do {
     (e, w1) \<leftarrow> stream_cmd S h UHD_STREAM_MODE_STOP_CONTINUOUS w;
     w2 \<leftarrow> upd_chan h (sc_state_update (\<lambda>_. if e \<noteq> 0 then SDR_CHAN_ERROR else SDR_CHAN_RESET)) w1;
     Some (if e \<noteq> 0 then IO_ERROR else IO_SUCCESS, w2)
   }"

text \<open>Samples are read and dropped until there is no overflow.\<close>

partial_function (option) uhd_start_loop :: "sys \<Rightarrow> nat \<Rightarrow> nat \<Rightarrow> size_t \<Rightarrow> world \<Rightarrow> (io_status \<times> world) option" where
  "uhd_start_loop S streamer metadata n_samp w =
     (let (r, w1) = hw_call (\<lambda>n. uhd_rx_streamer_recv (s_uhd S) n streamer n_samp) w;
          ((e, code), w2) = hw_call (\<lambda>n. uhd_rx_metadata_error_code (s_uhd S) n metadata) w1 in
      if e \<noteq> 0 then Some (IO_ERROR, w2)
      else if code = UHD_RX_METADATA_ERROR_CODE_NONE then Some (IO_SUCCESS, w2)
      else if code = UHD_RX_METADATA_ERROR_CODE_OVERFLOW then uhd_start_loop S streamer metadata n_samp w2
      else Some (IO_ERROR, w2))"

text \<open>If the command fails, the pointer \<open>data\<close> is freed before it was set.\<close>

definition uhd_channel_start :: "sys \<Rightarrow> sdr_ref" where
  "uhd_channel_start S h w = do {
     (e, w1) \<leftarrow> stream_cmd S h UHD_STREAM_MODE_START_CONTINUOUS w;
     if e \<noteq> 0 then None
     else do {
       (c, u) \<leftarrow> uhd_chan h w1;
       n_samp \<leftarrow> dbl_to_size (dbl (sc_rate c * dbl (1 / 100)));
       uhd_start_loop S (uc_rx_streamer u) (uc_rx_metadata u) n_samp w1
     }
   }"

section \<open>Samples\<close>

text \<open>
  The loop of \<open>read_from_hw\<close>: \<open>ret\<close> is the status so far. Errors other than an overflow return at once, and leave \<open>*n_samp\<close>, here \<open>n0\<close>, as it
  was. When there is an overflow after the first samples, what was just read is not counted.
\<close>

partial_function (option) uhd_read_loop ::
    "sys \<Rightarrow> io_handle \<Rightarrow> size_t \<Rightarrow> addr \<Rightarrow> size_t \<Rightarrow> size_t \<Rightarrow> io_status \<Rightarrow> world \<Rightarrow> (io_status \<times> size_t \<times> world) option" where
  "uhd_read_loop S h n0 data remaining total_samp ret w =
     (if remaining = 0 then Some (if ret < IO_SUCCESS then IO_SUCCESS else ret, total_samp, w)
      else do {
        (c, u) \<leftarrow> uhd_chan h w;
        let ((bs, read_samp), w1) = hw_call (\<lambda>n. uhd_rx_streamer_recv (s_uhd S) n (uc_rx_streamer u) remaining) w;
        let ((e, code), w2) = hw_call (\<lambda>n. uhd_rx_metadata_error_code (s_uhd S) n (uc_rx_metadata u)) (poke data bs w1);
        let overflow = (code = UHD_RX_METADATA_ERROR_CODE_OVERFLOW);
        if e \<noteq> 0 \<or> (code \<noteq> UHD_RX_METADATA_ERROR_CODE_NONE \<and> \<not> overflow) then Some (IO_ERROR, n0, w2)
        else if overflow \<and> \<not> sc_allow_overruns c then Some (ret, total_samp, w2)
        else if overflow \<and> total_samp > 0 then Some (IO_DATABREAK, total_samp, w2)
        else do {
          let w3 = (if overflow then w2 else put_uhd h c (u\<lparr>uc_error_counter := 0\<rparr>) w2);
          k \<leftarrow> read_samp;
          uhd_read_loop S h n0 (data + 8 * k) (sz_sub remaining k) (sz_add total_samp k) (if overflow then IO_DATABREAK else ret) w3
        }
      })"

definition uhd_read_from_hw :: "sys \<Rightarrow> sdr_rw" where
  "uhd_read_from_hw S h buf n_samp w = uhd_read_loop S h n_samp buf n_samp 0 IO_ERROR w"

section \<open>Devices\<close>

definition sizeof_uhd_device :: size_t where "sizeof_uhd_device = 136"
definition sizeof_usrp_handle :: size_t where "sizeof_usrp_handle = 8"

definition uhd_create_device :: "sys \<Rightarrow> pool \<Rightarrow> sdr_arg \<Rightarrow> world \<Rightarrow> (sdr_device option \<times> world) option" where
  "uhd_create_device S p arg w = (case arg of
      ARG_UHD ch device_string \<Rightarrow> do {
        let w1 = w\<lparr>w_hw := Suc (w_hw w)\<rparr>;
        if length device_string > 4096 then Some (None, w1)
        else do {
          let ds_len = length device_string + 1;
          dev_str \<leftarrow> pcalloc (s_mem S) (w_heap w1) p ds_len;
          let w2 = add_live dev_str ds_len w1;
          a \<leftarrow> pcalloc (s_mem S) (w_heap w2) p sizeof_usrp_handle;
          let w3 = add_live a sizeof_usrp_handle w2;
          let ((e, hw), w4) = hw_call (\<lambda>n. uhd_usrp_make (s_uhd S) n device_string) w3;
          if e \<noteq> 0 then Some (None, w4)
          else Some (case pcalloc (s_mem S) (w_heap w4) p sizeof_uhd_device of
              None \<Rightarrow> (None, w4)
            | Some d \<Rightarrow> (Some \<lparr>sd_ptr = d, sd_id = 0, sd_handle = 0, sd_pool = 0, sd_hw = hw, sd_channels = [], sd_channels_ptr = 0,
                 sd_chan_len = 0, sd_destroy = API_UHD\<rparr>, add_live d sizeof_uhd_device w4))
        }
      }
    | _ \<Rightarrow> None)"

definition uhd_create_channel :: "sys \<Rightarrow> pool \<Rightarrow> sdr_device \<Rightarrow> sdr_arg \<Rightarrow> world \<Rightarrow> (sdr_channel option \<times> world) option" where
  "uhd_create_channel S p dev arg w = (case arg of
      ARG_UHD ch device_string \<Rightarrow> do {
        let size = sizeof_uhd_channel (s_uhd S);
        a \<leftarrow> pcalloc (s_mem S) (w_heap w) p size;
        let ((e1, streamer), w1) = hw_call (uhd_rx_streamer_make (s_uhd S)) (add_live a size w);
        if e1 \<noteq> 0 then Some (None, w1)
        else do {
          let ((e2, metadata), w2) = hw_call (uhd_rx_metadata_make (s_uhd S)) w1;
          if e2 \<noteq> 0 then Some (None, w2)
          else Some (Some ((zero_channel a (SDR_UHD \<lparr>uc_sdr = sd_hw dev, uc_channel = ch, uc_target_freq = 0,
            uc_stream_mode = UHD_STREAM_MODE_START_CONTINUOUS, uc_rx_streamer = streamer, uc_rx_metadata = metadata, uc_max_samples = 0,
            uc_error_counter = 0\<rparr>))\<lparr>sc_destroy := Some API_UHD\<rparr>), w2)
        }
      }
    | _ \<Rightarrow> None)"

definition uhd_create_rx_filter :: "sys \<Rightarrow> pool \<Rightarrow> world \<Rightarrow> (addr \<times> world) option" where
  "uhd_create_rx_filter S p w = do {
     (f, w1) \<leftarrow> create_filter S p ''_uhd_hw'' FN_SDRRX_READ w;
     w2 \<leftarrow> upd_filter f (f_obj_update (\<lambda>_. OBJ_HANDLE 0)) w1;
     Some (f, w2)
   }"

text \<open>Freeing a device is one call of the library, freeing the streamer and the metadata of a channel two.\<close>

definition uhd_destroy_device :: "sdr_device \<Rightarrow> world \<Rightarrow> world option" where
  "uhd_destroy_device d w = Some (w\<lparr>w_hw := w_hw w + 1\<rparr>)"

definition destroy_uhd_channel :: "io_handle \<Rightarrow> world \<Rightarrow> world option" where
  "destroy_uhd_channel h w = do { (c, u) \<leftarrow> uhd_chan h w; Some (w\<lparr>w_hw := w_hw w + 2\<rparr>) }"

definition uhd_api :: "sys \<Rightarrow> sdr_api" where
  "uhd_api S = \<lparr>api_set_vars = Some (\<lambda>p arg w. Some w), api_device = uhd_create_device S, api_channel = uhd_create_channel S,
     api_rx_filter = Some (uhd_create_rx_filter S),
     api_hw_read = (if envex_exists S ''BW_UHD_COUNTER_TEST'' then sdr_read_from_counter else uhd_read_from_hw S),
     api_channel_set = uhd_channel_set S, api_channel_reset = uhd_channel_reset S, api_channel_start = uhd_channel_start S,
     api_destroy_device = uhd_destroy_device, api_destroy_channel = destroy_uhd_channel,
     api_init_gain_model = None, api_get_gain_model = get_gain_model, api_set_gain_model = set_gain_model, api_get_net_gain = get_gain,
     api_gain_inc = gain_inc, api_gain_dec = gain_dec\<rparr>"

section \<open>The machine\<close>

definition get_uhd_rx_machine :: "sys \<Rightarrow> world \<Rightarrow> (nat \<times> world) option" where
  "get_uhd_rx_machine S w = (case w_uhd_machine w of
      Some m \<Rightarrow> Some (m, w)
    | None \<Rightarrow> do {
        (mo, w1) \<leftarrow> machine_register S ''uhd_rx'' w;
        m \<leftarrow> mo;
        let w2 = sdr_init_machine_functions m w1;
        (i, iom) \<leftarrow> get_iom (Some m) w2;
        a \<leftarrow> pcalloc (s_mem S) (w_heap w2) (m_alloc iom) 152;
        let ms = (w_machines w2)[m := (w_machines w2 ! m)\<lparr>m_obj := Some API_UHD, m_create := CREATE_SDR\<rparr>];
        Some (m, (add_live a 152 w2)\<lparr>w_machines := ms, w_uhd_machine := Some m\<rparr>)
      })"

text \<open>The number of the channel is an \<open>int\<close> that becomes a \<open>size_t\<close>.\<close>

definition new_uhd_rx_machine_devstr :: "sys \<Rightarrow> (sdr_api_id \<Rightarrow> sdr_api) \<Rightarrow> int \<Rightarrow> string \<Rightarrow> world \<Rightarrow> (io_handle \<times> world) option" where
  "new_uhd_rx_machine_devstr S A channel devstr w = do {
     (m, w1) \<leftarrow> get_uhd_rx_machine S w;
     sdr_create S A m (ARG_UHD (nat (channel mod 2 ^ 64)) devstr) w1
   }"

text \<open>The handle is not returned.\<close>

definition new_uhd_rx_machine :: "sys \<Rightarrow> (sdr_api_id \<Rightarrow> sdr_api) \<Rightarrow> int \<Rightarrow> world \<Rightarrow> world option" where
  "new_uhd_rx_machine S A channel w = do { (h, w1) \<leftarrow> new_uhd_rx_machine_devstr S A channel [] w; Some w1 }"

section \<open>Settings\<close>

datatype uhd_var_e = UHD_VAR_FREQ | UHD_VAR_RATE | UHD_VAR_BANDWIDTH

definition uhd_set_var :: "uhd_var_e \<Rightarrow> rat \<Rightarrow> sdr_channel \<Rightarrow> sdr_channel" where
  "uhd_set_var var val c = (case var of
      UHD_VAR_FREQ \<Rightarrow> c\<lparr>sc_freq := val\<rparr>
    | UHD_VAR_RATE \<Rightarrow> c\<lparr>sc_rate := val\<rparr>
    | UHD_VAR_BANDWIDTH \<Rightarrow> c\<lparr>sc_bandwidth := val\<rparr>)"

definition uhd_set_hw_var :: "sys \<Rightarrow> io_handle \<Rightarrow> uhd_var_e \<Rightarrow> rat \<Rightarrow> world \<Rightarrow> (int \<times> world) option" where
  "uhd_set_hw_var S h var val w = do {
     (c, u) \<leftarrow> uhd_chan h w;
     let L = s_uhd S;
     Some (case var of
        UHD_VAR_FREQ \<Rightarrow> hw_call (\<lambda>n. uhd_usrp_set_rx_freq L n (uc_sdr u) val (uc_channel u)) (put_uhd h c (u\<lparr>uc_target_freq := val\<rparr>) w)
      | UHD_VAR_RATE \<Rightarrow> hw_call (\<lambda>n. uhd_usrp_set_rx_rate L n (uc_sdr u) val (uc_channel u)) w
      | UHD_VAR_BANDWIDTH \<Rightarrow> hw_call (\<lambda>n. uhd_usrp_set_rx_bandwidth L n (uc_sdr u) val (uc_channel u)) w)
   }"

text \<open>A handle that is not found is followed as a pointer. The result is 0 for success.\<close>

definition uhd_set_val :: "sys \<Rightarrow> io_handle \<Rightarrow> uhd_var_e \<Rightarrow> rat \<Rightarrow> world \<Rightarrow> (int \<times> world) option" where
  "uhd_set_val S h var val w = do {
     d \<leftarrow> machine_get_desc h w;
     if md_in_use d \<noteq> 0 \<or> md_lock d then None
     else do {
       (c, u) \<leftarrow> uhd_chan h w;
       let w1 = put_chan h (uhd_set_var var val c) w;
       if sc_state c = SDR_CHAN_NOINIT then Some (0, w1)
       else do {
         (e1, w2) \<leftarrow> stream_cmd S h UHD_STREAM_MODE_STOP_CONTINUOUS w1;
         (e2, w3) \<leftarrow> uhd_set_hw_var S h var val w2;
         (st, w4) \<leftarrow> (if e2 \<noteq> 0 then Some (IO_ERROR, w3) else uhd_channel_start S h w3);
         if st < IO_SUCCESS then do { w5 \<leftarrow> upd_chan h (sc_state_update (\<lambda>_. SDR_CHAN_ERROR)) w4; Some (1, w5) }
         else Some (0, w4)
       }
     }
   }"

definition uhd_rx_set_freq :: "sys \<Rightarrow> io_handle \<Rightarrow> rat \<Rightarrow> world \<Rightarrow> (int \<times> world) option" where
  "uhd_rx_set_freq S h freq w = uhd_set_val S h UHD_VAR_FREQ freq w"

definition uhd_rx_set_samp_rate :: "sys \<Rightarrow> io_handle \<Rightarrow> rat \<Rightarrow> world \<Rightarrow> (int \<times> world) option" where
  "uhd_rx_set_samp_rate S h samp_rate w = uhd_set_val S h UHD_VAR_RATE samp_rate w"

definition uhd_rx_set_bandwidth :: "sys \<Rightarrow> io_handle \<Rightarrow> rat \<Rightarrow> world \<Rightarrow> (int \<times> world) option" where
  "uhd_rx_set_bandwidth S h bandwidth w = uhd_set_val S h UHD_VAR_BANDWIDTH bandwidth w"

definition uhd_rx_set_gain :: "io_handle \<Rightarrow> rat \<Rightarrow> world \<Rightarrow> world option" where
  "uhd_rx_set_gain h lna w = upd_chan h (sc_gain_update (\<lambda>_. lna)) w"

definition uhd_set_rx :: "io_handle \<Rightarrow> rat \<Rightarrow> rat \<Rightarrow> rat \<Rightarrow> world \<Rightarrow> world option" where
  "uhd_set_rx h freq rate bandwidth w = (case machine_get_desc h w of
      None \<Rightarrow> Some w
    | Some d \<Rightarrow> upd_chan h (\<lambda>c. c\<lparr>sc_freq := freq, sc_rate := rate, sc_bandwidth := bandwidth\<rparr>) w)"

section \<open>The B210\<close>

text \<open>Functions that end without a \<open>return\<close> have no result here but the state.\<close>

definition b210_rx_set_gain :: "io_handle \<Rightarrow> rat \<Rightarrow> world \<Rightarrow> world option" where
  "b210_rx_set_gain h lna w = uhd_rx_set_gain h lna w"

definition b210_set_rx :: "io_handle \<Rightarrow> rat \<Rightarrow> rat \<Rightarrow> rat \<Rightarrow> world \<Rightarrow> world option" where
  "b210_set_rx h freq rate bandwidth w = uhd_set_rx h freq rate bandwidth w"

definition b210_rx_set_freq :: "sys \<Rightarrow> io_handle \<Rightarrow> rat \<Rightarrow> world \<Rightarrow> world option" where
  "b210_rx_set_freq S h freq w = do { (e, w1) \<leftarrow> uhd_rx_set_freq S h freq w; Some w1 }"

definition b210_rx_set_samp_rate :: "sys \<Rightarrow> io_handle \<Rightarrow> rat \<Rightarrow> world \<Rightarrow> world option" where
  "b210_rx_set_samp_rate S h samp_rate w = do { (e, w1) \<leftarrow> uhd_rx_set_samp_rate S h samp_rate w; Some w1 }"

definition b210_rx_set_bandwidth :: "sys \<Rightarrow> io_handle \<Rightarrow> rat \<Rightarrow> world \<Rightarrow> world option" where
  "b210_rx_set_bandwidth S h bandwidth w = do { (e, w1) \<leftarrow> uhd_rx_set_bandwidth S h bandwidth w; Some w1 }"

definition new_b210_rx_machine_devstr :: "sys \<Rightarrow> (sdr_api_id \<Rightarrow> sdr_api) \<Rightarrow> string \<Rightarrow> world \<Rightarrow> (io_handle \<times> world) option" where
  "new_b210_rx_machine_devstr S A devstr w =
     (if length devstr + 1 > 4096 - 16 - 1 then Some (0, w)
      else do {
        let ds = take 4094 (''type=b200'' @ (if devstr \<noteq> [] then '','' @ devstr else []));
        (h, w1) \<leftarrow> new_uhd_rx_machine_devstr S A 0 ds w;
        Some (h, if w_b210_machine w1 = None then w1\<lparr>w_b210_machine := w_uhd_machine w1\<rparr> else w1)
      })"

definition new_b210_rx_machine :: "sys \<Rightarrow> (sdr_api_id \<Rightarrow> sdr_api) \<Rightarrow> world \<Rightarrow> (io_handle \<times> world) option" where
  "new_b210_rx_machine S A w = new_b210_rx_machine_devstr S A [] w"

end
