(* ===== verification/Sdr_Apis.thy ===== *)
theory Sdr_Apis
  imports Rtlsdr Lime Uhd
begin

text \<open>The functions of each kind of radio, as the field \<open>obj\<close> of its machine points to them.\<close>

definition sdr_api_of :: "sys \<Rightarrow> sdr_api_id \<Rightarrow> sdr_api" where
  "sdr_api_of S i = (case i of
      API_RTLSDR \<Rightarrow> rtlsdr_api S
    | API_SOAPY \<Rightarrow> soapy_api S
    | API_LIME \<Rightarrow> lime_api S
    | API_UHD \<Rightarrow> uhd_api S)"

end
