(* ===== verification/Conversions.thy ===== *)
theory Conversions
  imports Simple_Filters
begin

text \<open>
  Model of \<open>src/filter/conversions.c\<close>: a filter that converts samples between formats. Samples are turned into doubles, scaled, and
  turned into the other format. The array of doubles is a list here: only the filter itself uses it. The sign of a zero and
  the bits of a NaN are not modelled.
\<close>

section \<open>Formats\<close>

text \<open>A signed integer of \<open>k\<close> bytes.\<close>

definition int_of_bytes :: "nat \<Rightarrow> byte list \<Rightarrow> int" where
  "int_of_bytes k xs = (let n = int (le_nat xs) in if n < 2 ^ (8 * k - 1) then n else n - 2 ^ (8 * k))"

definition int_bytes :: "nat \<Rightarrow> int \<Rightarrow> byte list" where
  "int_bytes k x = le_bytes k (nat (x mod 2 ^ (8 * k)))"

text \<open>The conversion of a double to an integer of \<open>k\<close> bytes truncates; out of range it is undefined.\<close>

definition dbl_to_sint :: "nat \<Rightarrow> cdouble \<Rightarrow> int option" where
  "dbl_to_sint k x = (case x of
      Fin v \<Rightarrow> if - (2 ^ (8 * k - 1)) \<le> trunc v \<and> trunc v < 2 ^ (8 * k - 1) then Some (trunc v) else None
    | _ \<Rightarrow> None)"

text \<open>One step of the loops \<open><fmt>_to_double\<close> and \<open>double_to_<fmt>\<close>.\<close>

definition pull_one :: "iq_data_type_e \<Rightarrow> byte list \<Rightarrow> cdouble" where
  "pull_one t xs = (case t of
      IQ_FC32 \<Rightarrow> float_of xs
    | IQ_SC16 \<Rightarrow> Fin (of_int (int_of_bytes 2 xs))
    | IQ_SC8 \<Rightarrow> Fin (of_int (int_of_bytes 1 xs))
    | IQ_UNSUPPORTED \<Rightarrow> NaN)"

definition push_one :: "iq_data_type_e \<Rightarrow> cdouble \<Rightarrow> byte list option" where
  "push_one t x = (case t of
      IQ_FC32 \<Rightarrow> Some (case x of
          Fin v \<Rightarrow> float_bytes v
        | PInf \<Rightarrow> le_bytes 4 (255 * 2 ^ 23)
        | NInf \<Rightarrow> le_bytes 4 (2 ^ 31 + 255 * 2 ^ 23)
        | NaN \<Rightarrow> le_bytes 4 (255 * 2 ^ 23 + 2 ^ 22))
    | IQ_SC16 \<Rightarrow> map_option (int_bytes 2) (dbl_to_sint 2 x)
    | IQ_SC8 \<Rightarrow> map_option (int_bytes 1) (dbl_to_sint 1 x)
    | IQ_UNSUPPORTED \<Rightarrow> None)"

definition iq_desc :: "iq_datatype list" where
  "iq_desc = [\<lparr>iq_type = IQ_FC32, iq_data_size = 4, iq_is_float = True\<rparr>,
     \<lparr>iq_type = IQ_SC16, iq_data_size = 2, iq_is_float = False\<rparr>,
     \<lparr>iq_type = IQ_SC8, iq_data_size = 1, iq_is_float = False\<rparr>,
     \<lparr>iq_type = IQ_UNSUPPORTED, iq_data_size = 0, iq_is_float = False\<rparr>]"

text \<open>The loops: the doubles of the samples in \<open>remaining\<close> bytes at \<open>src\<close>, and the bytes of the samples of a list of doubles.\<close>

function pull :: "iq_datatype \<Rightarrow> memory \<Rightarrow> addr \<Rightarrow> size_t \<Rightarrow> cdouble list" where
  "pull fmt m src remaining =
     (if iq_data_size fmt = 0 \<or> remaining < iq_data_size fmt then []
      else pull_one (iq_type fmt) (mem_read m src (iq_data_size fmt)) #
        pull fmt m (src + iq_data_size fmt) (remaining - iq_data_size fmt))"
  by pat_completeness auto
termination by (relation "measure (\<lambda>(fmt, m, src, remaining). remaining)") auto

declare pull.simps [simp del]

fun push :: "iq_datatype \<Rightarrow> cdouble list \<Rightarrow> byte list option" where
  "push fmt [] = Some []"
| "push fmt (d # ds) = do {
     x \<leftarrow> push_one (iq_type fmt) d;
     xs \<leftarrow> push fmt ds;
     Some (x @ xs)
   }"

section \<open>Scaling\<close>

text \<open>The precision is passed as a \<open>char\<close>. A shift by a negative number, or of a bit into the sign, is undefined.\<close>

definition scale_factor :: "int \<Rightarrow> rat option" where
  "scale_factor precision = (let p = (precision + 128) mod 256 - 128 in
     if 1 \<le> p \<and> p \<le> 31 then Some (sgl (of_int (2 ^ nat (p - 1) - 1))) else None)"

definition cquot :: "cdouble \<Rightarrow> rat \<Rightarrow> cdouble" where
  "cquot x s = (case x of Fin v \<Rightarrow> cdiv v s | _ \<Rightarrow> x)"

definition scale_float_to_integer :: "int \<Rightarrow> cdouble list \<Rightarrow> cdouble list option" where
  "scale_float_to_integer precision ds = do {
     s \<leftarrow> scale_factor precision;
     Some (if s = 1 then ds else map (\<lambda>d. cmul d s) ds)
   }"

definition scale_integer_to_float :: "int \<Rightarrow> cdouble list \<Rightarrow> cdouble list option" where
  "scale_integer_to_float precision ds = do {
     s \<leftarrow> scale_factor precision;
     Some (if s = 1 then ds else map (\<lambda>d. cquot d s) ds)
   }"

definition scale :: "gcb \<Rightarrow> cdouble list \<Rightarrow> cdouble list option" where
  "scale b ds =
     (if iq_is_float (cb_to b) = iq_is_float (cb_from b) then Some ds
      else if iq_is_float (cb_to b) then scale_integer_to_float (cb_precision b) ds
      else scale_float_to_integer (cb_precision b) ds)"

section \<open>The filter\<close>

text \<open>Pull, scale, push: the bytes for the other side.\<close>

definition convert :: "gcb \<Rightarrow> memory \<Rightarrow> addr \<Rightarrow> size_t \<Rightarrow> byte list option" where
  "convert b m src bytes = do {
     ds \<leftarrow> scale b (pull (cb_from b) m src bytes);
     push (cb_to b) ds
   }"

definition put_mem :: "addr \<Rightarrow> byte list \<Rightarrow> world \<Rightarrow> world" where
  "put_mem a xs w = w\<lparr>w_heap := (w_heap w)\<lparr>mem := mem_write (mem (w_heap w)) a xs\<rparr>\<rparr>"

definition iq_type_conversion :: "sys \<Rightarrow> filter_call \<Rightarrow> filter_call" where
  "iq_type_conversion S call = unless_disabled call (\<lambda>f a buf bytes block align w. (case f_obj f of
      OBJ_CONV b \<Rightarrow> do {
        let to = iq_data_size (cb_to b);
        let from = iq_data_size (cb_from b);
        let ratio = max to from div min to from;
        (cbuf, hp1) \<leftarrow> repalloc S (w_heap w) (cb_buf b) (sz_mul bytes ratio) (f_alloc f);
        (tmp, hp2) \<leftarrow> repalloc S hp1 (cb_tmp b) (sz_mul bytes 8) (f_alloc f);
        let b1 = b\<lparr>cb_buf := cbuf, cb_tmp := tmp\<rparr>;
        w1 \<leftarrow> upd_filter a (f_obj_update (\<lambda>_. OBJ_CONV b1)) (w\<lparr>w_heap := hp2\<rparr>);
        (case f_direction f of
           IOF_WRITE \<Rightarrow> do {
             xs \<leftarrow> convert b1 (mem (w_heap w1)) buf bytes;
             (ret, n, w2) \<leftarrow> call (f_next f) cbuf (length xs) block to (put_mem cbuf xs w1);
             Some (ret, if to > from then n div ratio else if to < from then sz_mul n ratio else bytes, w2)
           }
         | IOF_READ \<Rightarrow> do {
             let wanted = (if to > from then bytes div ratio else if to < from then sz_mul bytes ratio else bytes);
             (ret, n, w2) \<leftarrow> call (f_next f) cbuf wanted block from w1;
             xs \<leftarrow> convert b1 (mem (w_heap w2)) cbuf n;
             Some (ret, length xs, put_mem buf xs w2)
           }
         | IOF_BIDIRECTIONAL \<Rightarrow> Some (IO_ERROR, bytes, w1))
      }
    | _ \<Rightarrow> None))"

text \<open>The number of a format in \<open>enum iq_data_type_e\<close>.\<close>

definition iq_number :: "iq_data_type_e \<Rightarrow> int" where
  "iq_number t = (case t of IQ_UNSUPPORTED \<Rightarrow> - 1 | IQ_FC32 \<Rightarrow> 0 | IQ_SC16 \<Rightarrow> 1 | IQ_SC8 \<Rightarrow> 2)"

fun find_iq :: "int \<Rightarrow> iq_datatype list \<Rightarrow> iq_datatype option" where
  "find_iq type [] = None"
| "find_iq type (desc # ds) =
     (if iq_type desc = IQ_UNSUPPORTED then None
      else if iq_number (iq_type desc) = type then Some desc
      else find_iq type ds)"

definition get_iq_desc :: "int \<Rightarrow> iq_datatype option" where
  "get_iq_desc type = find_iq type iq_desc"

definition sizeof_gcb :: size_t where "sizeof_gcb = 40"

text \<open>The address is 0 when a format is not supported.\<close>

definition create_conversion_filter :: "sys \<Rightarrow> pool \<Rightarrow> string \<Rightarrow> int \<Rightarrow> int \<Rightarrow> int \<Rightarrow> world \<Rightarrow> (addr \<times> world) option" where
  "create_conversion_filter S p name from_fmt to_fmt data_precision w = do {
     (f, w1) \<leftarrow> create_filter S p name FN_IQ_TYPE_CONVERSION w;
     a \<leftarrow> palloc (s_mem S) (w_heap w1) p sizeof_gcb;
     let w2 = add_live a sizeof_gcb w1;
     (case (get_iq_desc from_fmt, get_iq_desc to_fmt) of
        (Some from, Some to) \<Rightarrow> do {
          w3 \<leftarrow> upd_filter f (f_obj_update (\<lambda>_. OBJ_CONV \<lparr>cb_buf = 0, cb_tmp = 0, cb_precision = data_precision, cb_from = from, cb_to = to\<rparr>)) w2;
          Some (f, w3)
        }
      | _ \<Rightarrow> Some (0, w2))
   }"

end
