(* ===== verification/Dispatch.thy ===== *)
theory Dispatch
  imports Sdr_Apis Conversions
begin

text \<open>
  Calls through function pointers: the \<open>call\<close> of a filter and the \<open>stop\<close> and \<open>destroy\<close> of a
  machine. A filter's call may call the next filter; the first argument of \<open>call_filter\<close> bounds
  the depth of such calls, and a chain of \<open>n\<close> filters needs no more than \<open>n\<close>.
\<close>

section \<open>Filters\<close>

definition filter_body :: "sys \<Rightarrow> filter_call \<Rightarrow> io_filter_fn \<Rightarrow> filter_call" where
  "filter_body S call fn = (case fn of
      FN_RB_READ \<Rightarrow> rbm_buf_read
    | FN_RB_WRITE \<Rightarrow> rbm_buf_write S
    | FN_FBB_READ \<Rightarrow> fbbm_buf_read
    | FN_FBB_WRITE \<Rightarrow> fbbm_buf_write S
    | FN_HQ_READ \<Rightarrow> queue_read S
    | FN_HQ_WRITE \<Rightarrow> queue_write S
    | FN_NULL_READ \<Rightarrow> null_read
    | FN_NULL_WRITE \<Rightarrow> null_write
    | FN_BYTE_COUNT_LIMITER \<Rightarrow> byte_count_limiter call
    | FN_TIME_LIMITER \<Rightarrow> time_limiter call
    | FN_BYTE_COUNTER \<Rightarrow> byte_counter call
    | FN_FEEDBACK_METRIC \<Rightarrow> feedback_metric_fn call
    | FN_FEEDBACK_CONTROLLER \<Rightarrow> feedback_controller_fn S call
    | FN_FILE_READ \<Rightarrow> file_read S
    | FN_FILE_WRITE \<Rightarrow> file_write S
    | FN_FILE_ROTATE \<Rightarrow> file_rotate_fn S call
    | FN_DIR_ROTATE \<Rightarrow> dir_rotate_fn S call
    | FN_FIFO_READ \<Rightarrow> fifo_read S
    | FN_FIFO_WRITE \<Rightarrow> fifo_write S
    | FN_UDP_READ \<Rightarrow> udp_read S
    | FN_UDP_WRITE \<Rightarrow> udp_write S
    | FN_TCP_READ \<Rightarrow> tcp_read
    | FN_TCP_WRITE \<Rightarrow> tcp_write
    | FN_SDRRX_READ \<Rightarrow> sdrrx_read S (sdr_api_of S)
    | FN_IQ_TYPE_CONVERSION \<Rightarrow> iq_type_conversion S call
    | FN_EXT n \<Rightarrow> ext_filter S n call)"

fun call_filter :: "sys \<Rightarrow> nat \<Rightarrow> filter_call" where
  "call_filter S 0 a buf bytes block align w = None"
| "call_filter S (Suc n) a buf bytes block align w = do {
     f \<leftarrow> get_filter a w;
     filter_body S (call_filter S n) (f_call f) a buf bytes block align w
   }"

section \<open>Machines\<close>

definition iom_stop :: "sys \<Rightarrow> io_stopper \<Rightarrow> io_handle \<Rightarrow> world \<Rightarrow> world option" where
  "iom_stop S fn h w = (case fn of
      STOP_MACHINE \<Rightarrow> Some (machine_stop h w)
    | STOP_BUFFER \<Rightarrow> rbm_stop_buffer h w
    | STOP_QUEUE \<Rightarrow> stop_queue h w
    | STOP_DISABLE_READ \<Rightarrow> machine_disable_read h w
    | STOP_EXT n \<Rightarrow> ext_stop S n h w)"

definition iom_destroy :: "sys \<Rightarrow> io_destroyer \<Rightarrow> io_handle \<Rightarrow> world \<Rightarrow> world option" where
  "iom_destroy S fn h w = (case fn of
      DESTROY_NOIMPL \<Rightarrow> Some w
    | DESTROY_DESC \<Rightarrow> machine_destroy_desc S h w
    | DESTROY_NULL \<Rightarrow> Some (destroy_null h w)
    | DESTROY_FILE \<Rightarrow> destroy_file S h w
    | DESTROY_FIFO \<Rightarrow> destroy_fifo S h w
    | DESTROY_SOCK \<Rightarrow> destroy_sock S h w
    | DESTROY_SDR \<Rightarrow> sdr_destroy S (sdr_api_of S) h w
    | DESTROY_EXT n \<Rightarrow> ext_destroy S n h w)"

fun cleanup_loop :: "sys \<Rightarrow> (io_handle \<times> nat) list \<Rightarrow> world \<Rightarrow> world option" where
  "cleanup_loop S [] w = Some w"
| "cleanup_loop S ((h, m) # hms) w = do {
     (i, iom) \<leftarrow> get_iom (Some m) w;
     w1 \<leftarrow> iom_destroy S (m_destroy iom) h w;
     cleanup_loop S hms w1
   }"

definition machine_cleanup :: "sys \<Rightarrow> world \<Rightarrow> world option" where
  "machine_cleanup S w = cleanup_loop S (w_handle_map w) w"

end
