(* ===== verification/Segment.thy ===== *)
theory Segment
  imports Dispatch
begin

text \<open>
  Model of \<open>src/segment.c\<close> and \<open>include/stream-state.h\<close>: a segment is a thread that moves data
  from one machine to one or two others. The functions of the file come first, each as one
  call; \<open>cb\<close> is the call of a callback, on a state of the caller's choosing. The bodies of the
  two thread functions are in the theory of streams, where they are cut into steps.
\<close>

section \<open>Stream states\<close>

datatype stream_state_e =
    STREAM_INIT | STREAM_READY | STREAM_RUNNING | STREAM_FINISHING | STREAM_DONE | STREAM_STOPPED
  | STREAM_STATE_ERROR

fun state_code :: "stream_state_e \<Rightarrow> nat" where
  "state_code STREAM_INIT = 0"
| "state_code STREAM_READY = 1"
| "state_code STREAM_RUNNING = 2"
| "state_code STREAM_FINISHING = 3"
| "state_code STREAM_DONE = 4"
| "state_code STREAM_STOPPED = 5"
| "state_code STREAM_STATE_ERROR = 6"

lemma state_code_inject: "state_code x = state_code y \<longleftrightarrow> x = y"
  by (cases x; cases y; simp)

instantiation stream_state_e :: linorder
begin

definition less_eq_stream_state_e :: "stream_state_e \<Rightarrow> stream_state_e \<Rightarrow> bool" where
  "less_eq_stream_state_e x y \<longleftrightarrow> state_code x \<le> state_code y"

definition less_stream_state_e :: "stream_state_e \<Rightarrow> stream_state_e \<Rightarrow> bool" where
  "less_stream_state_e x y \<longleftrightarrow> state_code x < state_code y"

instance
  by standard (auto simp: less_eq_stream_state_e_def less_stream_state_e_def state_code_inject)

end

definition STREAM_IS_RUNNING :: "stream_state_e \<Rightarrow> bool" where
  "STREAM_IS_RUNNING s \<longleftrightarrow> s > STREAM_INIT \<and> s < STREAM_DONE"

definition STREAM_IS_PROCESSING :: "stream_state_e \<Rightarrow> bool" where
  "STREAM_IS_PROCESSING s \<longleftrightarrow> s = STREAM_RUNNING \<or> s = STREAM_FINISHING"

lemma STREAM_IS_RUNNING_iff:
  "STREAM_IS_RUNNING s \<longleftrightarrow> s \<in> {STREAM_READY, STREAM_RUNNING, STREAM_FINISHING}"
  by (cases s) (simp_all add: STREAM_IS_RUNNING_def less_stream_state_e_def)

datatype stream_status_e =
    STREAM_SUCCESS | STREAM_ERROR | STREAM_ERROR_NOT_FOUND | STREAM_ERROR_STOP_FAILURE
  | STREAM_ERROR_INVALID_STATE

section \<open>Segments\<close>

type_synonym io_stream = int

text \<open>The functions of \<open>stream.c\<close> that callbacks point to; the argument is a stream.\<close>

datatype seg_callback = CALLBACK_COMPLETE io_stream | CALLBACK_ERROR io_stream

datatype seg_event = SEGMENT_COMPLETE | SEGMENT_ERROR

datatype pthread_fn = SEGMENT_RUN | SEGMENT_RUN_SOURCE

text \<open>
  The thread of a segment is where it stands in its function. \<open>SEG_WRITE\<close> holds the variables
  of \<open>write_to_dest\<close>: the second output or the first, the bytes that were read, \<open>remaining\<close>,
  \<open>ptr\<close>, \<open>wr_bytes\<close>. \<open>SEG_CALLBACK\<close> is about to call a callback, \<open>SEG_STORE\<close> is inside it, with
  the stream locked and its state read; \<open>SEG_STOP\<close> is about to stop the machines.
\<close>

datatype seg_pc =
    SEG_IDLE | SEG_BEGIN | SEG_TOP | SEG_READ
  | SEG_WRITE bool size_t size_t addr size_t
  | SEG_RELEASE size_t
  | SEG_CALLBACK seg_event bool seg_pc
  | SEG_STORE seg_callback stream_state_e bool seg_pc
  | SEG_STOP seg_pc
  | SEG_EXIT

text \<open>\<open>struct io_segment_t\<close>; the last three fields are variables of the thread function.\<close>

record io_segment =
  seg_error :: "seg_callback option"
  seg_complete :: "seg_callback option"
  seg_thread :: seg_pc
  seg_fn :: pthread_fn
  seg_running :: bool
  seg_do_complete :: bool
  seg_id :: int
  seg_group :: "io_stream option"
  seg_gsep :: string
  seg_name :: string
  seg_pool :: pool
  seg_default_buf_len :: size_t
  seg_in :: io_handle
  seg_out :: io_handle
  seg_out1 :: io_handle
  seg_run_pool :: pool
  seg_buf :: addr
  seg_buflen :: size_t

definition SEGMENT_NAME_LEN :: nat where "SEGMENT_NAME_LEN = 1024"
definition SEGMENT_DEFAULT_BUFLEN :: size_t where "SEGMENT_DEFAULT_BUFLEN = 10 * MB"

section \<open>Stopping and destroying\<close>

definition stop_machine :: "sys \<Rightarrow> nat option \<Rightarrow> io_handle \<Rightarrow> world \<Rightarrow> world option" where
  "stop_machine S m h w = (case m of
      None \<Rightarrow> Some w
    | Some _ \<Rightarrow> do { (i, iom) \<leftarrow> get_iom m w; iom_stop S (m_stop iom) h w })"

definition stop_segment :: "sys \<Rightarrow> io_segment \<Rightarrow> world \<Rightarrow> (io_segment \<times> world) option" where
  "stop_segment S s w = do {
     let src = get_machine_ref (seg_in s) w;
     let dst = get_machine_ref (seg_out s) w;
     let dst1 = get_machine_ref (seg_out1 s) w;
     w1 \<leftarrow> stop_machine S src (seg_in s) w;
     w2 \<leftarrow> stop_machine S dst (seg_out s) w1;
     w3 \<leftarrow> stop_machine S dst1 (seg_out1 s) w2;
     Some (s\<lparr>seg_running := False, seg_do_complete := False\<rparr>, w3)
   }"

definition destroy_machine :: "sys \<Rightarrow> io_handle \<Rightarrow> world \<Rightarrow> world option" where
  "destroy_machine S h w =
     (if h = 0 then Some w
      else case get_machine_ref h w of
        None \<Rightarrow> Some w
      | Some m \<Rightarrow> do { (i, iom) \<leftarrow> get_iom (Some m) w; iom_destroy S (m_destroy iom) h w })"

definition segment_destroy :: "sys \<Rightarrow> io_segment \<Rightarrow> world \<Rightarrow> world option" where
  "segment_destroy S s w = do {
     w1 \<leftarrow> destroy_machine S (seg_in s) w;
     w2 \<leftarrow> destroy_machine S (seg_out s) w1;
     destroy_machine S (seg_out1 s) w2
   }"

section \<open>Moving data\<close>

text \<open>\<open>read_from_source\<close>: the bytes read, the segment, the state of the callbacks, the world.\<close>

definition read_from_source ::
    "sys \<Rightarrow> filter_call \<Rightarrow> (seg_callback option \<Rightarrow> 's \<Rightarrow> 's option) \<Rightarrow> io_segment \<Rightarrow> addr \<Rightarrow> size_t \<Rightarrow> 's \<Rightarrow> world
       \<Rightarrow> (size_t \<times> io_segment \<times> 's \<times> world) option" where
  "read_from_source S call cb seg buf bytes s w = do {
     (status, n, w1) \<leftarrow> machine_desc_read S call (seg_in seg) buf bytes w;
     if status = IO_COMPLETE then Some (n, seg\<lparr>seg_do_complete := True\<rparr>, s, w1)
     else if status < IO_SUCCESS then do {
       s1 \<leftarrow> cb (seg_error seg) s;
       (seg1, w2) \<leftarrow> stop_segment S seg w1;
       Some (0, seg1, s1, w2)
     }
     else Some (n, seg, s, w1)
   }"

text \<open>The loop of \<open>write_to_dest\<close>; it ends with the status of the last write and \<open>wr_bytes\<close>, and
  with \<open>IO_SUCCESS\<close> when nothing remains.\<close>

partial_function (option) write_loop ::
    "sys \<Rightarrow> filter_call \<Rightarrow> io_handle \<Rightarrow> addr \<Rightarrow> size_t \<Rightarrow> size_t \<Rightarrow> world \<Rightarrow> (io_status \<times> size_t \<times> world) option" where
  "write_loop S call h ptr remaining wr_bytes w =
     (if remaining = 0 then Some (IO_SUCCESS, wr_bytes, w)
      else do {
        (status, n, w1) \<leftarrow> machine_desc_write S call h ptr remaining w;
        if status = IO_COMPLETE then Some (status, wr_bytes, w1)
        else if status < IO_SUCCESS then Some (status, 0, w1)
        else write_loop S call h (ptr + n) (sz_sub remaining n) (sz_add wr_bytes n) w1
      })"

definition write_to_dest ::
    "sys \<Rightarrow> filter_call \<Rightarrow> (seg_callback option \<Rightarrow> 's \<Rightarrow> 's option) \<Rightarrow> io_segment \<Rightarrow> io_handle \<Rightarrow> addr \<Rightarrow> size_t \<Rightarrow> 's \<Rightarrow> world
       \<Rightarrow> (size_t \<times> io_segment \<times> 's \<times> world) option" where
  "write_to_dest S call cb seg h buf bytes s w = do {
     (status, n, w1) \<leftarrow> write_loop S call h buf bytes 0 w;
     if status = IO_COMPLETE then Some (n, seg\<lparr>seg_do_complete := True\<rparr>, s, w1)
     else if status < IO_SUCCESS then do {
       s1 \<leftarrow> cb (seg_error seg) s;
       (seg1, w2) \<leftarrow> stop_segment S seg w1;
       Some (n, seg1, s1, w2)
     }
     else Some (n, seg, s, w1)
   }"

text \<open>One round of the loop of \<open>segment_run\<close> from the read on, uninterrupted.\<close>

definition segment_round ::
    "sys \<Rightarrow> filter_call \<Rightarrow> (seg_callback option \<Rightarrow> 's \<Rightarrow> 's option) \<Rightarrow> io_segment \<Rightarrow> 's \<Rightarrow> world
       \<Rightarrow> (io_segment \<times> 's \<times> world) option" where
  "segment_round S call cb seg s w = do {
     (bytes, seg1, s1, w1) \<leftarrow> read_from_source S call cb seg (seg_buf seg) (seg_buflen seg) s w;
     if bytes = 0 then Some (seg1, s1, w1)
     else do {
       (n, seg2, s2, w2) \<leftarrow> write_to_dest S call cb seg1 (seg_out seg) (seg_buf seg) bytes s1 w1;
       if n = 0 then Some (seg2, s2, w2)
       else if seg_out1 seg > 0 then do {
         (_, seg3, s3, w3) \<leftarrow> write_to_dest S call cb seg2 (seg_out1 seg) (seg_buf seg) bytes s2 w2;
         Some (seg3, s3, w3)
       } else Some (seg2, s2, w2)
     }
   }"

section \<open>Creating and setting up\<close>

definition sizeof_segment :: size_t where "sizeof_segment = 1224"

text \<open>\<open>segment_create\<close> stores through the result of \<open>pcalloc\<close> without testing it. The counter is
  an \<open>int\<close>, which must not overflow.\<close>

definition segment_create ::
    "sys \<Rightarrow> pool \<Rightarrow> io_handle \<Rightarrow> io_handle \<Rightarrow> io_handle \<Rightarrow> nat \<Rightarrow> world \<Rightarrow> (io_segment \<times> nat \<times> world) option" where
  "segment_create S p hin hout hout1 counter w = do {
     a \<leftarrow> pcalloc (s_mem S) (w_heap w) p sizeof_segment;
     if counter + 1 \<ge> 2 ^ 31 then None
     else Some (\<lparr>seg_error = None, seg_complete = None, seg_thread = SEG_IDLE, seg_fn = SEGMENT_RUN,
       seg_running = False, seg_do_complete = False, seg_id = int counter, seg_group = None, seg_gsep = '''',
       seg_name = snprintf (SEGMENT_NAME_LEN - 1) (''seg'' @ dec counter), seg_pool = p,
       seg_default_buf_len = SEGMENT_DEFAULT_BUFLEN, seg_in = hin, seg_out = hout, seg_out1 = hout1,
       seg_run_pool = 0, seg_buf = 0, seg_buflen = 0\<rparr>, counter + 1, add_live a sizeof_segment w)
   }"

definition segment_create_1_1 ::
    "sys \<Rightarrow> pool \<Rightarrow> io_handle \<Rightarrow> io_handle \<Rightarrow> nat \<Rightarrow> world \<Rightarrow> (io_segment \<times> nat \<times> world) option" where
  "segment_create_1_1 S p hin hout counter w = segment_create S p hin hout 0 counter w"

definition segment_create_1_2 ::
    "sys \<Rightarrow> pool \<Rightarrow> io_handle \<Rightarrow> io_handle \<Rightarrow> io_handle \<Rightarrow> nat \<Rightarrow> world \<Rightarrow> (io_segment \<times> nat \<times> world) option" where
  "segment_create_1_2 S p hin hout0 hout1 counter w = segment_create S p hin hout0 hout1 counter w"

definition segment_create_src ::
    "sys \<Rightarrow> pool \<Rightarrow> io_handle \<Rightarrow> nat \<Rightarrow> world \<Rightarrow> (io_segment \<times> io_handle \<times> nat \<times> world) option" where
  "segment_create_src S p src counter w = do {
     (src_buf, w1) \<leftarrow> new_rb_machine S w;
     (seg, c, w2) \<leftarrow> segment_create S p src src_buf 0 counter w1;
     Some (seg\<lparr>seg_fn := SEGMENT_RUN_SOURCE\<rparr>, src_buf, c, w2)
   }"

definition segment_register_callback_complete :: "seg_callback \<Rightarrow> io_segment \<Rightarrow> io_segment" where
  "segment_register_callback_complete fn s = s\<lparr>seg_complete := Some fn\<rparr>"

definition segment_register_callback_error :: "seg_callback \<Rightarrow> io_segment \<Rightarrow> io_segment" where
  "segment_register_callback_error fn s = s\<lparr>seg_error := Some fn\<rparr>"

definition segment_start :: "io_segment \<Rightarrow> io_segment" where
  "segment_start s = s\<lparr>seg_thread := SEG_BEGIN\<rparr>"

definition segment_is_running :: "io_segment \<Rightarrow> bool" where
  "segment_is_running s = seg_running s"

definition segment_set_group :: "io_stream \<Rightarrow> io_segment \<Rightarrow> io_segment" where
  "segment_set_group st s = s\<lparr>seg_group := Some st, seg_gsep := ''-''\<rparr>"

definition segment_set_name :: "string \<Rightarrow> io_segment \<Rightarrow> io_segment" where
  "segment_set_name name s = s\<lparr>seg_name := snprintf (SEGMENT_NAME_LEN - 1) name\<rparr>"

definition segment_set_default_buflen :: "size_t \<Rightarrow> io_segment \<Rightarrow> io_segment" where
  "segment_set_default_buflen len s = s\<lparr>seg_default_buf_len := len\<rparr>"

definition segment_enable_metrics :: "sys \<Rightarrow> io_segment \<Rightarrow> world \<Rightarrow> world option" where
  "segment_enable_metrics S s w = do {
     w1 \<leftarrow> machine_metrics_enable S (seg_in s) w;
     w2 \<leftarrow> machine_metrics_enable S (seg_out s) w1;
     machine_metrics_enable S (seg_out1 s) w2
   }"

end
