(* ===== verification/Streams.thy ===== *)
theory Streams
  imports Segment
begin

text \<open>
  Model of \<open>src/stream.c\<close> and of the thread functions of \<open>src/segment.c\<close>. A stream has a thread
  of its own (\<open>main_state_machine\<close>) and one per segment; they share the stream's state, which is
  read and written without the lock except in the callbacks. Every thread is a program counter
  and a step function; a step reads or writes the shared state once, or makes one call of a
  machine. The step relation interleaves the threads, a caller of \<open>stop_stream\<close>, and changes
  that other streams make to the machines.
\<close>

section \<open>Streams\<close>

datatype main_pc =
    MAIN_IDLE | MAIN_BEGIN | MAIN_START nat | MAIN_RUN | MAIN_WAIT | MAIN_TEST | MAIN_FINISH nat
  | MAIN_JOIN nat | MAIN_END | MAIN_EXIT

text \<open>A caller of \<open>stop_stream_internal\<close>: not there, in the loop, about to store, or back.\<close>

datatype stop_pc = STOP_IDLE | STOP_LOOP | STOP_SET | STOP_RETURNED

record stream =
  st_thread :: main_pc
  st_lock :: bool
  st_state :: stream_state_e
  st_id :: io_stream
  st_name :: string
  st_pool :: pool
  st_segments :: "io_segment list"
  st_segments_ptr :: addr
  st_segment_len :: nat
  st_status :: stream_status_e
  st_stop :: stop_pc

text \<open>\<open>set_state\<close>: every value of the enum is a valid state.\<close>

definition set_state :: "stream_state_e \<Rightarrow> stream \<Rightarrow> stream" where
  "set_state new_state st =
     (if new_state > STREAM_STATE_ERROR
      then st\<lparr>st_status := STREAM_ERROR_INVALID_STATE, st_state := STREAM_STATE_ERROR\<rparr>
      else st\<lparr>st_state := new_state\<rparr>)"

text \<open>The callbacks, from the state they read on.\<close>

definition callback_complete_body :: "stream_state_e \<Rightarrow> stream \<Rightarrow> stream" where
  "callback_complete_body state st = (case state of
      STREAM_INIT \<Rightarrow> set_state STREAM_DONE st
    | STREAM_READY \<Rightarrow> set_state STREAM_DONE st
    | STREAM_RUNNING \<Rightarrow> set_state STREAM_FINISHING st
    | _ \<Rightarrow> st)"

text \<open>The error callback stores the state and then the status. The two stores are one step: the status is read by \<open>join_stream\<close> only,
  after the thread of the stream has joined all segments, and no other thread stores a status that says success.\<close>

definition callback_error_body :: "stream_state_e \<Rightarrow> stream \<Rightarrow> stream" where
  "callback_error_body state st =
     (let st1 = (case state of
          STREAM_STATE_ERROR \<Rightarrow> st
        | STREAM_FINISHING \<Rightarrow> st
        | STREAM_DONE \<Rightarrow> st
        | _ \<Rightarrow> set_state STREAM_STATE_ERROR st)
      in st1\<lparr>st_status := STREAM_ERROR\<rparr>)"

definition callback_body :: "seg_callback \<Rightarrow> stream_state_e \<Rightarrow> stream \<Rightarrow> stream" where
  "callback_body cb state st = (case cb of
      CALLBACK_COMPLETE _ \<Rightarrow> callback_complete_body state st
    | CALLBACK_ERROR _ \<Rightarrow> callback_error_body state st)"

fun callback_arg :: "seg_callback \<Rightarrow> io_stream" where
  "callback_arg (CALLBACK_COMPLETE s) = s"
| "callback_arg (CALLBACK_ERROR s) = s"

text \<open>A callback as one call: a NULL callback, a foreign stream or a held lock gives no result.\<close>

definition run_callback :: "seg_callback option \<Rightarrow> stream \<Rightarrow> stream option" where
  "run_callback cb st = (case cb of
      None \<Rightarrow> None
    | Some c \<Rightarrow> if callback_arg c \<noteq> st_id st \<or> st_lock st then None
                else Some (callback_body c (st_state st) st))"

section \<open>The main thread\<close>

text \<open>One step of \<open>main_state_machine\<close>; \<open>None\<close> where the thread has ended, does not exist or waits
  in \<open>pthread_join\<close>.\<close>

definition main_step :: "stream \<Rightarrow> stream option" where
  "main_step st = (case st_thread st of
      MAIN_IDLE \<Rightarrow> None
    | MAIN_BEGIN \<Rightarrow> Some ((set_state STREAM_READY st)\<lparr>st_thread := MAIN_START 0\<rparr>)
    | MAIN_START s \<Rightarrow>
        if s < length (st_segments st)
        then Some (st\<lparr>st_segments := (st_segments st)[s := segment_start (st_segments st ! s)],
                      st_thread := MAIN_START (s + 1)\<rparr>)
        else Some (st\<lparr>st_thread := MAIN_RUN\<rparr>)
    | MAIN_RUN \<Rightarrow> Some ((set_state STREAM_RUNNING st)\<lparr>st_thread := MAIN_WAIT\<rparr>)
    | MAIN_WAIT \<Rightarrow> Some (if st_state st = STREAM_RUNNING then st else st\<lparr>st_thread := MAIN_TEST\<rparr>)
    | MAIN_TEST \<Rightarrow> Some (st\<lparr>st_thread := if st_state st = STREAM_FINISHING then MAIN_FINISH 0 else MAIN_JOIN 0\<rparr>)
    | MAIN_FINISH s \<Rightarrow>
        if s < length (st_segments st)
        then Some (if segment_is_running (st_segments st ! s) then st else st\<lparr>st_thread := MAIN_FINISH (s + 1)\<rparr>)
        else Some (st\<lparr>st_thread := MAIN_JOIN 0\<rparr>)
    | MAIN_JOIN s \<Rightarrow>
        if s < length (st_segments st)
        then if seg_thread (st_segments st ! s) = SEG_EXIT then Some (st\<lparr>st_thread := MAIN_JOIN (s + 1)\<rparr>) else None
        else Some (st\<lparr>st_thread := MAIN_END\<rparr>)
    | MAIN_END \<Rightarrow> Some ((set_state STREAM_STOPPED st)\<lparr>st_thread := MAIN_EXIT\<rparr>)
    | MAIN_EXIT \<Rightarrow> None)"

section \<open>Segment threads\<close>

text \<open>The length of the buffer: the larger of the packet sizes.\<close>

definition source_buflen :: "io_segment \<Rightarrow> world \<Rightarrow> size_t option" where
  "source_buflen seg w = do {
     src \<leftarrow> machine_get_desc (seg_in seg) w;
     rb \<leftarrow> machine_get_desc (seg_out seg) w;
     r \<leftarrow> md_io_read src;
     wr \<leftarrow> md_io_write rb;
     Some (if io_size r > io_size wr then io_size r else io_size wr)
   }"

definition segment_buflen :: "io_segment \<Rightarrow> world \<Rightarrow> size_t option" where
  "segment_buflen seg w = do {
     n \<leftarrow> source_buflen seg w;
     n1 \<leftarrow> (case machine_get_desc (seg_out1 seg) w of
              None \<Rightarrow> Some n
            | Some dst1 \<Rightarrow> do { wr \<leftarrow> md_io_write dst1; Some (if io_size wr > n then io_size wr else n) });
     Some (if n1 = 0 then seg_default_buf_len seg else n1)
   }"

text \<open>The part of the two thread functions before the loop. \<open>segment_run\<close> signals an error when it
  has no buffer, and goes on.\<close>

definition segment_begin :: "sys \<Rightarrow> io_segment \<Rightarrow> world \<Rightarrow> (io_segment \<times> world) option" where
  "segment_begin S seg w = (case seg_fn seg of
      SEGMENT_RUN_SOURCE \<Rightarrow> do {
        n \<leftarrow> source_buflen seg w;
        Some (seg\<lparr>seg_buflen := n, seg_running := True, seg_thread := SEG_TOP\<rparr>, w)
      }
    | SEGMENT_RUN \<Rightarrow> do {
        n \<leftarrow> segment_buflen seg w;
        let p = create_pool S (w_heap w);
        (case palloc (s_mem S) (w_heap w) p n of
           Some a \<Rightarrow> Some (seg\<lparr>seg_buflen := n, seg_run_pool := p, seg_buf := a, seg_running := True,
                              seg_thread := SEG_TOP\<rparr>, add_live a n w)
         | None \<Rightarrow> Some (seg\<lparr>seg_buflen := n, seg_run_pool := p, seg_buf := 0,
                            seg_thread := SEG_CALLBACK SEGMENT_ERROR False SEG_TOP\<rparr>, w))
      })"

text \<open>The top of the loop, with the state that was read. (\<open>segment_run\<close> sets \<open>running\<close> after the error
  callback, which \<open>SEG_TOP\<close> stands for as well; see \<open>after_callback\<close>.)\<close>

definition segment_top :: "sys \<Rightarrow> stream_state_e \<Rightarrow> io_segment \<Rightarrow> world \<Rightarrow> io_segment \<times> world" where
  "segment_top S state seg w =
     (if \<not> seg_running seg
      then (seg\<lparr>seg_thread := SEG_EXIT\<rparr>,
            if seg_fn seg = SEGMENT_RUN then discard_pool S (seg_run_pool seg) w else w)
      else if state = STREAM_READY then (seg, w)
      else if seg_do_complete seg then (seg\<lparr>seg_thread := SEG_CALLBACK SEGMENT_COMPLETE True SEG_TOP\<rparr>, w)
      else if \<not> STREAM_IS_RUNNING state then (seg\<lparr>seg_running := False\<rparr>, w)
      else (seg\<lparr>seg_thread := SEG_READ\<rparr>, w))"

text \<open>The read of \<open>segment_run\<close>.\<close>

definition segment_read :: "sys \<Rightarrow> filter_call \<Rightarrow> io_segment \<Rightarrow> world \<Rightarrow> (io_segment \<times> world) option" where
  "segment_read S call seg w = do {
     (status, n, w1) \<leftarrow> machine_desc_read S call (seg_in seg) (seg_buf seg) (seg_buflen seg) w;
     if status < IO_SUCCESS then Some (seg\<lparr>seg_thread := SEG_CALLBACK SEGMENT_ERROR True SEG_TOP\<rparr>, w1)
     else let seg1 = (if status = IO_COMPLETE then seg\<lparr>seg_do_complete := True\<rparr> else seg) in
       if n = 0 then Some (seg1\<lparr>seg_thread := SEG_TOP\<rparr>, w1)
       else Some (seg1\<lparr>seg_thread := SEG_WRITE False n n (seg_buf seg) 0\<rparr>, w1)
   }"

text \<open>Acquire and read of \<open>segment_run_source\<close>, which read straight into the ring. The block stays
  acquired until the release.\<close>

definition source_read :: "sys \<Rightarrow> filter_call \<Rightarrow> io_segment \<Rightarrow> world \<Rightarrow> (io_segment \<times> world) option" where
  "source_read S call seg w = do {
     (st, b, w1) \<leftarrow> rbm_acquire_write_block S (seg_out seg) (seg_buflen seg) w;
     if st < IO_SUCCESS then Some (seg\<lparr>seg_thread := SEG_CALLBACK SEGMENT_ERROR True SEG_TOP\<rparr>, w1)
     else if b = 0 then Some (seg\<lparr>seg_thread := SEG_TOP\<rparr>, w1)
     else do {
       blk \<leftarrow> get_blk b (w_heap w1);
       (status, n, w2) \<leftarrow> machine_desc_read S call (seg_in seg) (b_data blk) (b_size blk) w1;
       if status < IO_SUCCESS then Some (seg\<lparr>seg_thread := SEG_CALLBACK SEGMENT_ERROR True (SEG_RELEASE 0)\<rparr>, w2)
       else Some (seg\<lparr>seg_do_complete := (seg_do_complete seg \<or> status = IO_COMPLETE),
                      seg_thread := SEG_RELEASE n\<rparr>, w2)
     }
   }"

text \<open>What follows a call of \<open>write_to_dest\<close> that wrote \<open>wr\<close> of \<open>src\<close> bytes.\<close>

definition after_write :: "bool \<Rightarrow> size_t \<Rightarrow> size_t \<Rightarrow> io_segment \<Rightarrow> seg_pc" where
  "after_write second src wr seg =
     (if \<not> second \<and> wr \<noteq> 0 \<and> seg_out1 seg > 0 then SEG_WRITE True src src (seg_buf seg) 0 else SEG_TOP)"

text \<open>One round of \<open>write_to_dest\<close>.\<close>

definition segment_write ::
    "sys \<Rightarrow> filter_call \<Rightarrow> bool \<Rightarrow> size_t \<Rightarrow> size_t \<Rightarrow> addr \<Rightarrow> size_t \<Rightarrow> io_segment \<Rightarrow> world \<Rightarrow> (io_segment \<times> world) option" where
  "segment_write S call second src remaining ptr wr seg w =
     (if remaining = 0 then Some (seg\<lparr>seg_thread := after_write second src wr seg\<rparr>, w)
      else do {
        (status, n, w1) \<leftarrow> machine_desc_write S call (if second then seg_out1 seg else seg_out seg) ptr remaining w;
        if status = IO_COMPLETE
        then Some (seg\<lparr>seg_do_complete := True, seg_thread := after_write second src wr seg\<rparr>, w1)
        else if status < IO_SUCCESS
        then Some (seg\<lparr>seg_thread := SEG_CALLBACK SEGMENT_ERROR True SEG_TOP\<rparr>, w1)
        else Some (seg\<lparr>seg_thread := SEG_WRITE second src (sz_sub remaining n) (ptr + n) (sz_add wr n)\<rparr>, w1)
      })"

text \<open>The callback that an event calls.\<close>

definition event_callback :: "seg_event \<Rightarrow> io_segment \<Rightarrow> seg_callback option" where
  "event_callback ev seg = (case ev of SEGMENT_COMPLETE \<Rightarrow> seg_complete seg | SEGMENT_ERROR \<Rightarrow> seg_error seg)"

text \<open>After a callback the machines are stopped, or, in the error before the loop of \<open>segment_run\<close>,
  the loop begins with \<open>running\<close> set.\<close>

definition after_callback :: "bool \<Rightarrow> seg_pc \<Rightarrow> io_segment \<Rightarrow> io_segment" where
  "after_callback stop pc seg =
     (if stop then seg\<lparr>seg_thread := SEG_STOP pc\<rparr> else seg\<lparr>seg_thread := pc, seg_running := True\<rparr>)"

text \<open>A step of a segment's thread.\<close>

definition segment_step ::
    "sys \<Rightarrow> filter_call \<Rightarrow> io_segment \<Rightarrow> stream \<Rightarrow> world \<Rightarrow> (io_segment \<times> stream \<times> world) option" where
  "segment_step S call seg st w = (case seg_thread seg of
      SEG_IDLE \<Rightarrow> None
    | SEG_BEGIN \<Rightarrow> map_option (\<lambda>(g, w'). (g, st, w')) (segment_begin S seg w)
    | SEG_TOP \<Rightarrow> (case segment_top S (st_state st) seg w of (g, w') \<Rightarrow> Some (g, st, w'))
    | SEG_READ \<Rightarrow> map_option (\<lambda>(g, w'). (g, st, w'))
        (if seg_fn seg = SEGMENT_RUN then segment_read S call seg w else source_read S call seg w)
    | SEG_WRITE second src remaining ptr wr \<Rightarrow>
        map_option (\<lambda>(g, w'). (g, st, w')) (segment_write S call second src remaining ptr wr seg w)
    | SEG_RELEASE n \<Rightarrow> map_option (\<lambda>w'. (seg\<lparr>seg_thread := SEG_TOP\<rparr>, st, w')) (rbm_release_write_block S (seg_out seg) n w)
    | SEG_CALLBACK ev stop pc \<Rightarrow> (case event_callback ev seg of
          None \<Rightarrow> None
        | Some cb \<Rightarrow> if callback_arg cb \<noteq> st_id st \<or> st_lock st then None
            else Some (seg\<lparr>seg_thread := SEG_STORE cb (st_state st) stop pc\<rparr>, st\<lparr>st_lock := True\<rparr>, w))
    | SEG_STORE cb state stop pc \<Rightarrow>
        Some (after_callback stop pc seg, (callback_body cb state st)\<lparr>st_lock := False\<rparr>, w)
    | SEG_STOP pc \<Rightarrow> map_option (\<lambda>(g, w'). (g\<lparr>seg_thread := pc\<rparr>, st, w')) (stop_segment S seg w)
    | SEG_EXIT \<Rightarrow> None)"

section \<open>Stopping\<close>

text \<open>One step of a caller of \<open>stop_stream_internal\<close>; a call may begin whenever none is under way.\<close>

definition stop_step :: "stream \<Rightarrow> stream option" where
  "stop_step st = (case st_stop st of
      STOP_IDLE \<Rightarrow> Some (st\<lparr>st_stop := STOP_LOOP\<rparr>)
    | STOP_RETURNED \<Rightarrow> Some (st\<lparr>st_stop := STOP_LOOP\<rparr>)
    | STOP_SET \<Rightarrow> Some ((set_state STREAM_DONE st)\<lparr>st_stop := STOP_RETURNED\<rparr>)
    | STOP_LOOP \<Rightarrow> (case st_state st of
          STREAM_INIT \<Rightarrow> Some st
        | STREAM_READY \<Rightarrow> Some st
        | STREAM_RUNNING \<Rightarrow> Some (st\<lparr>st_stop := STOP_SET\<rparr>)
        | STREAM_FINISHING \<Rightarrow> Some (st\<lparr>st_stop := STOP_SET\<rparr>)
        | STREAM_STATE_ERROR \<Rightarrow> Some (st\<lparr>st_status := STREAM_ERROR_STOP_FAILURE, st_stop := STOP_RETURNED\<rparr>)
        | _ \<Rightarrow> Some (st\<lparr>st_stop := STOP_RETURNED\<rparr>)))"

section \<open>All threads together\<close>

definition put_segment :: "nat \<Rightarrow> io_segment \<Rightarrow> stream \<Rightarrow> stream" where
  "put_segment i g st = st\<lparr>st_segments := (st_segments st)[i := g]\<rparr>"

text \<open>\<open>depth\<close> bounds the nesting of filter calls.\<close>

inductive stream_step :: "sys \<Rightarrow> nat \<Rightarrow> stream \<times> world \<Rightarrow> stream \<times> world \<Rightarrow> bool" for S depth where
  by_main: "main_step st = Some st' \<Longrightarrow> stream_step S depth (st, w) (st', w)"
| by_segment: "i < length (st_segments st) \<Longrightarrow>
    segment_step S (call_filter S depth) (st_segments st ! i) st w = Some (g, st', w') \<Longrightarrow>
    stream_step S depth (st, w) (put_segment i g st', w')"
| by_stop: "stop_step st = Some st' \<Longrightarrow> stream_step S depth (st, w) (st', w)"
| by_others: "stream_step S depth (st, w) (st, w')"

inductive_cases stream_stepE: "stream_step S depth (st, w) (st', w')"

inductive stream_steps :: "sys \<Rightarrow> nat \<Rightarrow> stream \<times> world \<Rightarrow> stream \<times> world \<Rightarrow> bool" for S depth where
  steps_none: "stream_steps S depth c c"
| steps_more: "stream_steps S depth c c' \<Longrightarrow> stream_step S depth c' c'' \<Longrightarrow> stream_steps S depth c c''"

section \<open>The list of streams\<close>

text \<open>The state of the library with its streams: the machines, the list \<open>streams\<close> in its order, the
  counters of \<open>stream.c\<close> and \<open>segment.c\<close>, and whether segments print metrics.\<close>

record app =
  a_world :: world
  a_streams :: "stream list"
  a_stream_counter :: nat
  a_segment_counter :: nat
  a_metrics_enabled :: bool

definition STREAM_NAME_LEN :: nat where "STREAM_NAME_LEN = 1024"
definition sizeof_stream :: size_t where "sizeof_stream = 112"
definition sizeof_int :: size_t where "sizeof_int = 4"
definition sizeof_pointer :: size_t where "sizeof_pointer = 8"

definition get_stream :: "io_stream \<Rightarrow> app \<Rightarrow> stream option" where
  "get_stream h a = find (\<lambda>st. st_id st = h) (a_streams a)"

fun upd_stream :: "io_stream \<Rightarrow> (stream \<Rightarrow> stream) \<Rightarrow> stream list \<Rightarrow> stream list" where
  "upd_stream h g [] = []"
| "upd_stream h g (st # sts) = (if st_id st = h then g st # sts else st # upd_stream h g sts)"

text \<open>\<open>new_stream\<close> stores through the results of \<open>pcalloc\<close> without testing them.\<close>

definition new_stream :: "sys \<Rightarrow> app \<Rightarrow> (io_stream \<times> app) option" where
  "new_stream S a = do {
     let w = a_world a;
     let p = create_pool S (w_heap w);
     b \<leftarrow> pcalloc (s_mem S) (w_heap w) p sizeof_stream;
     let w1 = add_live b sizeof_stream w;
     n \<leftarrow> pcalloc (s_mem S) (w_heap w1) p STREAM_NAME_LEN;
     let w2 = add_live n STREAM_NAME_LEN w1;
     let c = a_stream_counter a + 1;
     if c \<ge> 2 ^ 31 then None
     else do {
       let st = \<lparr>st_thread = MAIN_IDLE, st_lock = False, st_state = STREAM_INIT, st_id = int c,
                 st_name = snprintf (STREAM_NAME_LEN - 1) (''stream'' @ dec c), st_pool = p,
                 st_segments = [], st_segments_ptr = 0, st_segment_len = 0, st_status = STREAM_SUCCESS, st_stop = STOP_IDLE\<rparr>;
       Some (int c, a\<lparr>a_world := w2, a_streams := a_streams a @ [st], a_stream_counter := c\<rparr>)
     }
   }"

text \<open>\<open>add_segment\<close>: the array of segment pointers grows by ten entries at a time, but is allocated
  with the size of ten integers. A store behind the end of the array has no result.\<close>

definition add_segment :: "sys \<Rightarrow> io_segment \<Rightarrow> stream \<Rightarrow> world \<Rightarrow> (stream \<times> world) option" where
  "add_segment S seg st w = do {
     let i = length (st_segments st);
     (len, ptr, w1) \<leftarrow> (if i \<ge> st_segment_len st then do {
          let n = st_segment_len st + 10;
          (b, hp) \<leftarrow> repalloc S (w_heap w) (st_segments_ptr st) (sizeof_int * n) (st_pool st);
          Some (n, b, w\<lparr>w_heap := hp\<rparr>)
        } else Some (st_segment_len st, st_segments_ptr st, w));
     if sizeof_pointer * (i + 1) > sizeof_int * len then None
     else Some (st\<lparr>st_segments := st_segments st @ [segment_set_group (st_id st) seg],
                   st_segments_ptr := ptr, st_segment_len := len\<rparr>, w1)
   }"

definition register_callbacks :: "stream \<Rightarrow> io_segment \<Rightarrow> io_segment" where
  "register_callbacks st seg =
     segment_register_callback_error (CALLBACK_ERROR (st_id st))
       (segment_register_callback_complete (CALLBACK_COMPLETE (st_id st)) seg)"

definition create_segment_1_1 ::
    "sys \<Rightarrow> io_handle \<Rightarrow> io_handle \<Rightarrow> stream \<Rightarrow> nat \<Rightarrow> world \<Rightarrow> (stream \<times> nat \<times> world) option" where
  "create_segment_1_1 S hin hout st c w = do {
     (seg, c1, w1) \<leftarrow> segment_create_1_1 S (st_pool st) hin hout c w;
     (st1, w2) \<leftarrow> add_segment S (register_callbacks st seg) st w1;
     Some (st1, c1, w2)
   }"

definition create_segment_1_2 ::
    "sys \<Rightarrow> io_handle \<Rightarrow> io_handle \<Rightarrow> io_handle \<Rightarrow> stream \<Rightarrow> nat \<Rightarrow> world \<Rightarrow> (stream \<times> nat \<times> world) option" where
  "create_segment_1_2 S hin hout hout1 st c w = do {
     (seg, c1, w1) \<leftarrow> segment_create_1_2 S (st_pool st) hin hout hout1 c w;
     (st1, w2) \<leftarrow> add_segment S (register_callbacks st seg) st w1;
     Some (st1, c1, w2)
   }"

definition put_stream :: "io_stream \<Rightarrow> stream \<Rightarrow> nat \<Rightarrow> world \<Rightarrow> app \<Rightarrow> app" where
  "put_stream h st c w a =
     a\<lparr>a_world := w, a_streams := upd_stream h (\<lambda>_. st) (a_streams a), a_segment_counter := c\<rparr>"

text \<open>The functions below return 1 for a stream that does not exist and 0 otherwise.\<close>

definition io_stream_add_segment :: "sys \<Rightarrow> io_stream \<Rightarrow> io_handle \<Rightarrow> io_handle \<Rightarrow> app \<Rightarrow> (int \<times> app) option" where
  "io_stream_add_segment S h hin hout a = (case get_stream h a of
      None \<Rightarrow> Some (1, a)
    | Some st \<Rightarrow> do {
        (st1, c, w) \<leftarrow> create_segment_1_1 S hin hout st (a_segment_counter a) (a_world a);
        Some (0, put_stream h st1 c w a)
      })"

definition io_stream_add_tee_segment ::
    "sys \<Rightarrow> io_stream \<Rightarrow> io_handle \<Rightarrow> io_handle \<Rightarrow> io_handle \<Rightarrow> app \<Rightarrow> (int \<times> app) option" where
  "io_stream_add_tee_segment S h hin hout hout1 a = (case get_stream h a of
      None \<Rightarrow> Some (1, a)
    | Some st \<Rightarrow> do {
        (st1, c, w) \<leftarrow> create_segment_1_2 S hin hout hout1 st (a_segment_counter a) (a_world a);
        Some (0, put_stream h st1 c w a)
      })"

definition io_stream_add_src_segment :: "sys \<Rightarrow> io_stream \<Rightarrow> io_handle \<Rightarrow> io_handle \<Rightarrow> app \<Rightarrow> (int \<times> app) option" where
  "io_stream_add_src_segment S h hin hout a = (case get_stream h a of
      None \<Rightarrow> Some (1, a)
    | Some st \<Rightarrow> do {
        (seg, src_buf, c, w) \<leftarrow> segment_create_src S (st_pool st) hin (a_segment_counter a) (a_world a);
        (st1, w1) \<leftarrow> add_segment S (register_callbacks st seg) st w;
        (st2, c2, w2) \<leftarrow> create_segment_1_1 S src_buf hout st1 c w1;
        Some (0, put_stream h st2 c2 w2 a)
      })"

definition start_stream :: "io_stream \<Rightarrow> app \<Rightarrow> io_status \<times> app" where
  "start_stream h a = (case get_stream h a of
      None \<Rightarrow> (IO_ERROR, a)
    | Some st \<Rightarrow> (IO_SUCCESS, a\<lparr>a_streams := upd_stream h (st_thread_update (\<lambda>_. MAIN_BEGIN)) (a_streams a)\<rparr>))"

text \<open>\<open>join_stream\<close> returns once the stream's thread has ended.\<close>

definition join_stream :: "io_stream \<Rightarrow> app \<Rightarrow> stream_status_e option" where
  "join_stream h a = (case get_stream h a of
      None \<Rightarrow> Some STREAM_ERROR_NOT_FOUND
    | Some st \<Rightarrow> if st_thread st = MAIN_EXIT then Some (st_status st) else None)"

fun destroy_segments :: "sys \<Rightarrow> io_segment list \<Rightarrow> world \<Rightarrow> world option" where
  "destroy_segments S [] w = Some w"
| "destroy_segments S (g # gs) w = do { w1 \<leftarrow> segment_destroy S g w; destroy_segments S gs w1 }"

fun stream_cleanup_loop :: "sys \<Rightarrow> stream list \<Rightarrow> world \<Rightarrow> world option" where
  "stream_cleanup_loop S [] w = Some w"
| "stream_cleanup_loop S (st # sts) w =
     (if st_thread st \<noteq> MAIN_EXIT then None
      else do {
        w1 \<leftarrow> destroy_segments S (st_segments st) w;
        stream_cleanup_loop S sts (discard_pool S (st_pool st) w1)
      })"

text \<open>\<open>stream_cleanup\<close> after \<open>stop_streams\<close>, when the streams' threads have ended.\<close>

definition stream_cleanup :: "sys \<Rightarrow> app \<Rightarrow> app option" where
  "stream_cleanup S a = do {
     w \<leftarrow> stream_cleanup_loop S (a_streams a) (a_world a);
     Some (a\<lparr>a_world := w, a_streams := []\<rparr>)
   }"

definition stream_set_name :: "io_stream \<Rightarrow> string \<Rightarrow> app \<Rightarrow> app" where
  "stream_set_name h name a = (case get_stream h a of
      None \<Rightarrow> a
    | Some st \<Rightarrow> a\<lparr>a_streams := upd_stream h (st_name_update (\<lambda>_. snprintf (STREAM_NAME_LEN - 1) name)) (a_streams a)\<rparr>)"

definition stream_set_default_buflen :: "io_stream \<Rightarrow> size_t \<Rightarrow> app \<Rightarrow> app" where
  "stream_set_default_buflen h len a = (case get_stream h a of
      None \<Rightarrow> a
    | Some st \<Rightarrow> a\<lparr>a_streams := upd_stream h (st_segments_update (map (segment_set_default_buflen len))) (a_streams a)\<rparr>)"

fun enable_all :: "sys \<Rightarrow> io_segment list \<Rightarrow> world \<Rightarrow> world option" where
  "enable_all S [] w = Some w"
| "enable_all S (g # gs) w = do { w1 \<leftarrow> segment_enable_metrics S g w; enable_all S gs w1 }"

definition stream_enable_metrics :: "sys \<Rightarrow> io_stream \<Rightarrow> app \<Rightarrow> app option" where
  "stream_enable_metrics S h a = (case get_stream h a of
      None \<Rightarrow> Some a
    | Some st \<Rightarrow> do {
        w \<leftarrow> enable_all S (st_segments st) (a_world a);
        Some (a\<lparr>a_world := w, a_metrics_enabled := (a_metrics_enabled a \<or> st_segments st \<noteq> [])\<rparr>)
      })"

end
