(* ===== verification/Stream_Invariant.thy ===== *)
theory Stream_Invariant
  imports Streams
begin

text \<open>
  The invariant of a stream's threads and its preservation by every step: which states the
  stream can have at each point of the main thread, that callbacks exclude each other, and what
  the segments' threads can be doing before the stream runs.
\<close>

section \<open>The invariant\<close>

text \<open>The stream has been set running.\<close>

fun late_pc :: "main_pc \<Rightarrow> bool" where
  "late_pc MAIN_IDLE = False"
| "late_pc MAIN_BEGIN = False"
| "late_pc (MAIN_START s) = False"
| "late_pc MAIN_RUN = False"
| "late_pc _ = True"

abbreviation late :: "stream \<Rightarrow> bool" where
  "late st \<equiv> late_pc (st_thread st)"

fun states_at :: "main_pc \<Rightarrow> stream_state_e set" where
  "states_at MAIN_IDLE = {STREAM_INIT}"
| "states_at MAIN_BEGIN = {STREAM_INIT}"
| "states_at (MAIN_START s) = {STREAM_READY, STREAM_STATE_ERROR}"
| "states_at MAIN_RUN = {STREAM_READY, STREAM_STATE_ERROR}"
| "states_at MAIN_WAIT = {STREAM_RUNNING, STREAM_FINISHING, STREAM_DONE, STREAM_STATE_ERROR}"
| "states_at MAIN_EXIT = {STREAM_STOPPED, STREAM_DONE}"
| "states_at _ = {STREAM_FINISHING, STREAM_DONE, STREAM_STATE_ERROR}"

text \<open>Points at which a callback or a stop may continue.\<close>

fun plain_pc :: "seg_pc \<Rightarrow> bool" where
  "plain_pc SEG_TOP = True"
| "plain_pc (SEG_RELEASE n) = True"
| "plain_pc _ = False"

fun wf_pc :: "seg_pc \<Rightarrow> bool" where
  "wf_pc (SEG_CALLBACK ev stop pc) = plain_pc pc"
| "wf_pc (SEG_STORE cb x stop pc) = plain_pc pc"
| "wf_pc (SEG_STOP pc) = plain_pc pc"
| "wf_pc _ = True"

text \<open>Where a segment can be before the stream runs.\<close>

fun early_pc :: "seg_pc \<Rightarrow> bool" where
  "early_pc SEG_IDLE = True"
| "early_pc SEG_BEGIN = True"
| "early_pc SEG_TOP = True"
| "early_pc SEG_EXIT = True"
| "early_pc (SEG_CALLBACK ev stop pc) = (ev = SEGMENT_ERROR \<and> pc = SEG_TOP \<and> \<not> stop)"
| "early_pc (SEG_STORE cb x stop pc) = (pc = SEG_TOP \<and> \<not> stop)"
| "early_pc _ = False"

fun in_callback :: "seg_pc \<Rightarrow> bool" where
  "in_callback (SEG_STORE cb x stop pc) = True"
| "in_callback _ = False"

text \<open>A callback that read state \<open>x\<close> while the state now is \<open>y\<close>.\<close>

definition callback_ok :: "bool \<Rightarrow> seg_callback \<Rightarrow> stream_state_e \<Rightarrow> stream_state_e \<Rightarrow> bool" where
  "callback_ok lt cb x y \<longleftrightarrow>
     (y = x \<or> x \<in> {STREAM_READY, STREAM_STATE_ERROR} \<and> y = STREAM_RUNNING \<or> lt \<and> y = STREAM_DONE) \<and>
     (\<forall>sid. cb = CALLBACK_COMPLETE sid \<longrightarrow> lt \<and> x \<notin> {STREAM_INIT, STREAM_READY}) \<and>
     x \<notin> {STREAM_INIT, STREAM_STOPPED}"

fun store_ok :: "bool \<Rightarrow> seg_pc \<Rightarrow> stream_state_e \<Rightarrow> bool" where
  "store_ok lt (SEG_STORE cb x stop pc) y = callback_ok lt cb x y"
| "store_ok lt _ y = True"

definition registered :: "io_stream \<Rightarrow> io_segment \<Rightarrow> bool" where
  "registered sid g \<longleftrightarrow> seg_complete g = Some (CALLBACK_COMPLETE sid) \<and> seg_error g = Some (CALLBACK_ERROR sid)"

definition seg_ok :: "stream \<Rightarrow> io_segment \<Rightarrow> bool" where
  "seg_ok st g \<longleftrightarrow> registered (st_id st) g \<and> wf_pc (seg_thread g) \<and>
     (\<not> late st \<longrightarrow> early_pc (seg_thread g) \<and> \<not> seg_do_complete g) \<and>
     store_ok (late st) (seg_thread g) (st_state st)"

text \<open>The threads at index \<open>i\<close> given where the main thread is.\<close>

fun main_ok :: "main_pc \<Rightarrow> nat \<Rightarrow> seg_pc \<Rightarrow> bool" where
  "main_ok MAIN_IDLE i pc = (pc = SEG_IDLE)"
| "main_ok MAIN_BEGIN i pc = (pc = SEG_IDLE)"
| "main_ok (MAIN_START s) i pc = (s \<le> i \<longrightarrow> pc = SEG_IDLE)"
| "main_ok (MAIN_JOIN s) i pc = (i < s \<longrightarrow> pc = SEG_EXIT)"
| "main_ok MAIN_END i pc = (pc = SEG_EXIT)"
| "main_ok MAIN_EXIT i pc = (pc = SEG_EXIT)"
| "main_ok _ i pc = True"

definition stream_inv :: "stream \<Rightarrow> bool" where
  "stream_inv st \<longleftrightarrow>
     st_state st \<in> states_at (st_thread st) \<and>
     (st_stop st = STOP_SET \<longrightarrow> late st) \<and>
     (\<forall>i < length (st_segments st). seg_ok st (st_segments st ! i) \<and>
        main_ok (st_thread st) i (seg_thread (st_segments st ! i)) \<and>
        (in_callback (seg_thread (st_segments st ! i)) \<longrightarrow> st_lock st)) \<and>
     (\<forall>i < length (st_segments st). \<forall>j < length (st_segments st).
        in_callback (seg_thread (st_segments st ! i)) \<longrightarrow> in_callback (seg_thread (st_segments st ! j)) \<longrightarrow> i = j)"

lemma stream_invD:
  assumes "stream_inv st"
  shows inv_state: "st_state st \<in> states_at (st_thread st)"
    and inv_stop: "st_stop st = STOP_SET \<Longrightarrow> late st"
    and inv_seg: "i < length (st_segments st) \<Longrightarrow> seg_ok st (st_segments st ! i)"
    and inv_main: "i < length (st_segments st) \<Longrightarrow> main_ok (st_thread st) i (seg_thread (st_segments st ! i))"
    and inv_lock: "i < length (st_segments st) \<Longrightarrow> in_callback (seg_thread (st_segments st ! i)) \<Longrightarrow> st_lock st"
    and inv_one: "i < length (st_segments st) \<Longrightarrow> j < length (st_segments st) \<Longrightarrow>
      in_callback (seg_thread (st_segments st ! i)) \<Longrightarrow> in_callback (seg_thread (st_segments st ! j)) \<Longrightarrow> i = j"
  using assms by (auto simp: stream_inv_def)

lemma set_state_simps [simp]:
  "st_state (set_state x st) = x" "st_thread (set_state x st) = st_thread st" "st_id (set_state x st) = st_id st"
  "st_lock (set_state x st) = st_lock st" "st_segments (set_state x st) = st_segments st"
  "st_stop (set_state x st) = st_stop st" "st_status (set_state x st) = st_status st"
  by (cases x; simp add: set_state_def less_stream_state_e_def)+

lemma callback_body_simps [simp]:
  "st_thread (callback_body cb x st) = st_thread st" "st_id (callback_body cb x st) = st_id st"
  "st_segments (callback_body cb x st) = st_segments st" "st_stop (callback_body cb x st) = st_stop st"
  by (cases cb; cases x; simp add: callback_body_def callback_complete_body_def callback_error_body_def)+

section \<open>The main thread and the caller of stop\<close>

lemma seg_ok_mono:
  assumes "seg_ok st g" and "st_id st' = st_id st" and "late st \<Longrightarrow> late st'"
    and "in_callback (seg_thread g) \<Longrightarrow> st_state st' = st_state st \<or> late st' \<and> st_state st' = STREAM_DONE
       \<or> st_state st' = STREAM_RUNNING \<and> st_state st \<in> {STREAM_READY, STREAM_STATE_ERROR} \<and> \<not> late st"
  shows "seg_ok st' g"
proof (cases "seg_thread g")
  case (SEG_STORE cb x stop pc)
  then have "callback_ok (late st) cb x (st_state st)" using assms(1) by (simp add: seg_ok_def)
  then have "callback_ok (late st') cb x (st_state st')"
    using assms(3,4) SEG_STORE by (auto simp: callback_ok_def)
  then show ?thesis using assms SEG_STORE by (auto simp: seg_ok_def)
qed (use assms in \<open>auto simp: seg_ok_def\<close>)


lemma stop_step_inv:
  assumes "stream_inv st" and "stop_step st = Some st'"
  shows "stream_inv st'"
proof -
  have cases: "st_state st' = st_state st \<and> (st_stop st' = STOP_SET \<longrightarrow> late st) \<or> late st \<and> st_state st' = STREAM_DONE \<and> st_stop st' = STOP_RETURNED"
    and eq: "st_thread st' = st_thread st" "st_id st' = st_id st" "st_lock st' = st_lock st" "st_segments st' = st_segments st"
    using assms inv_state [OF assms(1)] inv_stop [OF assms(1)]
    by (cases "st_thread st"; auto simp: stop_step_def split: stop_pc.splits stream_state_e.splits)+
  have "seg_ok st' g" if "seg_ok st g" for g
    using seg_ok_mono [OF that] cases eq by metis
  moreover have "st_state st' \<in> states_at (st_thread st')"
    using cases inv_state [OF assms(1)] eq by (cases "st_thread st") auto
  ultimately show ?thesis using assms(1) cases eq by (auto simp: stream_inv_def)
qed


text \<open>What a step of the main thread changes.\<close>

lemma main_step_frame:
  assumes "main_step st = Some st'"
  shows "st_id st' = st_id st" "st_lock st' = st_lock st" "st_stop st' = st_stop st" "st_status st' = st_status st"
    "length (st_segments st') = length (st_segments st)" "late st \<Longrightarrow> late st'"
  using assms by (auto simp: main_step_def split: main_pc.splits if_splits)

lemma main_step_state:
  assumes "main_step st = Some st'" and "st_state st \<in> states_at (st_thread st)"
  shows "st_state st' \<in> states_at (st_thread st')"
    and "st_state st' = st_state st \<or> st_thread st = MAIN_BEGIN \<and> st_state st' = STREAM_READY
      \<or> st_thread st = MAIN_RUN \<and> st_state st' = STREAM_RUNNING \<or> st_thread st = MAIN_END \<and> st_state st' = STREAM_STOPPED"
  using assms by (auto simp: main_step_def split: main_pc.splits if_splits)

text \<open>A segment is as it was, or was idle and has been started.\<close>

lemma main_step_segment:
  assumes "main_step st = Some st'" and "i < length (st_segments st)"
  shows "st_segments st' ! i = st_segments st ! i
    \<or> st_thread st = MAIN_START i \<and> st_segments st' ! i = segment_start (st_segments st ! i)"
  using assms by (auto simp: main_step_def nth_list_update split: main_pc.splits if_splits)

lemma main_step_main_ok:
  assumes "main_step st = Some st'" and "i < length (st_segments st)"
    and all: "\<And>j. j < length (st_segments st) \<Longrightarrow> main_ok (st_thread st) j (seg_thread (st_segments st ! j))"
  shows "main_ok (st_thread st') i (seg_thread (st_segments st' ! i))"
proof -
  have ok: "main_ok (st_thread st) i (seg_thread (st_segments st ! i))" using all assms(2) .
  show ?thesis
  proof (cases "st_thread st")
    case (MAIN_JOIN s)
    then show ?thesis using assms(1,2) ok
      by (auto simp: main_step_def less_Suc_eq split: if_splits)
  qed (use assms(1,2) ok in \<open>auto simp: main_step_def nth_list_update segment_start_def split: if_splits\<close>)
qed

lemma main_step_inv:
  assumes inv: "stream_inv st" and step: "main_step st = Some st'"
  shows "stream_inv st'"
proof -
  note fr = main_step_frame [OF step]
  note st = main_step_state [OF step inv_state [OF inv]]
  have thr: "\<not> in_callback (seg_thread (st_segments st' ! i)) \<or> st_segments st' ! i = st_segments st ! i"
    if "i < length (st_segments st)" for i
    using main_step_segment [OF step that] by (auto simp: segment_start_def)
  have ok: "seg_ok st' (st_segments st' ! i)" if i: "i < length (st_segments st)" for i
  proof (cases "st_segments st' ! i = st_segments st ! i")
    case True
    have "in_callback (seg_thread (st_segments st ! i)) \<Longrightarrow> st_thread st \<noteq> MAIN_END \<and> st_thread st \<noteq> MAIN_BEGIN"
      using inv_main [OF inv i] by auto
    then have "seg_ok st' (st_segments st ! i)"
      using seg_ok_mono [OF inv_seg [OF inv i] fr(1,6)] st(2) inv_state [OF inv] by auto
    then show ?thesis using True by simp
  next
    case False
    then have s: "st_thread st = MAIN_START i" "st_segments st' ! i = segment_start (st_segments st ! i)"
      using main_step_segment [OF step i] by auto
    then show ?thesis using inv_seg [OF inv i] fr(1)
      by (auto simp: seg_ok_def segment_start_def registered_def)
  qed
  have "st_stop st' = STOP_SET \<longrightarrow> late st'" using inv_stop [OF inv] fr by auto
  then show ?thesis
    using st(1) ok thr main_step_main_ok [OF step _ inv_main [OF inv]] inv_lock [OF inv] inv_one [OF inv] fr(2,5)
    unfolding stream_inv_def by (metis (no_types, lifting))
qed

section \<open>Segment threads\<close>

text \<open>A segment after a step that is not part of a callback.\<close>

definition quiet :: "io_segment \<Rightarrow> io_segment \<Rightarrow> bool" where
  "quiet g g' \<longleftrightarrow> seg_complete g' = seg_complete g \<and> seg_error g' = seg_error g \<and>
     wf_pc (seg_thread g') \<and> \<not> in_callback (seg_thread g')"

named_theorems quiet_intros

lemma quiet_begin [quiet_intros]: "segment_begin S g w = Some (g', w') \<Longrightarrow> quiet g g'"
  by (auto simp: segment_begin_def quiet_def Let_def bind_eq_Some_conv split: pthread_fn.splits option.splits)

lemma quiet_top [quiet_intros]: "seg_thread g = SEG_TOP \<Longrightarrow> segment_top S x g w = (g', w') \<Longrightarrow> quiet g g'"
  by (auto simp: segment_top_def quiet_def split: if_splits)

lemma quiet_read [quiet_intros]:
  assumes "segment_read S call g w = Some (g', w')" shows "quiet g g'"
proof (cases "machine_desc_read S call (seg_in g) (seg_buf g) (seg_buflen g) w")
  case (Some r)
  obtain status n w1 where r: "r = (status, n, w1)" by (cases r)
  show ?thesis using assms unfolding segment_read_def Some r
    by (simp add: quiet_def Let_def split: if_splits) (auto)
qed (use assms in \<open>simp add: segment_read_def\<close>)

lemma quiet_source [quiet_intros]:
  assumes "source_read S call g w = Some (g', w')" shows "quiet g g'"
proof -
  from assms obtain st b w1 where a: "rbm_acquire_write_block S (seg_out g) (seg_buflen g) w = Some (st, b, w1)"
    by (auto simp: source_read_def bind_eq_Some_conv)
  show ?thesis
  proof (cases "st = IO_ERROR \<or> b = 0")
    case True
    then show ?thesis using assms unfolding source_read_def a by (auto simp: quiet_def split: if_splits)
  next
    case False
    with assms obtain blk status n w2 where b: "get_blk b (w_heap w1) = Some blk"
      and r: "machine_desc_read S call (seg_in g) (b_data blk) (b_size blk) w1 = Some (status, n, w2)"
      unfolding source_read_def a by (auto simp: bind_eq_Some_conv)
    show ?thesis using assms False unfolding source_read_def a by (auto simp: b r quiet_def split: if_splits)
  qed
qed

lemma after_write_pc [simp]: "wf_pc (after_write sec src n g)" "\<not> in_callback (after_write sec src n g)"
  by (simp_all add: after_write_def)

lemma quiet_write [quiet_intros]:
  assumes "segment_write S call sec src k p n g w = Some (g', w')" shows "quiet g g'"
proof (cases "k = 0")
  case True
  then show ?thesis using assms by (auto simp: segment_write_def quiet_def)
next
  case False
  with assms obtain status m w1
    where r: "machine_desc_write S call (if sec then seg_out1 g else seg_out g) p k w = Some (status, m, w1)"
    by (auto simp: segment_write_def bind_eq_Some_conv)
  show ?thesis using assms False unfolding segment_write_def r by (auto simp: quiet_def split: if_splits)
qed

lemma quiet_stop [quiet_intros]:
  assumes "stop_segment S g w = Some (g', w')" and "plain_pc pc"
  shows "quiet g (g'\<lparr>seg_thread := pc\<rparr>)"
  using assms by (cases pc) (auto simp: stop_segment_def quiet_def Let_def bind_eq_Some_conv)

lemma segment_step_quiet:
  assumes "segment_step S call g st w = Some (g', st', w')" and "wf_pc (seg_thread g)"
    and "\<not> in_callback (seg_thread g)" and "\<And>ev stop pc. seg_thread g \<noteq> SEG_CALLBACK ev stop pc"
  shows "st' = st \<and> quiet g g'"
proof (cases "seg_thread g")
  case SEG_TOP
  then show ?thesis using assms(1) by (auto simp: segment_step_def intro: quiet_intros split: prod.splits)
next
  case (SEG_RELEASE n)
  then show ?thesis using assms(1) by (auto simp: segment_step_def quiet_def)
next
  case (SEG_STOP pc)
  then show ?thesis using assms(1,2) by (auto simp: segment_step_def intro: quiet_intros)
qed (use assms in \<open>auto simp: segment_step_def intro: quiet_intros split: if_splits\<close>)

text \<open>Before the stream runs, a segment has done no more than begin.\<close>

lemma segment_step_early:
  assumes "segment_step S call g st w = Some (g', st', w')" and "early_pc (seg_thread g)" and "\<not> seg_do_complete g"
    and "st_state st \<in> {STREAM_INIT, STREAM_READY, STREAM_STATE_ERROR}" and "registered sid g"
  shows "early_pc (seg_thread g') \<and> \<not> seg_do_complete g'"
proof (cases "seg_thread g")
  case SEG_BEGIN
  then show ?thesis using assms
    by (auto simp: segment_step_def segment_begin_def Let_def bind_eq_Some_conv split: pthread_fn.splits option.splits)
next
  case SEG_TOP
  then show ?thesis using assms
    by (auto simp: segment_step_def segment_top_def STREAM_IS_RUNNING_iff split: if_splits prod.splits)
next
  case (SEG_CALLBACK ev stop pc)
  then show ?thesis using assms by (auto simp: segment_step_def split: option.splits if_splits)
next
  case (SEG_STORE cb x stop pc)
  then show ?thesis using assms by (auto simp: segment_step_def after_callback_def)
qed (use assms in \<open>auto simp: segment_step_def\<close>)


section \<open>Preservation\<close>

lemma put_segment_simps [simp]:
  "st_thread (put_segment i g st) = st_thread st" "st_id (put_segment i g st) = st_id st"
  "st_state (put_segment i g st) = st_state st" "st_lock (put_segment i g st) = st_lock st"
  "st_stop (put_segment i g st) = st_stop st" "st_status (put_segment i g st) = st_status st"
  "st_segments (put_segment i g st) = (st_segments st)[i := g]"
  by (simp_all add: put_segment_def)

lemma seg_ok_same:
  "st_id st' = st_id st \<Longrightarrow> st_thread st' = st_thread st \<Longrightarrow> st_state st' = st_state st \<Longrightarrow> seg_ok st' g = seg_ok st g"
  by (simp add: seg_ok_def)

text \<open>Replacing one segment.\<close>

lemma put_segment_inv:
  assumes inv: "stream_inv st" and i: "i < length (st_segments st)"
    and same: "st_id st' = st_id st" "st_thread st' = st_thread st" "st_stop st' = st_stop st" "st_segments st' = st_segments st"
    and state: "st_state st' \<in> states_at (st_thread st)"
    and others: "\<And>j. j < length (st_segments st) \<Longrightarrow> j \<noteq> i \<Longrightarrow>
       st_state st' = st_state st \<or> \<not> in_callback (seg_thread (st_segments st ! j))"
    and new: "seg_ok st' g" "main_ok (st_thread st) i (seg_thread g)"
    and lock: "in_callback (seg_thread g) \<Longrightarrow> st_lock st'"
      "\<And>j. j < length (st_segments st) \<Longrightarrow> j \<noteq> i \<Longrightarrow> in_callback (seg_thread (st_segments st ! j)) \<Longrightarrow>
         st_lock st' \<and> \<not> in_callback (seg_thread g)"
  shows "stream_inv (put_segment i g st')"
proof -
  have ok: "seg_ok (put_segment i g st') (st_segments (put_segment i g st') ! j)" if j: "j < length (st_segments st)" for j
  proof (cases "j = i")
    case True
    then show ?thesis using new(1) i same(4) by (simp add: seg_ok_same [of "put_segment i g st'" st'])
  next
    case False
    have "seg_ok st' (st_segments st ! j)"
      using others [OF j False] inv_seg [OF inv j] same(1,2)
      by (cases "seg_thread (st_segments st ! j)") (auto simp: seg_ok_def)
    then show ?thesis using False same(4) by (simp add: seg_ok_same [of "put_segment i g st'" st'])
  qed
  have "main_ok (st_thread st) j (seg_thread (st_segments (put_segment i g st') ! j))" if "j < length (st_segments st)" for j
    using inv_main [OF inv that] new(2) i same(4) by (cases "j = i") auto
  moreover have "st_stop st' = STOP_SET \<longrightarrow> late st'" using inv_stop [OF inv] same by simp
  moreover have "in_callback (seg_thread ((st_segments st)[i := g] ! j)) \<Longrightarrow> st_lock st'" if "j < length (st_segments st)" for j
    using lock i that by (cases "j = i") auto
  moreover have "j = k" if "j < length (st_segments st)" "k < length (st_segments st)"
    "in_callback (seg_thread ((st_segments st)[i := g] ! j))" "in_callback (seg_thread ((st_segments st)[i := g] ! k))" for j k
    using inv_one [OF inv that(1,2)] lock(2) [OF that(1)] lock(2) [OF that(2)] that i
    by (cases "j = i"; cases "k = i") auto
  ultimately show ?thesis using ok state same unfolding stream_inv_def by simp
qed


lemma main_ok_active: "main_ok m i pc \<Longrightarrow> pc \<noteq> SEG_IDLE \<Longrightarrow> pc \<noteq> SEG_EXIT \<Longrightarrow> main_ok m i pc'"
  by (cases m) auto

lemma segment_step_active: "segment_step S call g st w = Some r \<Longrightarrow> seg_thread g \<noteq> SEG_IDLE \<and> seg_thread g \<noteq> SEG_EXIT"
  by (auto simp: segment_step_def)

lemma early_states: "\<not> late st \<Longrightarrow> st_state st \<in> states_at (st_thread st) \<Longrightarrow>
    st_state st \<in> {STREAM_INIT, STREAM_READY, STREAM_STATE_ERROR}"
  by (cases "st_thread st") auto

text \<open>The states a callback can leave behind.\<close>

lemma callback_body_state:
  assumes "callback_ok lt cb x y" and "st_state st = y"
  shows "st_state (callback_body cb x st) = y
    \<or> st_state (callback_body cb x st) = STREAM_STATE_ERROR \<and> y \<in> {STREAM_READY, STREAM_RUNNING, STREAM_DONE}
    \<or> st_state (callback_body cb x st) = STREAM_FINISHING \<and> y \<in> {STREAM_RUNNING, STREAM_DONE} \<and> lt"
  using assms
  by (cases cb; cases x) (auto simp: callback_ok_def callback_body_def callback_complete_body_def callback_error_body_def)

lemma segment_step_inv:
  assumes inv: "stream_inv st" and i: "i < length (st_segments st)"
    and step: "segment_step S call (st_segments st ! i) st w = Some (g', st', w')"
  shows "stream_inv (put_segment i g' st')"
proof -
  define g where "g = st_segments st ! i"
  note ok = inv_seg [OF inv i, folded g_def] and step' = step [folded g_def]
  have main: "main_ok (st_thread st) i pc" for pc
    using main_ok_active [OF inv_main [OF inv i]] segment_step_active [OF step] by blast
  have early: "\<not> late st \<longrightarrow> early_pc (seg_thread g') \<and> \<not> seg_do_complete g'"
    using segment_step_early [OF step'] ok early_states inv_state [OF inv] by (auto simp: seg_ok_def)
  consider (cb) ev stop pc where "seg_thread g = SEG_CALLBACK ev stop pc"
    | (store) cb x stop pc where "seg_thread g = SEG_STORE cb x stop pc"
    | (quiet) "\<not> in_callback (seg_thread g)" "\<And>ev stop pc. seg_thread g \<noteq> SEG_CALLBACK ev stop pc"
    by (cases "seg_thread g") auto
  then show ?thesis
  proof cases
    case quiet
    from segment_step_quiet [OF step' _ quiet] ok have st': "st' = st" and q: "quiet g g'"
      by (auto simp: seg_ok_def)
    have "seg_ok st g'" using ok q early
      by (cases "seg_thread g'") (auto simp: seg_ok_def quiet_def registered_def)
    then show ?thesis
      using put_segment_inv [OF inv i, of st g'] inv_state [OF inv] main q inv_lock [OF inv]
      by (auto simp: st' quiet_def)
  next
    case cb
    with step' obtain c where c: "event_callback ev g = Some c" "\<not> st_lock st"
      and g': "g' = g\<lparr>seg_thread := SEG_STORE c (st_state st) stop pc\<rparr>" and st': "st' = st\<lparr>st_lock := True\<rparr>"
      by (auto simp: segment_step_def split: option.splits if_splits)
    have nocb: "\<not> in_callback (seg_thread (st_segments st ! j))" if "j < length (st_segments st)" for j
      using inv_lock [OF inv that] c(2) by auto
    have st: "st_state st \<notin> {STREAM_INIT, STREAM_STOPPED}"
      using inv_state [OF inv] inv_main [OF inv i] cb [unfolded g_def] by (cases "st_thread st") auto
    have "callback_ok (late st) c (st_state st) (st_state st)"
    proof (cases "late st")
      case True
      then have "st_state st \<noteq> STREAM_READY" using inv_state [OF inv] by (cases "st_thread st") auto
      then show ?thesis using st True by (simp add: callback_ok_def)
    next
      case False
      then have "ev = SEGMENT_ERROR" using ok cb by (simp add: seg_ok_def)
      then show ?thesis using c(1) ok st by (auto simp: event_callback_def callback_ok_def seg_ok_def registered_def)
    qed
    then have "seg_ok st' g'" using ok cb early
      by (auto simp: g' st' seg_ok_def registered_def)
    then show ?thesis
      using put_segment_inv [OF inv i, of st' g'] inv_state [OF inv] main nocb
      by (simp add: st' g')
  next
    case store
    then have cok: "callback_ok (late st) cb x (st_state st)" and pc: "plain_pc pc" using ok by (simp_all add: seg_ok_def)
    from step' store have g': "g' = after_callback stop pc g"
      and st': "st' = (callback_body cb x st)\<lparr>st_lock := False\<rparr>"
      by (auto simp: segment_step_def)
    have q: "quiet g g'" using pc by (cases pc) (auto simp: g' after_callback_def quiet_def)
    have nocb: "\<not> in_callback (seg_thread (st_segments st ! j))" if "j < length (st_segments st)" "j \<noteq> i" for j
      using inv_one [OF inv that(1) i] that(2) store [unfolded g_def] by auto
    have "st_state st' \<in> states_at (st_thread st)"
      using callback_body_state [OF cok refl] inv_state [OF inv] inv_main [OF inv i] store [unfolded g_def]
      by (cases "st_thread st") (auto simp: st')
    moreover have "seg_ok st' g'" using ok q early
      by (cases "seg_thread g'") (auto simp: seg_ok_def quiet_def registered_def st')
    ultimately show ?thesis
      using put_segment_inv [OF inv i, of st' g'] main nocb q by (simp add: st' quiet_def)
  qed
qed

lemma stream_step_inv: "stream_step S depth c c' \<Longrightarrow> stream_inv (fst c) \<Longrightarrow> stream_inv (fst c')"
  by (induction rule: stream_step.induct) (auto intro: main_step_inv segment_step_inv stop_step_inv)

lemma stream_steps_inv: "stream_steps S depth c c' \<Longrightarrow> stream_inv (fst c) \<Longrightarrow> stream_inv (fst c')"
  by (induction rule: stream_steps.induct) (auto intro: stream_step_inv)

text \<open>A stream that was set up and not started.\<close>

definition fresh_stream :: "stream \<Rightarrow> bool" where
  "fresh_stream st \<longleftrightarrow> st_thread st \<in> {MAIN_IDLE, MAIN_BEGIN} \<and> st_state st = STREAM_INIT \<and> \<not> st_lock st \<and>
     st_status st = STREAM_SUCCESS \<and> st_stop st = STOP_IDLE \<and>
     list_all (\<lambda>g. registered (st_id st) g \<and> seg_thread g = SEG_IDLE \<and> \<not> seg_do_complete g) (st_segments st)"

lemma fresh_stream_inv: "fresh_stream st \<Longrightarrow> stream_inv st"
  by (auto simp: fresh_stream_def stream_inv_def seg_ok_def list_all_length)

lemmas reachable_inv = stream_steps_inv [OF _ fresh_stream_inv, where c = "(st, w)" for st w, simplified]

end
