(* ===== verification/Demo_World.thy ===== *)
theory Demo_World
  imports Stream_Invariant
begin

text \<open>
  A concrete surrounding and concrete machines, on which the theorems are instantiated, and a
  function that runs a stream under a given schedule.
\<close>

section \<open>Surroundings\<close>

text \<open>A system that permits everything and writes and reads as much as is asked for. A path is a list of names;
  empty names are skipped.\<close>

fun names :: "string \<Rightarrow> string \<Rightarrow> path_t" where
  "names cur [] = (if cur = [] then [] else [cur])"
| "names cur (c # cs) = (if c = CHR ''/'' then names cur [] @ names [] cs else names (cur @ [c]) cs)"

definition demo_os :: os where
  "demo_os = \<lparr>path_of = names [], os_deny = (\<lambda>px s. False), os_fwritten = (\<lambda>px f n. n), os_freads = (\<lambda>px f n. n),
     os_new_fd = (\<lambda>px. 3), os_written = (\<lambda>px f n. Some n), os_reads = (\<lambda>px f n. Some n),
     os_bind_ok = (\<lambda>px f ip port. True), os_sent = (\<lambda>px f n. True), os_received = (\<lambda>px f. True), strftime = (\<lambda>fmt s. ''today'')\<rparr>"

definition empty_posix :: posix where
  "empty_posix = \<lparr>px_files = Map.empty, px_dirs = [[]], px_streams = Map.empty, px_next = 1, px_pipes = Map.empty, px_fds = Map.empty,
     px_inbox = Map.empty, px_sent = []\<rparr>"

text \<open>One RTL-SDR device, with three gain settings, which gives 200 for each byte.\<close>

definition demo_rtl :: rtl_lib where
  "demo_rtl = \<lparr>rtlsdr_get_device_count = (\<lambda>n. 1), rtlsdr_serial = (\<lambda>n i. ''00000001''), rtlsdr_open = (\<lambda>n i. (0, 7)),
     rtlsdr_set_center_freq = (\<lambda>n d x. 0), rtlsdr_set_sample_rate = (\<lambda>n d x. 0), rtlsdr_set_tuner_bandwidth = (\<lambda>n d x. 0),
     rtlsdr_set_freq_correction = (\<lambda>n d x. 0), rtlsdr_set_tuner_gain_mode = (\<lambda>n d x. 0), rtlsdr_set_tuner_gain = (\<lambda>n d x. 0),
     rtlsdr_set_testmode = (\<lambda>n d x. 0), rtlsdr_reset_buffer = (\<lambda>n d. 0),
     rtlsdr_read_sync = (\<lambda>n d k. (0, replicate (nat k) 200)), rtlsdr_get_tuner_gains = (\<lambda>n d. (3, [0, 90, 140]))\<rparr>"

text \<open>A LimeSDR, which gives one sample at a time, a microsecond after the one before; the n-th call gives samples of bytes \<open>n\<close>.\<close>

definition demo_soapy :: soapy_lib where
  "demo_soapy = \<lparr>SoapySDRDevice_enumerate = (\<lambda>n. [[(''driver'', ''lime''), (''serial'', ''1D4C'')]]), SoapySDRDevice_make = (\<lambda>n k. 8),
     SoapySDRDevice_setupStream = (\<lambda>n d c. 9), SoapySDRDevice_setAntenna = (\<lambda>n d x. 0), SoapySDRDevice_setSampleRate = (\<lambda>n d x. 0),
     SoapySDRDevice_setBandwidth = (\<lambda>n d x. 0), SoapySDRDevice_setFrequency = (\<lambda>n d x. 0), SoapySDRDevice_setFrequencyCorrection = (\<lambda>n d x. 0),
     SoapySDRDevice_setGainElement = (\<lambda>n d e x. 0), SoapySDRDevice_getGainElement = (\<lambda>n d e. 0), SoapySDRDevice_deactivateStream = (\<lambda>n d r. 0),
     SoapySDRDevice_readStream = (\<lambda>n d r k. (1, replicate 8 (of_nat n), 1000 * int n))\<rparr>"

text \<open>A USRP, which gives at most two samples at a time.\<close>

definition demo_uhd :: uhd_lib where
  "demo_uhd = \<lparr>sizeof_uhd_channel = 480, uhd_usrp_make = (\<lambda>n s. (0, 5)), uhd_rx_streamer_make = (\<lambda>n. (0, 6)), uhd_rx_metadata_make = (\<lambda>n. (0, 7)),
     uhd_usrp_set_rx_rate = (\<lambda>n d x c. 0), uhd_usrp_set_rx_bandwidth = (\<lambda>n d x c. 0), uhd_usrp_set_rx_freq = (\<lambda>n d x c. 0),
     uhd_usrp_set_rx_gain = (\<lambda>n d x c. 0), uhd_usrp_get_rx_stream = (\<lambda>n d c r. 0), uhd_rx_streamer_max_num_samps = (\<lambda>n r. (0, 2)),
     uhd_rx_streamer_issue_stream_cmd = (\<lambda>n r m. 0), uhd_rx_streamer_recv = (\<lambda>n r k. (replicate (8 * min 2 k) (of_nat n), Some (min 2 k))),
     uhd_rx_metadata_error_code = (\<lambda>n m. (0, UHD_RX_METADATA_ERROR_CODE_NONE))\<rparr>"

text \<open>Memory that does not run out, lists kept as lists, a clock that counts seconds.\<close>

definition demo_sys :: sys where
  "demo_sys = \<lparr>s_mem = (bump_env (2 ^ 40))\<lparr>create_subpool := (\<lambda>h p. 1)\<rparr>, create_pool = (\<lambda>h. 1),
     repalloc = (\<lambda>h a n p. Some (heap_top h, h\<lparr>live := (heap_top h, n) # live h\<rparr>)),
     gettimeofday = (\<lambda>n. \<lparr>tv_sec = int n, tv_usec = 0\<rparr>), s_os = demo_os, envex_double = (\<lambda>s x. x), envex_exists = (\<lambda>s. False), s_sched = even,
     s_rtl = demo_rtl, s_soapy = demo_soapy, s_uhd = demo_uhd, no_return = (\<lambda>w. IO_ERROR),
     memex_fifo_create = (\<lambda>p. (0, [])), memex_stack_create = (\<lambda>p. (1, [])),
     memex_list_push = (\<lambda>l e. Some (fst l, if fst l = 0 then snd l @ [e] else e # snd l)),
     memex_list_pop = (\<lambda>l. Some (case snd l of [] \<Rightarrow> (None, l) | e # es \<Rightarrow> (Some e, fst l, es))),
     ext_filter = (\<lambda>n call a buf bytes block align w. None), ext_reset = (\<lambda>n a w. None),
     ext_create = (\<lambda>n w. None), ext_destroy = (\<lambda>n h w. None), ext_stop = (\<lambda>n h w. None)\<rparr>"

text \<open>The same with memory exhausted for blocks of 100 bytes or more.\<close>

definition poor_sys :: sys where
  "poor_sys = demo_sys\<lparr>s_mem := (s_mem demo_sys)\<lparr>palloc := (\<lambda>h p n. if n < 100 then Some (heap_top h) else None)\<rparr>\<rparr>"

lemma demo_sys_ok:
  "pool_sound (s_mem demo_sys)" "n < 2 ^ 40 \<Longrightarrow> pool_plenty (s_mem demo_sys) n" "create_subpool (s_mem demo_sys) h p \<noteq> 0"
  using bump_env_sound [of "2 ^ 40"] bump_env_plenty [of n "2 ^ 40"]
  by (simp_all add: demo_sys_def pool_sound_def pool_plenty_def)

definition empty_world :: world where
  "empty_world = \<lparr>w_heap = empty_heap\<lparr>live := [(1, 64)]\<rparr>, w_filters = Map.empty, w_descs = [], w_machines = [], w_machines_ptr = 0,
     w_handle_map = [], w_handle_map_ptr = 0, w_handle_alloc = 0, w_handle_counter = 0, w_pool = None, w_rb_machine = None,
     w_fbb_machine = None, w_hq_machine = None, w_null_machine = None, w_file_machine = None, w_fifo_machine = None,
     w_socket_machine = None, w_socks = [], w_sock_list_lock = False, w_rtlsdr_machine = None, w_soapy_machine = None, w_lime_machine = None,
     w_uhd_machine = None, w_b210_machine = None, w_devices = [], w_hw = 0, w_turn = 0, w_px = empty_posix, w_ticks = 0, w_signals = [], w_signals_ptr = 0, w_signals_size = 0, w_signals_pool = None\<rparr>"

text \<open>Two null machines, with handles 1 and 2.\<close>

definition null_world :: world where
  "null_world = (case new_null_machine demo_sys empty_world of
      Some (h, w) \<Rightarrow> (case new_null_machine demo_sys w of Some (h', w') \<Rightarrow> w' | None \<Rightarrow> w)
    | None \<Rightarrow> empty_world)"

section \<open>Schedules\<close>

datatype turn = TURN_MAIN | TURN_SEGMENT nat | TURN_STOP

definition take_turn :: "sys \<Rightarrow> nat \<Rightarrow> turn \<Rightarrow> stream \<times> world \<Rightarrow> (stream \<times> world) option" where
  "take_turn S depth t c = (case c of (st, w) \<Rightarrow> (case t of
      TURN_MAIN \<Rightarrow> map_option (\<lambda>st'. (st', w)) (main_step st)
    | TURN_SEGMENT i \<Rightarrow>
        if i < length (st_segments st)
        then map_option (\<lambda>(g, st', w'). (put_segment i g st', w'))
          (segment_step S (call_filter S depth) (st_segments st ! i) st w)
        else None
    | TURN_STOP \<Rightarrow> map_option (\<lambda>st'. (st', w)) (stop_step st)))"

fun run_turns :: "sys \<Rightarrow> nat \<Rightarrow> turn list \<Rightarrow> stream \<times> world \<Rightarrow> (stream \<times> world) option" where
  "run_turns S depth [] c = Some c"
| "run_turns S depth (t # ts) c = do { c' \<leftarrow> take_turn S depth t c; run_turns S depth ts c' }"

lemma take_turn_step: "take_turn S depth t c = Some c' \<Longrightarrow> stream_step S depth c c'"
  by (auto simp: take_turn_def split: prod.splits turn.splits if_splits intro: stream_step.intros)

lemma stream_steps_trans: "stream_steps S depth c' c'' \<Longrightarrow> stream_steps S depth c c' \<Longrightarrow> stream_steps S depth c c''"
  by (induction rule: stream_steps.induct) (auto intro: stream_steps.intros)

lemma run_turns_steps: "run_turns S depth ts c = Some c' \<Longrightarrow> stream_steps S depth c c'"
proof (induction ts arbitrary: c)
  case Nil
  then show ?case by (simp add: steps_none)
next
  case (Cons t ts)
  then obtain c1 where c1: "take_turn S depth t c = Some c1" "run_turns S depth ts c1 = Some c'"
    by (auto simp: bind_eq_Some_conv)
  have "stream_steps S depth c c1" using take_turn_step [OF c1(1)] steps_more steps_none by blast
  then show ?case using Cons.IH [OF c1(2)] stream_steps_trans by blast
qed

lemma run_turns_view:
  assumes "map_option f (run_turns S depth ts (st0, w0)) = Some v"
  shows "\<exists>st w. stream_steps S depth (st0, w0) (st, w) \<and> f (st, w) = v"
  using assms run_turns_steps by fastforce

section \<open>A stream\<close>

definition demo_segment :: io_segment where
  "demo_segment = \<lparr>seg_error = Some (CALLBACK_ERROR 1), seg_complete = Some (CALLBACK_COMPLETE 1), seg_thread = SEG_IDLE,
     seg_fn = SEGMENT_RUN, seg_running = False, seg_do_complete = False, seg_id = 0, seg_group = Some 1, seg_gsep = ''-'',
     seg_name = ''seg0'', seg_pool = 1, seg_default_buf_len = 100, seg_in = 1, seg_out = 2, seg_out1 = 0,
     seg_run_pool = 0, seg_buf = 0, seg_buflen = 0\<rparr>"

text \<open>A stream whose thread was just created, with one segment from machine 1 to machine 2.\<close>

definition demo_stream :: stream where
  "demo_stream = \<lparr>st_thread = MAIN_BEGIN, st_lock = False, st_state = STREAM_INIT, st_id = 1, st_name = ''stream1'',
     st_pool = 1, st_segments = [demo_segment], st_segments_ptr = 0, st_segment_len = 10, st_status = STREAM_SUCCESS, st_stop = STOP_IDLE\<rparr>"

lemma demo_stream_fresh: "fresh_stream demo_stream"
  by (simp add: fresh_stream_def demo_stream_def demo_segment_def registered_def)

text \<open>The segment reads from a machine that cannot be read: it signals an error, stops its machines and
  ends, and the stream ends.\<close>

definition error_run :: "turn list" where
  "error_run = [TURN_MAIN, TURN_MAIN, TURN_MAIN, TURN_MAIN, TURN_SEGMENT 0, TURN_SEGMENT 0, TURN_SEGMENT 0, TURN_SEGMENT 0,
     TURN_SEGMENT 0, TURN_SEGMENT 0, TURN_SEGMENT 0, TURN_MAIN, TURN_MAIN, TURN_MAIN, TURN_MAIN, TURN_MAIN]"

definition view :: "stream \<times> world \<Rightarrow> main_pc \<times> stream_state_e \<times> stream_status_e \<times> seg_pc list" where
  "view c = (st_thread (fst c), st_state (fst c), st_status (fst c), map seg_thread (st_segments (fst c)))"

lemmas setup_defs = demo_sys_def poor_sys_def empty_world_def bump_env_def machine_register_def get_iom_def setup_desc_def
  machine_desc_init_def filter_read_init_def filter_write_init_def create_filter_def machine_register_desc_def
  request_handle_def set_filter_handle_def upd_filter_def get_filter_def Let_def get_machine_def add_live_def heap_top_def
  empty_heap_def zero_desc_def MACHINE_CHUNK_def sizeof_iom_def sizeof_iom_ptr_def sizeof_handle_map_def sizeof_machine_desc_def
  sizeof_io_desc_def sizeof_filter_def to_int32_def sz_add_def sz_max_def

lemmas thread_defs = take_turn_def main_step_def segment_step_def segment_begin_def segment_top_def
  segment_read_def after_callback_def event_callback_def segment_start_def set_state_def less_stream_state_e_def
  segment_buflen_def source_buflen_def machine_get_desc_def STREAM_IS_RUNNING_def machine_desc_read_def
  machine_desc_acquire_def machine_desc_release_def upd_desc_def filter_body_def null_read_def count_out_def
  put_segment_def callback_body_def callback_complete_body_def callback_error_body_def stop_segment_def
  stop_machine_def get_machine_ref_def get_machine_by_handle_def iom_stop_def machine_disable_read_def
  set_read_state_def update_out_metrics_def discard_pool_def segment_is_running_def

lemma error_run_view:
  "map_option view (run_turns demo_sys 1 error_run (demo_stream, null_world)) =
     Some (MAIN_EXIT, STREAM_STOPPED, STREAM_ERROR, [SEG_EXIT])"
  by (simp add: null_world_def new_null_machine_def get_null_machine_def create_null_def setup_defs
     error_run_def view_def demo_stream_def demo_segment_def thread_defs)

end
