(* ===== verification/Stream_Properties.thy ===== *)
theory Stream_Properties
  imports Demo_World
begin

text \<open>
  What holds of a stream's threads in every interleaving: the order of states, joining, errors
  that are not forgotten, shutting down; and where the code falls short of it.
\<close>

section \<open>Set-up\<close>

lemma upd_stream_find:
  assumes "\<And>s. st_id (g s) = st_id s"
  shows "find (\<lambda>s. st_id s = k) (upd_stream h g sts) =
     map_option (if k = h then g else id) (find (\<lambda>s. st_id s = k) sts)"
  by (induction sts) (auto simp: assms option.map_ident)

lemma find_st_id: "find (\<lambda>s. st_id s = h) sts = Some st \<Longrightarrow> st_id st = h"
  by (induction sts) (auto split: if_splits)

lemma find_upd_stream_const:
  "find (\<lambda>s. st_id s = h) sts = Some st0 \<Longrightarrow> st_id st = h \<Longrightarrow> find (\<lambda>s. st_id s = h) (upd_stream h (\<lambda>_. st) sts) = Some st"
  by (induction sts) (auto split: if_splits)

text \<open>Segments are added to a stream registered with its callbacks and not started.\<close>

lemma add_segment_fresh:
  assumes "add_segment S (register_callbacks st seg) st w = Some (st', w')" and "fresh_stream st"
    and "seg_thread seg = SEG_IDLE" and "\<not> seg_do_complete seg"
  shows "fresh_stream st' \<and> st_id st' = st_id st \<and> length (st_segments st') = length (st_segments st) + 1"
  using assms
  by (auto simp: add_segment_def Let_def bind_eq_Some_conv fresh_stream_def register_callbacks_def registered_def
      segment_set_group_def segment_register_callback_error_def segment_register_callback_complete_def split: if_splits)

lemma segment_create_idle:
  "segment_create S p i k k1 c w = Some (seg, c', w') \<Longrightarrow> seg_thread seg = SEG_IDLE \<and> \<not> seg_do_complete seg"
  by (auto simp: segment_create_def bind_eq_Some_conv split: if_splits)

lemma create_segment_1_1_fresh:
  assumes "create_segment_1_1 S i k st c w = Some (st', c', w')" and "fresh_stream st"
  shows "fresh_stream st' \<and> st_id st' = st_id st \<and> length (st_segments st') = length (st_segments st) + 1"
proof -
  from assms(1) obtain seg c1 w1 w2 where s: "segment_create S (st_pool st) i k 0 c w = Some (seg, c1, w1)"
    and a: "add_segment S (register_callbacks st seg) st w1 = Some (st', w2)"
    unfolding create_segment_1_1_def segment_create_1_1_def by (auto simp: bind_eq_Some_conv)
  show ?thesis using add_segment_fresh [OF a assms(2)] segment_create_idle [OF s] by simp
qed

lemma get_put_stream:
  "get_stream h a = Some st0 \<Longrightarrow> st_id st = h \<Longrightarrow> get_stream h (put_stream h st c w a) = Some st"
  unfolding get_stream_def put_stream_def by (simp, rule find_upd_stream_const)

text \<open>C29. Adding a segment that moves data from one machine to another to a stream that has not been
  started yields a stream that has not been started, with one segment more, which reports to this
  stream and waits to be started.\<close>

theorem io_stream_add_segment_fresh:
  assumes "get_stream h a = Some st" and "fresh_stream st" and "io_stream_add_segment S h hin hout a = Some (r, a')"
  shows "r = 0 \<and> (\<exists>st'. get_stream h a' = Some st' \<and> fresh_stream st' \<and>
    length (st_segments st') = length (st_segments st) + 1)"
proof -
  have id: "st_id st = h" using assms(1) unfolding get_stream_def by (rule find_st_id)
  from assms(3) obtain st1 c w where c: "create_segment_1_1 S hin hout st (a_segment_counter a) (a_world a) = Some (st1, c, w)"
    and r: "r = 0" "a' = put_stream h st1 c w a"
    unfolding io_stream_add_segment_def assms(1) by (auto simp: bind_eq_Some_conv)
  show ?thesis
    using create_segment_1_1_fresh [OF c assms(2)] get_put_stream [OF assms(1), of st1] id r by auto
qed

definition demo_app :: app where
  "demo_app = \<lparr>a_world = null_world, a_streams = [demo_stream], a_stream_counter = 1, a_segment_counter = 1,
     a_metrics_enabled = False\<rparr>"

theorem io_stream_add_segment_fresh_witness:
  "\<exists>a' st'. io_stream_add_segment demo_sys 1 1 2 demo_app = Some (0, a') \<and> get_stream 1 a' = Some st' \<and>
     fresh_stream st' \<and> length (st_segments st') = 2"
proof -
  have g: "get_stream 1 demo_app = Some demo_stream" by (simp add: get_stream_def demo_app_def demo_stream_def)
  have "io_stream_add_segment demo_sys 1 1 2 demo_app \<noteq> None"
    by (simp add: io_stream_add_segment_def get_stream_def create_segment_1_1_def segment_create_1_1_def segment_create_def
        demo_sys_def bump_env_def add_segment_def demo_stream_def demo_app_def sizeof_pointer_def sizeof_int_def)
  then obtain r a' where a': "io_stream_add_segment demo_sys 1 1 2 demo_app = Some (r, a')" by auto
  from io_stream_add_segment_fresh [OF g demo_stream_fresh a'] a' show ?thesis
    by (auto simp: demo_stream_def)
qed

text \<open>The array of a stream's segments is allocated with the size of an \<open>int\<close> for every entry, while an
  entry is a pointer: a stream has room for five segments, although it counts on ten.\<close>

lemma add_segment_capacity:
  assumes "st_segment_len st = (if st_segments st = [] then 0 else 10)" and "length (st_segments st) < 10"
    and "\<And>h a n p. repalloc S h a n p \<noteq> None"
  shows "add_segment S seg st w \<noteq> None \<longleftrightarrow> length (st_segments st) < 5"
proof (cases "st_segments st = []")
  case True
  then obtain b hp where "repalloc S (w_heap w) (st_segments_ptr st) (sizeof_int * 10) (st_pool st) = Some (b, hp)"
    using assms(3) [of "w_heap w" "st_segments_ptr st" "sizeof_int * 10" "st_pool st"] by auto
  then show ?thesis using True assms(1) by (simp add: add_segment_def sizeof_pointer_def sizeof_int_def)
next
  case False
  then show ?thesis using assms(1,2) by (auto simp: add_segment_def sizeof_pointer_def sizeof_int_def)
qed

section \<open>Order of states\<close>

text \<open>The order of the states.\<close>

fun forward :: "stream_state_e \<Rightarrow> stream_state_e \<Rightarrow> bool" where
  "forward STREAM_INIT y = (y = STREAM_READY)"
| "forward STREAM_READY y = (y \<in> {STREAM_RUNNING, STREAM_STATE_ERROR})"
| "forward STREAM_RUNNING y = (y \<in> {STREAM_FINISHING, STREAM_DONE, STREAM_STATE_ERROR})"
| "forward STREAM_FINISHING y = (y \<in> {STREAM_DONE, STREAM_STOPPED})"
| "forward STREAM_DONE y = (y = STREAM_STOPPED)"
| "forward STREAM_STOPPED y = False"
| "forward STREAM_STATE_ERROR y = (y = STREAM_STOPPED)"

text \<open>Three ways out of the order: a callback, with the state \<open>x\<close> that it read, stores over a \<open>DONE\<close> that came after; a caller of stop, past its test, stores
  \<open>DONE\<close> over an error or \<open>STOPPED\<close>; the main thread stores \<open>RUNNING\<close> over the error of a segment.\<close>

definition stale_callback :: "stream \<Rightarrow> stream_state_e \<Rightarrow> bool" where
  "stale_callback st y \<longleftrightarrow> st_state st = STREAM_DONE \<and> y \<in> {STREAM_FINISHING, STREAM_STATE_ERROR} \<and>
     (\<exists>g \<in> set (st_segments st). \<exists>cb x stop pc. seg_thread g = SEG_STORE cb x stop pc \<and> x \<noteq> STREAM_DONE)"

definition stale_stop :: "stream \<Rightarrow> stream_state_e \<Rightarrow> bool" where
  "stale_stop st y \<longleftrightarrow> st_state st \<in> {STREAM_STATE_ERROR, STREAM_STOPPED} \<and> y = STREAM_DONE \<and> st_stop st = STOP_SET"

definition stale_run :: "stream \<Rightarrow> stream_state_e \<Rightarrow> bool" where
  "stale_run st y \<longleftrightarrow> st_state st = STREAM_STATE_ERROR \<and> y = STREAM_RUNNING \<and> st_thread st = MAIN_RUN"

lemma callback_body_stale:
  "st_state (callback_body cb x st) \<noteq> st_state st \<Longrightarrow> st_state st = STREAM_DONE \<Longrightarrow> x \<noteq> STREAM_DONE"
  by (cases cb; cases x) (auto simp: callback_body_def callback_complete_body_def callback_error_body_def)

lemma stream_step_states:
  assumes "stream_step S depth c c'" and "stream_inv (fst c)"
  shows "let st = fst c; y = st_state (fst c') in
    y = st_state st \<or> forward (st_state st) y \<or> stale_callback st y \<or> stale_stop st y \<or> stale_run st y"
  using assms
proof (induction rule: stream_step.induct)
  case (by_main st st' w)
  then show ?case using main_step_state(2) [OF by_main(1)] inv_state [of st]
    by (cases "st_thread st") (auto simp: Let_def stale_run_def)
next
  case (by_stop st st' w)
  then show ?case using inv_state [of st] inv_stop [of st]
    by (cases "st_state st"; cases "st_thread st"; auto simp: Let_def stop_step_def stale_stop_def split: stop_pc.splits)
next
  case (by_segment i st w g st' w')
  have ok: "seg_ok st (st_segments st ! i)" using inv_seg by_segment by simp
  show ?case
  proof (cases "seg_thread (st_segments st ! i)")
    case (SEG_STORE cb x stop pc)
    then have "callback_ok (late st) cb x (st_state st)" using ok by (simp add: seg_ok_def)
    note states = callback_body_state [OF this refl]
    have st': "st_state st' = st_state (callback_body cb x st)" using by_segment(2) SEG_STORE by (auto simp: segment_step_def)
    have "stale_callback st (st_state st')" if "st_state st = STREAM_DONE" "st_state st' \<noteq> st_state st"
      using that states callback_body_stale [of cb x st] SEG_STORE nth_mem [OF by_segment(1)] unfolding stale_callback_def st'
      by (intro conjI bexI [of _ "st_segments st ! i"]) auto
    then show ?thesis using states unfolding st' by (cases "st_state st = STREAM_DONE") (auto simp: Let_def st')
  next
    case (SEG_CALLBACK ev stop pc)
    then show ?thesis using by_segment(2) by (auto simp: Let_def segment_step_def split: option.splits if_splits)
  qed (use by_segment(2) ok in \<open>auto simp: Let_def seg_ok_def dest!: segment_step_quiet\<close>)
qed simp_all

text \<open>C5. Whatever way the threads interleave, every change of a stream's state is a step forward in the order
  \<open>INIT\<close>, \<open>READY\<close>, \<open>RUNNING\<close>, then \<open>FINISHING\<close>, \<open>DONE\<close> or error, then \<open>STOPPED\<close>, or one of three stores that overwrite a change made by
  another thread: a callback that had read another state replaces \<open>DONE\<close> by \<open>FINISHING\<close> or error, a caller of
  stop that is past its test replaces an error or \<open>STOPPED\<close> by \<open>DONE\<close>, and the main thread, after it has started the segments, replaces an error by \<open>RUNNING\<close>.\<close>

theorem stream_state_order:
  assumes "fresh_stream st0" and "stream_steps S depth (st0, w0) (st, w)" and "stream_step S depth (st, w) (st', w')"
  shows "st_state st' = st_state st \<or> forward (st_state st) (st_state st') \<or>
    stale_callback st (st_state st') \<or> stale_stop st (st_state st') \<or> stale_run st (st_state st')"
  using stream_step_states [OF assms(3)] reachable_inv [OF assms(2,1)] by (simp add: Let_def)

theorem stream_state_order_witness:
  "let st' = (set_state STREAM_READY demo_stream)\<lparr>st_thread := MAIN_START 0\<rparr> in
   stream_step demo_sys 1 (demo_stream, null_world) (st', null_world) \<and> forward (st_state demo_stream) (st_state st')"
proof -
  let ?st' = "(set_state STREAM_READY demo_stream)\<lparr>st_thread := MAIN_START 0\<rparr>"
  have step: "stream_step demo_sys 1 (demo_stream, null_world) (?st', null_world)"
    by (rule by_main) (simp add: main_step_def demo_stream_def)
  from stream_state_order [OF demo_stream_fresh steps_none step]
  show ?thesis using step by (auto simp: demo_stream_def stale_callback_def stale_stop_def stale_run_def)
qed

section \<open>Joining\<close>

text \<open>C4. When the thread of a stream has ended, so have the threads of all its segments, no callback is
  running, and the stream's state is \<open>STOPPED\<close>, or \<open>DONE\<close> if a stop came late.\<close>

theorem stream_joins_segments:
  assumes "fresh_stream st0" and "stream_steps S depth (st0, w0) (st, w)" and "st_thread st = MAIN_EXIT"
  shows "(\<forall>g \<in> set (st_segments st). seg_thread g = SEG_EXIT) \<and> st_state st \<in> {STREAM_STOPPED, STREAM_DONE}"
proof -
  have inv: "stream_inv st" using reachable_inv [OF assms(2,1)] by simp
  show ?thesis using inv_state [OF inv] inv_main [OF inv] assms(3) by (auto simp: in_set_conv_nth)
qed

theorem stream_joins_segments_witness:
  "\<exists>st w. stream_steps demo_sys 1 (demo_stream, null_world) (st, w) \<and> st_thread st = MAIN_EXIT \<and>
     (\<forall>g \<in> set (st_segments st). seg_thread g = SEG_EXIT) \<and> st_state st \<in> {STREAM_STOPPED, STREAM_DONE}"
  using run_turns_view [OF error_run_view] stream_joins_segments [OF demo_stream_fresh]
  by (fastforce simp: view_def)

text \<open>C8. Callbacks of different segments exclude each other: at most one segment is between reading
  the stream's state and storing the new one, and it holds the stream's lock.\<close>

theorem stream_callbacks_exclusive:
  assumes "fresh_stream st0" and "stream_steps S depth (st0, w0) (st, w)"
    and "i < length (st_segments st)" and "in_callback (seg_thread (st_segments st ! i))"
  shows "st_lock st \<and> (\<forall>j < length (st_segments st). in_callback (seg_thread (st_segments st ! j)) \<longrightarrow> j = i)"
proof -
  have inv: "stream_inv st" using reachable_inv [OF assms(2,1)] by simp
  show ?thesis using inv_lock [OF inv assms(3,4)] inv_one [OF inv _ assms(3) _ assms(4)] by auto
qed


text \<open>The schedule up to the callback of the segment.\<close>

lemma callback_run_view:
  "map_option view (run_turns demo_sys 1 (take 8 error_run) (demo_stream, null_world)) =
     Some (MAIN_WAIT, STREAM_RUNNING, STREAM_SUCCESS, [SEG_STORE (CALLBACK_ERROR 1) STREAM_RUNNING True SEG_TOP])"
  by (simp add: null_world_def new_null_machine_def get_null_machine_def create_null_def setup_defs
     error_run_def view_def demo_stream_def demo_segment_def thread_defs)

theorem stream_callbacks_exclusive_witness:
  "\<exists>st w. stream_steps demo_sys 1 (demo_stream, null_world) (st, w) \<and> in_callback (seg_thread (st_segments st ! 0)) \<and> st_lock st"
proof -
  obtain st w where s: "stream_steps demo_sys 1 (demo_stream, null_world) (st, w)"
    and v: "map seg_thread (st_segments st) = [SEG_STORE (CALLBACK_ERROR 1) STREAM_RUNNING True SEG_TOP]"
    using run_turns_view [OF callback_run_view] by (auto simp: view_def)
  then have "0 < length (st_segments st)" "in_callback (seg_thread (st_segments st ! 0))" by auto
  from stream_callbacks_exclusive [OF demo_stream_fresh s this] this s show ?thesis by blast
qed

section \<open>Errors\<close>

definition failed :: "stream \<Rightarrow> bool" where
  "failed st \<longleftrightarrow> st_status st \<in> {STREAM_ERROR, STREAM_ERROR_STOP_FAILURE}"

lemma stream_step_failed:
  assumes "stream_step S depth c c'" and "stream_inv (fst c)"
  shows "(failed (fst c) \<longrightarrow> failed (fst c')) \<and>
    (st_state (fst c') = STREAM_STATE_ERROR \<longrightarrow> st_state (fst c) = STREAM_STATE_ERROR \<or> failed (fst c'))"
  using assms
proof (induction rule: stream_step.induct)
  case (by_main st st' w)
  then show ?case using main_step_frame(4) [OF by_main(1)] main_step_state(2) [OF by_main(1)] inv_state [of st]
    by (auto simp: failed_def)
next
  case (by_stop st st' w)
  then show ?case
    by (cases "st_state st"; auto simp: stop_step_def failed_def split: stop_pc.splits)
next
  case (by_segment i st w g st' w')
  have ok: "seg_ok st (st_segments st ! i)" using inv_seg by_segment by simp
  show ?case
  proof (cases "seg_thread (st_segments st ! i)")
    case (SEG_STORE cb x stop pc)
    then show ?thesis using by_segment(2)
      by (cases cb; cases x) (auto simp: segment_step_def callback_body_def callback_complete_body_def callback_error_body_def failed_def)
  next
    case (SEG_CALLBACK ev stop pc)
    then show ?thesis using by_segment(2) by (auto simp: segment_step_def failed_def split: option.splits if_splits)
  qed (use by_segment(2) ok in \<open>auto simp: seg_ok_def failed_def dest!: segment_step_quiet\<close>)
qed simp_all

lemma stream_steps_failed:
  "stream_steps S depth c c' \<Longrightarrow> stream_inv (fst c) \<Longrightarrow> failed (fst c) \<Longrightarrow> failed (fst c')"
  by (induction rule: stream_steps.induct) (auto dest: stream_step_failed stream_steps_inv)

lemma error_state_failed:
  "stream_steps S depth c c' \<Longrightarrow> stream_inv (fst c) \<Longrightarrow> st_state (fst c) \<noteq> STREAM_STATE_ERROR \<Longrightarrow>
     st_state (fst c') = STREAM_STATE_ERROR \<Longrightarrow> failed (fst c')"
  by (induction rule: stream_steps.induct) (auto dest: stream_step_failed stream_steps_inv)

text \<open>C7. An error is not forgotten: if a stream was in the error state at some moment, then from that moment
  on its status, which \<open>join_stream\<close> returns, says so, even if the state itself is overwritten.\<close>

theorem stream_error_reported:
  assumes "fresh_stream st0" and "stream_steps S depth (st0, w0) (st1, w1)" and "st_state st1 = STREAM_STATE_ERROR"
    and "stream_steps S depth (st1, w1) (st2, w2)"
  shows "st_status st2 \<in> {STREAM_ERROR, STREAM_ERROR_STOP_FAILURE}"
proof -
  have "failed st1"
    using error_state_failed [OF assms(2)] fresh_stream_inv [OF assms(1)] assms(1,3) by (auto simp: fresh_stream_def)
  then have "failed st2" using stream_steps_failed [OF assms(4)] reachable_inv [OF assms(2,1)] by simp
  then show ?thesis by (simp add: failed_def)
qed

lemma error_state_view:
  "map_option view (run_turns demo_sys 1 (take 9 error_run) (demo_stream, null_world)) =
     Some (MAIN_WAIT, STREAM_STATE_ERROR, STREAM_ERROR, [SEG_STOP SEG_TOP])"
  by (simp add: null_world_def new_null_machine_def get_null_machine_def create_null_def setup_defs
     error_run_def view_def demo_stream_def demo_segment_def thread_defs)

theorem stream_error_reported_witness:
  "\<exists>st w. stream_steps demo_sys 1 (demo_stream, null_world) (st, w) \<and> st_state st = STREAM_STATE_ERROR \<and>
     st_status st \<in> {STREAM_ERROR, STREAM_ERROR_STOP_FAILURE}"
proof -
  obtain st w where s: "stream_steps demo_sys 1 (demo_stream, null_world) (st, w)" and e: "st_state st = STREAM_STATE_ERROR"
    using run_turns_view [OF error_state_view] by (auto simp: view_def)
  from stream_error_reported [OF demo_stream_fresh s e steps_none] s e show ?thesis by blast
qed

text \<open>C39. The signal itself can be lost. If the segment of a stream finds no memory for its buffer before the
  main thread has set the stream running, the main thread overwrites the error state, and the segment
  goes on to read into a NULL buffer.\<close>

theorem stream_error_overwritten:
  assumes "fresh_stream st" and "st_thread st = MAIN_BEGIN" and "st_segments st = [g]" and "seg_fn g = SEGMENT_RUN"
    and "segment_buflen (segment_start g) w = Some n" and "palloc (s_mem S) (w_heap w) (create_pool S (w_heap w)) n = None"
  shows "\<exists>st'. stream_steps S depth (st, w) (st', w) \<and> st_state st' = STREAM_RUNNING \<and> st_status st' = STREAM_ERROR \<and>
    seg_thread (st_segments st' ! 0) = SEG_READ \<and> seg_buf (st_segments st' ! 0) = 0"
proof -
  let ?ts = "[TURN_MAIN, TURN_MAIN, TURN_SEGMENT 0, TURN_SEGMENT 0, TURN_SEGMENT 0, TURN_MAIN, TURN_MAIN, TURN_SEGMENT 0]"
  have "\<exists>st'. run_turns S depth ?ts (st, w) = Some (st', w) \<and> st_state st' = STREAM_RUNNING \<and> st_status st' = STREAM_ERROR \<and>
    seg_thread (st_segments st' ! 0) = SEG_READ \<and> seg_buf (st_segments st' ! 0) = 0"
    using assms
    by (simp add: fresh_stream_def registered_def take_turn_def main_step_def segment_step_def segment_begin_def Let_def
        event_callback_def segment_top_def after_callback_def callback_body_def callback_error_body_def put_segment_def
        segment_start_def STREAM_IS_RUNNING_iff set_state_def less_stream_state_e_def)
  then show ?thesis using run_turns_steps by blast
qed


lemma poor_buffer:
  "segment_buflen (segment_start demo_segment) null_world = Some 100"
  "palloc (s_mem poor_sys) hp p 100 = None"
  by (simp_all add: null_world_def new_null_machine_def get_null_machine_def create_null_def setup_defs
     demo_segment_def thread_defs)

theorem stream_error_overwritten_witness:
  "\<exists>st'. stream_steps poor_sys 1 (demo_stream, null_world) (st', null_world) \<and> st_state st' = STREAM_RUNNING \<and>
     seg_thread (st_segments st' ! 0) = SEG_READ \<and> seg_buf (st_segments st' ! 0) = 0"
  using stream_error_overwritten [OF demo_stream_fresh _ _ _ poor_buffer(1,2)]
  by (fastforce simp: demo_stream_def demo_segment_def)

section \<open>Shutting down\<close>















section \<open>A destination that was disabled\<close>

text \<open>A segment whose destination was disabled never comes back from writing: every round of
  \<open>write_to_dest\<close> writes nothing and changes nothing, whatever the state of the stream, so a stop has no effect
  on this segment, and the stream's thread waits for it for ever.\<close>

lemma segment_write_spins:
  assumes "i < length (st_segments st)" and "seg_thread (st_segments st ! i) = SEG_WRITE second src remaining ptr wr"
    and "0 < remaining" and "remaining < sz_max" and "wr < sz_max"
    and "machine_get_desc (if second then seg_out1 (st_segments st ! i) else seg_out (st_segments st ! i)) w = Some d"
    and "md_io_write d = Some io" and "io_obj io \<noteq> 0" and "io_state io = IO_DESC_DISABLED"
  shows "run_turns S depth (replicate k (TURN_SEGMENT i)) (st, w) = Some (st, w)"
proof -
  let ?g = "st_segments st ! i"
  have same: "?g\<lparr>seg_thread := SEG_WRITE second src remaining ptr wr\<rparr> = ?g" by (simp flip: assms(2))
  have "segment_step S (call_filter S depth) ?g st w = Some (?g, st, w)"
    using assms by (simp add: segment_step_def segment_write_def machine_desc_write_def same)
  then have "take_turn S depth (TURN_SEGMENT i) (st, w) = Some (st, w)"
    using assms(1) by (simp add: take_turn_def put_segment_def)
  then show ?thesis by (induction k) auto
qed

end
