(* ===== verification/Byte_Source.thy ===== *)
theory Byte_Source
  imports BW_Prelude
begin

text \<open>
  The contracts of one-way transfers: a sink takes bytes one after the other; a source gives bytes one after
  the other and then reports the end. Files are both, a stopped ring buffer is a source.
\<close>

section \<open>Sinks\<close>

fun put_all :: "(byte list \<Rightarrow> 's \<Rightarrow> 's option) \<Rightarrow> byte list list \<Rightarrow> 's \<Rightarrow> 's option" where
  "put_all put [] s = Some s"
| "put_all put (xs # xss) s = do { s' \<leftarrow> put xs s; put_all put xss s' }"

locale byte_sink =
  fixes rel :: "'s \<Rightarrow> byte list \<Rightarrow> bool"
    and cap :: nat
    and put :: "byte list \<Rightarrow> 's \<Rightarrow> 's option"
  assumes put_ok: "rel s c \<Longrightarrow> xs \<noteq> [] \<Longrightarrow> length xs \<le> cap \<Longrightarrow> \<exists>s'. put xs s = Some s' \<and> rel s' (c @ xs)"
begin

lemma put_all_ok:
  "rel s c \<Longrightarrow> \<forall>xs \<in> set xss. xs \<noteq> [] \<and> length xs \<le> cap \<Longrightarrow> \<exists>s'. put_all put xss s = Some s' \<and> rel s' (c @ concat xss)"
proof (induction xss arbitrary: s c)
  case (Cons xs xss)
  then obtain s1 where "put xs s = Some s1" "rel s1 (c @ xs)" using put_ok [of s c xs] by auto
  with Cons.IH [of s1 "c @ xs"] Cons.prems(2) show ?case by auto
qed simp

end

section \<open>Sources\<close>

text \<open>Read pieces of \<open>n\<close> bytes until the end is reported, at most \<open>fuel\<close> times.\<close>

fun drain :: "(nat \<Rightarrow> 's \<Rightarrow> (io_status \<times> byte list \<times> 's) option) \<Rightarrow> nat \<Rightarrow> nat \<Rightarrow> 's \<Rightarrow> (byte list \<times> 's) option" where
  "drain fetch n 0 s = None"
| "drain fetch n (Suc fuel) s = do {
     (st, xs, s1) \<leftarrow> fetch n s;
     if st = IO_COMPLETE then Some (xs, s1)
     else do { (ys, s2) \<leftarrow> drain fetch n fuel s1; Some (xs @ ys, s2) }
   }"

locale byte_source =
  fixes rel :: "'s \<Rightarrow> byte list \<Rightarrow> bool"
    and fin :: "'s \<Rightarrow> bool"
    and cap :: nat
    and fetch :: "nat \<Rightarrow> 's \<Rightarrow> (io_status \<times> byte list \<times> 's) option"
  assumes fetch_ok: "rel s q \<Longrightarrow> 0 < n \<Longrightarrow> n \<le> cap \<Longrightarrow> \<exists>st s'. fetch n s = Some (st, take n q, s') \<and>
      (if st = IO_COMPLETE then drop n q = [] \<and> fin s' else q \<noteq> [] \<and> rel s' (drop n q))"
begin

lemma drain_all: "rel s q \<Longrightarrow> 0 < n \<Longrightarrow> n \<le> cap \<Longrightarrow> length q < fuel \<Longrightarrow> \<exists>s'. drain fetch n fuel s = Some (q, s') \<and> fin s'"
proof (induction fuel arbitrary: s q)
  case (Suc fuel)
  from fetch_ok [OF Suc.prems(1-3)] obtain st s1 where r: "fetch n s = Some (st, take n q, s1)"
    "if st = IO_COMPLETE then drop n q = [] \<and> fin s1 else q \<noteq> [] \<and> rel s1 (drop n q)" by blast
  show ?case
  proof (cases "st = IO_COMPLETE")
    case True
    then show ?thesis using r by simp
  next
    case False
    then have "length (drop n q) < fuel" using r(2) Suc.prems(2,4) by (cases q) auto
    with Suc.IH [of s1 "drop n q"] r(2) False Suc.prems(2,3) obtain s2 where "drain fetch n fuel s1 = Some (drop n q, s2)" "fin s2"
      by auto
    then show ?thesis using r False by simp
  qed
qed simp

end

end
