(* ===== verification/Registry.thy ===== *)
theory Registry
  imports Streams
begin

text \<open>
  The contract of a table of objects with handles, as machines and streams have it, and what
  follows for a client as long as handles last: handles are not reused, and nothing disturbs an entry but its
  destruction. Also how descriptors are found after a change.
\<close>

section \<open>Tables\<close>

text \<open>\<open>spare\<close> is a number of handles that are left for sure.\<close>

locale registry =
  fixes ok :: "'s \<Rightarrow> bool"
    and used :: "'s \<Rightarrow> 'h set"
    and lookup :: "'h \<Rightarrow> 's \<Rightarrow> 'e option"
    and create :: "'a \<Rightarrow> 's \<Rightarrow> ('h \<times> 's) option"
    and spare :: "'s \<Rightarrow> nat"
  assumes create_ok: "ok s \<Longrightarrow> 0 < spare s \<Longrightarrow> create a s = Some (h, s') \<Longrightarrow> ok s'"
    and create_fresh: "ok s \<Longrightarrow> 0 < spare s \<Longrightarrow> create a s = Some (h, s') \<Longrightarrow> h \<notin> used s"
    and create_used: "ok s \<Longrightarrow> 0 < spare s \<Longrightarrow> create a s = Some (h, s') \<Longrightarrow> used s' = insert h (used s)"
    and create_found: "ok s \<Longrightarrow> 0 < spare s \<Longrightarrow> create a s = Some (h, s') \<Longrightarrow> lookup h s' \<noteq> None"
    and create_other: "ok s \<Longrightarrow> 0 < spare s \<Longrightarrow> create a s = Some (h, s') \<Longrightarrow> k \<noteq> h \<Longrightarrow> lookup k s' = lookup k s"
    and create_spare: "ok s \<Longrightarrow> 0 < spare s \<Longrightarrow> create a s = Some (h, s') \<Longrightarrow> spare s \<le> Suc (spare s')"
    and lookup_used: "ok s \<Longrightarrow> lookup h s \<noteq> None \<Longrightarrow> h \<in> used s"
begin

lemma create_new: "ok s \<Longrightarrow> 0 < spare s \<Longrightarrow> create a s = Some (h, s') \<Longrightarrow> lookup h s = None"
  using create_fresh lookup_used by blast

end

text \<open>Creations and destructions; the result is the list of the handles created.\<close>

datatype ('a, 'h) registry_op = Create 'a | Destroy 'h

fun registry_run :: "('a \<Rightarrow> 's \<Rightarrow> ('h \<times> 's) option) \<Rightarrow> ('h \<Rightarrow> 's \<Rightarrow> 's option) \<Rightarrow> ('a, 'h) registry_op list \<Rightarrow> 's
    \<Rightarrow> ('h list \<times> 's) option" where
  "registry_run create destroy [] s = Some ([], s)"
| "registry_run create destroy (Create a # ops) s = do {
     (h, s1) \<leftarrow> create a s; (hs, s2) \<leftarrow> registry_run create destroy ops s1; Some (h # hs, s2) }"
| "registry_run create destroy (Destroy h # ops) s = do { s1 \<leftarrow> destroy h s; registry_run create destroy ops s1 }"

fun creations :: "('a, 'h) registry_op list \<Rightarrow> nat" where
  "creations [] = 0"
| "creations (Create a # ops) = Suc (creations ops)"
| "creations (Destroy h # ops) = creations ops"

locale registry_destroy = registry ok used lookup create spare
  for ok :: "'s \<Rightarrow> bool" and used :: "'s \<Rightarrow> 'h set" and lookup :: "'h \<Rightarrow> 's \<Rightarrow> 'e option"
    and create :: "'a \<Rightarrow> 's \<Rightarrow> ('h \<times> 's) option" and spare :: "'s \<Rightarrow> nat" +
  fixes destroy :: "'h \<Rightarrow> 's \<Rightarrow> 's option"
  assumes destroy_ok: "ok s \<Longrightarrow> destroy h s = Some s' \<Longrightarrow> ok s'"
    and destroy_used: "ok s \<Longrightarrow> destroy h s = Some s' \<Longrightarrow> used s' = used s"
    and destroy_spare: "ok s \<Longrightarrow> destroy h s = Some s' \<Longrightarrow> spare s' = spare s"
    and destroy_gone: "ok s \<Longrightarrow> destroy h s = Some s' \<Longrightarrow> lookup h s' = None"
    and destroy_other: "ok s \<Longrightarrow> destroy h s = Some s' \<Longrightarrow> k \<noteq> h \<Longrightarrow> lookup k s' = lookup k s"
begin

lemma run_handles:
  "ok s \<Longrightarrow> creations ops \<le> spare s \<Longrightarrow> registry_run create destroy ops s = Some (hs, s') \<Longrightarrow>
     ok s' \<and> distinct hs \<and> set hs \<inter> used s = {} \<and> used s' = used s \<union> set hs"
proof (induction ops arbitrary: s hs)
  case (Cons op ops)
  note ok = Cons.prems(1)
  show ?case
  proof (cases op)
    case (Create a)
    then have sp: "0 < spare s" using Cons.prems(2) by simp
    from Create Cons.prems(3) obtain h s1 hs1 where c: "create a s = Some (h, s1)"
      "registry_run create destroy ops s1 = Some (hs1, s')" "hs = h # hs1"
      by (auto simp: bind_eq_Some_conv)
    have "creations ops \<le> spare s1" using create_spare [OF ok sp c(1)] Cons.prems(2) Create by simp
    from Cons.IH [OF create_ok [OF ok sp c(1)] this c(2)] show ?thesis
      using create_used [OF ok sp c(1)] create_fresh [OF ok sp c(1)] c(3) by auto
  next
    case (Destroy h)
    with Cons.prems(3) obtain s1 where d: "destroy h s = Some s1" "registry_run create destroy ops s1 = Some (hs, s')"
      by (auto simp: bind_eq_Some_conv)
    have "creations ops \<le> spare s1" using destroy_spare [OF ok d(1)] Cons.prems(2) Destroy by simp
    from Cons.IH [OF destroy_ok [OF ok d(1)] this d(2)] show ?thesis
      using destroy_used [OF ok d(1)] by simp
  qed
qed simp

lemma run_keeps:
  "ok s \<Longrightarrow> creations ops \<le> spare s \<Longrightarrow> registry_run create destroy ops s = Some (hs, s') \<Longrightarrow> h \<in> used s \<Longrightarrow>
     lookup h s' = (if Destroy h \<in> set ops then None else lookup h s)"
proof (induction ops arbitrary: s hs)
  case (Cons op ops)
  note ok = Cons.prems(1)
  show ?case
  proof (cases op)
    case (Create a)
    then have sp: "0 < spare s" using Cons.prems(2) by simp
    from Create Cons.prems(3) obtain k s1 hs1 where c: "create a s = Some (k, s1)"
      "registry_run create destroy ops s1 = Some (hs1, s')" by (auto simp: bind_eq_Some_conv)
    have "h \<noteq> k" using create_fresh [OF ok sp c(1)] Cons.prems(4) by auto
    then have "lookup h s1 = lookup h s" using create_other [OF ok sp c(1)] by simp
    moreover have "creations ops \<le> spare s1" using create_spare [OF ok sp c(1)] Cons.prems(2) Create by simp
    ultimately show ?thesis
      using Cons.IH [OF create_ok [OF ok sp c(1)] _ c(2)] create_used [OF ok sp c(1)] Cons.prems(4) Create
      by simp
  next
    case (Destroy k)
    with Cons.prems(3) obtain s1 where d: "destroy k s = Some s1" "registry_run create destroy ops s1 = Some (hs, s')"
      by (auto simp: bind_eq_Some_conv)
    have "lookup h s1 = (if h = k then None else lookup h s)"
      using destroy_gone [OF ok d(1)] destroy_other [OF ok d(1)] by auto
    moreover have "creations ops \<le> spare s1" using destroy_spare [OF ok d(1)] Cons.prems(2) Destroy by simp
    ultimately show ?thesis
      using Cons.IH [OF destroy_ok [OF ok d(1)] _ d(2)] destroy_used [OF ok d(1)] Cons.prems(4) Destroy
      by auto
  qed
qed simp

end

section \<open>Machines\<close>

text \<open>Handles that were given out, and the state of the tables in regular use: every descriptor has a handle
  of its own that was given out, and the counter has not left the positive integers.\<close>

definition used_handles :: "world \<Rightarrow> io_handle set" where
  "used_handles w = fst ` set (w_handle_map w)"

definition handles_ok :: "world \<Rightarrow> bool" where
  "handles_ok w \<longleftrightarrow> distinct (map md_handle (w_descs w)) \<and> md_handle ` set (w_descs w) \<subseteq> used_handles w \<and>
     used_handles w \<subseteq> {1..int (w_handle_counter w)} \<and> w_handle_counter w < 2 ^ 31"

text \<open>The handles that are left before the counter leaves the positive integers.\<close>

definition spare_handles :: "world \<Rightarrow> nat" where
  "spare_handles w = 2 ^ 31 - 1 - w_handle_counter w"

lemma to_int32_small: "n < 2 ^ 31 \<Longrightarrow> to_int32 n = int n"
  by (simp add: to_int32_def)

lemma request_handle_spec:
  assumes "request_handle S m w = Some (h, w')" and "w_handle_counter w + 1 < 2 ^ 31"
  shows "h = int (w_handle_counter w) + 1" "w_handle_counter w' = w_handle_counter w + 1"
    "w_handle_map w' = w_handle_map w @ [(h, m)]" "w_descs w' = w_descs w" "w_filters w' = w_filters w"
    "w_machines w' = w_machines w"
proof -
  have small: "sz_add (w_handle_counter w) 1 = w_handle_counter w + 1"
    using assms(2) by (intro sz_add_exact) (simp add: sz_max_def)
  have int: "to_int32 (w_handle_counter w + 1) = int (w_handle_counter w + 1)"
    using assms(2) by (rule to_int32_small)
  show "h = int (w_handle_counter w) + 1" "w_handle_counter w' = w_handle_counter w + 1"
    "w_handle_map w' = w_handle_map w @ [(h, m)]" "w_descs w' = w_descs w" "w_filters w' = w_filters w"
    "w_machines w' = w_machines w"
    using assms(1) small int
    by (auto simp: request_handle_def bind_eq_Some_conv Let_def add_live_def split: if_splits prod.splits)
qed

lemma set_filter_handle_frame:
  "set_filter_handle io h w = Some w' \<Longrightarrow> w_descs w' = w_descs w \<and> w_handle_map w' = w_handle_map w \<and>
     w_handle_counter w' = w_handle_counter w \<and> w_machines w' = w_machines w"
  by (auto simp: set_filter_handle_def upd_filter_def bind_eq_Some_conv split: option.splits)

lemma machine_register_desc_spec:
  assumes r: "machine_register_desc S d w = Some (h, w')" and c: "w_handle_counter w + 1 < 2 ^ 31"
  shows "h = int (w_handle_counter w) + 1" "w_descs w' = w_descs w @ [d\<lparr>md_handle := h\<rparr>]"
    "w_handle_map w' = w_handle_map w @ [(h, md_machine d)]" "w_handle_counter w' = w_handle_counter w + 1"
proof -
  from r obtain k w1 where q: "request_handle S (md_machine d) w = Some (k, w1)"
    by (auto simp: machine_register_desc_def bind_eq_Some_conv)
  note spec = request_handle_spec [OF q c]
  have "k \<noteq> 0" using spec(1) by simp
  with r q obtain w2 w3 where f: "set_filter_handle (md_io_read d) k w1 = Some w2"
    "set_filter_handle (md_io_write d) k w2 = Some w3" and k: "h = k" "w' = w3\<lparr>w_descs := w_descs w3 @ [d\<lparr>md_handle := k\<rparr>]\<rparr>"
    by (auto simp: machine_register_desc_def bind_eq_Some_conv)
  show "h = int (w_handle_counter w) + 1" "w_descs w' = w_descs w @ [d\<lparr>md_handle := h\<rparr>]"
    "w_handle_map w' = w_handle_map w @ [(h, md_machine d)]" "w_handle_counter w' = w_handle_counter w + 1"
    using spec k set_filter_handle_frame [OF f(1)] set_filter_handle_frame [OF f(2)] c by auto
qed

lemma find_append_handle:
  "find (\<lambda>d. md_handle d = k) (ds @ [d]) = (case find (\<lambda>d. md_handle d = k) ds of
     Some x \<Rightarrow> Some x | None \<Rightarrow> if md_handle d = k then Some d else None)"
  by (induction ds) auto

lemma find_handle_None: "find (\<lambda>d. md_handle d = k) ds = None \<longleftrightarrow> k \<notin> md_handle ` set ds"
  by (induction ds) auto

lemma find_remove_first:
  "distinct (map md_handle ds) \<Longrightarrow> find (\<lambda>d. md_handle d = k) (remove_first h ds) =
     (if k = h then None else find (\<lambda>d. md_handle d = k) ds)"
  by (induction ds) (auto simp: find_handle_None)

lemma remove_first_set: "set (remove_first h ds) \<subseteq> set ds"
  by (induction ds) auto

lemma remove_first_distinct: "distinct (map md_handle ds) \<Longrightarrow> distinct (map md_handle (remove_first h ds))"
  by (induction ds) (auto dest: remove_first_set [THEN subsetD])

lemma machine_destroy_desc_spec:
  assumes "machine_destroy_desc S h w = Some w'"
  shows "w_handle_map w' = w_handle_map w" "w_handle_counter w' = w_handle_counter w"
    "w_descs w' = (if machine_get_desc h w = None then w_descs w else remove_first h (w_descs w))"
  using assms by (auto simp: machine_destroy_desc_def split: option.splits if_splits)

interpretation machines: registry_destroy handles_ok used_handles machine_get_desc "machine_register_desc S"
  spare_handles "machine_destroy_desc S" for S
proof unfold_locales
  fix s s' :: world and d :: machine_desc and h k :: io_handle
  assume ok: "handles_ok s"
  {
    assume c: "machine_register_desc S d s = Some (h, s')" and "0 < spare_handles s"
    then have small: "w_handle_counter s + 1 < 2 ^ 31" by (simp add: spare_handles_def)
    note spec = machine_register_desc_spec [OF c small]
    have new: "h \<notin> used_handles s" using ok spec(1) by (auto simp: handles_ok_def)
    then show "h \<notin> used_handles s" .
    show used: "used_handles s' = insert h (used_handles s)" using spec(3) by (auto simp: used_handles_def)
    show "handles_ok s'" using ok spec new used small by (auto simp: handles_ok_def)
    show "spare_handles s \<le> Suc (spare_handles s')" using spec(4) by (simp add: spare_handles_def)
    show "machine_get_desc h s' \<noteq> None" using spec(2) by (simp add: machine_get_desc_def find_handle_None)
    show "machine_get_desc k s' = machine_get_desc k s" if "k \<noteq> h"
      using spec(2) that by (simp add: machine_get_desc_def find_append_handle split: option.splits)
  }
  show "h \<in> used_handles s" if "machine_get_desc h s \<noteq> None"
    using ok that by (auto simp: handles_ok_def machine_get_desc_def find_handle_None)
  {
    assume c: "machine_destroy_desc S h s = Some s'"
    note spec = machine_destroy_desc_spec [OF c]
    show "spare_handles s' = spare_handles s" using spec(2) by (simp add: spare_handles_def)
    show used: "used_handles s' = used_handles s" using spec(1) by (simp add: used_handles_def)
    show "handles_ok s'" using ok spec used remove_first_set [of h "w_descs s"] remove_first_distinct [of "w_descs s" h]
      by (auto simp: handles_ok_def)
    show "machine_get_desc h s' = None"
      using ok spec(3) by (auto simp: machine_get_desc_def find_remove_first handles_ok_def)
    show "machine_get_desc k s' = machine_get_desc k s" if "k \<noteq> h"
      using ok spec(3) that by (auto simp: machine_get_desc_def find_remove_first handles_ok_def)
  }
qed

section \<open>Streams\<close>

definition used_streams :: "app \<Rightarrow> io_stream set" where
  "used_streams a = {1..int (a_stream_counter a)}"

definition streams_ok :: "app \<Rightarrow> bool" where
  "streams_ok a \<longleftrightarrow> distinct (map st_id (a_streams a)) \<and> st_id ` set (a_streams a) \<subseteq> used_streams a"

lemma find_append_id:
  "find (\<lambda>s. st_id s = k) (ss @ [s]) = (case find (\<lambda>s. st_id s = k) ss of
     Some x \<Rightarrow> Some x | None \<Rightarrow> if st_id s = k then Some s else None)"
  by (induction ss) auto

lemma find_id_None: "find (\<lambda>s. st_id s = k) ss = None \<longleftrightarrow> k \<notin> st_id ` set ss"
  by (induction ss) auto

lemma new_stream_spec:
  assumes "new_stream S a = Some (h, a')"
  shows "h = int (a_stream_counter a) + 1" "a_stream_counter a' = a_stream_counter a + 1"
    "\<exists>st. a_streams a' = a_streams a @ [st] \<and> st_id st = h \<and> st_thread st = MAIN_IDLE \<and> st_state st = STREAM_INIT
       \<and> st_segments st = [] \<and> st_status st = STREAM_SUCCESS \<and> \<not> st_lock st \<and> st_stop st = STOP_IDLE"
  using assms by (auto simp: new_stream_def bind_eq_Some_conv Let_def split: if_splits)

interpretation stream_table: registry streams_ok used_streams get_stream "\<lambda>u :: unit. new_stream S" "\<lambda>a. 1" for S
proof unfold_locales
  fix s s' :: app and h k :: io_stream and u :: unit
  assume ok: "streams_ok s"
  {
    assume c: "new_stream S s = Some (h, s')"
    note spec = new_stream_spec [OF c]
    then obtain st where st: "a_streams s' = a_streams s @ [st]" "st_id st = h" by blast
    show new: "h \<notin> used_streams s" using spec(1) by (simp add: used_streams_def)
    show used: "used_streams s' = insert h (used_streams s)" using spec(1,2) by (auto simp: used_streams_def)
    show "streams_ok s'" using ok st new used by (auto simp: streams_ok_def)
    show "get_stream h s' \<noteq> None" using st by (simp add: get_stream_def find_id_None)
    show "get_stream k s' = get_stream k s" if "k \<noteq> h"
      using st that by (simp add: get_stream_def find_append_id split: option.splits)
  }
  show "h \<in> used_streams s" if "get_stream h s \<noteq> None"
    using ok that by (auto simp: streams_ok_def get_stream_def find_id_None)
qed simp

end
