(* ===== verification/Machine_Ring.thy ===== *)
theory Machine_Ring
  imports Byte_Source Registry Ring_Fifo
begin

text \<open>
  A ring buffer as a machine: what \<open>machine_desc_write\<close> and \<open>machine_desc_read\<close> do through the
  filters, the counters and the locks is what the ring's own functions do.
\<close>

section \<open>Changing a descriptor\<close>

lemma machine_get_desc_heap [simp]: "machine_get_desc h (w\<lparr>w_heap := hp\<rparr>) = machine_get_desc h w"
  and machine_get_desc_ticks [simp]: "machine_get_desc h (w\<lparr>w_ticks := t\<rparr>) = machine_get_desc h w"
  by (simp_all add: machine_get_desc_def)

lemma get_upd_desc:
  assumes "\<And>d. md_handle (g d) = md_handle d"
  shows "machine_get_desc k (upd_desc h g w) = map_option (if k = h then g else id) (machine_get_desc k w)"
  using find_upd_first [of g k h "w_descs w", OF assms] by (simp add: machine_get_desc_def upd_desc_def)

lemma upd_first_same: "find (\<lambda>d. md_handle d = h) ds = Some D \<Longrightarrow> g D = D \<Longrightarrow> upd_first h g ds = ds"
  by (induction ds) (auto split: if_splits)

lemma upd_first_twice:
  assumes "find (\<lambda>d. md_handle d = h) ds = Some D" and "md_handle (g D) = h" and "md_handle (g' (g D)) = h"
  shows "upd_first h g'' (upd_first h g' (upd_first h g ds)) = upd_first h (\<lambda>_. g'' (g' (g D))) ds"
  using assms by (induction ds) (auto split: if_splits)

lemma upd_first_const: "find (\<lambda>d. md_handle d = h) ds = Some D \<Longrightarrow> upd_first h g ds = upd_first h (\<lambda>_. g D) ds"
  by (induction ds) (auto split: if_splits)

lemma upd_desc_frame [simp]:
  "w_heap (upd_desc h g w) = w_heap w" "w_filters (upd_desc h g w) = w_filters w"
  "w_machines (upd_desc h g w) = w_machines w" "w_handle_map (upd_desc h g w) = w_handle_map w"
  "w_ticks (upd_desc h g w) = w_ticks w"
  by (simp_all add: upd_desc_def)

text \<open>Only the descriptor of \<open>h\<close> and the heap have changed.\<close>

definition desc_step :: "io_handle \<Rightarrow> machine_desc \<Rightarrow> heap \<Rightarrow> world \<Rightarrow> world \<Rightarrow> bool" where
  "desc_step h D hp w w' \<longleftrightarrow> machine_get_desc h w' = Some D \<and> w_heap w' = hp \<and>
     (\<forall>k. k \<noteq> h \<longrightarrow> machine_get_desc k w' = machine_get_desc k w) \<and>
     w_filters w' = w_filters w \<and> w_machines w' = w_machines w \<and> w_handle_map w' = w_handle_map w"

lemma desc_step_refl: "machine_get_desc h w = Some D \<Longrightarrow> desc_step h D (w_heap w) w w"
  by (simp add: desc_step_def)

lemma desc_step_trans: "desc_step h D hp w w' \<Longrightarrow> desc_step h D' hp' w' w'' \<Longrightarrow> desc_step h D' hp' w w''"
  by (simp add: desc_step_def)

lemma desc_step_upd:
  assumes "machine_get_desc h w = Some D" and "\<And>d. md_handle (g d) = md_handle d"
  shows "desc_step h (g D) (w_heap w) w (upd_desc h g w)"
  using assms by (simp add: desc_step_def get_upd_desc [OF assms(2)] option.map_id)

lemma desc_step_heap: "desc_step h D hp w w' \<Longrightarrow> desc_step h D hp' w (w'\<lparr>w_heap := hp'\<rparr>)"
  by (simp add: desc_step_def)

lemma desc_step_ticks: "desc_step h D hp w w' \<Longrightarrow> desc_step h D hp w (w'\<lparr>w_ticks := t\<rparr>)"
  by (simp add: desc_step_def)

lemma desc_step_count_in:
  assumes "machine_get_desc h w = Some D"
  shows "\<exists>ms. desc_step h (D\<lparr>md_metrics := ms\<rparr>) (w_heap w) w (count_in S h st a b w)"
proof (cases "md_metrics D")
  case None
  then have "D\<lparr>md_metrics := None\<rparr> = D" and "count_in S h st a b w = w" using assms by (simp_all add: count_in_def)
  then show ?thesis using desc_step_refl [OF assms] by (intro exI [of _ None]) simp
next
  case (Some ms)
  obtain m t where m: "metrics_fn (gettimeofday S) (w_ticks w) a b (ms_in ms) = (m, t)" by fastforce
  let ?ms = "Some (ms\<lparr>ms_in := if st = IO_COMPLETE then machine_metrics_update m else m\<rparr>)"
  have "count_in S h st a b w = (upd_desc h (md_metrics_update (\<lambda>_. ?ms)) w)\<lparr>w_ticks := t\<rparr>"
    using assms Some m by (simp add: count_in_def Let_def)
  then show ?thesis using desc_step_ticks [OF desc_step_upd [OF assms, of "md_metrics_update (\<lambda>_. ?ms)"]]
    by (intro exI [of _ ?ms]) simp
qed

lemma desc_step_count_out:
  assumes "machine_get_desc h w = Some D"
  shows "\<exists>ms. desc_step h (D\<lparr>md_metrics := ms\<rparr>) (w_heap w) w (count_out S h st a b w)"
proof (cases "md_metrics D")
  case None
  then have "D\<lparr>md_metrics := None\<rparr> = D" and "count_out S h st a b w = w" using assms by (simp_all add: count_out_def)
  then show ?thesis using desc_step_refl [OF assms] by (intro exI [of _ None]) simp
next
  case (Some ms)
  obtain m t where m: "metrics_fn (gettimeofday S) (w_ticks w) a b (ms_out ms) = (m, t)" by fastforce
  let ?ms = "Some (ms\<lparr>ms_out := if st = IO_COMPLETE then machine_metrics_update m else m\<rparr>)"
  have "count_out S h st a b w = (upd_desc h (md_metrics_update (\<lambda>_. ?ms)) w)\<lparr>w_ticks := t\<rparr>"
    using assms Some m by (simp add: count_out_def Let_def)
  then show ?thesis using desc_step_ticks [OF desc_step_upd [OF assms, of "md_metrics_update (\<lambda>_. ?ms)"]]
    by (intro exI [of _ ?ms]) simp
qed


section \<open>Calls through the machine\<close>

text \<open>A filter at the end of a chain that belongs to machine \<open>h\<close>.\<close>

definition end_filter :: "io_filter_fn \<Rightarrow> io_handle \<Rightarrow> addr \<Rightarrow> world \<Rightarrow> bool" where
  "end_filter fn h a w \<longleftrightarrow> a \<noteq> 0 \<and> (\<exists>f. w_filters w a = Some f \<and> f_obj f = OBJ_HANDLE h \<and> f_call f = fn)"

lemma end_filterD:
  "end_filter fn h a w \<Longrightarrow> handle_of a w = Some h"
  "end_filter fn h a w \<Longrightarrow> \<exists>f. get_filter a w = Some f \<and> f_call f = fn"
  by (auto simp: end_filter_def handle_of_def)

lemma end_filter_cong: "w_filters w' = w_filters w \<Longrightarrow> end_filter fn h a w' = end_filter fn h a w"
  by (simp add: end_filter_def)

text \<open>What a machine's write does when the chain answers \<open>st\<close> and \<open>m\<close> and changes the descriptor to \<open>D'\<close>.\<close>

lemma machine_desc_write_call:
  assumes D: "machine_get_desc h w = Some D" "md_io_write D = Some io" "io_obj io \<noteq> 0"
      "io_state io \<in> {IO_DESC_ENABLED, IO_DESC_ERROR}" "\<not> md_lock D"
    and call: "\<And>w1. desc_step h (D\<lparr>md_in_use := md_in_use D + 1\<rparr>) (w_heap w) w w1 \<Longrightarrow> w_ticks w1 = w_ticks w \<Longrightarrow>
       \<exists>w2. call (io_obj io) buf n IO_NO_BLOCK IO_DEFAULT_ALIGN w1 = Some (st, m, w2) \<and>
         desc_step h (D'\<lparr>md_in_use := md_in_use D + 1\<rparr>) hp w1 w2"
    and D': "\<not> md_lock D'" "md_in_use D' = md_in_use D"
  shows "\<exists>w' ms. machine_desc_write S call h buf n w = Some (st, m, w') \<and> desc_step h (D'\<lparr>md_metrics := ms\<rparr>) hp w w'"
proof -
  let ?g = "\<lambda>d. d\<lparr>md_in_use := md_in_use d + 1\<rparr>" and ?r = "\<lambda>d. d\<lparr>md_in_use := md_in_use d - 1\<rparr>"
  let ?w1 = "upd_desc h ?g w"
  have s1: "desc_step h (?g D) (w_heap w) w ?w1" by (rule desc_step_upd [OF D(1)]) simp
  from call [OF s1 upd_desc_frame(5)] obtain w2 where c: "call (io_obj io) buf n IO_NO_BLOCK IO_DEFAULT_ALIGN ?w1 = Some (st, m, w2)"
    and s2: "desc_step h (D'\<lparr>md_in_use := md_in_use D + 1\<rparr>) hp ?w1 w2" by blast
  let ?w3 = "count_in S h st n m w2"
  have g2: "machine_get_desc h w2 = Some (D'\<lparr>md_in_use := md_in_use D + 1\<rparr>)" "w_heap w2 = hp" using s2 by (simp_all add: desc_step_def)
  from desc_step_count_in [OF g2(1), of S st n m] g2(2) obtain ms
    where s3: "desc_step h (D'\<lparr>md_in_use := md_in_use D + 1, md_metrics := ms\<rparr>) hp w2 ?w3" by auto
  then have g3: "machine_get_desc h ?w3 = Some (D'\<lparr>md_in_use := md_in_use D + 1, md_metrics := ms\<rparr>)" "w_heap ?w3 = hp"
    by (simp_all add: desc_step_def)
  have undo: "?r (D'\<lparr>md_in_use := md_in_use D + 1, md_metrics := ms\<rparr>) = D'\<lparr>md_metrics := ms\<rparr>" using D'(2) by simp
  from desc_step_upd [OF g3(1), of ?r] have s4: "desc_step h (D'\<lparr>md_metrics := ms\<rparr>) hp ?w3 (upd_desc h ?r ?w3)"
    using undo g3(2) by simp
  have "machine_desc_write S call h buf n w = Some (st, m, upd_desc h ?r ?w3)"
    using D D'(1) c g3(1)
    by (cases "io_state io") (simp_all add: machine_desc_write_def machine_desc_acquire_def machine_desc_release_def)
  then show ?thesis using desc_step_trans [OF desc_step_trans [OF desc_step_trans [OF s1 s2] s3] s4] by blast
qed

lemma machine_desc_read_call:
  assumes D: "machine_get_desc h w = Some D" "md_io_read D = Some io" "io_obj io \<noteq> 0"
      "io_state io \<in> {IO_DESC_ENABLED, IO_DESC_ERROR}" "\<not> md_lock D"
    and call: "\<And>w1. desc_step h (D\<lparr>md_in_use := md_in_use D + 1\<rparr>) (w_heap w) w w1 \<Longrightarrow> w_ticks w1 = w_ticks w \<Longrightarrow>
       \<exists>w2. call (io_obj io) buf n IO_NO_BLOCK IO_DEFAULT_ALIGN w1 = Some (st, m, w2) \<and>
         desc_step h (D'\<lparr>md_in_use := md_in_use D + 1\<rparr>) hp w1 w2"
    and D': "\<not> md_lock D'" "md_in_use D' = md_in_use D"
  shows "\<exists>w' ms. machine_desc_read S call h buf n w = Some (st, m, w') \<and> desc_step h (D'\<lparr>md_metrics := ms\<rparr>) hp w w'"
proof -
  let ?g = "\<lambda>d. d\<lparr>md_in_use := md_in_use d + 1\<rparr>" and ?r = "\<lambda>d. d\<lparr>md_in_use := md_in_use d - 1\<rparr>"
  let ?w1 = "upd_desc h ?g w"
  have s1: "desc_step h (?g D) (w_heap w) w ?w1" by (rule desc_step_upd [OF D(1)]) simp
  from call [OF s1 upd_desc_frame(5)] obtain w2 where c: "call (io_obj io) buf n IO_NO_BLOCK IO_DEFAULT_ALIGN ?w1 = Some (st, m, w2)"
    and s2: "desc_step h (D'\<lparr>md_in_use := md_in_use D + 1\<rparr>) hp ?w1 w2" by blast
  let ?w3 = "count_out S h st n m w2"
  have g2: "machine_get_desc h w2 = Some (D'\<lparr>md_in_use := md_in_use D + 1\<rparr>)" "w_heap w2 = hp" using s2 by (simp_all add: desc_step_def)
  from desc_step_count_out [OF g2(1), of S st n m] g2(2) obtain ms
    where s3: "desc_step h (D'\<lparr>md_in_use := md_in_use D + 1, md_metrics := ms\<rparr>) hp w2 ?w3" by auto
  then have g3: "machine_get_desc h ?w3 = Some (D'\<lparr>md_in_use := md_in_use D + 1, md_metrics := ms\<rparr>)" "w_heap ?w3 = hp"
    by (simp_all add: desc_step_def)
  have undo: "?r (D'\<lparr>md_in_use := md_in_use D + 1, md_metrics := ms\<rparr>) = D'\<lparr>md_metrics := ms\<rparr>" using D'(2) by simp
  from desc_step_upd [OF g3(1), of ?r] have s4: "desc_step h (D'\<lparr>md_metrics := ms\<rparr>) hp ?w3 (upd_desc h ?r ?w3)"
    using undo g3(2) by simp
  have "machine_desc_read S call h buf n w = Some (st, m, upd_desc h ?r ?w3)"
    using D D'(1) c g3(1)
    by (cases "io_state io") (simp_all add: machine_desc_read_def machine_desc_acquire_def machine_desc_release_def)
  then show ?thesis using desc_step_trans [OF desc_step_trans [OF desc_step_trans [OF s1 s2] s3] s4] by blast
qed


section \<open>The ring behind a machine\<close>

text \<open>Machine \<open>h\<close> is a ring buffer with its own filters only.\<close>

definition ring_machine :: "io_handle \<Rightarrow> machine_desc \<Rightarrow> ring_t \<Rightarrow> world \<Rightarrow> bool" where
  "ring_machine h D R w \<longleftrightarrow> machine_get_desc h w = Some D \<and> md_impl D = IMPL_RING R \<and> \<not> md_lock D \<and>
     (\<exists>r wr. md_io_read D = Some r \<and> md_io_write D = Some wr \<and>
        end_filter FN_RB_READ h (io_obj r) w \<and> end_filter FN_RB_WRITE h (io_obj wr) w)"

definition read_state :: "machine_desc \<Rightarrow> io_desc_state_e option" where
  "read_state D = map_option io_state (md_io_read D)"

definition write_state :: "machine_desc \<Rightarrow> io_desc_state_e option" where
  "write_state D = map_option io_state (md_io_write D)"

text \<open>An order for changes of several fields.\<close>

lemma desc_upd_commute:
  "D\<lparr>md_impl := x, md_in_use := u\<rparr> = D\<lparr>md_in_use := u, md_impl := x\<rparr>"
  "D\<lparr>md_io_read := y, md_in_use := u\<rparr> = D\<lparr>md_in_use := u, md_io_read := y\<rparr>"
  "D\<lparr>md_io_read := y, md_impl := x\<rparr> = D\<lparr>md_impl := x, md_io_read := y\<rparr>" for D :: machine_desc
  by (cases D; simp)+

lemma put_ring_step:
  assumes "machine_get_desc h w = Some D"
  shows "desc_step h (D\<lparr>md_impl := IMPL_RING R\<rparr>) hp w (put_ring h R hp w)"
  using desc_step_heap [OF desc_step_upd [OF assms, of "md_impl_update (\<lambda>_. IMPL_RING R)"]] by (simp add: put_ring_def)

lemma ring_machine_step:
  assumes "ring_machine h D R w" and "desc_step h (D\<lparr>md_impl := IMPL_RING R', md_metrics := ms\<rparr>) hp w w'"
  shows "ring_machine h (D\<lparr>md_impl := IMPL_RING R', md_metrics := ms\<rparr>) R' w'"
  using assms end_filter_cong [of w' w] by (simp add: ring_machine_def desc_step_def)

lemma ring_machine_write:
  assumes M: "ring_machine h D R w" and st: "write_state D = Some IO_DESC_ENABLED"
    and W: "rb_buf_write (s_mem S) (md_pool D) R buf n (w_heap w) = Some (st, m, R', hp)"
  shows "\<exists>w' ms. machine_desc_write S (call_filter S (Suc k)) h buf n w = Some (st, m, w') \<and>
    desc_step h (D\<lparr>md_impl := IMPL_RING R', md_metrics := ms\<rparr>) hp w w'"
proof -
  from M obtain wr where D: "machine_get_desc h w = Some D" "md_impl D = IMPL_RING R" "\<not> md_lock D"
    "md_io_write D = Some wr" "end_filter FN_RB_WRITE h (io_obj wr) w" by (auto simp: ring_machine_def)
  have io: "io_obj wr \<noteq> 0" "io_state wr = IO_DESC_ENABLED" using D(4,5) st by (auto simp: end_filter_def write_state_def)
  show ?thesis
  proof (rule machine_desc_write_call [OF D(1,4) io(1) _ D(3), where D' = "D\<lparr>md_impl := IMPL_RING R'\<rparr>"])
    fix w1 assume s: "desc_step h (D\<lparr>md_in_use := md_in_use D + 1\<rparr>) (w_heap w) w w1"
    then have g: "machine_get_desc h w1 = Some (D\<lparr>md_in_use := md_in_use D + 1\<rparr>)" "w_heap w1 = w_heap w"
      and f: "end_filter FN_RB_WRITE h (io_obj wr) w1"
      using D(5) end_filter_cong [of w1 w] by (simp_all add: desc_step_def)
    from end_filterD [OF f] obtain fl where fl: "get_filter (io_obj wr) w1 = Some fl" "f_call fl = FN_RB_WRITE"
      "handle_of (io_obj wr) w1 = Some h" by blast
    have "call_filter S (Suc k) (io_obj wr) buf n IO_NO_BLOCK IO_DEFAULT_ALIGN w1 = Some (st, m, put_ring h R' hp w1)"
      using fl g D W by (simp add: filter_body_def rbm_buf_write_def ring_of_def)
    moreover have "desc_step h ((D\<lparr>md_impl := IMPL_RING R'\<rparr>)\<lparr>md_in_use := md_in_use D + 1\<rparr>) hp w1 (put_ring h R' hp w1)"
      using put_ring_step [OF g(1), of R' hp] by (simp add: desc_upd_commute)
    ultimately show "\<exists>w2. call_filter S (Suc k) (io_obj wr) buf n IO_NO_BLOCK IO_DEFAULT_ALIGN w1 = Some (st, m, w2) \<and>
      desc_step h ((D\<lparr>md_impl := IMPL_RING R'\<rparr>)\<lparr>md_in_use := md_in_use D + 1\<rparr>) hp w1 w2" by blast
  qed (use io D in auto)
qed

text \<open>A read that ends with \<open>IO_COMPLETE\<close> also starts to disable reading.\<close>

definition after_read :: "io_status \<Rightarrow> machine_desc \<Rightarrow> machine_desc" where
  "after_read st D = (if st = IO_COMPLETE
     then D\<lparr>md_io_read := map_option (io_state_update (\<lambda>_. IO_DESC_DISABLING)) (md_io_read D)\<rparr> else D)"

lemma ring_machine_read:
  assumes M: "ring_machine h D R w" and st: "read_state D = Some IO_DESC_ENABLED"
    and W: "rb_buf_read R buf n IO_NO_BLOCK IO_DEFAULT_ALIGN (w_heap w) = Some (st, m, R', hp)"
  shows "\<exists>w' ms. machine_desc_read S (call_filter S (Suc k)) h buf n w = Some (st, m, w') \<and>
    desc_step h ((after_read st D)\<lparr>md_impl := IMPL_RING R', md_metrics := ms\<rparr>) hp w w'"
proof -
  from M obtain r where D: "machine_get_desc h w = Some D" "md_impl D = IMPL_RING R" "\<not> md_lock D"
    "md_io_read D = Some r" "end_filter FN_RB_READ h (io_obj r) w" by (auto simp: ring_machine_def)
  have io: "io_obj r \<noteq> 0" "io_state r = IO_DESC_ENABLED" using D(4,5) st by (auto simp: end_filter_def read_state_def)
  let ?D' = "(after_read st D)\<lparr>md_impl := IMPL_RING R'\<rparr>"
  show ?thesis
  proof (rule machine_desc_read_call [OF D(1,4) io(1) _ D(3), where D' = ?D'])
    fix w1 assume s: "desc_step h (D\<lparr>md_in_use := md_in_use D + 1\<rparr>) (w_heap w) w w1"
    then have g: "machine_get_desc h w1 = Some (D\<lparr>md_in_use := md_in_use D + 1\<rparr>)" "w_heap w1 = w_heap w"
      and f: "end_filter FN_RB_READ h (io_obj r) w1"
      using D(5) end_filter_cong [of w1 w] by (simp_all add: desc_step_def)
    from end_filterD [OF f] obtain fl where fl: "get_filter (io_obj r) w1 = Some fl" "f_call fl = FN_RB_READ"
      "handle_of (io_obj r) w1 = Some h" by blast
    let ?w2 = "put_ring h R' hp w1"
    let ?w3 = "if st = IO_COMPLETE then set_read_state h IO_DESC_DISABLING ?w2 else ?w2"
    have "call_filter S (Suc k) (io_obj r) buf n IO_NO_BLOCK IO_DEFAULT_ALIGN w1 = Some (st, m, ?w3)"
      using fl g D W by (simp add: filter_body_def rbm_buf_read_def ring_of_def)
    moreover have s2: "desc_step h ((D\<lparr>md_in_use := md_in_use D + 1\<rparr>)\<lparr>md_impl := IMPL_RING R'\<rparr>) hp w1 ?w2"
      by (rule put_ring_step [OF g(1)])
    moreover have "desc_step h (?D'\<lparr>md_in_use := md_in_use D + 1\<rparr>) hp w1 ?w3"
    proof (cases "st = IO_COMPLETE")
      case True
      have g2: "machine_get_desc h ?w2 = Some ((D\<lparr>md_in_use := md_in_use D + 1\<rparr>)\<lparr>md_impl := IMPL_RING R'\<rparr>)" "w_heap ?w2 = hp"
        using s2 by (simp_all add: desc_step_def)
      from desc_step_upd [OF g2(1), of "\<lambda>d. d\<lparr>md_io_read := map_option (io_state_update (\<lambda>_. IO_DESC_DISABLING)) (md_io_read d)\<rparr>"]
      show ?thesis using desc_step_trans [OF s2] g2(2) True by (simp add: set_read_state_def after_read_def desc_upd_commute)
    qed (use s2 in \<open>simp add: after_read_def desc_upd_commute\<close>)
    ultimately show "\<exists>w2. call_filter S (Suc k) (io_obj r) buf n IO_NO_BLOCK IO_DEFAULT_ALIGN w1 = Some (st, m, w2) \<and>
      desc_step h (?D'\<lparr>md_in_use := md_in_use D + 1\<rparr>) hp w1 w2" by blast
  qed (use io D in \<open>auto simp: after_read_def\<close>)
qed

section \<open>The machine as a byte queue\<close>

text \<open>A client of machine \<open>h\<close> with one buffer at \<open>d\<close>, calling the machine's functions.\<close>

definition poke :: "addr \<Rightarrow> byte list \<Rightarrow> world \<Rightarrow> world" where
  "poke d xs w = w\<lparr>w_heap := (w_heap w)\<lparr>mem := mem_write (mem (w_heap w)) d xs\<rparr>\<rparr>"

definition machine_fetch :: "sys \<Rightarrow> nat \<Rightarrow> io_handle \<Rightarrow> addr \<Rightarrow> nat \<Rightarrow> world \<Rightarrow> (io_status \<times> byte list \<times> world) option" where
  "machine_fetch S depth h d n w = do {
     (st, r, w') \<leftarrow> machine_desc_read S (call_filter S depth) h d n w;
     Some (st, mem_read (mem (w_heap w')) d r, w')
   }"

definition machine_put :: "sys \<Rightarrow> nat \<Rightarrow> io_handle \<Rightarrow> addr \<Rightarrow> byte list \<Rightarrow> world \<Rightarrow> world option" where
  "machine_put S depth h d xs w =
     (case machine_desc_write S (call_filter S depth) h d (length xs) (poke d xs w) of
        Some (IO_SUCCESS, n, w') \<Rightarrow> if n = length xs then Some w' else None
      | _ \<Rightarrow> None)"

definition machine_get :: "sys \<Rightarrow> nat \<Rightarrow> io_handle \<Rightarrow> addr \<Rightarrow> nat \<Rightarrow> world \<Rightarrow> (byte list \<times> world) option" where
  "machine_get S depth h d n w = do {
     (st, r, w') \<leftarrow> machine_desc_read S (call_filter S depth) h d n w;
     Some (mem_read (mem (w_heap w')) d r, w')
   }"

definition machine_rel :: "sys \<Rightarrow> io_handle \<Rightarrow> addr \<Rightarrow> nat \<Rightarrow> world \<Rightarrow> byte list \<Rightarrow> nat \<Rightarrow> bool" where
  "machine_rel S h d cap w q b \<longleftrightarrow> (\<exists>D R. ring_machine h D R w \<and> read_state D = Some IO_DESC_ENABLED \<and>
     write_state D = Some IO_DESC_ENABLED \<and> \<not> r_flush R \<and> rb_rel (s_mem S) d cap (R, w_heap w) q b)"

lemma ring_machine_poke: "ring_machine h D R w \<Longrightarrow> ring_machine h D R (poke d xs w)"
  using end_filter_cong [of "poke d xs w" w] by (simp add: ring_machine_def poke_def)

lemma machine_put_ok:
  assumes I: "machine_rel S h d cap w q b" and xs: "length xs \<le> cap" "length xs \<le> b"
  shows "\<exists>w'. machine_put S (Suc k) h d xs w = Some w' \<and> machine_rel S h d cap w' (q @ xs) (b - length xs)"
proof -
  obtain D R where M: "ring_machine h D R w" and st: "read_state D = Some IO_DESC_ENABLED" "write_state D = Some IO_DESC_ENABLED"
    and fl: "\<not> r_flush R" and rel: "rb_rel (s_mem S) d cap (R, w_heap w) q b"
    using I by (auto simp: machine_rel_def)
  from rb_put_full [OF rel xs, of "md_pool D"] obtain R' hp where
    P: "rb_put (s_mem S) (md_pool D) d xs (R, w_heap w) = Some (R', hp)"
      "rb_rel (s_mem S) d cap (R', hp) (q @ xs) (b - length xs)" "\<not> r_flush R'" using fl by auto
  then have W: "rb_buf_write (s_mem S) (md_pool D) R d (length xs) (w_heap (poke d xs w)) = Some (IO_SUCCESS, length xs, R', hp)"
    by (auto simp: rb_put_def poke_def split: option.splits io_status.splits if_splits)
  from ring_machine_write [OF ring_machine_poke [OF M] st(2) W, of k] obtain w' ms where
    r: "machine_desc_write S (call_filter S (Suc k)) h d (length xs) (poke d xs w) = Some (IO_SUCCESS, length xs, w')"
      "desc_step h (D\<lparr>md_impl := IMPL_RING R', md_metrics := ms\<rparr>) hp (poke d xs w) w'" by blast
  have "ring_machine h (D\<lparr>md_impl := IMPL_RING R', md_metrics := ms\<rparr>) R' w'"
    by (rule ring_machine_step [OF ring_machine_poke [OF M] r(2)])
  moreover have "w_heap w' = hp" using r(2) by (simp add: desc_step_def)
  ultimately have "machine_rel S h d cap w' (q @ xs) (b - length xs)"
    unfolding machine_rel_def using st P(2,3)
    by (intro exI [of _ "D\<lparr>md_impl := IMPL_RING R', md_metrics := ms\<rparr>"] exI [of _ R']) (simp add: read_state_def write_state_def)
  then show ?thesis using r(1) by (simp add: machine_put_def del: call_filter.simps)
qed

lemma machine_get_ok:
  assumes I: "machine_rel S h d cap w q b" and n: "n \<le> cap"
  shows "\<exists>w'. machine_get S (Suc k) h d n w = Some (take n q, w') \<and> machine_rel S h d cap w' (drop n q) b"
proof -
  obtain D R where M: "ring_machine h D R w" and st: "read_state D = Some IO_DESC_ENABLED" "write_state D = Some IO_DESC_ENABLED"
    and fl: "\<not> r_flush R" and rel: "rb_rel (s_mem S) d cap (R, w_heap w) q b"
    using I by (auto simp: machine_rel_def)
  from rb_get_full [OF rel n] obtain R' hp where
    P: "rb_get d n (R, w_heap w) = Some (take n q, R', hp)" "rb_rel (s_mem S) d cap (R', hp) (drop n q) b" "\<not> r_flush R'"
    using fl by auto
  then obtain s m where W: "rb_buf_read R d n IO_NO_BLOCK IO_DEFAULT_ALIGN (w_heap w) = Some (s, m, R', hp)"
    and q: "mem_read (mem hp) d m = take n q"
    by (auto simp: rb_get_def bind_eq_Some_conv IO_DEFAULT_ALIGN_def)
  have "s \<noteq> IO_COMPLETE" using W fl by (auto simp: rb_buf_read_def bind_eq_Some_conv Let_def split: if_splits)
  then have a: "after_read s D = D" by (simp add: after_read_def)
  from ring_machine_read [OF M st(1) W, of S k, unfolded a] obtain w' ms where
    r: "machine_desc_read S (call_filter S (Suc k)) h d n w = Some (s, m, w')"
      "desc_step h (D\<lparr>md_impl := IMPL_RING R', md_metrics := ms\<rparr>) hp w w'" by blast
  have "ring_machine h (D\<lparr>md_impl := IMPL_RING R', md_metrics := ms\<rparr>) R' w'"
    by (rule ring_machine_step [OF M r(2)])
  moreover have hp: "w_heap w' = hp" using r(2) by (simp add: desc_step_def)
  ultimately have "machine_rel S h d cap w' (drop n q) b"
    unfolding machine_rel_def using st P(2,3)
    by (intro exI [of _ "D\<lparr>md_impl := IMPL_RING R', md_metrics := ms\<rparr>"] exI [of _ R']) (simp add: read_state_def write_state_def)
  then show ?thesis using r(1) q hp by (simp add: machine_get_def del: call_filter.simps)
qed

interpretation ring_machine_queue: byte_queue "machine_rel S h d cap" cap "machine_put S (Suc k) h d" "machine_get S (Suc k) h d"
  for S h d cap k
  by unfold_locales (fact machine_put_ok machine_get_ok)+

end
