(* ===== verification/Machine_Setup.thy ===== *)
theory Machine_Setup
  imports Machine_Ring
begin

text \<open>
  Creating a ring buffer through the machine interface: \<open>new_rb_machine\<close> registers the machine if
  need be, sets up the ring, the descriptors and the two filters, and hands out a handle.
\<close>

section \<open>Allocation\<close>

text \<open>Memory was handed out and possibly written to, and nothing was freed.\<close>

definition heap_grows :: "heap \<Rightarrow> heap \<Rightarrow> bool" where
  "heap_grows h h' \<longleftrightarrow> blocks h' = blocks h \<and> set (live h) \<subseteq> set (live h')"

lemma heap_grows_refl [simp]: "heap_grows h h"
  by (simp add: heap_grows_def)

lemma heap_grows_trans: "heap_grows h h' \<Longrightarrow> heap_grows h' h'' \<Longrightarrow> heap_grows h h''"
  by (auto simp: heap_grows_def)

lemma heap_grows_live [simp]: "heap_grows h (h\<lparr>live := x # live h\<rparr>)"
  by (auto simp: heap_grows_def)

lemma ring_new_grows:
  assumes "ring_new B R h" and "heap_grows h h'"
  shows "ring_new B R h'"
proof -
  have "nxt h' = nxt h" "blk h' = blk h" using assms(2) by (auto simp: heap_grows_def nxt_def blk_def fun_eq_iff)
  moreover have "heap_ok h'" using assms by (auto simp: ring_new_def heap_grows_def heap_ok_def) blast
  moreover have "covered h' d n" if "covered h d n" for d n
    using covered_mono [OF that] assms(2) by (simp add: heap_grows_def)
  ultimately show ?thesis using assms(1) unfolding ring_new_def empty_def by auto
qed

lemma add_live_eq: "add_live a n w = w\<lparr>w_heap := (w_heap w)\<lparr>live := (a, n) # live (w_heap w)\<rparr>\<rparr>"
  by (simp add: add_live_def)

lemma alloc_ok:
  assumes "pool_sound E" and "pool_plenty E c"
  shows "\<exists>a. palloc E h p n = Some a" "\<exists>a. pcalloc E h p n = Some a \<and> a \<noteq> 0 \<and> (\<forall>(b, k) \<in> set (live h). disj a n b k)"
proof -
  show "\<exists>a. palloc E h p n = Some a" using assms(2) unfolding pool_plenty_def by blast
  obtain a where "pcalloc E h p n = Some a" using assms(2) unfolding pool_plenty_def by blast
  moreover have "a \<noteq> 0 \<and> (\<forall>(b, k) \<in> set (live h). disj a n b k)" using assms(1) calculation unfolding pool_sound_def by blast
  ultimately show "\<exists>a. pcalloc E h p n = Some a \<and> a \<noteq> 0 \<and> (\<forall>(b, k) \<in> set (live h). disj a n b k)" by blast
qed

lemma create_filter_ok:
  assumes "pool_sound (s_mem S)" and "pool_plenty (s_mem S) c"
  shows "\<exists>a f hp. create_filter S p name fn w = Some (a, w\<lparr>w_heap := hp, w_filters := (w_filters w)(a \<mapsto> f)\<rparr>) \<and>
    a \<noteq> 0 \<and> f_call f = fn \<and> heap_grows (w_heap w) hp \<and> (a, sizeof_filter) \<in> set (live hp) \<and>
    (\<forall>(b, k) \<in> set (live (w_heap w)). disj a sizeof_filter b k)"
proof -
  obtain a where a: "pcalloc (s_mem S) (w_heap w) p sizeof_filter = Some a" "a \<noteq> 0"
    "\<forall>(b, k) \<in> set (live (w_heap w)). disj a sizeof_filter b k"
    using alloc_ok(2) [OF assms] by blast
  let ?f = "\<lparr>f_enabled = True, f_direction = IOF_BIDIRECTIONAL, f_name = take IO_MAX_NAME_LEN name,
    f_alloc = create_subpool (s_mem S) (w_heap w) p, f_obj = OBJ_NULL, f_next = 0, f_call = fn, f_reset = None\<rparr>"
  show ?thesis using a
    by (intro exI [of _ a] exI [of _ ?f] exI [of _ "(w_heap w)\<lparr>live := (a, sizeof_filter) # live (w_heap w)\<rparr>"])
      (simp add: create_filter_def add_live_eq)
qed

lemma machine_desc_init_ok:
  assumes "pool_sound (s_mem S)" and "pool_plenty (s_mem S) c"
    and io: "io = \<lparr>io_state = IO_DESC_ENABLED, io_size = 0, io_alloc = p, io_obj = 0\<rparr>"
  shows "\<exists>hp. machine_desc_init S p m d w = (IO_SUCCESS, d\<lparr>md_lock := False, md_pool := p, md_io_read := Some io,
    md_io_write := Some io, md_handle := 0, md_machine := m\<rparr>, w\<lparr>w_heap := hp\<rparr>) \<and> heap_grows (w_heap w) hp"
proof -
  obtain a where a: "pcalloc (s_mem S) (w_heap w) p sizeof_io_desc = Some a" using alloc_ok(2) [OF assms(1,2)] by blast
  let ?w = "add_live a sizeof_io_desc w"
  obtain b where b: "pcalloc (s_mem S) (w_heap ?w) p sizeof_io_desc = Some b" using alloc_ok(2) [OF assms(1,2)] by blast
  let ?w' = "add_live b sizeof_io_desc ?w"
  have "heap_grows (w_heap w) (w_heap ?w')" by (auto simp: add_live_eq heap_grows_def)
  then show ?thesis using a b unfolding machine_desc_init_def io Let_def
    by (intro exI [of _ "w_heap ?w'"]) (simp add: add_live_eq)
qed

text \<open>The handle table has room or is not yet allocated.\<close>

definition table_room :: "world \<Rightarrow> bool" where
  "table_room w \<longleftrightarrow> w_pool w \<noteq> None \<and> w_handle_counter w + 1 < 2 ^ 31 \<and>
     (w_handle_alloc w = 0 \<and> w_handle_map w = [] \<or> length (w_handle_map w) < w_handle_alloc w)"

lemma request_handle_ok:
  assumes "pool_sound (s_mem S)" and "pool_plenty (s_mem S) c" and "table_room w"
  shows "\<exists>h w'. request_handle S m w = Some (h, w') \<and> heap_grows (w_heap w) (w_heap w')"
proof (cases "w_handle_alloc w = 0")
  case True
  obtain p where p: "w_pool w = Some p" using assms(3) by (auto simp: table_room_def)
  obtain a where "palloc (s_mem S) (w_heap w) p (MACHINE_CHUNK * sizeof_handle_map) = Some a"
    using alloc_ok(1) [OF assms(1,2)] by blast
  then show ?thesis using True p assms(3)
    by (simp add: request_handle_def table_room_def MACHINE_CHUNK_def add_live_eq Let_def)
next
  case False
  then show ?thesis using assms(3) by (simp add: request_handle_def table_room_def Let_def)
qed

section \<open>Descriptors\<close>

lemma setup_desc_ok:
  assumes E: "pool_sound (s_mem S)" "pool_plenty (s_mem S) c" and room: "table_room w" and ok: "handles_ok w"
  shows "\<exists>h w' D r wr. setup_desc S p m rn rfn wn wfn d w = Some (h, w') \<and> h = int (w_handle_counter w) + 1 \<and>
    machine_get_desc h w' = Some D \<and> md_impl D = md_impl d \<and> \<not> md_lock D \<and> md_pool D = p \<and>
    md_io_read D = Some r \<and> md_io_write D = Some wr \<and> io_state r = IO_DESC_ENABLED \<and> io_state wr = IO_DESC_ENABLED \<and>
    end_filter rfn h (io_obj r) w' \<and> end_filter wfn h (io_obj wr) w' \<and> heap_grows (w_heap w) (w_heap w')"
proof -
  let ?io = "\<lparr>io_state = IO_DESC_ENABLED, io_size = 0, io_alloc = p, io_obj = 0\<rparr>"
  let ?d = "d\<lparr>md_lock := False, md_pool := p, md_io_read := Some ?io, md_io_write := Some ?io, md_handle := 0, md_machine := m\<rparr>"
  obtain h1 where i: "machine_desc_init S p m d w = (IO_SUCCESS, ?d, w\<lparr>w_heap := h1\<rparr>)" "heap_grows (w_heap w) h1"
    using machine_desc_init_ok [OF E refl] by blast
  let ?w1 = "w\<lparr>w_heap := h1\<rparr>"
  obtain a f h2 where f: "create_filter S p rn rfn ?w1 = Some (a, ?w1\<lparr>w_heap := h2, w_filters := (w_filters ?w1)(a \<mapsto> f)\<rparr>)"
    "a \<noteq> 0" "f_call f = rfn" "heap_grows h1 h2" "(a, sizeof_filter) \<in> set (live h2)"
    using create_filter_ok [OF E, of p rn rfn ?w1] by auto
  let ?w2 = "?w1\<lparr>w_heap := h2, w_filters := (w_filters ?w1)(a \<mapsto> f)\<rparr>"
  obtain b g h3 where g: "create_filter S p wn wfn ?w2 = Some (b, ?w2\<lparr>w_heap := h3, w_filters := (w_filters ?w2)(b \<mapsto> g)\<rparr>)"
    "b \<noteq> 0" "f_call g = wfn" "heap_grows h2 h3" "\<forall>(x, k) \<in> set (live h2). disj b sizeof_filter x k"
    using create_filter_ok [OF E, of p wn wfn ?w2] by auto
  have ab: "a \<noteq> b" using g(5) f(5) by (auto simp: disj_def sizeof_filter_def)
  let ?w3 = "?w2\<lparr>w_heap := h3, w_filters := (w_filters ?w2)(b \<mapsto> g)\<rparr>"
  let ?D = "?d\<lparr>md_io_read := Some (?io\<lparr>io_obj := a\<rparr>), md_io_write := Some (?io\<lparr>io_obj := b\<rparr>)\<rparr>"
  have room3: "table_room ?w3" using room by (simp add: table_room_def)
  obtain h w4 where q: "request_handle S m ?w3 = Some (h, w4)" "heap_grows h3 (w_heap w4)"
    using request_handle_ok [OF E room3, of m] by auto
  have c: "w_handle_counter ?w3 + 1 < 2 ^ 31" using room by (simp add: table_room_def)
  note spec = request_handle_spec [OF q(1) c]
  let ?fs = "(w_filters w)(a \<mapsto> f\<lparr>f_obj := OBJ_HANDLE h\<rparr>, b \<mapsto> g\<lparr>f_obj := OBJ_HANDLE h\<rparr>)"
  let ?w5 = "w4\<lparr>w_filters := ?fs, w_descs := w_descs w4 @ [?D\<lparr>md_handle := h\<rparr>]\<rparr>"
  have reg: "machine_register_desc S ?D ?w3 = Some (h, ?w5)"
    using q(1) spec f(2) g(2) ab
    by (simp add: machine_register_desc_def set_filter_handle_def upd_filter_def fun_upd_twist)
  have "setup_desc S p m rn rfn wn wfn d w = Some (h, ?w5)"
    using i(1) f(1,2) g(1,2) reg
    by (simp add: setup_desc_def filter_read_init_def filter_write_init_def)
  moreover have "find (\<lambda>d. md_handle d = h) (w_descs w) = None"
  proof -
    have "md_handle ` set (w_descs w) \<subseteq> {1..int (w_handle_counter w)}" using ok unfolding handles_ok_def by blast
    then have "h \<notin> md_handle ` set (w_descs w)" using spec(1) by auto
    then show ?thesis by (simp add: find_handle_None)
  qed
  then have "machine_get_desc h ?w5 = Some (?D\<lparr>md_handle := h\<rparr>)"
    using spec(4) by (simp add: machine_get_desc_def find_append_handle)
  moreover have "end_filter rfn h a ?w5" "end_filter wfn h b ?w5" using f g ab by (auto simp: end_filter_def)
  moreover have "heap_grows (w_heap w) (w_heap ?w5)"
    using heap_grows_trans [OF heap_grows_trans [OF heap_grows_trans [OF i(2) f(4)] g(4)] q(2)] by simp
  ultimately show ?thesis using spec(1)
    by (intro exI [of _ h] exI [of _ ?w5] exI [of _ "?D\<lparr>md_handle := h\<rparr>"] exI [of _ "?io\<lparr>io_obj := a\<rparr>"]
        exI [of _ "?io\<lparr>io_obj := b\<rparr>"]) simp
qed


section \<open>The ring buffer machine\<close>

text \<open>The machine is registered.\<close>

definition rb_registered :: "world \<Rightarrow> bool" where
  "rb_registered w \<longleftrightarrow> (\<exists>m. w_rb_machine w = Some m \<and> m < length (w_machines w) \<and>
     m_stop (w_machines w ! m) = STOP_BUFFER)"

lemma rbm_create_buffer_ok:
  assumes E: "pool_sound (s_mem S)" "pool_plenty (s_mem S) c" "\<And>h p. create_subpool (s_mem S) h p \<noteq> 0"
    and w: "rb_registered w" "table_room w" "handles_ok w" "heap_ok (w_heap w)"
    and B: "\<And>d n. (d, n) \<in> set B \<Longrightarrow> covered (w_heap w) d n"
  shows "\<exists>h w' D R. rbm_create_buffer S w = Some (h, w') \<and> h = int (w_handle_counter w) + 1 \<and> ring_machine h D R w' \<and>
    read_state D = Some IO_DESC_ENABLED \<and> write_state D = Some IO_DESC_ENABLED \<and> ring_new B R (w_heap w') \<and>
    r_block_align R = RB_DEFAULT_ALIGN \<and> r_block_realloc R = RB_DEFAULT_REALLOC \<and> r_high_water_mark R = 0 \<and>
    r_high_water_count R = 0 \<and> r_min_return_size R = 0 \<and> \<not> r_flush R"
proof -
  obtain m where m: "w_rb_machine w = Some m" "m < length (w_machines w)" using w(1) by (auto simp: rb_registered_def)
  let ?p = "create_subpool (s_mem S) (w_heap w) (m_alloc (w_machines w ! m))"
  obtain a where a: "pcalloc (s_mem S) (w_heap w) ?p sizeof_ring = Some a" using alloc_ok(2) [OF E(1,2)] by blast
  let ?w1 = "add_live a sizeof_ring w"
  have h1: "heap_ok (w_heap ?w1)" using w(4) by (auto simp: add_live_eq heap_ok_def)
  have B1: "covered (w_heap ?w1) d n" if "(d, n) \<in> set B" for d n
    by (rule covered_mono [OF B [OF that]]) (auto simp: add_live_eq)
  have p0: "pool_plenty (s_mem S) 0" using E(2) pool_plenty_mono by blast
  from rb_create_new [OF E(1) h1 p0 B1, of B ?p] obtain R hp where
    R: "rb_create (s_mem S) ?p (w_heap ?w1) = Some (Some R, hp)" "ring_new B R hp"
      "r_block_realloc R = RB_DEFAULT_REALLOC" "r_high_water_mark R = 0" "r_high_water_count R = 0"
      "r_min_return_size R = 0" "\<not> r_flush R" by blast
  have al: "r_block_align R = RB_DEFAULT_ALIGN" using R(1)
    by (auto simp: rb_create_def bind_eq_Some_conv split: if_splits)
  let ?w2 = "?w1\<lparr>w_heap := hp\<rparr>" and ?d = "zero_desc\<lparr>md_impl := IMPL_RING R\<rparr>"
  have t2: "table_room ?w2" "handles_ok ?w2" "w_handle_counter ?w2 = w_handle_counter w"
    using w(2,3) by (simp_all add: table_room_def handles_ok_def used_handles_def add_live_eq)
  from setup_desc_ok [OF E(1,2) t2(1,2), of ?p m "''ring_buf_r''" FN_RB_READ "''ring_buf_w''" FN_RB_WRITE ?d]
  obtain h w' D r wr where s: "setup_desc S ?p m ''ring_buf_r'' FN_RB_READ ''ring_buf_w'' FN_RB_WRITE ?d ?w2 = Some (h, w')"
      "h = int (w_handle_counter w) + 1" "machine_get_desc h w' = Some D" "md_impl D = IMPL_RING R" "\<not> md_lock D"
      "md_io_read D = Some r" "md_io_write D = Some wr" "io_state r = IO_DESC_ENABLED" "io_state wr = IO_DESC_ENABLED"
      "end_filter FN_RB_READ h (io_obj r) w'" "end_filter FN_RB_WRITE h (io_obj wr) w'" "heap_grows hp (w_heap w')"
    unfolding t2(3) by auto
  have "rbm_create_buffer S w = Some (h, w')"
    using m a R(1) s(1) E(3) [of "w_heap w" "m_alloc (w_machines w ! m)"]
    by (simp add: rbm_create_buffer_def get_iom_def Let_def)
  moreover have "ring_machine h D R w'" using s by (auto simp: ring_machine_def)
  moreover have "ring_new B R (w_heap w')" using ring_new_grows [OF R(2) s(12)] .
  ultimately show ?thesis using s R al by (auto simp: read_state_def write_state_def)
qed

text \<open>The first write to a new ring buffer machine, of at least one byte.\<close>

lemma machine_first_put:
  assumes E: "pool_sound (s_mem S)" and M: "ring_machine h D R w" "read_state D = Some IO_DESC_ENABLED"
      "write_state D = Some IO_DESC_ENABLED"
    and N: "ring_new [(d, cap)] R (w_heap w)" "r_block_align R = RB_DEFAULT_ALIGN" "r_block_realloc R = RB_DEFAULT_REALLOC"
      "r_high_water_mark R = 0" "r_high_water_count R = 0" "r_min_return_size R = 0" "\<not> r_flush R"
    and xs: "xs \<noteq> []" "length xs < 2 ^ 53" "length xs \<le> cap"
    and size: "2 * (b + 16) < sz_max" "length xs + b < sz_max"
    and plenty: "pool_plenty (s_mem S) (2 * (b + 16) * (ceil_div (length xs) RB_DEFAULT_ALIGN * RB_DEFAULT_ALIGN))"
  shows "\<exists>w'. machine_put S (Suc k) h d xs w = Some w' \<and> machine_rel S h d cap w' xs b"
proof -
  let ?w = "poke d xs w" and ?sz = "ceil_div (length xs) RB_DEFAULT_ALIGN * RB_DEFAULT_ALIGN"
  have new: "ring_new [(d, cap)] R (w_heap ?w)"
    using N(1) by (auto simp: ring_new_def poke_def heap_ok_def covered_def empty_def blk_def nxt_def)
  have mono: "pool_plenty (s_mem S) (r_block_realloc R * ?sz)" "pool_plenty (s_mem S) (2 * ?sz)"
    by (rule pool_plenty_mono [OF plenty], use N(3) in \<open>simp add: RB_DEFAULT_REALLOC_def\<close>)+
  obtain R' hp where W: "rb_buf_write (s_mem S) (md_pool D) R d (length xs) (w_heap ?w) = Some (IO_SUCCESS, length xs, R', hp)"
      "ring_fifo [(d, cap)] R' hp (mem_read (mem (w_heap ?w)) d (length xs)) 1"
      "settings R' = settings (R\<lparr>r_block_size := ?sz\<rparr>)" "marked R (length xs) R'"
    using rb_buf_write_first [OF E new, of d cap "length xs" "md_pool D"] xs N(2,5) mono
    by (auto simp: RB_DEFAULT_ALIGN_def MB_def KB_def sz_max_def)
  have c: "mem_read (mem (w_heap ?w)) d (length xs) = xs" by (simp add: poke_def mem_simps)
  have S': "r_block_size R' = ?sz" "r_high_water_mark R' = 0" "r_min_return_size R' = 0" "\<not> r_flush R'"
    using W(3) N by (auto simp: settings_def)
  have W': "r_low_water_mark R' = 0" "r_high_water_count R' = 0" using W(4) N(4,5) by (auto simp: marked_def)
  have pl: "pool_plenty (s_mem S) (2 * (1 + b) * r_block_size R')"
    unfolding S'(1) by (rule pool_plenty_mono [OF plenty]) (intro mult_le_mono1 mult_le_mono2, simp)
  have rel: "rb_rel (s_mem S) d cap (R', hp) xs b"
    by (rule rb_relI [OF E W(2) [unfolded c] pl]) (use S' W' size in \<open>simp_all add: sz_max_def\<close>)
  from ring_machine_write [OF ring_machine_poke [OF M(1)] M(3) W(1), of k] obtain w' ms where
    r: "machine_desc_write S (call_filter S (Suc k)) h d (length xs) ?w = Some (IO_SUCCESS, length xs, w')"
      "desc_step h (D\<lparr>md_impl := IMPL_RING R', md_metrics := ms\<rparr>) hp ?w w'" by blast
  have "ring_machine h (D\<lparr>md_impl := IMPL_RING R', md_metrics := ms\<rparr>) R' w'"
    by (rule ring_machine_step [OF ring_machine_poke [OF M(1)] r(2)])
  moreover have "w_heap w' = hp" using r(2) by (simp add: desc_step_def)
  ultimately have "machine_rel S h d cap w' xs b"
    unfolding machine_rel_def using M rel S'(4)
    by (intro exI [of _ "D\<lparr>md_impl := IMPL_RING R', md_metrics := ms\<rparr>"] exI [of _ R']) (simp add: read_state_def write_state_def)
  then show ?thesis using r(1) by (simp add: machine_put_def del: call_filter.simps)
qed


text \<open>A world in which a ring buffer can be created: the machine is registered, or its name is free.\<close>

definition rb_ready :: "world \<Rightarrow> bool" where
  "rb_ready w \<longleftrightarrow> handles_ok w \<and> heap_ok (w_heap w) \<and> w_handle_counter w + 1 < 2 ^ 31 \<and>
     (w_handle_alloc w = 0 \<and> w_handle_map w = [] \<or> length (w_handle_map w) < w_handle_alloc w) \<and>
     (rb_registered w \<and> w_pool w \<noteq> None \<or> w_rb_machine w = None \<and> get_machine ''ring_buffer'' w = None)"

text \<open>\<open>repalloc\<close> finds memory, and frees nothing before the pool is freed.\<close>

definition repalloc_ok :: "sys \<Rightarrow> bool" where
  "repalloc_ok S \<longleftrightarrow> (\<forall>h a n p. \<exists>b hp. repalloc S h a n p = Some (b, hp) \<and> heap_grows h hp)"

lemma machine_register_ok:
  assumes E: "pool_sound (s_mem S)" "pool_plenty (s_mem S) c" "repalloc_ok S" and "get_machine name w = None"
  shows "\<exists>hp p m t. machine_register S name w = Some (Some (length (w_machines w)),
    w\<lparr>w_pool := Some p, w_heap := hp, w_machines := w_machines w @ [m], w_machines_ptr := t\<rparr>) \<and> heap_grows (w_heap w) hp"
proof -
  let ?p = "case w_pool w of None \<Rightarrow> create_pool S (w_heap w) | Some p \<Rightarrow> p"
  let ?w1 = "w\<lparr>w_pool := Some ?p\<rparr>"
  obtain a where a: "pcalloc (s_mem S) (w_heap ?w1) ?p sizeof_iom = Some a" using alloc_ok(2) [OF E(1,2)] by blast
  let ?w2 = "add_live a sizeof_iom ?w1"
  let ?s = "create_subpool (s_mem S) (w_heap ?w2) ?p"
  obtain n where n: "palloc (s_mem S) (w_heap ?w2) ?s (length name + 1) = Some n" using alloc_ok(1) [OF E(1,2)] by blast
  let ?w3 = "add_live n (length name + 1) ?w2"
  obtain t hp where t: "repalloc S (w_heap ?w3) (w_machines_ptr w) ((length (w_machines w) + 1) * sizeof_iom_ptr) ?p = Some (t, hp)"
    "heap_grows (w_heap ?w3) hp" using E(3) unfolding repalloc_ok_def by blast
  let ?m = "\<lparr>m_name = name, m_alloc = ?s, m_create = CREATE_NOIMPL, m_destroy = DESTROY_NOIMPL, m_stop = STOP_MACHINE, m_lock = LOCK_MACHINE, m_obj = None\<rparr>"
  have g: "get_machine name ?w1 = None" using assms(4) by (simp add: get_machine_def)
  have "machine_register S name w = Some (Some (length (w_machines w)),
      ?w3\<lparr>w_heap := hp, w_machines := w_machines w @ [?m], w_machines_ptr := t\<rparr>)"
    using g a n t(1) by (simp add: machine_register_def Let_def add_live_eq)
  moreover have "?w3\<lparr>w_heap := hp, w_machines := w_machines w @ [?m], w_machines_ptr := t\<rparr> =
      w\<lparr>w_pool := Some ?p, w_heap := hp, w_machines := w_machines w @ [?m], w_machines_ptr := t\<rparr>" by (simp add: add_live_eq)
  moreover have "heap_grows (w_heap w) (w_heap ?w3)" by (auto simp: add_live_eq heap_grows_def)
  then have "heap_grows (w_heap w) hp" using t(2) by (rule heap_grows_trans)
  ultimately show ?thesis by auto
qed

lemma get_rb_machine_ok:
  assumes E: "pool_sound (s_mem S)" "pool_plenty (s_mem S) c" "repalloc_ok S" and w: "rb_ready w"
  shows "\<exists>m w'. get_rb_machine S w = Some (m, w') \<and> rb_registered w' \<and> table_room w' \<and> handles_ok w' \<and>
    heap_grows (w_heap w) (w_heap w')"
proof (cases "w_rb_machine w")
  case (Some m)
  then show ?thesis using w by (auto simp: get_rb_machine_def rb_ready_def table_room_def rb_registered_def)
next
  case None
  then have "get_machine ''ring_buffer'' w = None" using w by (auto simp: rb_ready_def rb_registered_def)
  from machine_register_ok [OF E this] obtain hp p m t where
    r: "machine_register S ''ring_buffer'' w = Some (Some (length (w_machines w)),
      w\<lparr>w_pool := Some p, w_heap := hp, w_machines := w_machines w @ [m], w_machines_ptr := t\<rparr>)" "heap_grows (w_heap w) hp" by blast
  then show ?thesis using None w
    by (simp add: get_rb_machine_def Let_def rb_registered_def table_room_def rb_ready_def handles_ok_def used_handles_def)
qed

lemma heap_ok_grows: "heap_ok h \<Longrightarrow> heap_grows h h' \<Longrightarrow> heap_ok h'"
  by (auto simp: heap_ok_def heap_grows_def)

lemma new_rb_machine_ok:
  assumes E: "pool_sound (s_mem S)" "pool_plenty (s_mem S) c" "\<And>h p. create_subpool (s_mem S) h p \<noteq> 0" "repalloc_ok S"
    and w: "rb_ready w" and d: "covered (w_heap w) d cap"
  shows "\<exists>h w' D R. new_rb_machine S w = Some (h, w') \<and> h > 0 \<and> ring_machine h D R w' \<and>
    read_state D = Some IO_DESC_ENABLED \<and> write_state D = Some IO_DESC_ENABLED \<and> ring_new [(d, cap)] R (w_heap w') \<and>
    r_block_align R = RB_DEFAULT_ALIGN \<and> r_block_realloc R = RB_DEFAULT_REALLOC \<and> r_high_water_mark R = 0 \<and>
    r_high_water_count R = 0 \<and> r_min_return_size R = 0 \<and> \<not> r_flush R"
proof -
  obtain m w1 where g: "get_rb_machine S w = Some (m, w1)" "rb_registered w1" "table_room w1" "handles_ok w1"
    "heap_grows (w_heap w) (w_heap w1)" using get_rb_machine_ok [OF E(1,2,4) w] by blast
  have ok: "heap_ok (w_heap w1)" using heap_ok_grows [OF _ g(5)] w by (simp add: rb_ready_def)
  have cov: "covered (w_heap w1) x n" if "(x, n) \<in> set [(d, cap)]" for x n
    using that covered_mono [OF d, of "w_heap w1"] g(5) by (simp add: heap_grows_def)
  from rbm_create_buffer_ok [OF E(1-3) g(2-4) ok, of "[(d, cap)]"] cov obtain h w' D R where
    c: "rbm_create_buffer S w1 = Some (h, w')" "h = int (w_handle_counter w1) + 1" "ring_machine h D R w'"
      "read_state D = Some IO_DESC_ENABLED" "write_state D = Some IO_DESC_ENABLED" "ring_new [(d, cap)] R (w_heap w')"
      "r_block_align R = RB_DEFAULT_ALIGN" "r_block_realloc R = RB_DEFAULT_REALLOC" "r_high_water_mark R = 0"
      "r_high_water_count R = 0" "r_min_return_size R = 0" "\<not> r_flush R" by blast
  have "new_rb_machine S w = Some (h, w')" using g(1) c(1) by (simp add: new_rb_machine_def)
  moreover have "h > 0" using c(2) by simp
  ultimately show ?thesis using c by blast
qed

end
