(* ===== verification/Machine_Properties.thy ===== *)
theory Machine_Properties
  imports Machine_Setup Demo_World
begin

text \<open>
  Properties of machines: a ring buffer used through handles, its end, handles, disabled machines.
\<close>

section \<open>A ring buffer behind a handle\<close>

text \<open>C1. The whole stack from \<open>new_rb_machine\<close> on: in a world where a ring buffer can be created, under a pool
  that returns fresh memory and has room, the function returns a positive handle, and every sequence
  of writes and reads through that handle that begins with a non-empty write behaves as the queue of bytes. The
  registration of the machine, the descriptor, the filters, the use counts and the metrics on the way do not
  disturb the data.\<close>

theorem machine_ring_is_fifo:
  assumes E: "pool_sound (s_mem S)" "\<And>h p. create_subpool (s_mem S) h p \<noteq> 0" "repalloc_ok S"
    and w: "rb_ready w" and buf: "covered (w_heap w) d cap"
    and xs: "xs \<noteq> []" "length xs < 2 ^ 53" and fit: "ops_fit cap (Put xs # ops)"
    and size: "2 * (put_total ops + 16) < sz_max" "length xs + put_total ops < sz_max"
    and plenty: "pool_plenty (s_mem S)
      (2 * (put_total ops + 16) * (ceil_div (length xs) RB_DEFAULT_ALIGN * RB_DEFAULT_ALIGN))"
  shows "\<exists>h w1. new_rb_machine S w = Some (h, w1) \<and> h > 0 \<and>
    impl_run (machine_put S (Suc k) h d) (machine_get S (Suc k) h d) w1 (Put xs # ops) =
      Some (queue_run [] (Put xs # ops))"
proof -
  obtain h w1 D R where N: "new_rb_machine S w = Some (h, w1)" "h > 0" "ring_machine h D R w1"
      "read_state D = Some IO_DESC_ENABLED" "write_state D = Some IO_DESC_ENABLED" "ring_new [(d, cap)] R (w_heap w1)"
      "r_block_align R = RB_DEFAULT_ALIGN" "r_block_realloc R = RB_DEFAULT_REALLOC" "r_high_water_mark R = 0"
      "r_high_water_count R = 0" "r_min_return_size R = 0" "\<not> r_flush R"
    using new_rb_machine_ok [OF E(1) plenty E(2,3) w buf] by blast
  have cap: "length xs \<le> cap" "ops_fit cap ops" using fit by simp_all
  from machine_first_put [OF E(1) N(3-12) xs cap(1) size plenty, of k] obtain w2 where
    p: "machine_put S (Suc k) h d xs w1 = Some w2" "machine_rel S h d cap w2 xs (put_total ops)" by blast
  from ring_machine_queue.run_refines [OF p(2) cap(2) order_refl, of k] p(1) N(1,2) show ?thesis by auto
qed

lemma empty_world_ready: "rb_ready empty_world" "covered (w_heap empty_world) 1 64"
  by (simp_all add: rb_ready_def empty_world_def handles_ok_def used_handles_def heap_ok_def empty_heap_def
      get_machine_def covered_def)

lemma demo_repalloc: "repalloc_ok demo_sys"
  by (simp add: repalloc_ok_def demo_sys_def)

theorem machine_ring_is_fifo_witness:
  "\<exists>h w1. new_rb_machine demo_sys empty_world = Some (h, w1) \<and> h > 0 \<and>
     impl_run (machine_put demo_sys 1 h 1) (machine_get demo_sys 1 h 1) w1 [Put [10, 20, 30], Get 2, Put [40], Get 9] =
       Some [[10, 20], [30, 40]]"
proof -
  have "\<exists>h w1. new_rb_machine demo_sys empty_world = Some (h, w1) \<and> h > 0 \<and>
     impl_run (machine_put demo_sys (Suc 0) h 1) (machine_get demo_sys (Suc 0) h 1) w1
       (Put [10, 20, 30] # [Get 2, Put [40], Get 9]) = Some (queue_run [] (Put [10, 20, 30] # [Get 2, Put [40], Get 9]))"
    by (rule machine_ring_is_fifo [OF demo_sys_ok(1) _ demo_repalloc empty_world_ready])
      (simp_all add: sz_max_def demo_sys_ok(2,3) [simplified] RB_DEFAULT_ALIGN_def MB_def KB_def ceil_div_def)
  then show ?thesis by simp
qed


section \<open>The end of a ring buffer\<close>

text \<open>A ring buffer that was stopped: it takes no more bytes and still holds \<open>q\<close>.\<close>

definition stopped_rel :: "sys \<Rightarrow> io_handle \<Rightarrow> addr \<Rightarrow> nat \<Rightarrow> world \<Rightarrow> byte list \<Rightarrow> bool" where
  "stopped_rel S h d cap w q \<longleftrightarrow> (\<exists>D R. ring_machine h D R w \<and> read_state D = Some IO_DESC_ENABLED \<and>
     write_state D \<in> {Some IO_DESC_DISABLING, Some IO_DESC_DISABLED} \<and> r_flush R \<and> rb_rel (s_mem S) d cap (R, w_heap w) q 0)"

lemma rb_rel_budget: "rb_rel E d cap s q b \<Longrightarrow> rb_rel E d cap s q 0"
proof -
  assume I: "rb_rel E d cap s q b"
  obtain R h where s: "s = (R, h)" by (cases s)
  obtain k where F: "pool_sound E" "ring_fifo [(d, cap)] R h q k" "pool_plenty E (2 * (k + b) * r_block_size R)"
    "2 * (k + b) < sz_max" "length q + b < sz_max" "r_low_water_mark R = 0" "r_high_water_mark R = 0"
    "r_high_water_count R + 1 < sz_max" "r_min_return_size R = 0"
    using I unfolding rb_rel_def s prod.case by blast
  have "pool_plenty E (2 * (k + 0) * r_block_size R)" by (rule pool_plenty_mono [OF F(3)]) (simp add: mult_le_mono1)
  then show ?thesis unfolding s using F by (intro rb_relI) auto
qed

text \<open>Stopping.\<close>

lemma rbm_stop_buffer_ok:
  assumes "machine_rel S h d cap w q b"
  shows "\<exists>w'. rbm_stop_buffer h w = Some w' \<and> stopped_rel S h d cap w' q"
proof -
  obtain D R r wr where M: "ring_machine h D R w" "rb_rel (s_mem S) d cap (R, w_heap w) q b"
    and io: "md_io_read D = Some r" "md_io_write D = Some wr" "io_state r = IO_DESC_ENABLED" "machine_get_desc h w = Some D"
      "md_impl D = IMPL_RING R"
    using assms by (auto simp: machine_rel_def ring_machine_def read_state_def)
  let ?w1 = "set_write_state h IO_DESC_DISABLING w"
  let ?D1 = "D\<lparr>md_io_write := Some (wr\<lparr>io_state := IO_DESC_DISABLING\<rparr>)\<rparr>"
  let ?R = "R\<lparr>r_flush := True\<rparr>"
  let ?w2 = "upd_desc h (md_impl_update (\<lambda>_. IMPL_RING ?R)) ?w1" and ?D2 = "?D1\<lparr>md_impl := IMPL_RING ?R\<rparr>"
  have s1: "desc_step h ?D1 (w_heap w) w ?w1"
    using desc_step_upd [OF io(4), of "\<lambda>d. d\<lparr>md_io_write := map_option (io_state_update (\<lambda>_. IO_DESC_DISABLING)) (md_io_write d)\<rparr>"] io(2)
    by (simp add: set_write_state_def)
  then have "machine_get_desc h ?w1 = Some ?D1" "w_heap ?w1 = w_heap w" by (simp_all add: desc_step_def)
  then have s2: "desc_step h ?D2 (w_heap w) w ?w2"
    using desc_step_trans [OF s1] desc_step_upd [of h ?w1 ?D1 "md_impl_update (\<lambda>_. IMPL_RING ?R)"] by simp
  have run: "rbm_stop_buffer h w = Some ?w2" using io by (simp add: rbm_stop_buffer_def ring_of_def)
  have "ring_machine h ?D2 ?R ?w2"
    using M(1) io s2 end_filter_cong [of ?w2 w] by (auto simp: ring_machine_def desc_step_def)
  moreover have "rb_rel (s_mem S) d cap (?R, w_heap w) q 0"
    using rb_rel_budget [OF M(2)] by (simp add: rb_rel_def ring_fifo_def ring_desc_def)
  ultimately have "stopped_rel S h d cap ?w2 q"
    unfolding stopped_rel_def using io s2 by (intro exI [of _ ?D2] exI [of _ ?R]) (simp add: read_state_def write_state_def desc_step_def)
  then show ?thesis using run by blast
qed

lemma stopped_read:
  assumes I: "stopped_rel S h d cap w q" and n: "0 < n" "n \<le> cap"
  shows "\<exists>w' m. machine_desc_read S (call_filter S (Suc k)) h d n w = Some (if q = [] then IO_COMPLETE else IO_SUCCESS, m, w') \<and>
    mem_read (mem (w_heap w')) d m = take n q \<and>
    (if q = [] then machine_get_read_desc h w' \<noteq> None \<and> map_option io_state (machine_get_read_desc h w') = Some IO_DESC_DISABLING
     else stopped_rel S h d cap w' (drop n q))"
proof -
  obtain D R where M: "ring_machine h D R w" and st: "read_state D = Some IO_DESC_ENABLED"
      "write_state D \<in> {Some IO_DESC_DISABLING, Some IO_DESC_DISABLED}"
    and fl: "r_flush R" and rel: "rb_rel (s_mem S) d cap (R, w_heap w) q 0"
    using I by (auto simp: stopped_rel_def)
  obtain j where F: "ring_fifo [(d, cap)] R (w_heap w) q j" "r_min_return_size R = 0"
    using rel unfolding rb_rel_def prod.case by blast
  from rb_get_full [OF rel n(2)] obtain R' hp where
    P: "rb_get d n (R, w_heap w) = Some (take n q, R', hp)" "rb_rel (s_mem S) d cap (R', hp) (drop n q) 0" "r_flush R'"
    using fl by auto
  let ?m = "min n (length q)"
  from rb_buf_read_ready [OF F(1) _ n(2), of d 1 IO_NO_BLOCK] F(2) obtain R1 h1 where
    "rb_buf_read R d n IO_NO_BLOCK 1 (w_heap w) = Some (if r_flush R \<and> ?m = 0 then IO_COMPLETE else IO_SUCCESS, ?m, R1, h1)"
    by auto
  then obtain m where
    W: "rb_buf_read R d n IO_NO_BLOCK IO_DEFAULT_ALIGN (w_heap w) = Some (if q = [] then IO_COMPLETE else IO_SUCCESS, m, R1, h1)"
    using fl n(1) by (cases "q = []") (simp_all add: IO_DEFAULT_ALIGN_def)
  with P(1) have eq: "R1 = R'" "h1 = hp" "mem_read (mem hp) d m = take n q"
    by (auto simp: rb_get_def IO_DEFAULT_ALIGN_def)
  let ?st = "if q = [] then IO_COMPLETE else IO_SUCCESS"
  from ring_machine_read [OF M st(1) W, of S k] obtain w' ms where
    r: "machine_desc_read S (call_filter S (Suc k)) h d n w = Some (?st, m, w')"
      "desc_step h ((after_read ?st D)\<lparr>md_impl := IMPL_RING R', md_metrics := ms\<rparr>) hp w w'" unfolding eq by blast
  have hp: "w_heap w' = hp" and g: "machine_get_desc h w' = Some ((after_read ?st D)\<lparr>md_impl := IMPL_RING R', md_metrics := ms\<rparr>)"
    using r(2) by (simp_all add: desc_step_def)
  show ?thesis
  proof (cases "q = []")
    case True
    then show ?thesis using r(1) eq(3) hp g st(1)
      by (auto simp: machine_get_read_desc_def after_read_def read_state_def simp del: call_filter.simps)
  next
    case False
    then have "ring_machine h (D\<lparr>md_impl := IMPL_RING R', md_metrics := ms\<rparr>) R' w'"
      using ring_machine_step [OF M] r(2) by (simp add: after_read_def)
    then have "stopped_rel S h d cap w' (drop n q)"
      unfolding stopped_rel_def hp using st P(2,3)
      by (intro exI [of _ "D\<lparr>md_impl := IMPL_RING R', md_metrics := ms\<rparr>"] exI [of _ R']) (simp add: read_state_def write_state_def)
    then show ?thesis using False r(1) eq(3) hp by (intro exI [of _ w'] exI [of _ m]) simp
  qed
qed

lemma stopped_fetch:
  assumes "stopped_rel S h d cap w q" and "0 < n" and "n \<le> cap"
  shows "\<exists>st w'. machine_fetch S (Suc k) h d n w = Some (st, take n q, w') \<and>
    (if st = IO_COMPLETE then drop n q = [] \<and> map_option io_state (machine_get_read_desc h w') = Some IO_DESC_DISABLING
     else q \<noteq> [] \<and> stopped_rel S h d cap w' (drop n q))"
proof -
  from stopped_read [OF assms, of k] obtain w1 m where
    r: "machine_desc_read S (call_filter S (Suc k)) h d n w = Some (if q = [] then IO_COMPLETE else IO_SUCCESS, m, w1)"
      "mem_read (mem (w_heap w1)) d m = take n q"
      "if q = [] then machine_get_read_desc h w1 \<noteq> None \<and> map_option io_state (machine_get_read_desc h w1) = Some IO_DESC_DISABLING
       else stopped_rel S h d cap w1 (drop n q)" by blast
  then show ?thesis by (cases "q = []") (auto simp: machine_fetch_def simp del: call_filter.simps)
qed

interpretation stopped_ring: byte_source "stopped_rel S h d cap"
    "\<lambda>w. map_option io_state (machine_get_read_desc h w) = Some IO_DESC_DISABLING" cap "machine_fetch S (Suc k) h d"
  for S h d cap k
  by unfold_locales (rule stopped_fetch)

lemma write_disabled:
  assumes "machine_get_desc h w = Some D" and "md_io_write D = Some io" and "io_obj io \<noteq> 0"
    and "io_state io \<in> {IO_DESC_DISABLING, IO_DESC_DISABLED}"
  shows "\<exists>w'. machine_desc_write S call h buf m w = Some (IO_SUCCESS, 0, w') \<and> w_heap w' = w_heap w"
  using assms by (cases "io_state io") (auto simp: machine_desc_write_def set_write_state_def)

text \<open>C9. The end of a ring buffer: after \<open>stop\<close> (\<open>stop_buffer\<close>, called through the machine's function pointer), no write takes any bytes
  or touches the stored data, while reads of any positive size deliver exactly the bytes that were stored,
  in order; the read after the last byte, and no read before it, reports \<open>IO_COMPLETE\<close>, after which
  the machine disables reading. At most one read more than there are bytes is needed.\<close>

theorem ring_stop_drains:
  assumes "machine_rel S h d cap w q b" and "0 < n" and "n \<le> cap"
  shows "\<exists>w1 w2. iom_stop S STOP_BUFFER h w = Some w1 \<and>
    (\<forall>call buf m. \<exists>w'. machine_desc_write S call h buf m w1 = Some (IO_SUCCESS, 0, w') \<and> w_heap w' = w_heap w1) \<and>
    drain (machine_fetch S (Suc k) h d) n (length q + 1) w1 = Some (q, w2) \<and>
    map_option io_state (machine_get_read_desc h w2) = Some IO_DESC_DISABLING"
proof -
  obtain w1 where w1: "rbm_stop_buffer h w = Some w1" "stopped_rel S h d cap w1 q"
    using rbm_stop_buffer_ok [OF assms(1)] by blast
  then obtain D io where D: "machine_get_desc h w1 = Some D" "md_io_write D = Some io" "io_obj io \<noteq> 0"
    "io_state io \<in> {IO_DESC_DISABLING, IO_DESC_DISABLED}"
    by (auto simp: stopped_rel_def ring_machine_def write_state_def end_filter_def)
  show ?thesis using w1 write_disabled [OF D] stopped_ring.drain_all [OF w1(2) assms(2,3), of "length q + 1" k]
    by (auto simp: iom_stop_def simp del: drain.simps)
qed


text \<open>A ring buffer that was created and written to.\<close>

lemma demo_ring_machine: "\<exists>h w. machine_rel demo_sys h 1 64 w [10, 20, 30] 5"
proof -
  have pl: "pool_plenty (s_mem demo_sys) 0" by (rule demo_sys_ok(2)) simp
  obtain h w1 D R where N: "ring_machine h D R w1"
      "read_state D = Some IO_DESC_ENABLED" "write_state D = Some IO_DESC_ENABLED" "ring_new [(1, 64)] R (w_heap w1)"
      "r_block_align R = RB_DEFAULT_ALIGN" "r_block_realloc R = RB_DEFAULT_REALLOC" "r_high_water_mark R = 0"
      "r_high_water_count R = 0" "r_min_return_size R = 0" "\<not> r_flush R"
    using new_rb_machine_ok [OF demo_sys_ok(1) pl demo_sys_ok(3) demo_repalloc empty_world_ready] by blast
  have "\<exists>w'. machine_put demo_sys (Suc 0) h 1 [10, 20, 30] w1 = Some w' \<and> machine_rel demo_sys h 1 64 w' [10, 20, 30] 5"
    by (rule machine_first_put [OF demo_sys_ok(1) N])
      (simp_all add: sz_max_def demo_sys_ok(2) RB_DEFAULT_ALIGN_def MB_def KB_def ceil_div_def)
  then show ?thesis by blast
qed

theorem ring_stop_drains_witness:
  "\<exists>h w w1 w2. machine_rel demo_sys h 1 64 w [10, 20, 30] 5 \<and> iom_stop demo_sys STOP_BUFFER h w = Some w1 \<and>
     drain (machine_fetch demo_sys 1 h 1) 2 4 w1 = Some ([10, 20, 30], w2)"
proof -
  obtain h w where M: "machine_rel demo_sys h 1 64 w [10, 20, 30] 5" using demo_ring_machine by blast
  have n: "length [10, 20, 30 :: byte] + 1 = 4" by simp
  from ring_stop_drains [OF M, of 2 0, unfolded n] obtain w1 w2 where "iom_stop demo_sys STOP_BUFFER h w = Some w1"
    "drain (machine_fetch demo_sys (Suc 0) h 1) 2 4 w1 = Some ([10, 20, 30], w2)" by auto
  then show ?thesis using M unfolding One_nat_def by blast
qed

section \<open>Handles\<close>

text \<open>Freeing a pool leaves the memory that does not belong to it; \<open>belongs p a\<close> says that the area at \<open>a\<close> belongs to the pool \<open>p\<close>.\<close>

definition frees_only :: "env \<Rightarrow> (pool \<Rightarrow> addr \<Rightarrow> bool) \<Rightarrow> bool" where
  "frees_only E belongs \<longleftrightarrow> (\<forall>p h x. x \<in> set (live h) \<longrightarrow> \<not> belongs p (fst x) \<longrightarrow> x \<in> set (live (free_pool E p h)))"

text \<open>The pools of the machines that operations destroy, or create.\<close>

definition touched_pools :: "(machine_desc, io_handle) registry_op list \<Rightarrow> world \<Rightarrow> pool set" where
  "touched_pools ops w = {md_pool D |D. D \<in> set (w_descs w) \<and> Destroy (md_handle D) \<in> set ops} \<union> {md_pool d |d. Create d \<in> set ops}"

lemma register_desc_grows:
  assumes "repalloc_ok S" and "machine_register_desc S d w = Some (h, w')"
  shows "set (live (w_heap w)) \<subseteq> set (live (w_heap w'))"
proof -
  obtain k w1 where q: "request_handle S (md_machine d) w = Some (k, w1)" and r: "w_heap w' = w_heap w1"
    using assms(2) by (auto simp: machine_register_desc_def set_filter_handle_def upd_filter_def elim!: bind_SomeE split: if_splits option.splits)
  have "heap_grows hp hp'" if "repalloc S hp a n p = Some (b, hp')" for hp hp' a b n p
    using assms(1) that unfolding repalloc_ok_def by (metis option.inject prod.inject)
  then have "set (live hp) \<subseteq> set (live hp')" if "repalloc S hp a n p = Some (b, hp')" for hp hp' a b n p
    using that by (auto simp: heap_grows_def)
  then have "set (live (w_heap w)) \<subseteq> set (live (w_heap w1))" using q
    by (fastforce simp: request_handle_def add_live_def Let_def elim!: bind_SomeE split: if_splits prod.splits)
  then show ?thesis using r by simp
qed

lemma registry_run_memory:
  assumes E: "repalloc_ok S" "frees_only (s_mem S) belongs"
  shows "w_handle_counter w + creations ops < 2 ^ 31 \<Longrightarrow>
    registry_run (machine_register_desc S) (machine_destroy_desc S) ops w = Some (hs, w') \<Longrightarrow>
    x \<in> set (live (w_heap w)) \<Longrightarrow> \<forall>p \<in> touched_pools ops w. \<not> belongs p (fst x) \<Longrightarrow> x \<in> set (live (w_heap w'))"
proof (induction ops arbitrary: w hs)
  case (Cons op ops)
  show ?case
  proof (cases op)
    case (Create d)
    with Cons.prems(2) obtain h w1 hs1 where c: "machine_register_desc S d w = Some (h, w1)"
      "registry_run (machine_register_desc S) (machine_destroy_desc S) ops w1 = Some (hs1, w')" by (auto elim!: bind_SomeE)
    note spec = machine_register_desc_spec [OF c(1)]
    have "touched_pools ops w1 \<subseteq> touched_pools (op # ops) w" using spec(2) Cons.prems(1) Create by (auto simp: touched_pools_def)
    moreover have "w_handle_counter w1 + creations ops < 2 ^ 31" using spec(4) Cons.prems(1) Create by simp
    ultimately show ?thesis using Cons.IH [OF _ c(2)] register_desc_grows [OF E(1) c(1)] Cons.prems(3,4) by blast
  next
    case (Destroy h)
    with Cons.prems(2) obtain w1 where d: "machine_destroy_desc S h w = Some w1"
      "registry_run (machine_register_desc S) (machine_destroy_desc S) ops w1 = Some (hs, w')" by (auto elim!: bind_SomeE)
    note spec = machine_destroy_desc_spec [OF d(1)]
    have "set (w_descs w1) \<subseteq> set (w_descs w)" using spec(3) remove_first_set by auto
    then have "touched_pools ops w1 \<subseteq> touched_pools (op # ops) w" by (auto simp: touched_pools_def)
    moreover have "x \<in> set (live (w_heap w1))"
    proof (cases "machine_get_desc h w")
      case (Some D)
      then have "D \<in> set (w_descs w)" "md_handle D = h" by (auto simp: machine_get_desc_def find_Some_iff)
      then have "md_pool D \<in> touched_pools (op # ops) w" using Destroy by (auto simp: touched_pools_def)
      moreover have "w_heap w1 = free_pool (s_mem S) (md_pool D) (w_heap w)"
        using d(1) Some by (auto simp: machine_destroy_desc_def split: if_splits)
      ultimately show ?thesis using E(2) Cons.prems(3,4) unfolding frees_only_def by (cases x) simp
    qed (use d(1) Cons.prems(3) in \<open>simp add: machine_destroy_desc_def\<close>)
    moreover have "w_handle_counter w1 + creations ops < 2 ^ 31" using spec(2) Cons.prems(1) Destroy by simp
    ultimately show ?thesis using Cons.IH [OF _ d(2)] Cons.prems(4) by blast
  qed
qed simp

text \<open>C10. Registering and destroying machines in any order, as long as the counter of handles, a \<open>size_t\<close> that is cut to an \<open>int\<close>, stays below \<open>2 ^ 31\<close>: the handles
  given out are different from each other and from all handles given out before; a handle keeps leading to
  the same descriptor until it is destroyed, and to none from then on. All memory stays allocated that does not belong to the pool of a machine that is
  created or destroyed on the way: destroying a machine does not free the memory of another.\<close>

theorem machine_handles_not_reused:
  assumes "handles_ok w" and "w_handle_counter w + creations ops < 2 ^ 31" and "repalloc_ok S" and "frees_only (s_mem S) belongs"
    and "registry_run (machine_register_desc S) (machine_destroy_desc S) ops w = Some (hs, w')"
  shows "distinct hs \<and> set hs \<inter> used_handles w = {} \<and>
    (\<forall>h \<in> used_handles w. machine_get_desc h w' = (if Destroy h \<in> set ops then None else machine_get_desc h w)) \<and>
    (\<forall>x \<in> set (live (w_heap w)). (\<forall>p \<in> touched_pools ops w. \<not> belongs p (fst x)) \<longrightarrow> x \<in> set (live (w_heap w')))"
proof -
  have sp: "creations ops \<le> spare_handles w" using assms(2) by (simp add: spare_handles_def)
  show ?thesis using machines.run_handles [OF assms(1) sp assms(5)] machines.run_keeps [OF assms(1) sp assms(5)]
      registry_run_memory [OF assms(3,4,2,5)] by blast
qed

text \<open>Pools that free something: the area at the address of the same number.\<close>

definition arena_sys :: sys where
  "arena_sys = demo_sys\<lparr>s_mem := (s_mem demo_sys)\<lparr>free_pool := (\<lambda>p h. h\<lparr>live := filter (\<lambda>x. fst x \<noteq> p) (live h)\<rparr>)\<rparr>\<rparr>"

lemma null_world_handles: "handles_ok null_world" "used_handles null_world = {1, 2}" "w_handle_counter null_world = 2"
  by (simp_all add: handles_ok_def used_handles_def null_world_def new_null_machine_def get_null_machine_def create_null_def
      setup_defs insert_commute)

lemma null_world_run:
  "map_option fst (registry_run (machine_register_desc arena_sys) (machine_destroy_desc arena_sys)
     [Create zero_desc, Destroy 1, Create zero_desc] null_world) = Some [3, 4]"
  by (simp add: null_world_def new_null_machine_def get_null_machine_def create_null_def setup_defs arena_sys_def
      machine_destroy_desc_def machine_get_desc_def)

theorem machine_handles_not_reused_witness:
  "\<exists>w'. registry_run (machine_register_desc arena_sys) (machine_destroy_desc arena_sys)
     [Create zero_desc, Destroy 1, Create zero_desc] null_world = Some ([3, 4], w') \<and>
     machine_get_desc 1 w' = None \<and> machine_get_desc 2 w' = machine_get_desc 2 null_world"
proof -
  obtain w' where r: "registry_run (machine_register_desc arena_sys) (machine_destroy_desc arena_sys)
      [Create zero_desc, Destroy 1, Create zero_desc] null_world = Some ([3, 4], w')"
    using null_world_run by auto
  have "repalloc_ok arena_sys" "frees_only (s_mem arena_sys) (\<lambda>p a. a = p)"
    using demo_repalloc by (simp_all add: arena_sys_def repalloc_ok_def frees_only_def)
  from machine_handles_not_reused [OF null_world_handles(1) _ this r] r null_world_handles(2,3) show ?thesis by auto
qed

section \<open>A lock that is not released\<close>

lemma chain_has_path:
  "path (fnext w) f as 0 \<Longrightarrow> a \<noteq> 0 \<Longrightarrow> chain_has f a w = Some (a \<in> set as)"
proof (induction as arbitrary: f)
  case Nil
  then show ?case by (subst chain_has.simps) simp
next
  case (Cons x as)
  then obtain z where f: "f = x" "x \<noteq> 0" "fnext w x = Some z" "path (fnext w) z as 0" by auto
  then obtain fl where "w_filters w x = Some fl" "f_next fl = z" by (auto simp: fnext_def)
  then show ?case using f Cons.IH [OF f(4) Cons.prems(2)] by (subst chain_has.simps) auto
qed

text \<open>\<open>add_feedback_write_filter\<close> with a feedback filter that is not in the machine's chain returns without releasing
  the machine's lock; after that no write to the machine ever returns.\<close>

lemma feedback_filter_lock_kept:
  assumes "get_machine_ref h w = Some m" "m < length (w_machines w)" "m_lock (w_machines w ! m) = LOCK_MACHINE"
    and D: "machine_get_desc h w = Some D" "md_io_write D = Some io" "io_obj io \<noteq> 0"
      "io_state io = IO_DESC_ENABLED" "\<not> md_lock D"
    and chain: "path (fnext w) (io_obj io) as 0" "feedback \<noteq> 0" "feedback \<notin> set as"
  shows "\<exists>w'. add_feedback_write_filter S h addme feedback metric w = Some w' \<and>
    (\<forall>call buf n. machine_desc_write S call h buf n w' = None)"
proof -
  let ?w' = "upd_desc h (md_lock_update (\<lambda>_. True)) w"
  have g: "machine_get_desc h ?w' = Some (D\<lparr>md_lock := True\<rparr>)" using D(1) by (simp add: get_upd_desc)
  have "fnext ?w' = fnext w" by (simp add: fnext_def fun_eq_iff)
  then have c: "chain_has (io_obj io) feedback ?w' = Some False" using chain_has_path [of ?w'] chain by simp
  have "add_feedback_write_filter S h addme feedback metric w = Some ?w'"
    using assms(1-3) D c g by (auto simp: add_feedback_write_filter_def iom_lock_def machine_lock_def machine_get_write_desc_def)
  moreover have "machine_desc_write S call h buf n ?w' = None" for call buf n
    using D g by (simp add: machine_desc_write_def machine_desc_acquire_def)
  ultimately show ?thesis by blast
qed

end
