(* ===== verification/Metrics_Properties.thy ===== *)
theory Metrics_Properties
  imports Demo_World
begin

text \<open>
  Properties of the metrics: what is counted is the sum of what was transferred, however the
  periodic updates fall; how the record of calculations develops; when formatting ends.
\<close>

section \<open>Counting\<close>

text \<open>What can happen to the metrics of one direction: a transfer with the bytes asked for and the bytes
  moved, the signal of a timer, an update by the machine itself (at the end of the data or when
  it is disabled).\<close>

datatype metrics_event = Transfer size_t size_t | Signal | Update

fun metrics_step :: "(nat \<Rightarrow> timeval) \<Rightarrow> metrics_event \<Rightarrow> io_metrics_data \<times> nat \<Rightarrow> io_metrics_data \<times> nat" where
  "metrics_step clock (Transfer req rec) (m, t) = metrics_fn clock t req rec m"
| "metrics_step clock Signal (m, t) = (m\<lparr>mt_update_signal := True\<rparr>, t)"
| "metrics_step clock Update (m, t) = (machine_metrics_update m, t)"

definition metrics_run :: "(nat \<Rightarrow> timeval) \<Rightarrow> metrics_event list \<Rightarrow> io_metrics_data \<times> nat \<Rightarrow> io_metrics_data \<times> nat" where
  "metrics_run clock = fold (metrics_step clock)"

fun requested :: "metrics_event list \<Rightarrow> nat" where
  "requested [] = 0"
| "requested (Transfer req rec # es) = req + requested es"
| "requested (_ # es) = requested es"

fun received :: "metrics_event list \<Rightarrow> nat" where
  "received [] = 0"
| "received (Transfer req rec # es) = rec + received es"
| "received (_ # es) = received es"

definition seen :: "io_metrics_count \<Rightarrow> nat" where
  "seen c = mc_total_bytes c + mc_bytes c"

lemma seen_fold: "seen c < sz_max \<Longrightarrow> seen (fold_count c) = seen c"
  by (simp add: seen_def fold_count_def sz_add_exact)

lemma seen_update:
  assumes "seen (mt_req m) < sz_max" and "seen (mt_rec m) < sz_max"
  shows "seen (mt_req (machine_metrics_update m)) = seen (mt_req m)"
    "seen (mt_rec (machine_metrics_update m)) = seen (mt_rec m)"
  using assms by (simp_all add: machine_metrics_update_def Let_def seen_fold)

lemma seen_add: "seen c + n < sz_max \<Longrightarrow> seen (c\<lparr>mc_count := k, mc_bytes := sz_add (mc_bytes c) n\<rparr>) = seen c + n"
  by (simp add: seen_def sz_add_exact)

lemma seen_update_fn:
  assumes "seen (mt_req m) + req < sz_max" and "seen (mt_rec m) + rec < sz_max"
  shows "seen (mt_req (machine_metrics_update_fn now req rec m)) = seen (mt_req m) + req"
    "seen (mt_rec (machine_metrics_update_fn now req rec m)) = seen (mt_rec m) + rec"
  using assms seen_update
  by (auto simp: machine_metrics_update_fn_def Let_def metrics_print_effect_def seen_add)

lemma seen_metrics_fn:
  assumes "seen (mt_req m) + req < sz_max" and "seen (mt_rec m) + rec < sz_max"
  shows "seen (mt_req (fst (metrics_fn clock t req rec m))) = seen (mt_req m) + req"
    "seen (mt_rec (fst (metrics_fn clock t req rec m))) = seen (mt_rec m) + rec"
  using assms seen_update_fn by (auto simp: metrics_fn_def split: metrics_call.splits)

lemma metrics_run_seen:
  "seen (mt_req m) + requested es < sz_max \<Longrightarrow> seen (mt_rec m) + received es < sz_max \<Longrightarrow>
     seen (mt_req (fst (metrics_run clock es (m, t)))) = seen (mt_req m) + requested es \<and>
     seen (mt_rec (fst (metrics_run clock es (m, t)))) = seen (mt_rec m) + received es"
proof (induction es arbitrary: m t)
  case (Cons e es)
  obtain m' t' where s: "metrics_step clock e (m, t) = (m', t')" by fastforce
  show ?case
  proof (cases e)
    case (Transfer req rec)
    then have "m' = fst (metrics_fn clock t req rec m)" using s by (metis fst_conv metrics_step.simps(1))
    then show ?thesis using Cons.prems Cons.IH [of m' t'] seen_metrics_fn [of m req rec clock t] Transfer s
      by (simp add: metrics_run_def add.assoc)
  next
    case Signal
    then show ?thesis using Cons.prems Cons.IH [of m' t'] s by (auto simp: metrics_run_def)
  next
    case Update
    then show ?thesis using Cons.prems Cons.IH [of m' t'] s seen_update [of m] by (auto simp: metrics_run_def)
  qed
qed (simp add: metrics_run_def)

text \<open>C30. Nothing is counted twice or forgotten: after any sequence of transfers, timer signals and updates,
  the bytes of past periods and of the current one together are the bytes requested, and the bytes
  received, in all transfers since the metrics were created, as long as the sums fit a \<open>size_t\<close>.\<close>

theorem metrics_count_all:
  assumes "requested es < sz_max" and "received es < sz_max"
  shows "seen (mt_req (fst (metrics_run clock es (new_metrics, t)))) = requested es \<and>
    seen (mt_rec (fst (metrics_run clock es (new_metrics, t)))) = received es"
  using metrics_run_seen [of new_metrics es clock t] assms by (simp add: new_metrics_def zero_count_def seen_def)

theorem metrics_count_all_witness:
  "let m = fst (metrics_run (gettimeofday demo_sys) [Transfer 100 60, Signal, Transfer 100 40, Update, Transfer 7 0] (new_metrics, 0))
   in seen (mt_req m) = 207 \<and> seen (mt_rec m) = 100"
  using metrics_count_all [of "[Transfer 100 60, Signal, Transfer 100 40, Update, Transfer 7 0]" "gettimeofday demo_sys" 0]
  by (simp add: sz_max_def)

lemma update_calc:
  "mt_n_calc m = 0 \<Longrightarrow> mt_n_calc (machine_metrics_update m) = 0 \<and>
     length (mt_calc (machine_metrics_update m)) = max 1 (length (mt_calc m)) \<and>
     mt_calc_len (machine_metrics_update m) = sz_add (mt_calc_len m) 10"
  by (simp add: machine_metrics_update_def Let_def METRIC_CALC_ALLOC_def max_def Suc_le_eq)

text \<open>The record of calculations never gets longer than one entry, since the number of entries is never
  increased: every update overwrites the first entry, and yet makes the array ten entries longer.\<close>

lemma metrics_calc_overwritten:
  assumes "10 * k < sz_max" and "0 < k"
  shows "let m = (machine_metrics_update ^^ k) new_metrics in
    mt_n_calc m = 0 \<and> length (mt_calc m) = 1 \<and> mt_calc_len m = 10 * k"
  using assms
proof (induction k)
  case (Suc k)
  let ?m = "(machine_metrics_update ^^ k) new_metrics"
  have "mt_n_calc ?m = 0 \<and> length (mt_calc ?m) \<le> 1 \<and> mt_calc_len ?m = 10 * k"
    using Suc by (cases "k = 0") (simp_all add: Let_def new_metrics_def)
  then show ?case using update_calc [of ?m] Suc.prems(1) by (auto simp: Let_def sz_add_exact)
qed simp

section \<open>Formatting\<close>

text \<open>A step of \<open>double_fmt\<close> divides by more than 1000.\<close>

lemma fmt_step: "1000 < x \<Longrightarrow> x \<le> 1000 * 1000 ^ Suc n \<Longrightarrow> dbl (x / 1024) \<le> 1000 * 1000 ^ n" for x :: rat
proof -
  assume x: "1000 < x" "x \<le> 1000 * 1000 ^ Suc n"
  have "dbl (x / 1024) \<le> x / 1024 * (1 + 1 / 2 ^ 53)" using x by (intro dbl_le) simp
  also have "\<dots> \<le> x / 1000" using x(1) by simp
  also have "\<dots> \<le> 1000 * 1000 ^ n" using x(2) by simp
  finally show ?thesis .
qed

lemma double_fmt_loop_ends:
  "x \<le> 1000 * 1000 ^ n \<Longrightarrow> \<exists>y f. double_fmt_loop (Fin x) k = Some (Fin y, f) \<and> y \<le> 1000 \<and> f \<le> k + n" for x :: rat
proof (induction n arbitrary: x k)
  case 0
  then show ?case by (subst double_fmt_loop.simps) simp
next
  case (Suc n)
  show ?case
  proof (cases "1000 < x")
    case True
    from Suc.IH [OF fmt_step [OF True Suc.prems], of "k + 1"] show ?thesis
      using True by (subst double_fmt_loop.simps) fastforce
  next
    case False
    then show ?thesis by (subst double_fmt_loop.simps) simp
  qed
qed

lemma double_fmt_loop_inf: "double_fmt_loop v k \<noteq> Some r \<or> v \<noteq> PInf"
proof -
  have "v \<noteq> PInf" if "double_fmt_loop v k = Some r"
    by (rule double_fmt_loop.raw_induct [where P = "\<lambda>v k r. v \<noteq> PInf", OF _ that]) (auto split: cdouble.splits)
  then show ?thesis by blast
qed

text \<open>C33. \<open>double_fmt\<close> ends for every finite value: a value of up to \<open>1000\<close> to the power \<open>n + 1\<close> is brought to at most
  1000 in no more than \<open>n\<close> divisions. For infinity, which a rate over an interval of no length is, it never ends.\<close>

theorem double_fmt_ends_iff_finite:
  "(\<forall>n x k. x \<le> 1000 * 1000 ^ n \<longrightarrow> (\<exists>y f. double_fmt_loop (Fin x) k = Some (Fin y, f) \<and> y \<le> 1000 \<and> f \<le> k + n)) \<and>
   double_fmt_loop PInf k' = None"
  using double_fmt_loop_ends double_fmt_loop_inf [of PInf k'] by (metis not_None_eq)

text \<open>A rate over an empty interval.\<close>

theorem double_fmt_ends_iff_finite_witness:
  "(\<exists>y f. double_fmt_loop (Fin 5000000) 0 = Some (Fin y, f) \<and> y \<le> 1000 \<and> f \<le> 2) \<and> double_fmt_loop (cdiv 5 0) 0 = None"
  using double_fmt_ends_iff_finite [of 0, THEN conjunct1, rule_format, of 5000000 2 0] double_fmt_ends_iff_finite [of 0]
  by (simp add: cdiv_def numeral_2_eq_2)

end
