(* ===== verification/Filter_Properties.thy ===== *)
theory Filter_Properties
  imports Machine_Properties
begin

text \<open>
  Properties of filters: searching a chain, hanging a chain in front of a machine's, the filters
  that limit and count.
\<close>

section \<open>Chains\<close>

lemma fnext_upd_filter:
  "upd_filter a g w = Some w' \<Longrightarrow> fnext w' = (fnext w)(a := map_option (f_next \<circ> g) (w_filters w a))"
  by (auto simp: upd_filter_def get_filter_def fnext_def bind_eq_Some_conv fun_eq_iff split: if_splits)

lemma path_last: "path nx x (as @ [a]) y \<Longrightarrow> nx a = Some y"
  by (induction as arbitrary: x) auto

text \<open>\<open>get_io_filter\<close> searches a chain from the front: on every chain that ends, it returns the first filter of the given
  name, or NULL if no filter of the chain has it.\<close>

lemma find_filter_first:
  assumes "path (fnext w) flt as 0"
  shows "find_filter flt name w =
    Some (case filter (\<lambda>a. map_option f_name (w_filters w a) = Some name) as of [] \<Rightarrow> 0 | a # _ \<Rightarrow> a)"
  using assms
proof (induction as arbitrary: flt)
  case Nil
  then show ?case by (subst find_filter.simps) simp
next
  case (Cons x as)
  then obtain z where f: "flt = x" "x \<noteq> 0" "fnext w x = Some z" "path (fnext w) z as 0" by auto
  then obtain fl where fl: "w_filters w x = Some fl" "f_next fl = z" by (auto simp: fnext_def)
  show ?case using f fl Cons.IH [OF f(4)] by (subst find_filter.simps) simp
qed

text \<open>Two null machines and a chain of two filters, at addresses 10 and 11.\<close>

definition loose_filter :: "string \<Rightarrow> addr \<Rightarrow> io_filter" where
  "loose_filter name nx = \<lparr>f_enabled = True, f_direction = IOF_BIDIRECTIONAL, f_name = name, f_alloc = 1, f_obj = OBJ_NULL,
     f_next = nx, f_call = FN_BYTE_COUNTER, f_reset = None\<rparr>"

definition chain_world :: world where
  "chain_world = null_world\<lparr>w_filters := (w_filters null_world)(10 \<mapsto> loose_filter ''first'' 11, 11 \<mapsto> loose_filter ''second'' 0)\<rparr>"

lemma chain_world_new: "path (fnext chain_world) 10 ([10] @ [11]) 0"
  by (simp add: chain_world_def fnext_def loose_filter_def)

text \<open>The walk to the end of a chain.\<close>

lemma chain_end_path:
  assumes "path (fnext w) f (as @ [a]) 0" and "distinct (as @ [a])"
  shows "\<exists>fl. chain_end dir f w = Some (a, w\<lparr>w_filters := fl\<rparr>) \<and>
    fl = (\<lambda>b. if b \<in> set as then map_option (f_direction_update (\<lambda>_. dir)) (w_filters w b) else w_filters w b)"
  using assms
proof (induction as arbitrary: f w)
  case Nil
  then obtain fl where "f = a" "a \<noteq> 0" "w_filters w a = Some fl" "f_next fl = 0" by (auto simp: fnext_def)
  then show ?case by (subst chain_end.simps) simp
next
  case (Cons x as)
  then obtain z where f: "f = x" "x \<noteq> 0" "fnext w x = Some z" "path (fnext w) z (as @ [a]) 0" by auto
  then obtain fl where fl: "w_filters w x = Some fl" "f_next fl = z" by (auto simp: fnext_def)
  have z: "z \<noteq> 0" using f(4) by (cases as) auto
  let ?w1 = "w\<lparr>w_filters := (w_filters w)(x \<mapsto> fl\<lparr>f_direction := dir\<rparr>)\<rparr>"
  have u: "upd_filter x (f_direction_update (\<lambda>_. dir)) w = Some ?w1" using f(2) fl(1) by (simp add: upd_filter_def)
  have n1: "fnext ?w1 = fnext w" using fl(1) by (auto simp: fnext_def fun_eq_iff)
  from Cons.IH [of ?w1 z] f(4) Cons.prems(2) n1 have
    "chain_end dir z ?w1 = Some (a, ?w1\<lparr>w_filters := \<lambda>b. if b \<in> set as then map_option (f_direction_update (\<lambda>_. dir)) (w_filters ?w1 b) else w_filters ?w1 b\<rparr>)"
    by auto
  moreover have "(\<lambda>b. if b \<in> set as then map_option (f_direction_update (\<lambda>_. dir)) (w_filters ?w1 b) else w_filters ?w1 b) =
      (\<lambda>b. if b \<in> set (x # as) then map_option (f_direction_update (\<lambda>_. dir)) (w_filters w b) else w_filters w b)"
    using Cons.prems(2) fl(1) by (auto simp: fun_eq_iff)
  ultimately show ?case
    using f(1,2) fl z u by (subst chain_end.simps) simp
qed


text \<open>A machine's lock does not change which channels there are, and is released where it was taken.\<close>

lemma find_upd_kept:
  assumes "\<And>d. P (g d) = P d" and "\<And>d. md_handle (g d) = md_handle d"
  shows "map_option md_handle (find P (upd_first h g ds)) = map_option md_handle (find P ds)"
  by (induction ds) (auto simp: assms)

lemma get_channel_upd:
  assumes "\<And>d. md_impl (g d) = md_impl d" and "\<And>d. md_handle (g d) = md_handle d"
  shows "get_channel k (upd_desc h g w) = get_channel k w"
proof -
  have c: "map_option md_handle (channel_at p (upd_desc h g w)) = map_option md_handle (channel_at p w)" for p
    unfolding channel_at_def upd_desc_def using find_upd_kept [OF _ assms(2)] assms(1) by simp
  have bind: "do { d \<leftarrow> x; if md_handle d = k then Some True else y } = do { i \<leftarrow> map_option md_handle x; if i = k then Some True else y }"
    for x and y :: "bool option" by (cases x) simp_all
  have f: "find_channel ps k (upd_desc h g w) = find_channel ps k w" for ps
    by (induction ps) (simp_all only: find_channel.simps bind c)
  have "get_channel_loop ds k (upd_desc h g w) = get_channel_loop ds k w" for ds
    by (induction ds) (simp_all add: f cong: if_cong)
  then show ?thesis by (simp add: get_channel_def upd_desc_def)
qed

text \<open>The lock of machine \<open>m\<close> can be found: that of a radio is looked for among the channels.\<close>

definition lockable :: "nat \<Rightarrow> io_handle \<Rightarrow> world \<Rightarrow> bool" where
  "lockable m h w \<longleftrightarrow> m < length (w_machines w) \<and> (m_lock (w_machines w ! m) = LOCK_SDR \<longrightarrow> get_channel h w \<noteq> None)"

text \<open>Whether \<open>machine->lock\<close> takes the lock of the descriptor: \<open>sdr_lock\<close> takes none if there is no channel.\<close>

definition takes_lock :: "nat \<Rightarrow> io_handle \<Rightarrow> world \<Rightarrow> bool" where
  "takes_lock m h w \<longleftrightarrow> (case m_lock (w_machines w ! m) of LOCK_MACHINE \<Rightarrow> True | LOCK_SDR \<Rightarrow> get_channel h w = Some True)"

lemma iom_lock_ok:
  assumes "lockable m h w" and "machine_get_desc h w = Some D" and "\<not> md_lock D"
  shows "iom_lock m h w = Some (upd_desc h (md_lock_update (\<lambda>_. takes_lock m h w)) w)"
proof -
  have same: "upd_desc h (md_lock_update (\<lambda>_. False)) w = w" using upd_first_same [of h "w_descs w" D "md_lock_update (\<lambda>_. False)"] assms(2,3)
    by (cases D) (simp add: upd_desc_def machine_get_desc_def)
  show ?thesis using assms same
    by (cases "m_lock (w_machines w ! m)"; cases "get_channel h w = Some True")
      (auto simp: iom_lock_def lockable_def takes_lock_def sdr_lock_def machine_lock_def)
qed

lemma iom_unlock_ok:
  assumes "lockable m h w" and "machine_get_desc h w = Some D" and "md_lock D = takes_lock m h w"
  shows "iom_unlock m h w = Some (upd_desc h (md_lock_update (\<lambda>_. False)) w)"
proof -
  have same: "upd_desc h (md_lock_update (\<lambda>_. False)) w = w" if "\<not> takes_lock m h w"
    using upd_first_same [of h "w_descs w" D "md_lock_update (\<lambda>_. False)"] assms(2,3) that
    by (cases D) (simp add: upd_desc_def machine_get_desc_def)
  show ?thesis using assms same
    by (cases "m_lock (w_machines w ! m)"; cases "get_channel h w = Some True")
      (auto simp: iom_unlock_def lockable_def takes_lock_def sdr_unlock_def machine_unlock_def)
qed

lemma lock_upd:
  assumes "\<And>d. md_impl (g d) = md_impl d" and "\<And>d. md_handle (g d) = md_handle d"
  shows "lockable m h (upd_desc k g w) = lockable m h w" "takes_lock m h (upd_desc k g w) = takes_lock m h w"
  using get_channel_upd [OF assms] by (simp_all add: lockable_def takes_lock_def split: io_locker.split)

lemma get_channel_filters: "get_channel h (w\<lparr>w_filters := fl\<rparr>) = get_channel h w"
proof -
  have f: "find_channel ps k (w\<lparr>w_filters := fl\<rparr>) = find_channel ps k w" for ps k by (induction ps) (simp_all add: channel_at_def cong: if_cong)
  have "get_channel_loop ds k (w\<lparr>w_filters := fl\<rparr>) = get_channel_loop ds k w" for ds k by (induction ds) (simp_all add: f cong: if_cong)
  then show ?thesis by (simp add: get_channel_def)
qed

lemma lock_filters: "lockable m h (w\<lparr>w_filters := fl\<rparr>) = lockable m h w" "takes_lock m h (w\<lparr>w_filters := fl\<rparr>) = takes_lock m h w"
  by (simp_all add: lockable_def takes_lock_def get_channel_filters split: io_locker.split)

text \<open>What hanging the chain \<open>as @ [a]\<close>, which begins with \<open>addme\<close>, in front of \<open>io\<close> makes of a filter at \<open>b\<close>.\<close>

definition hung :: "addr \<Rightarrow> addr list \<Rightarrow> addr \<Rightarrow> io_filter_direction \<Rightarrow> addr \<Rightarrow> addr \<Rightarrow> io_filter \<Rightarrow> io_filter" where
  "hung addme as a dir old b f = f\<lparr>f_direction := (if b \<in> set as \<union> {addme} then dir else f_direction f),
     f_next := (if b = a then old else f_next f)\<rparr>"

lemma hung_inner: "b \<in> set as \<Longrightarrow> b \<noteq> a \<Longrightarrow> hung addme as a dir old b = f_direction_update (\<lambda>_. dir)"
  by (rule ext) (simp add: hung_def)

lemma add_write_filter_steps:
  assumes "chain_end IOF_WRITE addme w = Some (a, w1)" and "upd_filter addme (f_direction_update (\<lambda>_. IOF_WRITE)) w1 = Some w2"
    and "get_machine_ref h w2 = Some m" and "iom_lock m h w2 = Some w3" and "machine_get_write_desc h w3 = Some io"
    and "upd_filter a (f_next_update (\<lambda>_. io_obj io)) w3 = Some w4" and "iom_unlock m h (set_write_obj h addme w4) = Some w5"
  shows "add_write_filter h addme w = Some w5"
  using assms by (simp add: add_write_filter_def)

lemma add_write_filter_run:
  assumes new: "path (fnext w) addme (as @ [a]) 0" "distinct (as @ [a])"
    and m: "get_machine_ref h w = Some m" "lockable m h w" "machine_get_desc h w = Some D" "\<not> md_lock D" "md_io_write D = Some io"
  shows "add_write_filter h addme w = Some ((set_write_obj h addme w)\<lparr>w_filters := \<lambda>b.
    if b \<in> set (as @ [a]) then map_option (hung addme as a IOF_WRITE (io_obj io) b) (w_filters w b) else w_filters w b\<rparr>)"
proof -
  let ?fl = "\<lambda>b. if b \<in> set as then map_option (f_direction_update (\<lambda>_. IOF_WRITE)) (w_filters w b) else w_filters w b"
  have in0: "addme \<in> set (as @ [a])" "addme \<noteq> 0" "a \<noteq> 0" using new path_nonzero [OF new(1)] by (cases as; auto)+
  have ex: "w_filters w b \<noteq> None" if "b \<in> set (as @ [a])" for b
    using subsetD [OF path_dom [OF new(1)] that] by (auto simp: fnext_def dom_def)
  have c: "chain_end IOF_WRITE addme w = Some (a, w\<lparr>w_filters := ?fl\<rparr>)" using chain_end_path [OF new, of IOF_WRITE] by blast
  obtain f where f: "?fl addme = Some f" using ex [OF in0(1)] by (cases "w_filters w addme"; cases "addme \<in> set as") auto
  let ?fl2 = "?fl(addme \<mapsto> f\<lparr>f_direction := IOF_WRITE\<rparr>)"
  let ?w2 = "w\<lparr>w_filters := ?fl2\<rparr>" and ?t = "takes_lock m h w"
  have u2: "upd_filter addme (f_direction_update (\<lambda>_. IOF_WRITE)) (w\<lparr>w_filters := ?fl\<rparr>) = Some ?w2"
    using f in0(2) by (simp add: upd_filter_def get_filter_def)
  let ?w3 = "upd_desc h (md_lock_update (\<lambda>_. ?t)) ?w2"
  have g2: "machine_get_desc h ?w2 = Some D" using m(3) by (simp add: machine_get_desc_def)
  have l: "iom_lock m h ?w2 = Some ?w3" using iom_lock_ok [OF _ g2 m(4), of m] m(2) by (simp add: lock_filters)
  have g3: "machine_get_desc h ?w3 = Some (D\<lparr>md_lock := ?t\<rparr>)" using g2 by (simp add: get_upd_desc)
  obtain fa where fa: "?fl2 a = Some fa" using ex [of a] new(2) by (cases "a = addme") auto
  let ?fl4 = "?fl2(a \<mapsto> fa\<lparr>f_next := io_obj io\<rparr>)"
  let ?w4 = "?w3\<lparr>w_filters := ?fl4\<rparr>" and ?obj = "\<lambda>d. d\<lparr>md_io_write := map_option (io_obj_update (\<lambda>_. addme)) (md_io_write d)\<rparr>"
  have u4: "upd_filter a (f_next_update (\<lambda>_. io_obj io)) ?w3 = Some ?w4" using fa in0(3) by (simp add: upd_filter_def get_filter_def)
  let ?w5 = "upd_desc h ?obj ?w4"
  have g4: "machine_get_desc h ?w4 = Some (D\<lparr>md_lock := ?t\<rparr>)" using g3 by (simp add: machine_get_desc_def)
  then have g5: "machine_get_desc h ?w5 = Some (?obj (D\<lparr>md_lock := ?t\<rparr>))" by (simp add: get_upd_desc)
  have l5: "lockable m h ?w5 = lockable m h w" "takes_lock m h ?w5 = ?t" by (simp_all add: lock_upd lock_filters)
  have "iom_unlock m h ?w5 = Some (upd_desc h (md_lock_update (\<lambda>_. False)) ?w5)"
    using iom_unlock_ok [OF _ g5] l5 m(2) by simp
  then have unl: "iom_unlock m h (set_write_obj h addme ?w4) = Some (upd_desc h (md_lock_update (\<lambda>_. False)) ?w5)"
    unfolding set_write_obj_def .
  have ref: "get_machine_ref h ?w2 = Some m" using m(1) by (simp add: get_machine_ref_def get_machine_by_handle_def)
  have io: "machine_get_write_desc h ?w3 = Some io" using g3 m(5) by (simp add: machine_get_write_desc_def)
  note run = add_write_filter_steps [OF c u2 ref l io u4 unl]
  have D: "find (\<lambda>d. md_handle d = h) (w_descs w) = Some D" "md_handle D = h" using m(3) by (auto simp: machine_get_desc_def find_Some_iff)
  have "(?obj (D\<lparr>md_lock := ?t\<rparr>))\<lparr>md_lock := False\<rparr> = ?obj D" using m(4) by (cases D) simp
  then have "upd_first h (md_lock_update (\<lambda>_. False)) (upd_first h ?obj (upd_first h (md_lock_update (\<lambda>_. ?t)) (w_descs w))) = upd_first h ?obj (w_descs w)"
    using upd_first_twice [OF D(1)] D(2) upd_first_const [OF D(1), of ?obj] by simp
  moreover have "?fl4 = (\<lambda>b. if b \<in> set (as @ [a]) then map_option (hung addme as a IOF_WRITE (io_obj io) b) (w_filters w b) else w_filters w b)"
    using f fa in0(1) new(2) ex by (auto simp: fun_eq_iff hung_inner) (auto simp: hung_def split: if_splits)
  ultimately show ?thesis unfolding run by (simp add: upd_desc_def set_write_obj_def)
qed

text \<open>C28. \<open>add_write_filter\<close> hangs a chain of filters in front of the filters of a machine: afterwards the machine's
  write chain is the new chain followed by the old one, and a write passes through all of them in
  this order. Of the new filters, the first and all but the last get the direction of writing, and the last gets the
  old chain as its successor; nothing else of them changes, nor any other filter. In the descriptor of the machine only the start
  of the write chain changes (the lock is released); other descriptors, the memory and all the rest of the state are as before. A last filter that is
  not also the first keeps the direction it had.\<close>

theorem add_write_filter_prepends:
  assumes new: "path (fnext w) addme (as @ [a]) 0" "distinct (as @ [a])"
    and m: "get_machine_ref h w = Some m" "lockable m h w" "machine_get_desc h w = Some D" "\<not> md_lock D" "md_io_write D = Some io"
    and old: "path (fnext w) (io_obj io) bs 0" "set (as @ [a]) \<inter> set bs = {}"
  shows "\<exists>w'. add_write_filter h addme w = Some w' \<and>
    machine_get_desc h w' = Some (D\<lparr>md_io_write := Some (io\<lparr>io_obj := addme\<rparr>)\<rparr>) \<and>
    path (fnext w') addme (as @ a # bs) 0 \<and>
    (\<forall>k. k \<noteq> h \<longrightarrow> machine_get_desc k w' = machine_get_desc k w) \<and>
    (\<forall>b. b \<notin> set (as @ [a]) \<longrightarrow> w_filters w' b = w_filters w b) \<and>
    (\<forall>b \<in> set (as @ [a]). w_filters w' b = map_option (\<lambda>f. f\<lparr>
        f_direction := (if b \<in> set as \<union> {addme} then IOF_WRITE else f_direction f),
        f_next := (if b = a then io_obj io else f_next f)\<rparr>) (w_filters w b)) \<and>
    w' = w\<lparr>w_descs := w_descs w', w_filters := w_filters w'\<rparr>"
proof -
  let ?fl = "\<lambda>b. if b \<in> set (as @ [a]) then map_option (hung addme as a IOF_WRITE (io_obj io) b) (w_filters w b) else w_filters w b"
  define w' where "w' = (set_write_obj h addme w)\<lparr>w_filters := ?fl\<rparr>"
  have g: "machine_get_desc k w' = (if k = h then Some (D\<lparr>md_io_write := Some (io\<lparr>io_obj := addme\<rparr>)\<rparr>) else machine_get_desc k w)" for k
  proof -
    have "machine_get_desc k w' = machine_get_desc k (set_write_obj h addme w)" by (simp add: w'_def machine_get_desc_def)
    also have "\<dots> = (if k = h then Some (D\<lparr>md_io_write := Some (io\<lparr>io_obj := addme\<rparr>)\<rparr>) else machine_get_desc k w)"
      unfolding set_write_obj_def by (subst get_upd_desc) (use m(3,5) in \<open>auto simp: option.map_id\<close>)
    finally show ?thesis .
  qed
  have "w_filters w a \<noteq> None" using subsetD [OF path_dom [OF new(1)], of a] by (auto simp: fnext_def dom_def)
  then have n: "fnext w' = (fnext w)(a \<mapsto> io_obj io)" by (auto simp: w'_def fnext_def fun_eq_iff hung_def option.map_comp comp_def)
  have "path (fnext w) addme as a" "a \<noteq> 0" using new(1) by (auto simp: path_append)
  moreover have "a \<notin> set as" "a \<notin> set bs" using new(2) old(2) by auto
  ultimately have "path (fnext w') addme (as @ a # bs) 0" unfolding n using old(1) by (auto simp: path_append path_upd_notin)
  moreover have "w' = w\<lparr>w_descs := w_descs w', w_filters := w_filters w'\<rparr>" by (simp add: w'_def set_write_obj_def upd_desc_def)
  moreover have "w_filters w' = ?fl" by (simp add: w'_def)
  moreover have "add_write_filter h addme w = Some w'" unfolding w'_def by (rule add_write_filter_run [OF new m])
  moreover have "hung addme as a IOF_WRITE (io_obj io) b = (\<lambda>f. f\<lparr>f_direction := (if b \<in> set as \<union> {addme} then IOF_WRITE else f_direction f),
      f_next := (if b = a then io_obj io else f_next f)\<rparr>)" for b by (rule ext) (rule hung_def)
  ultimately show ?thesis using g by (intro exI [of _ w']) simp
qed

lemma chain_world_machine:
  "\<exists>D io m. get_machine_ref 2 chain_world = Some m \<and> lockable m 2 chain_world \<and> machine_get_desc 2 chain_world = Some D \<and> \<not> md_lock D \<and>
     md_io_write D = Some io \<and> path (fnext chain_world) (io_obj io) [io_obj io] 0 \<and> io_obj io > 11"
  by (simp add: chain_world_def null_world_def new_null_machine_def get_null_machine_def create_null_def setup_defs fnext_def
      machine_get_desc_def get_machine_ref_def get_machine_by_handle_def lockable_def)

theorem add_write_filter_prepends_witness:
  "\<exists>w' io. add_write_filter 2 10 chain_world = Some w' \<and> io > 11 \<and> path (fnext w') 10 [10, 11, io] 0"
proof -
  obtain D io m where d: "get_machine_ref 2 chain_world = Some m" "lockable m 2 chain_world" "machine_get_desc 2 chain_world = Some D" "\<not> md_lock D"
     "md_io_write D = Some io" "path (fnext chain_world) (io_obj io) [io_obj io] 0" "io_obj io > 11"
    using chain_world_machine by blast
  from add_write_filter_prepends [OF chain_world_new _ d(1-6)] d(7) show ?thesis by (simp del: path.simps) blast
qed

section \<open>The byte limit\<close>

text \<open>
  A limiter at \<open>a\<close> with the counter \<open>c\<close>, in the direction of writing, in front of the filter that writes into a ring buffer, which holds
  the bytes \<open>q\<close> and has room for \<open>b\<close> more. The caller's buffer of \<open>cap\<close> bytes is at \<open>d\<close>.
\<close>

definition limited_ring :: "sys \<Rightarrow> addr \<Rightarrow> addr \<Rightarrow> nat \<Rightarrow> generic_counter \<Rightarrow> world \<Rightarrow> byte list \<Rightarrow> nat \<Rightarrow> bool" where
  "limited_ring S a d cap c w q b \<longleftrightarrow> (\<exists>f h D R. a \<noteq> 0 \<and> w_filters w a = Some f \<and> f_enabled f \<and> f_direction f = IOF_WRITE \<and>
     f_call f = FN_BYTE_COUNT_LIMITER \<and> f_obj f = OBJ_COUNTER c \<and> f_next f \<noteq> a \<and> end_filter FN_RB_WRITE h (f_next f) w \<and>
     machine_get_desc h w = Some D \<and> \<not> md_lock D \<and> md_impl D = IMPL_RING R \<and> rb_rel (s_mem S) d cap (R, w_heap w) q b)"

text \<open>Writes of the given bytes, one after the other, from the buffer at \<open>d\<close>: the status and the number of bytes of each.\<close>

fun write_all :: "filter_call \<Rightarrow> addr \<Rightarrow> addr \<Rightarrow> byte list list \<Rightarrow> world \<Rightarrow> ((io_status \<times> size_t) list \<times> world) option" where
  "write_all call a d [] w = Some ([], w)"
| "write_all call a d (xs # xss) w = do {
     (st, m, w1) \<leftarrow> call a d (length xs) IO_NO_BLOCK IO_DEFAULT_ALIGN (poke d xs w);
     (rs, w2) \<leftarrow> write_all call a d xss w1;
     Some ((st, m) # rs, w2)
   }"

lemma mem_write_prefix: "mem_write (mem_write m d xs) d (take k xs) = mem_write m d xs"
  by (auto simp: mem_write_def fun_eq_iff)

text \<open>The ring takes the first bytes of what is in the caller's buffer.\<close>

lemma rb_write_prefix:
  assumes I: "rb_rel E d cap (R, hp) q b" and xs: "length xs \<le> cap" "m \<le> length xs" "m \<le> b"
  shows "\<exists>R' hp'. rb_buf_write E p R d m (hp\<lparr>mem := mem_write (mem hp) d xs\<rparr>) = Some (IO_SUCCESS, m, R', hp') \<and>
    rb_rel E d cap (R', hp') (q @ take m xs) (b - m)"
proof -
  let ?hp = "hp\<lparr>mem := mem_write (mem hp) d xs\<rparr>"
  obtain k where "ring_fifo [(d, cap)] R hp q k" and pl: "pool_sound E" "pool_plenty E (2 * (k + b) * r_block_size R)" "2 * (k + b) < sz_max"
      "length q + b < sz_max" "r_low_water_mark R = 0" "r_high_water_mark R = 0" "r_high_water_count R + 1 < sz_max" "r_min_return_size R = 0"
    using I unfolding rb_rel_def prod.case by blast
  then have "ring_fifo [(d, cap)] R ?hp q k" using xs(1) by (intro ring_fifo_poke) auto
  then have J: "rb_rel E d cap (R, ?hp) q b" using pl by (intro rb_relI) auto
  have len: "length (take m xs) = m" using xs(2) by simp
  from rb_put_full [OF J, of "take m xs" p] xs len obtain R' hp' where
    "rb_put E p d (take m xs) (R, ?hp) = Some (R', hp')" "rb_rel E d cap (R', hp') (q @ take m xs) (b - m)" by fastforce
  then show ?thesis by (auto simp: rb_put_def mem_write_prefix min_absorb2 [OF xs(2)] split: option.splits io_status.splits if_splits)
qed

lemma limiter_write:
  assumes L: "limited_ring S a d cap c w q b" and t: "gc_total c \<le> gc_limit c" "gc_limit c < sz_max" "gc_total c + length xs < sz_max"
    and xs: "length xs \<le> cap" "length xs \<le> b"
  defines "m \<equiv> min (length xs) (gc_limit c - gc_total c)"
  shows "\<exists>w'. call_filter S (Suc (Suc k)) a d (length xs) block align (poke d xs w) =
      Some (if gc_limit c \<le> gc_total c + length xs then IO_COMPLETE else IO_SUCCESS, m, w') \<and>
    limited_ring S a d cap (c\<lparr>gc_total := gc_total c + m\<rparr>) w' (q @ take m xs) (b - m)"
proof -
  obtain f h D R where f: "a \<noteq> 0" "w_filters w a = Some f" "f_enabled f" "f_direction f = IOF_WRITE" "f_call f = FN_BYTE_COUNT_LIMITER"
      "f_obj f = OBJ_COUNTER c" "f_next f \<noteq> a" "end_filter FN_RB_WRITE h (f_next f) w"
    and D: "machine_get_desc h w = Some D" "\<not> md_lock D" "md_impl D = IMPL_RING R" "rb_rel (s_mem S) d cap (R, w_heap w) q b"
    using L by (auto simp: limited_ring_def)
  have lc: "limiter_count c (length xs) = (m, c\<lparr>gc_total := gc_total c + m\<rparr>)"
    using t by (auto simp: limiter_count_def m_def Let_def sz_add_exact sz_sub_exact min_def)
  let ?c = "c\<lparr>gc_total := gc_total c + m\<rparr>"
  let ?f = "f\<lparr>f_obj := OBJ_COUNTER ?c\<rparr>"
  let ?w1 = "(poke d xs w)\<lparr>w_filters := (w_filters w)(a \<mapsto> ?f)\<rparr>"
  have "m \<le> length xs" "m \<le> b" using xs(2) by (simp_all add: m_def)
  from rb_write_prefix [OF D(4) xs(1) this, of "md_pool D"] obtain R' hp' where
    W: "rb_buf_write (s_mem S) (md_pool D) R d m (w_heap ?w1) = Some (IO_SUCCESS, m, R', hp')" "rb_rel (s_mem S) d cap (R', hp') (q @ take m xs) (b - m)"
    by (auto simp: poke_def)
  let ?w2 = "put_ring h R' hp' ?w1"
  have e1: "end_filter FN_RB_WRITE h (f_next f) ?w1" using f(7,8) by (auto simp: end_filter_def)
  have g1: "machine_get_desc h ?w1 = Some D" using D(1) by (simp add: poke_def machine_get_desc_def)
  have sink: "call_filter S (Suc k) (f_next f) d m block align ?w1 = Some (IO_SUCCESS, m, ?w2)"
    using end_filterD [OF e1] g1 D W(1) by (auto simp: filter_body_def rbm_buf_write_def ring_of_def)
  have w2: "w_filters ?w2 = (w_filters w)(a \<mapsto> ?f)" "w_heap ?w2 = hp'" by (simp_all add: put_ring_def)
  have set: "set_counter a ?c (poke d xs w) = Some ?w1" and get: "get_counter a (poke d xs w) = Some c" "get_counter a ?w2 = Some ?c"
    and flt: "get_filter a (poke d xs w) = Some f"
    using f(1,2,6) w2(1) by (simp_all add: set_counter_def get_counter_def upd_filter_def get_filter_def poke_def)
  have "call_filter S (Suc (Suc k)) a d (length xs) block align (poke d xs w) =
      Some (if gc_limit c \<le> gc_total c + length xs then IO_COMPLETE else IO_SUCCESS, m, ?w2)"
    using f(3-5) lc set get flt sink t(1)
    by (subst call_filter.simps) (auto simp: filter_body_def byte_count_limiter_def unless_disabled_def limiter_end_def m_def simp del: call_filter.simps)
  moreover have g2: "machine_get_desc h ?w2 = Some (D\<lparr>md_impl := IMPL_RING R'\<rparr>)"
    using put_ring_step [OF g1, of R' hp'] by (simp add: desc_step_def)
  have "end_filter FN_RB_WRITE h (f_next f) ?w2" using f(7,8) w2(1) by (auto simp: end_filter_def)
  then have "limited_ring S a d cap ?c ?w2 (q @ take m xs) (b - m)" unfolding limited_ring_def using f(1,3-5,7) w2 g2 D(2) W(2)
    by (intro exI [of _ ?f] exI [of _ h] exI [of _ "D\<lparr>md_impl := IMPL_RING R'\<rparr>"] exI [of _ R']) simp
  ultimately show ?thesis by blast
qed

lemma take_min_append:
  assumes "m = min (length xs) k"
  shows "take m xs @ take (k - m) ys = take k (xs @ ys)"
  using assms by (cases "length xs \<le> k") simp_all

text \<open>C27. The byte limit on writing: a limiter with limit \<open>L\<close>, of which \<open>t\<close> bytes are used, in front of a ring buffer. Of the bytes written, one write after the other,
  exactly the first \<open>L - t\<close> reach the ring buffer, in order, and no others; write \<open>i\<close> returns the number of its bytes that fit under the limit, with
  \<open>IO_COMPLETE\<close> from the write on that reaches the limit, and \<open>IO_SUCCESS\<close> before.\<close>

theorem limiter_passes_limit:
  assumes "limited_ring S a d cap c w q b" and "gc_total c \<le> gc_limit c" and "gc_limit c + length (concat xss) < sz_max"
    and "list_all (\<lambda>xs. length xs \<le> cap) xss" and "length (concat xss) \<le> b"
  shows "\<exists>w'. write_all (call_filter S (Suc (Suc k))) a d xss w = Some (map (\<lambda>i.
        (if gc_limit c \<le> gc_total c + length (concat (take (Suc i) xss)) then IO_COMPLETE else IO_SUCCESS,
         min (length (xss ! i)) (gc_limit c - (gc_total c + length (concat (take i xss)))))) [0..<length xss], w') \<and>
    (let sent = take (gc_limit c - gc_total c) (concat xss) in
      limited_ring S a d cap (c\<lparr>gc_total := gc_total c + length sent\<rparr>) w' (q @ sent) (b - length sent))"
  using assms
proof (induction xss arbitrary: c w q b)
  case (Cons xs xss)
  let ?L = "gc_limit c" and ?t = "gc_total c"
  define m where "m = min (length xs) (?L - ?t)"
  let ?c = "c\<lparr>gc_total := ?t + m\<rparr>"
  have le: "gc_limit c < sz_max" "?t + length xs < sz_max" "length xs \<le> cap" "length xs \<le> b" "m \<le> length xs" using Cons.prems by (simp_all add: m_def)
  obtain w1 where w1: "call_filter S (Suc (Suc k)) a d (length xs) IO_NO_BLOCK IO_DEFAULT_ALIGN (poke d xs w) =
      Some (if ?L \<le> ?t + length xs then IO_COMPLETE else IO_SUCCESS, m, w1)" "limited_ring S a d cap ?c w1 (q @ take m xs) (b - m)"
    using limiter_write [OF Cons.prems(1,2) le(1-4), of k IO_NO_BLOCK IO_DEFAULT_ALIGN] unfolding m_def by blast
  have ok: "gc_total ?c \<le> gc_limit ?c" "gc_limit ?c + length (concat xss) < sz_max" "list_all (\<lambda>xs. length xs \<le> cap) xss" "length (concat xss) \<le> b - m"
    using Cons.prems le(5) by (simp_all add: m_def)
  have st: "?L \<le> ?t + m + j \<longleftrightarrow> ?L \<le> ?t + (length xs + j)" "?L - (?t + m + j) = ?L - (?t + (length xs + j))" for j
    using Cons.prems(2) by (auto simp: m_def)
  have sent: "take m xs @ take (?L - (?t + m)) (concat xss) = take (?L - ?t) (concat (xs # xss))"
    using take_min_append [of m xs "?L - ?t" "concat xss"] by (simp add: m_def)
  then have len: "m + length (take (?L - (?t + m)) (concat xss)) = length (take (?L - ?t) (concat (xs # xss)))"
    unfolding sent [symmetric] using le(5) by simp
  have upt: "[0..<length (xs # xss)] = 0 # map Suc [0..<length xss]" by (simp add: map_Suc_upt upt_conv_Cons del: upt_Suc)
  from Cons.IH [OF w1(2) ok] obtain w' where
    r: "write_all (call_filter S (Suc (Suc k))) a d xss w1 = Some (map (\<lambda>i.
        (if ?L \<le> ?t + (length xs + length (concat (take (Suc i) xss))) then IO_COMPLETE else IO_SUCCESS,
         min (length (xss ! i)) (?L - (?t + (length xs + length (concat (take i xss)))))) ) [0..<length xss], w')"
      "limited_ring S a d cap (c\<lparr>gc_total := ?t + (m + length (take (?L - (?t + m)) (concat xss)))\<rparr>) w'
        (q @ (take m xs @ take (?L - (?t + m)) (concat xss))) (b - (m + length (take (?L - (?t + m)) (concat xss))))"
    by (auto simp: st Let_def simp del: call_filter.simps) (simp add: add.assoc)
  show ?case unfolding upt using w1(1) r(1) r(2) [unfolded sent len]
    by (intro exI [of _ w']) (simp add: m_def comp_def Let_def del: call_filter.simps)
qed (simp add: Let_def)

text \<open>A ring buffer with three bytes, and a limiter of three bytes in front of it.\<close>

lemma demo_limited_ring: "\<exists>a w. limited_ring demo_sys a 1 64 \<lparr>gc_total = 0, gc_limit = 3, gc_period = 0\<rparr> w [10, 20, 30] 5"
proof -
  obtain h w D R wr where M: "machine_get_desc h w = Some D" "md_impl D = IMPL_RING R" "\<not> md_lock D" "md_io_write D = Some wr"
      "end_filter FN_RB_WRITE h (io_obj wr) w" "rb_rel (s_mem demo_sys) 1 64 (R, w_heap w) [10, 20, 30] 5"
    using demo_ring_machine by (auto simp: machine_rel_def ring_machine_def)
  let ?a = "Suc (io_obj wr)" and ?c = "\<lparr>gc_total = 0, gc_limit = 3, gc_period = 0\<rparr>"
  let ?f = "(loose_filter ''limit'' (io_obj wr))\<lparr>f_direction := IOF_WRITE, f_call := FN_BYTE_COUNT_LIMITER, f_obj := OBJ_COUNTER ?c\<rparr>"
  have "limited_ring demo_sys ?a 1 64 ?c (w\<lparr>w_filters := (w_filters w)(?a \<mapsto> ?f)\<rparr>) [10, 20, 30] 5"
    unfolding limited_ring_def using M
    by (intro exI [of _ ?f] exI [of _ h] exI [of _ D] exI [of _ R]) (auto simp: loose_filter_def end_filter_def machine_get_desc_def)
  then show ?thesis by blast
qed

theorem limiter_passes_limit_witness:
  "\<exists>a w w'. write_all (call_filter demo_sys (Suc (Suc 0))) a 1 [[1, 2], [3, 4], [5]] w = Some ([(IO_SUCCESS, 2), (IO_COMPLETE, 1), (IO_COMPLETE, 0)], w') \<and>
     limited_ring demo_sys a 1 64 \<lparr>gc_total = 3, gc_limit = 3, gc_period = 0\<rparr> w' [10, 20, 30, 1, 2, 3] 2"
proof -
  obtain a w where L: "limited_ring demo_sys a 1 64 \<lparr>gc_total = 0, gc_limit = 3, gc_period = 0\<rparr> w [10, 20, 30] 5" using demo_limited_ring by blast
  have upt: "[0..<length [[1, 2], [3, 4], [5 :: byte]]] = [0, 1, 2]" by (simp add: upt_rec)
  have "gc_limit \<lparr>gc_total = 0, gc_limit = 3, gc_period = 0\<rparr> + length (concat [[1, 2], [3, 4], [5 :: byte]]) < sz_max" by (simp add: sz_max_def)
  from limiter_passes_limit [OF L _ this, of 0, unfolded upt] obtain w' where
    "write_all (call_filter demo_sys (Suc (Suc 0))) a 1 [[1, 2], [3, 4], [5]] w = Some ([(IO_SUCCESS, 2), (IO_COMPLETE, 1), (IO_COMPLETE, 0)], w')"
    "limited_ring demo_sys a 1 64 \<lparr>gc_total = 3, gc_limit = 3, gc_period = 0\<rparr> w' [10, 20, 30, 1, 2, 3] 2"
    by (auto simp: Let_def numeral_2_eq_2 numeral_3_eq_3 simp del: call_filter.simps write_all.simps)
  then show ?thesis by blast
qed

end
