(* ===== verification/Packet_Queue.thy ===== *)
theory Packet_Queue
  imports BW_Prelude
begin

text \<open>
  The contract of a buffer of messages: every message sent is received once, whole and in order; receiving
  from an empty buffer gives the empty message. The fixed-block buffer and the handle queue have it.
\<close>

datatype packet_op = Send "byte list" | Recv

fun packet_run :: "byte list list \<Rightarrow> packet_op list \<Rightarrow> byte list list" where
  "packet_run ps [] = []"
| "packet_run ps (Send xs # ops) = packet_run (ps @ [xs]) ops"
| "packet_run [] (Recv # ops) = [] # packet_run [] ops"
| "packet_run (p # ps) (Recv # ops) = p # packet_run ps ops"

text \<open>Messages have between 1 and \<open>cap\<close> bytes, and their total length is bounded.\<close>

fun packets_fit :: "nat \<Rightarrow> packet_op list \<Rightarrow> bool" where
  "packets_fit cap [] = True"
| "packets_fit cap (Send xs # ops) = (xs \<noteq> [] \<and> length xs \<le> cap \<and> packets_fit cap ops)"
| "packets_fit cap (Recv # ops) = packets_fit cap ops"

fun sent_total :: "packet_op list \<Rightarrow> nat" where
  "sent_total [] = 0"
| "sent_total (Send xs # ops) = length xs + sent_total ops"
| "sent_total (Recv # ops) = sent_total ops"

fun packet_impl_run :: "(byte list \<Rightarrow> 's \<Rightarrow> 's option) \<Rightarrow> ('s \<Rightarrow> (byte list \<times> 's) option) \<Rightarrow> 's \<Rightarrow> packet_op list
    \<Rightarrow> byte list list option" where
  "packet_impl_run send recv s [] = Some []"
| "packet_impl_run send recv s (Send xs # ops) = do { s' \<leftarrow> send xs s; packet_impl_run send recv s' ops }"
| "packet_impl_run send recv s (Recv # ops) = do {
     (xs, s') \<leftarrow> recv s; out \<leftarrow> packet_impl_run send recv s' ops; Some (xs # out) }"

locale packet_queue =
  fixes rel :: "'s \<Rightarrow> byte list list \<Rightarrow> nat \<Rightarrow> bool"
    and cap :: nat
    and send :: "byte list \<Rightarrow> 's \<Rightarrow> 's option"
    and recv :: "'s \<Rightarrow> (byte list \<times> 's) option"
  assumes send_ok: "rel s ps b \<Longrightarrow> xs \<noteq> [] \<Longrightarrow> length xs \<le> cap \<Longrightarrow> length xs \<le> b \<Longrightarrow>
      \<exists>s'. send xs s = Some s' \<and> rel s' (ps @ [xs]) (b - length xs)"
    and recv_ok: "rel s (p # ps) b \<Longrightarrow> \<exists>s'. recv s = Some (p, s') \<and> rel s' ps b"
    and recv_empty: "rel s [] b \<Longrightarrow> \<exists>s'. recv s = Some ([], s') \<and> rel s' [] b"
begin

lemma run_refines:
  "rel s ps b \<Longrightarrow> packets_fit cap ops \<Longrightarrow> sent_total ops \<le> b \<Longrightarrow>
     packet_impl_run send recv s ops = Some (packet_run ps ops)"
proof (induction ps ops arbitrary: s b rule: packet_run.induct)
  case (2 ps xs ops)
  then obtain s' where "send xs s = Some s'" "rel s' (ps @ [xs]) (b - length xs)"
    using send_ok [of s ps b xs] by auto
  then show ?case using 2 by auto
next
  case (3 ops)
  then obtain s' where "recv s = Some ([], s')" "rel s' [] b" using recv_empty by blast
  then show ?case using 3 by auto
next
  case (4 p ps ops)
  then obtain s' where "recv s = Some (p, s')" "rel s' ps b" using recv_ok by blast
  then show ?case using 4 by auto
qed simp

end

end
