(* ===== verification/Fixed_Block_Queue.thy ===== *)
theory Fixed_Block_Queue
  imports Packet_Queue Ring_Fifo Fixed_Block
begin

text \<open>
  The fixed-block buffer is a queue of packets: the ring of blocks holds one packet per block, from the
  reader's position to the writer's.
\<close>

definition packets :: "heap \<Rightarrow> addr list \<Rightarrow> byte list list" where
  "packets h as = map (\<lambda>a. mem_read (mem h) (b_data (blk h a)) (b_bytes (blk h a))) as"

lemma packets_simps [simp]: "packets h [] = []" "packets h (a # as) = mem_read (mem h) (b_data (blk h a)) (b_bytes (blk h a)) # packets h as"
  "packets h (as @ bs) = packets h as @ packets h bs"
  by (simp_all add: packets_def)

lemma concat_packets: "concat (packets h as) = contents h as"
  by (simp add: packets_def contents_def)

text \<open>Contents of the same total, cut into the same lengths.\<close>

lemma concat_lengths:
  "concat xs = concat ys \<Longrightarrow> map length xs = map length ys \<Longrightarrow> xs = ys"
proof (induction xs arbitrary: ys)
  case (Cons x xs)
  then obtain y ys' where "ys = y # ys'" "length x = length y" "map length xs = map length ys'" by (cases ys) auto
  then show ?case using Cons by auto
qed simp

lemma packets_same:
  assumes "contents h' as = contents h as" and "\<And>a. a \<in> set as \<Longrightarrow> b_bytes (blk h' a) = b_bytes (blk h a)"
  shows "packets h' as = packets h as"
  using assms by (intro concat_lengths) (auto simp: contents_def packets_def)

lemma packets_snoc:
  assumes "contents h' (as @ [a]) = contents h as @ xs" and "\<And>b. b \<in> set as \<Longrightarrow> b_bytes (blk h' b) = b_bytes (blk h b)"
    and "b_bytes (blk h' a) = length xs"
  shows "packets h' (as @ [a]) = packets h as @ [xs]"
  using assms by (intro concat_lengths) (auto simp: contents_def packets_def)

text \<open>The descriptor \<open>R\<close> in a heap with the packets \<open>ps\<close>; the caller's buffer is at \<open>d\<close>, and \<open>b\<close> more bytes may be counted.\<close>

definition fbb_rel :: "env \<Rightarrow> addr \<Rightarrow> nat \<Rightarrow> nat \<Rightarrow> fbb_ring \<times> heap \<Rightarrow> byte list list \<Rightarrow> nat \<Rightarrow> bool" where
  "fbb_rel E d cap sz = (\<lambda>(R, h) ps b. pool_sound E \<and> 0 < sz \<and> sz \<le> cap \<and> pool_plenty E (2 * sz) \<and> fb_block_size R = sz \<and>
     fb_stored R = length (concat ps) \<and> length (concat ps) + b < sz_max \<and>
     (\<exists>fs es. es \<noteq> [] \<and> ring_blocks sz (fb_rp R) fs es h \<and> fb_wp R = hd es \<and> packets h fs = ps \<and>
        covered h d cap \<and> outside d cap sz h (fs @ es)))"

lemma fbb_relE:
  assumes "fbb_rel E d cap sz (R, h) ps b"
  obtains fs w es where "pool_sound E" "0 < sz" "sz \<le> cap" "pool_plenty E (2 * sz)" "fb_block_size R = sz"
    "fb_stored R = length (concat ps)" "length (concat ps) + b < sz_max"
    "ring_blocks sz (fb_rp R) fs (w # es) h" "fb_wp R = w" "packets h fs = ps" "covered h d cap" "outside d cap sz h (fs @ w # es)"
  using assms unfolding fbb_rel_def prod.case by (metis list.collapse)

lemma fbb_relI:
  assumes "pool_sound E" "0 < sz" "sz \<le> cap" "pool_plenty E (2 * sz)" "fb_block_size R = sz"
    "fb_stored R = length (concat ps)" "length (concat ps) + b < sz_max" "es \<noteq> []"
    "ring_blocks sz (fb_rp R) fs es h" "fb_wp R = hd es" "packets h fs = ps" "covered h d cap" "outside d cap sz h (fs @ es)"
  shows "fbb_rel E d cap sz (R, h) ps b"
  unfolding fbb_rel_def prod.case using assms by blast

text \<open>Filling the caller's buffer.\<close>

lemma ring_blocks_poke:
  assumes "ring_blocks sz rp fs es h" and "outside d cap sz h (fs @ es)" and "length xs \<le> cap"
  shows "ring_blocks sz rp fs es (h\<lparr>mem := mem_write (mem h) d xs\<rparr>)"
    "packets (h\<lparr>mem := mem_write (mem h) d xs\<rparr>) fs = packets h fs"
    "outside d cap sz (h\<lparr>mem := mem_write (mem h) d xs\<rparr>) (fs @ es)"
proof -
  let ?h = "h\<lparr>mem := mem_write (mem h) d xs\<rparr>"
  have nx: "nxt ?h = nxt h" by (simp add: nxt_def fun_eq_iff)
  show "outside d cap sz ?h (fs @ es)" using assms(2) by (simp add: outside_def)
  show "ring_blocks sz rp fs es ?h" using assms(1) nx
    by (simp add: ring_blocks_def areas_def full_def empty_def heap_ok_def covered_def)
  have "disj d (length xs) (b_data (blk h a)) (b_bytes (blk h a))" if "a \<in> set fs" for a
  proof -
    have "disj d cap (b_data (blk h a)) sz" "b_bytes (blk h a) \<le> sz"
      using assms(1,2) that by (auto simp: outside_def ring_blocks_def full_def)
    then show ?thesis using assms(3) by (auto intro: disj_sub)
  qed
  then show "packets ?h fs = packets h fs" by (auto simp: packets_def mem_simps)
qed


section \<open>Writing\<close>

text \<open>The writer's block is full and so is the rest of the ring: the ring is extended.\<close>

lemma fbb_extend:
  assumes E: "pool_sound E" and ring: "ring_blocks sz rp (fs @ [w]) [] h" and sz: "0 < sz" and n: "0 < n" "pool_plenty E (n * sz)"
  shows "\<exists>c h2 h3 h3' cs h4. block_list_alloc E p n h = Some (c, h2) \<and> block_data_fastalloc E p c sz h2 = Some (n * sz, h3) \<and>
    upd_blk w (b_next_update (\<lambda>_. c)) h3 = Some h3' \<and> chain_tail c h3' = Some (last cs) \<and>
    upd_blk (last cs) (b_next_update (\<lambda>_. rp)) h3' = Some h4 \<and>
    ring_blocks sz rp (fs @ [w]) cs h4 \<and> cs \<noteq> [] \<and> b_next (blk h4 w) = hd cs \<and> blocks h4 w = Some (blk h4 w) \<and>
    keeps h h4 (fs @ [w]) \<and> (\<forall>d k. covered h d k \<and> outside d k sz h (fs @ [w]) \<longrightarrow> outside d k sz h4 (fs @ w # cs))"
proof -
  let ?fs = "fs @ [w]"
  from ring have ir: "is_ring (nxt h) rp ?fs" and ok: "heap_ok h" and ar: "areas sz h ?fs"
    and fu: "full sz h ?fs" by (simp_all add: ring_blocks_def)
  from alloc_chain [OF E ok n(1) sz n(2), of p] obtain c h1 h2 cs where
    c: "block_list_alloc E p n h = Some (c, h1)" "block_data_fastalloc E p c sz h1 = Some (n * sz, h2)" and
    cs: "length cs = n" "distinct cs" "path (nxt h2) c cs 0" "set cs \<inter> dom (blocks h) = {}"
      "areas sz h2 cs" "empty h2 cs" and
    out: "\<And>d k. covered h d k \<Longrightarrow> outside d k sz h2 cs" and
    h2: "\<And>a. a \<notin> set cs \<Longrightarrow> blocks h2 a = blocks h a" "mem h2 = mem h" "set (live h) \<subseteq> set (live h2)" "heap_ok h2"
    by blast
  have cs0: "cs \<noteq> []" using cs(1) n by auto
  from splice_blocks [OF ir cs(3) cs0 cs(2,4) h2(1)] obtain h3 h4 where
    up: "upd_blk w (b_next_update (\<lambda>_. c)) h2 = Some h3" "upd_blk (last cs) (b_next_update (\<lambda>_. rp)) h3 = Some h4" and
    h4: "is_ring (nxt h4) rp (fs @ w # cs)" "b_next (blk h4 w) = c" "mem h4 = mem h2" "live h4 = live h2"
      "dom (blocks h4) = dom (blocks h2)" and
    kp: "\<And>a. \<exists>x. blk h4 a = (blk h2 a)\<lparr>b_next := x\<rparr>"
    by blast
  have w: "w \<notin> set cs" using cs(4) is_ring_dom [OF ir] by auto
  have "nxt h3 = (nxt h2)(w \<mapsto> c)" using up(1)
    by (auto simp: upd_blk_def get_blk_def nxt_def fun_eq_iff bind_eq_Some_conv split: if_splits)
  then have "path (nxt h3) c cs 0" using cs(3) w by (simp add: path_upd_notin)
  then have tl: "chain_tail c h3 = Some (last cs)" using cs0 by (rule chain_tail_path)
  have k24: "keeps h2 h4 as" for as using kp h4 by (auto simp: keeps_def)
  have dj: "a \<notin> set cs" if "a \<in> set ?fs" for a using that cs(4) is_ring_dom [OF ir] by blast
  have "\<exists>x. blk h4 a = (blk h a)\<lparr>b_next := x\<rparr>" if "a \<in> set ?fs" for a
    using kp [of a] dj [OF that] h2(1) [of a] by (simp add: blk_def)
  then have k04: "keeps h h4 ?fs" using h2 h4 by (simp add: keeps_def)
  have em: "empty h4 cs" using cs(6) keepsD(3) [OF k24] by (auto simp: empty_def)
  have cov: "covered h (b_data (blk h4 a)) sz" if "a \<in> set ?fs" for a
    using ar that keepsD(3) [OF k04 that] unfolding areas_def by metis
  have out4: "outside d k sz h4 cs" if "covered h d k" for d k
    using out [OF that] keeps_outside [OF k24] by blast
  have "areas sz h4 (?fs @ cs)"
    using areas_join [OF keeps_areas [OF k04 ar] keeps_areas [OF k24 cs(5)]] cov out4 by blast
  then have "ring_blocks sz rp ?fs cs h4"
    using h4 em keeps_full [OF k04 fu] h2(4) by (auto simp: ring_blocks_def intro: heap_ok_mono)
  moreover have "outside d k sz h4 (fs @ w # cs)" if "covered h d k" "outside d k sz h ?fs" for d k
    using out4 [OF that(1)] that(2) keeps_outside [OF k04] outside_append [of d k sz h4 ?fs cs] by simp
  moreover have "c = hd cs" using cs(3) cs0 by (rule path_hd)
  moreover have "blocks h4 w = Some (blk h4 w)" using is_ring_blk [OF h4(1)] by auto
  ultimately show ?thesis using c up tl cs0 k04 h4(2)
    by (intro exI [of _ c] exI [of _ h1] exI [of _ h2] exI [of _ h3] exI [of _ cs] exI [of _ h4]) blast
qed

lemma fbb_buf_write_ok:
  assumes R: "fbb_rel E d cap sz (R, h) ps b" and n: "0 < n" "n \<le> sz" "n \<le> b"
  shows "\<exists>R' h'. fbb_buf_write E p False R d n h = Some (IO_SUCCESS, n, R', h') \<and>
    fbb_rel E d cap sz (R', h') (ps @ [mem_read (mem h) d n]) (b - n)"
proof -
  obtain fs w es where F: "pool_sound E" "0 < sz" "sz \<le> cap" "pool_plenty E (2 * sz)" "fb_block_size R = sz"
    "fb_stored R = length (concat ps)" "length (concat ps) + b < sz_max"
    "ring_blocks sz (fb_rp R) fs (w # es) h" "fb_wp R = w" "packets h fs = ps" "covered h d cap" "outside d cap sz h (fs @ w # es)"
    using fbb_relE [OF R] by blast
  let ?xs = "mem_read (mem h) d n" and ?rp = "fb_rp R"
  have ir: "is_ring (nxt h) ?rp (fs @ w # es)" and ar: "areas sz h (fs @ w # es)" using F(8) by (simp_all add: ring_blocks_def)
  have bw: "blocks h w = Some (blk h w)" "w \<noteq> 0" using is_ring_blk [OF ir] by auto
  have sz: "b_size (blk h w) = sz" using ar by (simp add: areas_def)
  have xs: "?xs \<noteq> []" "length ?xs \<le> sz" using n by (auto simp flip: length_0_conv)
  let ?h1 = "h\<lparr>mem := mem_write (mem h) (b_data (blk h w)) ?xs, blocks := (blocks h)(w \<mapsto> (blk h w)\<lparr>b_bytes := length ?xs\<rparr>)\<rparr>"
  have up: "upd_blk w (b_bytes_update (\<lambda>_. n)) (h\<lparr>mem := mem_copy (mem h) (b_data (blk h w)) d n\<rparr>) = Some ?h1"
    using bw by (simp add: upd_blk_Some mem_copy_def)
  note fill = fill_block [OF F(8) xs]
  have b1: "blk ?h1 a = (if a = w then (blk h w)\<lparr>b_bytes := n\<rparr> else blk h a)" for a by (simp add: blk_def)
  have wfs: "w \<notin> set fs" using ir by (auto simp: is_ring_def)
  have pk: "packets ?h1 (fs @ [w]) = ps @ [?xs]"
    unfolding F(10) [symmetric] by (rule packets_snoc [OF fill(2)]) (use wfs b1 in auto)
  have cov: "covered ?h1 d cap" "outside d cap sz ?h1 (fs @ w # es)" using undisturbedD [OF fill(3) F(11,12)] by blast+
  have st: "sz_add (fb_stored R) n = length (concat (ps @ [?xs]))" using F(6,7) n by (simp add: sz_add_exact)
  have nw: "nxt h w = Some (if es = [] then ?rp else hd es)" using ring_next [OF ir] by simp
  then have bn: "b_next (blk h w) = (if es = [] then ?rp else hd es)" using bw by (simp add: nxt_Some)
  show ?thesis
  proof (cases "es = []")
    case False
    have e: "hd es \<in> set (fs @ w # es)" "hd es \<noteq> w" using False ir by (auto simp: is_ring_def)
    then have he: "get_blk (hd es) ?h1 = Some (blk h (hd es))" using is_ring_blk [OF ir, of "hd es"] by (simp add: get_blk_def)
    have em: "BLOCK_EMPTY (blk h (hd es))" using F(8) False by (simp add: ring_blocks_def empty_def BLOCK_EMPTY_def)
    let ?R' = "R\<lparr>fb_stored := length (concat (ps @ [?xs])), fb_wp := hd es\<rparr>"
    have "fbb_buf_write E p False R d n h = Some (IO_SUCCESS, n, ?R', ?h1)"
      using F(9) bw sz n(2) up bn he em False st by (simp add: fbb_buf_write_def Let_def get_blk_def)
    moreover have "fbb_rel E d cap sz (?R', ?h1) (ps @ [?xs]) (b - n)"
      by (rule fbb_relI [where fs = "fs @ [w]" and es = es]) (use F n fill(1) pk cov False in simp_all)
    ultimately show ?thesis by blast
  next
    case True
    have rp: "?rp \<in> set (fs @ [w])" using is_ring_hd [OF ir] True by (metis append_is_Nil_conv hd_in_set list.discI)
    have ring1: "ring_blocks sz ?rp (fs @ [w]) [] ?h1" using fill(1) True by simp
    then have "blocks ?h1 ?rp = Some (blk ?h1 ?rp)" "?rp \<noteq> 0" and full: "\<not> BLOCK_EMPTY (blk ?h1 ?rp)"
      using is_ring_blk [of ?h1 ?rp "fs @ [w]" ?rp] rp by (auto simp: ring_blocks_def full_def BLOCK_EMPTY_def)
    then have hr: "get_blk ?rp ?h1 = Some (blk ?h1 ?rp)" by (simp add: get_blk_def)
    let ?n = "n div sz + 1"
    have "?n \<le> 2" using n(2) F(2) by (cases "n = sz") auto
    then have "?n * sz \<le> 2 * sz" by (rule mult_le_mono1)
    then have pl: "pool_plenty E (?n * sz)" using pool_plenty_mono [OF F(4)] by blast
    have n0: "0 < ?n" by simp
    from fbb_extend [OF F(1) ring1 F(2) n0 pl, of p] obtain c h2 h3 h3' cs h4 where
      X: "block_list_alloc E p ?n ?h1 = Some (c, h2)" "block_data_fastalloc E p c sz h2 = Some (?n * sz, h3)"
        "upd_blk w (b_next_update (\<lambda>_. c)) h3 = Some h3'" "chain_tail c h3' = Some (last cs)"
        "upd_blk (last cs) (b_next_update (\<lambda>_. ?rp)) h3' = Some h4"
        "ring_blocks sz ?rp (fs @ [w]) cs h4" "cs \<noteq> []" "b_next (blk h4 w) = hd cs" "blocks h4 w = Some (blk h4 w)"
        "keeps ?h1 h4 (fs @ [w])"
        "\<And>d k. covered ?h1 d k \<Longrightarrow> outside d k sz ?h1 (fs @ [w]) \<Longrightarrow> outside d k sz h4 (fs @ w # cs)" by metis
    let ?R' = "R\<lparr>fb_stored := length (concat (ps @ [?xs])), fb_wp := hd cs\<rparr>"
    have "fbb_buf_write E p False R d n h = Some (IO_SUCCESS, n, ?R', h4)"
      using F(2,5,9) bw sz n(2) up bn hr full True st X(1-5,8,9) by (simp add: fbb_buf_write_def Let_def get_blk_def)
    moreover have "fbb_rel E d cap sz (?R', h4) (ps @ [?xs]) (b - n)"
    proof (rule fbb_relI [where fs = "fs @ [w]" and es = cs])
      show "packets h4 (fs @ [w]) = ps @ [?xs]"
        using pk packets_same [OF keeps_contents [OF X(10)]] keepsD(3) [OF X(10)] by metis
      show "covered h4 d cap" using cov(1) keepsD(2) [OF X(10)] covered_mono by blast
      show "outside d cap sz h4 ((fs @ [w]) @ cs)" using X(11) [OF cov(1)] cov(2) True by simp
    qed (use F n X(6,7) in simp_all)
    ultimately show ?thesis by blast
  qed
qed

section \<open>Reading\<close>

lemma fbb_buf_read_ok:
  assumes R: "fbb_rel E d cap sz (R, h) (q # ps) b"
  shows "\<exists>R' h'. fbb_buf_read False R d cap 1 h = Some (IO_SUCCESS, length q, R', h') \<and>
    mem_read (mem h') d (length q) = q \<and> fbb_rel E d cap sz (R', h') ps b"
proof -
  obtain fs0 w es where F: "pool_sound E" "0 < sz" "sz \<le> cap" "pool_plenty E (2 * sz)" "fb_block_size R = sz"
    "fb_stored R = length (concat (q # ps))" "length (concat (q # ps)) + b < sz_max"
    "ring_blocks sz (fb_rp R) fs0 (w # es) h" "fb_wp R = w" "packets h fs0 = q # ps" "covered h d cap" "outside d cap sz h (fs0 @ w # es)"
    using fbb_relE [OF R] by blast
  obtain a fs where fs0: "fs0 = a # fs" using F(10) by (cases fs0) auto
  have q: "mem_read (mem h) (b_data (blk h a)) (b_bytes (blk h a)) = q" "packets h fs = ps" using F(10) fs0 by simp_all
  then have len: "b_bytes (blk h a) = length q" by auto
  have ring: "ring_blocks sz (fb_rp R) (a # fs) (w # es) h" using F(8) fs0 by simp
  then have ir: "is_ring (nxt h) (fb_rp R) (a # fs @ w # es)" and fu: "0 < length q" "length q \<le> sz"
    using len by (auto simp: ring_blocks_def full_def)
  have a: "fb_rp R = a" "blocks h a = Some (blk h a)" "a \<noteq> 0" using is_ring_hd [OF ir] is_ring_blk [OF ir, of a] by auto
  have out: "outside d (b_bytes (blk h a)) sz h (a # fs @ w # es)"
    using F(12) fs0 outside_sub [of d cap sz h "a # fs @ w # es" d "length q"] fu F(3) len by simp
  note drain = drain_block [OF ring _ out]
  let ?h1 = "h\<lparr>mem := mem_copy (mem h) d (b_data (blk h a)) (b_bytes (blk h a)), blocks := (blocks h)(a \<mapsto> (blk h a)\<lparr>b_bytes := 0\<rparr>)\<rparr>"
  let ?R' = "R\<lparr>fb_stored := length (concat ps), fb_rp := b_next (blk h a)\<rparr>"
  have sub: "sz_sub (fb_stored R) (length q) = length (concat ps)" using F(6,7) by (simp add: sz_sub_exact)
  have al: "align_down (length q) 1 = length q" by (simp add: align_down_eq)
  have run: "fbb_buf_read False R d cap 1 h = Some (IO_SUCCESS, length q, ?R', ?h1)"
    using a fu len F(3) al sub by (simp add: fbb_buf_read_def get_blk_def Let_def upd_blk_Some)
  have b1: "blk ?h1 x = (if x = a then (blk h a)\<lparr>b_bytes := 0\<rparr> else blk h x)" for x by (simp add: blk_def)
  have afs: "a \<notin> set fs" using ir by (auto simp: is_ring_def)
  have pk: "packets ?h1 fs = ps" unfolding q(2) [symmetric] using drain(2) b1 afs by (intro packets_same) auto
  have "fbb_rel E d cap sz (?R', ?h1) ps b"
  proof (rule fbb_relI [where fs = fs and es = "w # es @ [a]"])
    show "ring_blocks sz (fb_rp ?R') fs (w # es @ [a]) ?h1" using drain(1) by simp
    show "outside d cap sz ?h1 (fs @ w # es @ [a])" using F(12) fs0 by (auto simp: outside_def b1)
    show "covered ?h1 d cap" using F(11) by (simp add: covered_def)
  qed (use F pk in simp_all)
  moreover have "mem_read (mem ?h1) d (length q) = q" using drain(3) q(1) len by simp
  ultimately show ?thesis using run by blast
qed

lemma fbb_buf_read_empty:
  assumes R: "fbb_rel E d cap sz (R, h) [] b"
  shows "fbb_buf_read False R d cap 1 h = Some (IO_SUCCESS, 0, R, h)"
proof -
  obtain fs w es where F: "ring_blocks sz (fb_rp R) fs (w # es) h" "packets h fs = []" using fbb_relE [OF R] by metis
  then have "fs = []" by (simp add: packets_def)
  with F have ir: "is_ring (nxt h) (fb_rp R) (w # es)" and em: "b_bytes (blk h w) = 0" by (simp_all add: ring_blocks_def empty_def)
  then have "fb_rp R = w" "blocks h w = Some (blk h w)" "w \<noteq> 0" using is_ring_hd [OF ir] is_ring_blk [OF ir, of w] by auto
  then show ?thesis using em by (simp add: fbb_buf_read_def get_blk_def)
qed

section \<open>The contract\<close>

text \<open>A client with a buffer of \<open>cap\<close> bytes at \<open>d\<close>.\<close>

definition fbb_send :: "env \<Rightarrow> pool \<Rightarrow> addr \<Rightarrow> byte list \<Rightarrow> fbb_ring \<times> heap \<Rightarrow> (fbb_ring \<times> heap) option" where
  "fbb_send E p d xs = (\<lambda>(R, h).
     case fbb_buf_write E p False R d (length xs) (h\<lparr>mem := mem_write (mem h) d xs\<rparr>) of
       Some (IO_SUCCESS, n, R', h') \<Rightarrow> Some (R', h')
     | _ \<Rightarrow> None)"

definition fbb_recv :: "addr \<Rightarrow> nat \<Rightarrow> fbb_ring \<times> heap \<Rightarrow> (byte list \<times> fbb_ring \<times> heap) option" where
  "fbb_recv d cap = (\<lambda>(R, h). do {
     (st, r, R', h') \<leftarrow> fbb_buf_read False R d cap 1 h;
     Some (mem_read (mem h') d r, R', h')
   })"

lemma fbb_send_ok:
  assumes "fbb_rel E d cap sz s ps b" and "xs \<noteq> []" and "length xs \<le> sz" and "length xs \<le> b"
  shows "\<exists>s'. fbb_send E p d xs s = Some s' \<and> fbb_rel E d cap sz s' (ps @ [xs]) (b - length xs)"
proof -
  obtain R h where s: "s = (R, h)" by (cases s)
  let ?h = "h\<lparr>mem := mem_write (mem h) d xs\<rparr>"
  obtain fs w es where F: "pool_sound E" "0 < sz" "sz \<le> cap" "pool_plenty E (2 * sz)" "fb_block_size R = sz"
    "fb_stored R = length (concat ps)" "length (concat ps) + b < sz_max"
    "ring_blocks sz (fb_rp R) fs (w # es) h" "fb_wp R = w" "packets h fs = ps" "covered h d cap" "outside d cap sz h (fs @ w # es)"
    using fbb_relE [OF assms(1) [unfolded s]] by blast
  have "length xs \<le> cap" using assms(3) F(3) by simp
  note pk = ring_blocks_poke [OF F(8,12) this]
  have rel: "fbb_rel E d cap sz (R, ?h) ps b"
    by (rule fbb_relI [where fs = fs and es = "w # es"]) (use F pk in \<open>simp_all add: covered_def\<close>)
  have xs: "mem_read (mem ?h) d (length xs) = xs" by (simp add: mem_simps)
  from fbb_buf_write_ok [OF rel _ assms(3,4), of p] assms(2) xs show ?thesis by (auto simp: s fbb_send_def)
qed

lemma fbb_recv_ok:
  assumes "fbb_rel E d cap sz s (q # ps) b"
  shows "\<exists>s'. fbb_recv d cap s = Some (q, s') \<and> fbb_rel E d cap sz s' ps b"
  using assms fbb_buf_read_ok by (cases s) (fastforce simp: fbb_recv_def)

lemma fbb_recv_empty:
  assumes "fbb_rel E d cap sz s [] b"
  shows "\<exists>s'. fbb_recv d cap s = Some ([], s') \<and> fbb_rel E d cap sz s' [] b"
  using assms fbb_buf_read_empty by (cases s) (fastforce simp: fbb_recv_def)

interpretation fixed_block: packet_queue "fbb_rel E d cap sz" sz "fbb_send E p d" "fbb_recv d cap" for E p d cap sz
  by unfold_locales (fact fbb_send_ok fbb_recv_ok fbb_recv_empty)+

section \<open>Creation\<close>

lemma fbb_block_count:
  assumes "0 < sz" and "bytes < sz_max"
  shows "(if sz_mul (bytes div sz) sz < bytes then bytes div sz + 1 else bytes div sz) = ceil_div bytes sz"
proof -
  have "bytes = bytes div sz * sz + bytes mod sz" by simp
  then have "bytes div sz * sz < bytes \<longleftrightarrow> bytes mod sz \<noteq> 0" by linarith
  moreover have "sz_mul (bytes div sz) sz = bytes div sz * sz"
    using assms(2) le_less_trans [OF div_times_less_eq_dividend assms(2), of sz] by (simp add: sz_mul_def)
  ultimately show ?thesis by (simp add: ceil_div_def)
qed

text \<open>A new buffer holds no packets; its blocks are fresh, and so outside of the caller's buffer.\<close>

lemma fbb_create_ok:
  assumes E: "pool_sound E" "heap_ok h" and sz: "0 < fa_block_bytes args" "fa_block_bytes args \<le> cap"
    and n: "0 < fa_buf_bytes args" "fa_buf_bytes args < sz_max"
    and plenty: "pool_plenty E ((ceil_div (fa_buf_bytes args) (fa_block_bytes args) + 1) * fa_block_bytes args)"
    and d: "covered h d cap" and b: "b < sz_max"
  shows "\<exists>R h'. fbb_create E p args h = Some (Some R, h') \<and> fbb_rel E d cap (fa_block_bytes args) (R, h') [] b"
proof -
  let ?sz = "fa_block_bytes args" let ?n = "ceil_div (fa_buf_bytes args) ?sz"
  have n0: "0 < ?n" using ceil_div_le [OF sz(1), of "fa_buf_bytes args"] n(1) by (cases "?n") auto
  then have "2 * ?sz \<le> (?n + 1) * ?sz" "?n * ?sz \<le> (?n + 1) * ?sz" by (intro mult_le_mono1; simp)+
  then have pl: "pool_plenty E (?n * ?sz)" "pool_plenty E (2 * ?sz)" using pool_plenty_mono [OF plenty] by blast+
  from alloc_chain [OF E n0 sz(1) pl(1), of p] obtain c h1 h2 cs where
    A: "block_list_alloc E p ?n h = Some (c, h1)" "block_data_fastalloc E p c ?sz h1 = Some (?n * ?sz, h2)" and
    cs: "length cs = ?n" "distinct cs" "path (nxt h2) c cs 0" "areas ?sz h2 cs" "empty h2 cs" and
    out: "\<And>d k. covered h d k \<Longrightarrow> outside d k ?sz h2 cs" and h2: "set (live h) \<subseteq> set (live h2)" "heap_ok h2"
    by blast
  have cs0: "cs \<noteq> []" using cs(1) n0 by auto
  have c0: "c \<noteq> 0" using cs(3) cs0 by (cases cs) auto
  from forge_ring_list [OF cs(3) cs0 cs(2)] obtain lb where
    lb: "blocks h2 (last cs) = Some lb" and f: "forge_ring c h2 = Some (h2\<lparr>blocks := (blocks h2)(last cs \<mapsto> lb\<lparr>b_next := c\<rparr>)\<rparr>)"
      "is_ring (nxt (h2\<lparr>blocks := (blocks h2)(last cs \<mapsto> lb\<lparr>b_next := c\<rparr>)\<rparr>)) c cs" by blast
  let ?h = "h2\<lparr>blocks := (blocks h2)(last cs \<mapsto> lb\<lparr>b_next := c\<rparr>)\<rparr>"
  have "\<exists>x. blk ?h a = (blk h2 a)\<lparr>b_next := x\<rparr>" for a
  proof (cases "a = last cs")
    case True
    then show ?thesis using lb by (intro exI [of _ c]) (simp add: blk_def)
  next
    case False
    then show ?thesis by (intro exI [of _ "b_next (blk h2 a)"]) (simp add: blk_def)
  qed
  then have k: "keeps h2 ?h as" for as by (simp add: keeps_def)
  have em: "empty ?h cs" using cs(5) keepsD(3) [OF k] by (auto simp: empty_def)
  have ring: "ring_blocks ?sz c [] cs ?h" using f(2) keeps_areas [OF k cs(4)] em heap_ok_mono [OF h2(2), of ?h] lb
    by (auto simp: ring_blocks_def full_def)
  let ?R = "\<lparr>fb_size = 0, fb_stored = 0, fb_wp = c, fb_rp = c, fb_block_size = ?sz, fb_fill = (fa_flags args AND BF_BLOCKFILL \<noteq> 0)\<rparr>"
  have "fbb_create E p args h = Some (Some ?R, ?h)"
    using A f(1) c0 sz(1) fbb_block_count [OF sz(1) n(2)] by (simp add: fbb_create_def Let_def)
  moreover have "c = hd cs" using cs(3) cs0 by (rule path_hd)
  then have "fbb_rel E d cap ?sz (?R, ?h) [] b"
    by (intro fbb_relI [where fs = "[]" and es = cs])
      (use E sz pl b cs0 ring out [OF d] keeps_outside [OF k] covered_mono [OF d, of ?h] h2(1) in simp_all)
  ultimately show ?thesis by blast
qed

end
