(* ===== verification/Packet_Properties.thy ===== *)
theory Packet_Properties
  imports Fixed_Block_Queue Demo_World
begin

text \<open>
  The properties of the fixed-block buffer: its arguments, the packets it passes on, and the packets it drops.
\<close>

section \<open>Arguments\<close>

lemma check_align_power: "check_align i a = a \<and> (\<exists>j \<le> i. a = 2 ^ j) \<or> check_align i a = FBB_DEFAULT_ALIGN \<and> (\<forall>j \<le> i. a \<noteq> 2 ^ j)"
proof (induction i)
  case 0
  then show ?case by (simp add: check_align.simps)
next
  case (Suc i)
  then show ?case by (subst (1 2) check_align.simps) (auto simp: le_Suc_eq)
qed

lemma and_mask: "n AND (2 ^ i - 1) = n mod 2 ^ i" for n :: nat
  by (metis mask_eq_exp_minus_1 take_bit_eq_mask take_bit_eq_mod)

lemma align_adjust_power:
  assumes "2 ^ i < sz_max"
  shows "align_adjust n (2 ^ i) = (if n mod 2 ^ i = 0 then 0 else 2 ^ i - n mod 2 ^ i)"
proof -
  have "n mod 2 ^ i \<le> 2 ^ i" by (simp add: less_imp_le)
  then have "sz_sub (2 ^ i) (n mod 2 ^ i) = 2 ^ i - n mod 2 ^ i" by (intro sz_sub_exact) (use assms in simp_all)
  then show ?thesis unfolding align_adjust_def and_mask by auto
qed

lemma add_to_multiple: "0 < a \<Longrightarrow> a dvd n + (if n mod a = 0 then 0 else a - n mod a)" for a n :: nat
proof -
  assume a: "0 < a"
  have "n + (a - n mod a) = (n div a + 1) * a" if "n mod a \<noteq> 0"
  proof -
    have "n = n div a * a + n mod a" by simp
    moreover have "n mod a < a" using a by simp
    moreover have "(n div a + 1) * a = n div a * a + a" by simp
    ultimately show ?thesis by linarith
  qed
  then show ?thesis by (auto simp: dvd_eq_mod_eq_0)
qed

lemma sanitize_args_fields:
  fixes args defines "al \<equiv> (if fa_align args = 0 then FBB_DEFAULT_ALIGN else fa_align args)"
    and "bb \<equiv> (if fa_block_bytes args = 0 then FBB_DEFAULT_BLK_BYTES else fa_block_bytes args)"
  shows "fa_align (sanitize_args args) = check_align 15 al"
    "fa_block_bytes (sanitize_args args) = sz_add bb (align_adjust bb (check_align 15 al))"
    "fa_buf_bytes (sanitize_args args) = (if fa_buf_bytes args = 0 then FBB_DEFAULT_BUF_BYTES else fa_buf_bytes args)"
  by (simp_all add: sanitize_args_def al_def bb_def Let_def)

lemma sanitize_args_facts:
  assumes "fa_align args < 2 ^ 16" and "fa_block_bytes args + 2 ^ 15 < sz_max" and "a = sanitize_args args"
  shows "(\<exists>i \<le> 15. fa_align a = 2 ^ i) \<and> ((\<exists>i \<le> 15. fa_align args = 2 ^ i) \<longrightarrow> fa_align a = fa_align args) \<and>
    0 < fa_buf_bytes a \<and> 0 < fa_block_bytes a \<and> fa_align a dvd fa_block_bytes a \<and>
    (fa_buf_bytes args \<noteq> 0 \<longrightarrow> fa_buf_bytes a = fa_buf_bytes args) \<and>
    (fa_block_bytes args \<noteq> 0 \<longrightarrow> fa_block_bytes args \<le> fa_block_bytes a \<and> fa_block_bytes a < fa_block_bytes args + fa_align a)"
proof -
  define al where "al = (if fa_align args = 0 then FBB_DEFAULT_ALIGN else fa_align args)"
  define bb where "bb = (if fa_block_bytes args = 0 then FBB_DEFAULT_BLK_BYTES else fa_block_bytes args)"
  note fields = sanitize_args_fields [of args, folded al_def bb_def assms(3)]
  have "\<exists>i \<le> 15. check_align 15 al = 2 ^ i" using check_align_power [of 15 al]
  proof
    assume "check_align 15 al = FBB_DEFAULT_ALIGN \<and> (\<forall>j \<le> 15. al \<noteq> 2 ^ j)"
    then show ?thesis by (intro exI [of _ 2]) (simp add: FBB_DEFAULT_ALIGN_def)
  qed auto
  then obtain i where i: "i \<le> 15" "check_align 15 al = 2 ^ i" by blast
  have keep: "check_align 15 al = fa_align args" if "\<exists>i \<le> 15. fa_align args = 2 ^ i"
    using check_align_power [of 15 al] that by (auto simp: al_def)
  have lt: "(2::nat) ^ i \<le> 2 ^ 15" using power_increasing [OF i(1), of "2::nat"] by simp
  then have ltm: "2 ^ i < sz_max" by (simp add: sz_max_def)
  define adj where "adj = (if bb mod 2 ^ i = 0 then 0 else 2 ^ i - bb mod 2 ^ i)"
  have bb: "bb + 2 ^ 15 < sz_max" "0 < bb" using assms(2) by (auto simp: bb_def FBB_DEFAULT_BLK_BYTES_def MB_def KB_def sz_max_def)
  have adj: "adj < 2 ^ i" by (auto simp: adj_def)
  then have "sz_add bb adj = bb + adj" using bb lt by (intro sz_add_exact) linarith
  then have a: "fa_align a = 2 ^ i" "fa_block_bytes a = bb + adj"
    using fields i(2) align_adjust_power [OF ltm, of bb] by (simp_all add: adj_def)
  have "2 ^ i dvd bb + adj" unfolding adj_def by (rule add_to_multiple) simp
  then show ?thesis using a fields(1,3) adj i keep bb(2) by (auto simp: bb_def FBB_DEFAULT_BUF_BYTES_def MB_def KB_def)
qed

text \<open>C35. The arguments of a fixed-block buffer after \<open>sanitize_args\<close>: the alignment is a power of two, and the one
  asked for if that was one; sizes of zero are replaced; the block size is a multiple of the alignment, not
  smaller than the one asked for, and larger by less than the alignment.\<close>

theorem sanitize_args_sound:
  assumes "fa_align args < 2 ^ 16" and "fa_block_bytes args + 2 ^ 15 < sz_max" and "a = sanitize_args args"
  shows "(\<exists>i \<le> 15. fa_align a = 2 ^ i) \<and> ((\<exists>i \<le> 15. fa_align args = 2 ^ i) \<longrightarrow> fa_align a = fa_align args) \<and>
    0 < fa_buf_bytes a \<and> 0 < fa_block_bytes a \<and> fa_align a dvd fa_block_bytes a \<and>
    (fa_buf_bytes args \<noteq> 0 \<longrightarrow> fa_buf_bytes a = fa_buf_bytes args) \<and>
    (fa_block_bytes args \<noteq> 0 \<longrightarrow> fa_block_bytes args \<le> fa_block_bytes a \<and> fa_block_bytes a < fa_block_bytes args + fa_align a)"
  using sanitize_args_facts [OF assms] .

definition demo_args :: fbbiom_args where
  "demo_args = \<lparr>fa_buf_bytes = 100, fa_block_bytes = 10, fa_align = 8, fa_flags = 0\<rparr>"

lemma demo_args_sane: "sanitize_args demo_args = demo_args\<lparr>fa_block_bytes := 16\<rparr>"
proof -
  have "align_adjust 10 8 = 6" using align_adjust_power [of 3 10] by (simp add: sz_max_def)
  moreover have "check_align 15 8 = 8" using check_align_power [of 15 8] by (auto dest: spec [of _ 3])
  ultimately show ?thesis by (simp add: sanitize_args_def demo_args_def Let_def sz_add_def sz_max_def)
qed

theorem sanitize_args_sound_witness:
  "fa_align (sanitize_args demo_args) dvd fa_block_bytes (sanitize_args demo_args) \<and>
   10 \<le> fa_block_bytes (sanitize_args demo_args) \<and> fa_block_bytes (sanitize_args demo_args) < 18"
  using sanitize_args_sound [of demo_args "sanitize_args demo_args", OF _ _ refl] demo_args_sane
  by (simp add: demo_args_def sz_max_def)

section \<open>Packets\<close>

text \<open>C26. From its creation on, a fixed-block buffer passes packets of up to a block on whole and in order, and
  gives the empty packet when it has none, for every sequence of writes and reads; it grows as needed.\<close>

theorem fixed_block_is_packet_queue:
  assumes "pool_sound E" and "heap_ok h" and "a = sanitize_args args" and "fa_align args < 2 ^ 16"
    and "fa_block_bytes args + 2 ^ 15 < sz_max" and "fa_buf_bytes args < sz_max" and "fa_block_bytes a \<le> cap"
    and "pool_plenty E ((ceil_div (fa_buf_bytes a) (fa_block_bytes a) + 1) * fa_block_bytes a)"
    and "covered h d cap" and "packets_fit (fa_block_bytes a) ops" and "sent_total ops < sz_max"
  shows "\<exists>R h1. fbb_create E p a h = Some (Some R, h1) \<and>
    packet_impl_run (fbb_send E p d) (fbb_recv d cap) (R, h1) ops = Some (packet_run [] ops)"
proof -
  have a: "0 < fa_block_bytes a" "0 < fa_buf_bytes a" "fa_buf_bytes a < sz_max"
    using sanitize_args_facts [OF assms(4,5,3)] assms(6)
    by (auto simp: assms(3) sanitize_args_def Let_def FBB_DEFAULT_BUF_BYTES_def MB_def KB_def sz_max_def)
  from fbb_create_ok [OF assms(1,2) a(1) assms(7) a(2,3) assms(8,9,11), of p] obtain R h1 where
    R: "fbb_create E p a h = Some (Some R, h1)" "fbb_rel E d cap (fa_block_bytes a) (R, h1) [] (sent_total ops)" by blast
  then show ?thesis using fixed_block.run_refines [OF R(2) assms(10) order_refl, of p] by blast
qed

lemma client_heap: "heap_ok (empty_heap\<lparr>live := [(1, 64)]\<rparr>)" "covered (empty_heap\<lparr>live := [(1, 64)]\<rparr>) 1 64"
  by (simp_all add: heap_ok_def empty_heap_def covered_def)

theorem fixed_block_is_packet_queue_witness:
  "\<exists>R h1. fbb_create (bump_env (2 ^ 40)) 1 (sanitize_args demo_args) (empty_heap\<lparr>live := [(1, 64)]\<rparr>) = Some (Some R, h1) \<and>
     packet_impl_run (fbb_send (bump_env (2 ^ 40)) 1 1) (fbb_recv 1 64) (R, h1) [Send [1, 2, 3], Send [4], Recv, Recv, Recv] =
       Some [[1, 2, 3], [4], []]"
proof -
  have "pool_plenty (bump_env (2 ^ 40)) 128" by (rule bump_env_plenty) simp
  then show ?thesis
    using fixed_block_is_packet_queue [OF bump_env_sound [of "2 ^ 40"] client_heap(1) refl _ _ _ _ _ client_heap(2), of demo_args
        "[Send [1, 2, 3], Send [4], Recv, Recv, Recv]" 1] demo_args_sane
    by (simp add: demo_args_def sz_max_def ceil_div_def)
qed

text \<open>The blocks do not depend on the bytes in them.\<close>

lemma ring_blocks_cong:
  assumes "blocks h' = blocks h" and "live h' = live h"
  shows "ring_blocks sz rp fs es h' = ring_blocks sz rp fs es h"
proof -
  have "nxt h' = nxt h" "blk h' = blk h" "covered h' = covered h" using assms by (simp_all add: nxt_def blk_def covered_def fun_eq_iff)
  then show ?thesis using assms by (simp add: ring_blocks_def areas_def full_def empty_def heap_ok_def)
qed

lemma fbb_buf_read_small:
  assumes R: "fbb_rel E d cap sz (R, h) (q # ps) b" and n: "n < length q"
  shows "\<exists>R' h'. fbb_buf_read False R d n 1 h = Some (IO_SUCCESS, 0, R', h') \<and> mem h' = mem h \<and> fbb_rel E d cap sz (R', h') ps b"
proof -
  obtain fs0 w es where F: "pool_sound E" "0 < sz" "sz \<le> cap" "pool_plenty E (2 * sz)" "fb_block_size R = sz"
    "fb_stored R = length (concat (q # ps))" "length (concat (q # ps)) + b < sz_max"
    "ring_blocks sz (fb_rp R) fs0 (w # es) h" "fb_wp R = w" "packets h fs0 = q # ps" "covered h d cap" "outside d cap sz h (fs0 @ w # es)"
    using fbb_relE [OF R] by blast
  obtain a fs where fs0: "fs0 = a # fs" using F(10) by (cases fs0) auto
  have q: "mem_read (mem h) (b_data (blk h a)) (b_bytes (blk h a)) = q" "packets h fs = ps" using F(10) fs0 by simp_all
  then have len: "b_bytes (blk h a) = length q" by auto
  have ring: "ring_blocks sz (fb_rp R) (a # fs) (w # es) h" using F(8) fs0 by simp
  then have ir: "is_ring (nxt h) (fb_rp R) (a # fs @ w # es)" and le: "length q \<le> sz" using len by (auto simp: ring_blocks_def full_def)
  have a: "fb_rp R = a" "blocks h a = Some (blk h a)" "a \<noteq> 0" "a \<notin> set fs"
    using is_ring_hd [OF ir] is_ring_blk [OF ir, of a] ir by (auto simp: is_ring_def)
  have out: "outside d (b_bytes (blk h a)) sz h (a # fs @ w # es)"
    using F(12) fs0 outside_sub [of d cap sz h "a # fs @ w # es" d "length q"] le F(3) len by simp
  let ?h1 = "h\<lparr>blocks := (blocks h)(a \<mapsto> (blk h a)\<lparr>b_bytes := 0\<rparr>)\<rparr>"
  let ?R' = "R\<lparr>fb_stored := length (concat ps), fb_rp := b_next (blk h a)\<rparr>"
  have ring1: "ring_blocks sz (b_next (blk h a)) fs ((w # es) @ [a]) ?h1"
    by (rule ring_blocks_cong [THEN iffD1, OF _ _ drain_block(1) [OF ring _ out]]) simp_all
  have sub: "sz_sub (fb_stored R) (length q) = length (concat ps)" using F(6,7) by (simp add: sz_sub_exact)
  have "fbb_buf_read False R d n 1 h = Some (IO_SUCCESS, 0, ?R', ?h1)"
    using a len n sub by (auto simp: fbb_buf_read_def get_blk_def Let_def upd_blk_Some align_down_eq)
  moreover have b1: "blk ?h1 x = (if x = a then (blk h a)\<lparr>b_bytes := 0\<rparr> else blk h x)" for x by (simp add: blk_def)
  have "packets ?h1 fs = ps" unfolding q(2) [symmetric] using b1 a(4) by (auto simp: packets_def)
  then have "fbb_rel E d cap sz (?R', ?h1) ps b"
    by (intro fbb_relI [where fs = fs and es = "w # es @ [a]"])
      (use F fs0 ring1 b1 in \<open>auto simp: covered_def outside_def\<close>)
  ultimately show ?thesis by (intro exI [of _ ?R'] exI [of _ ?h1]) simp
qed

text \<open>C40. What a fixed-block buffer drops, it drops silently: a packet longer than a block is not stored, and the
  write reports success with the full length; a packet longer than the reader's buffer is removed unread,
  and the read reports success with no bytes. Other packets are not affected.\<close>

theorem fixed_block_drops_silently:
  assumes "fbb_rel E d cap sz (R, h) (q # ps) b"
  shows "(\<forall>n > sz. fbb_buf_write E p False R d n h = Some (IO_SUCCESS, n, R, h)) \<and>
    (\<forall>n < length q. \<exists>R' h'. fbb_buf_read False R d n 1 h = Some (IO_SUCCESS, 0, R', h') \<and> mem h' = mem h \<and>
       fbb_rel E d cap sz (R', h') ps b)"
proof -
  obtain fs w es where F: "ring_blocks sz (fb_rp R) fs (w # es) h" "fb_wp R = w" using fbb_relE [OF assms] by metis
  then have "b_size (blk h w) = sz" "blocks h w = Some (blk h w)" "w \<noteq> 0"
    using is_ring_blk [of h "fb_rp R" "fs @ w # es" w] by (auto simp: ring_blocks_def areas_def)
  then have "fbb_buf_write E p False R d n h = Some (IO_SUCCESS, n, R, h)" if "sz < n" for n
    using that F(2) by (simp add: fbb_buf_write_def get_blk_def)
  then show ?thesis using fbb_buf_read_small [OF assms] by blast
qed

text \<open>A buffer with blocks of 16 bytes that holds one packet of three.\<close>

lemma demo_packet: "\<exists>R h. fbb_rel (bump_env (2 ^ 40)) 1 64 16 (R, h) [[1, 2, 3]] 7"
proof -
  let ?E = "bump_env (2 ^ 40)" and ?args = "\<lparr>fa_buf_bytes = 100, fa_block_bytes = 16, fa_align = 8, fa_flags = 0\<rparr>"
  have pl: "pool_plenty ?E ((ceil_div (fa_buf_bytes ?args) (fa_block_bytes ?args) + 1) * fa_block_bytes ?args)"
    by (rule bump_env_plenty) (simp add: ceil_div_def)
  obtain s where "fbb_rel ?E 1 64 16 s [] 10"
    using fbb_create_ok [OF bump_env_sound client_heap(1) _ _ _ _ pl client_heap(2), of 10 1] by (auto simp: sz_max_def)
  from fbb_send_ok [OF this, of "[1, 2, 3]" 1] obtain s' where "fbb_rel ?E 1 64 16 s' [[1, 2, 3]] 7" by auto
  then show ?thesis by (cases s') auto
qed

theorem fixed_block_drops_silently_witness:
  "\<exists>R h. fbb_rel (bump_env (2 ^ 40)) 1 64 16 (R, h) [[1, 2, 3]] 7 \<and>
     fbb_buf_write (bump_env (2 ^ 40)) 1 False R 1 17 h = Some (IO_SUCCESS, 17, R, h) \<and>
     (\<exists>R' h'. fbb_buf_read False R 1 2 1 h = Some (IO_SUCCESS, 0, R', h') \<and> fbb_rel (bump_env (2 ^ 40)) 1 64 16 (R', h') [] 7)"
proof -
  obtain R h where r: "fbb_rel (bump_env (2 ^ 40)) 1 64 16 (R, h) [[1, 2, 3]] 7" using demo_packet by blast
  note drops = fixed_block_drops_silently [OF r, of 1]
  have "fbb_buf_write (bump_env (2 ^ 40)) 1 False R 1 17 h = Some (IO_SUCCESS, 17, R, h)" using drops by simp
  moreover have "2 < length [1, 2, 3 :: byte]" by simp
  then have "\<exists>R' h'. fbb_buf_read False R 1 2 1 h = Some (IO_SUCCESS, 0, R', h') \<and> fbb_rel (bump_env (2 ^ 40)) 1 64 16 (R', h') [] 7"
    using drops by blast
  ultimately show ?thesis using r by blast
qed

end
