(* ===== verification/Handle_Queue_Fifo.thy ===== *)
theory Handle_Queue_Fifo
  imports Packet_Queue Machine_Setup
begin

text \<open>
  The handle queue: the reader gets an entry of 40 bytes that says where the data lie. Decoding the entry gives
  back what was encoded, and under a list of memex that is a queue, the machine passes packets on in order.
\<close>

section \<open>Reading an entry\<close>

text \<open>A signed number from its bytes.\<close>

definition les_int :: "byte list \<Rightarrow> int" where
  "les_int xs = (let n = int (le_nat xs) in if n < 2 ^ 63 then n else n - 2 ^ 64)"

text \<open>The fields of \<open>HQ_ENTRY\<close> as a reader finds them in its buffer.\<close>

definition hq_entry_of :: "byte list \<Rightarrow> hq_entry" where
  "hq_entry_of xs = \<lparr>hq_pool = le_nat (take 8 xs), hq_buf = le_nat (take 8 (drop 8 xs)), hq_len = le_nat (take 8 (drop 16 xs)),
     hq_tv = \<lparr>tv_sec = les_int (take 8 (drop 24 xs)), tv_usec = les_int (take 8 (drop 32 xs))\<rparr>\<rparr>"

lemma length_le64 [simp]: "length (le64 n) = 8" "length (les64 i) = 8"
  by (simp_all add: le64_def les64_def)

lemma le_nat_le64: "n < 2 ^ 64 \<Longrightarrow> le_nat (le64 n) = n"
  by (simp add: le64_def le_nat_le_bytes)

lemma les_int_les64: "- (2 ^ 63) \<le> i \<Longrightarrow> i < 2 ^ 63 \<Longrightarrow> les_int (les64 i) = i"
proof -
  assume i: "- (2 ^ 63) \<le> i" "i < 2 ^ 63"
  have "i mod 2 ^ 64 = (if i < 0 then i + 2 ^ 64 else i)"
  proof (cases "i < 0")
    case True
    have "i mod 2 ^ 64 = (i + 2 ^ 64) mod 2 ^ 64" by simp
    also have "\<dots> = i + 2 ^ 64" by (rule mod_pos_pos_trivial) (use i True in simp_all)
    finally show ?thesis using True by simp
  qed (use i in simp)
  then show ?thesis using i by (simp add: les_int_def les64_def le_nat_le64 Let_def)
qed


text \<open>An entry whose fields fit their types.\<close>

definition entry_fits :: "hq_entry \<Rightarrow> bool" where
  "entry_fits e \<longleftrightarrow> hq_pool e < 2 ^ 64 \<and> hq_buf e < 2 ^ 64 \<and> hq_len e < 2 ^ 64 \<and>
     - (2 ^ 63) \<le> tv_sec (hq_tv e) \<and> tv_sec (hq_tv e) < 2 ^ 63 \<and> - (2 ^ 63) \<le> tv_usec (hq_tv e) \<and> tv_usec (hq_tv e) < 2 ^ 63"

lemma length_entry_bytes [simp]: "length (hq_entry_bytes e) = sizeof_hq_entry"
  by (simp add: hq_entry_bytes_def sizeof_hq_entry_def)

lemma entry_roundtrip: "entry_fits e \<Longrightarrow> hq_entry_of (hq_entry_bytes e) = e"
  by (simp add: hq_entry_of_def hq_entry_bytes_def entry_fits_def le_nat_le64 les_int_les64)

section \<open>The queue behind a machine\<close>

text \<open>What the code relies on: a list made by \<open>memex_fifo_create\<close> is a queue, with the entries that \<open>qs\<close> gives; the pool gives out addresses below
  \<open>2 ^ 64\<close> as long as the memory in use, measured by \<open>used\<close>, stays below that, and so does the address of a pool;
  the clock fits its type.\<close>

definition memex_fifo :: "sys \<Rightarrow> (mlist \<rightharpoonup> hq_entry list) \<Rightarrow> bool" where
  "memex_fifo S qs \<longleftrightarrow> (\<forall>p. qs (memex_fifo_create S p) = Some []) \<and>
     (\<forall>l es e. qs l = Some es \<longrightarrow> (\<exists>l'. memex_list_push S l e = Some l' \<and> qs l' = Some (es @ [e]))) \<and>
     (\<forall>l es. qs l = Some es \<longrightarrow>
        (\<exists>l'. memex_list_pop S l = Some (if es = [] then None else Some (hd es), l') \<and> qs l' = Some (tl es)))"

definition queue_room :: "sys \<Rightarrow> ((addr \<times> nat) list \<Rightarrow> nat) \<Rightarrow> bool" where
  "queue_room S used \<longleftrightarrow>
     (\<forall>h p n. used (live h) + n < 2 ^ 64 \<longrightarrow>
        (\<exists>a < 2 ^ 64. palloc (s_mem S) h p n = Some a \<and> used ((a, n) # live h) \<le> used (live h) + n)) \<and>
     (\<forall>h p. create_subpool (s_mem S) h p < 2 ^ 64) \<and>
     (\<forall>n. 0 \<le> tv_sec (gettimeofday S n) \<and> tv_sec (gettimeofday S n) < 2 ^ 63 \<and>
          0 \<le> tv_usec (gettimeofday S n) \<and> tv_usec (gettimeofday S n) < 2 ^ 63)"

text \<open>The entry \<open>e\<close> holds the packet \<open>p\<close>, away from the client's buffer at \<open>d\<close>.\<close>

definition holds :: "addr \<Rightarrow> nat \<Rightarrow> heap \<Rightarrow> hq_entry \<Rightarrow> byte list \<Rightarrow> bool" where
  "holds d cap h e p \<longleftrightarrow> entry_fits e \<and> hq_len e = length p \<and> mem_read (mem h) (hq_buf e) (length p) = p \<and>
     covered h (hq_buf e) (length p) \<and> disj d cap (hq_buf e) (length p)"

definition queue_machine :: "io_handle \<Rightarrow> machine_desc \<Rightarrow> hq \<Rightarrow> world \<Rightarrow> bool" where
  "queue_machine h D q w \<longleftrightarrow> machine_get_desc h w = Some D \<and> md_impl D = IMPL_HQ q \<and> \<not> md_lock D \<and>
     (\<exists>r wr. md_io_read D = Some r \<and> md_io_write D = Some wr \<and> io_state r = IO_DESC_ENABLED \<and> io_state wr = IO_DESC_ENABLED \<and>
        end_filter FN_HQ_READ h (io_obj r) w \<and> end_filter FN_HQ_WRITE h (io_obj wr) w)"

definition queue_rel :: "sys \<Rightarrow> (mlist \<rightharpoonup> hq_entry list) \<Rightarrow> ((addr \<times> nat) list \<Rightarrow> nat) \<Rightarrow> io_handle \<Rightarrow> addr \<Rightarrow> nat
    \<Rightarrow> world \<Rightarrow> byte list list \<Rightarrow> nat \<Rightarrow> bool" where
  "queue_rel S qs used h d cap w ps b \<longleftrightarrow> pool_sound (s_mem S) \<and> memex_fifo S qs \<and> queue_room S used \<and>
     used (live (w_heap w)) + b < 2 ^ 64 \<and> sizeof_hq_entry \<le> cap \<and> cap < 2 ^ 64 \<and> covered (w_heap w) d cap \<and>
     (\<exists>D q es. queue_machine h D q w \<and> \<not> hq_flush q \<and> qs (hq_list q) = Some es \<and> list_all2 (holds d cap (w_heap w)) es ps)"

text \<open>A client reads an entry and then the data that it points to.\<close>

definition queue_recv :: "sys \<Rightarrow> nat \<Rightarrow> io_handle \<Rightarrow> addr \<Rightarrow> world \<Rightarrow> (byte list \<times> world) option" where
  "queue_recv S depth h d w = do {
     (st, r, w') \<leftarrow> machine_desc_read S (call_filter S depth) h d sizeof_hq_entry w;
     if r = 0 then Some ([], w')
     else let e = hq_entry_of (mem_read (mem (w_heap w')) d r) in
       Some (mem_read (mem (w_heap w')) (hq_buf e) (hq_len e), w')
   }"

lemma holds_frame:
  assumes "holds d cap h e p" and "set (live h) \<subseteq> set (live h')"
    and "mem_read (mem h') (hq_buf e) (length p) = mem_read (mem h) (hq_buf e) (length p)"
  shows "holds d cap h' e p"
  using assms covered_mono by (auto simp: holds_def)

lemma put_hq_step:
  assumes "machine_get_desc h w = Some D"
  shows "desc_step h (D\<lparr>md_impl := IMPL_HQ q\<rparr>) (w_heap w) w (put_hq h q w)"
  using desc_step_upd [OF assms, of "md_impl_update (\<lambda>_. IMPL_HQ q)"] by (simp add: put_hq_def)

lemma queue_machine_step:
  assumes "queue_machine h D q w" and "desc_step h (D\<lparr>md_impl := IMPL_HQ q', md_metrics := ms\<rparr>) hp w w'"
  shows "queue_machine h (D\<lparr>md_impl := IMPL_HQ q', md_metrics := ms\<rparr>) q' w'"
  using assms end_filter_cong [of w' w] by (simp add: queue_machine_def desc_step_def)

lemma queue_machine_poke: "queue_machine h D q w \<Longrightarrow> queue_machine h D q (poke d xs w)"
  using end_filter_cong [of "poke d xs w" w] by (simp add: queue_machine_def poke_def)


section \<open>Writing and reading\<close>

lemma queue_machine_write:
  fixes S w n buf D
  defines "p \<equiv> create_subpool (s_mem S) (w_heap w) (md_pool D)"
  assumes M: "queue_machine h D q w" and a: "palloc (s_mem S) (w_heap w) p n = Some a"
    and l: "memex_list_push S (hq_list q) \<lparr>hq_pool = p, hq_buf = a, hq_len = n, hq_tv = gettimeofday S (w_ticks w)\<rparr> = Some l"
  shows "\<exists>w' ms. machine_desc_write S (call_filter S (Suc k)) h buf n w = Some (IO_SUCCESS, n, w') \<and>
    desc_step h (D\<lparr>md_impl := IMPL_HQ (q\<lparr>hq_list := l\<rparr>), md_metrics := ms\<rparr>)
      ((w_heap w)\<lparr>live := (a, n) # live (w_heap w), mem := mem_copy (mem (w_heap w)) a buf n\<rparr>) w w'"
proof -
  let ?hp = "(w_heap w)\<lparr>live := (a, n) # live (w_heap w), mem := mem_copy (mem (w_heap w)) a buf n\<rparr>"
  let ?q = "q\<lparr>hq_list := l\<rparr>"
  from M obtain wr where D: "machine_get_desc h w = Some D" "md_impl D = IMPL_HQ q" "\<not> md_lock D" "md_io_write D = Some wr"
    "io_state wr = IO_DESC_ENABLED" "end_filter FN_HQ_WRITE h (io_obj wr) w" by (auto simp: queue_machine_def)
  have io: "io_obj wr \<noteq> 0" using D(6) by (simp add: end_filter_def)
  show ?thesis
  proof (rule machine_desc_write_call [OF D(1,4) io _ D(3), where D' = "D\<lparr>md_impl := IMPL_HQ ?q\<rparr>"])
    fix w1 assume s: "desc_step h (D\<lparr>md_in_use := md_in_use D + 1\<rparr>) (w_heap w) w w1" "w_ticks w1 = w_ticks w"
    then have g: "machine_get_desc h w1 = Some (D\<lparr>md_in_use := md_in_use D + 1\<rparr>)" "w_heap w1 = w_heap w"
      and f: "end_filter FN_HQ_WRITE h (io_obj wr) w1" using D(6) end_filter_cong [of w1 w] by (simp_all add: desc_step_def)
    from end_filterD [OF f] obtain fl where fl: "get_filter (io_obj wr) w1 = Some fl" "f_call fl = FN_HQ_WRITE"
      "handle_of (io_obj wr) w1 = Some h" by blast
    let ?w2 = "put_hq h ?q (w1\<lparr>w_heap := ?hp, w_ticks := w_ticks w1 + 1\<rparr>)"
    have g2: "machine_get_desc h (w1\<lparr>w_heap := ?hp, w_ticks := w_ticks w1 + 1\<rparr>) = Some (D\<lparr>md_in_use := md_in_use D + 1\<rparr>)"
      using g(1) by (simp add: machine_get_desc_def)
    have "call_filter S (Suc k) (io_obj wr) buf n IO_NO_BLOCK IO_DEFAULT_ALIGN w1 = Some (IO_SUCCESS, n, ?w2)"
      using fl g D(2) a l s(2) by (simp add: filter_body_def queue_write_def hq_of_def p_def Let_def)
    moreover have "desc_step h ((D\<lparr>md_impl := IMPL_HQ ?q\<rparr>)\<lparr>md_in_use := md_in_use D + 1\<rparr>) ?hp w1 ?w2"
      using put_hq_step [OF g2, of ?q] by (simp add: desc_step_def desc_upd_commute machine_get_desc_def)
    ultimately show "\<exists>w2. call_filter S (Suc k) (io_obj wr) buf n IO_NO_BLOCK IO_DEFAULT_ALIGN w1 = Some (IO_SUCCESS, n, w2) \<and>
      desc_step h ((D\<lparr>md_impl := IMPL_HQ ?q\<rparr>)\<lparr>md_in_use := md_in_use D + 1\<rparr>) ?hp w1 w2" by blast
  qed (use io D in auto)
qed

text \<open>What a read of at least an entry's size answers: the entry, or nothing, or the end.\<close>

definition popped :: "hq_entry option \<Rightarrow> hq \<Rightarrow> size_t \<Rightarrow> io_status \<times> size_t" where
  "popped e q n = (if e \<noteq> None then (IO_SUCCESS, sizeof_hq_entry) else if hq_flush q then (IO_COMPLETE, n) else (IO_SUCCESS, 0))"

lemma queue_machine_read:
  assumes M: "queue_machine h D q w" and n: "sizeof_hq_entry \<le> n" and l: "memex_list_pop S (hq_list q) = Some (e, l)"
  shows "\<exists>w' ms. machine_desc_read S (call_filter S (Suc k)) h buf n w = Some (fst (popped e q n), snd (popped e q n), w') \<and>
    desc_step h ((after_read (fst (popped e q n)) D)\<lparr>md_impl := IMPL_HQ (q\<lparr>hq_list := l\<rparr>), md_metrics := ms\<rparr>)
      ((w_heap w)\<lparr>mem := (case e of None \<Rightarrow> mem (w_heap w) | Some e \<Rightarrow> mem_write (mem (w_heap w)) buf (hq_entry_bytes e))\<rparr>) w w'"
proof -
  let ?hp = "(w_heap w)\<lparr>mem := (case e of None \<Rightarrow> mem (w_heap w) | Some e \<Rightarrow> mem_write (mem (w_heap w)) buf (hq_entry_bytes e))\<rparr>"
  let ?q = "q\<lparr>hq_list := l\<rparr>" and ?st = "fst (popped e q n)" and ?m = "snd (popped e q n)"
  let ?D' = "(after_read ?st D)\<lparr>md_impl := IMPL_HQ ?q\<rparr>"
  from M obtain r where D: "machine_get_desc h w = Some D" "md_impl D = IMPL_HQ q" "\<not> md_lock D" "md_io_read D = Some r"
    "io_state r = IO_DESC_ENABLED" "end_filter FN_HQ_READ h (io_obj r) w" by (auto simp: queue_machine_def)
  have io: "io_obj r \<noteq> 0" using D(6) by (simp add: end_filter_def)
  show ?thesis
  proof (rule machine_desc_read_call [OF D(1,4) io _ D(3), where D' = ?D'])
    fix w1 assume s: "desc_step h (D\<lparr>md_in_use := md_in_use D + 1\<rparr>) (w_heap w) w w1"
    then have g: "machine_get_desc h w1 = Some (D\<lparr>md_in_use := md_in_use D + 1\<rparr>)" "w_heap w1 = w_heap w"
      and f: "end_filter FN_HQ_READ h (io_obj r) w1" using D(6) end_filter_cong [of w1 w] by (simp_all add: desc_step_def)
    from end_filterD [OF f] obtain fl where fl: "get_filter (io_obj r) w1 = Some fl" "f_call fl = FN_HQ_READ"
      "handle_of (io_obj r) w1 = Some h" by blast
    let ?w2 = "(put_hq h ?q w1)\<lparr>w_heap := ?hp\<rparr>"
    let ?w3 = "if ?st = IO_COMPLETE then set_read_state h IO_DESC_DISABLING ?w2 else ?w2"
    have s2: "desc_step h ((D\<lparr>md_in_use := md_in_use D + 1\<rparr>)\<lparr>md_impl := IMPL_HQ ?q\<rparr>) ?hp w1 ?w2"
      by (rule desc_step_heap [OF put_hq_step [OF g(1)]])
    have "w_heap (put_hq h ?q w1) = w_heap w" using g(2) by (simp add: put_hq_def upd_desc_def)
    then have heap: "(put_hq h ?q w1)\<lparr>w_heap := w_heap w\<rparr> = put_hq h ?q w1" by simp
    have "call_filter S (Suc k) (io_obj r) buf n IO_NO_BLOCK IO_DEFAULT_ALIGN w1 = Some (?st, ?m, ?w3)"
      using fl g D n l heap
      by (cases e) (auto simp: filter_body_def queue_read_def hq_of_def popped_def set_read_state_def)
    moreover have "desc_step h (?D'\<lparr>md_in_use := md_in_use D + 1\<rparr>) ?hp w1 ?w3"
    proof (cases "?st = IO_COMPLETE")
      case True
      have g2: "machine_get_desc h ?w2 = Some ((D\<lparr>md_in_use := md_in_use D + 1\<rparr>)\<lparr>md_impl := IMPL_HQ ?q\<rparr>)" "w_heap ?w2 = ?hp"
        using s2 by (simp_all add: desc_step_def)
      from desc_step_upd [OF g2(1), of "\<lambda>d. d\<lparr>md_io_read := map_option (io_state_update (\<lambda>_. IO_DESC_DISABLING)) (md_io_read d)\<rparr>"]
      show ?thesis using desc_step_trans [OF s2] g2(2) True by (simp add: set_read_state_def after_read_def desc_upd_commute)
    qed (use s2 in \<open>simp add: after_read_def desc_upd_commute\<close>)
    ultimately show "\<exists>w2. call_filter S (Suc k) (io_obj r) buf n IO_NO_BLOCK IO_DEFAULT_ALIGN w1 = Some (?st, ?m, w2) \<and>
      desc_step h (?D'\<lparr>md_in_use := md_in_use D + 1\<rparr>) ?hp w1 w2" by blast
  qed (use io D in \<open>auto simp: after_read_def\<close>)
qed

section \<open>The contract\<close>

lemma queue_relE:
  assumes "queue_rel S qs used h d cap w ps b"
  obtains D q es where "pool_sound (s_mem S)" "memex_fifo S qs" "queue_room S used" "used (live (w_heap w)) + b < 2 ^ 64"
    "sizeof_hq_entry \<le> cap" "cap < 2 ^ 64" "covered (w_heap w) d cap" "queue_machine h D q w" "\<not> hq_flush q"
    "qs (hq_list q) = Some es" "list_all2 (holds d cap (w_heap w)) es ps"
  using assms unfolding queue_rel_def by blast

text \<open>Writing into the client's buffer leaves the packets as they are.\<close>

lemma holds_poke:
  assumes "holds d cap h e p" and "length xs \<le> cap"
  shows "holds d cap (h\<lparr>mem := mem_write (mem h) d xs\<rparr>) e p"
proof (rule holds_frame [OF assms(1)])
  have "disj d (length xs) (hq_buf e) (length p)" using assms by (auto simp: holds_def intro: disj_sub)
  then show "mem_read (mem (h\<lparr>mem := mem_write (mem h) d xs\<rparr>)) (hq_buf e) (length p) = mem_read (mem h) (hq_buf e) (length p)"
    by (simp add: mem_simps)
qed simp

text \<open>So does filling memory that was just handed out.\<close>

lemma fresh_disj:
  assumes "pool_sound E" and "palloc E h p n = Some a" and "covered h x k"
  shows "disj a n x k"
proof -
  obtain b l where "(b, l) \<in> set (live h)" "b \<le> x" "x + k \<le> b + l" using assms(3) by (auto simp: covered_def)
  moreover have "disj a n b l" using assms(1,2) calculation(1) unfolding pool_sound_def by blast
  ultimately show ?thesis by (auto intro: disj_sub)
qed

lemma holds_alloc:
  assumes "pool_sound E" and "palloc E h p n = Some a" and "holds d cap h e x"
  shows "holds d cap (h\<lparr>live := (a, n) # live h, mem := mem_copy (mem h) a s n\<rparr>) e x"
proof (rule holds_frame [OF assms(3)])
  have "covered h (hq_buf e) (length x)" using assms(3) by (simp add: holds_def)
  from fresh_disj [OF assms(1,2) this]
  show "mem_read (mem (h\<lparr>live := (a, n) # live h, mem := mem_copy (mem h) a s n\<rparr>)) (hq_buf e) (length x) =
      mem_read (mem h) (hq_buf e) (length x)" by (simp add: mem_simps)
qed auto

lemma queue_send_ok:
  assumes "queue_rel S qs used h d cap w ps b" and "length xs \<le> cap" and "length xs \<le> b"
  shows "\<exists>w'. machine_put S (Suc k) h d xs w = Some w' \<and> queue_rel S qs used h d cap w' (ps @ [xs]) (b - length xs)"
proof -
  obtain D q es where F: "pool_sound (s_mem S)" "memex_fifo S qs" "queue_room S used" "used (live (w_heap w)) + b < 2 ^ 64"
    "sizeof_hq_entry \<le> cap" "cap < 2 ^ 64" "covered (w_heap w) d cap" and M: "queue_machine h D q w" "\<not> hq_flush q"
    and es: "qs (hq_list q) = Some es" and ps: "list_all2 (holds d cap (w_heap w)) es ps"
    by (rule queue_relE [OF assms(1)])
  let ?w = "poke d xs w" and ?n = "length xs"
  let ?hp = "w_heap ?w" and ?p = "create_subpool (s_mem S) (w_heap ?w) (md_pool D)"
  have lv: "live ?hp = live (w_heap w)" by (simp add: poke_def)
  then have cov: "covered ?hp d cap" using F(7) by (simp add: covered_def)
  have ps1: "list_all2 (holds d cap ?hp) es ps"
    by (rule list_all2_mono [OF ps]) (simp add: poke_def holds_poke [OF _ assms(2)])
  have "used (live ?hp) + ?n < 2 ^ 64" using F(4) assms(3) lv by simp
  then obtain a where a: "a < 2 ^ 64" "palloc (s_mem S) ?hp ?p ?n = Some a" "used ((a, ?n) # live ?hp) \<le> used (live ?hp) + ?n"
    using F(3) unfolding queue_room_def by blast
  let ?e = "\<lparr>hq_pool = ?p, hq_buf = a, hq_len = ?n, hq_tv = gettimeofday S (w_ticks ?w)\<rparr>"
  obtain l where l: "memex_list_push S (hq_list q) ?e = Some l" "qs l = Some (es @ [?e])"
    using F(2) es unfolding memex_fifo_def by blast
  let ?hp' = "?hp\<lparr>live := (a, ?n) # live ?hp, mem := mem_copy (mem ?hp) a d ?n\<rparr>"
  let ?q = "q\<lparr>hq_list := l\<rparr>"
  from queue_machine_write [OF queue_machine_poke [OF M(1)] a(2) l(1), of k d] obtain w' ms where
    r: "machine_desc_write S (call_filter S (Suc k)) h d ?n ?w = Some (IO_SUCCESS, ?n, w')"
      "desc_step h (D\<lparr>md_impl := IMPL_HQ ?q, md_metrics := ms\<rparr>) ?hp' ?w w'" by blast
  have hp: "w_heap w' = ?hp'" using r(2) by (simp add: desc_step_def)
  have M': "queue_machine h (D\<lparr>md_impl := IMPL_HQ ?q, md_metrics := ms\<rparr>) ?q w'"
    by (rule queue_machine_step [OF queue_machine_poke [OF M(1)] r(2)])
  have "0 \<le> tv_sec (hq_tv ?e)" "0 \<le> tv_usec (hq_tv ?e)" "tv_sec (hq_tv ?e) < 2 ^ 63" "tv_usec (hq_tv ?e) < 2 ^ 63" "?p < 2 ^ 64"
    using F(3) unfolding queue_room_def by simp_all
  then have fits: "entry_fits ?e" using a(1) assms(2) F(6) by (simp add: entry_fits_def)
  have da: "disj d cap a ?n" using fresh_disj [OF F(1) a(2) cov] by (simp add: disj_sym)
  have "mem_read (mem ?hp') a ?n = xs" by (simp add: mem_simps poke_def)
  then have new: "holds d cap ?hp' ?e xs" using fits da by (auto simp: holds_def covered_def)
  have old: "list_all2 (holds d cap ?hp') es ps"
    by (rule list_all2_mono [OF ps1]) (rule holds_alloc [OF F(1) a(2)])
  have "queue_rel S qs used h d cap w' (ps @ [xs]) (b - ?n)"
    unfolding queue_rel_def hp
  proof (intro conjI exI)
    show "used (live ?hp') + (b - ?n) < 2 ^ 64" using F(4) a(3) assms(3) lv by simp
    show "covered ?hp' d cap" by (rule covered_mono [OF cov]) auto
    show "qs (hq_list ?q) = Some (es @ [?e])" using l(2) by simp
    show "list_all2 (holds d cap ?hp') (es @ [?e]) (ps @ [xs])" using old new by (simp add: list_all2_appendI)
  qed (use F M M' in auto)
  then show ?thesis using r(1) by (simp add: machine_put_def del: call_filter.simps)
qed

lemma queue_recv_ok:
  assumes "queue_rel S qs used h d cap w ps b"
  shows "\<exists>w'. queue_recv S (Suc k) h d w = Some (if ps = [] then [] else hd ps, w') \<and> queue_rel S qs used h d cap w' (tl ps) b"
proof -
  obtain D q es where F: "pool_sound (s_mem S)" "memex_fifo S qs" "queue_room S used" "used (live (w_heap w)) + b < 2 ^ 64"
    "sizeof_hq_entry \<le> cap" "cap < 2 ^ 64" "covered (w_heap w) d cap" and M: "queue_machine h D q w" "\<not> hq_flush q"
    and es: "qs (hq_list q) = Some es" and ps: "list_all2 (holds d cap (w_heap w)) es ps"
    by (rule queue_relE [OF assms])
  define eo where "eo = (if es = [] then None else Some (hd es))"
  obtain l where l: "memex_list_pop S (hq_list q) = Some (eo, l)" "qs l = Some (tl es)"
    using F(2) es unfolding memex_fifo_def eo_def by blast
  let ?q = "q\<lparr>hq_list := l\<rparr>" and ?n = "sizeof_hq_entry"
  let ?hp = "(w_heap w)\<lparr>mem := (case eo of None \<Rightarrow> mem (w_heap w) | Some e \<Rightarrow> mem_write (mem (w_heap w)) d (hq_entry_bytes e))\<rparr>"
  have pop: "fst (popped eo q ?n) = IO_SUCCESS" "snd (popped eo q ?n) = (if eo = None then 0 else ?n)"
    using M(2) by (auto simp: popped_def)
  from queue_machine_read [OF M(1) order_refl l(1), of k d] obtain w' ms where
    r: "machine_desc_read S (call_filter S (Suc k)) h d ?n w = Some (IO_SUCCESS, if eo = None then 0 else ?n, w')"
      "desc_step h (D\<lparr>md_impl := IMPL_HQ ?q, md_metrics := ms\<rparr>) ?hp w w'"
    unfolding pop by (auto simp: after_read_def)
  have hp: "w_heap w' = ?hp" using r(2) by (simp add: desc_step_def)
  have keep: "holds d cap ?hp e p" if "holds d cap (w_heap w) e p" for e p
    using holds_poke [OF that, of "hq_entry_bytes (the eo)"] F(5) that by (auto split: option.split)
  have all: "list_all2 (holds d cap ?hp) es ps" by (rule list_all2_mono [OF ps]) (rule keep)
  have "queue_rel S qs used h d cap w' (tl ps) b"
    unfolding queue_rel_def hp
  proof (intro conjI exI)
    show "queue_machine h (D\<lparr>md_impl := IMPL_HQ ?q, md_metrics := ms\<rparr>) ?q w'" by (rule queue_machine_step [OF M(1) r(2)])
    show "qs (hq_list ?q) = Some (tl es)" using l(2) by simp
    show "list_all2 (holds d cap ?hp) (tl es) (tl ps)" using all by (cases ps) (auto simp: list_all2_Cons2)
    show "covered ?hp d cap" using F(7) by (simp add: covered_def)
  qed (use F M in auto)
  moreover have "queue_recv S (Suc k) h d w = Some (if ps = [] then [] else hd ps, w')"
  proof (cases ps)
    case Nil
    then have "eo = None" using ps by (simp add: eo_def)
    then show ?thesis using Nil r(1) by (simp add: queue_recv_def del: call_filter.simps)
  next
    case (Cons p ps')
    then obtain e where e: "eo = Some e" "holds d cap ?hp e p" using all by (auto simp: eo_def list_all2_Cons2)
    then have "mem_read (mem (w_heap w')) d ?n = hq_entry_bytes e" using hp mem_read_same [of _ d "hq_entry_bytes e"] by simp
    moreover have "hq_entry_of (hq_entry_bytes e) = e" "hq_len e = length p" "mem_read (mem (w_heap w')) (hq_buf e) (length p) = p"
      using e hp entry_roundtrip by (auto simp: holds_def)
    ultimately show ?thesis using Cons r(1) e(1) by (simp add: queue_recv_def sizeof_hq_entry_def del: call_filter.simps)
  qed
  ultimately show ?thesis by blast
qed

interpretation handle_queue: packet_queue "queue_rel S qs used h d cap" cap "machine_put S (Suc k) h d" "queue_recv S (Suc k) h d"
  for S qs used h d cap k
proof unfold_locales
  show "\<exists>s'. queue_recv S (Suc k) h d w = Some (p, s') \<and> queue_rel S qs used h d cap s' ps b"
    if "queue_rel S qs used h d cap w (p # ps) b" for w p ps b
    using queue_recv_ok [OF that, of k] by (simp del: call_filter.simps)
  show "\<exists>s'. queue_recv S (Suc k) h d w = Some ([], s') \<and> queue_rel S qs used h d cap s' [] b"
    if "queue_rel S qs used h d cap w [] b" for w b
    using queue_recv_ok [OF that, of k] by (simp del: call_filter.simps)
qed (rule queue_send_ok)

end
