(* ===== verification/Queue_Properties.thy ===== *)
theory Queue_Properties
  imports Handle_Queue_Fifo Demo_World
begin

text \<open>
  The properties of the handle queue: what its entries say, the packets it passes on from its creation on, and
  what a reader sees at its end.
\<close>

section \<open>Creation\<close>

definition hq_registered :: "world \<Rightarrow> bool" where
  "hq_registered w \<longleftrightarrow> (\<exists>m. w_hq_machine w = Some m \<and> m < length (w_machines w))"

text \<open>A world in which a handle queue can be created.\<close>

definition hq_ready :: "world \<Rightarrow> bool" where
  "hq_ready w \<longleftrightarrow> handles_ok w \<and> w_handle_counter w + 1 < 2 ^ 31 \<and>
     (w_handle_alloc w = 0 \<and> w_handle_map w = [] \<or> length (w_handle_map w) < w_handle_alloc w) \<and>
     (hq_registered w \<and> w_pool w \<noteq> None \<or> w_hq_machine w = None \<and> get_machine ''handle_queue'' w = None)"

lemma get_hq_machine_ok:
  assumes E: "pool_sound (s_mem S)" "pool_plenty (s_mem S) c" "repalloc_ok S" and w: "hq_ready w"
  shows "\<exists>m w'. get_hq_machine S w = Some (m, w') \<and> hq_registered w' \<and> table_room w' \<and> handles_ok w' \<and>
    heap_grows (w_heap w) (w_heap w')"
proof (cases "w_hq_machine w")
  case (Some m)
  then show ?thesis using w by (auto simp: get_hq_machine_def hq_ready_def table_room_def hq_registered_def)
next
  case None
  then have "get_machine ''handle_queue'' w = None" using w by (auto simp: hq_ready_def hq_registered_def)
  from machine_register_ok [OF E this] obtain hp p m t where
    r: "machine_register S ''handle_queue'' w = Some (Some (length (w_machines w)),
      w\<lparr>w_pool := Some p, w_heap := hp, w_machines := w_machines w @ [m], w_machines_ptr := t\<rparr>)" "heap_grows (w_heap w) hp" by blast
  then show ?thesis using None w
    by (simp add: get_hq_machine_def Let_def hq_registered_def table_room_def hq_ready_def handles_ok_def used_handles_def)
qed

lemma create_queue_ok:
  assumes E: "pool_sound (s_mem S)" "pool_plenty (s_mem S) c" "\<And>h p. create_subpool (s_mem S) h p \<noteq> 0"
    and w: "hq_registered w" "table_room w" "handles_ok w"
  shows "\<exists>h w' D q p. create_queue S None w = Some (h, w') \<and> queue_machine h D q w' \<and> hq_list q = memex_fifo_create S p \<and>
    \<not> hq_flush q \<and> heap_grows (w_heap w) (w_heap w')"
proof -
  obtain m where m: "w_hq_machine w = Some m" "m < length (w_machines w)" using w(1) by (auto simp: hq_registered_def)
  let ?p = "create_subpool (s_mem S) (w_heap w) (m_alloc (w_machines w ! m))"
  obtain a where a: "pcalloc (s_mem S) (w_heap w) ?p sizeof_hq = Some a" using alloc_ok(2) [OF E(1,2)] by blast
  let ?w1 = "add_live a sizeof_hq w"
  let ?q = "\<lparr>hq_list = memex_fifo_create S ?p, hq_flush = False\<rparr>"
  let ?d = "zero_desc\<lparr>md_impl := IMPL_HQ ?q\<rparr>"
  have t: "table_room ?w1" "handles_ok ?w1" using w(2,3) by (simp_all add: table_room_def handles_ok_def used_handles_def add_live_eq)
  from setup_desc_ok [OF E(1,2) t, of ?p m "''ring_buf_r''" FN_HQ_READ "''ring_buf_w''" FN_HQ_WRITE ?d]
  obtain h w' D r wr where s: "setup_desc S ?p m ''ring_buf_r'' FN_HQ_READ ''ring_buf_w'' FN_HQ_WRITE ?d ?w1 = Some (h, w')"
      "machine_get_desc h w' = Some D" "md_impl D = IMPL_HQ ?q" "\<not> md_lock D"
      "md_io_read D = Some r" "md_io_write D = Some wr" "io_state r = IO_DESC_ENABLED" "io_state wr = IO_DESC_ENABLED"
      "end_filter FN_HQ_READ h (io_obj r) w'" "end_filter FN_HQ_WRITE h (io_obj wr) w'" "heap_grows (w_heap ?w1) (w_heap w')" by auto
  have "create_queue S None w = Some (h, w')"
    using m a s(1) E(3) [of "w_heap w" "m_alloc (w_machines w ! m)"] by (simp add: create_queue_def get_iom_def Let_def)
  moreover have "queue_machine h D ?q w'" using s by (auto simp: queue_machine_def)
  moreover have "heap_grows (w_heap w) (w_heap ?w1)" by (simp add: add_live_eq)
  then have "heap_grows (w_heap w) (w_heap w')" using s(11) by (rule heap_grows_trans)
  ultimately show ?thesis by fastforce
qed

lemma new_hq_machine_ok:
  assumes E: "pool_sound (s_mem S)" "pool_plenty (s_mem S) c" "\<And>h p. create_subpool (s_mem S) h p \<noteq> 0" "repalloc_ok S"
    and w: "hq_ready w" and d: "covered (w_heap w) d cap" "sizeof_hq_entry \<le> cap" "cap < 2 ^ 64"
    and Q: "memex_fifo S qs" "queue_room S used"
  shows "\<exists>h w'. new_hq_machine S w = Some (h, w') \<and>
    (\<forall>b. used (live (w_heap w')) + b < 2 ^ 64 \<longrightarrow> queue_rel S qs used h d cap w' [] b)"
proof -
  obtain m w1 where g: "get_hq_machine S w = Some (m, w1)" "hq_registered w1" "table_room w1" "handles_ok w1"
    "heap_grows (w_heap w) (w_heap w1)" using get_hq_machine_ok [OF E(1,2,4) w] by blast
  obtain h w' D q p where c: "create_queue S None w1 = Some (h, w')" "queue_machine h D q w'" "hq_list q = memex_fifo_create S p"
    "\<not> hq_flush q" "heap_grows (w_heap w1) (w_heap w')" using create_queue_ok [OF E(1-3) g(2-4)] by blast
  have "heap_grows (w_heap w) (w_heap w')" using heap_grows_trans [OF g(5) c(5)] .
  then have "covered (w_heap w') d cap" using covered_mono [OF d(1)] by (simp add: heap_grows_def)
  moreover have "qs (hq_list q) = Some []" using Q(1) c(3) by (simp add: memex_fifo_def)
  ultimately have "queue_rel S qs used h d cap w' [] b" if "used (live (w_heap w')) + b < 2 ^ 64" for b
    using that E(1) Q d(2,3) c(2,4) unfolding queue_rel_def by (metis list_all2_Nil)
  moreover have "new_hq_machine S w = Some (h, w')" using g(1) c(1) by (simp add: new_hq_machine_def)
  ultimately show ?thesis by blast
qed

section \<open>Properties\<close>

text \<open>The 40 bytes that a reader gets are the queued entry: read back field by field, as the reader's cast to
  \<open>HQ_ENTRY\<close> does, they give the pool, the address and length of the data and the time stamp that were queued.\<close>

lemma hq_entry_roundtrip:
  assumes "entry_fits e"
  shows "length (hq_entry_bytes e) = sizeof_hq_entry \<and> hq_entry_of (hq_entry_bytes e) = e"
  using entry_roundtrip [OF assms] by simp

definition demo_entry :: hq_entry where
  "demo_entry = \<lparr>hq_pool = 3, hq_buf = 4660, hq_len = 300, hq_tv = \<lparr>tv_sec = -5, tv_usec = 999999\<rparr>\<rparr>"

text \<open>C25. From its creation on, a handle queue passes packets of any size on whole and in order: after any sequence of
  writes and reads, each read gives an entry that points to the data of the oldest packet, or nothing when
  the queue is empty, as long as addresses fit in 64 bits.\<close>

theorem handle_queue_is_fifo:
  assumes "pool_sound (s_mem S)" and "pool_plenty (s_mem S) c" and "\<forall>h p. create_subpool (s_mem S) h p \<noteq> 0" and "repalloc_ok S"
    and "memex_fifo S qs" and "queue_room S used" and "hq_ready w"
    and "covered (w_heap w) d cap" and "sizeof_hq_entry \<le> cap" and "cap < 2 ^ 64"
  shows "\<exists>h w'. new_hq_machine S w = Some (h, w') \<and>
    (\<forall>ops. packets_fit cap ops \<longrightarrow> used (live (w_heap w')) + sent_total ops < 2 ^ 64 \<longrightarrow>
       packet_impl_run (machine_put S (Suc k) h d) (queue_recv S (Suc k) h d) w' ops = Some (packet_run [] ops))"
proof -
  obtain h w' where n: "new_hq_machine S w = Some (h, w')"
    "\<forall>b. used (live (w_heap w')) + b < 2 ^ 64 \<longrightarrow> queue_rel S qs used h d cap w' [] b"
    using new_hq_machine_ok [OF assms(1,2) _ assms(4,7,8,9,10,5,6)] assms(3) by blast
  then show ?thesis using handle_queue.run_refines [OF _ _ order_refl] by blast
qed

text \<open>Memory that does not run out, and a clock that stays within a second.\<close>

definition queue_sys :: sys where
  "queue_sys = demo_sys\<lparr>gettimeofday := (\<lambda>n. \<lparr>tv_sec = 1700000000, tv_usec = int n mod 1000000\<rparr>)\<rparr>"

definition top_of :: "(addr \<times> nat) list \<Rightarrow> nat" where
  "top_of ls = heap_top (empty_heap\<lparr>live := ls\<rparr>)"

definition fifo_entries :: "mlist \<rightharpoonup> hq_entry list" where
  "fifo_entries l = (if fst l = 0 then Some (snd l) else None)"

lemma queue_sys_ok:
  "pool_sound (s_mem queue_sys)" "pool_plenty (s_mem queue_sys) 0" "\<forall>h p. create_subpool (s_mem queue_sys) h p \<noteq> 0" "repalloc_ok queue_sys"
  using demo_sys_ok(1) demo_sys_ok(2) [of 0] by (simp_all add: queue_sys_def repalloc_ok_def) (simp_all add: demo_sys_def)

lemma queue_sys_fifo: "memex_fifo queue_sys fifo_entries"
  by (auto simp: memex_fifo_def queue_sys_def demo_sys_def fifo_entries_def split: list.splits)

lemma queue_sys_room: "queue_room queue_sys top_of"
proof -
  have "int n mod 1000000 < 2 ^ 63" for n by (rule less_trans [OF pos_mod_bound]) simp_all
  moreover have "heap_top h = top_of (live h)" for h by (simp add: top_of_def heap_top_def)
  moreover have "top_of ((top_of ls, n) # ls) = top_of ls + n" for ls n by (simp add: top_of_def heap_top_def)
  ultimately show ?thesis by (simp add: queue_room_def queue_sys_def demo_sys_def bump_env_def)
qed

lemma empty_world_queue: "hq_ready empty_world" "covered (w_heap empty_world) 1 64"
  by (simp_all add: hq_ready_def empty_world_def handles_ok_def used_handles_def get_machine_def covered_def)

lemma queue_world_top: "map_option (\<lambda>(h, w). top_of (live (w_heap w)) < 2 ^ 32) (new_hq_machine queue_sys empty_world) = Some True"
  by (simp add: new_hq_machine_def get_hq_machine_def create_queue_def queue_sys_def setup_defs sizeof_hq_def top_of_def)

theorem handle_queue_is_fifo_witness:
  "\<exists>h w'. new_hq_machine queue_sys empty_world = Some (h, w') \<and>
     packet_impl_run (machine_put queue_sys 1 h 1) (queue_recv queue_sys 1 h 1) w' [Send [1, 2, 3], Send [4], Recv, Recv, Recv] =
       Some [[1, 2, 3], [4], []]"
proof -
  have e: "sizeof_hq_entry \<le> 64" by (simp add: sizeof_hq_entry_def)
  from handle_queue_is_fifo [OF queue_sys_ok queue_sys_fifo queue_sys_room empty_world_queue e, of 0]
  obtain h w' where n: "new_hq_machine queue_sys empty_world = Some (h, w')"
    and run: "\<forall>ops. packets_fit 64 ops \<longrightarrow> top_of (live (w_heap w')) + sent_total ops < 2 ^ 64 \<longrightarrow>
       packet_impl_run (machine_put queue_sys (Suc 0) h 1) (queue_recv queue_sys (Suc 0) h 1) w' ops = Some (packet_run [] ops)" by auto
  have "top_of (live (w_heap w')) < 2 ^ 32" using queue_world_top n by simp
  then show ?thesis using n run [rule_format, of "[Send [1, 2, 3], Send [4], Recv, Recv, Recv]"] by simp
qed

text \<open>The end of a handle queue: once it is stopped and nothing is queued, a read reports \<open>IO_COMPLETE\<close>, but leaves the
  byte count as the caller passed it and the buffer as it was: the caller is told that \<open>n\<close> bytes were read when none were.
  Before the queue is stopped, a read of an empty queue reports 0 bytes.\<close>

lemma hq_complete_keeps_count:
  assumes "queue_machine h D q w" and "sizeof_hq_entry \<le> n" and "memex_list_pop S (hq_list q) = Some (None, l)"
  shows "\<exists>w'. machine_desc_read S (call_filter S (Suc k)) h buf n w =
      Some (if hq_flush q then IO_COMPLETE else IO_SUCCESS, if hq_flush q then n else 0, w') \<and> w_heap w' = w_heap w"
  using queue_machine_read [OF assms, of k buf] by (auto simp: popped_def desc_step_def simp del: call_filter.simps)

end
