(* ===== verification/File_Store.thy ===== *)
theory File_Store
  imports Machine_Setup
begin

text \<open>
  The file machine: the directories it makes, the loops around \<open>fwrite\<close> and \<open>fread\<close>, the names it chooses,
  and the machine's reads and writes.
\<close>

section \<open>Loops around the stream functions\<close>

text \<open>The system makes progress: a read or write of at least one byte transfers at least one byte, unless
  the end of the file is reached.\<close>

definition stdio_progress :: "os \<Rightarrow> bool" where
  "stdio_progress sy \<longleftrightarrow> (\<forall>px f n. 0 < n \<longrightarrow> 0 < os_fwritten sy px f n \<and> 0 < os_freads sy px f n)"

text \<open>Stream \<open>f\<close> stands at the end of the file at \<open>p\<close>, which holds \<open>c\<close>, and is open for writing.\<close>

definition writing :: "posix \<Rightarrow> nat \<Rightarrow> path_t \<Rightarrow> byte list \<Rightarrow> bool" where
  "writing px f p c \<longleftrightarrow> px_files px p = Some c \<and>
     (\<exists>fi. px_streams px f = Some fi \<and> fi_write fi \<and> fi_path fi = p \<and> fi_pos fi = length c)"

text \<open>Stream \<open>f\<close> is open for reading and the bytes \<open>c\<close> of its file are yet to be read.\<close>

definition reading :: "posix \<Rightarrow> nat \<Rightarrow> byte list \<Rightarrow> bool" where
  "reading px f c \<longleftrightarrow> (\<exists>fi b. px_streams px f = Some fi \<and> \<not> fi_write fi \<and> px_files px (fi_path fi) = Some b \<and> c = drop (fi_pos fi) b)"

lemma write_at_end [simp]: "write_at (length c) xs c = c @ xs"
  by (simp add: write_at_def)

lemma fwrite_end:
  assumes "writing px f p c" and "stdio_progress sy" and "xs \<noteq> []"
  shows "\<exists>n px'. fwrite sy f xs px = Some (n, px') \<and> 0 < n \<and> n \<le> length xs \<and> writing px' f p (c @ take n xs) \<and>
    px_files px' = (px_files px)(p \<mapsto> c @ take n xs) \<and> px_dirs px' = px_dirs px \<and> px_pipes px' = px_pipes px \<and>
    (\<forall>g. g \<noteq> f \<longrightarrow> px_streams px' g = px_streams px g)"
proof -
  obtain fi where fi: "px_streams px f = Some fi" "fi_write fi" "fi_path fi = p" "fi_pos fi = length c" "px_files px p = Some c"
    using assms(1) by (auto simp: writing_def)
  have "0 < os_fwritten sy px f (length xs)" using assms(2,3) by (simp add: stdio_progress_def)
  then show ?thesis using fi assms(3) by (auto simp: fwrite_def Let_def writing_def)
qed

lemma file_write_loop_ok:
  assumes "writing px f p c" and "stdio_progress sy" and "t + n < sz_max"
  shows "\<exists>px'. file_write_loop sy f m ptr n t px = Some (t + n, px') \<and> writing px' f p (c @ mem_read m ptr n) \<and>
    px_files px' = (px_files px)(p \<mapsto> c @ mem_read m ptr n) \<and> px_dirs px' = px_dirs px \<and> px_pipes px' = px_pipes px \<and>
    (\<forall>g. g \<noteq> f \<longrightarrow> px_streams px' g = px_streams px g)"
  using assms
proof (induction n arbitrary: px c ptr t rule: less_induct)
  case (less n)
  show ?case
  proof (cases "n = 0")
    case True
    then show ?thesis using less.prems(1) by (subst file_write_loop.simps) (auto simp: writing_def fun_upd_idem)
  next
    case False
    then have "mem_read m ptr n \<noteq> []" by (metis length_mem_read list.size(3))
    from fwrite_end [OF less.prems(1,2) this] obtain b px1 where
      b: "fwrite sy f (mem_read m ptr n) px = Some (b, px1)" "0 < b" "b \<le> n" "writing px1 f p (c @ take b (mem_read m ptr n))"
        "px_files px1 = (px_files px)(p \<mapsto> c @ take b (mem_read m ptr n))" "px_dirs px1 = px_dirs px" "px_pipes px1 = px_pipes px"
        "\<forall>g. g \<noteq> f \<longrightarrow> px_streams px1 g = px_streams px g" by auto
    have arith: "sz_sub n b = n - b" "sz_add t b = t + b" using b(3) less.prems(3) by (simp_all add: sz_sub_exact sz_add_exact)
    have lt: "n - b < n" "t + b + (n - b) < sz_max" using b(2,3) less.prems(3) False by simp_all
    have join: "(c @ take b (mem_read m ptr n)) @ mem_read m (ptr + b) (n - b) = c @ mem_read m ptr n"
      using mem_read_add [of m ptr b "n - b"] mem_read_take [OF b(3), of m ptr] b(3) by simp
    have step: "file_write_loop sy f m ptr n t px = file_write_loop sy f m (ptr + b) (n - b) (t + b) px1"
      using False b(1) arith by (subst file_write_loop.simps) simp
    from less.IH [OF lt(1) b(4) less.prems(2) lt(2), of "ptr + b", unfolded join] show ?thesis
      unfolding step b(5) fun_upd_upd using b(3,6-8) by (simp del: fun_upd_apply)
  qed
qed

lemma fread_prefix:
  assumes "reading px f c" and "stdio_progress sy" and "0 < n"
  shows "\<exists>k px'. fread sy f n px = Some (take k c, px') \<and> k \<le> n \<and> (c = [] \<longrightarrow> feof f px' = Some True) \<and> (c \<noteq> [] \<longrightarrow> 0 < k) \<and>
    k \<le> length c \<and> reading px' f (drop k c) \<and> px_files px' = px_files px \<and> px_dirs px' = px_dirs px \<and> px_pipes px' = px_pipes px \<and>
    (\<forall>g. g \<noteq> f \<longrightarrow> px_streams px' g = px_streams px g)"
proof -
  obtain fi b where fi: "px_streams px f = Some fi" "\<not> fi_write fi" "px_files px (fi_path fi) = Some b" "c = drop (fi_pos fi) b"
    using assms(1) by (auto simp: reading_def)
  let ?k = "min (min (os_freads sy px f n) n) (length c)"
  have p: "0 < os_freads sy px f n" using assms(2,3) by (simp add: stdio_progress_def)
  have t: "take (os_freads sy px f n) (take n c) = take ?k c" by (auto simp: min_def)
  show ?thesis using fi p assms(3) t by (intro exI [of _ ?k])
    (auto simp: fread_def Let_def reading_def feof_def min_def add.commute split: if_splits)
qed

lemma file_read_loop_ok:
  assumes "reading px f c" and "stdio_progress sy" and "t + n < sz_max"
  shows "\<exists>px'. file_read_loop sy f ptr n t m px = Some (length c < n, t + length (take n c), mem_write m ptr (take n c), px') \<and>
    reading px' f (drop n c) \<and> (length c < n \<longrightarrow> feof f px' = Some True) \<and> px_files px' = px_files px \<and>
    px_dirs px' = px_dirs px \<and> px_pipes px' = px_pipes px \<and> (\<forall>g. g \<noteq> f \<longrightarrow> px_streams px' g = px_streams px g)"
  using assms
proof (induction n arbitrary: px c ptr t m rule: less_induct)
  case (less n)
  show ?case
  proof (cases "n = 0")
    case True
    then show ?thesis using less.prems(1) by (subst file_read_loop.simps) auto
  next
    case False
    then have "0 < n" by simp
    from fread_prefix [OF less.prems(1,2) this] obtain k px1 where
      k: "fread sy f n px = Some (take k c, px1)" "k \<le> n" "c = [] \<longrightarrow> feof f px1 = Some True" "c \<noteq> [] \<longrightarrow> 0 < k" "k \<le> length c"
        "reading px1 f (drop k c)" "px_files px1 = px_files px" "px_dirs px1 = px_dirs px" "px_pipes px1 = px_pipes px"
        "\<forall>g. g \<noteq> f \<longrightarrow> px_streams px1 g = px_streams px g" by blast
    show ?thesis
    proof (cases "c = []")
      case True
      then show ?thesis using k \<open>0 < n\<close> by (subst file_read_loop.simps) simp
    next
      case c: False
      have arith: "sz_sub n k = n - k" "sz_add t k = t + k" using k(2) less.prems(3) by (simp_all add: sz_sub_exact sz_add_exact)
      have lt: "n - k < n" "t + k + (n - k) < sz_max" using k(2,4) c less.prems(3) False by simp_all
      have join: "take k c @ take (n - k) (drop k c) = take n c" using take_add [of k "n - k" c] k(2) by simp
      then have len: "t + k + length (take (n - k) (drop k c)) = t + length (take n c)" "length (drop k c) < n - k \<longleftrightarrow> length c < n"
        using k(2,5) by auto
      have mm: "mem_write (mem_write m ptr (take k c)) (ptr + k) (take (n - k) (drop k c)) = mem_write m ptr (take n c)"
        using mem_write_append [of m ptr "take k c" "take (n - k) (drop k c)"] join k(5) by simp
      have step: "file_read_loop sy f ptr n t m px = file_read_loop sy f (ptr + k) (n - k) (t + k) (mem_write m ptr (take k c)) px1"
        using False c k(1,4,5) arith by (subst file_read_loop.simps) (simp add: min_def)
      from less.IH [OF lt(1) k(6) less.prems(2) lt(2), of "ptr + k" "mem_write m ptr (take k c)"] show ?thesis
        unfolding step mm len using k(2,7-10) by simp
    qed
  qed
qed

section \<open>Opening a file\<close>

text \<open>A machine without rotation or dates, whose directory exists, opens the file \<open>root/tag.ext\<close>.\<close>

definition plain :: "file_desc \<Rightarrow> string \<Rightarrow> string \<Rightarrow> bool" where
  "plain fd rdir tag \<longleftrightarrow> \<not> has_flag fd FFILE_AUTO_DATE \<and> \<not> has_flag fd FFILE_DIR_ROTATE \<and>
     map_option snd (fd_root_dir fd) = Some rdir \<and> map_option snd (fd_file_tag fd) = Some tag \<and> length rdir < FILE_IOM_MAX_DIRLEN"

lemma plain_dir:
  assumes "plain fd rdir tag"
  shows "build_directory_path S fd w = Some (rdir, fd, w)"
  using assms by (auto simp: plain_def build_directory_path_def path_print_def)

lemma stat_cong: "px_dirs px = px_dirs px' \<Longrightarrow> px_files px = px_files px' \<Longrightarrow> px_pipes px = px_pipes px' \<Longrightarrow> stat sy px = stat sy px'"
  by (rule ext) (simp add: stat_def Let_def)

lemma create_dir_there: "stat sy px dir = Some S_IFDIR \<Longrightarrow> create_dir sy dir px = (True, px)"
  by (simp add: create_dir.simps)

text \<open>The system lets the machine make the file \<open>s\<close>.\<close>

definition can_write :: "os \<Rightarrow> posix \<Rightarrow> string \<Rightarrow> bool" where
  "can_write sy px s \<longleftrightarrow> s \<noteq> [] \<and> last s \<noteq> CHR ''/'' \<and> \<not> os_deny sy px s \<and> path_of sy s \<notin> set (px_dirs px) \<and>
     px_pipes px (path_of sy s) = None \<and> butlast (path_of sy s) \<in> set (px_dirs px)"

text \<open>The state after opening \<open>s\<close> for writing.\<close>

lemma fopen_w_ok:
  assumes "can_write sy px s"
  shows "\<exists>px'. fopen_w sy s px = Some (Some (px_next px), px') \<and> writing px' (px_next px) (path_of sy s) [] \<and>
    px_files px' = (px_files px)(path_of sy s \<mapsto> []) \<and> px_dirs px' = px_dirs px \<and> px_pipes px' = px_pipes px \<and>
    (\<forall>g. g \<noteq> px_next px \<longrightarrow> px_streams px' g = px_streams px g)"
  using assms by (auto simp: can_write_def fopen_w_def Let_def writing_def)

lemma fopen_r_ok:
  assumes "\<not> os_deny sy px s" and "stat sy px s = Some S_IFREG" and "px_files px (path_of sy s) = Some c" and "px_pipes px (path_of sy s) = None"
  shows "\<exists>px'. fopen_r sy s px = Some (Some (px_next px), px') \<and> reading px' (px_next px) c \<and>
    px_files px' = px_files px \<and> px_dirs px' = px_dirs px \<and> px_pipes px' = px_pipes px"
proof -
  have "s \<noteq> []" using assms(2) by (auto simp: stat_def)
  then show ?thesis using assms by (auto simp: fopen_r_def Let_def reading_def)
qed

lemma open_write_plain:
  assumes fd: "plain fd rdir tag" "fd_fw fd = None" "fd_fr fd = None" and dir: "stat (s_os S) (w_px w) rdir = Some S_IFDIR"
    and n: "write_name (s_os S) (w_px w) rdir tag fd = Some (name, fd')" and ok: "can_write (s_os S) (w_px w) name"
  shows "\<exists>px' f. open_file S FFILE_WRITE fd w = Some (True, fd'\<lparr>fd_fw := Some f\<rparr>, w\<lparr>w_px := px'\<rparr>) \<and>
    writing px' f (path_of (s_os S) name) [] \<and> px_files px' = (px_files (w_px w))(path_of (s_os S) name \<mapsto> []) \<and>
    px_dirs px' = px_dirs (w_px w) \<and> px_pipes px' = px_pipes (w_px w)"
proof -
  obtain px' where "fopen_w (s_os S) name (w_px w) = Some (Some (px_next (w_px w)), px')"
    "writing px' (px_next (w_px w)) (path_of (s_os S) name) []" "px_files px' = (px_files (w_px w))(path_of (s_os S) name \<mapsto> [])"
    "px_dirs px' = px_dirs (w_px w)" "px_pipes px' = px_pipes (w_px w)" using fopen_w_ok [OF ok] by blast
  moreover obtain b where "fd_file_tag fd = Some (b, tag)" using fd(1) by (auto simp: plain_def)
  ultimately show ?thesis using fd(2,3) n plain_dir [OF fd(1)] create_dir_there [OF dir]
    by (auto simp: open_file_def open_write_def close_opt_def FFILE_READ_def FFILE_WRITE_def)
qed

lemma open_read_plain:
  assumes fd: "plain fd rdir tag" "fd_fw fd = None" "fd_fr fd = None" and dir: "stat (s_os S) (w_px w) rdir = Some S_IFDIR"
    and s: "s = file_name rdir tag None (fd_file_ext fd)" and ok: "\<not> os_deny (s_os S) (w_px w) s" "stat (s_os S) (w_px w) s = Some S_IFREG"
    and c: "px_files (w_px w) (path_of (s_os S) s) = Some c" and np: "px_pipes (w_px w) (path_of (s_os S) s) = None"
  shows "\<exists>px' f. open_file S FFILE_READ fd w = Some (True, fd\<lparr>fd_fr := Some f\<rparr>, w\<lparr>w_px := px'\<rparr>) \<and> reading px' f c \<and>
    px_files px' = px_files (w_px w) \<and> px_dirs px' = px_dirs (w_px w) \<and> px_pipes px' = px_pipes (w_px w)"
proof -
  obtain px' where "fopen_r (s_os S) s (w_px w) = Some (Some (px_next (w_px w)), px')" "reading px' (px_next (w_px w)) c"
    "px_files px' = px_files (w_px w)" "px_dirs px' = px_dirs (w_px w)" "px_pipes px' = px_pipes (w_px w)"
    using fopen_r_ok [OF ok c np] by blast
  moreover obtain b where "fd_file_tag fd = Some (b, tag)" using fd(1) by (auto simp: plain_def)
  ultimately show ?thesis using fd(2,3) plain_dir [OF fd(1)] create_dir_there [OF dir] s
    by (auto simp: open_file_def open_read_def close_opt_def)
qed

section \<open>The machine\<close>

definition file_machine :: "io_handle \<Rightarrow> machine_desc \<Rightarrow> file_desc \<Rightarrow> world \<Rightarrow> bool" where
  "file_machine h D fd w \<longleftrightarrow> machine_get_desc h w = Some D \<and> md_impl D = IMPL_FILE fd \<and> \<not> md_lock D \<and>
     (\<exists>r wr. md_io_read D = Some r \<and> md_io_write D = Some wr \<and> io_state r = IO_DESC_ENABLED \<and> io_state wr = IO_DESC_ENABLED \<and>
        end_filter FN_FILE_READ h (io_obj r) w \<and> end_filter FN_FILE_WRITE h (io_obj wr) w)"

lemma count_px [simp]: "w_px (count_in S h st a b w) = w_px w" "w_px (count_out S h st a b w) = w_px w"
  by (auto simp: count_in_def count_out_def Let_def upd_desc_def split: option.splits prod.splits)

lemma upd_desc_px [simp]: "w_px (upd_desc h g w) = w_px w"
  by (simp add: upd_desc_def)

text \<open>A call through the machine, in terms of the call of its filter.\<close>

lemma machine_write_through:
  assumes D: "machine_get_desc h w = Some D" "md_io_write D = Some io" "io_obj io \<noteq> 0" "io_state io = IO_DESC_ENABLED" "\<not> md_lock D"
    and c: "call (io_obj io) buf n IO_NO_BLOCK IO_DEFAULT_ALIGN (upd_desc h (\<lambda>d. d\<lparr>md_in_use := md_in_use d + 1\<rparr>) w) = Some (st, m, w2)"
    and D2: "machine_get_desc h w2 = Some D2" "\<not> md_lock D2"
  shows "\<exists>w' ms. machine_desc_write S call h buf n w = Some (st, m, w') \<and> w_px w' = w_px w2 \<and>
    desc_step h (D2\<lparr>md_in_use := md_in_use D2 - 1, md_metrics := ms\<rparr>) (w_heap w2) w2 w'"
proof -
  let ?r = "\<lambda>d. d\<lparr>md_in_use := md_in_use d - 1\<rparr>" and ?w3 = "count_in S h st n m w2"
  obtain ms where s: "desc_step h (D2\<lparr>md_metrics := ms\<rparr>) (w_heap w2) w2 ?w3" using desc_step_count_in [OF D2(1)] by blast
  then have g: "machine_get_desc h ?w3 = Some (D2\<lparr>md_metrics := ms\<rparr>)" "w_heap ?w3 = w_heap w2" by (simp_all add: desc_step_def)
  have "machine_desc_write S call h buf n w = Some (st, m, upd_desc h ?r ?w3)"
    using D c D2 g by (simp add: machine_desc_write_def machine_desc_acquire_def machine_desc_release_def)
  moreover have "desc_step h (?r (D2\<lparr>md_metrics := ms\<rparr>)) (w_heap w2) w2 (upd_desc h ?r ?w3)"
    using desc_step_trans [OF s] desc_step_upd [OF g(1), of ?r] g(2) by simp
  moreover have "?r (D2\<lparr>md_metrics := ms\<rparr>) = D2\<lparr>md_in_use := md_in_use D2 - 1, md_metrics := ms\<rparr>" by simp
  ultimately show ?thesis by (intro exI [of _ "upd_desc h ?r ?w3"] exI [of _ ms]) (simp only: count_px upd_desc_px simp_thms)
qed

lemma machine_read_through:
  assumes D: "machine_get_desc h w = Some D" "md_io_read D = Some io" "io_obj io \<noteq> 0" "io_state io = IO_DESC_ENABLED" "\<not> md_lock D"
    and c: "call (io_obj io) buf n IO_NO_BLOCK IO_DEFAULT_ALIGN (upd_desc h (\<lambda>d. d\<lparr>md_in_use := md_in_use d + 1\<rparr>) w) = Some (st, m, w2)"
    and D2: "machine_get_desc h w2 = Some D2" "\<not> md_lock D2"
  shows "\<exists>w' ms. machine_desc_read S call h buf n w = Some (st, m, w') \<and> w_px w' = w_px w2 \<and>
    desc_step h (D2\<lparr>md_in_use := md_in_use D2 - 1, md_metrics := ms\<rparr>) (w_heap w2) w2 w'"
proof -
  let ?r = "\<lambda>d. d\<lparr>md_in_use := md_in_use d - 1\<rparr>" and ?w3 = "count_out S h st n m w2"
  obtain ms where s: "desc_step h (D2\<lparr>md_metrics := ms\<rparr>) (w_heap w2) w2 ?w3" using desc_step_count_out [OF D2(1)] by blast
  then have g: "machine_get_desc h ?w3 = Some (D2\<lparr>md_metrics := ms\<rparr>)" "w_heap ?w3 = w_heap w2" by (simp_all add: desc_step_def)
  have "machine_desc_read S call h buf n w = Some (st, m, upd_desc h ?r ?w3)"
    using D c D2 g by (simp add: machine_desc_read_def machine_desc_acquire_def machine_desc_release_def)
  moreover have "desc_step h (?r (D2\<lparr>md_metrics := ms\<rparr>)) (w_heap w2) w2 (upd_desc h ?r ?w3)"
    using desc_step_trans [OF s] desc_step_upd [OF g(1), of ?r] g(2) by simp
  moreover have "?r (D2\<lparr>md_metrics := ms\<rparr>) = D2\<lparr>md_in_use := md_in_use D2 - 1, md_metrics := ms\<rparr>" by simp
  ultimately show ?thesis by (intro exI [of _ "upd_desc h ?r ?w3"] exI [of _ ms]) (simp only: count_px upd_desc_px simp_thms)
qed

text \<open>The world while a call is under way.\<close>

abbreviation in_call :: "io_handle \<Rightarrow> world \<Rightarrow> world" where
  "in_call h w \<equiv> upd_desc h (\<lambda>d. d\<lparr>md_in_use := md_in_use d + 1\<rparr>) w"

lemma file_machine_write:
  assumes M: "file_machine h D fd w" and fl: "has_flag fd FFILE_WRITE" "n \<noteq> 0"
    and run: "file_write_fd S buf n IO_DEFAULT_ALIGN fd (in_call h w) = Some (st, m, fd', (in_call h w)\<lparr>w_px := px\<rparr>)"
  shows "\<exists>w' ms. machine_desc_write S (call_filter S (Suc k)) h buf n w = Some (st, m, w') \<and> w_px w' = px \<and>
    desc_step h (D\<lparr>md_impl := IMPL_FILE fd', md_metrics := ms\<rparr>) (w_heap w) w w'"
proof -
  from M obtain wr where D: "machine_get_desc h w = Some D" "md_impl D = IMPL_FILE fd" "\<not> md_lock D" "md_io_write D = Some wr"
    "io_state wr = IO_DESC_ENABLED" "end_filter FN_FILE_WRITE h (io_obj wr) w" by (auto simp: file_machine_def)
  let ?w1 = "in_call h w" and ?D1 = "D\<lparr>md_in_use := md_in_use D + 1\<rparr>"
  let ?w2 = "put_file h fd' (?w1\<lparr>w_px := px\<rparr>)" and ?D2 = "?D1\<lparr>md_impl := IMPL_FILE fd'\<rparr>"
  have s1: "desc_step h ?D1 (w_heap w) w ?w1" using desc_step_upd [OF D(1), of "\<lambda>d. d\<lparr>md_in_use := md_in_use d + 1\<rparr>"] by simp
  then have g: "machine_get_desc h ?w1 = Some ?D1" and f: "end_filter FN_FILE_WRITE h (io_obj wr) ?w1"
    using D(6) end_filter_cong [of ?w1 w] by (simp_all add: desc_step_def)
  have g1: "machine_get_desc h (?w1\<lparr>w_px := px\<rparr>) = Some ?D1" using g by (simp add: machine_get_desc_def)
  from desc_step_upd [OF g1, of "md_impl_update (\<lambda>_. IMPL_FILE fd')"]
  have s2: "desc_step h ?D2 (w_heap w) ?w1 ?w2" by (simp add: put_file_def desc_step_def machine_get_desc_def)
  from end_filterD [OF f] obtain fl where "get_filter (io_obj wr) ?w1 = Some fl" "f_call fl = FN_FILE_WRITE"
    "handle_of (io_obj wr) ?w1 = Some h" by blast
  then have c: "call_filter S (Suc k) (io_obj wr) buf n IO_NO_BLOCK IO_DEFAULT_ALIGN ?w1 = Some (st, m, ?w2)"
    using g D assms(2,3) run by (simp add: filter_body_def file_write_def file_of_def)
  have io: "io_obj wr \<noteq> 0" using D(6) by (simp add: end_filter_def)
  have g2: "machine_get_desc h ?w2 = Some ?D2" "w_heap ?w2 = w_heap w" "w_px ?w2 = px" using s2 by (simp_all add: desc_step_def put_file_def)
  from machine_write_through [where call = "call_filter S (Suc k)" and S = S, OF D(1,4) io D(5,3) c g2(1)] D(3) obtain w' ms where
    w': "machine_desc_write S (call_filter S (Suc k)) h buf n w = Some (st, m, w')" "w_px w' = px"
      "desc_step h (?D2\<lparr>md_in_use := md_in_use ?D2 - 1, md_metrics := ms\<rparr>) (w_heap w) ?w2 w'" using g2 by auto
  moreover have "?D2\<lparr>md_in_use := md_in_use ?D2 - 1, md_metrics := ms\<rparr> = D\<lparr>md_impl := IMPL_FILE fd', md_metrics := ms\<rparr>"
    by (simp add: desc_upd_commute)
  ultimately show ?thesis using desc_step_trans [OF desc_step_trans [OF s1 s2]] by auto
qed

lemma file_machine_read:
  assumes M: "file_machine h D fd w" and fl: "has_flag fd FFILE_READ"
    and run: "file_read_fd S buf n IO_DEFAULT_ALIGN fd (in_call h w) = Some (st, m, fd', (in_call h w)\<lparr>w_px := px, w_heap := hp\<rparr>)"
  shows "\<exists>w' ms. machine_desc_read S (call_filter S (Suc k)) h buf n w = Some (st, m, w') \<and> w_px w' = px \<and>
    desc_step h (D\<lparr>md_impl := IMPL_FILE fd', md_metrics := ms\<rparr>) hp w w'"
proof -
  from M obtain r where D: "machine_get_desc h w = Some D" "md_impl D = IMPL_FILE fd" "\<not> md_lock D" "md_io_read D = Some r"
    "io_state r = IO_DESC_ENABLED" "end_filter FN_FILE_READ h (io_obj r) w" by (auto simp: file_machine_def)
  let ?w1 = "in_call h w" and ?D1 = "D\<lparr>md_in_use := md_in_use D + 1\<rparr>"
  let ?w2 = "put_file h fd' (?w1\<lparr>w_px := px, w_heap := hp\<rparr>)" and ?D2 = "?D1\<lparr>md_impl := IMPL_FILE fd'\<rparr>"
  have s1: "desc_step h ?D1 (w_heap w) w ?w1" using desc_step_upd [OF D(1), of "\<lambda>d. d\<lparr>md_in_use := md_in_use d + 1\<rparr>"] by simp
  then have g: "machine_get_desc h ?w1 = Some ?D1" and f: "end_filter FN_FILE_READ h (io_obj r) ?w1"
    using D(6) end_filter_cong [of ?w1 w] by (simp_all add: desc_step_def)
  have g1: "machine_get_desc h (?w1\<lparr>w_px := px, w_heap := hp\<rparr>) = Some ?D1" using g by (simp add: machine_get_desc_def)
  from desc_step_upd [OF g1, of "md_impl_update (\<lambda>_. IMPL_FILE fd')"]
  have s2: "desc_step h ?D2 hp ?w1 ?w2" by (simp add: put_file_def desc_step_def machine_get_desc_def)
  from end_filterD [OF f] obtain x where "get_filter (io_obj r) ?w1 = Some x" "f_call x = FN_FILE_READ"
    "handle_of (io_obj r) ?w1 = Some h" by blast
  then have c: "call_filter S (Suc k) (io_obj r) buf n IO_NO_BLOCK IO_DEFAULT_ALIGN ?w1 = Some (st, m, ?w2)"
    using g D fl run by (simp add: filter_body_def file_read_def file_of_def)
  have io: "io_obj r \<noteq> 0" using D(6) by (simp add: end_filter_def)
  have g2: "machine_get_desc h ?w2 = Some ?D2" "w_heap ?w2 = hp" "w_px ?w2 = px" using s2 by (simp_all add: desc_step_def put_file_def)
  from machine_read_through [where call = "call_filter S (Suc k)" and S = S, OF D(1,4) io D(5,3) c g2(1)] D(3) obtain w' ms where
    w': "machine_desc_read S (call_filter S (Suc k)) h buf n w = Some (st, m, w')" "w_px w' = px"
      "desc_step h (?D2\<lparr>md_in_use := md_in_use ?D2 - 1, md_metrics := ms\<rparr>) hp ?w2 w'" using g2 by auto
  moreover have "?D2\<lparr>md_in_use := md_in_use ?D2 - 1, md_metrics := ms\<rparr> = D\<lparr>md_impl := IMPL_FILE fd', md_metrics := ms\<rparr>"
    by (simp add: desc_upd_commute)
  ultimately show ?thesis using desc_step_trans [OF desc_step_trans [OF s1 s2]] by auto
qed

section \<open>A file as a sink\<close>

text \<open>Nothing has changed but the descriptor of \<open>h\<close>, the file at \<open>p\<close>, the streams and the bytes in memory.\<close>

definition unchanged :: "io_handle \<Rightarrow> path_t \<Rightarrow> world \<Rightarrow> world \<Rightarrow> bool" where
  "unchanged h p w0 w \<longleftrightarrow> (\<forall>k. k \<noteq> h \<longrightarrow> machine_get_desc k w = machine_get_desc k w0) \<and> w_filters w = w_filters w0 \<and>
     px_dirs (w_px w) = px_dirs (w_px w0) \<and> px_pipes (w_px w) = px_pipes (w_px w0) \<and>
     (\<forall>q. q \<noteq> p \<longrightarrow> px_files (w_px w) q = px_files (w_px w0) q)"

text \<open>A machine that has opened nothing yet and will find or make the file \<open>name\<close>.\<close>

definition fresh_file :: "sys \<Rightarrow> file_desc \<Rightarrow> posix \<Rightarrow> string \<Rightarrow> bool" where
  "fresh_file S fd px name \<longleftrightarrow> fd_fw fd = None \<and> fd_fr fd = None \<and> (\<exists>rdir tag. plain fd rdir tag \<and>
     stat (s_os S) px rdir = Some S_IFDIR \<and> name = file_name rdir tag None (fd_file_ext fd))"

definition file_writes :: "sys \<Rightarrow> io_handle \<Rightarrow> nat \<Rightarrow> string \<Rightarrow> world \<Rightarrow> world \<Rightarrow> byte list \<Rightarrow> bool" where
  "file_writes S h cap name w0 w c \<longleftrightarrow> stdio_progress (s_os S) \<and> cap < sz_max \<and> unchanged h (path_of (s_os S) name) w0 w \<and>
     (\<exists>D fd. file_machine h D fd w \<and> fd_flags fd = FFILE_WRITE \<and>
        (c = [] \<and> fresh_file S fd (w_px w) name \<and> can_write (s_os S) (w_px w) name \<or>
         (\<exists>f. fd_fw fd = Some f \<and> writing (w_px w) f (path_of (s_os S) name) c)))"

lemma write_flags [simp]:
  "fd_flags fd = FFILE_WRITE \<Longrightarrow> has_flag fd FFILE_WRITE" "fd_flags fd = FFILE_WRITE \<Longrightarrow> \<not> has_flag fd FFILE_ROTATE"
  "fd_flags fd = FFILE_WRITE \<Longrightarrow> \<not> has_flag fd FFILE_INDEX" "fd_flags fd = FFILE_READ \<Longrightarrow> has_flag fd FFILE_READ"
  by (simp_all add: has_flag_def FFILE_WRITE_def FFILE_ROTATE_def FFILE_INDEX_def FFILE_READ_def)

lemma file_write_fd_ok:
  assumes E: "stdio_progress (s_os S)" "n < sz_max" and fl: "fd_flags fd = FFILE_WRITE"
    and st: "c = [] \<and> fresh_file S fd (w_px w) name \<and> can_write (s_os S) (w_px w) name \<or>
      (\<exists>f. fd_fw fd = Some f \<and> writing (w_px w) f (path_of (s_os S) name) c)"
  shows "\<exists>fd' f px'. file_write_fd S d n IO_DEFAULT_ALIGN fd w = Some (IO_SUCCESS, n, fd', w\<lparr>w_px := px'\<rparr>) \<and>
    fd_flags fd' = FFILE_WRITE \<and> fd_fw fd' = Some f \<and> writing px' f (path_of (s_os S) name) (c @ mem_read (mem (w_heap w)) d n) \<and>
    px_files px' = (px_files (w_px w))(path_of (s_os S) name \<mapsto> c @ mem_read (mem (w_heap w)) d n) \<and>
    px_dirs px' = px_dirs (w_px w) \<and> px_pipes px' = px_pipes (w_px w)"
proof -
  let ?p = "path_of (s_os S) name"
  have "\<exists>fd1 f px1. open_file S FFILE_WRITE fd w = Some (True, fd1, w\<lparr>w_px := px1\<rparr>) \<and> fd_flags fd1 = FFILE_WRITE \<and> fd_fw fd1 = Some f \<and>
    writing px1 f ?p c \<and> (px_files px1)(?p \<mapsto> c @ mem_read (mem (w_heap w)) d n) = (px_files (w_px w))(?p \<mapsto> c @ mem_read (mem (w_heap w)) d n) \<and>
    px_dirs px1 = px_dirs (w_px w) \<and> px_pipes px1 = px_pipes (w_px w)" using st
  proof
    assume a: "c = [] \<and> fresh_file S fd (w_px w) name \<and> can_write (s_os S) (w_px w) name"
    then obtain rdir tag where p: "plain fd rdir tag" "stat (s_os S) (w_px w) rdir = Some S_IFDIR" "fd_fw fd = None" "fd_fr fd = None"
      "name = file_name rdir tag None (fd_file_ext fd)" by (auto simp: fresh_file_def)
    have "write_name (s_os S) (w_px w) rdir tag fd = Some (name, fd)" using fl p(5) by (simp add: write_name_def)
    from open_write_plain [OF p(1,3,4,2) this] a obtain px1 f where
      "open_file S FFILE_WRITE fd w = Some (True, fd\<lparr>fd_fw := Some f\<rparr>, w\<lparr>w_px := px1\<rparr>)" "writing px1 f ?p []"
      "px_files px1 = (px_files (w_px w))(?p \<mapsto> [])" "px_dirs px1 = px_dirs (w_px w)" "px_pipes px1 = px_pipes (w_px w)" by blast
    then show ?thesis using a fl by (intro exI [of _ "fd\<lparr>fd_fw := Some f\<rparr>"] exI [of _ f] exI [of _ px1]) simp
  next
    assume "\<exists>f. fd_fw fd = Some f \<and> writing (w_px w) f ?p c"
    then obtain f where "fd_fw fd = Some f" "writing (w_px w) f ?p c" by blast
    then show ?thesis using fl
      by (intro exI [of _ fd] exI [of _ f] exI [of _ "w_px w"]) (simp add: open_file_def open_write_def FFILE_READ_def FFILE_WRITE_def)
  qed
  then obtain fd1 f px1 where o1: "open_file S FFILE_WRITE fd w = Some (True, fd1, w\<lparr>w_px := px1\<rparr>)" "fd_flags fd1 = FFILE_WRITE"
    "fd_fw fd1 = Some f" "writing px1 f ?p c"
    "(px_files px1)(?p \<mapsto> c @ mem_read (mem (w_heap w)) d n) = (px_files (w_px w))(?p \<mapsto> c @ mem_read (mem (w_heap w)) d n)"
    "px_dirs px1 = px_dirs (w_px w)" "px_pipes px1 = px_pipes (w_px w)" by blast
  from file_write_loop_ok [OF o1(4) E(1), of 0 n "mem (w_heap w)" d] E(2) obtain px2 where
    "file_write_loop (s_os S) f (mem (w_heap w)) d n 0 px1 = Some (n, px2)" "writing px2 f ?p (c @ mem_read (mem (w_heap w)) d n)"
    "px_files px2 = (px_files px1)(?p \<mapsto> c @ mem_read (mem (w_heap w)) d n)" "px_dirs px2 = px_dirs px1" "px_pipes px2 = px_pipes px1" by auto
  then show ?thesis using o1
    by (intro exI [of _ fd1] exI [of _ f] exI [of _ px2]) (simp add: file_write_fd_def IO_DEFAULT_ALIGN_def del: fun_upd_apply)
qed

lemma file_machine_step:
  assumes "file_machine h D fd w" and "desc_step h (D\<lparr>md_impl := IMPL_FILE fd', md_metrics := ms\<rparr>) hp w w'"
  shows "file_machine h (D\<lparr>md_impl := IMPL_FILE fd', md_metrics := ms\<rparr>) fd' w'"
  using assms end_filter_cong [of w' w] by (simp add: file_machine_def desc_step_def)

lemma file_machine_poke: "file_machine h D fd w \<Longrightarrow> file_machine h D fd (poke d xs w)"
  using end_filter_cong [of "poke d xs w" w] by (simp add: file_machine_def poke_def)

lemma file_put_ok:
  assumes F: "file_writes S h cap name w0 w c" and xs: "xs \<noteq> []" "length xs \<le> cap"
  shows "\<exists>w'. machine_put S (Suc k) h d xs w = Some w' \<and> file_writes S h cap name w0 w' (c @ xs)"
proof -
  let ?w = "poke d xs w" and ?p = "path_of (s_os S) name" and ?n = "length xs"
  obtain D fd where E: "stdio_progress (s_os S)" "cap < sz_max" and u: "unchanged h ?p w0 w" and M: "file_machine h D fd w"
    and fl: "fd_flags fd = FFILE_WRITE" and st: "c = [] \<and> fresh_file S fd (w_px w) name \<and> can_write (s_os S) (w_px w) name \<or>
        (\<exists>f. fd_fw fd = Some f \<and> writing (w_px w) f ?p c)" using F unfolding file_writes_def by blast
  have px: "w_px (in_call h ?w) = w_px w" and hp: "w_heap (in_call h ?w) = w_heap ?w" by (simp_all add: poke_def upd_desc_def)
  have n: "?n < sz_max" "?n \<noteq> 0" using xs E(2) by simp_all
  have c: "mem_read (mem (w_heap ?w)) d ?n = xs" by (simp add: poke_def mem_simps)
  from file_write_fd_ok [OF E(1) n(1) fl, of c "in_call h ?w" name d] st px hp c obtain fd' f px' where
    W: "file_write_fd S d ?n IO_DEFAULT_ALIGN fd (in_call h ?w) = Some (IO_SUCCESS, ?n, fd', (in_call h ?w)\<lparr>w_px := px'\<rparr>)"
      "fd_flags fd' = FFILE_WRITE" "fd_fw fd' = Some f" "writing px' f ?p (c @ xs)" "px_files px' = (px_files (w_px w))(?p \<mapsto> c @ xs)"
      "px_dirs px' = px_dirs (w_px w)" "px_pipes px' = px_pipes (w_px w)" by auto
  from file_machine_write [OF file_machine_poke [OF M] write_flags(1) [OF fl] n(2) W(1), of k] obtain w' ms where
    r: "machine_desc_write S (call_filter S (Suc k)) h d ?n ?w = Some (IO_SUCCESS, ?n, w')" "w_px w' = px'"
      "desc_step h (D\<lparr>md_impl := IMPL_FILE fd', md_metrics := ms\<rparr>) (w_heap ?w) ?w w'" by blast
  have "file_machine h (D\<lparr>md_impl := IMPL_FILE fd', md_metrics := ms\<rparr>) fd' w'"
    by (rule file_machine_step [OF file_machine_poke [OF M] r(3)])
  moreover have "unchanged h ?p w0 w'" using u r(2,3) W(5-7) by (simp add: unchanged_def desc_step_def poke_def machine_get_desc_def)
  ultimately have "file_writes S h cap name w0 w' (c @ xs)" using E W r(2) unfolding file_writes_def by blast
  then show ?thesis using r(1) by (simp add: machine_put_def del: call_filter.simps)
qed

interpretation file_sink: byte_sink "file_writes S h cap name w0" cap "machine_put S (Suc k) h d" for S h cap name w0 k d
  by unfold_locales (rule file_put_ok)

section \<open>A file as a source\<close>

definition file_reads :: "sys \<Rightarrow> io_handle \<Rightarrow> nat \<Rightarrow> world \<Rightarrow> byte list \<Rightarrow> bool" where
  "file_reads S h cap w q \<longleftrightarrow> stdio_progress (s_os S) \<and> cap < sz_max \<and>
     (\<exists>D fd. file_machine h D fd w \<and> fd_flags fd = FFILE_READ \<and>
        ((\<exists>name. fresh_file S fd (w_px w) name \<and> \<not> os_deny (s_os S) (w_px w) name \<and> stat (s_os S) (w_px w) name = Some S_IFREG \<and>
            px_files (w_px w) (path_of (s_os S) name) = Some q \<and> px_pipes (w_px w) (path_of (s_os S) name) = None) \<or>
         (\<exists>f. fd_fr fd = Some f \<and> reading (w_px w) f q)))"

lemma file_read_fd_from:
  assumes E: "stdio_progress (s_os S)" "n < sz_max"
    and o1: "open_file S FFILE_READ fd w = Some (True, fd1, w\<lparr>w_px := px1\<rparr>)" "fd_fr fd1 = Some f" "reading px1 f q"
  shows "\<exists>px'. file_read_fd S d n IO_DEFAULT_ALIGN fd w = Some (if length q < n then IO_COMPLETE else IO_SUCCESS, length (take n q), fd1,
      w\<lparr>w_px := px', w_heap := (w_heap w)\<lparr>mem := mem_write (mem (w_heap w)) d (take n q)\<rparr>\<rparr>) \<and>
    reading px' f (drop n q) \<and> (\<forall>g. g \<noteq> f \<longrightarrow> px_streams px' g = px_streams px1 g)"
proof -
  from file_read_loop_ok [OF o1(3) E(1), of 0 n d "mem (w_heap w)"] E(2) obtain px2 where
    "file_read_loop (s_os S) f d n 0 (mem (w_heap w)) px1 = Some (length q < n, length (take n q), mem_write (mem (w_heap w)) d (take n q), px2)"
    "reading px2 f (drop n q)" "length q < n \<longrightarrow> feof f px2 = Some True" "\<forall>g. g \<noteq> f \<longrightarrow> px_streams px2 g = px_streams px1 g" by auto
  then show ?thesis using o1 by (intro exI [of _ px2]) (auto simp: file_read_fd_def IO_DEFAULT_ALIGN_def)
qed

lemma file_read_fd_ok:
  assumes E: "stdio_progress (s_os S)" "n < sz_max"
    and st: "(\<exists>name. fresh_file S fd (w_px w) name \<and> \<not> os_deny (s_os S) (w_px w) name \<and> stat (s_os S) (w_px w) name = Some S_IFREG \<and>
        px_files (w_px w) (path_of (s_os S) name) = Some q \<and> px_pipes (w_px w) (path_of (s_os S) name) = None) \<or>
      (\<exists>f. fd_fr fd = Some f \<and> reading (w_px w) f q)"
  shows "\<exists>fd' f px'. file_read_fd S d n IO_DEFAULT_ALIGN fd w = Some (if length q < n then IO_COMPLETE else IO_SUCCESS, length (take n q), fd',
      w\<lparr>w_px := px', w_heap := (w_heap w)\<lparr>mem := mem_write (mem (w_heap w)) d (take n q)\<rparr>\<rparr>) \<and>
    fd_flags fd' = fd_flags fd \<and> fd_fr fd' = Some f \<and> reading px' f (drop n q)"
proof -
  have "\<exists>fd1 f px1. open_file S FFILE_READ fd w = Some (True, fd1, w\<lparr>w_px := px1\<rparr>) \<and> fd_flags fd1 = fd_flags fd \<and> fd_fr fd1 = Some f \<and>
    reading px1 f q" using st
  proof
    assume "\<exists>name. fresh_file S fd (w_px w) name \<and> \<not> os_deny (s_os S) (w_px w) name \<and> stat (s_os S) (w_px w) name = Some S_IFREG \<and>
        px_files (w_px w) (path_of (s_os S) name) = Some q \<and> px_pipes (w_px w) (path_of (s_os S) name) = None"
    then obtain name rdir tag where p: "plain fd rdir tag" "stat (s_os S) (w_px w) rdir = Some S_IFDIR" "fd_fw fd = None" "fd_fr fd = None"
      "name = file_name rdir tag None (fd_file_ext fd)" "\<not> os_deny (s_os S) (w_px w) name" "stat (s_os S) (w_px w) name = Some S_IFREG"
      "px_files (w_px w) (path_of (s_os S) name) = Some q" "px_pipes (w_px w) (path_of (s_os S) name) = None"
      by (auto simp: fresh_file_def)
    from open_read_plain [OF p(1,3,4,2,5-9)] show ?thesis by auto
  next
    assume "\<exists>f. fd_fr fd = Some f \<and> reading (w_px w) f q"
    then obtain f where "fd_fr fd = Some f" "reading (w_px w) f q" by blast
    then show ?thesis by (intro exI [of _ fd] exI [of _ f] exI [of _ "w_px w"]) (simp add: open_file_def open_read_def)
  qed
  then obtain fd1 f px1 where o1: "open_file S FFILE_READ fd w = Some (True, fd1, w\<lparr>w_px := px1\<rparr>)" "fd_flags fd1 = fd_flags fd"
    "fd_fr fd1 = Some f" "reading px1 f q" by blast
  from file_read_fd_from [OF E o1(1,3,4), of d] o1(2,3) show ?thesis by blast
qed

lemma file_fetch_ok:
  assumes F: "file_reads S h cap w q" and n: "0 < n" "n \<le> cap"
  shows "\<exists>st w'. machine_fetch S (Suc k) h d n w = Some (st, take n q, w') \<and>
    (if st = IO_COMPLETE then drop n q = [] \<and> True else q \<noteq> [] \<and> file_reads S h cap w' (drop n q))"
proof -
  obtain D fd where E: "stdio_progress (s_os S)" "cap < sz_max" and M: "file_machine h D fd w" and fl: "fd_flags fd = FFILE_READ"
    and st: "(\<exists>name. fresh_file S fd (w_px w) name \<and> \<not> os_deny (s_os S) (w_px w) name \<and> stat (s_os S) (w_px w) name = Some S_IFREG \<and>
        px_files (w_px w) (path_of (s_os S) name) = Some q \<and> px_pipes (w_px w) (path_of (s_os S) name) = None) \<or>
      (\<exists>f. fd_fr fd = Some f \<and> reading (w_px w) f q)" using F unfolding file_reads_def by blast
  let ?st = "if length q < n then IO_COMPLETE else IO_SUCCESS"
  let ?hp = "(w_heap w)\<lparr>mem := mem_write (mem (w_heap w)) d (take n q)\<rparr>"
  have n1: "n < sz_max" using n(2) E(2) by simp
  have hp: "w_heap (in_call h w) = w_heap w" by (simp add: upd_desc_def)
  from file_read_fd_ok [OF E(1) n1, where w = "in_call h w" and d = d and fd = fd and q = q, unfolded upd_desc_px hp, OF st] fl
  obtain fd' f px' where
    W: "file_read_fd S d n IO_DEFAULT_ALIGN fd (in_call h w) = Some (?st, length (take n q), fd', (in_call h w)\<lparr>w_px := px', w_heap := ?hp\<rparr>)"
      "fd_flags fd' = FFILE_READ" "fd_fr fd' = Some f" "reading px' f (drop n q)" by auto
  from file_machine_read [OF M write_flags(4) [OF fl] W(1), of k] obtain w' ms where
    r: "machine_desc_read S (call_filter S (Suc k)) h d n w = Some (?st, length (take n q), w')" "w_px w' = px'"
      "desc_step h (D\<lparr>md_impl := IMPL_FILE fd', md_metrics := ms\<rparr>) ?hp w w'" by blast
  have "file_machine h (D\<lparr>md_impl := IMPL_FILE fd', md_metrics := ms\<rparr>) fd' w'" by (rule file_machine_step [OF M r(3)])
  then have "file_reads S h cap w' (drop n q)" using E W r(2) unfolding file_reads_def by blast
  moreover have "w_heap w' = ?hp" using r(3) by (simp add: desc_step_def)
  then have "machine_fetch S (Suc k) h d n w = Some (?st, take n q, w')"
    using r(1) mem_read_same [of "mem (w_heap w)" d "take n q"] by (simp add: machine_fetch_def del: call_filter.simps length_take)
  ultimately show ?thesis using n(1) by (intro exI [of _ ?st] exI [of _ w']) auto
qed

interpretation file_source: byte_source "file_reads S h cap" "\<lambda>w. True" cap "machine_fetch S (Suc k) h d" for S h cap k d
  by unfold_locales (rule file_fetch_ok)

section \<open>Rotation\<close>

text \<open>Files whose names start with \<open>tag\<close> can be made in the directory \<open>rdir\<close>.\<close>

definition dir_writable :: "os \<Rightarrow> posix \<Rightarrow> string \<Rightarrow> string \<Rightarrow> cstr \<Rightarrow> bool" where
  "dir_writable sy px rdir tag ext \<longleftrightarrow> (\<forall>i. let s = file_name rdir tag i ext in
     last s \<noteq> CHR ''/'' \<and> \<not> os_deny sy px s \<and> butlast (path_of sy s) \<in> set (px_dirs px))"

lemma file_name_nonempty: "file_name rdir tag i ext \<noteq> []"
  by (simp add: file_name_def snprintf_def FILE_IOM_MAX_PATHLEN_def)

lemma free_can_write:
  assumes "dir_writable sy px rdir tag ext" and "stat sy px (file_name rdir tag i ext) = None"
  shows "can_write sy px (file_name rdir tag i ext)" "px_files px (path_of sy (file_name rdir tag i ext)) = None"
proof -
  have w: "last (file_name rdir tag i ext) \<noteq> CHR ''/''" "\<not> os_deny sy px (file_name rdir tag i ext)"
    "butlast (path_of sy (file_name rdir tag i ext)) \<in> set (px_dirs px)" using assms(1) by (simp_all add: dir_writable_def Let_def)
  then show "can_write sy px (file_name rdir tag i ext)" "px_files px (path_of sy (file_name rdir tag i ext)) = None"
    using assms(2) file_name_nonempty by (auto simp: can_write_def stat_def Let_def split: if_splits)
qed

text \<open>The search for a free name ends if there is one, and finds one.\<close>

lemma free_name_loop_ok:
  assumes "stat sy px (file_name rdir tag (Some (of_nat j)) ext) = None" and "i \<le> j"
  shows "\<exists>o' idx. free_name_loop sy px rdir tag ext (file_name rdir tag x ext) (of_nat i) = Some (file_name rdir tag o' ext, idx) \<and>
    stat sy px (file_name rdir tag o' ext) = None"
  using assms(2)
proof (induction "Suc j - i" arbitrary: i x)
  case (Suc m)
  show ?case
  proof (cases "stat sy px (file_name rdir tag x ext) = None")
    case True
    then show ?thesis by (subst free_name_loop.simps) auto
  next
    case False
    then obtain y where stat: "stat sy px (file_name rdir tag x ext) = Some y" by blast
    have step: "free_name_loop sy px rdir tag ext (file_name rdir tag x ext) (of_nat i) =
        free_name_loop sy px rdir tag ext (file_name rdir tag (Some (of_nat i)) ext) (of_nat (Suc i))"
      using stat by (subst free_name_loop.simps) (simp add: add.commute)
    show ?thesis
    proof (cases "i = j")
      case True
      then show ?thesis unfolding step using assms(1) by (subst free_name_loop.simps) auto
    next
      case False
      then show ?thesis unfolding step using Suc.hyps(1) [of "Suc i" "Some (of_nat i)"] Suc.hyps(2) Suc.prems by simp
    qed
  qed
qed simp

lemma write_name_free:
  assumes "has_flag fd FFILE_ROTATE" and "stat sy px (file_name rdir tag (Some (of_nat j)) (fd_file_ext fd)) = None" and "0 < j"
  shows "\<exists>i idx. write_name sy px rdir tag fd = Some (file_name rdir tag i (fd_file_ext fd), fd\<lparr>fd_file_index := idx\<rparr>) \<and>
    stat sy px (file_name rdir tag i (fd_file_ext fd)) = None"
proof -
  let ?x = "if has_flag fd FFILE_INDEX then Some (fd_file_index fd) else None"
  have keep: "fd = fd\<lparr>fd_file_index := fd_file_index fd\<rparr>" by simp
  show ?thesis
  proof (cases "stat sy px (file_name rdir tag ?x (fd_file_ext fd)) = None")
    case True
    then have "write_name sy px rdir tag fd = Some (file_name rdir tag ?x (fd_file_ext fd), fd\<lparr>fd_file_index := fd_file_index fd\<rparr>)"
      by (simp add: write_name_def Let_def)
    then show ?thesis using True by blast
  next
    case False
    obtain i idx where "free_name_loop sy px rdir tag (fd_file_ext fd) (file_name rdir tag ?x (fd_file_ext fd)) 1 =
        Some (file_name rdir tag i (fd_file_ext fd), idx)" "stat sy px (file_name rdir tag i (fd_file_ext fd)) = None"
      using free_name_loop_ok [OF assms(2), of 1 ?x] assms(3) by auto
    then have "write_name sy px rdir tag fd = Some (file_name rdir tag i (fd_file_ext fd),
        fd\<lparr>fd_file_index := if has_flag fd FFILE_INDEX then idx else fd_file_index fd\<rparr>)"
      using False assms(1) by (simp add: write_name_def Let_def)
    then show ?thesis using \<open>stat sy px (file_name rdir tag i (fd_file_ext fd)) = None\<close> by blast
  qed
qed

lemma rotating_write:
  assumes E: "stdio_progress (s_os S)" "n < sz_max" and fl: "has_flag fd FFILE_ROTATE" and fd: "plain fd rdir tag" "fd_fw fd = None" "fd_fr fd = None"
    and dir: "stat (s_os S) (w_px w) rdir = Some S_IFDIR" "dir_writable (s_os S) (w_px w) rdir tag (fd_file_ext fd)"
    and j: "stat (s_os S) (w_px w) (file_name rdir tag (Some (of_nat j)) (fd_file_ext fd)) = None" "0 < j"
  shows "\<exists>i idx px'. file_write_fd S d n IO_DEFAULT_ALIGN fd w = Some (IO_SUCCESS, n, fd\<lparr>fd_file_index := idx\<rparr>, w\<lparr>w_px := px'\<rparr>) \<and>
    px_files (w_px w) (path_of (s_os S) (file_name rdir tag i (fd_file_ext fd))) = None \<and>
    px_files px' = (px_files (w_px w))(path_of (s_os S) (file_name rdir tag i (fd_file_ext fd)) \<mapsto> mem_read (mem (w_heap w)) d n) \<and>
    px_dirs px' = px_dirs (w_px w) \<and> px_pipes px' = px_pipes (w_px w)"
proof -
  obtain i idx where N: "write_name (s_os S) (w_px w) rdir tag fd = Some (file_name rdir tag i (fd_file_ext fd), fd\<lparr>fd_file_index := idx\<rparr>)"
    "stat (s_os S) (w_px w) (file_name rdir tag i (fd_file_ext fd)) = None" using write_name_free [OF fl j] by blast
  let ?s = "file_name rdir tag i (fd_file_ext fd)"
  note free = free_can_write [OF dir(2) N(2)]
  obtain px1 f where o1: "open_file S FFILE_WRITE fd w = Some (True, fd\<lparr>fd_file_index := idx, fd_fw := Some f\<rparr>, w\<lparr>w_px := px1\<rparr>)"
    "writing px1 f (path_of (s_os S) ?s) []" "px_files px1 = (px_files (w_px w))(path_of (s_os S) ?s \<mapsto> [])"
    "px_dirs px1 = px_dirs (w_px w)" "px_pipes px1 = px_pipes (w_px w)"
    using open_write_plain [OF fd dir(1) N(1) free(1)] by blast
  from file_write_loop_ok [OF o1(2) E(1), of 0 n "mem (w_heap w)" d] E(2) obtain px2 where
    l: "file_write_loop (s_os S) f (mem (w_heap w)) d n 0 px1 = Some (n, px2)" "writing px2 f (path_of (s_os S) ?s) (mem_read (mem (w_heap w)) d n)"
    "px_files px2 = (px_files px1)(path_of (s_os S) ?s \<mapsto> mem_read (mem (w_heap w)) d n)" "px_dirs px2 = px_dirs px1" "px_pipes px2 = px_pipes px1" by auto
  let ?px = "px2\<lparr>px_streams := (px_streams px2)(f := None)\<rparr>"
  have "fclose f px2 = Some ?px" using l(2) by (auto simp: writing_def fclose_def)
  moreover have "fd\<lparr>fd_fw := None\<rparr> = fd" using fd(2) by simp
  ultimately have "file_write_fd S d n IO_DEFAULT_ALIGN fd w =
      Some (IO_SUCCESS, n, fd\<lparr>fd_file_index := if has_flag fd FFILE_INDEX then idx + 1 else idx\<rparr>, w\<lparr>w_px := ?px\<rparr>)"
    using o1(1) l(1) fl fd(2)
    by (cases fd) (simp add: file_write_fd_def rotate_wfile_def close_opt_def IO_DEFAULT_ALIGN_def has_flag_def Let_def)
  then show ?thesis using free(2) o1(3-5) l(3-5)
    by (intro exI [of _ i] exI [of _ "if has_flag fd FFILE_INDEX then idx + 1 else idx"] exI [of _ ?px]) simp
qed

section \<open>A closed stream\<close>

lemma closed_stream_write:
  assumes M: "file_machine h D fd w" and fl: "has_flag fd FFILE_WRITE" "fd_fw fd = Some f" and c: "px_streams (w_px w) f = None" and n: "0 < n"
  shows "machine_desc_write S (call_filter S (Suc k)) h buf n w = None"
proof -
  from M obtain wr where D: "machine_get_desc h w = Some D" "md_impl D = IMPL_FILE fd" "\<not> md_lock D" "md_io_write D = Some wr"
    "io_state wr = IO_DESC_ENABLED" "end_filter FN_FILE_WRITE h (io_obj wr) w" by (auto simp: file_machine_def)
  let ?w1 = "in_call h w" and ?D1 = "D\<lparr>md_in_use := md_in_use D + 1\<rparr>"
  have s1: "desc_step h ?D1 (w_heap w) w ?w1" using desc_step_upd [OF D(1), of "\<lambda>d. d\<lparr>md_in_use := md_in_use d + 1\<rparr>"] by simp
  then have g: "machine_get_desc h ?w1 = Some ?D1" and f: "end_filter FN_FILE_WRITE h (io_obj wr) ?w1"
    using D(6) end_filter_cong [of ?w1 w] by (simp_all add: desc_step_def)
  from end_filterD [OF f] obtain x where x: "get_filter (io_obj wr) ?w1 = Some x" "f_call x = FN_FILE_WRITE"
    "handle_of (io_obj wr) ?w1 = Some h" by blast
  have "file_write_loop (s_os S) f (mem (w_heap ?w1)) buf n 0 (w_px ?w1) = None"
    using n c by (subst file_write_loop.simps) (simp add: fwrite_def)
  then have "file_write_fd S buf n IO_DEFAULT_ALIGN fd ?w1 = None"
    using fl(2) by (simp add: file_write_fd_def open_file_def open_write_def FFILE_READ_def FFILE_WRITE_def IO_DEFAULT_ALIGN_def)
  then have "call_filter S (Suc k) (io_obj wr) buf n IO_NO_BLOCK IO_DEFAULT_ALIGN ?w1 = None"
    using x g D fl(1) n by (simp add: filter_body_def file_write_def file_of_def)
  moreover have "io_obj wr \<noteq> 0" using D(6) by (simp add: end_filter_def)
  ultimately show ?thesis using D by (simp add: machine_desc_write_def machine_desc_acquire_def del: call_filter.simps)
qed

end
