(* ===== verification/File_Setup.thy ===== *)
theory File_Setup
  imports File_Store
begin

text \<open>
  Creating file machines, and the names they use: \<open>new_file_read_machine\<close> takes a path apart, and \<open>open_file\<close>
  puts it together again.
\<close>

section \<open>Taking a path apart\<close>

lemma strrchr_None: "strrchr c s = None \<longleftrightarrow> c \<notin> set s"
  by (induction s) (auto split: option.splits)

lemma strrchr_append: "c \<notin> set ys \<Longrightarrow> strrchr c (xs @ c # ys) = Some (length xs)"
  by (induction xs) (auto simp: strrchr_None [THEN iffD2] split: option.splits)

lemma strrchr_split: "strrchr c s = Some i \<Longrightarrow> s = take i s @ c # drop (Suc i) s"
  by (induction s arbitrary: i) (auto split: option.splits if_splits)

lemma strip_id: "s \<noteq> [] \<Longrightarrow> last s \<noteq> CHR ''/'' \<Longrightarrow> strip s = s"
  by (cases s rule: rev_cases) (simp_all add: strip_def)

lemma dirname_basename:
  assumes "rdir \<noteq> []" and "last rdir \<noteq> CHR ''/''" and "base \<noteq> []" and "CHR ''/'' \<notin> set base"
  shows "dirname (rdir @ ''/'' @ base) = rdir" "basename (rdir @ ''/'' @ base) = base"
proof -
  have "last base \<noteq> CHR ''/''" using assms(3,4) by (metis last_in_set)
  then have s: "strip (rdir @ ''/'' @ base) = rdir @ ''/'' @ base" using assms(3) by (intro strip_id) auto
  have r: "strrchr (CHR ''/'') (rdir @ ''/'' @ base) = Some (length rdir)" using strrchr_append [OF assms(4), of rdir] by simp
  show "dirname (rdir @ ''/'' @ base) = rdir" using s r assms(1) strip_id [OF assms(1,2)] by (simp add: dirname_def)
  show "basename (rdir @ ''/'' @ base) = base" using s r by (simp add: basename_def)
qed

section \<open>Creation\<close>

text \<open>A world in which a file machine can be created.\<close>

definition file_registered :: "world \<Rightarrow> bool" where
  "file_registered w \<longleftrightarrow> (\<exists>m. w_file_machine w = Some m \<and> m < length (w_machines w))"

definition file_ready :: "world \<Rightarrow> bool" where
  "file_ready w \<longleftrightarrow> handles_ok w \<and> w_handle_counter w + 1 < 2 ^ 31 \<and>
     (w_handle_alloc w = 0 \<and> w_handle_map w = [] \<or> length (w_handle_map w) < w_handle_alloc w) \<and>
     (file_registered w \<and> w_pool w \<noteq> None \<or> w_file_machine w = None \<and> get_machine ''file'' w = None)"

text \<open>Memory can be had.\<close>

definition memory_ok :: "sys \<Rightarrow> bool" where
  "memory_ok S \<longleftrightarrow> pool_sound (s_mem S) \<and> pool_plenty (s_mem S) 0 \<and> (\<forall>h p. create_subpool (s_mem S) h p \<noteq> 0) \<and> repalloc_ok S"

lemma get_file_machine_ok:
  assumes E: "memory_ok S" and w: "file_ready w"
  shows "\<exists>m w'. get_file_machine S w = Some (m, w') \<and> file_registered w' \<and> table_room w' \<and> handles_ok w' \<and> w_px w' = w_px w"
proof (cases "w_file_machine w")
  case (Some m)
  then show ?thesis using w by (auto simp: get_file_machine_def file_ready_def table_room_def file_registered_def)
next
  case None
  then have n: "get_machine ''file'' w = None" using w by (auto simp: file_ready_def file_registered_def)
  have E': "pool_sound (s_mem S)" "pool_plenty (s_mem S) 0" "repalloc_ok S" using E by (simp_all add: memory_ok_def)
  from machine_register_ok [OF E' n] obtain hp p m t where
    r: "machine_register S ''file'' w = Some (Some (length (w_machines w)),
      w\<lparr>w_pool := Some p, w_heap := hp, w_machines := w_machines w @ [m], w_machines_ptr := t\<rparr>)" by blast
  then show ?thesis using None w
    by (simp add: get_file_machine_def Let_def file_registered_def table_room_def file_ready_def handles_ok_def used_handles_def)
qed

lemma set_input_new:
  assumes "memory_ok S" and "length s < maxlen"
  shows "\<exists>a hp. set_input_str maxlen S p s None w = Some (Some (a, s), w\<lparr>w_heap := hp\<rparr>)"
proof -
  have E: "pool_sound (s_mem S)" "pool_plenty (s_mem S) 0" using assms(1) by (simp_all add: memory_ok_def)
  obtain a where "pcalloc (s_mem S) (w_heap w) p (length s + 1) = Some a" using alloc_ok(2) [OF E] by blast
  then have "set_input_str maxlen S p s None w =
      Some (Some (a, s), w\<lparr>w_heap := (w_heap w)\<lparr>live := (a, length s + 1) # live (w_heap w)\<rparr>\<rparr>)"
    using assms(2) by (simp add: set_input_str_def add_live_eq min_def)
  then show ?thesis by blast
qed

lemma input_opt_ok:
  assumes "memory_ok S" and "\<forall>s. src = Some s \<longrightarrow> length s < FILE_IOM_MAX_STRLEN"
  shows "\<exists>c hp. input_opt S p src w = Some (c, w\<lparr>w_heap := hp\<rparr>) \<and> map_option snd c = src"
proof (cases src)
  case None
  then show ?thesis by (intro exI [of _ None] exI [of _ "w_heap w"]) (simp add: input_opt_def)
next
  case (Some s)
  with set_input_new [OF assms(1), of s FILE_IOM_MAX_STRLEN p w] assms(2) show ?thesis by (fastforce simp: input_opt_def)
qed

text \<open>Setting up a descriptor does not change the state of the system.\<close>

lemma create_filter_px: "create_filter S p name fn w = Some (a, w') \<Longrightarrow> w_px w' = w_px w"
  by (auto simp: create_filter_def add_live_eq bind_eq_Some_conv)

lemma filter_init_px:
  "filter_read_init S p name fn d w = Some (a, d', w') \<Longrightarrow> w_px w' = w_px w"
  "filter_write_init S p name fn d w = Some (a, d', w') \<Longrightarrow> w_px w' = w_px w"
  by (auto simp: filter_read_init_def filter_write_init_def bind_eq_Some_conv split: option.splits if_splits dest: create_filter_px)

lemma request_handle_px: "request_handle S m w = Some (h, w') \<Longrightarrow> w_px w' = w_px w"
  by (auto simp: request_handle_def add_live_eq bind_eq_Some_conv Let_def split: if_splits)

lemma set_filter_handle_px: "set_filter_handle io h w = Some w' \<Longrightarrow> w_px w' = w_px w"
  by (auto simp: set_filter_handle_def upd_filter_def bind_eq_Some_conv split: option.splits)

lemma machine_register_desc_px: "machine_register_desc S d w = Some (h, w') \<Longrightarrow> w_px w' = w_px w"
  by (auto simp: machine_register_desc_def bind_eq_Some_conv split: if_splits dest!: request_handle_px set_filter_handle_px)

lemma machine_desc_init_px: "machine_desc_init S p m d w = (st, d', w') \<Longrightarrow> w_px w' = w_px w"
  by (auto simp: machine_desc_init_def add_live_eq Let_def split: option.splits)

lemma setup_px: "setup_desc S p m rn rfn wn wfn d w = Some (h, w') \<Longrightarrow> w_px w' = w_px w"
  by (auto simp: setup_desc_def bind_eq_Some_conv discard_pool_def split: prod.splits if_splits
      dest!: machine_desc_init_px filter_init_px machine_register_desc_px)

text \<open>What \<open>new_file_machine\<close> makes of short strings.\<close>

lemma new_file_machine_ok:
  assumes E: "memory_ok S" and w: "file_ready w" and len: "length rdir < FILE_IOM_MAX_STRLEN" "length tag < FILE_IOM_MAX_STRLEN"
      "\<forall>e. ext = Some e \<longrightarrow> length e < FILE_IOM_MAX_STRLEN"
  shows "\<exists>h w' D fd. new_file_machine S (Some rdir) (Some tag) ext flags w = Some (h, w') \<and> file_machine h D fd w' \<and> w_px w' = w_px w \<and>
    fd_flags fd = flags \<and> fd_fr fd = None \<and> fd_fw fd = None \<and> map_option snd (fd_root_dir fd) = Some rdir \<and>
    map_option snd (fd_file_tag fd) = Some tag \<and> map_option snd (fd_file_ext fd) = ext"
proof -
  have E': "pool_sound (s_mem S)" "pool_plenty (s_mem S) 0" "\<And>h p. create_subpool (s_mem S) h p \<noteq> 0"
    using E by (simp_all add: memory_ok_def)
  obtain i w1 where g: "get_file_machine S w = Some (i, w1)" "file_registered w1" "table_room w1" "handles_ok w1" "w_px w1 = w_px w"
    using get_file_machine_ok [OF E w] by blast
  obtain m where m: "w_file_machine w1 = Some m" "m < length (w_machines w1)" using g(2) by (auto simp: file_registered_def)
  let ?p = "create_subpool (s_mem S) (w_heap w1) (m_alloc (w_machines w1 ! m))"
  obtain a where a: "pcalloc (s_mem S) (w_heap w1) ?p sizeof_file_desc = Some a" using alloc_ok(2) [OF E'(1,2)] by blast
  let ?w2 = "add_live a sizeof_file_desc w1"
  obtain b h3 where t: "set_input_str FILE_IOM_MAX_STRLEN S ?p tag None ?w2 = Some (Some (b, tag), ?w2\<lparr>w_heap := h3\<rparr>)"
    using set_input_new [OF E len(2)] by blast
  let ?w3 = "?w2\<lparr>w_heap := h3\<rparr>"
  obtain rc h4 where r: "input_opt S ?p (Some rdir) ?w3 = Some (rc, ?w3\<lparr>w_heap := h4\<rparr>)" "map_option snd rc = Some rdir"
    using input_opt_ok [OF E, of "Some rdir" ?p ?w3] len(1) by auto
  let ?w4 = "?w3\<lparr>w_heap := h4\<rparr>"
  obtain ec h5 where e: "input_opt S ?p ext ?w4 = Some (ec, ?w4\<lparr>w_heap := h5\<rparr>)" "map_option snd ec = ext"
    using input_opt_ok [OF E, of ext ?p ?w4] len(3) by auto
  let ?w5 = "?w4\<lparr>w_heap := h5\<rparr>"
  let ?fd = "zero_file\<lparr>fd_file_tag := Some (b, tag), fd_root_dir := rc, fd_file_ext := ec, fd_basedir_index := BASEDIR_INDEX_NOINIT,
    fd_file_index := 0, fd_date_fmt := TIMESTAMP_FMT, fd_flags := flags\<rparr>"
  let ?d = "zero_desc\<lparr>md_impl := IMPL_FILE ?fd\<rparr>"
  have t5: "table_room ?w5" "handles_ok ?w5" using g(3,4) by (simp_all add: table_room_def handles_ok_def used_handles_def add_live_eq)
  from setup_desc_ok [OF E'(1,2) t5, of ?p m "''_file''" FN_FILE_READ "''_file''" FN_FILE_WRITE ?d]
  obtain h w' D rd wr where s: "setup_desc S ?p m ''_file'' FN_FILE_READ ''_file'' FN_FILE_WRITE ?d ?w5 = Some (h, w')"
      "machine_get_desc h w' = Some D" "md_impl D = IMPL_FILE ?fd" "\<not> md_lock D"
      "md_io_read D = Some rd" "md_io_write D = Some wr" "io_state rd = IO_DESC_ENABLED" "io_state wr = IO_DESC_ENABLED"
      "end_filter FN_FILE_READ h (io_obj rd) w'" "end_filter FN_FILE_WRITE h (io_obj wr) w'" by auto
  have "new_file_machine S (Some rdir) (Some tag) ext flags w = Some (h, w')"
    using g(1) m a t r(1) e(1) s(1) E'(3) [of "w_heap w1" "m_alloc (w_machines w1 ! m)"]
    by (simp add: new_file_machine_def create_file_def get_iom_def init_basedir_def Let_def)
  moreover have "file_machine h D ?fd w'" using s by (auto simp: file_machine_def)
  moreover have "w_px w' = w_px w" using setup_px [OF s(1)] g(5) by (simp add: add_live_eq)
  ultimately show ?thesis using r(2) e(2)
    by (intro exI [of _ h] exI [of _ w'] exI [of _ D] exI [of _ ?fd]) (simp add: zero_file_def)
qed

end
