(* ===== verification/File_Properties.thy ===== *)
theory File_Properties
  imports File_Setup Demo_World
begin

text \<open>
  The properties of the file machine: what writers store, what readers get, what rotation keeps, which
  directories are made.
\<close>

section \<open>Writing\<close>

lemma fresh_file_name:
  assumes "map_option snd (fd_root_dir fd) = Some rdir" and "map_option snd (fd_file_tag fd) = Some tag"
    and "map_option snd (fd_file_ext fd) = ext" and "fd_fr fd = None" and "fd_fw fd = None" and "fd_flags fd = FFILE_READ \<or> fd_flags fd = FFILE_WRITE"
    and "length rdir < FILE_IOM_MAX_DIRLEN" and "stat (s_os S) px rdir = Some S_IFDIR"
    and "s = rdir @ ''/'' @ tag @ (case ext of None \<Rightarrow> [] | Some e \<Rightarrow> ''.'' @ e)" and "length s < FILE_IOM_MAX_PATHLEN"
  shows "fresh_file S fd px s"
proof -
  have "\<not> has_flag fd FFILE_AUTO_DATE" "\<not> has_flag fd FFILE_DIR_ROTATE"
    using assms(6) by (auto simp: has_flag_def FFILE_READ_def FFILE_WRITE_def FFILE_AUTO_DATE_def FFILE_DIR_ROTATE_def)
  moreover have "file_name rdir tag None (fd_file_ext fd) = s"
    using assms(3,9,10) by (auto simp: file_name_def split: option.splits)
  ultimately show ?thesis using assms by (auto simp: fresh_file_def plain_def)
qed

text \<open>C15. A new file machine for writing stores what is written: after its creation and any sequence of writes, the file
  \<open>rootdir/fname.ext\<close> holds the bytes of all writes in order, however few of them the system accepts at a time,
  and every other file is as it was.\<close>

theorem file_write_stores:
  assumes "memory_ok S" and "file_ready w" and "stdio_progress (s_os S)"
    and "length rdir < FILE_IOM_MAX_STRLEN" and "length tag < FILE_IOM_MAX_STRLEN" and "\<forall>e. ext = Some e \<longrightarrow> length e < FILE_IOM_MAX_STRLEN"
    and "s = rdir @ ''/'' @ tag @ (case ext of None \<Rightarrow> [] | Some e \<Rightarrow> ''.'' @ e)"
    and "stat (s_os S) (w_px w) rdir = Some S_IFDIR" and "can_write (s_os S) (w_px w) s"
    and "xss \<noteq> []" and "\<forall>xs \<in> set xss. xs \<noteq> [] \<and> length xs \<le> cap" and "cap < sz_max"
  shows "\<exists>h w1 w2. new_file_write_machine S (Some rdir) (Some tag) ext w = Some (h, w1) \<and>
    put_all (machine_put S (Suc k) h d) xss w1 = Some w2 \<and>
    px_files (w_px w2) = (px_files (w_px w))(path_of (s_os S) s \<mapsto> concat xss) \<and> px_dirs (w_px w2) = px_dirs (w_px w)"
proof -
  obtain h w1 D fd where n: "new_file_machine S (Some rdir) (Some tag) ext FFILE_WRITE w = Some (h, w1)" "file_machine h D fd w1"
    "w_px w1 = w_px w" "fd_flags fd = FFILE_WRITE" "fd_fr fd = None" "fd_fw fd = None" "map_option snd (fd_root_dir fd) = Some rdir"
    "map_option snd (fd_file_tag fd) = Some tag" "map_option snd (fd_file_ext fd) = ext"
    using new_file_machine_ok [OF assms(1,2,4-6)] by blast
  have len: "length rdir < FILE_IOM_MAX_DIRLEN" "length s < FILE_IOM_MAX_PATHLEN"
    using assms(4-7) by (auto simp: FILE_IOM_MAX_STRLEN_def FILE_IOM_MAX_DIRLEN_def FILE_IOM_MAX_PATHLEN_def split: option.splits)
  have "fresh_file S fd (w_px w1) s"
    by (rule fresh_file_name [OF n(7-9,5,6)]) (use n(3,4) assms(7,8) len in simp_all)
  then have "file_writes S h cap s w1 w1 []"
    using assms(3,9,12) n(2-4) by (auto simp: file_writes_def unchanged_def)
  from file_sink.put_all_ok [OF this assms(11), of k d] obtain w2 where
    p: "put_all (machine_put S (Suc k) h d) xss w1 = Some w2" "file_writes S h cap s w1 w2 (concat xss)" by auto
  have "concat xss \<noteq> []" using assms(10,11) by (cases xss) auto
  with p(2) have "px_files (w_px w2) (path_of (s_os S) s) = Some (concat xss)" "unchanged h (path_of (s_os S) s) w1 w2"
    by (auto simp: file_writes_def writing_def)
  then have "px_files (w_px w2) = (px_files (w_px w))(path_of (s_os S) s \<mapsto> concat xss)" "px_dirs (w_px w2) = px_dirs (w_px w)"
    using n(3) by (auto simp: unchanged_def)
  then show ?thesis using n(1) p(1) by (auto simp: new_file_write_machine_def)
qed

definition demo_dir :: world where
  "demo_dir = empty_world\<lparr>w_px := empty_posix\<lparr>px_dirs := [[], [''data'']], px_files := [[''data'', ''old.bin''] \<mapsto> [1, 2, 3, 4, 5]]\<rparr>\<rparr>"

lemma demo_memory: "memory_ok demo_sys"
  using demo_sys_ok(1) demo_sys_ok(2) [of 0] demo_sys_ok(3) by (simp add: memory_ok_def repalloc_ok_def) (simp add: demo_sys_def)

lemma demo_progress: "stdio_progress (s_os demo_sys)"
  by (simp add: stdio_progress_def demo_sys_def demo_os_def)

lemma demo_dir_ready: "file_ready demo_dir"
  by (simp add: file_ready_def demo_dir_def empty_world_def handles_ok_def used_handles_def get_machine_def)

lemmas demo_file_defs = demo_dir_def empty_posix_def demo_sys_def demo_os_def stat_def can_write_def Let_def

theorem file_write_stores_witness:
  "\<exists>h w1 w2. new_file_write_machine demo_sys (Some ''data'') (Some ''new'') (Some ''bin'') demo_dir = Some (h, w1) \<and>
     put_all (machine_put demo_sys 1 h 1) [[7, 8], [9]] w1 = Some w2 \<and>
     px_files (w_px w2) = [[''data'', ''old.bin''] \<mapsto> [1, 2, 3, 4, 5], [''data'', ''new.bin''] \<mapsto> [7, 8, 9]]"
proof -
  have s: "stat (s_os demo_sys) (w_px demo_dir) ''data'' = Some S_IFDIR" "can_write (s_os demo_sys) (w_px demo_dir) ''data/new.bin''"
    by (simp_all add: demo_file_defs)
  have p: "path_of (s_os demo_sys) ''data/new.bin'' = [''data'', ''new.bin'']" "px_files (w_px demo_dir) = [[''data'', ''old.bin''] \<mapsto> [1, 2, 3, 4, 5]]"
    by (simp_all add: demo_file_defs)
  from file_write_stores [OF demo_memory demo_dir_ready demo_progress, of "''data''" "''new''" "Some ''bin''" "''data/new.bin''"
      "[[7, 8], [9]]" 2 0 1] s p show ?thesis
    unfolding One_nat_def by (fastforce simp: FILE_IOM_MAX_STRLEN_def sz_max_def simp del: put_all.simps)
qed

section \<open>Reading\<close>

lemma read_machine_parts:
  assumes s: "s = rdir @ ''/'' @ base" "rdir \<noteq> []" "last rdir \<noteq> CHR ''/''" "base \<noteq> []" "CHR ''/'' \<notin> set base"
    and len: "length s < FILE_IOM_MAX_PATHLEN"
  shows "\<exists>tag ext. new_file_read_machine S s w = new_file_machine S (Some rdir) (Some tag) ext FFILE_READ w \<and>
    base = tag @ (case ext of None \<Rightarrow> [] | Some e \<Rightarrow> ''.'' @ e)"
proof (cases "strrchr (CHR ''.'') base")
  case None
  then show ?thesis using dirname_basename [OF s(2-5)] len s(1)
    by (intro exI [of _ base] exI [of _ None]) (simp add: new_file_read_machine_def)
next
  case (Some i)
  show ?thesis
  proof (cases "i = 0")
    case True
    then show ?thesis using dirname_basename [OF s(2-5)] len s(1) Some
      by (intro exI [of _ base] exI [of _ None]) (simp add: new_file_read_machine_def)
  next
    case False
    then show ?thesis using dirname_basename [OF s(2-5)] len s(1) Some strrchr_split [OF Some]
      by (intro exI [of _ "take i base"] exI [of _ "Some (drop (Suc i) base)"]) (simp add: new_file_read_machine_def)
  qed
qed

text \<open>C16. A new file machine for reading delivers the file it was given the path of: the path is taken apart into directory,
  name and extension and put together again, and reads of any positive size give the bytes of the file in order, however
  few of them the system returns at a time; the end is reported with the last bytes or after them.\<close>

theorem file_read_delivers:
  assumes "memory_ok S" and "file_ready w" and "stdio_progress (s_os S)"
    and "s = rdir @ ''/'' @ base" and "rdir \<noteq> []" and "last rdir \<noteq> CHR ''/''" and "base \<noteq> []" and "CHR ''/'' \<notin> set base"
    and "length rdir < FILE_IOM_MAX_STRLEN" and "length base < FILE_IOM_MAX_STRLEN"
    and "stat (s_os S) (w_px w) rdir = Some S_IFDIR" and "stat (s_os S) (w_px w) s = Some S_IFREG" and "\<not> os_deny (s_os S) (w_px w) s"
    and "px_files (w_px w) (path_of (s_os S) s) = Some c" and "px_pipes (w_px w) (path_of (s_os S) s) = None"
    and "0 < n" and "n \<le> cap" and "cap < sz_max"
  shows "\<exists>h w1 w2. new_file_read_machine S s w = Some (h, w1) \<and> drain (machine_fetch S (Suc k) h d) n (length c + 1) w1 = Some (c, w2)"
proof -
  have len: "length rdir < FILE_IOM_MAX_DIRLEN" "length s < FILE_IOM_MAX_PATHLEN"
    using assms(4,9,10) by (auto simp: FILE_IOM_MAX_STRLEN_def FILE_IOM_MAX_DIRLEN_def FILE_IOM_MAX_PATHLEN_def)
  obtain tag ext where t: "new_file_read_machine S s w = new_file_machine S (Some rdir) (Some tag) ext FFILE_READ w"
    "base = tag @ (case ext of None \<Rightarrow> [] | Some e \<Rightarrow> ''.'' @ e)" using read_machine_parts [OF assms(4-8) len(2)] by blast
  have "length tag < FILE_IOM_MAX_STRLEN" "\<forall>e. ext = Some e \<longrightarrow> length e < FILE_IOM_MAX_STRLEN"
    using t(2) assms(10) by (auto split: option.splits)
  from new_file_machine_ok [OF assms(1,2,9) this, of FFILE_READ] obtain h w1 D fd where
    n: "new_file_machine S (Some rdir) (Some tag) ext FFILE_READ w = Some (h, w1)" "file_machine h D fd w1"
    "w_px w1 = w_px w" "fd_flags fd = FFILE_READ" "fd_fr fd = None" "fd_fw fd = None" "map_option snd (fd_root_dir fd) = Some rdir"
    "map_option snd (fd_file_tag fd) = Some tag" "map_option snd (fd_file_ext fd) = ext" by blast
  have "fresh_file S fd (w_px w1) s"
    by (rule fresh_file_name [OF n(7-9,5,6)]) (use n(3,4) assms(4,11) len t(2) in simp_all)
  then have "file_reads S h cap w1 c" using assms(3,12-15,18) n(2-4) unfolding file_reads_def by auto
  from file_source.drain_all [OF this assms(16,17), of "length c + 1" k d] t(1) n(1) show ?thesis by auto
qed

theorem file_read_delivers_witness:
  "\<exists>h w1 w2. new_file_read_machine demo_sys ''data/old.bin'' demo_dir = Some (h, w1) \<and>
     drain (machine_fetch demo_sys 1 h 1) 2 6 w1 = Some ([1, 2, 3, 4, 5], w2)"
proof -
  have s: "stat (s_os demo_sys) (w_px demo_dir) ''data'' = Some S_IFDIR" "stat (s_os demo_sys) (w_px demo_dir) ''data/old.bin'' = Some S_IFREG"
    "\<not> os_deny (s_os demo_sys) (w_px demo_dir) ''data/old.bin''"
    "px_files (w_px demo_dir) (path_of (s_os demo_sys) ''data/old.bin'') = Some [1, 2, 3, 4, 5]"
    "px_pipes (w_px demo_dir) (path_of (s_os demo_sys) ''data/old.bin'') = None"
    by (simp_all add: demo_file_defs)
  have n: "length [1, 2, 3, 4, 5 :: byte] + 1 = 6" by simp
  from file_read_delivers [OF demo_memory demo_dir_ready demo_progress, of "''data/old.bin''" "''data''" "''old.bin''"
      "[1, 2, 3, 4, 5]" 2 2 0 1, unfolded n] s show ?thesis
    by (simp add: FILE_IOM_MAX_STRLEN_def sz_max_def del: drain.simps)
qed

section \<open>Rotation\<close>

text \<open>C17. A rotating file machine never overwrites a file: each write goes into a file that did not exist before, which
  holds exactly the bytes of that write, all other files are as they were, and the machine is ready for the next
  write; it is enough that one of the numbered names is free.\<close>

theorem file_rotate_keeps_files:
  assumes "file_machine h D fd w" and "has_flag fd FFILE_WRITE" and "has_flag fd FFILE_ROTATE" and "plain fd rdir tag"
    and "fd_fw fd = None" and "fd_fr fd = None" and "stdio_progress (s_os S)"
    and "stat (s_os S) (w_px w) rdir = Some S_IFDIR" and "dir_writable (s_os S) (w_px w) rdir tag (fd_file_ext fd)"
    and "stat (s_os S) (w_px w) (file_name rdir tag (Some (of_nat j)) (fd_file_ext fd)) = None" and "0 < j"
    and "xs \<noteq> []" and "length xs < sz_max"
  shows "\<exists>w' s idx D'. machine_put S (Suc k) h d xs w = Some w' \<and> px_files (w_px w) (path_of (s_os S) s) = None \<and>
    px_files (w_px w') = (px_files (w_px w))(path_of (s_os S) s \<mapsto> xs) \<and> px_dirs (w_px w') = px_dirs (w_px w) \<and>
    file_machine h D' (fd\<lparr>fd_file_index := idx\<rparr>) w'"
proof -
  let ?w = "poke d xs w" and ?n = "length xs"
  have px: "w_px (in_call h ?w) = w_px w" and hp: "w_heap (in_call h ?w) = w_heap ?w" by (simp_all add: poke_def upd_desc_def)
  have c: "mem_read (mem (w_heap ?w)) d ?n = xs" by (simp add: poke_def mem_simps)
  obtain i idx px' where
    W: "file_write_fd S d ?n IO_DEFAULT_ALIGN fd (in_call h ?w) = Some (IO_SUCCESS, ?n, fd\<lparr>fd_file_index := idx\<rparr>, (in_call h ?w)\<lparr>w_px := px'\<rparr>)"
      "px_files (w_px w) (path_of (s_os S) (file_name rdir tag i (fd_file_ext fd))) = None"
      "px_files px' = (px_files (w_px w))(path_of (s_os S) (file_name rdir tag i (fd_file_ext fd)) \<mapsto> xs)"
      "px_dirs px' = px_dirs (w_px w)"
    using rotating_write [OF assms(7,13,3-6), of "in_call h ?w" j d, unfolded px hp c, OF assms(8-11)] by blast
  have n: "?n \<noteq> 0" using assms(12) by simp
  from file_machine_write [OF file_machine_poke [OF assms(1)] assms(2) n W(1), of k] obtain w' ms where
    r: "machine_desc_write S (call_filter S (Suc k)) h d ?n ?w = Some (IO_SUCCESS, ?n, w')" "w_px w' = px'"
      "desc_step h (D\<lparr>md_impl := IMPL_FILE (fd\<lparr>fd_file_index := idx\<rparr>), md_metrics := ms\<rparr>) (w_heap ?w) ?w w'" by blast
  have "machine_put S (Suc k) h d xs w = Some w'" using r(1) by (simp add: machine_put_def del: call_filter.simps)
  then show ?thesis using W(2-4) r(2) file_machine_step [OF file_machine_poke [OF assms(1)] r(3)] by blast
qed

lemma digit_no_slash: "n < 10 \<Longrightarrow> digit n \<noteq> CHR ''/''"
proof -
  assume "n < 10"
  then have "of_char (digit n) \<noteq> (of_char (CHR ''/'') :: nat)" by (simp add: digit_def)
  then show ?thesis by metis
qed

lemma dec_no_slash: "CHR ''/'' \<notin> set (dec n)"
proof (induction n rule: dec.induct)
  case (1 n)
  then show ?case using digit_no_slash [of n] digit_no_slash [of "n mod 10"] by (subst dec.simps) auto
qed

lemma dec_length: "0 < k \<Longrightarrow> n < 10 ^ k \<Longrightarrow> length (dec n) \<le> k"
proof (induction k arbitrary: n)
  case (Suc k)
  show ?case
  proof (cases "n < 10")
    case False
    moreover have "n div 10 < 10 ^ k" using Suc.prems(2) by (simp add: less_mult_imp_div_less)
    moreover have "0 < k" using False Suc.prems(2) by (cases k) auto
    ultimately show ?thesis using Suc.IH by (subst dec.simps) simp
  qed (subst dec.simps, simp)
qed simp

lemma fmt_05d_word: "CHR ''/'' \<notin> set (fmt_05d (sint i))" "length (fmt_05d (sint i)) \<le> 11" for i :: "32 word"
proof -
  have "nat (- sint i) < 10 ^ 10" "nat (sint i) < 10 ^ 10" using sint_ge [of i] sint_lt [of i] by auto
  then have "length (dec (nat (- sint i))) \<le> 10" "length (dec (nat (sint i))) \<le> 10" by (simp_all add: dec_length)
  moreover have "length (pad0 k s) = max k (length s)" for k s by (simp add: pad0_def)
  ultimately show "length (fmt_05d (sint i)) \<le> 11" by (simp add: fmt_05d_def)
  show "CHR ''/'' \<notin> set (fmt_05d (sint i))" using dec_no_slash by (simp add: fmt_05d_def pad0_def)
qed

lemma names_plain: "CHR ''/'' \<notin> set b \<Longrightarrow> names cur b = (if cur @ b = [] then [] else [cur @ b])"
  by (induction b arbitrary: cur) auto

lemma demo_log_name: "\<exists>b. file_name ''data'' ''log'' i None = ''data/'' @ b \<and> b \<noteq> [] \<and> CHR ''/'' \<notin> set b"
proof -
  let ?b = "''log'' @ (case i of None \<Rightarrow> [] | Some i \<Rightarrow> ''-'' @ fmt_05d (sint i))"
  have "length (''data/'' @ ?b) < FILE_IOM_MAX_PATHLEN" using fmt_05d_word(2) [of "the i"] by (auto simp: FILE_IOM_MAX_PATHLEN_def split: option.split)
  then have "file_name ''data'' ''log'' i None = ''data/'' @ ?b" by (simp add: file_name_def)
  moreover have "CHR ''/'' \<notin> set ?b" using fmt_05d_word(1) [of "the i"] by (auto split: option.split)
  ultimately show ?thesis by (intro exI [of _ ?b]) simp
qed

lemma demo_log_writable: "dir_writable (s_os demo_sys) (w_px demo_dir) ''data'' ''log'' None"
  unfolding dir_writable_def Let_def
proof
  fix i
  obtain b where b: "file_name ''data'' ''log'' i None = ''data/'' @ b" "b \<noteq> []" "CHR ''/'' \<notin> set b" using demo_log_name by blast
  moreover have "last b \<noteq> CHR ''/''" using b(2,3) by (metis last_in_set)
  ultimately show "last (file_name ''data'' ''log'' i None) \<noteq> CHR ''/'' \<and> \<not> os_deny (s_os demo_sys) (w_px demo_dir) (file_name ''data'' ''log'' i None) \<and>
      butlast (path_of (s_os demo_sys) (file_name ''data'' ''log'' i None)) \<in> set (px_dirs (w_px demo_dir))"
    by (simp add: demo_file_defs names_plain)
qed

theorem file_rotate_keeps_files_witness:
  "\<exists>h w1 w' s. new_file_machine demo_sys (Some ''data'') (Some ''log'') None (FFILE_WRITE OR FFILE_ROTATE OR FFILE_INDEX) demo_dir = Some (h, w1) \<and>
     machine_put demo_sys 1 h 1 [7, 8] w1 = Some w' \<and> px_files (w_px w') = [[''data'', ''old.bin''] \<mapsto> [1, 2, 3, 4, 5], s \<mapsto> [7, 8]] \<and>
     s \<noteq> [''data'', ''old.bin'']"
proof -
  let ?fl = "FFILE_WRITE OR FFILE_ROTATE OR FFILE_INDEX"
  obtain h w1 D fd where n: "new_file_machine demo_sys (Some ''data'') (Some ''log'') None ?fl demo_dir = Some (h, w1)" "file_machine h D fd w1"
    "w_px w1 = w_px demo_dir" "fd_flags fd = ?fl" "fd_fr fd = None" "fd_fw fd = None" "map_option snd (fd_root_dir fd) = Some ''data''"
    "map_option snd (fd_file_tag fd) = Some ''log''" "fd_file_ext fd = None"
    using new_file_machine_ok [OF demo_memory demo_dir_ready, of "''data''" "''log''" None ?fl] by (auto simp: FILE_IOM_MAX_STRLEN_def)
  have fl: "has_flag fd FFILE_WRITE" "has_flag fd FFILE_ROTATE" "plain fd ''data'' ''log''"
    using n(4,7,8) by (simp_all add: has_flag_def plain_def FFILE_WRITE_def FFILE_ROTATE_def FFILE_INDEX_def FFILE_AUTO_DATE_def
      FFILE_DIR_ROTATE_def FILE_IOM_MAX_DIRLEN_def)
  have d1: "digit (Suc 0) = CHR ''1''" by (simp add: digit_def char_of_eq_iff)
  have z: "replicate 4 (CHR ''0'') = ''0000''" by (simp add: eval_nat_numeral)
  have f1: "file_name ''data'' ''log'' (Some (of_nat 1)) None = ''data/log-00001''"
    by (simp add: file_name_def FILE_IOM_MAX_PATHLEN_def fmt_05d_def pad0_def dec.simps z d1)
  have st: "stat (s_os demo_sys) (w_px demo_dir) ''data'' = Some S_IFDIR"
    "stat (s_os demo_sys) (w_px demo_dir) (file_name ''data'' ''log'' (Some (of_nat 1)) None) = None"
    unfolding f1 by (simp_all add: demo_file_defs)
  from file_rotate_keeps_files [OF n(2) fl n(6,5) demo_progress, of 1 "[7, 8]" 0 1] n(3,9) st demo_log_writable
  obtain w' s where "machine_put demo_sys (Suc 0) h 1 [7, 8] w1 = Some w'" "px_files (w_px demo_dir) (path_of (s_os demo_sys) s) = None"
    "px_files (w_px w') = (px_files (w_px demo_dir))(path_of (s_os demo_sys) s \<mapsto> [7, 8])" by (auto simp: sz_max_def)
  moreover have "px_files (w_px demo_dir) = [[''data'', ''old.bin''] \<mapsto> [1, 2, 3, 4, 5]]" by (simp add: demo_dir_def)
  ultimately show ?thesis using n(1) unfolding One_nat_def by (intro exI [of _ h] exI [of _ w1] exI [of _ w'] exI [of _ "path_of (s_os demo_sys) s"]) auto
qed

section \<open>Directories\<close>

fun join_path :: "string list \<Rightarrow> string" where
  "join_path [] = []"
| "join_path [n] = n"
| "join_path (n # ns) = n @ ''/'' @ join_path ns"

lemma join_path_snoc: "ns \<noteq> [] \<Longrightarrow> join_path (ns @ [n]) = join_path ns @ ''/'' @ n"
  by (induction ns rule: join_path.induct) auto

text \<open>What a path means to the system: below a directory \<open>tdir\<close> (the root, or the working directory), a relative or
  absolute path leads to the names it lists. The system permits making each of these directories.\<close>

definition path_below :: "os \<Rightarrow> string \<Rightarrow> path_t \<Rightarrow> string list \<Rightarrow> bool" where
  "path_below sy pre tdir ns \<longleftrightarrow> pre \<in> {[], ''/''} \<and> (\<forall>n \<in> set ns. n \<noteq> [] \<and> CHR ''/'' \<notin> set n) \<and>
     (\<forall>k. 0 < k \<and> k \<le> length ns \<longrightarrow> path_of sy (pre @ join_path (take k ns)) = tdir @ take k ns \<and>
        (\<forall>px. \<not> os_deny sy px (pre @ join_path (take k ns))))"

definition not_files :: "posix \<Rightarrow> path_t \<Rightarrow> string list \<Rightarrow> bool" where
  "not_files px tdir ns \<longleftrightarrow> (\<forall>k. 0 < k \<and> k \<le> length ns \<longrightarrow> px_files px (tdir @ take k ns) = None \<and> px_pipes px (tdir @ take k ns) = None)"

lemma not_files_butlast:
  assumes "not_files px tdir (ns @ [n])"
  shows "not_files px tdir ns"
  unfolding not_files_def
proof (intro allI impI)
  fix k assume k: "0 < k \<and> k \<le> length ns"
  then have "take k (ns @ [n]) = take k ns" "k \<le> length (ns @ [n])" by simp_all
  then show "px_files px (tdir @ take k ns) = None \<and> px_pipes px (tdir @ take k ns) = None"
    using assms k unfolding not_files_def by metis
qed

lemma path_below_butlast:
  assumes "path_below sy pre tdir (ns @ [n])"
  shows "path_below sy pre tdir ns"
  using assms by (auto simp: path_below_def)

lemma mkdir_step:
  assumes "path_of sy s = tdir @ ns @ [n]" and "s \<noteq> []" and "\<not> os_deny sy px s" and "tdir @ ns \<in> set (px_dirs px)"
    and "\<not> occupied px (tdir @ ns @ [n])"
  shows "mkdir sy s px = Some (px\<lparr>px_dirs := (tdir @ ns @ [n]) # px_dirs px\<rparr>)"
  using assms by (simp add: mkdir_def butlast_append)

lemma create_dir_path:
  assumes "ns \<noteq> []" and "path_below sy pre tdir ns" and "not_files px tdir ns" and "tdir \<in> set (px_dirs px)"
  shows "\<exists>ds. create_dir sy (pre @ join_path ns) px = (True, px\<lparr>px_dirs := ds @ px_dirs px\<rparr>) \<and>
    tdir @ ns \<in> set (ds @ px_dirs px) \<and> (\<forall>p \<in> set ds. \<exists>k. 0 < k \<and> k \<le> length ns \<and> p = tdir @ take k ns)"
  using assms
proof (induction ns rule: rev_induct)
  case (snoc n ns)
  let ?s = "pre @ join_path (ns @ [n])"
  have p: "path_of sy ?s = tdir @ ns @ [n]" "\<And>px. \<not> os_deny sy px ?s" and n: "n \<noteq> []" "CHR ''/'' \<notin> set n" and pre: "pre \<in> {[], ''/''}"
    using snoc.prems(2) by (auto simp: path_below_def dest!: spec [of _ "Suc (length ns)"])
  have nf: "px_files px (tdir @ ns @ [n]) = None" "px_pipes px (tdir @ ns @ [n]) = None"
    using snoc.prems(3) by (auto simp: not_files_def dest!: spec [of _ "Suc (length ns)"])
  have s0: "?s \<noteq> []" using n by (cases ns rule: join_path.cases) auto
  show ?case
  proof (cases "tdir @ ns @ [n] \<in> set (px_dirs px)")
    case True
    then have "stat sy px ?s = Some S_IFDIR" using p(1) s0 by (simp add: stat_def Let_def)
    then show ?thesis using True by (intro exI [of _ "[]"]) (simp add: create_dir_there)
  next
    case new: False
    then have st: "stat sy px ?s \<noteq> Some S_IFDIR" and occ: "\<not> occupied px (tdir @ ns @ [n])"
      using p(1) nf by (auto simp: stat_def Let_def occupied_def)
    show ?thesis
    proof (cases "tdir @ ns \<in> set (px_dirs px)")
      case True
      from mkdir_step [OF p(1) s0 p(2) True occ] show ?thesis using st
        by (intro exI [of _ "[tdir @ ns @ [n]]"]) (auto simp: create_dir.simps [of sy ?s] intro: exI [of _ "Suc (length ns)"])
    next
      case False
      then have ns: "ns \<noteq> []" using snoc.prems(4) by auto
      have nf': "not_files px tdir ns" by (rule not_files_butlast [OF snoc.prems(3)])
      obtain ds where c: "create_dir sy (pre @ join_path ns) px = (True, px\<lparr>px_dirs := ds @ px_dirs px\<rparr>)" "tdir @ ns \<in> set (ds @ px_dirs px)"
        "\<forall>p \<in> set ds. \<exists>k. 0 < k \<and> k \<le> length ns \<and> p = tdir @ take k ns"
        using snoc.IH [OF ns path_below_butlast [OF snoc.prems(2)] nf' snoc.prems(4)] by blast
      let ?px = "px\<lparr>px_dirs := ds @ px_dirs px\<rparr>"
      have s: "?s = (pre @ join_path ns) @ CHR ''/'' # n" using join_path_snoc [OF ns] by simp
      have r: "strrchr (CHR ''/'') ?s = Some (length (pre @ join_path ns))" unfolding s by (rule strrchr_append [OF n(2)])
      have "join_path ns \<noteq> []" using ns snoc.prems(2) by (cases ns rule: join_path.cases) (auto simp: path_below_def)
      then have i: "length (pre @ join_path ns) \<noteq> 0" "take (length (pre @ join_path ns)) ?s = pre @ join_path ns" unfolding s by simp_all
      have fail: "mkdir sy ?s px = None" using p(1) False by (simp add: mkdir_def butlast_append)
      have "tdir @ ns @ [n] \<notin> set ds" using c(3) by (auto dest!: bspec) (metis length_take length_append_singleton min.absorb2 not_less_eq_eq le_refl)
      then have occ': "\<not> occupied ?px (tdir @ ns @ [n])" using occ by (simp add: occupied_def)
      have "mkdir sy ?s ?px = Some (?px\<lparr>px_dirs := (tdir @ ns @ [n]) # px_dirs ?px\<rparr>)"
        by (rule mkdir_step [OF p(1) s0 p(2) _ occ']) (use c(2) in simp)
      then have "create_dir sy ?s px = (True, px\<lparr>px_dirs := ((tdir @ ns @ [n]) # ds) @ px_dirs px\<rparr>)"
        using st fail r i c(1) by (subst create_dir.simps) simp
      moreover have "\<exists>k. 0 < k \<and> k \<le> length (ns @ [n]) \<and> p = tdir @ take k (ns @ [n])" if p: "p \<in> set ((tdir @ ns @ [n]) # ds)" for p
      proof (cases "p \<in> set ds")
        case True
        then obtain k where "0 < k" "k \<le> length ns" "p = tdir @ take k ns" using c(3) by blast
        then show ?thesis by (intro exI [of _ k]) simp
      next
        case False
        then show ?thesis using p by (intro exI [of _ "Suc (length ns)"]) simp
      qed
      ultimately show ?thesis by (intro exI [of _ "(tdir @ ns @ [n]) # ds"]) auto
    qed
  qed
qed simp

text \<open>C34. \<open>create_dir\<close> makes a directory with all the directories above it that are missing, and nothing else: it succeeds,
  the directory is there, the directories that were there before still are, and files are not touched.\<close>

theorem create_dir_makes_path:
  assumes "ns \<noteq> []" and "path_below sy pre tdir ns" and "not_files px tdir ns" and "tdir \<in> set (px_dirs px)"
  shows "\<exists>px'. create_dir sy (pre @ join_path ns) px = (True, px') \<and> px_files px' = px_files px \<and> px_pipes px' = px_pipes px \<and>
    stat sy px' (pre @ join_path ns) = Some S_IFDIR \<and> set (px_dirs px) \<subseteq> set (px_dirs px') \<and>
    (\<forall>p \<in> set (px_dirs px') - set (px_dirs px). \<exists>k. 0 < k \<and> k \<le> length ns \<and> p = tdir @ take k ns)"
proof -
  obtain ds where c: "create_dir sy (pre @ join_path ns) px = (True, px\<lparr>px_dirs := ds @ px_dirs px\<rparr>)"
    "tdir @ ns \<in> set (ds @ px_dirs px)" "\<forall>p \<in> set ds. \<exists>k. 0 < k \<and> k \<le> length ns \<and> p = tdir @ take k ns"
    using create_dir_path [OF assms] by blast
  have "path_of sy (pre @ join_path ns) = tdir @ ns" using assms(1,2) by (auto simp: path_below_def dest!: spec [of _ "length ns"])
  moreover have "join_path ns \<noteq> []" using assms(1,2) by (cases ns rule: join_path.cases) (auto simp: path_below_def)
  ultimately have "stat sy (px\<lparr>px_dirs := ds @ px_dirs px\<rparr>) (pre @ join_path ns) = Some S_IFDIR" using c(2) by (simp add: stat_def Let_def)
  then show ?thesis using c(1,3) by auto
qed

lemma demo_below: "path_below demo_os [] [] [''data'', ''run'', ''raw'']" "not_files (w_px demo_dir) [] [''data'', ''run'', ''raw'']"
proof -
  have k: "k = 1 \<or> k = 2 \<or> k = 3" if "0 < k" "k \<le> length [''data'', ''run'', ''raw'']" for k using that by auto
  have "path_of demo_os (join_path (take k [''data'', ''run'', ''raw''])) = take k [''data'', ''run'', ''raw'']"
    "px_files (w_px demo_dir) (take k [''data'', ''run'', ''raw'']) = None"
    if "0 < k" "k \<le> length [''data'', ''run'', ''raw'']" for k
    using k [OF that] by (elim disjE; simp add: demo_os_def demo_dir_def numeral_2_eq_2 numeral_3_eq_3)+
  then show "path_below demo_os [] [] [''data'', ''run'', ''raw'']" "not_files (w_px demo_dir) [] [''data'', ''run'', ''raw'']"
    by (simp_all add: path_below_def not_files_def) (simp_all add: demo_os_def demo_dir_def empty_posix_def)
qed

theorem create_dir_makes_path_witness:
  "\<exists>px'. create_dir demo_os ''data/run/raw'' (w_px demo_dir) = (True, px') \<and> stat demo_os px' ''data/run/raw'' = Some S_IFDIR"
  using create_dir_makes_path [OF _ demo_below] by (auto simp: demo_dir_def empty_posix_def)

text \<open>A path with a trailing \<open>/\<close> whose parent directory is missing: the directory is made, and \<open>create_dir\<close> reports a
  failure, because it makes the directory twice.\<close>

lemma create_dir_trailing_slash:
  assumes "ns \<noteq> []" and "path_below sy pre tdir (ns @ [n])" and "not_files px tdir (ns @ [n])" and "tdir \<in> set (px_dirs px)"
    and "path_of sy (pre @ join_path (ns @ [n]) @ ''/'') = tdir @ ns @ [n]"
    and "tdir @ ns \<notin> set (px_dirs px)" and "tdir @ ns @ [n] \<notin> set (px_dirs px)"
  shows "\<exists>px'. create_dir sy (pre @ join_path (ns @ [n]) @ ''/'') px = (False, px') \<and>
    stat sy px' (pre @ join_path (ns @ [n]) @ ''/'') = Some S_IFDIR"
proof -
  let ?d = "pre @ join_path (ns @ [n])" let ?s = "?d @ ''/''"
  obtain ds where c: "create_dir sy ?d px = (True, px\<lparr>px_dirs := ds @ px_dirs px\<rparr>)" "tdir @ ns @ [n] \<in> set (ds @ px_dirs px)"
    using create_dir_path [OF _ assms(2-4)] by auto
  let ?px = "px\<lparr>px_dirs := ds @ px_dirs px\<rparr>"
  have p: "path_of sy ?s = tdir @ ns @ [n]" using assms(5) by simp
  have r: "strrchr (CHR ''/'') ?s = Some (length ?d)" using strrchr_append [of "CHR ''/''" "[]" ?d] by simp
  have d: "?d \<noteq> []" using join_path_snoc [OF assms(1), of n] by simp
  have "stat sy px ?s \<noteq> Some S_IFDIR" "mkdir sy ?s px = None" "mkdir sy ?s ?px = None"
    using p assms(6,7) c(2) by (auto simp: stat_def mkdir_def occupied_def butlast_append Let_def)
  then have "create_dir sy ?s px = (False, ?px)" using r d c(1) by (subst create_dir.simps) auto
  moreover have "stat sy ?px ?s = Some S_IFDIR" using p c(2) by (simp add: stat_def Let_def)
  ultimately show ?thesis by auto
qed

section \<open>Reading and writing\<close>

text \<open>A file machine for both reading and writing: a read after a write closes the stream of the writer but keeps the
  pointer to it, and the next write uses the closed stream.\<close>

lemma file_rw_closed_stream:
  assumes "file_machine h D fd w" and "has_flag fd FFILE_READ" and "has_flag fd FFILE_WRITE" and "plain fd rdir tag"
    and "fd_fr fd = None" and "fd_fw fd = Some f" and "px_streams (w_px w) f \<noteq> None" and "f < px_next (w_px w)"
    and "stdio_progress (s_os S)" and "stat (s_os S) (w_px w) rdir = Some S_IFDIR" and "s = file_name rdir tag None (fd_file_ext fd)"
    and "\<forall>px. \<not> os_deny (s_os S) px s" and "stat (s_os S) (w_px w) s = Some S_IFREG"
    and "px_files (w_px w) (path_of (s_os S) s) = Some c" and "px_pipes (w_px w) (path_of (s_os S) s) = None" and "n < sz_max"
  shows "\<exists>st m w'. machine_desc_read S (call_filter S (Suc k)) h d n w = Some (st, m, w') \<and>
    (\<forall>buf j. 0 < j \<longrightarrow> machine_desc_write S (call_filter S (Suc k)) h buf j w' = None)"
proof -
  let ?px1 = "(w_px w)\<lparr>px_streams := (px_streams (w_px w))(f := None)\<rparr>"
  have st1: "stat (s_os S) ?px1 s = Some S_IFREG" using assms(13) stat_cong [of ?px1 "w_px w"] by simp
  obtain px2 where o2: "fopen_r (s_os S) s ?px1 = Some (Some (px_next (w_px w)), px2)" "reading px2 (px_next (w_px w)) c"
    using fopen_r_ok [of "s_os S" ?px1 s c] assms(12,14,15) st1 by auto
  have closed: "px_streams px2 f = None" using o2(1) assms(8) by (auto simp: fopen_r_def Let_def split: if_splits)
  let ?fd = "fd\<lparr>fd_fr := Some (px_next (w_px w))\<rparr>"
  have px: "w_px (in_call h w) = w_px w" and hp: "w_heap (in_call h w) = w_heap w" by (simp_all add: upd_desc_def)
  obtain b where b: "fd_file_tag fd = Some (b, tag)" using assms(4) by (auto simp: plain_def)
  have "open_file S FFILE_READ fd (in_call h w) = Some (True, ?fd, (in_call h w)\<lparr>w_px := px2\<rparr>)"
    using plain_dir [OF assms(4)] create_dir_there [OF assms(10)] assms(5-7,11) b o2(1) px
    by (auto simp: open_file_def open_read_def close_opt_def fclose_def)
  from file_read_fd_from [OF assms(9,16) this _ o2(2), of d] obtain px' st hp' where
    R: "file_read_fd S d n IO_DEFAULT_ALIGN fd (in_call h w) = Some (st, length (take n c), ?fd, (in_call h w)\<lparr>w_px := px', w_heap := hp'\<rparr>)"
      "\<forall>g. g \<noteq> px_next (w_px w) \<longrightarrow> px_streams px' g = px_streams px2 g" by auto
  from file_machine_read [OF assms(1,2) R(1), of k] obtain w' ms where
    r: "machine_desc_read S (call_filter S (Suc k)) h d n w = Some (st, length (take n c), w')" "w_px w' = px'"
      "desc_step h (D\<lparr>md_impl := IMPL_FILE ?fd, md_metrics := ms\<rparr>) hp' w w'" by blast
  have M: "file_machine h (D\<lparr>md_impl := IMPL_FILE ?fd, md_metrics := ms\<rparr>) ?fd w'" by (rule file_machine_step [OF assms(1) r(3)])
  have "px_streams (w_px w') f = None" using R(2) closed assms(8) r(2) by auto
  from closed_stream_write [OF M _ _ this, where S = S and k = k] assms(3,6) have "machine_desc_write S (call_filter S (Suc k)) h buf j w' = None" if "0 < j" for buf j
    using that by (simp add: has_flag_def del: call_filter.simps)
  then show ?thesis using r(1) by blast
qed

end
