(* ===== verification/Socket_Properties.thy ===== *)
theory Socket_Properties
  imports Machine_Setup Demo_World
begin

text \<open>
  The socket machine: a write is cut into datagrams of the payload size, and a read of the same length on the other
  side puts them together again.
\<close>

section \<open>Fragments\<close>

text \<open>Pieces of \<open>p\<close> bytes, the last one shorter.\<close>

function fragments :: "nat \<Rightarrow> byte list \<Rightarrow> byte list list" where
  "fragments p xs = (if xs = [] \<or> p = 0 then [] else take p xs # fragments p (drop p xs))"
  by pat_completeness auto
termination by (relation "measure (\<lambda>(p, xs). length xs)") auto

declare fragments.simps [simp del]

lemma fragments_step: "xs \<noteq> [] \<Longrightarrow> 0 < p \<Longrightarrow> fragments p xs = take p xs # fragments p (drop p xs)"
  by (subst fragments.simps) simp

lemma fragments_Nil [simp]: "fragments p [] = []"
  by (subst fragments.simps) simp

lemma fragments_bound: "d \<in> set (fragments p xs) \<Longrightarrow> d \<noteq> [] \<and> length d \<le> p"
proof (induction p xs rule: fragments.induct)
  case (1 p xs)
  then show ?case by (subst (asm) (2) fragments.simps) (auto split: if_splits)
qed

lemma fragments_concat: "0 < p \<Longrightarrow> concat (fragments p xs) = xs"
proof (induction p xs rule: fragments.induct)
  case (1 p xs)
  then show ?case by (subst fragments.simps) auto
qed

section \<open>The loops\<close>

text \<open>The network accepts what is sent and delivers what has arrived.\<close>

definition network_ok :: "os \<Rightarrow> bool" where
  "network_ok sy \<longleftrightarrow> (\<forall>px f n. os_sent sy px f n) \<and> (\<forall>px f. os_received sy px f)"

lemma udp_write_loop_ok:
  assumes "network_ok sy" and "px_inbox px (sk_fd sk) \<noteq> None" and "0 < sk_payload_size sk" and "t + n < sz_max"
  shows "udp_write_loop sy sk m buf n t px = Some (Some (t + n), px\<lparr>px_sent := px_sent px @
    map (\<lambda>d. (sk_fd sk, sk_ip sk, sk_port sk, d)) (fragments (sk_payload_size sk) (mem_read m buf n))\<rparr>)"
  using assms(2-4)
proof (induction n arbitrary: px buf t rule: less_induct)
  case (less n)
  show ?case
  proof (cases "n = 0")
    case True
    then show ?thesis by (subst udp_write_loop.simps) simp
  next
    case False
    let ?p = "sk_payload_size sk" and ?b = "min n (sk_payload_size sk)"
    let ?px = "px\<lparr>px_sent := px_sent px @ [(sk_fd sk, sk_ip sk, sk_port sk, mem_read m buf ?b)]\<rparr>"
    have b: "0 < ?b" "?b \<le> n" "n - ?b < n" using False less.prems(2) by auto
    have "(if n > ?p then ?p else n) = ?b" by auto
    moreover have "sendto sy (sk_fd sk) (mem_read m buf ?b) (sk_ip sk) (sk_port sk) px = (Some ?b, ?px)"
      using assms(1) less.prems(1) by (simp add: sendto_def network_ok_def)
    moreover have "sz_sub n ?b = n - ?b" "sz_add t ?b = t + ?b" using b(2) less.prems(3) by (simp_all add: sz_sub_exact sz_add_exact)
    ultimately have step: "udp_write_loop sy sk m buf n t px = udp_write_loop sy sk m (buf + ?b) (n - ?b) (t + ?b) ?px"
      using False by (subst udp_write_loop.simps) (simp only: Let_def if_False split_conv option.case)
    have ne: "mem_read m buf n \<noteq> []" using False by (metis length_mem_read list.size(3))
    have fr: "fragments ?p (mem_read m buf n) = mem_read m buf ?b # fragments ?p (mem_read m (buf + ?b) (n - ?b))"
      using fragments_step [OF ne less.prems(2)] mem_read_take [OF b(2), of m buf] mem_read_drop [OF b(2), of m buf]
      by (auto simp: min_def split: if_splits)
    have "px_inbox ?px (sk_fd sk) \<noteq> None" "t + ?b + (n - ?b) < sz_max" using less.prems b(2) by simp_all
    from less.IH [OF b(3) this(1) less.prems(2) this(2), of "buf + ?b"] show ?thesis unfolding step fr using b(2) by simp
  qed
qed

lemma udp_read_loop_ok:
  assumes "network_ok sy" and "\<not> sk_lock sk" and "px_inbox px (sk_fd sk) = Some (fragments (sk_payload_size sk) xs @ rest)"
    and "0 < sk_payload_size sk" and "buf + length xs < sz_max" and "t + length xs < sz_max"
  shows "\<exists>px'. udp_read_loop sy sk bytes buf (length xs) t m px = Some (bytes, mem_write m buf xs, px') \<and>
    px_inbox px' (sk_fd sk) = Some rest"
  using assms(3-6)
proof (induction xs arbitrary: px buf t m rule: length_induct)
  case (1 xs)
  let ?p = "sk_payload_size sk"
  show ?case
  proof (cases "xs = []")
    case True
    then show ?thesis using "1.prems"(1) by (subst udp_read_loop.simps) simp
  next
    case False
    let ?b = "min (length xs) ?p" let ?px = "px\<lparr>px_inbox := (px_inbox px)(sk_fd sk \<mapsto> fragments ?p (drop ?p xs) @ rest)\<rparr>"
    have fr: "fragments ?p xs = take ?p xs # fragments ?p (drop ?p xs)" by (rule fragments_step [OF False "1.prems"(2)])
    have b: "0 < ?b" "?b \<le> length xs" "take ?b (take ?p xs) = take ?p xs" "length (take ?p xs) = ?b"
      using False "1.prems"(2) by (auto simp: min_def)
    have "(if length xs > ?p then ?p else length xs) = ?b" by auto
    moreover have "recvfrom sy (sk_fd sk) ?b px = Some (Some (take ?p xs), ?px)"
      using assms(1) "1.prems"(1) fr b(3) by (simp add: recvfrom_def network_ok_def)
    moreover have "sz_sub (length xs) ?b = length (drop ?p xs)" "sz_add t ?b = t + ?b" "ptr_add buf ?b = buf + ?b"
      using b(2) "1.prems"(3,4) by (simp_all add: sz_sub_exact sz_add_exact ptr_add_def min_def)
    ultimately have step: "udp_read_loop sy sk bytes buf (length xs) t m px =
        udp_read_loop sy sk bytes (buf + ?b) (length (drop ?p xs)) (t + ?b) (mem_write m buf (take ?p xs)) ?px"
      using False b(3,4) assms(2) by (subst udp_read_loop.simps) (simp add: as_size_def Let_def b(1) [THEN gr_implies_not0])
    have "take ?p xs @ drop ?p xs = xs" by simp
    then have mm: "mem_write (mem_write m buf (take ?p xs)) (buf + ?b) (drop ?p xs) = mem_write m buf xs"
      using mem_write_append [of m buf "take ?p xs" "drop ?p xs"] b(4) by simp
    have "length (drop ?p xs) < length xs" "px_inbox ?px (sk_fd sk) = Some (fragments ?p (drop ?p xs) @ rest)"
      "buf + ?b + length (drop ?p xs) < sz_max" "t + ?b + length (drop ?p xs) < sz_max" using False "1.prems" by auto
    with "1.IH" "1.prems"(2) show ?thesis unfolding step mm [symmetric] by blast
  qed
qed

section \<open>Calls through the machine\<close>

lemma find_upd_sock:
  assumes "\<And>s. sk_handle (g s) = sk_handle s"
  shows "find (\<lambda>s. sk_handle s = h) (upd_sock h g ss) = map_option g (find (\<lambda>s. sk_handle s = h) ss)"
  by (induction ss) (simp_all add: assms)

lemma upd_sock_undo: "upd_sock h (\<lambda>s. s\<lparr>sk_in_use := sk_in_use s - 1\<rparr>) (upd_sock h (\<lambda>s. s\<lparr>sk_in_use := sk_in_use s + 1\<rparr>) ss) = ss"
  by (induction ss) simp_all

text \<open>Socket \<open>h\<close> can be used.\<close>

definition socket_machine :: "io_handle \<Rightarrow> sock_desc \<Rightarrow> world \<Rightarrow> bool" where
  "socket_machine h sk w \<longleftrightarrow> \<not> w_sock_list_lock w \<and> find (\<lambda>s. sk_handle s = h) (w_socks w) = Some sk \<and> \<not> sk_lock sk \<and>
     px_inbox (w_px w) (sk_fd sk) \<noteq> None \<and> 0 < sk_payload_size sk"

lemma sock_write_ok:
  assumes M: "socket_machine h sk w" "sk_io_write sk = Some io" "end_filter FN_UDP_WRITE h (io_obj io) w"
    and E: "network_ok (s_os S)" "n < sz_max"
  shows "sock_write (call_filter S (Suc k)) h buf n w = Some (IO_SUCCESS, n, w\<lparr>w_px := (w_px w)\<lparr>px_sent := px_sent (w_px w) @
    map (\<lambda>d. (sk_fd sk, sk_ip sk, sk_port sk, d)) (fragments (sk_payload_size sk) (mem_read (mem (w_heap w)) buf n))\<rparr>\<rparr>)"
proof -
  let ?i = "\<lambda>s. s\<lparr>sk_in_use := sk_in_use s + 1\<rparr>" let ?w1 = "w\<lparr>w_socks := upd_sock h ?i (w_socks w)\<rparr>"
  have f: "find (\<lambda>s. sk_handle s = h) (w_socks ?w1) = Some (?i sk)" using M(1) by (simp add: find_upd_sock socket_machine_def)
  have "end_filter FN_UDP_WRITE h (io_obj io) ?w1" using M(3) by (simp add: end_filter_def)
  from end_filterD [OF this] obtain x where x: "get_filter (io_obj io) ?w1 = Some x" "f_call x = FN_UDP_WRITE" "handle_of (io_obj io) ?w1 = Some h"
    by blast
  let ?px = "(w_px w)\<lparr>px_sent := px_sent (w_px w) @
    map (\<lambda>d. (sk_fd sk, sk_ip sk, sk_port sk, d)) (fragments (sk_payload_size sk) (mem_read (mem (w_heap w)) buf n))\<rparr>"
  have "udp_write_loop (s_os S) (?i sk) (mem (w_heap w)) buf n 0 (w_px w) = Some (Some n, ?px)"
    using udp_write_loop_ok [OF E(1), of "w_px w" "?i sk" 0 n "mem (w_heap w)" buf] M(1) E(2) by (simp add: socket_machine_def)
  then have "call_filter S (Suc k) (io_obj io) buf n IO_NO_BLOCK IO_DEFAULT_ALIGN ?w1 = Some (IO_SUCCESS, n, ?w1\<lparr>w_px := ?px\<rparr>)"
    using x f M(1) by (simp add: filter_body_def udp_write_def get_socket_def socket_machine_def)
  then show ?thesis using M(1,2) f
    by (simp add: sock_write_def get_socket_def acquire_socket_def release_socket_def socket_machine_def upd_sock_undo del: call_filter.simps)
qed

lemma sock_read_ok:
  assumes M: "socket_machine h sk w" "sk_io_read sk = Some io" "end_filter FN_UDP_READ h (io_obj io) w"
    and E: "network_ok (s_os S)" "buf + length xs < sz_max" and b: "px_inbox (w_px w) (sk_fd sk) = Some (fragments (sk_payload_size sk) xs @ rest)"
  shows "\<exists>w'. sock_read (call_filter S (Suc k)) h buf (length xs) w = Some (IO_SUCCESS, length xs, w') \<and>
    mem_read (mem (w_heap w')) buf (length xs) = xs \<and> px_inbox (w_px w') (sk_fd sk) = Some rest"
proof -
  let ?i = "\<lambda>s. s\<lparr>sk_in_use := sk_in_use s + 1\<rparr>" let ?w1 = "w\<lparr>w_socks := upd_sock h ?i (w_socks w)\<rparr>"
  have f: "find (\<lambda>s. sk_handle s = h) (w_socks ?w1) = Some (?i sk)" using M(1) by (simp add: find_upd_sock socket_machine_def)
  have "end_filter FN_UDP_READ h (io_obj io) ?w1" using M(3) by (simp add: end_filter_def)
  from end_filterD [OF this] obtain x where x: "get_filter (io_obj io) ?w1 = Some x" "f_call x = FN_UDP_READ" "handle_of (io_obj io) ?w1 = Some h"
    by blast
  from udp_read_loop_ok [OF E(1), of "?i sk" "w_px w" xs rest buf 0 "length xs" "mem (w_heap w)"] M(1) E(2) b obtain px' where
    r: "udp_read_loop (s_os S) (?i sk) (length xs) buf (length xs) 0 (mem (w_heap w)) (w_px w) = Some (length xs, mem_write (mem (w_heap w)) buf xs, px')"
      "px_inbox px' (sk_fd sk) = Some rest" by (auto simp: socket_machine_def)
  let ?w' = "w\<lparr>w_px := px', w_heap := (w_heap w)\<lparr>mem := mem_write (mem (w_heap w)) buf xs\<rparr>\<rparr>"
  have "call_filter S (Suc k) (io_obj io) buf (length xs) IO_NO_BLOCK IO_DEFAULT_ALIGN ?w1 =
      Some (IO_SUCCESS, length xs, ?w'\<lparr>w_socks := upd_sock h ?i (w_socks w)\<rparr>)"
    using x f M(1) r(1) by (simp add: filter_body_def udp_read_def get_socket_def socket_machine_def)
  then have "sock_read (call_filter S (Suc k)) h buf (length xs) w = Some (IO_SUCCESS, length xs, ?w')" using M(1,2) f
    by (simp add: sock_read_def get_socket_def acquire_socket_def release_socket_def socket_machine_def upd_sock_undo del: call_filter.simps)
  then show ?thesis using r(2) by (simp add: mem_simps)
qed

text \<open>C18. A write to a client socket is cut into datagrams of at most the payload size, which carry its bytes in order; if they
  arrive at a server socket with the same payload size, a read of the same length gives back the bytes that
  were written.\<close>

theorem udp_roundtrip:
  assumes "network_ok (s_os S)" and "n < sz_max" and "socket_machine h sk w" and "sk_io_write sk = Some io"
    and "end_filter FN_UDP_WRITE h (io_obj io) w" and "xs = mem_read (mem (w_heap w)) buf n" and "ds = fragments (sk_payload_size sk) xs"
  shows "\<exists>w'. sock_write (call_filter S (Suc k)) h buf n w = Some (IO_SUCCESS, n, w') \<and>
    px_sent (w_px w') = px_sent (w_px w) @ map (\<lambda>d. (sk_fd sk, sk_ip sk, sk_port sk, d)) ds \<and>
    (\<forall>d \<in> set ds. d \<noteq> [] \<and> length d \<le> sk_payload_size sk) \<and> concat ds = xs \<and>
    (\<forall>h2 sk2 v io2 b rest. socket_machine h2 sk2 v \<and> sk_io_read sk2 = Some io2 \<and> end_filter FN_UDP_READ h2 (io_obj io2) v \<and>
       sk_payload_size sk2 = sk_payload_size sk \<and> px_inbox (w_px v) (sk_fd sk2) = Some (ds @ rest) \<and> b + n < sz_max \<longrightarrow>
       (\<exists>v'. sock_read (call_filter S (Suc k)) h2 b n v = Some (IO_SUCCESS, n, v') \<and>
          mem_read (mem (w_heap v')) b n = xs \<and> px_inbox (w_px v') (sk_fd sk2) = Some rest))"
proof -
  have p: "0 < sk_payload_size sk" using assms(3) by (simp add: socket_machine_def)
  have n: "length xs = n" using assms(6) by simp
  note wr = sock_write_ok [OF assms(3-5,1,2), of k buf]
  have "\<exists>v'. sock_read (call_filter S (Suc k)) h2 b n v = Some (IO_SUCCESS, n, v') \<and> mem_read (mem (w_heap v')) b n = xs \<and>
      px_inbox (w_px v') (sk_fd sk2) = Some rest"
    if "socket_machine h2 sk2 v" "sk_io_read sk2 = Some io2" "end_filter FN_UDP_READ h2 (io_obj io2) v"
      "sk_payload_size sk2 = sk_payload_size sk" "px_inbox (w_px v) (sk_fd sk2) = Some (ds @ rest)" "b + n < sz_max" for h2 sk2 v io2 b rest
    using sock_read_ok [OF that(1-3) assms(1), of b xs rest k] that(4-6) assms(7) n by (simp del: call_filter.simps)
  then show ?thesis using wr assms(6,7) fragments_bound [of _ "sk_payload_size sk" xs] fragments_concat [OF p]
    by (intro exI [of _ "w\<lparr>w_px := (w_px w)\<lparr>px_sent := px_sent (w_px w) @ map (\<lambda>d. (sk_fd sk, sk_ip sk, sk_port sk, d)) ds\<rparr>\<rparr>"])
      (simp del: call_filter.simps)
qed

text \<open>A client with handle 1 on descriptor 3 and a server with handle 1 on the same number in another process.\<close>

definition demo_client :: world where
  "demo_client = (case new_udp_client_machine demo_sys 2130706433 5000 (empty_world\<lparr>w_heap := empty_heap\<lparr>live := [(1, 64)],
     mem := mem_write (mem empty_heap) 20 [7, 8, 9]\<rparr>\<rparr>) of Some (h, w) \<Rightarrow> w | None \<Rightarrow> empty_world)"

definition demo_server :: world where
  "demo_server = (case new_udp_server_machine demo_sys 2130706433 5000 empty_world of
     Some (h, w) \<Rightarrow> w\<lparr>w_px := (w_px w)\<lparr>px_inbox := [3 \<mapsto> [[7, 8, 9]]]\<rparr>\<rparr> | None \<Rightarrow> empty_world)"

lemmas socket_defs = new_udp_client_machine_def new_udp_server_machine_def new_socket_machine_def get_sock_machine_def create_sock_def
  init_filters_def sock_filter_def socket_def add_socket_def demo_os_def empty_posix_def sizeof_io_handle_def sizeof_sock_desc_def UDP_PACKET_SIZE_def

lemma demo_client_parts:
  "\<exists>sk io. socket_machine 1 sk demo_client \<and> sk_io_write sk = Some io \<and> end_filter FN_UDP_WRITE 1 (io_obj io) demo_client \<and> sk_fd sk = 3 \<and>
     sk_ip sk = 2130706433 \<and> sk_port sk = 5000 \<and> sk_payload_size sk = 1472"
  by (simp add: demo_client_def socket_defs setup_defs socket_machine_def end_filter_def handle_of_def)

lemma demo_server_parts:
  "\<exists>sk io. socket_machine 1 sk demo_server \<and> sk_io_read sk = Some io \<and> end_filter FN_UDP_READ 1 (io_obj io) demo_server \<and> sk_fd sk = 3 \<and>
     sk_payload_size sk = 1472 \<and> px_inbox (w_px demo_server) 3 = Some [[7, 8, 9]]"
  by (simp add: demo_server_def socket_defs setup_defs socket_machine_def end_filter_def handle_of_def)

lemma demo_client_bytes: "mem_read (mem (w_heap demo_client)) 20 3 = [7, 8, 9]" "px_sent (w_px demo_client) = []"
  by (simp_all add: demo_client_def socket_defs setup_defs mem_read_def mem_write_def)

theorem udp_roundtrip_witness:
  "\<exists>w' v'. sock_write (call_filter demo_sys 1) 1 20 3 demo_client = Some (IO_SUCCESS, 3, w') \<and>
     px_sent (w_px w') = [(3, 2130706433, 5000, [7, 8, 9])] \<and>
     sock_read (call_filter demo_sys 1) 1 40 3 demo_server = Some (IO_SUCCESS, 3, v') \<and>
     mem_read (mem (w_heap v')) 40 3 = [7, 8, 9] \<and> px_inbox (w_px v') 3 = Some []"
proof -
  obtain sk io where c: "socket_machine 1 sk demo_client" "sk_io_write sk = Some io" "end_filter FN_UDP_WRITE 1 (io_obj io) demo_client"
    "sk_fd sk = 3" "sk_ip sk = 2130706433" "sk_port sk = 5000" "sk_payload_size sk = 1472" using demo_client_parts by blast
  obtain sk2 io2 where s: "socket_machine 1 sk2 demo_server" "sk_io_read sk2 = Some io2" "end_filter FN_UDP_READ 1 (io_obj io2) demo_server"
    "sk_fd sk2 = 3" "sk_payload_size sk2 = 1472" "px_inbox (w_px demo_server) 3 = Some [[7, 8, 9]]" using demo_server_parts by blast
  have f: "fragments 1472 [7, 8, 9] = [[7, 8, 9]]" by (subst fragments.simps) simp
  have n: "network_ok (s_os demo_sys)" by (simp add: network_ok_def demo_sys_def demo_os_def)
  from udp_roundtrip [OF n _ c(1-3) refl refl, of 3 0 20] obtain w' where w:
    "sock_write (call_filter demo_sys 1) 1 20 3 demo_client = Some (IO_SUCCESS, 3, w')" "px_sent (w_px w') = [(3, 2130706433, 5000, [7, 8, 9])]"
    and r: "\<And>h2 sk2 v io2 b rest. socket_machine h2 sk2 v \<and> sk_io_read sk2 = Some io2 \<and> end_filter FN_UDP_READ h2 (io_obj io2) v \<and>
       sk_payload_size sk2 = 1472 \<and> px_inbox (w_px v) (sk_fd sk2) = Some ([[7, 8, 9]] @ rest) \<and> b + 3 < sz_max \<Longrightarrow>
       \<exists>v'. sock_read (call_filter demo_sys 1) h2 b 3 v = Some (IO_SUCCESS, 3, v') \<and>
          mem_read (mem (w_heap v')) b 3 = [7, 8, 9] \<and> px_inbox (w_px v') (sk_fd sk2) = Some rest"
    unfolding demo_client_bytes c(4-7) f One_nat_def by (auto simp: sz_max_def simp del: call_filter.simps)
  from r [of 1 sk2 demo_server io2 "[]" 40] s w show ?thesis by (auto simp: sz_max_def simp del: call_filter.simps)
qed

end
