(* ===== verification/Sdr_Buffer.thy ===== *)
theory Sdr_Buffer
  imports Dispatch Ring_Fifo
begin

text \<open>
  Two threads on one ring of blocks: the invariant of \<open>read_from_buffer\<close>. Seen from the reader, the ring is a run of blocks
  with samples and then a run of empty blocks; the thread that fills the ring works on the first empty one. What the reader
  has delivered, what the ring holds and what the filling thread is about to hand over are, in this order, the samples of the
  radio. Every step of either thread keeps this, so it holds under every scheduler.
\<close>

section \<open>What a radio promises\<close>

definition chan_buf :: "io_handle \<Rightarrow> world \<Rightarrow> blb_rw option" where
  "chan_buf h w = do {
     d \<leftarrow> machine_get_desc h w;
     c \<leftarrow> chan_of d;
     sc_buffer c
   }"

text \<open>
  A radio read in blocks of \<open>B\<close> samples: \<open>src w\<close> are the bytes that it will give from state \<open>w\<close> on; \<open>ok\<close> says that it is in
  working order.
\<close>

locale sample_source =
  fixes hw_read :: sdr_rw and h :: io_handle and B :: nat and src :: "world \<Rightarrow> nat \<Rightarrow> byte" and ok :: "world \<Rightarrow> bool"
  assumes reads: "ok w \<Longrightarrow> \<exists>w'. hw_read h a B w = Some (IO_SUCCESS, B, w') \<and>
      w_heap w' = (w_heap w)\<lparr>mem := mem_write (mem (w_heap w)) a (map (src w) [0..<8 * B])\<rparr> \<and>
      src w' = (\<lambda>i. src w (8 * B + i)) \<and> ok w' \<and> chan_buf h w' = chan_buf h w"
    and other: "src (w\<lparr>w_heap := hp\<rparr>) = src w" "ok (w\<lparr>w_heap := hp\<rparr>) = ok w" "src (w\<lparr>w_turn := t\<rparr>) = src w" "ok (w\<lparr>w_turn := t\<rparr>) = ok w"
    and pointers: "ok w \<Longrightarrow> upd_chan h g w = Some w' \<Longrightarrow> (\<And>c. \<exists>x y. g c = c\<lparr>sc_buffer := x, sc_obj := y\<rparr>) \<Longrightarrow> src w' = src w \<and> ok w'"

section \<open>The ring\<close>

lemma mem_write_same: "mem_write m a (mem_read m a n) = m"
  by (auto simp: mem_write_def fun_eq_iff)

text \<open>The hardware writes into an empty block.\<close>

lemma ring_scribble:
  fixes st :: io_status
  assumes ring: "ring_blocks sz rp fs es h" and w: "w \<in> set es" and xs: "length xs \<le> sz"
  defines "h1 \<equiv> h\<lparr>mem := mem_write (mem h) (b_data (blk h w)) xs, blocks := (blocks h)(w \<mapsto> (blk h w)\<lparr>b_d_ret := st\<rparr>)\<rparr>"
  shows "ring_blocks sz rp fs es h1" and "contents h1 fs = contents h fs"
    and "outside d n sz h (fs @ es) \<Longrightarrow> outside d n sz h1 (fs @ es) \<and> mem_read (mem h1) d n = mem_read (mem h) d n"
proof -
  from ring have ir: "is_ring (nxt h) rp (fs @ es)" and ar: "areas sz h (fs @ es)" and fu: "full sz h fs"
    and em: "empty h es" and hk: "heap_ok h" by (simp_all add: ring_blocks_def)
  have bw: "blocks h w = Some (blk h w)" using is_ring_blk [OF ir] w by simp
  have wf: "w \<notin> set fs" using ir w by (auto simp: is_ring_def)
  have blk1: "blk h1 a = (if a = w then (blk h w)\<lparr>b_d_ret := st\<rparr> else blk h a)" for a by (simp add: h1_def blk_def)
  have nx1: "nxt h1 = nxt h" using bw by (auto simp: h1_def nxt_def fun_eq_iff)
  have "areas sz h1 (fs @ es)" using ar by (rule areas_cong) (auto simp: blk1 h1_def)
  moreover have "full sz h1 fs" "empty h1 es" using fu em wf by (auto simp: full_def empty_def blk1)
  moreover have "heap_ok h1" using hk by (rule heap_ok_mono) (use bw in \<open>auto simp: h1_def\<close>)
  ultimately show "ring_blocks sz rp fs es h1" using ir nx1 by (simp add: ring_blocks_def)
  have m1: "mem h1 = mem_write (mem h) (b_data (blk h w)) xs" by (simp add: h1_def)
  have "disj (b_data (blk h w)) (length xs) (b_data (blk h a)) (b_bytes (blk h a))" if "a \<in> set fs" for a
  proof -
    have "w \<noteq> a" using wf that by blast
    then have "disj (b_data (blk h w)) sz (b_data (blk h a)) sz" "b_bytes (blk h a) \<le> sz"
      using ar fu w that by (simp_all add: areas_def full_def)
    then show ?thesis using xs by (auto intro: disj_sub)
  qed
  then show "contents h1 fs = contents h fs" using wf by (intro contents_cong) (auto simp: blk1 m1 mem_simps)
  assume o: "outside d n sz h (fs @ es)"
  have "disj (b_data (blk h w)) (length xs) d n" using o w xs by (auto simp: outside_def disj_sym intro: disj_sub)
  then show "outside d n sz h1 (fs @ es) \<and> mem_read (mem h1) d n = mem_read (mem h) d n"
    using o by (simp add: outside_def blk1 m1 mem_simps)
qed

text \<open>
  The ring of \<open>N\<close> blocks of \<open>8 * B\<close> bytes between a reader at \<open>rp\<close> and a writer at \<open>wp\<close>: blocks \<open>fs\<close> with samples, all but the
  first of them full, and empty blocks \<open>es\<close>. The caller's buffer of \<open>n\<close> samples at \<open>d\<close> is elsewhere.
\<close>

definition sdr_ring :: "nat \<Rightarrow> nat \<Rightarrow> addr \<Rightarrow> nat \<Rightarrow> addr list \<Rightarrow> addr list \<Rightarrow> addr \<Rightarrow> addr \<Rightarrow> heap \<Rightarrow> bool" where
  "sdr_ring B N d n fs es rp wp hp \<longleftrightarrow> 0 < B \<and> 8 * B < sz_max \<and> 8 * n < sz_max \<and> length (fs @ es) = N \<and>
     ring_blocks (8 * B) rp fs es hp \<and> wp = hd (es @ fs) \<and> fs @ es \<noteq> [] \<and>
     (\<forall>a \<in> set fs. b_d_ret (blk hp a) = IO_SUCCESS \<and> b_bytes (blk hp a) mod 8 = 0) \<and>
     (\<forall>a \<in> set (tl fs). b_bytes (blk hp a) = 8 * B) \<and> outside d (8 * n) (8 * B) hp (fs @ es)"

lemma sdr_ring_heads:
  assumes "sdr_ring B N d n fs es rp wp hp"
  shows "rp = hd (fs @ es)" and "get_blk rp hp = Some (blk hp rp)" and "get_blk wp hp = Some (blk hp wp)"
    and "b_bytes (blk hp rp) = 0 \<longleftrightarrow> fs = []" and "b_bytes (blk hp wp) = 0 \<longleftrightarrow> es \<noteq> []" and "b_size (blk hp wp) = 8 * B"
proof -
  from assms have R: "is_ring (nxt hp) rp (fs @ es)" "areas (8 * B) hp (fs @ es)" "full (8 * B) hp fs" "empty hp es"
    "wp = hd (es @ fs)" "fs @ es \<noteq> []" by (simp_all add: sdr_ring_def ring_blocks_def)
  show rp: "rp = hd (fs @ es)" using is_ring_hd [OF R(1)] by simp
  have in_ring: "rp \<in> set (fs @ es)" "wp \<in> set (fs @ es)" using rp R(5,6) hd_in_set [of "es @ fs"] hd_in_set [of "fs @ es"] by auto
  show "get_blk rp hp = Some (blk hp rp)" "get_blk wp hp = Some (blk hp wp)"
    using is_ring_blk [OF R(1) in_ring(1)] is_ring_blk [OF R(1) in_ring(2)] by (simp_all add: get_blk_def)
  show "b_bytes (blk hp rp) = 0 \<longleftrightarrow> fs = []" using rp R(3,4,6) by (cases fs; cases es) (auto simp: full_def empty_def)
  show "b_bytes (blk hp wp) = 0 \<longleftrightarrow> es \<noteq> []" using R(3-6) by (cases fs; cases es) (auto simp: full_def empty_def)
  show "b_size (blk hp wp) = 8 * B" using R(2) in_ring(2) by (simp add: areas_def)
qed

text \<open>The filling thread reads from the hardware into its block, and then hands the block over.\<close>

lemma sdr_ring_fill:
  assumes R: "sdr_ring B N d n fs es rp wp hp" and es: "es \<noteq> []" and xs: "length xs = 8 * B"
  defines "hp1 \<equiv> hp\<lparr>mem := mem_write (mem hp) (b_data (blk hp wp)) xs, blocks := (blocks hp)(wp \<mapsto> (blk hp wp)\<lparr>b_d_ret := IO_SUCCESS\<rparr>)\<rparr>"
  shows "sdr_ring B N d n fs es rp wp hp1" and "contents hp1 fs = contents hp fs" and "mem_read (mem hp1) (b_data (blk hp1 wp)) (8 * B) = xs"
    and "b_d_ret (blk hp1 wp) = IO_SUCCESS" and "mem_read (mem hp1) d (8 * n) = mem_read (mem hp) d (8 * n)"
proof -
  have w: "wp \<in> set es" "ring_blocks (8 * B) rp fs es hp" "outside d (8 * n) (8 * B) hp (fs @ es)"
    using R es by (auto simp: sdr_ring_def)
  have blk1: "blk hp1 a = (if a = wp then (blk hp wp)\<lparr>b_d_ret := IO_SUCCESS\<rparr> else blk hp a)" for a by (simp add: hp1_def blk_def)
  have wf: "wp \<notin> set fs" using w by (auto simp: ring_blocks_def is_ring_def)
  have tl: "a \<in> set fs" if "a \<in> set (tl fs)" for a using that by (cases fs) auto
  note S = ring_scribble [OF w(2,1) xs [THEN eq_imp_le], where st = IO_SUCCESS, folded hp1_def]
  show "sdr_ring B N d n fs es rp wp hp1" using R S(1) S(3) [OF w(3)] wf tl by (auto simp: sdr_ring_def blk1)
  show "contents hp1 fs = contents hp fs" by (rule S(2))
  show "mem_read (mem hp1) (b_data (blk hp1 wp)) (8 * B) = xs" unfolding xs [symmetric] by (simp add: hp1_def mem_simps)
  show "b_d_ret (blk hp1 wp) = IO_SUCCESS" by (simp add: blk1)
  show "mem_read (mem hp1) d (8 * n) = mem_read (mem hp) d (8 * n)" using S(3) [OF w(3)] by simp
qed

lemma sdr_ring_store:
  assumes R: "sdr_ring B N d n fs es rp wp hp" and es: "es \<noteq> []" and st: "b_d_ret (blk hp wp) = IO_SUCCESS"
  defines "hp1 \<equiv> hp\<lparr>blocks := (blocks hp)(wp \<mapsto> (blk hp wp)\<lparr>b_bytes := 8 * B\<rparr>)\<rparr>"
  shows "sdr_ring B N d n (fs @ [wp]) (tl es) rp (b_next (blk hp wp)) hp1"
    and "contents hp1 (fs @ [wp]) = contents hp fs @ mem_read (mem hp) (b_data (blk hp wp)) (8 * B)"
proof -
  obtain es' where es': "es = wp # es'" using R es by (cases es) (auto simp: sdr_ring_def)
  have F: "0 < B" "ring_blocks (8 * B) rp fs (wp # es') hp" "outside d (8 * n) (8 * B) hp (fs @ wp # es')" using R es' by (auto simp: sdr_ring_def)
  let ?xs = "mem_read (mem hp) (b_data (blk hp wp)) (8 * B)"
  have "?xs \<noteq> []" "length ?xs \<le> 8 * B" using F(1) by (auto simp flip: length_0_conv)
  from fill_block [OF F(2) this] have fill: "ring_blocks (8 * B) rp (fs @ [wp]) es' hp1" "contents hp1 (fs @ [wp]) = contents hp fs @ ?xs"
    by (simp_all add: mem_write_same hp1_def)
  have ir: "is_ring (nxt hp) rp (fs @ wp # es')" using F(2) by (simp add: ring_blocks_def)
  have nx: "b_next (blk hp wp) = (if es' = [] then rp else hd es')" using ring_next [OF ir] is_ring_blk [OF ir, of wp] by (simp add: nxt_Some)
  have rp: "rp = hd (fs @ [wp])" if "es' = []" using is_ring_hd [OF ir] that by simp
  have blk1: "blk hp1 a = (if a = wp then (blk hp wp)\<lparr>b_bytes := 8 * B\<rparr> else blk hp a)" for a by (simp add: hp1_def blk_def)
  have "b_bytes (blk hp1 a) = 8 * B" if "a \<in> set (tl (fs @ [wp]))" for a
    using R that by (cases fs) (auto simp: sdr_ring_def blk1)
  moreover have "outside d (8 * n) (8 * B) hp1 ((fs @ [wp]) @ es')" using F(3) by (auto simp: outside_def blk1)
  moreover have "b_next (blk hp wp) = hd (es' @ fs @ [wp])" using nx rp by (cases es') auto
  ultimately show "sdr_ring B N d n (fs @ [wp]) (tl es) rp (b_next (blk hp wp)) hp1"
    using R fill(1) st by (auto simp: sdr_ring_def es' blk1)
  show "contents hp1 (fs @ [wp]) = contents hp fs @ ?xs" by (rule fill(2))
qed

text \<open>What a block of the filling thread holds, and its status.\<close>

definition block_data :: "nat \<Rightarrow> heap \<Rightarrow> addr \<Rightarrow> byte list \<times> io_status" where
  "block_data k hp a = (mem_read (mem hp) (b_data (blk hp a)) k, b_d_ret (blk hp a))"

lemma disj_within: "disj d n x k \<Longrightarrow> d \<le> d' \<Longrightarrow> d' + n' \<le> d + n \<Longrightarrow> x \<le> x' \<Longrightarrow> x' + k' \<le> x + k \<Longrightarrow> disj d' n' x' k'"
  by (auto simp: disj_def)

text \<open>The reader takes the first block whole, or the first part of it.\<close>

lemma sdr_ring_drain:
  assumes R: "sdr_ring B N d n (a # fs) es rp wp hp" and m: "m = b_bytes (blk hp a)" "8 * t + m \<le> 8 * n"
  defines "hp1 \<equiv> hp\<lparr>mem := mem_copy (mem hp) (d + 8 * t) (b_data (blk hp a)) m, blocks := (blocks hp)(a \<mapsto> (blk hp a)\<lparr>b_bytes := 0\<rparr>)\<rparr>"
  shows "sdr_ring B N d n fs (es @ [a]) (b_next (blk hp a)) wp hp1"
    and "mem_read (mem hp1) d (8 * t + m) @ contents hp1 fs = mem_read (mem hp) d (8 * t) @ contents hp (a # fs)"
    and "x \<in> set es \<Longrightarrow> block_data (8 * B) hp1 x = block_data (8 * B) hp x"
proof -
  have F: "ring_blocks (8 * B) rp (a # fs) es hp" "outside d (8 * n) (8 * B) hp (a # fs @ es)" using R by (simp_all add: sdr_ring_def)
  have "outside (d + 8 * t) (b_bytes (blk hp a)) (8 * B) hp (a # fs @ es)" using outside_sub [OF F(2)] m by simp
  note D = drain_block_any [OF F(1) this, folded m(1), folded hp1_def]
  have a: "a \<notin> set fs" "a \<notin> set es" using F(1) by (auto simp: ring_blocks_def is_ring_def)
  have tl: "x \<in> set fs" if "x \<in> set (tl fs)" for x using that by (cases fs) auto
  have blk1: "blk hp1 x = (if x = a then (blk hp a)\<lparr>b_bytes := 0\<rparr> else blk hp x)" for x by (simp add: hp1_def blk_def)
  have "outside d (8 * n) (8 * B) hp1 (fs @ es @ [a])" using F(2) by (auto simp: outside_def blk1)
  then show "sdr_ring B N d n fs (es @ [a]) (b_next (blk hp a)) wp hp1"
    using R D(1) a tl by (auto simp: sdr_ring_def blk1 hd_append)
  have "mem_read (mem hp1) d (8 * t) = mem_read (mem hp) d (8 * t)" by (simp add: hp1_def) (rule mem_read_copy_disj, simp add: disj_def)
  then show "mem_read (mem hp1) d (8 * t + m) @ contents hp1 fs = mem_read (mem hp) d (8 * t) @ contents hp (a # fs)"
    using D(2,3) m(1) by (simp add: mem_read_add)
  assume x: "x \<in> set es"
  have "disj d (8 * n) (b_data (blk hp x)) (8 * B)" using F(2) x by (simp add: outside_def)
  then have "disj (d + 8 * t) m (b_data (blk hp x)) (8 * B)" by (rule disj_within) (use m in auto)
  moreover have "x \<noteq> a" using a x by blast
  ultimately show "block_data (8 * B) hp1 x = block_data (8 * B) hp x"
    by (simp add: block_data_def blk1) (simp add: hp1_def mem_simps)
qed

lemma sdr_ring_part:
  assumes R: "sdr_ring B N d n (a # fs) es rp wp hp" and m: "0 < m" "m < b_bytes (blk hp a)" "m mod 8 = 0" "8 * t + m \<le> 8 * n"
  defines "k \<equiv> b_bytes (blk hp a) - m" and "y \<equiv> b_data (blk hp a)"
  defines "hp1 \<equiv> hp\<lparr>mem := mem_copy (mem_copy (mem hp) (d + 8 * t) y m) y (y + m) k, blocks := (blocks hp)(a \<mapsto> (blk hp a)\<lparr>b_bytes := k\<rparr>)\<rparr>"
  shows "sdr_ring B N d n (a # fs) es rp wp hp1"
    and "mem_read (mem hp1) d (8 * t + m) @ contents hp1 (a # fs) = mem_read (mem hp) d (8 * t) @ contents hp (a # fs)"
    and "x \<in> set es \<Longrightarrow> block_data (8 * B) hp1 x = block_data (8 * B) hp x"
proof -
  have F: "ring_blocks (8 * B) rp (a # fs) es hp" "outside d (8 * n) (8 * B) hp (a # fs @ es)" using R by (simp_all add: sdr_ring_def)
  have "outside (d + 8 * t) m (8 * B) hp (a # fs @ es)" using outside_sub [OF F(2)] m by simp
  note P = part_block_read [OF F(1) m(1,2) this, folded k_def y_def, folded hp1_def]
  have a: "a \<notin> set fs" "a \<notin> set es" using F(1) by (auto simp: ring_blocks_def is_ring_def)
  have blk1: "blk hp1 x = (if x = a then (blk hp a)\<lparr>b_bytes := k\<rparr> else blk hp x)" for x by (simp add: hp1_def blk_def)
  have sz: "b_bytes (blk hp a) \<le> 8 * B" using F(1) by (simp add: ring_blocks_def full_def)
  have k8: "k mod 8 = 0" using R m(2,3) by (auto simp: sdr_ring_def k_def mod_eq_0_iff_dvd)
  have "outside d (8 * n) (8 * B) hp1 (a # fs @ es)" using F(2) by (auto simp: outside_def blk1)
  then show "sdr_ring B N d n (a # fs) es rp wp hp1" using R P(1) a k8 by (auto simp: sdr_ring_def blk1)
  have d: "disj d (8 * n) y (8 * B)" using F(2) by (simp add: outside_def y_def)
  have "disj d (8 * t) y k" using d by (rule disj_within) (use m sz in \<open>auto simp: k_def\<close>)
  then have "disj y k d (8 * t)" by (simp add: disj_sym)
  moreover have "disj (d + 8 * t) m d (8 * t)" by (simp add: disj_def)
  ultimately have "mem_read (mem hp1) d (8 * t) = mem_read (mem hp) d (8 * t)" by (simp add: hp1_def mem_simps)
  moreover have "m \<le> length (contents hp (a # fs))" using m(2) by simp
  ultimately show "mem_read (mem hp1) d (8 * t + m) @ contents hp1 (a # fs) = mem_read (mem hp) d (8 * t) @ contents hp (a # fs)"
    unfolding mem_read_add P(2,3) by (simp only: append_assoc append_take_drop_id)
  assume x: "x \<in> set es"
  then have "x \<noteq> a" using a by blast
  then have "disj y (8 * B) (b_data (blk hp x)) (8 * B)" "disj d (8 * n) (b_data (blk hp x)) (8 * B)"
    using R x F(2) by (auto simp: sdr_ring_def ring_blocks_def areas_def outside_def y_def)
  then have "disj y k (b_data (blk hp x)) (8 * B)" "disj (d + 8 * t) m (b_data (blk hp x)) (8 * B)"
    using m sz by (auto intro: disj_within simp: k_def)
  with \<open>x \<noteq> a\<close> show "block_data (8 * B) hp1 x = block_data (8 * B) hp x"
    by (simp add: block_data_def blk1) (simp add: hp1_def mem_simps)
qed

section \<open>One step of the reader\<close>

text \<open>
  What a reader leaves in a block is moved to the front of the block by \<open>memcpy\<close>, which is defined only if no more is left than was taken.
  For a first block with \<open>k\<close> samples, further blocks of \<open>B\<close>, and \<open>r\<close> samples to read: the last block is used up, or at least half of what it
  holds is taken.
\<close>

definition half_ok :: "nat \<Rightarrow> nat \<Rightarrow> nat \<Rightarrow> bool" where
  "half_ok B k r \<longleftrightarrow> r = 0 \<or> (if r < k then k \<le> 2 * r else (r - k) mod B = 0 \<or> B \<le> 2 * ((r - k) mod B))"

lemma half_ok_done [simp]: "half_ok B k 0"
  by (simp add: half_ok_def)

lemma half_ok_next: "0 < B \<Longrightarrow> half_ok B B r = half_ok B 0 r"
  by (auto simp: half_ok_def le_mod_geq)

lemma half_ok_front: "half_ok B k r \<Longrightarrow> 0 < r \<Longrightarrow> k \<le> 2 * r"
  by (auto simp: half_ok_def split: if_splits)

lemma half_ok_take: "half_ok B k r \<Longrightarrow> k \<le> r \<Longrightarrow> half_ok B 0 (r - k)"
  by (auto simp: half_ok_def)

definition head_samples :: "heap \<Rightarrow> addr list \<Rightarrow> nat" where
  "head_samples hp fs = (case fs of [] \<Rightarrow> 0 | a # _ \<Rightarrow> b_bytes (blk hp a) div 8)"

lemma half_ok_tail:
  assumes "sdr_ring B N d n fs es rp wp hp" and "\<forall>a \<in> set fs. b_bytes (blk hp a) = 8 * B"
  shows "half_ok B (head_samples hp fs) r = half_ok B 0 r"
  using assms half_ok_next [of B r] by (cases fs) (auto simp: head_samples_def sdr_ring_def)

lemma half_ok_head_store:
  assumes R: "sdr_ring B N d n fs es rp wp hp" and es: "es \<noteq> []"
  shows "half_ok B (head_samples (hp\<lparr>blocks := (blocks hp)(wp \<mapsto> (blk hp wp)\<lparr>b_bytes := 8 * B\<rparr>)\<rparr>) (fs @ [wp])) r = half_ok B (head_samples hp fs) r"
proof (cases fs)
  case Nil
  then show ?thesis using R half_ok_next [of B r] by (simp add: sdr_ring_def head_samples_def blk_def)
next
  case (Cons a fs')
  then have "a \<noteq> wp" using R es by (auto simp: sdr_ring_def ring_blocks_def is_ring_def)
  then show ?thesis by (simp add: Cons head_samples_def blk_def)
qed

lemma read_copy_ok:
  assumes R: "sdr_ring B N d n fs es (bf_rp b) (bf_wp b) (w_heap w)" and fs: "fs \<noteq> []"
    and pos: "bf_data b = d + 8 * bf_total b" "bf_total b + bf_remaining b = n" "0 < bf_remaining b"
  defines "k \<equiv> b_bytes (blk (w_heap w) (bf_rp b)) div 8"
  assumes half: "k \<le> 2 * bf_remaining b"
  shows "\<exists>m fs' es' hp' rp'. read_copy (if bf_remaining b \<ge> k then k else bf_remaining b) b w =
      Some (b\<lparr>bf_data := d + 8 * (bf_total b + m), bf_remaining := bf_remaining b - m, bf_total := bf_total b + m, bf_rp := rp'\<rparr>,
        w\<lparr>w_heap := hp'\<rparr>) \<and> 0 < m \<and> m \<le> bf_remaining b \<and> sdr_ring B N d n fs' es' rp' (bf_wp b) hp' \<and>
    mem_read (mem hp') d (8 * (bf_total b + m)) @ contents hp' fs' = mem_read (mem (w_heap w)) d (8 * bf_total b) @ contents (w_heap w) fs \<and>
    length es' \<le> Suc (length es) \<and> (\<forall>x \<in> set es. block_data (8 * B) hp' x = block_data (8 * B) (w_heap w) x) \<and> set es \<subseteq> set es' \<and>
    (half_ok B (head_samples (w_heap w) fs) (bf_remaining b) \<longrightarrow> half_ok B (head_samples hp' fs') (bf_remaining b - m))"
proof -
  let ?hp = "w_heap w" and ?t = "bf_total b" and ?r = "bf_remaining b"
  define a where "a = bf_rp b"
  obtain fs1 where fs1: "fs = a # fs1" using sdr_ring_heads(1) [OF R] fs by (cases fs) (auto simp: a_def)
  note R1 = R [unfolded fs1]
  have ba: "get_blk a ?hp = Some (blk ?hp a)" using sdr_ring_heads(2) [OF R] by (simp add: a_def)
  then have bs: "blocks ?hp a = Some (blk ?hp a)" "a \<noteq> 0" by (auto simp: get_blk_def split: if_splits)
  have k: "b_bytes (blk ?hp a) = 8 * k" using R1 by (auto simp: sdr_ring_def k_def a_def)
  have sz: "8 * k \<le> 8 * B" "0 < k" "8 * B < sz_max" "8 * n < sz_max"
    using R1 k by (auto simp: sdr_ring_def ring_blocks_def full_def)
  have upd: "upd_heap_blk a g (w\<lparr>w_heap := ?hp\<lparr>mem := M\<rparr>\<rparr>) = Some (w\<lparr>w_heap := ?hp\<lparr>mem := M, blocks := (blocks ?hp)(a \<mapsto> g (blk ?hp a))\<rparr>\<rparr>)"
    for g M using bs by (simp add: upd_heap_blk_def upd_blk_def)
  have out: "disj d (8 * n) (b_data (blk ?hp a)) (8 * B)" using R1 by (simp add: sdr_ring_def outside_def)
  have head: "head_samples ?hp fs = k" by (simp add: head_samples_def fs1 k)
  show ?thesis
  proof (cases "?r \<ge> k")
    case True
    have arith: "sz_mul k sizeof_complex = 8 * k" "sz_sub ?r k = ?r - k" "sz_add ?t k = ?t + k" "sz_sub (8 * k) (8 * k) = 0"
      using True pos(2) sz by (simp_all add: sz_mul_exact sz_sub_exact sz_add_exact sizeof_complex_def mult.commute)
    have le: "8 * ?t + b_bytes (blk ?hp a) \<le> 8 * n" using True pos(2) k by simp
    note D = sdr_ring_drain [OF R1 refl le]
    let ?hp1 = "?hp\<lparr>mem := mem_copy (mem ?hp) (d + 8 * ?t) (b_data (blk ?hp a)) (8 * k), blocks := (blocks ?hp)(a \<mapsto> (blk ?hp a)\<lparr>b_bytes := 0\<rparr>)\<rparr>"
    have "disj (d + 8 * ?t) (8 * k) (b_data (blk ?hp a)) (8 * k)" using out by (rule disj_within) (use le k sz(1) in simp_all)
    then have step: "read_copy k b w = Some (b\<lparr>bf_data := d + 8 * (?t + k), bf_remaining := ?r - k, bf_total := ?t + k, bf_rp := b_next (blk ?hp a)\<rparr>,
        w\<lparr>w_heap := ?hp1\<rparr>)"
      using ba k arith pos(1) upd [of "b_bytes_update (\<lambda>_. 0)"] by (simp add: read_copy_def a_def [symmetric] Let_def copy_out_def distrib_left)
    have "8 * ?t + 8 * k = 8 * (?t + k)" by (rule distrib_left [symmetric])
    note D1 = D [unfolded k this, folded fs1]
    have "\<forall>x \<in> set fs1. b_bytes (blk ?hp1 x) = 8 * B" using R1 by (auto simp: sdr_ring_def ring_blocks_def is_ring_def blk_def)
    from half_ok_tail [OF D1(1) this, of "?r - k"]
    have h: "half_ok B (head_samples ?hp fs) ?r \<longrightarrow> half_ok B (head_samples ?hp1 fs1) (?r - k)" using half_ok_take True head by simp
    show ?thesis unfolding if_P [OF True]
      by (rule exI [of _ k], rule exI [of _ fs1], rule exI [of _ "es @ [a]"], rule exI [of _ ?hp1],
          rule exI [of _ "b_next (blk ?hp a)"], intro conjI ballI) (assumption | rule step D1 sz(2) True h | simp add: subset_insertI)+
  next
    case False
    let ?m = "8 * ?r"
    have arith: "sz_mul ?r sizeof_complex = ?m" "sz_sub ?r ?r = 0" "sz_add ?t ?r = ?t + ?r" "sz_sub (8 * k) ?m = 8 * k - ?m"
      using False pos(2) sz by (simp_all add: sz_mul_exact sz_sub_exact sz_add_exact sizeof_complex_def mult.commute)
    have m: "0 < ?m" "?m < b_bytes (blk ?hp a)" "?m mod 8 = 0" "8 * ?t + ?m \<le> 8 * n" using False pos(2,3) k by simp_all
    note P = sdr_ring_part [OF R1 m]
    let ?y = "b_data (blk ?hp a)"
    let ?hp1 = "?hp\<lparr>mem := mem_copy (mem_copy (mem ?hp) (d + 8 * ?t) ?y ?m) ?y (?y + ?m) (8 * k - ?m), blocks := (blocks ?hp)(a \<mapsto> (blk ?hp a)\<lparr>b_bytes := 8 * k - ?m\<rparr>)\<rparr>"
    have "disj (d + 8 * ?t) ?m ?y ?m" using out by (rule disj_within) (use m k sz(1) in simp_all)
    moreover have "disj ?y (8 * k - ?m) (?y + ?m) (8 * k - ?m)" using half by (auto simp: disj_def)
    ultimately have step: "read_copy ?r b w = Some (b\<lparr>bf_data := d + 8 * (?t + ?r), bf_remaining := ?r - ?r, bf_total := ?t + ?r, bf_rp := bf_rp b\<rparr>, w\<lparr>w_heap := ?hp1\<rparr>)"
      using ba k arith pos(1) m(2) upd [of "b_bytes_update (\<lambda>_. 8 * k - ?m)"]
      by (simp add: read_copy_def a_def [symmetric] Let_def copy_out_def distrib_left)
    have "8 * ?t + ?m = 8 * (?t + ?r)" by (rule distrib_left [symmetric])
    note P1 = P [unfolded k this, folded fs1]
    show ?thesis unfolding if_not_P [OF False]
      by (rule exI [of _ ?r], rule exI [of _ fs], rule exI [of _ es], rule exI [of _ ?hp1],
          rule exI [of _ "bf_rp b"], intro conjI ballI) (assumption | rule step P1 pos(3) | simp)+
  qed
qed

text \<open>A reader that takes less than half of a block moves the rest onto itself.\<close>

lemma read_copy_overlap:
  assumes R: "sdr_ring B N d n fs es (bf_rp b) (bf_wp b) (w_heap w)" and fs: "fs \<noteq> []"
    and pos: "bf_total b + bf_remaining b = n" "0 < bf_remaining b"
  defines "k \<equiv> b_bytes (blk (w_heap w) (bf_rp b)) div 8"
  assumes half: "2 * bf_remaining b < k"
  shows "read_copy (bf_remaining b) b w = None"
proof -
  let ?hp = "w_heap w" and ?r = "bf_remaining b" and ?a = "bf_rp b"
  have ba: "get_blk ?a ?hp = Some (blk ?hp ?a)" by (rule sdr_ring_heads(2) [OF R])
  then have "blocks ?hp ?a = Some (blk ?hp ?a)" "?a \<noteq> 0" by (auto simp: get_blk_def split: if_splits)
  moreover have "?a \<in> set fs" using sdr_ring_heads(1) [OF R] fs by simp
  then have k: "b_bytes (blk ?hp ?a) = 8 * k" "8 * k \<le> 8 * B" "8 * B < sz_max" "8 * n < sz_max"
    using R by (auto simp: sdr_ring_def ring_blocks_def full_def k_def)
  moreover have "sz_mul ?r sizeof_complex = 8 * ?r" "sz_sub (8 * k) (8 * ?r) = 8 * k - 8 * ?r"
    using half k pos by (simp_all add: sz_mul_exact sz_sub_exact sizeof_complex_def mult.commute)
  moreover have "\<not> disj x (8 * k - 8 * ?r) (x + 8 * ?r) (8 * k - 8 * ?r)" for x using half pos(2) by (auto simp: disj_def)
  moreover have "8 * ?r < 8 * k" using half by simp
  ultimately show ?thesis using ba
    by (simp add: read_copy_def copy_out_def Let_def upd_heap_blk_def upd_blk_def get_blk_def)
qed

section \<open>The invariant\<close>

lemma chan_of_Some [simp]: "chan_of d = Some c \<longleftrightarrow> md_impl d = IMPL_SDR c"
  by (auto simp: chan_of_def split: impl.splits)

lemma get_put_chan: "machine_get_desc h (put_chan h c w) = map_option (md_impl_update (\<lambda>_. IMPL_SDR c)) (machine_get_desc h w)"
  by (simp add: put_chan_def upd_desc_def machine_get_desc_def find_upd_first)

lemma upd_chan_ok:
  assumes "machine_get_desc h w = Some d" and "md_impl d = IMPL_SDR c"
  shows "upd_chan h g w = Some (put_chan h (g c) w)"
proof -
  have "chan_of d = Some c" using assms(2) by simp
  then show ?thesis using assms(1) by (simp add: upd_chan_def del: chan_of_Some)
qed

lemma chan_bufE:
  assumes "chan_buf h w = Some rw"
  obtains d c where "machine_get_desc h w = Some d" "md_impl d = IMPL_SDR c" "sc_buffer c = Some rw"
  using assms by (auto simp: chan_buf_def bind_eq_Some_conv)

lemma chan_bufI:
  assumes "machine_get_desc h w = Some d" and "md_impl d = IMPL_SDR c"
  shows "chan_buf h w = sc_buffer c"
  using assms by (simp add: chan_buf_def chan_of_def)

lemma put_rw_ok:
  assumes "chan_buf h w = Some rw"
  shows "\<exists>w'. put_rw h g w = Some w' \<and> chan_buf h w' = Some (g rw) \<and> w_heap w' = w_heap w"
proof -
  obtain d c where d: "machine_get_desc h w = Some d" "md_impl d = IMPL_SDR c" "sc_buffer c = Some rw" by (rule chan_bufE [OF assms])
  let ?w' = "put_chan h (c\<lparr>sc_buffer := Some (g rw)\<rparr>) w"
  have "chan_buf h ?w' = Some (g rw)" using d get_put_chan [of h _ w] by (simp add: chan_buf_def chan_of_def)
  moreover have "w_heap ?w' = w_heap w" by (simp add: put_chan_def upd_desc_def)
  ultimately show ?thesis using upd_chan_ok [OF d(1,2)] d(3) by (simp add: put_rw_def)
qed

lemma chan_buf_heap [simp]: "chan_buf h (w\<lparr>w_heap := hp\<rparr>) = chan_buf h w" "chan_buf h (w\<lparr>w_turn := t\<rparr>) = chan_buf h w"
  by (simp_all add: chan_buf_def machine_get_desc_def)

text \<open>What the filling thread has read from the hardware and not yet handed over.\<close>

definition pending :: "nat \<Rightarrow> buffered \<Rightarrow> heap \<Rightarrow> byte list" where
  "pending B b hp = (case bf_fill b of FILL_STORE k \<Rightarrow> fst (block_data (8 * B) hp (bf_wp b)) | _ \<Rightarrow> [])"

definition fill_ok :: "io_handle \<Rightarrow> nat \<Rightarrow> addr list \<Rightarrow> buffered \<Rightarrow> world \<Rightarrow> bool" where
  "fill_ok h B es b w = (case bf_fill b of
      FILL_TEST \<Rightarrow> True
    | FILL_READ \<Rightarrow> es \<noteq> []
    | FILL_STORE k \<Rightarrow> k = B \<and> es \<noteq> [] \<and> snd (block_data (8 * B) (w_heap w) (bf_wp b)) = IO_SUCCESS
    | FILL_EXIT st \<Rightarrow> st = IO_SUCCESS \<and> map_option rw_wp (chan_buf h w) = Some (bf_wp b))"

definition read_ok :: "io_handle \<Rightarrow> nat \<Rightarrow> buffered \<Rightarrow> world \<Rightarrow> bool" where
  "read_ok h n b w = (case bf_read b of
      READ_LOOP \<Rightarrow> bf_do_fill b \<and> bf_ret b = IO_ERROR
    | READ_JOIN \<Rightarrow> \<not> bf_do_fill b \<and> bf_remaining b = 0 \<and> bf_ret b = IO_SUCCESS \<and> map_option rw_rp (chan_buf h w) = Some (bf_rp b)
    | READ_DONE st k \<Rightarrow> st = IO_SUCCESS \<and> k = n \<and> bf_remaining b = 0 \<and> map_option rw_rp (chan_buf h w) = Some (bf_rp b) \<and>
        (\<exists>st. bf_fill b = FILL_EXIT st))"

text \<open>\<open>q\<close> is the beginning of the stream \<open>s\<close>, and \<open>r\<close> is the rest.\<close>

definition stream_at :: "(nat \<Rightarrow> byte) \<Rightarrow> byte list \<Rightarrow> (nat \<Rightarrow> byte) \<Rightarrow> bool" where
  "stream_at s q r \<longleftrightarrow> q = map s [0..<length q] \<and> r = (\<lambda>i. s (length q + i))"

lemma stream_at_more: "stream_at s q r \<Longrightarrow> stream_at s (q @ map r [0..<k]) (\<lambda>i. r (k + i))"
  unfolding stream_at_def
proof (elim conjE, intro conjI)
  assume q: "q = map s [0..<length q]" and r: "r = (\<lambda>i. s (length q + i))"
  have more: "map s [0..<length q + k] = map s [0..<length q] @ map r [0..<k]" by (rule nth_equalityI) (auto simp: r nth_append)
  have len: "length (q @ map r [0..<k]) = length q + k" by simp
  show "q @ map r [0..<k] = map s [0..<length (q @ map r [0..<k])]" unfolding len more by (simp only: q [symmetric])
  show "(\<lambda>i. r (k + i)) = (\<lambda>i. s (length (q @ map r [0..<k]) + i))" by (simp add: r add.assoc)
qed

text \<open>The bytes \<open>q\<close> and then those of \<open>r\<close>.\<close>

definition then_stream :: "byte list \<Rightarrow> (nat \<Rightarrow> byte) \<Rightarrow> nat \<Rightarrow> byte" where
  "then_stream q r i = (if i < length q then q ! i else r (i - length q))"

lemma stream_at_then: "stream_at s q r \<longleftrightarrow> s = then_stream q r"
proof
  assume "stream_at s q r"
  then have q: "q = map s [0..<length q]" and r: "r = (\<lambda>i. s (length q + i))" by (simp_all add: stream_at_def)
  have "q ! i = s i" if "i < length q" for i using arg_cong [OF q, of "\<lambda>l. l ! i"] that by simp
  then show "s = then_stream q r" using r by (auto simp: then_stream_def fun_eq_iff)
next
  assume "s = then_stream q r"
  then show "stream_at s q r" by (auto simp: stream_at_def then_stream_def fun_eq_iff intro: nth_equalityI)
qed

definition buffered_inv ::
    "(world \<Rightarrow> nat \<Rightarrow> byte) \<Rightarrow> io_handle \<Rightarrow> nat \<Rightarrow> nat \<Rightarrow> addr \<Rightarrow> nat \<Rightarrow> (nat \<Rightarrow> byte) \<Rightarrow> addr list \<Rightarrow> addr list \<Rightarrow> buffered \<Rightarrow> world \<Rightarrow> bool" where
  "buffered_inv src h B N d n s fs es b w \<longleftrightarrow> sdr_ring B N d n fs es (bf_rp b) (bf_wp b) (w_heap w) \<and> chan_buf h w \<noteq> None \<and>
     bf_data b = d + 8 * bf_total b \<and> bf_total b + bf_remaining b = n \<and> fill_ok h B es b w \<and> read_ok h n b w \<and>
     stream_at s (mem_read (mem (w_heap w)) d (8 * bf_total b) @ contents (w_heap w) fs @ pending B b (w_heap w)) (src w)"

text \<open>A measure of what is left to do, and when the reader can go on without the filling thread.\<close>

definition work :: "addr list \<Rightarrow> buffered \<Rightarrow> nat" where
  "work es b = 4 * bf_remaining b + 3 * length es +
     (case bf_fill b of FILL_TEST \<Rightarrow> 3 | FILL_READ \<Rightarrow> 2 | FILL_STORE k \<Rightarrow> 1 | FILL_EXIT st \<Rightarrow> 0) +
     (case bf_read b of READ_LOOP \<Rightarrow> 2 | READ_JOIN \<Rightarrow> 1 | READ_DONE st k \<Rightarrow> 0)"

definition fill_ended :: "buffered \<Rightarrow> bool" where
  "fill_ended b \<longleftrightarrow> (\<exists>st. bf_fill b = FILL_EXIT st)"

definition enough :: "addr list \<Rightarrow> buffered \<Rightarrow> world \<Rightarrow> bool" where
  "enough fs b w \<longleftrightarrow> (fill_ended b \<and> bf_read b = READ_LOOP \<longrightarrow> 8 * bf_remaining b \<le> length (contents (w_heap w) fs))"

text \<open>No \<open>memcpy\<close> of the reader overlaps: in the next step, and to the end.\<close>

definition fits :: "addr list \<Rightarrow> buffered \<Rightarrow> world \<Rightarrow> bool" where
  "fits fs b w \<longleftrightarrow> (bf_read b = READ_LOOP \<and> 0 < bf_remaining b \<longrightarrow> head_samples (w_heap w) fs \<le> 2 * bf_remaining b)"

definition halves :: "nat \<Rightarrow> addr list \<Rightarrow> buffered \<Rightarrow> world \<Rightarrow> bool" where
  "halves B fs b w \<longleftrightarrow> (bf_read b = READ_LOOP \<longrightarrow> half_ok B (head_samples (w_heap w) fs) (bf_remaining b))"

lemma halves_fits: "halves B fs b w \<Longrightarrow> fits fs b w"
  by (auto simp: halves_def fits_def dest: half_ok_front)

lemma length_contents_full:
  assumes "sdr_ring B N d n fs [] rp wp hp"
  shows "8 * ((N - 1) * B) \<le> length (contents hp fs)"
proof -
  obtain a fs' where fs: "fs = a # fs'" using assms by (cases fs) (auto simp: sdr_ring_def)
  have "\<forall>x \<in> set fs'. b_bytes (blk hp x) = 8 * B" "length fs' = N - 1" using assms fs by (auto simp: sdr_ring_def)
  then have "(\<Sum>x\<leftarrow>fs'. b_bytes (blk hp x)) = (N - 1) * (8 * B)" by (simp add: sum_list_triv cong: map_cong)
  then show ?thesis by (simp add: fs length_contents)
qed

section \<open>Every step keeps the invariant\<close>

context sample_source
begin

lemma put_rw_frame:
  assumes "ok w" and "put_rw h g w = Some w'"
  shows "src w' = src w \<and> ok w'"
  using assms unfolding put_rw_def by (rule pointers) (metis sdr_channel.surjective sdr_channel.update_convs(10,11))

text \<open>The outcome of a step from \<open>(b, w)\<close>: the invariant holds again, and there is less work left unless nothing was done.\<close>

definition step_to :: "nat \<Rightarrow> addr \<Rightarrow> nat \<Rightarrow> (nat \<Rightarrow> byte) \<Rightarrow> addr list \<Rightarrow> addr list \<Rightarrow> buffered \<times> world \<Rightarrow> buffered \<times> world \<Rightarrow> bool" where
  "step_to N d n s fs es = (\<lambda>(b, w) (b', w'). \<exists>fs' es'. ok w' \<and> buffered_inv src h B N d n s fs' es' b' w' \<and> work es' b' < work es b \<and>
     (n \<le> (N - 1) * B \<longrightarrow> enough fs b w \<longrightarrow> enough fs' b' w') \<and> (halves B fs b w \<longrightarrow> halves B fs' b' w'))"

lemma step_toI:
  assumes "ok w'" and "buffered_inv src h B N d n s fs' es' b' w'" and "work es' b' < work es b"
    and "n \<le> (N - 1) * B \<Longrightarrow> enough fs b w \<Longrightarrow> enough fs' b' w'" and "halves B fs b w \<Longrightarrow> halves B fs' b' w'"
  shows "step_to N d n s fs es (b, w) (b', w')"
  using assms unfolding step_to_def by blast

lemma fill_test_ok:
  assumes I: "buffered_inv src h B N d n s fs es b w" and W: "ok w" and pc: "bf_fill b = FILL_TEST"
  shows "\<exists>y. fill_step hw_read h (b, w) = Some y \<and> step_to N d n s fs es (b, w) y"
proof -
  have R: "sdr_ring B N d n fs es (bf_rp b) (bf_wp b) (w_heap w)" using I by (simp add: buffered_inv_def)
  note hd = sdr_ring_heads [OF R]
  show ?thesis
  proof (cases "bf_do_fill b \<and> es \<noteq> []")
    case True
    then have "fill_step hw_read h (b, w) = Some (b\<lparr>bf_fill := FILL_READ\<rparr>, w)" using pc hd(3,5) by (simp add: fill_step_def)
    moreover have "buffered_inv src h B N d n s fs es (b\<lparr>bf_fill := FILL_READ\<rparr>) w"
      using I True pc by (simp add: buffered_inv_def fill_ok_def read_ok_def pending_def cong: read_pc.case_cong)
    ultimately show ?thesis using W pc by (auto simp: step_to_def work_def enough_def fill_ended_def halves_def)
  next
    case False
    obtain rw where "chan_buf h w = Some rw" using I by (auto simp: buffered_inv_def)
    from put_rw_ok [OF this, of "rw_wp_update (\<lambda>_. bf_wp b)"] obtain w' where
      p: "put_rw h (rw_wp_update (\<lambda>_. bf_wp b)) w = Some w'" "chan_buf h w' = Some (rw\<lparr>rw_wp := bf_wp b\<rparr>)" "w_heap w' = w_heap w" by auto
    have W': "ok w'" "src w' = src w" using put_rw_frame [OF W p(1)] by simp_all
    let ?b = "b\<lparr>bf_fill := FILL_EXIT IO_SUCCESS\<rparr>"
    have st: "fill_step hw_read h (b, w) = Some (?b, w')" using pc hd(3,5) p(1) False by (auto simp: fill_step_def)
    have "read_ok h n ?b w'" using I p(2) \<open>chan_buf h w = Some rw\<close> by (auto simp: buffered_inv_def read_ok_def split: read_pc.splits)
    then have inv: "buffered_inv src h B N d n s fs es ?b w'" using I W' p(2,3) pc by (simp add: buffered_inv_def fill_ok_def pending_def)
    have "enough fs ?b w'" if "n \<le> (N - 1) * B" "bf_read b = READ_LOOP"
    proof -
      have "es = []" using I False that(2) by (simp add: buffered_inv_def read_ok_def)
      then have "8 * ((N - 1) * B) \<le> length (contents (w_heap w) fs)" using length_contents_full R by blast
      moreover have "bf_remaining b \<le> n" using I by (simp add: buffered_inv_def)
      ultimately show ?thesis using that(1) p(3) by (simp add: enough_def)
    qed
    then have "enough fs ?b w'" if "n \<le> (N - 1) * B" using that by (cases "bf_read b = READ_LOOP") (auto simp: enough_def)
    then have "step_to N d n s fs es (b, w) (?b, w')" using W' pc p(3) by (intro step_toI [OF _ inv]) (auto simp: work_def halves_def)
    with st show ?thesis by blast
  qed
qed

lemma fill_read_ok:
  assumes I: "buffered_inv src h B N d n s fs es b w" and W: "ok w" and pc: "bf_fill b = FILL_READ"
  shows "\<exists>y. fill_step hw_read h (b, w) = Some y \<and> step_to N d n s fs es (b, w) y"
proof -
  have R: "sdr_ring B N d n fs es (bf_rp b) (bf_wp b) (w_heap w)" and es: "es \<noteq> []"
    using I pc by (simp_all add: buffered_inv_def fill_ok_def)
  note hd = sdr_ring_heads [OF R]
  let ?wp = "bf_wp b" and ?hp = "w_heap w" and ?xs = "map (src w) [0..<8 * B]"
  from reads [OF W, of "b_data (blk ?hp ?wp)"] obtain w1 where
    w1: "hw_read h (b_data (blk ?hp ?wp)) B w = Some (IO_SUCCESS, B, w1)" "w_heap w1 = ?hp\<lparr>mem := mem_write (mem ?hp) (b_data (blk ?hp ?wp)) ?xs\<rparr>"
      "src w1 = (\<lambda>i. src w (8 * B + i))" "ok w1" "chan_buf h w1 = chan_buf h w" by blast
  let ?hp1 = "?hp\<lparr>mem := mem_write (mem ?hp) (b_data (blk ?hp ?wp)) ?xs, blocks := (blocks ?hp)(?wp \<mapsto> (blk ?hp ?wp)\<lparr>b_d_ret := IO_SUCCESS\<rparr>)\<rparr>"
  have "blocks ?hp ?wp = Some (blk ?hp ?wp)" "?wp \<noteq> 0" using hd(3) by (auto simp: get_blk_def split: if_splits)
  then have "upd_heap_blk ?wp (b_d_ret_update (\<lambda>_. IO_SUCCESS)) w1 = Some (w1\<lparr>w_heap := ?hp1\<rparr>)"
    by (simp add: upd_heap_blk_def upd_blk_def w1(2))
  then have st: "fill_step hw_read h (b, w) = Some (b\<lparr>bf_fill := FILL_STORE B\<rparr>, w1\<lparr>w_heap := ?hp1\<rparr>)"
    using pc hd(3,6) w1(1) by (simp add: fill_step_def sizeof_complex_def)
  have len: "length ?xs = 8 * B" by simp
  note F = sdr_ring_fill [OF R es len]
  let ?b = "b\<lparr>bf_fill := FILL_STORE B\<rparr>" and ?w = "w1\<lparr>w_heap := ?hp1\<rparr>"
  have t: "8 * bf_total b \<le> 8 * n" using I by (simp add: buffered_inv_def)
  have out: "mem_read (mem ?hp1) d (8 * bf_total b) = mem_read (mem ?hp) d (8 * bf_total b)"
    using F(5) mem_read_take [OF t, of "mem ?hp1" d] mem_read_take [OF t, of "mem ?hp" d] by metis
  have "pending B b ?hp = []" using pc by (simp add: pending_def)
  moreover have "pending B ?b ?hp1 = ?xs" using F(3) by (simp add: pending_def block_data_def)
  moreover have "stream_at s (mem_read (mem ?hp) d (8 * bf_total b) @ contents ?hp fs @ pending B b ?hp) (src w)"
    using I by (simp add: buffered_inv_def)
  ultimately have "stream_at s (mem_read (mem ?hp1) d (8 * bf_total b) @ contents ?hp1 fs @ pending B ?b ?hp1) (src ?w)"
    using stream_at_more [of s "mem_read (mem ?hp) d (8 * bf_total b) @ contents ?hp fs" "src w" "8 * B"] out F(2) w1(3) other(1) by simp
  moreover have "fill_ok h B es ?b ?w" using es F(4) by (simp add: fill_ok_def block_data_def)
  moreover have "read_ok h n ?b ?w" using I w1(5) pc by (auto simp: buffered_inv_def read_ok_def split: read_pc.splits)
  ultimately have inv: "buffered_inv src h B N d n s fs es ?b ?w" using I F(1) w1(5) by (simp add: buffered_inv_def)
  have "head_samples ?hp1 fs = head_samples ?hp fs" by (auto simp: head_samples_def blk_def split: list.split)
  then have "step_to N d n s fs es (b, w) (?b, ?w)" using pc w1(4) other(2)
    by (intro step_toI [OF _ inv]) (auto simp: work_def enough_def fill_ended_def halves_def)
  with st show ?thesis by blast
qed

lemma fill_store_ok:
  assumes I: "buffered_inv src h B N d n s fs es b w" and W: "ok w" and pc: "bf_fill b = FILL_STORE k"
  shows "\<exists>y. fill_step hw_read h (b, w) = Some y \<and> step_to N d n s fs es (b, w) y"
proof -
  let ?wp = "bf_wp b" and ?hp = "w_heap w"
  have R: "sdr_ring B N d n fs es (bf_rp b) ?wp ?hp" and es: "es \<noteq> []" and k: "k = B" and st: "b_d_ret (blk ?hp ?wp) = IO_SUCCESS"
    using I pc by (simp_all add: buffered_inv_def fill_ok_def block_data_def)
  note hd = sdr_ring_heads [OF R]
  have B: "8 * B < sz_max" using R by (simp add: sdr_ring_def)
  let ?hp1 = "?hp\<lparr>blocks := (blocks ?hp)(?wp \<mapsto> (blk ?hp ?wp)\<lparr>b_bytes := 8 * B\<rparr>)\<rparr>"
  have "blocks ?hp ?wp = Some (blk ?hp ?wp)" "?wp \<noteq> 0" using hd(3) by (auto simp: get_blk_def split: if_splits)
  moreover have "sz_mul B sizeof_complex = 8 * B" using B by (simp add: sizeof_complex_def sz_mul_exact mult.commute)
  ultimately have up: "upd_heap_blk ?wp (b_bytes_update (\<lambda>_. sz_mul k sizeof_complex)) w = Some (w\<lparr>w_heap := ?hp1\<rparr>)"
    by (simp add: upd_heap_blk_def upd_blk_def k)
  let ?b = "b\<lparr>bf_fill := FILL_TEST, bf_wp := b_next (blk ?hp ?wp)\<rparr>" and ?w = "w\<lparr>w_heap := ?hp1\<rparr>"
  have step: "fill_step hw_read h (b, w) = Some (?b, ?w)" using pc hd(3) up by (simp add: fill_step_def)
  note S = sdr_ring_store [OF R es st]
  have "pending B b ?hp = mem_read (mem ?hp) (b_data (blk ?hp ?wp)) (8 * B)" "pending B ?b ?hp1 = []" using pc by (simp_all add: pending_def block_data_def)
  then have "stream_at s (mem_read (mem ?hp1) d (8 * bf_total b) @ contents ?hp1 (fs @ [?wp]) @ pending B ?b ?hp1) (src ?w)"
    using I S(2) other(1) by (simp add: buffered_inv_def)
  moreover have "read_ok h n ?b ?w" using I pc by (auto simp: buffered_inv_def read_ok_def split: read_pc.splits)
  ultimately have inv: "buffered_inv src h B N d n s (fs @ [?wp]) (tl es) ?b ?w" using I S(1) by (simp add: buffered_inv_def fill_ok_def)
  have "work (tl es) ?b < work es b" using pc es by (cases es) (auto simp: work_def)
  moreover have "half_ok B (head_samples ?hp1 (fs @ [?wp])) r = half_ok B (head_samples ?hp fs) r" for r
    using half_ok_head_store [OF R es] .
  ultimately have "step_to N d n s fs es (b, w) (?b, ?w)" using W other(2)
    by (intro step_toI [OF _ inv]) (auto simp: enough_def fill_ended_def halves_def)
  with step show ?thesis by blast
qed

lemma fill_step_ok:
  assumes I: "buffered_inv src h B N d n s fs es b w" and W: "ok w"
  shows "\<exists>y. fill_step hw_read h (b, w) = Some y \<and> (if fill_ended b then y = (b, w) else step_to N d n s fs es (b, w) y)"
proof (cases "bf_fill b")
  case (FILL_EXIT st)
  then show ?thesis by (simp add: fill_step_def fill_ended_def)
qed (use fill_test_ok [OF assms] fill_read_ok [OF assms] fill_store_ok [OF assms] in \<open>simp_all add: fill_ended_def\<close>)

text \<open>The reader waits for samples, or for the other thread to end.\<close>

lemma read_return_ok:
  assumes I: "buffered_inv src h B N d n s fs es b w" and W: "ok w" and pc: "bf_read b = READ_LOOP" "bf_remaining b = 0"
  shows "\<exists>y. read_step h (b, w) = Some y \<and> step_to N d n s fs es (b, w) y"
proof -
  obtain rw where rw: "chan_buf h w = Some rw" using I by (auto simp: buffered_inv_def)
  from put_rw_ok [OF this, of "rw_rp_update (\<lambda>_. bf_rp b)"] obtain w' where
    p: "put_rw h (rw_rp_update (\<lambda>_. bf_rp b)) w = Some w'" "chan_buf h w' = Some (rw\<lparr>rw_rp := bf_rp b\<rparr>)" "w_heap w' = w_heap w" by auto
  have W': "ok w'" "src w' = src w" using put_rw_frame [OF W p(1)] by simp_all
  let ?b = "b\<lparr>bf_read := READ_JOIN, bf_rp := bf_rp b, bf_ret := IO_SUCCESS, bf_do_fill := False\<rparr>"
  have "bf_ret b = IO_ERROR" using I pc by (simp add: buffered_inv_def read_ok_def)
  then have st: "read_step h (b, w) = Some (?b, w')" using pc p(1) by (simp add: read_step_def read_return_def)
  have "fill_ok h B es ?b w'" using I p(2,3) rw by (auto simp: buffered_inv_def fill_ok_def split: fill_pc.splits)
  moreover have "pending B ?b (w_heap w) = pending B b (w_heap w)" by (simp add: pending_def split: fill_pc.split)
  ultimately have "buffered_inv src h B N d n s fs es ?b w'" using I W' p(2,3) pc(2) by (auto simp: buffered_inv_def read_ok_def)
  then show ?thesis using st W' pc by (auto simp: step_to_def work_def enough_def halves_def)
qed

lemma read_take_ok:
  assumes I: "buffered_inv src h B N d n s fs es b w" and W: "ok w" and pc: "bf_read b = READ_LOOP" "0 < bf_remaining b" "fs \<noteq> []"
    and half: "fits fs b w"
  shows "\<exists>y. read_step h (b, w) = Some y \<and> step_to N d n s fs es (b, w) y"
proof -
  let ?hp = "w_heap w" and ?rp = "bf_rp b"
  have R: "sdr_ring B N d n fs es ?rp (bf_wp b) ?hp" and pos: "bf_data b = d + 8 * bf_total b" "bf_total b + bf_remaining b = n"
    using I by (simp_all add: buffered_inv_def)
  note hd = sdr_ring_heads [OF R]
  have rp: "?rp \<in> set fs" using hd(1) pc(3) by simp
  then have ret: "b_d_ret (blk ?hp ?rp) = IO_SUCCESS" using R by (simp add: sdr_ring_def)
  have "b_bytes (blk ?hp ?rp) div 8 \<le> 2 * bf_remaining b"
    using half pc hd(1) by (cases fs) (auto simp: fits_def head_samples_def)
  from read_copy_ok [OF R pc(3) pos pc(2) this] obtain m fs' es' hp' rp' where
    C: "read_copy (if bf_remaining b \<ge> b_bytes (blk ?hp ?rp) div 8 then b_bytes (blk ?hp ?rp) div 8 else bf_remaining b) b w =
        Some (b\<lparr>bf_data := d + 8 * (bf_total b + m), bf_remaining := bf_remaining b - m, bf_total := bf_total b + m, bf_rp := rp'\<rparr>, w\<lparr>w_heap := hp'\<rparr>)"
      "0 < m" "m \<le> bf_remaining b" "sdr_ring B N d n fs' es' rp' (bf_wp b) hp'"
      "mem_read (mem hp') d (8 * (bf_total b + m)) @ contents hp' fs' = mem_read (mem ?hp) d (8 * bf_total b) @ contents ?hp fs"
      "length es' \<le> Suc (length es)" "\<forall>x \<in> set es. block_data (8 * B) hp' x = block_data (8 * B) ?hp x" "set es \<subseteq> set es'"
      "half_ok B (head_samples ?hp fs) (bf_remaining b) \<longrightarrow> half_ok B (head_samples hp' fs') (bf_remaining b - m)" by blast
  let ?b = "b\<lparr>bf_data := d + 8 * (bf_total b + m), bf_remaining := bf_remaining b - m, bf_total := bf_total b + m, bf_rp := rp'\<rparr>"
  let ?w = "w\<lparr>w_heap := hp'\<rparr>"
  have st: "read_step h (b, w) = Some (?b, ?w)"
    using pc(1,2) hd(2,4) pc(3) ret C(1) by (simp add: read_step_def sizeof_complex_def Let_def)
  have wp: "bf_wp b = hd es" if "es \<noteq> []" using R that by (simp add: sdr_ring_def)
  have same: "block_data (8 * B) hp' (bf_wp b) = block_data (8 * B) ?hp (bf_wp b)" if "es \<noteq> []" using C(7) wp [OF that] that by simp
  have "es' \<noteq> []" if "es \<noteq> []" using C(8) that by auto
  then have "fill_ok h B es' ?b ?w" using I same by (auto simp: buffered_inv_def fill_ok_def split: fill_pc.splits)
  moreover have "pending B ?b hp' = pending B b ?hp" using I same by (auto simp: pending_def buffered_inv_def fill_ok_def split: fill_pc.splits)
  then have "stream_at s (mem_read (mem hp') d (8 * (bf_total b + m)) @ contents hp' fs' @ pending B ?b hp') (src ?w)"
    using I C(5) other(1) by (simp add: buffered_inv_def append_assoc [symmetric] del: append_assoc)
  moreover have "read_ok h n ?b ?w" using I pc(1) by (simp add: buffered_inv_def read_ok_def)
  ultimately have inv: "buffered_inv src h B N d n s fs' es' ?b ?w" using I C(3,4) by (simp add: buffered_inv_def)
  have "work es' ?b < work es b" using C(2,3,6) by (auto simp: work_def split: fill_pc.splits read_pc.splits)
  moreover have "enough fs' ?b ?w" if "enough fs b w"
  proof -
    have "8 * (bf_total b + m) + length (contents hp' fs') = 8 * bf_total b + length (contents ?hp fs)"
      using arg_cong [OF C(5), of length] by simp
    then show ?thesis using that C(3) by (auto simp: enough_def fill_ended_def)
  qed
  moreover have "halves B fs' ?b ?w" if "halves B fs b w" using that C(9) pc(1) by (simp add: halves_def)
  ultimately have "step_to N d n s fs es (b, w) (?b, ?w)" using W other(2) by (intro step_toI [OF _ inv]) simp_all
  with st show ?thesis by blast
qed

lemma read_join_ok:
  assumes I: "buffered_inv src h B N d n s fs es b w" and W: "ok w" and pc: "bf_read b = READ_JOIN" "fill_ended b"
  shows "\<exists>y. read_step h (b, w) = Some y \<and> step_to N d n s fs es (b, w) y"
proof -
  have f: "bf_fill b = FILL_EXIT IO_SUCCESS" using I pc(2) by (auto simp: buffered_inv_def fill_ok_def fill_ended_def)
  have r: "bf_ret b = IO_SUCCESS" "bf_total b = n" using I pc(1) by (auto simp: buffered_inv_def read_ok_def)
  let ?b = "b\<lparr>bf_read := READ_DONE IO_SUCCESS n\<rparr>"
  have st: "read_step h (b, w) = Some (?b, w)" using pc(1) f r by (simp add: read_step_def)
  have "buffered_inv src h B N d n s fs es ?b w" using I pc(1) f by (simp add: buffered_inv_def read_ok_def fill_ok_def pending_def)
  then show ?thesis using st W pc by (auto simp: step_to_def work_def enough_def halves_def)
qed

text \<open>When the reader waits.\<close>

definition read_waits :: "addr list \<Rightarrow> buffered \<Rightarrow> bool" where
  "read_waits fs b = (case bf_read b of READ_LOOP \<Rightarrow> 0 < bf_remaining b \<and> fs = [] | READ_JOIN \<Rightarrow> \<not> fill_ended b | READ_DONE st k \<Rightarrow> True)"

lemma read_step_overlap:
  assumes I: "buffered_inv src h B N d n s fs es b w" and "\<not> fits fs b w"
  shows "read_step h (b, w) = None"
proof -
  let ?hp = "w_heap w" and ?rp = "bf_rp b"
  have R: "sdr_ring B N d n fs es ?rp (bf_wp b) ?hp" and pos: "bf_total b + bf_remaining b = n" using I by (simp_all add: buffered_inv_def)
  note hd = sdr_ring_heads [OF R]
  have pc: "bf_read b = READ_LOOP" "0 < bf_remaining b" and fs: "fs \<noteq> []" and k: "2 * bf_remaining b < b_bytes (blk ?hp ?rp) div 8"
    using assms(2) hd(1) by (auto simp: fits_def head_samples_def split: list.splits)
  have "b_d_ret (blk ?hp ?rp) = IO_SUCCESS" using R hd(1) fs by (simp add: sdr_ring_def)
  then show ?thesis using read_copy_overlap [OF R fs pos pc(2) k] pc hd(2,4) fs k by (simp add: read_step_def sizeof_complex_def Let_def)
qed

lemma read_step_ok:
  assumes I: "buffered_inv src h B N d n s fs es b w" and W: "ok w" and half: "fits fs b w"
  shows "\<exists>y. read_step h (b, w) = Some y \<and> (if read_waits fs b then y = (b, w) else step_to N d n s fs es (b, w) y)"
proof (cases "bf_read b")
  case READ_LOOP
  have R: "sdr_ring B N d n fs es (bf_rp b) (bf_wp b) (w_heap w)" using I by (simp add: buffered_inv_def)
  show ?thesis
  proof (cases "bf_remaining b = 0")
    case True
    then show ?thesis using read_return_ok [OF I W READ_LOOP True] READ_LOOP by (simp add: read_waits_def)
  next
    case False
    then show ?thesis using read_take_ok [OF I W READ_LOOP _ _ half] READ_LOOP sdr_ring_heads(2,4) [OF R]
      by (cases "fs = []") (simp_all add: read_waits_def read_step_def)
  qed
next
  case READ_JOIN
  then show ?thesis using read_join_ok [OF I W READ_JOIN]
    by (cases "bf_fill b") (simp_all add: read_waits_def fill_ended_def read_step_def)
next
  case (READ_DONE st k)
  then show ?thesis by (simp add: read_waits_def read_step_def)
qed

section \<open>Runs\<close>

lemma inv_turn [simp]: "buffered_inv src h B N d n s fs es b (w\<lparr>w_turn := t\<rparr>) = buffered_inv src h B N d n s fs es b w"
  by (auto simp: buffered_inv_def fill_ok_def read_ok_def other split: fill_pc.splits read_pc.splits)

lemma enough_turn [simp]: "enough fs b (w\<lparr>w_turn := t\<rparr>) = enough fs b w" "halves k fs b (w\<lparr>w_turn := t\<rparr>) = halves k fs b w"
  by (simp_all add: enough_def halves_def)

text \<open>Whatever the scheduler does, a read that returns has delivered the next samples.\<close>

lemma buffered_run_correct:
  assumes "buffered_run S hw_read h b w = Some y" and "buffered_inv src h B N d n s fs es b w" and "ok w"
  shows "\<exists>w' b' fs' es'. y = (IO_SUCCESS, n, w') \<and> ok w' \<and> buffered_inv src h B N d n s fs' es' b' w' \<and> bf_read b' = READ_DONE IO_SUCCESS n"
proof -
  define Q where "Q b w y \<longleftrightarrow> (\<forall>fs es. buffered_inv src h B N d n s fs es b w \<longrightarrow> ok w \<longrightarrow> (\<exists>w' b' fs' es'. y = (IO_SUCCESS, n, w') \<and> ok w' \<and>
      buffered_inv src h B N d n s fs' es' b' w' \<and> bf_read b' = READ_DONE IO_SUCCESS n))" for b w and y :: "io_status \<times> size_t \<times> world"
  have "Q b w y"
  proof (rule buffered_run.raw_induct [where P = "\<lambda>S' r h' b w y. S' = S \<longrightarrow> r = hw_read \<longrightarrow> h' = h \<longrightarrow> Q b w y", OF _ assms(1), rule_format], goal_cases)
    case (1 run S' r h' b w y)
    show ?case unfolding Q_def
    proof (intro allI impI)
      fix fs es assume I: "buffered_inv src h B N d n s fs es b w" and W: "ok w"
      show "\<exists>w' b' fs' es'. y = (IO_SUCCESS, n, w') \<and> ok w' \<and> buffered_inv src h B N d n s fs' es' b' w' \<and> bf_read b' = READ_DONE IO_SUCCESS n"
      proof (cases "\<exists>st k. bf_read b = READ_DONE st k")
        case True
        then have "bf_read b = READ_DONE IO_SUCCESS n" using I by (auto simp: buffered_inv_def read_ok_def)
        moreover from this have "y = (IO_SUCCESS, n, w)" using 1(2) by simp
        ultimately show ?thesis using I W by blast
      next
        case False
        let ?step = "if s_sched S (w_turn w) then fill_step hw_read h (b, w) else read_step h (b, w)"
        have "?step \<noteq> None" using 1(2) False 1(3-5) by (cases "bf_read b") (auto simp: bind_eq_Some_conv)
        then have "s_sched S (w_turn w) \<or> fits fs b w" using read_step_overlap [OF I] by (metis (full_types))
        then have "\<exists>b' w' fs' es'. ?step = Some (b', w') \<and> ok w' \<and> buffered_inv src h B N d n s fs' es' b' w'"
          using fill_step_ok [OF I W] read_step_ok [OF I W] I W by (fastforce simp: step_to_def split: if_splits)
        then obtain b' w' fs' es' where st: "?step = Some (b', w')" "ok w'" "buffered_inv src h B N d n s fs' es' b' w'" by blast
        have "run S hw_read h b' (w'\<lparr>w_turn := Suc (w_turn w)\<rparr>) = Some y"
          using 1(2) False st(1) 1(3-5) by (cases "bf_read b") auto
        then have "Q b' (w'\<lparr>w_turn := Suc (w_turn w)\<rparr>) y" using 1(1,3-5) by blast
        then show ?thesis using st(2,3) other(4) by (simp add: Q_def) blast
      qed
    qed
  qed simp_all
  then show ?thesis using assms(2,3) by (auto simp: Q_def)
qed

end

text \<open>A fair scheduler lets either thread go again and again.\<close>

definition fair :: "sys \<Rightarrow> bool" where
  "fair S \<longleftrightarrow> (\<forall>t. \<exists>t' \<ge> t. s_sched S t') \<and> (\<forall>t. \<exists>t' \<ge> t. \<not> s_sched S t')"

context sample_source
begin

lemma run_unfold:
  assumes "\<nexists>st k. bf_read b = READ_DONE st k"
    and "(if s_sched S (w_turn w) then fill_step hw_read h (b, w) else read_step h (b, w)) = Some (b', w')"
  shows "buffered_run S hw_read h b w = buffered_run S hw_read h b' (w'\<lparr>w_turn := Suc (w_turn w)\<rparr>)"
  using assms by (subst buffered_run.simps) (cases "bf_read b"; simp)

text \<open>A read of no more than the ring surely holds comes to its end: the work left falls with every step that does something,
  and one of the threads can always do something.\<close>

lemma buffered_run_returns:
  assumes F: "fair S" and n: "n \<le> (N - 1) * B"
  shows "buffered_inv src h B N d n s fs es b w \<Longrightarrow> ok w \<Longrightarrow> enough fs b w \<Longrightarrow> halves B fs b w \<Longrightarrow> \<exists>y. buffered_run S hw_read h b w = Some y"
proof (induction "work es b" arbitrary: fs es b w rule: less_induct)
  case less
  note I = less.prems(1) and E = less.prems(3) and H = less.prems(4)
  show ?case
  proof (cases "\<exists>st k. bf_read b = READ_DONE st k")
    case True
    then show ?thesis by (subst buffered_run.simps) auto
  next
    case False
    have progress: "\<exists>y. buffered_run S hw_read h b (w\<lparr>w_turn := t\<rparr>) = Some y"
      if to: "step_to N d n s fs es (b, w\<lparr>w_turn := t\<rparr>) (b', w')" and step:
        "(if s_sched S t then fill_step hw_read h (b, w\<lparr>w_turn := t\<rparr>) else read_step h (b, w\<lparr>w_turn := t\<rparr>)) = Some (b', w')" for t b' w'
    proof -
      obtain fs' es' where st: "ok w'" "buffered_inv src h B N d n s fs' es' b' w'" "work es' b' < work es b" "enough fs' b' w'" "halves B fs' b' w'"
        using to n E H unfolding step_to_def prod.case enough_turn by blast
      have "\<exists>y. buffered_run S hw_read h b' (w'\<lparr>w_turn := Suc t\<rparr>) = Some y"
        using less.hyps [OF st(3)] st(1,2,4,5) other(4) by simp
      moreover have "buffered_run S hw_read h b (w\<lparr>w_turn := t\<rparr>) = buffered_run S hw_read h b' (w'\<lparr>w_turn := Suc t\<rparr>)"
        using run_unfold [OF False, of S "w\<lparr>w_turn := t\<rparr>" b' w'] step by simp
      ultimately show ?thesis by simp
    qed
    have idle: "buffered_run S hw_read h b (w\<lparr>w_turn := t\<rparr>) = buffered_run S hw_read h b (w\<lparr>w_turn := Suc t\<rparr>)"
      if "(if s_sched S t then fill_step hw_read h (b, w\<lparr>w_turn := t\<rparr>) else read_step h (b, w\<lparr>w_turn := t\<rparr>)) = Some (b, w\<lparr>w_turn := t\<rparr>)" for t
      using run_unfold [OF False, of S "w\<lparr>w_turn := t\<rparr>" b "w\<lparr>w_turn := t\<rparr>"] that by simp
    have IW: "buffered_inv src h B N d n s fs es b (w\<lparr>w_turn := t\<rparr>)" "ok (w\<lparr>w_turn := t\<rparr>)" for t using I less.prems(2) other(4) by simp_all
    have "fits fs b (w\<lparr>w_turn := t\<rparr>)" for t using halves_fits H by simp
    note steps = fill_step_ok [OF IW] read_step_ok [OF IW this]
    define can where "can t \<longleftrightarrow> (if s_sched S t then \<not> fill_ended b else \<not> read_waits fs b)" for t
    have "\<not> (read_waits fs b \<and> fill_ended b)" using False E by (cases "bf_read b") (auto simp: read_waits_def enough_def)
    then have "\<exists>t \<ge> w_turn w. can t" using F by (auto simp: can_def fair_def)
    then obtain k where "can (w_turn w + k)" by (metis le_Suc_ex)
    moreover have "\<exists>y. buffered_run S hw_read h b (w\<lparr>w_turn := t\<rparr>) = Some y" if "can (t + k)" for t
      using that
    proof (induction k arbitrary: t)
      case 0
      then show ?case using progress [of t] steps [of t] by (auto simp: can_def split: if_splits)
    next
      case (Suc k)
      then have "\<exists>y. buffered_run S hw_read h b (w\<lparr>w_turn := Suc t\<rparr>) = Some y" by simp
      then show ?case using progress [of t] idle [of t] steps [of t] by (cases "can t") (auto simp: can_def split: if_splits)
    qed
    ultimately have "\<exists>y. buffered_run S hw_read h b (w\<lparr>w_turn := w_turn w\<rparr>) = Some y" by blast
    then show ?thesis by simp
  qed
qed

end

section \<open>A whole read\<close>

lemma ring_live:
  assumes "sdr_ring B N d n fs es rp wp hp"
  shows "sdr_ring B N d n fs es rp wp (hp\<lparr>live := x # live hp\<rparr>)"
proof -
  let ?hp = "hp\<lparr>live := x # live hp\<rparr>"
  have same: "blk ?hp = blk hp" "nxt ?hp = nxt hp" by (simp_all add: blk_def nxt_def fun_eq_iff)
  have "heap_ok ?hp" using assms by (auto simp: sdr_ring_def ring_blocks_def heap_ok_def)
  moreover have "areas (8 * B) ?hp (fs @ es)" by (rule areas_cong [of _ hp]) (use assms in \<open>auto simp: sdr_ring_def ring_blocks_def same\<close>)
  ultimately show ?thesis using assms by (simp add: sdr_ring_def ring_blocks_def full_def empty_def outside_def same)
qed

lemma contents_live [simp]: "contents (hp\<lparr>live := l\<rparr>) fs = contents hp fs"
  by (rule contents_cong) (simp_all add: blk_def)

text \<open>The state in which the two threads begin.\<close>

definition first_step :: "addr \<Rightarrow> nat \<Rightarrow> blb_rw \<Rightarrow> buffered" where
  "first_step buf n rw = \<lparr>bf_do_fill = True, bf_fill = FILL_TEST, bf_wp = rw_wp rw, bf_read = READ_LOOP, bf_rp = rw_rp rw,
     bf_data = buf, bf_remaining = n, bf_total = 0, bf_ret = IO_ERROR\<rparr>"

context sample_source
begin

lemma first_step_inv:
  assumes "chan_buf h w = Some rw" and "sdr_ring B N buf n fs es (rw_rp rw) (rw_wp rw) (w_heap w)"
  shows "buffered_inv src h B N buf n (then_stream (contents (w_heap w) fs) (src w)) fs es (first_step buf n rw) w"
    and "enough fs (first_step buf n rw) w" and "halves B fs (first_step buf n rw) w = half_ok B (head_samples (w_heap w) fs) n"
  using assms by (simp_all add: buffered_inv_def first_step_def fill_ok_def read_ok_def pending_def stream_at_then enough_def fill_ended_def halves_def)

lemma after_read:
  assumes I: "buffered_inv src h B N buf n s fs es b w" and "ok w" and fin: "bf_read b = READ_DONE IO_SUCCESS n"
  shows "\<exists>w'. upd_chan h (sc_obj_update (\<lambda>_. Some False)) w = Some w' \<and> ok w' \<and> (\<exists>rw. chan_buf h w' = Some rw \<and>
    sdr_ring B N buf n fs es (rw_rp rw) (rw_wp rw) (w_heap w') \<and> then_stream (mem_read (mem (w_heap w')) buf (8 * n) @ contents (w_heap w') fs) (src w') = s)"
proof -
  obtain rw where rw: "chan_buf h w = Some rw" using I by (auto simp: buffered_inv_def)
  obtain d c where D: "machine_get_desc h w = Some d" "md_impl d = IMPL_SDR c" "sc_buffer c = Some rw" by (rule chan_bufE [OF rw])
  let ?w' = "put_chan h (c\<lparr>sc_obj := Some False\<rparr>) w"
  have up: "upd_chan h (sc_obj_update (\<lambda>_. Some False)) w = Some ?w'" by (rule upd_chan_ok [OF D(1,2)])
  have keep: "src ?w' = src w \<and> ok ?w'" using \<open>ok w\<close> up by (rule pointers) (metis sdr_channel.surjective sdr_channel.update_convs(10,11))
  have heap: "w_heap ?w' = w_heap w" by (simp add: put_chan_def upd_desc_def)
  have buf: "chan_buf h ?w' = Some rw" using D get_put_chan [of h _ w] by (simp add: chan_buf_def chan_of_def)
  have end_state: "bf_total b = n" "rw_rp rw = bf_rp b" "rw_wp rw = bf_wp b" "pending B b (w_heap w) = []"
    using I fin rw by (auto simp: buffered_inv_def read_ok_def fill_ok_def pending_def)
  show ?thesis using up keep buf heap I end_state by (auto simp: buffered_inv_def stream_at_then)
qed

text \<open>
  A read that returns, under whatever scheduler, has delivered the next samples: the caller's buffer, the ring and the
  radio together hold what the ring and the radio held before. Under a fair scheduler it returns, if the ring surely holds what is asked for
  and no \<open>memcpy\<close> overlaps.
\<close>

lemma read_from_buffer_ok:
  assumes W: "ok w" and D: "machine_get_desc h w = Some d" "md_impl d = IMPL_SDR c" "sc_buffer c = Some rw"
    and room: "sc_obj c = None \<Longrightarrow> pcalloc (s_mem S) (w_heap w) (md_pool d) sizeof_hw_fill \<noteq> None"
    and R: "sdr_ring B N buf n fs es (rw_rp rw) (rw_wp rw) (w_heap w)"
  shows "read_from_buffer S hw_read h buf n w = Some (st, k, w') \<Longrightarrow> st = IO_SUCCESS \<and> k = n \<and> ok w' \<and>
      (\<exists>rw' fs' es'. chan_buf h w' = Some rw' \<and> sdr_ring B N buf n fs' es' (rw_rp rw') (rw_wp rw') (w_heap w') \<and>
        then_stream (mem_read (mem (w_heap w')) buf (8 * n) @ contents (w_heap w') fs') (src w') = then_stream (contents (w_heap w) fs) (src w))"
    and "fair S \<Longrightarrow> n \<le> (N - 1) * B \<Longrightarrow> half_ok B (head_samples (w_heap w) fs) n \<Longrightarrow> read_from_buffer S hw_read h buf n w \<noteq> None"
proof -
  have ch: "chan_buf h w = Some rw" using chan_bufI [OF D(1,2)] D(3) by simp
  define s where "s = then_stream (contents (w_heap w) fs) (src w)"
  obtain w1 where w1: "(case sc_obj c of Some _ \<Rightarrow> Some w | None \<Rightarrow> do { a \<leftarrow> pcalloc (s_mem S) (w_heap w) (md_pool d) sizeof_hw_fill;
      Some (add_live a sizeof_hw_fill w) }) = Some w1" "ok w1" "buffered_inv src h B N buf n s fs es (first_step buf n rw) w1"
      "enough fs (first_step buf n rw) w1" "halves B fs (first_step buf n rw) w1 = half_ok B (head_samples (w_heap w) fs) n"
  proof (cases "sc_obj c")
    case None
    then obtain a where a: "pcalloc (s_mem S) (w_heap w) (md_pool d) sizeof_hw_fill = Some a" using room by blast
    let ?w1 = "add_live a sizeof_hw_fill w"
    have w1: "ok ?w1" "src ?w1 = src w" "chan_buf h ?w1 = Some rw" "contents (w_heap ?w1) fs = contents (w_heap w) fs"
      "sdr_ring B N buf n fs es (rw_rp rw) (rw_wp rw) (w_heap ?w1)" "head_samples (w_heap ?w1) fs = head_samples (w_heap w) fs"
      using W R ch other ring_live by (simp_all add: add_live_def head_samples_def blk_def split: list.split)
    then show ?thesis using that [of ?w1] first_step_inv [OF w1(3,5)] None a by (simp add: s_def)
  next
    case (Some x)
    then show ?thesis using that [of w] W first_step_inv [OF ch R] by (simp add: s_def)
  qed
  have unf: "read_from_buffer S hw_read h buf n w = do {
      (ret, n, w2) \<leftarrow> buffered_run S hw_read h (first_step buf n rw) w1;
      w3 \<leftarrow> upd_chan h (sc_obj_update (\<lambda>_. Some False)) w2;
      Some (ret, n, w3) }"
    using D w1(1) by (simp add: read_from_buffer_def chan_of_def first_step_def)
  have fin: "\<exists>w'. read_from_buffer S hw_read h buf n w = Some (IO_SUCCESS, n, w') \<and> ok w' \<and>
      (\<exists>rw' fs' es'. chan_buf h w' = Some rw' \<and> sdr_ring B N buf n fs' es' (rw_rp rw') (rw_wp rw') (w_heap w') \<and>
        then_stream (mem_read (mem (w_heap w')) buf (8 * n) @ contents (w_heap w') fs') (src w') = s)"
    if run: "buffered_run S hw_read h (first_step buf n rw) w1 = Some y" for y
    using buffered_run_correct [OF run w1(3,2)] after_read unf run by fastforce
  show "st = IO_SUCCESS \<and> k = n \<and> ok w' \<and> (\<exists>rw' fs' es'. chan_buf h w' = Some rw' \<and> sdr_ring B N buf n fs' es' (rw_rp rw') (rw_wp rw') (w_heap w') \<and>
      then_stream (mem_read (mem (w_heap w')) buf (8 * n) @ contents (w_heap w') fs') (src w') = then_stream (contents (w_heap w) fs) (src w))"
    if r: "read_from_buffer S hw_read h buf n w = Some (st, k, w')"
  proof -
    obtain y where "buffered_run S hw_read h (first_step buf n rw) w1 = Some y" using r unf by (auto simp: bind_eq_Some_conv)
    from fin [OF this] show ?thesis using r by (auto simp: s_def)
  qed
  show "read_from_buffer S hw_read h buf n w \<noteq> None" if "fair S" "n \<le> (N - 1) * B" "half_ok B (head_samples (w_heap w) fs) n"
    using buffered_run_returns [OF that(1,2) w1(3,2,4)] that(3) w1(5) fin by blast
qed

end

section \<open>A radio that fails\<close>

text \<open>The reader still needs more samples than the ring holds.\<close>

definition lacking :: "nat \<Rightarrow> nat \<Rightarrow> addr \<Rightarrow> nat \<Rightarrow> addr list \<Rightarrow> addr list \<Rightarrow> buffered \<Rightarrow> world \<Rightarrow> bool" where
  "lacking B N d n fs es b w \<longleftrightarrow> sdr_ring B N d n fs es (bf_rp b) (bf_wp b) (w_heap w) \<and> bf_data b = d + 8 * bf_total b \<and>
     bf_total b + bf_remaining b = n \<and> bf_read b = READ_LOOP \<and> length (contents (w_heap w) fs) < 8 * bf_remaining b"

lemma lacking_read:
  assumes J: "lacking B N d n fs es b w"
  shows "\<exists>b' hp fs' es'. read_step h (b, w) = Some (b', w\<lparr>w_heap := hp\<rparr>) \<and> lacking B N d n fs' es' b' (w\<lparr>w_heap := hp\<rparr>) \<and>
    bf_fill b' = bf_fill b \<and> bf_do_fill b' = bf_do_fill b \<and> (es \<noteq> [] \<longrightarrow> es' \<noteq> [])"
proof -
  let ?hp = "w_heap w" and ?rp = "bf_rp b"
  have R: "sdr_ring B N d n fs es ?rp (bf_wp b) ?hp" and pos: "bf_data b = d + 8 * bf_total b" "bf_total b + bf_remaining b = n" "0 < bf_remaining b"
    and pc: "bf_read b = READ_LOOP" using J by (auto simp: lacking_def)
  note hd = sdr_ring_heads [OF R]
  show ?thesis
  proof (cases "fs = []")
    case True
    then have "read_step h (b, w) = Some (b, w\<lparr>w_heap := w_heap w\<rparr>)" using hd(2,4) pos(3) pc by (simp add: read_step_def)
    moreover have "lacking B N d n fs es b (w\<lparr>w_heap := w_heap w\<rparr>)" using J by simp
    ultimately show ?thesis by blast
  next
    case False
    then have "b_d_ret (blk ?hp ?rp) = IO_SUCCESS" using R hd(1) by (simp add: sdr_ring_def)
    have "8 * (b_bytes (blk ?hp ?rp) div 8) \<le> length (contents ?hp fs)"
      using hd(1) False by (cases fs) (auto simp: length_contents)
    then have "b_bytes (blk ?hp ?rp) div 8 \<le> 2 * bf_remaining b" using J by (simp add: lacking_def)
    from read_copy_ok [OF R False pos this] obtain m fs' es' hp' rp' where
      C: "read_copy (if bf_remaining b \<ge> b_bytes (blk ?hp ?rp) div 8 then b_bytes (blk ?hp ?rp) div 8 else bf_remaining b) b w =
          Some (b\<lparr>bf_data := d + 8 * (bf_total b + m), bf_remaining := bf_remaining b - m, bf_total := bf_total b + m, bf_rp := rp'\<rparr>, w\<lparr>w_heap := hp'\<rparr>)"
        "m \<le> bf_remaining b" "sdr_ring B N d n fs' es' rp' (bf_wp b) hp'"
        "mem_read (mem hp') d (8 * (bf_total b + m)) @ contents hp' fs' = mem_read (mem ?hp) d (8 * bf_total b) @ contents ?hp fs" "set es \<subseteq> set es'" by blast
    let ?b = "b\<lparr>bf_data := d + 8 * (bf_total b + m), bf_remaining := bf_remaining b - m, bf_total := bf_total b + m, bf_rp := rp'\<rparr>"
    from \<open>b_d_ret (blk ?hp ?rp) = IO_SUCCESS\<close> have step: "read_step h (b, w) = Some (?b, w\<lparr>w_heap := hp'\<rparr>)"
      using C(1) pos(3) pc hd(2,4) False by (simp add: read_step_def sizeof_complex_def Let_def)
    have "8 * (bf_total b + m) + length (contents hp' fs') = 8 * bf_total b + length (contents ?hp fs)"
      using arg_cong [OF C(4), of length] by simp
    then have "lacking B N d n fs' es' ?b (w\<lparr>w_heap := hp'\<rparr>)" using J C(2,3) by (auto simp: lacking_def)
    moreover have "es \<noteq> [] \<longrightarrow> es' \<noteq> []" using C(5) by auto
    ultimately have "read_step h (b, w) = Some (?b, w\<lparr>w_heap := hp'\<rparr>) \<and> lacking B N d n fs' es' ?b (w\<lparr>w_heap := hp'\<rparr>) \<and>
        bf_fill ?b = bf_fill b \<and> bf_do_fill ?b = bf_do_fill b \<and> (es \<noteq> [] \<longrightarrow> es' \<noteq> [])" using step by simp
    then show ?thesis by blast
  qed
qed

lemma lacking_turn [simp]: "lacking B N d n fs es b (w\<lparr>w_turn := t\<rparr>) = lacking B N d n fs es b w"
  by (simp add: lacking_def)

text \<open>An invariant that no step leaves, and under which the reader is not done, means that the read does not return.\<close>

lemma buffered_run_never:
  assumes step: "\<And>b w. J b w \<Longrightarrow> bf_read b = READ_LOOP \<and> (\<exists>b' w'. (if s_sched S (w_turn w) then fill_step hw_read h (b, w) else read_step h (b, w)) =
      Some (b', w') \<and> J b' (w'\<lparr>w_turn := Suc (w_turn w)\<rparr>))" and "J b w"
  shows "buffered_run S hw_read h b w = None"
proof -
  have False if "buffered_run S hw_read h b w = Some y" for y
  proof -
    have "\<not> J b w"
    proof (rule buffered_run.raw_induct [where P = "\<lambda>S' r h' b w y. S' = S \<longrightarrow> r = hw_read \<longrightarrow> h' = h \<longrightarrow> \<not> J b w", OF _ that, rule_format], goal_cases)
      case (1 run S' r h' b w y)
      show ?case
      proof
        assume "J b w"
        from step [OF this] obtain b' w' where st: "bf_read b = READ_LOOP"
          "(if s_sched S (w_turn w) then fill_step hw_read h (b, w) else read_step h (b, w)) = Some (b', w')" "J b' (w'\<lparr>w_turn := Suc (w_turn w)\<rparr>)" by blast
        then have "run S hw_read h b' (w'\<lparr>w_turn := Suc (w_turn w)\<rparr>) = Some y" using 1(2) unfolding 1(3-5) by simp
        then show False using 1(1,3-5) st(3) by blast
      qed
    qed simp_all
    then show False using assms(2) by blast
  qed
  then show ?thesis by (cases "buffered_run S hw_read h b w") auto
qed

text \<open>A radio of which every read fails: \<open>ok\<close> is kept, and the memory is not touched.\<close>

locale broken_source =
  fixes hw_read :: sdr_rw and h :: io_handle and ok :: "world \<Rightarrow> bool"
  assumes fails: "ok w \<Longrightarrow> 0 < n \<Longrightarrow> \<exists>st k w'. hw_read h a n w = Some (st, k, w') \<and> st < IO_SUCCESS \<and> w_heap w' = w_heap w \<and> ok w' \<and> chan_buf h w' = chan_buf h w"
    and other: "ok (w\<lparr>w_heap := hp\<rparr>) = ok w" "ok (w\<lparr>w_turn := t\<rparr>) = ok w"
    and pointers: "ok w \<Longrightarrow> put_rw h g w = Some w' \<Longrightarrow> ok w'"
begin

text \<open>The filling thread ends with the error, but the block stays empty, and the reader waits for it.\<close>

definition waiting :: "nat \<Rightarrow> nat \<Rightarrow> addr \<Rightarrow> nat \<Rightarrow> addr list \<Rightarrow> addr list \<Rightarrow> buffered \<Rightarrow> world \<Rightarrow> bool" where
  "waiting B N d n fs es b w \<longleftrightarrow> lacking B N d n fs es b w \<and> bf_do_fill b \<and> chan_buf h w \<noteq> None \<and> ok w \<and>
     (case bf_fill b of FILL_READ \<Rightarrow> es \<noteq> [] | FILL_STORE k \<Rightarrow> False | _ \<Rightarrow> True)"

lemma waiting_turn [simp]: "waiting B N d n fs es b (w\<lparr>w_turn := t\<rparr>) = waiting B N d n fs es b w"
  by (simp add: waiting_def other)

lemma waiting_exit:
  assumes "waiting B N d n fs es b w" and "lacking B N d n fs es b w1" "chan_buf h w1 = chan_buf h w" "ok w1"
  shows "\<exists>w2. put_rw h (rw_wp_update (\<lambda>_. bf_wp b)) w1 = Some w2 \<and> waiting B N d n fs es (b\<lparr>bf_fill := FILL_EXIT st\<rparr>) w2"
proof -
  obtain rw where "chan_buf h w1 = Some rw" using assms(1,3) by (auto simp: waiting_def)
  from put_rw_ok [OF this, of "rw_wp_update (\<lambda>_. bf_wp b)"] obtain w2 where
    p: "put_rw h (rw_wp_update (\<lambda>_. bf_wp b)) w1 = Some w2" "chan_buf h w2 \<noteq> None" "w_heap w2 = w_heap w1" by auto
  then show ?thesis using assms pointers [OF assms(4) p(1)] by (auto simp: waiting_def lacking_def)
qed

lemma waiting_fill:
  assumes J: "waiting B N d n fs es b w"
  shows "\<exists>b' w'. fill_step hw_read h (b, w) = Some (b', w') \<and> waiting B N d n fs es b' w'"
proof -
  let ?wp = "bf_wp b" and ?hp = "w_heap w"
  have R: "sdr_ring B N d n fs es (bf_rp b) ?wp ?hp" and L: "lacking B N d n fs es b w" and W: "ok w" "bf_do_fill b"
    using J by (simp_all add: waiting_def lacking_def)
  note hd = sdr_ring_heads [OF R]
  show ?thesis
  proof (cases "bf_fill b")
    case FILL_TEST
    then show ?thesis using J W(2) hd(3,5) waiting_exit [OF J L refl W(1), of IO_SUCCESS]
      by (cases "es = []") (auto simp: fill_step_def waiting_def lacking_def)
  next
    case FILL_READ
    then have es: "es \<noteq> []" using J by (simp add: waiting_def)
    have B: "0 < B" using R by (simp add: sdr_ring_def)
    from fails [OF W(1) B, of "b_data (blk ?hp ?wp)"] obtain st k w1 where
      F: "hw_read h (b_data (blk ?hp ?wp)) B w = Some (st, k, w1)" "st < IO_SUCCESS" "w_heap w1 = ?hp" "ok w1" "chan_buf h w1 = chan_buf h w" by blast
    let ?hp1 = "?hp\<lparr>blocks := (blocks ?hp)(?wp \<mapsto> (blk ?hp ?wp)\<lparr>b_d_ret := st\<rparr>)\<rparr>"
    have bw: "blocks ?hp ?wp = Some (blk ?hp ?wp)" "?wp \<noteq> 0" using hd(3) by (auto simp: get_blk_def split: if_splits)
    then have up: "upd_heap_blk ?wp (b_d_ret_update (\<lambda>_. st)) w1 = Some (w1\<lparr>w_heap := ?hp1\<rparr>)"
      by (simp add: upd_heap_blk_def upd_blk_def F(3))
    have wp: "?wp \<in> set es" "ring_blocks (8 * B) (bf_rp b) fs es ?hp" "outside d (8 * n) (8 * B) ?hp (fs @ es)" using R es by (auto simp: sdr_ring_def)
    note S = ring_scribble [OF wp(2,1), where xs = "[]" and st = st, simplified]
    have "?wp \<notin> set fs" using wp by (auto simp: ring_blocks_def is_ring_def)
    moreover have "blk ?hp1 a = (if a = ?wp then (blk ?hp ?wp)\<lparr>b_d_ret := st\<rparr> else blk ?hp a)" for a by (simp add: blk_def)
    moreover have "set (tl fs) \<subseteq> set fs" by (cases fs) auto
    ultimately have "lacking B N d n fs es b (w1\<lparr>w_heap := ?hp1\<rparr>)" using L S(1,2) S(3) [OF wp(3)] unfolding lacking_def sdr_ring_def by (auto simp: subset_iff)
    from waiting_exit [OF J this, of st] F(4,5) other(1) obtain w2 where
      "put_rw h (rw_wp_update (\<lambda>_. ?wp)) (w1\<lparr>w_heap := ?hp1\<rparr>) = Some w2" "waiting B N d n fs es (b\<lparr>bf_fill := FILL_EXIT st\<rparr>) w2" by auto
    then show ?thesis using FILL_READ hd(3,6) F(1,2) up by (simp add: fill_step_def sizeof_complex_def)
  qed (use J in \<open>auto simp: fill_step_def waiting_def\<close>)
qed

lemma broken_run_never:
  assumes "waiting B N d n fs es b w"
  shows "buffered_run S hw_read h b w = None"
proof (rule buffered_run_never [where J = "\<lambda>b w. \<exists>fs es. waiting B N d n fs es b w"])
  fix b w assume "\<exists>fs es. waiting B N d n fs es b w"
  then obtain fs es where J: "waiting B N d n fs es b w" by blast
  then have L: "bf_read b = READ_LOOP" "lacking B N d n fs es b w" by (simp_all add: waiting_def lacking_def)
  have "\<exists>b' w' fs' es'. read_step h (b, w) = Some (b', w') \<and> waiting B N d n fs' es' b' w'"
    using lacking_read [OF L(2), of h] J other(1) unfolding waiting_def by (fastforce split: fill_pc.splits)
  then show "bf_read b = READ_LOOP \<and> (\<exists>b' w'. (if s_sched S (w_turn w) then fill_step hw_read h (b, w) else read_step h (b, w)) =
      Some (b', w') \<and> (\<exists>fs es. waiting B N d n fs es b' (w'\<lparr>w_turn := Suc (w_turn w)\<rparr>)))"
    using L(1) waiting_fill [OF J] by (cases "s_sched S (w_turn w)") auto
qed (use assms in blast)

end

end
