(* ===== verification/Sdr_Counter.thy ===== *)
theory Sdr_Counter
  imports Sdr_Buffer
begin

text \<open>
  The counter that \<open>sdr_read_from_counter\<close> gives instead of the samples of a radio is a sample source: its bytes are the
  floats 0, 1, 2, and so on, up to \<open>2 ^ 24 - 1\<close>, again and again.
\<close>

definition counter_floats :: "size_t \<Rightarrow> nat \<Rightarrow> byte list" where
  "counter_floats c k = float_array (map (\<lambda>i. of_nat ((c + i) mod 0x1000000)) [0..<k])"

lemma counter_floats_Suc: "c < 0x1000000 \<Longrightarrow> counter_floats c (Suc k) = float_bytes (of_nat c) @ counter_floats ((c + 1) mod 0x1000000) k"
proof -
  assume c: "c < 0x1000000"
  have "[0..<Suc k] = 0 # map Suc [0..<k]" by (simp add: map_Suc_upt upt_conv_Cons)
  moreover have "(c + Suc i) mod 0x1000000 = ((c + 1) mod 0x1000000 + i) mod 0x1000000" for i by (simp add: mod_simps)
  ultimately show ?thesis using c by (simp add: counter_floats_def comp_def)
qed

lemma counter_loop_ok:
  assumes "c < 0x1000000"
  shows "counter_loop k a c m = ((c + k) mod 0x1000000, mem_write m a (counter_floats c k))"
  using assms
proof (induction k arbitrary: a c m)
  case 0
  then show ?case by (simp add: counter_floats_def)
next
  case (Suc k)
  have "counter_loop (Suc k) a c m = (((c + 1) mod 0x1000000 + k) mod 0x1000000,
      mem_write (mem_write m a (float_bytes (of_nat c))) (a + 4) (counter_floats ((c + 1) mod 0x1000000) k))"
    using Suc.IH [of "(c + 1) mod 0x1000000"] by simp
  also have "mem_write (mem_write m a (float_bytes (of_nat c))) (a + 4) (counter_floats ((c + 1) mod 0x1000000) k) =
      mem_write m a (counter_floats c (Suc k))"
    using mem_write_append [of m a "float_bytes (of_nat c)"] counter_floats_Suc [OF Suc.prems, of k] by simp
  finally show ?case by (simp add: mod_simps)
qed

text \<open>The stream from a counter value on.\<close>

definition counter_stream :: "size_t \<Rightarrow> nat \<Rightarrow> byte" where
  "counter_stream c i = float_bytes (of_nat ((c + i div 4) mod 0x1000000)) ! (i mod 4)"

lemma counter_floats_stream: "counter_floats c k = map (counter_stream c) [0..<4 * k]"
  by (auto simp: counter_floats_def float_array_nth counter_stream_def)

lemma counter_stream_shift: "counter_stream ((c + k) mod 0x1000000) i = counter_stream c (4 * k + i)"
  by (simp add: counter_stream_def mod_simps add.assoc)

definition counter_src :: "io_handle \<Rightarrow> world \<Rightarrow> nat \<Rightarrow> byte" where
  "counter_src h w = (case machine_get_desc h w of
      Some d \<Rightarrow> (case md_impl d of IMPL_SDR c \<Rightarrow> counter_stream (sc_counter c) | _ \<Rightarrow> (\<lambda>i. 0))
    | None \<Rightarrow> (\<lambda>i. 0))"

definition counter_ok :: "io_handle \<Rightarrow> world \<Rightarrow> bool" where
  "counter_ok h w \<longleftrightarrow> (\<exists>d c. machine_get_desc h w = Some d \<and> md_impl d = IMPL_SDR c \<and> sc_counter c < 0x1000000)"

lemma counter_srcI: "machine_get_desc h w = Some d \<Longrightarrow> md_impl d = IMPL_SDR c \<Longrightarrow> counter_src h w = counter_stream (sc_counter c)"
  by (simp add: counter_src_def)

lemma counter_reads:
  assumes "counter_ok h w" and n: "8 * n < sz_max"
  shows "\<exists>w'. sdr_read_from_counter h a n w = Some (IO_SUCCESS, n, w') \<and>
    w_heap w' = (w_heap w)\<lparr>mem := mem_write (mem (w_heap w)) a (map (counter_src h w) [0..<8 * n])\<rparr> \<and>
    counter_src h w' = (\<lambda>i. counter_src h w (8 * n + i)) \<and> counter_ok h w' \<and> chan_buf h w' = chan_buf h w"
proof -
  obtain d c where D: "machine_get_desc h w = Some d" "md_impl d = IMPL_SDR c" "sc_counter c < 0x1000000"
    using assms(1) by (auto simp: counter_ok_def)
  let ?c = "(sc_counter c + 2 * n) mod 0x1000000"
  let ?m = "mem_write (mem (w_heap w)) a (map (counter_src h w) [0..<8 * n])"
  let ?w' = "(put_chan h (c\<lparr>sc_counter := ?c\<rparr>) w)\<lparr>w_heap := (w_heap w)\<lparr>mem := ?m\<rparr>\<rparr>"
  have "sz_mul n 2 = 2 * n" using n by (simp add: sz_mul_exact)
  then have loop: "counter_loop (sz_mul n 2) a (sc_counter c) (mem (w_heap w)) = (?c, ?m)"
    using counter_loop_ok [OF D(3), of "2 * n"] counter_floats_stream [of "sc_counter c" "2 * n"] counter_srcI [OF D(1,2)] by simp
  have run: "sdr_read_from_counter h a n w = Some (IO_SUCCESS, n, ?w')"
    using D(1,2) loop by (simp add: sdr_read_from_counter_def chan_of_def)
  have D': "machine_get_desc h ?w' = Some (d\<lparr>md_impl := IMPL_SDR (c\<lparr>sc_counter := ?c\<rparr>)\<rparr>)"
    using D(1) get_put_chan [of h _ w] by (simp add: machine_get_desc_def put_chan_def upd_desc_def)
  have "counter_src h ?w' = counter_stream (sc_counter (c\<lparr>sc_counter := ?c\<rparr>))" by (rule counter_srcI [OF D']) simp
  moreover have "sc_counter (c\<lparr>sc_counter := ?c\<rparr>) = ?c" by simp
  ultimately have "counter_src h ?w' = counter_stream ?c" by (simp only:)
  also have "\<dots> = (\<lambda>i. counter_stream (sc_counter c) (8 * n + i))" using counter_stream_shift [of "sc_counter c" "2 * n"] by (simp add: fun_eq_iff)
  finally have "counter_src h ?w' = (\<lambda>i. counter_src h w (8 * n + i))" unfolding counter_srcI [OF D(1,2)] .
  moreover have "counter_ok h ?w'" using D' by (simp add: counter_ok_def)
  moreover have "chan_buf h ?w' = chan_buf h w" using chan_bufI [OF D'] chan_bufI [OF D(1,2)] by simp
  ultimately show ?thesis using run by (intro exI [of _ ?w']) simp
qed

interpretation counter: sample_source sdr_read_from_counter h B "counter_src h" "\<lambda>w. counter_ok h w \<and> 8 * B < sz_max" for h B
proof
  fix w w' g
  assume "counter_ok h w \<and> 8 * B < sz_max" and u: "upd_chan h g w = Some w'" and g: "\<And>c. \<exists>x y. g c = c\<lparr>sc_buffer := x, sc_obj := y\<rparr>"
  then obtain d c where D: "machine_get_desc h w = Some d" "md_impl d = IMPL_SDR c" "sc_counter c < 0x1000000" "8 * B < sz_max"
    by (auto simp: counter_ok_def)
  have w': "w' = put_chan h (g c) w" using upd_chan_ok [OF D(1,2), of g] u by simp
  have "sc_counter (g c) = sc_counter c" using g [of c] by auto
  moreover have "machine_get_desc h w' = Some (d\<lparr>md_impl := IMPL_SDR (g c)\<rparr>)" using D(1) get_put_chan [of h "g c" w] w' by simp
  ultimately show "counter_src h w' = counter_src h w \<and> counter_ok h w' \<and> 8 * B < sz_max"
    using D \<open>counter_ok h w \<and> 8 * B < sz_max\<close> by (auto simp: counter_src_def counter_ok_def)
qed (use counter_reads in \<open>auto simp: counter_src_def counter_ok_def machine_get_desc_def\<close>)

end
