(* ===== verification/Sdr_Radio.thy ===== *)
theory Sdr_Radio
  imports Sdr_Counter
begin

text \<open>
  Reading a radio through \<open>sdrrx_read\<close> and its ring, for all kinds of radios: the locale \<open>radio_source\<close> extends \<open>sample_source\<close> by the
  way from the filter to the function that reads the hardware.
\<close>

section \<open>Channels that are ready\<close>

text \<open>The kind of radio that a descriptor belongs to.\<close>

definition api_id_of :: "machine_desc \<Rightarrow> world \<Rightarrow> sdr_api_id option" where
  "api_id_of d w = Option.bind (get_iom (Some (md_machine d)) w) (\<lambda>(i, iom). m_obj iom)"

lemma desc_api_of: "api_id_of d w = Some i \<Longrightarrow> desc_api A d w = Some (A i)"
  by (auto simp: api_id_of_def desc_api_def bind_eq_Some_conv)

lemma handle_of_cong: "w_filters w' = w_filters w \<Longrightarrow> handle_of f w' = handle_of f w"
  by (simp add: handle_of_def get_filter_def)

lemma api_id_cong: "w_machines w' = w_machines w \<Longrightarrow> md_machine d' = md_machine d \<Longrightarrow> api_id_of d' w' = api_id_of d w"
  by (simp add: api_id_of_def get_iom_def)

text \<open>Filter \<open>f\<close> reads the channel with handle \<open>h\<close> of a radio of kind \<open>i\<close>, which was started and has a ring.\<close>

definition radio_ready :: "sdr_api_id \<Rightarrow> addr \<Rightarrow> io_handle \<Rightarrow> world \<Rightarrow> bool" where
  "radio_ready i f h w \<longleftrightarrow> handle_of f w = Some h \<and> (\<exists>d c. machine_get_desc h w = Some d \<and> md_impl d = IMPL_SDR c \<and>
     sc_state c = SDR_CHAN_READY \<and> sc_mode c = SDR_MODE_BUFFERED \<and> api_id_of d w = Some i)"

text \<open>Nothing of this is changed by reading.\<close>

lemma radio_ready_put:
  assumes "radio_ready i f h w" and "w_filters w' = w_filters w" and "w_machines w' = w_machines w"
    and "machine_get_desc h w = Some d" and "md_impl d = IMPL_SDR c" and "machine_get_desc h w' = Some (d\<lparr>md_impl := IMPL_SDR c'\<rparr>)"
    and "sc_state c' = sc_state c" and "sc_mode c' = sc_mode c"
  shows "radio_ready i f h w'"
proof -
  have "api_id_of (d\<lparr>md_impl := IMPL_SDR c'\<rparr>) w' = api_id_of d w" by (rule api_id_cong [OF assms(3)]) simp
  then show ?thesis using assms handle_of_cong [OF assms(2)] by (auto simp: radio_ready_def)
qed

lemma radio_ready_upd:
  assumes "radio_ready i f h w" and u: "upd_chan h g w = Some w'" and g: "\<And>c. sc_state (g c) = sc_state c" "\<And>c. sc_mode (g c) = sc_mode c"
  shows "radio_ready i f h w'"
proof -
  obtain d c where D: "machine_get_desc h w = Some d" "md_impl d = IMPL_SDR c" using assms(1) by (auto simp: radio_ready_def)
  have w': "w' = put_chan h (g c) w" using upd_chan_ok [OF D, of g] u by simp
  have "machine_get_desc h w' = Some (d\<lparr>md_impl := IMPL_SDR (g c)\<rparr>)" using D(1) get_put_chan [of h "g c" w] w' by simp
  moreover have "w_filters w' = w_filters w" "w_machines w' = w_machines w" by (simp_all add: w' put_chan_def upd_desc_def)
  ultimately show ?thesis using radio_ready_put [OF assms(1)] D g by metis
qed

lemma radio_ready_cong:
  assumes "w_filters w' = w_filters w" and "w_machines w' = w_machines w" and "w_descs w' = w_descs w"
  shows "radio_ready i f h w' = radio_ready i f h w"
proof -
  have "machine_get_desc h w' = machine_get_desc h w" using assms(3) by (simp add: machine_get_desc_def)
  then show ?thesis using handle_of_cong [OF assms(1)] api_id_cong [OF assms(2) refl] by (simp add: radio_ready_def)
qed

lemma sdrrx_read_buffered:
  assumes "radio_ready i f h w"
  shows "sdrrx_read S (sdr_api_of S) f buf bytes block align w = do {
    (ret, n, w') \<leftarrow> read_from_buffer S (api_hw_read (sdr_api_of S i)) h buf (bytes div 8) w;
    Some (ret, if ret < IO_SUCCESS then 0 else sz_mul n 8, w') }"
proof -
  obtain d c where D: "handle_of f w = Some h" "machine_get_desc h w = Some d" "md_impl d = IMPL_SDR c" "sc_state c = SDR_CHAN_READY"
    "sc_mode c = SDR_MODE_BUFFERED" "api_id_of d w = Some i" using assms by (auto simp: radio_ready_def)
  then show ?thesis using desc_api_of [OF D(6), of "sdr_api_of S"] unfolding sdrrx_read_def sizeof_complex_def
    by (simp add: chan_of_def sdr_make_ready_def Let_def)
qed

section \<open>A new ring\<close>

lemma blb_init_rw_ring:
  assumes E: "pool_sound E" "pool_plenty E (N * (8 * B))" and hp: "heap_ok hp" "covered hp buf (8 * n)"
    and N: "0 < N" and B: "0 < B" "8 * B < sz_max" and n: "8 * n < sz_max"
  shows "\<exists>rw es hp'. blb_init_rw E p (8 * B) N hp = Some (rw, hp') \<and> sdr_ring B N buf n [] es (rw_rp rw) (rw_wp rw) hp'"
proof -
  let ?p = "create_subpool E hp p"
  obtain ret where ret: "palloc E hp ?p sizeof_blb_rw = Some ret" using E(2) unfolding pool_plenty_def by fastforce
  let ?h0 = "hp\<lparr>live := (ret, sizeof_blb_rw) # live hp\<rparr>"
  have h0: "heap_ok ?h0" "covered ?h0 buf (8 * n)" using hp by (auto simp: heap_ok_def covered_def)
  have sz: "0 < 8 * B" using B(1) by simp
  from alloc_chain [OF E(1) h0(1) N sz E(2), of ?p] obtain c h1 h2 cs where
    A: "block_list_alloc E ?p N ?h0 = Some (c, h1)" "block_data_fastalloc E ?p c (8 * B) h1 = Some (N * (8 * B), h2)"
      "length cs = N" "distinct cs" "path (nxt h2) c cs 0" "areas (8 * B) h2 cs" "empty h2 cs" "outside buf (8 * n) (8 * B) h2 cs" "heap_ok h2"
    using h0(2) by blast
  have "cs \<noteq> []" using A(3) N by auto
  from forge_ring_list [OF A(5) this A(4)] obtain lb where lb: "blocks h2 (last cs) = Some lb"
    "forge_ring c h2 = Some (h2\<lparr>blocks := (blocks h2)(last cs \<mapsto> lb\<lparr>b_next := c\<rparr>)\<rparr>)"
    "is_ring (nxt (h2\<lparr>blocks := (blocks h2)(last cs \<mapsto> lb\<lparr>b_next := c\<rparr>)\<rparr>)) c cs" by blast
  let ?h3 = "h2\<lparr>blocks := (blocks h2)(last cs \<mapsto> lb\<lparr>b_next := c\<rparr>)\<rparr>"
  have k: "keeps h2 ?h3 cs" using lb(1) by (auto simp: keeps_def blk_def)
  have "empty ?h3 cs" using A(7) keepsD(3) [OF k] by (simp add: empty_def)
  moreover have "heap_ok ?h3" using A(9) by (rule heap_ok_mono) (use lb(1) in auto)
  ultimately have "ring_blocks (8 * B) c [] cs ?h3" using lb(3) keeps_areas [OF k A(6)] by (simp add: ring_blocks_def full_def)
  moreover have "c = hd cs" using is_ring_hd [OF lb(3)] by simp
  ultimately have "sdr_ring B N buf n [] cs c c ?h3" using B n A(3,8) \<open>cs \<noteq> []\<close> keeps_outside [OF k] by (simp add: sdr_ring_def)
  then show ?thesis using ret A(1,2) lb(2) by (auto simp: blb_init_rw_def Let_def)
qed

text \<open>A channel that was started, and has no ring yet.\<close>

definition radio_unbuffered :: "sdr_api_id \<Rightarrow> addr \<Rightarrow> io_handle \<Rightarrow> sdr_channel \<Rightarrow> world \<Rightarrow> bool" where
  "radio_unbuffered i f h c w \<longleftrightarrow> handle_of f w = Some h \<and> (\<exists>d. machine_get_desc h w = Some d \<and> md_impl d = IMPL_SDR c \<and>
     sc_state c = SDR_CHAN_READY \<and> sc_buffer c = None \<and> api_id_of d w = Some i)"

lemma radio_unbufferedI:
  assumes "handle_of f w = Some h" and "machine_get_desc h w = Some d" and "md_impl d = IMPL_SDR c" and "sc_state c = SDR_CHAN_READY"
    and "sc_buffer c = None" and "w_machines w = [m]" and "md_machine d = 0" and "m_obj m = Some i"
  shows "radio_unbuffered i f h c w"
  using assms by (simp add: radio_unbuffered_def api_id_of_def get_iom_def)

lemma enable_buffering_ring:
  assumes U: "radio_unbuffered i f h c w" and E: "pool_sound (s_mem S)" "pool_plenty (s_mem S) (N * (8 * B))"
    and hp: "heap_ok (w_heap w)" "covered (w_heap w) buf (8 * n)" and N: "0 < N" and n: "8 * n < sz_max" and B: "0 < B" "8 * B < sz_max"
  shows "\<exists>w1 d1 c1 rw es. sdrrx_enable_buffering S h B N w = Some w1 \<and> radio_ready i f h w1 \<and> w_hw w1 = w_hw w \<and>
    machine_get_desc h w1 = Some d1 \<and> md_impl d1 = IMPL_SDR c1 \<and> sc_impl c1 = sc_impl c \<and> chan_buf h w1 = Some rw \<and>
    sdr_ring B N buf n [] es (rw_rp rw) (rw_wp rw) (w_heap w1)"
proof -
  from U obtain d where D: "machine_get_desc h w = Some d" "md_impl d = IMPL_SDR c" "sc_state c = SDR_CHAN_READY" "sc_buffer c = None"
      "api_id_of d w = Some i" and f: "handle_of f w = Some h" by (auto simp: radio_unbuffered_def)
  have sz: "sz_mul B sizeof_complex = 8 * B" using B(2) by (simp add: sz_mul_exact sizeof_complex_def)
  from blb_init_rw_ring [OF E hp N B n, of "md_pool d"] obtain rw es hp' where
    R: "blb_init_rw (s_mem S) (md_pool d) (8 * B) N (w_heap w) = Some (rw, hp')" "sdr_ring B N buf n [] es (rw_rp rw) (rw_wp rw) hp'" by blast
  let ?c = "c\<lparr>sc_buffer := Some rw, sc_mode := SDR_MODE_BUFFERED\<rparr>"
  let ?w1 = "(put_chan h ?c w)\<lparr>w_heap := hp'\<rparr>"
  have run: "sdrrx_enable_buffering S h B N w = Some ?w1"
    using D sz R(1) by (simp add: sdrrx_enable_buffering_def sdrrx_enable_buffering_bytes_def chan_of_def blb_rw_destroy_def)
  have D1: "machine_get_desc h ?w1 = Some (d\<lparr>md_impl := IMPL_SDR ?c\<rparr>)"
    using D(1) get_put_chan [of h ?c w] by (simp add: machine_get_desc_def)
  have "api_id_of (d\<lparr>md_impl := IMPL_SDR ?c\<rparr>) ?w1 = api_id_of d w"
    by (rule api_id_cong) (simp_all add: put_chan_def upd_desc_def)
  moreover have "handle_of f ?w1 = handle_of f w" by (rule handle_of_cong) (simp add: put_chan_def upd_desc_def)
  ultimately have "radio_ready i f h ?w1" using D D1 f by (simp add: radio_ready_def)
  moreover have "chan_buf h ?w1 = Some rw" using D1 by (simp add: chan_buf_def chan_of_def)
  moreover have "w_hw ?w1 = w_hw w" by (simp add: put_chan_def upd_desc_def)
  moreover have "md_impl (d\<lparr>md_impl := IMPL_SDR ?c\<rparr>) = IMPL_SDR ?c" "sc_impl ?c = sc_impl c" "w_heap ?w1 = hp'" by simp_all
  ultimately show ?thesis using run D1 R(2)
    by (intro exI [of _ ?w1] exI [of _ "d\<lparr>md_impl := IMPL_SDR ?c\<rparr>"] exI [of _ ?c] exI [of _ rw] exI [of _ es]) simp
qed

section \<open>Reading through the ring\<close>

text \<open>
  The channel with handle \<open>h\<close> is \<open>ok\<close>, and its ring of \<open>N\<close> blocks of \<open>B\<close> samples holds the bytes \<open>q\<close>. The caller's buffer of \<open>n\<close> samples is
  at \<open>buf\<close>.
\<close>

definition radio_buffered :: "(world \<Rightarrow> bool) \<Rightarrow> nat \<Rightarrow> nat \<Rightarrow> io_handle \<Rightarrow> addr \<Rightarrow> nat \<Rightarrow> byte list \<Rightarrow> world \<Rightarrow> bool" where
  "radio_buffered ok B N h buf n q w \<longleftrightarrow> ok w \<and> (\<exists>rw fs es. chan_buf h w = Some rw \<and>
     sdr_ring B N buf n fs es (rw_rp rw) (rw_wp rw) (w_heap w) \<and> contents (w_heap w) fs = q)"

lemma then_stream_prefix: "then_stream (p @ q) r = s \<Longrightarrow> p = map s [0..<length p]"
  by (rule nth_equalityI) (auto simp: then_stream_def nth_append)

lemma radio_buffered_conj: "radio_buffered (\<lambda>w. P \<and> ok w) B N h buf n q w \<longleftrightarrow> P \<and> radio_buffered ok B N h buf n q w"
  by (auto simp: radio_buffered_def)

text \<open>The number of samples in the first block of a ring that holds the bytes \<open>q\<close>: all other blocks are full.\<close>

definition first_block :: "nat \<Rightarrow> byte list \<Rightarrow> nat" where
  "first_block B q = (if q = [] then 0 else Suc ((length q div 8 - 1) mod B))"

lemma head_first_block:
  assumes R: "sdr_ring B N d n fs es rp wp hp"
  shows "head_samples hp fs = first_block B (contents hp fs)"
proof (cases fs)
  case Nil
  then show ?thesis by (simp add: head_samples_def first_block_def)
next
  case (Cons a fs')
  obtain k where k: "b_bytes (blk hp a) = 8 * k" "0 < k" "k \<le> B"
    using R Cons by (auto simp: sdr_ring_def ring_blocks_def full_def mod_eq_0_iff_dvd elim!: dvdE)
  have "(\<Sum>x\<leftarrow>fs'. b_bytes (blk hp x)) = length fs' * (8 * B)"
    using R Cons by (simp add: sdr_ring_def sum_list_triv cong: map_cong)
  then have len: "length (contents hp fs) = 8 * (k + length fs' * B)" by (simp add: Cons length_contents k)
  obtain j where j: "k = Suc j" using k(2) by (cases k) auto
  have "(j + length fs' * B) mod B = j" using k(3) j by simp
  then have "Suc ((length (contents hp fs) div 8 - 1) mod B) = k" by (simp add: len j)
  moreover have "contents hp fs \<noteq> []" using len k(2) by (auto simp flip: length_0_conv)
  ultimately show ?thesis by (simp add: Cons head_samples_def first_block_def k)
qed

locale radio_source = sample_source +
  fixes S :: sys and i :: sdr_api_id and f :: addr
  assumes api: "ok w \<Longrightarrow> api_hw_read (sdr_api_of S i) = hw_read"
    and ready: "ok w \<Longrightarrow> radio_ready i f h w"
begin

lemma read_ok:
  assumes "radio_buffered ok B N h buf (bytes div 8) q w" and "pool_plenty (s_mem S) k"
  shows "sdrrx_read S (sdr_api_of S) f buf bytes block align w = Some (st, m, w') \<Longrightarrow>
      st = IO_SUCCESS \<and> m = 8 * (bytes div 8) \<and> (\<exists>q'. radio_buffered ok B N h buf (bytes div 8) q' w' \<and>
        then_stream (mem_read (mem (w_heap w')) buf m @ q') (src w') = then_stream q (src w))"
    and "fair S \<Longrightarrow> bytes div 8 \<le> (N - 1) * B \<Longrightarrow> half_ok B (first_block B q) (bytes div 8) \<Longrightarrow> sdrrx_read S (sdr_api_of S) f buf bytes block align w \<noteq> None"
proof -
  let ?n = "bytes div 8"
  from assms(1) obtain rw fs es where R: "ok w" "chan_buf h w = Some rw" "sdr_ring B N buf ?n fs es (rw_rp rw) (rw_wp rw) (w_heap w)"
    "contents (w_heap w) fs = q" by (auto simp: radio_buffered_def)
  obtain d c where D: "machine_get_desc h w = Some d" "md_impl d = IMPL_SDR c" "sc_buffer c = Some rw" by (rule chan_bufE [OF R(2)])
  have room: "pcalloc (s_mem S) (w_heap w) (md_pool d) sizeof_hw_fill \<noteq> None" using assms(2) by (simp add: pool_plenty_def)
  have read: "sdrrx_read S (sdr_api_of S) f buf bytes block align w = do {
      (ret, n, w') \<leftarrow> read_from_buffer S hw_read h buf ?n w; Some (ret, if ret < IO_SUCCESS then 0 else sz_mul n 8, w') }"
    using sdrrx_read_buffered [OF ready [OF R(1)]] api [OF R(1)] by simp
  have sz: "sz_mul ?n 8 = 8 * ?n" using R(3) by (simp add: sdr_ring_def sz_mul_exact mult.commute)
  note ok = read_from_buffer_ok [OF R(1) D room R(3)]
  show "sdrrx_read S (sdr_api_of S) f buf bytes block align w \<noteq> None"
    if "fair S" "?n \<le> (N - 1) * B" "half_ok B (first_block B q) ?n"
    using ok(2) [OF that(1,2)] that(3) head_first_block [OF R(3)] R(4) unfolding read by auto
  show "st = IO_SUCCESS \<and> m = 8 * ?n \<and> (\<exists>q'. radio_buffered ok B N h buf ?n q' w' \<and>
      then_stream (mem_read (mem (w_heap w')) buf m @ q') (src w') = then_stream q (src w))"
    if "sdrrx_read S (sdr_api_of S) f buf bytes block align w = Some (st, m, w')"
    using that ok(1) sz R(4) unfolding read radio_buffered_def
    by (cases "read_from_buffer S hw_read h buf ?n w") (auto, blast)
qed

text \<open>From an empty ring, the caller gets what the radio gives.\<close>

lemma first_read:
  assumes "radio_buffered ok B N h buf (bytes div 8) [] w" and "pool_plenty (s_mem S) k" and "fair S" and "bytes div 8 \<le> (N - 1) * B"
    and "half_ok B 0 (bytes div 8)"
  shows "\<exists>w'. sdrrx_read S (sdr_api_of S) f buf bytes block align w = Some (IO_SUCCESS, 8 * (bytes div 8), w') \<and>
    mem_read (mem (w_heap w')) buf (8 * (bytes div 8)) = map (src w) [0..<8 * (bytes div 8)]"
proof -
  note read = read_ok [OF assms(1,2)]
  obtain st m w' where r: "sdrrx_read S (sdr_api_of S) f buf bytes block align w = Some (st, m, w')" using read(2) [OF assms(3,4)] assms(5) by (fastforce simp: first_block_def)
  from read(1) [OF r] obtain q' where q': "st = IO_SUCCESS" "m = 8 * (bytes div 8)"
    "then_stream (mem_read (mem (w_heap w')) buf m @ q') (src w') = then_stream [] (src w)" by blast
  have "then_stream [] r = r" for r by (simp add: then_stream_def fun_eq_iff)
  then show ?thesis using r q' then_stream_prefix [OF q'(3)] by simp
qed

end

end
