(* ===== verification/Rtl_Source.thy ===== *)
theory Rtl_Source
  imports Sdr_Radio
begin

text \<open>
  An RTL-SDR as a sample source: \<open>read_from_hw\<close> of \<open>src/sdr/rtlsdr-machine.c\<close>, with a library that gives as many bytes as are
  asked for.
\<close>

section \<open>Conversion in place\<close>

text \<open>The floats grow towards the bytes that are still to be converted, and do not reach them.\<close>

lemma uint8_to_float_loop_ok:
  assumes "f + 3 * (i + k) \<le> u"
  shows "uint8_to_float_loop k i f u m = mem_write m (f + 4 * i) (float_array (map rtl_sample (mem_read m (u + i) k)))"
  using assms
proof (induction k arbitrary: i m)
  case (Suc k)
  let ?x = "rtl_sample (m (u + i))"
  let ?m = "mem_write m (f + 4 * i) (float_bytes ?x)"
  have "disj (f + 4 * i) (length (float_bytes ?x)) (u + Suc i) k" using Suc.prems by (simp add: disj_def)
  then have rest: "mem_read ?m (u + Suc i) k = mem_read m (u + Suc i) k" by (rule mem_read_disj)
  have "mem_read m (u + i) (Suc k) = m (u + i) # mem_read m (u + Suc i) k" using mem_read_add [of m "u + i" 1 k] by (simp add: mem_read_def)
  then have "mem_write m (f + 4 * i) (float_array (map rtl_sample (mem_read m (u + i) (Suc k)))) =
      mem_write ?m (f + 4 * Suc i) (float_array (map rtl_sample (mem_read m (u + Suc i) k)))"
    using mem_write_append [of m "f + 4 * i" "float_bytes ?x"] by (simp add: ac_simps)
  then show ?case using Suc.IH [of "Suc i" ?m] Suc.prems unfolding rest by simp
qed simp

lemma uint8_to_float_ok:
  assumes "f + 6 * n \<le> u"
  shows "uint8_to_float f u n m = mem_write m f (float_array (map rtl_sample (mem_read m u (sz_mul n 2))))"
proof -
  have "sz_mul n 2 \<le> n * 2" unfolding sz_mul_def by (rule mod_less_eq_dividend)
  then show ?thesis using uint8_to_float_loop_ok [of f 0 "sz_mul n 2" u m] assms by (simp add: uint8_to_float_def)
qed

section \<open>Reading\<close>

text \<open>The library gives as many bytes as are asked for.\<close>

definition rtl_plenty :: "rtl_lib \<Rightarrow> nat \<Rightarrow> nat \<Rightarrow> bool" where
  "rtl_plenty L dev k \<longleftrightarrow> (\<forall>m. fst (rtlsdr_read_sync L m dev (int k)) = 0 \<and> length (snd (rtlsdr_read_sync L m dev (int k))) = k)"

lemma mem_write_over:
  "a \<le> b \<Longrightarrow> b + length ys \<le> a + length xs \<Longrightarrow> mem_write (mem_write m b ys) a xs = mem_write m a xs"
  by (auto simp: mem_write_def fun_eq_iff)

lemma rtl_read_block:
  assumes "rtl_chan h w = Some (c, r)" and plenty: "rtl_plenty (s_rtl S) (rc_sdr r) (2 * n)" and n: "2 * n < 2 ^ 31"
  defines "bs \<equiv> snd (rtlsdr_read_sync (s_rtl S) (w_hw w) (rc_sdr r) (int (2 * n)))"
  assumes "0 < n"
  shows "rtl_read_from_hw S h buf n w = Some (IO_SUCCESS, n, w\<lparr>w_hw := Suc (w_hw w),
    w_heap := (w_heap w)\<lparr>mem := mem_write (mem (w_heap w)) buf (float_array (map rtl_sample bs))\<rparr>\<rparr>)"
proof -
  let ?u = "buf + 8 * n - 2 * n" and ?m = "mem (w_heap w)"
  have len: "length bs = 2 * n" and ok: "rtlsdr_read_sync (s_rtl S) (w_hw w) (rc_sdr r) (int (2 * n)) = (0, bs)"
    using plenty by (auto simp: rtl_plenty_def bs_def prod_eq_iff)
  have arith: "sz_mul n 2 = 2 * n" "to_int32 (sz_mul n 2) = int (2 * n)" "sz_sub n n = 0" "sz_add 0 n = n" "?u = buf + 6 * n"
    using n by (simp_all add: to_int32_def sz_mul_exact sz_sub_exact sz_add_exact sz_max_def)
  let ?w = "w\<lparr>w_hw := Suc (w_hw w), w_heap := (w_heap w)\<lparr>mem := mem_write ?m ?u bs\<rparr>\<rparr>"
  have loop: "rtl_read_loop S (rc_sdr r) ?u n 0 w = Some (IO_SUCCESS, n, ?w)"
    using \<open>0 < n\<close> ok len arith by (subst rtl_read_loop.simps, subst rtl_read_loop.simps) (simp add: hw_call_def)
  have "mem_read (mem_write ?m ?u bs) ?u (2 * n) = bs" using mem_read_same [of ?m ?u bs] len by simp
  then have "uint8_to_float buf ?u n (mem_write ?m ?u bs) = mem_write (mem_write ?m ?u bs) buf (float_array (map rtl_sample bs))"
    using uint8_to_float_ok [of buf n ?u "mem_write ?m ?u bs"] arith(1) by simp
  also have "\<dots> = mem_write ?m buf (float_array (map rtl_sample bs))" using len by (intro mem_write_over) simp_all
  finally show ?thesis using assms(1) loop by (simp add: rtl_read_from_hw_def)
qed

text \<open>The bytes from here on: those of the next calls of the library, block by block, as floats.\<close>

definition rtl_stream :: "rtl_lib \<Rightarrow> nat \<Rightarrow> nat \<Rightarrow> nat \<Rightarrow> nat \<Rightarrow> byte" where
  "rtl_stream L dev B k i = float_array (map rtl_sample (snd (rtlsdr_read_sync L (k + i div (8 * B)) dev (int (2 * B))))) ! (i mod (8 * B))"

definition rtl_src :: "sys \<Rightarrow> nat \<Rightarrow> io_handle \<Rightarrow> world \<Rightarrow> nat \<Rightarrow> byte" where
  "rtl_src S B h w = (case rtl_chan h w of Some (c, r) \<Rightarrow> rtl_stream (s_rtl S) (rc_sdr r) B (w_hw w) | None \<Rightarrow> (\<lambda>i. 0))"

definition rtl_ok :: "nat \<Rightarrow> io_handle \<Rightarrow> rtlsdr_channel \<Rightarrow> world \<Rightarrow> bool" where
  "rtl_ok B h r w \<longleftrightarrow> 0 < B \<and> 2 * B < 2 ^ 31 \<and> (\<exists>c. rtl_chan h w = Some (c, r))"

lemma rtl_stream_block:
  assumes "rtl_plenty L dev (2 * B)"
  shows "map (rtl_stream L dev B k) [0..<8 * B] = float_array (map rtl_sample (snd (rtlsdr_read_sync L k dev (int (2 * B)))))"
  using assms by (intro nth_equalityI) (auto simp: rtl_stream_def rtl_plenty_def)

lemma rtl_stream_Suc: "0 < B \<Longrightarrow> rtl_stream L dev B (Suc k) = (\<lambda>i. rtl_stream L dev B k (8 * B + i))"
  by (simp add: rtl_stream_def fun_eq_iff)

lemma rtl_chan_frame: "rtl_chan h (w\<lparr>w_heap := hp\<rparr>) = rtl_chan h w" "rtl_chan h (w\<lparr>w_turn := t\<rparr>) = rtl_chan h w"
  "rtl_chan h (w\<lparr>w_hw := k\<rparr>) = rtl_chan h w"
  by (simp_all add: rtl_chan_def machine_get_desc_def)

lemma rtl_src_frame: "rtl_src S B h (w\<lparr>w_heap := hp\<rparr>) = rtl_src S B h w" "rtl_src S B h (w\<lparr>w_turn := t\<rparr>) = rtl_src S B h w"
  by (simp_all add: rtl_src_def rtl_chan_frame split: option.split)

lemma rtl_reads:
  assumes "rtl_ok B h r w" and plenty: "rtl_plenty (s_rtl S) (rc_sdr r) (2 * B)"
  shows "\<exists>w'. rtl_read_from_hw S h a B w = Some (IO_SUCCESS, B, w') \<and>
    w_heap w' = (w_heap w)\<lparr>mem := mem_write (mem (w_heap w)) a (map (rtl_src S B h w) [0..<8 * B])\<rparr> \<and>
    rtl_src S B h w' = (\<lambda>i. rtl_src S B h w (8 * B + i)) \<and> rtl_ok B h r w' \<and> chan_buf h w' = chan_buf h w"
proof -
  obtain c where C: "rtl_chan h w = Some (c, r)" "rtl_plenty (s_rtl S) (rc_sdr r) (2 * B)" and B: "0 < B" "2 * B < 2 ^ 31"
    using assms by (auto simp: rtl_ok_def)
  let ?hp = "(w_heap w)\<lparr>mem := mem_write (mem (w_heap w)) a (float_array (map rtl_sample
      (snd (rtlsdr_read_sync (s_rtl S) (w_hw w) (rc_sdr r) (int (2 * B))))))\<rparr>"
  let ?w' = "w\<lparr>w_hw := Suc (w_hw w), w_heap := ?hp\<rparr>"
  have run: "rtl_read_from_hw S h a B w = Some (IO_SUCCESS, B, ?w')" using rtl_read_block [OF C B(2,1)] by simp
  have C': "rtl_chan h ?w' = Some (c, r)" using C(1) by (simp add: rtl_chan_frame)
  have "rtl_src S B h w = rtl_stream (s_rtl S) (rc_sdr r) B (w_hw w)" using C(1) by (simp add: rtl_src_def)
  moreover have "rtl_src S B h ?w' = rtl_stream (s_rtl S) (rc_sdr r) B (Suc (w_hw w))" using C' by (simp add: rtl_src_def)
  moreover have "chan_buf h ?w' = chan_buf h w" by (simp add: chan_buf_def machine_get_desc_def)
  moreover have "rtl_ok B h r ?w'" using C' B by (simp add: rtl_ok_def)
  ultimately show ?thesis using run rtl_stream_Suc [OF B(1)] rtl_stream_block [OF C(2)] by simp
qed

lemma rtl_chan_upd:
  assumes "rtl_chan h w = Some (c, r)" and u: "upd_chan h g w = Some w'" and g: "\<And>c. sc_impl (g c) = sc_impl c"
  shows "rtl_chan h w' = Some (g c, r)" and "w_hw w' = w_hw w"
proof -
  obtain d where D: "machine_get_desc h w = Some d" "md_impl d = IMPL_SDR c" "rtl_of c = Some r"
    using assms(1) by (auto simp: rtl_chan_def bind_eq_Some_conv)
  have w': "w' = put_chan h (g c) w" using upd_chan_ok [OF D(1,2), of g] u by simp
  then have "machine_get_desc h w' = Some (d\<lparr>md_impl := IMPL_SDR (g c)\<rparr>)" using D(1) get_put_chan [of h "g c" w] by simp
  then show "rtl_chan h w' = Some (g c, r)" using D(3) g by (simp add: rtl_chan_def chan_of_def rtl_of_def)
  show "w_hw w' = w_hw w" by (simp add: w' put_chan_def upd_desc_def)
qed

text \<open>The channel \<open>r\<close> is ready to be read through filter \<open>f\<close>, by blocks of \<open>B\<close> samples.\<close>

definition rtl_ready :: "nat \<Rightarrow> addr \<Rightarrow> io_handle \<Rightarrow> rtlsdr_channel \<Rightarrow> world \<Rightarrow> bool" where
  "rtl_ready B f h r w \<longleftrightarrow> rtl_ok B h r w \<and> radio_ready API_RTLSDR f h w"

lemma rtl_ready_frame: "rtl_ready B f h r (w\<lparr>w_heap := hp\<rparr>) = rtl_ready B f h r w" "rtl_ready B f h r (w\<lparr>w_turn := t\<rparr>) = rtl_ready B f h r w"
  using radio_ready_cong [of "w\<lparr>w_heap := hp\<rparr>" w] radio_ready_cong [of "w\<lparr>w_turn := t\<rparr>" w]
  by (simp_all add: rtl_ready_def rtl_ok_def rtl_chan_frame)

interpretation rtl: radio_source "rtl_read_from_hw S" h B "rtl_src S B h"
    "\<lambda>w. rtl_plenty (s_rtl S) (rc_sdr r) (2 * B) \<and> rtl_ready B f h r w" S API_RTLSDR f for S h B f r
proof
  fix w a
  assume "rtl_plenty (s_rtl S) (rc_sdr r) (2 * B) \<and> rtl_ready B f h r w"
  then have ok: "rtl_ready B f h r w" and plenty: "rtl_plenty (s_rtl S) (rc_sdr r) (2 * B)" by simp_all
  then obtain c where "rtl_chan h w = Some (c, r)" "0 < B" "2 * B < 2 ^ 31"
    by (auto simp: rtl_ready_def rtl_ok_def)
  note block = rtl_read_block [OF this(1) plenty this(3,2), of a]
  from ok have "rtl_ok B h r w" by (simp add: rtl_ready_def)
  from rtl_reads [OF this plenty, of a] obtain w' where R: "rtl_read_from_hw S h a B w = Some (IO_SUCCESS, B, w')"
      "w_heap w' = (w_heap w)\<lparr>mem := mem_write (mem (w_heap w)) a (map (rtl_src S B h w) [0..<8 * B])\<rparr>"
      "rtl_src S B h w' = (\<lambda>i. rtl_src S B h w (8 * B + i))" "rtl_ok B h r w'" "chan_buf h w' = chan_buf h w" by blast
  have "w_filters w' = w_filters w" "w_machines w' = w_machines w" "w_descs w' = w_descs w" using block R(1) by auto
  then have "rtl_ready B f h r w'" using ok R(4) radio_ready_cong [of w' w] by (simp add: rtl_ready_def)
  with R plenty show "\<exists>w'. rtl_read_from_hw S h a B w = Some (IO_SUCCESS, B, w') \<and>
      w_heap w' = (w_heap w)\<lparr>mem := mem_write (mem (w_heap w)) a (map (rtl_src S B h w) [0..<8 * B])\<rparr> \<and>
      rtl_src S B h w' = (\<lambda>i. rtl_src S B h w (8 * B + i)) \<and>
      (rtl_plenty (s_rtl S) (rc_sdr r) (2 * B) \<and> rtl_ready B f h r w') \<and> chan_buf h w' = chan_buf h w"
    by blast
next
  fix w w' g
  assume ok: "rtl_plenty (s_rtl S) (rc_sdr r) (2 * B) \<and> rtl_ready B f h r w" and u: "upd_chan h g w = Some w'"
    and g: "\<And>c. \<exists>x y. g c = c\<lparr>sc_buffer := x, sc_obj := y\<rparr>"
  obtain c where C: "rtl_chan h w = Some (c, r)" using ok by (auto simp: rtl_ready_def rtl_ok_def)
  have same: "sc_impl (g c) = sc_impl c" "sc_state (g c) = sc_state c" "sc_mode (g c) = sc_mode c" for c using g [of c] by auto
  note R = rtl_chan_upd [OF C u same(1)]
  have "radio_ready API_RTLSDR f h w'" using ok radio_ready_upd [OF _ u same(2,3)] by (simp add: rtl_ready_def)
  then show "rtl_src S B h w' = rtl_src S B h w \<and> rtl_plenty (s_rtl S) (rc_sdr r) (2 * B) \<and> rtl_ready B f h r w'" using C R ok by (simp add: rtl_src_def rtl_ready_def rtl_ok_def)
qed (simp_all add: rtl_src_frame rtl_ready_frame, simp_all add: rtl_ready_def sdr_api_of_def rtlsdr_api_def)

section \<open>A device that fails\<close>

definition rtl_broken :: "sys \<Rightarrow> io_handle \<Rightarrow> world \<Rightarrow> bool" where
  "rtl_broken S h w \<longleftrightarrow> (\<exists>c r. rtl_chan h w = Some (c, r) \<and> (\<forall>m k. \<exists>e. e \<noteq> 0 \<and> rtlsdr_read_sync (s_rtl S) m (rc_sdr r) k = (e, [])))"

interpretation broken_rtl: broken_source "rtl_read_from_hw S" h "rtl_broken S h" for S h
proof
  fix w :: world and n a :: nat
  assume "rtl_broken S h w" and n: "0 < n"
  then obtain c r where C: "rtl_chan h w = Some (c, r)" "\<And>m k. \<exists>e. e \<noteq> 0 \<and> rtlsdr_read_sync (s_rtl S) m (rc_sdr r) k = (e, [])"
    by (auto simp: rtl_broken_def)
  let ?w = "w\<lparr>w_hw := Suc (w_hw w)\<rparr>"
  obtain e where "e \<noteq> 0" "rtlsdr_read_sync (s_rtl S) (w_hw w) (rc_sdr r) (to_int32 (sz_mul n 2)) = (e, [])" using C(2) by blast
  then have "rtl_read_loop S (rc_sdr r) (a + 8 * n - 2 * n) n 0 w = Some (IO_ERROR, 0, ?w)"
    using n by (subst rtl_read_loop.simps) (simp add: hw_call_def)
  then have "rtl_read_from_hw S h a n w = Some (IO_ERROR, 0, ?w)" using C(1) by (simp add: rtl_read_from_hw_def)
  moreover have "rtl_broken S h ?w" using C by (auto simp: rtl_broken_def rtl_chan_frame)
  moreover have "chan_buf h ?w = chan_buf h w" by (simp add: chan_buf_def machine_get_desc_def)
  ultimately show "\<exists>st k w'. rtl_read_from_hw S h a n w = Some (st, k, w') \<and> st < IO_SUCCESS \<and> w_heap w' = w_heap w \<and>
      rtl_broken S h w' \<and> chan_buf h w' = chan_buf h w" by fastforce
next
  fix w w' g
  assume "rtl_broken S h w" and u: "put_rw h g w = Some w'"
  then obtain c r where "rtl_chan h w = Some (c, r)" "\<forall>m k. \<exists>e. e \<noteq> 0 \<and> rtlsdr_read_sync (s_rtl S) m (rc_sdr r) k = (e, [])"
    by (auto simp: rtl_broken_def)
  then show "rtl_broken S h w'" using rtl_chan_upd [OF _ u [unfolded put_rw_def]] by (auto simp: rtl_broken_def)
qed (simp_all add: rtl_broken_def rtl_chan_frame)

end
