(* ===== verification/Sdr_Properties.thy ===== *)
theory Sdr_Properties
  imports Rtl_Source Demo_World
begin

text \<open>
  Properties of the radio machines: reading through the ring of blocks that a thread of its own fills, from the call that
  makes the ring on; a radio that fails; the conversion of the samples of an RTL-SDR.
\<close>

section \<open>A radio\<close>

text \<open>One RTL-SDR, created and started by a read of no samples.\<close>

definition rtl_world :: world where
  "rtl_world = (case new_rtlsdr_rx_machine demo_sys (sdr_api_of demo_sys) None empty_world of
      Some (h, w) \<Rightarrow> (case sdrrx_read demo_sys (sdr_api_of demo_sys) 983 1 0 IO_BLOCK 1 w of Some (st, n, w') \<Rightarrow> w' | None \<Rightarrow> w)
    | None \<Rightarrow> empty_world)"

lemmas rtl_create_defs = new_rtlsdr_rx_machine_def get_rtlsdr_rx_machine_def sdr_init_machine_functions_def sdr_create_def sdr_api_of_def
  rtlsdr_api_def rtl_create_device_def rtl_create_channel_def rtl_create_rx_filter_def hw_call_def demo_rtl_def sizeof_rtlsdr_device_def
  sizeof_rtlsdr_channel_def zero_channel_def sdr_init_filters_def add_channel_def add_device_def get_dev_def SDR_RX_CHAN_ALLOC_def
  sizeof_chan_ptr_def RTLSDR_GAIN_MODE_MANUAL_def

lemmas rtl_start_defs = sdrrx_read_def handle_of_def machine_get_desc_def chan_of_def desc_api_def sdr_make_ready_def rtlsdr_channel_set_def
  rtl_chan_def rtl_of_def dbl_to_u32_def trunc_def select_rtl_gain_def dbl_to_int_def sgl_def rnd_def rtlsdr_channel_start_def dbl_def
  dbl_to_size_def start_loop.simps upd_chan_def put_chan_def upd_desc_def rtl_read_from_hw_def rtl_read_loop.simps uint8_to_float_def
  sizeof_complex_def sz_mul_def

definition rtl_view :: "world \<Rightarrow> io_handle option \<times> machine_desc option \<times> iom list \<times> (addr \<Rightarrow> block option) \<times> bool" where
  "rtl_view w = (handle_of 983 w, machine_get_desc 1 w, w_machines w, blocks (w_heap w), (1, 64) \<in> set (live (w_heap w)))"

lemma rtl_world_view:
  "\<exists>d c m. rtl_view rtl_world = (Some 1, Some d, [m], Map.empty, True) \<and> md_impl d = IMPL_SDR c \<and> md_machine d = 0 \<and>
     m_obj m = Some API_RTLSDR \<and> sc_state c = SDR_CHAN_READY \<and> sc_buffer c = None \<and>
     sc_impl c = SDR_RTL \<lparr>rc_sdr = 7, rc_gain_vals = [0, 90, 140], rc_gain_mode = 1, rc_test_mode = 0\<rparr>"
  by (simp add: rtl_world_def rtl_view_def setup_defs rtl_create_defs rtl_start_defs)

section \<open>Reading a radio through its buffer\<close>

text \<open>
  Filter \<open>f\<close> reads the channel \<open>r\<close> with handle \<open>h\<close> of an RTL-SDR, by blocks of \<open>B\<close> samples, through a ring of \<open>N\<close> blocks that holds
  the bytes \<open>q\<close>. The caller's buffer of \<open>n\<close> samples is at \<open>buf\<close>.
\<close>

definition rtl_buffered :: "nat \<Rightarrow> nat \<Rightarrow> addr \<Rightarrow> io_handle \<Rightarrow> rtlsdr_channel \<Rightarrow> addr \<Rightarrow> nat \<Rightarrow> byte list \<Rightarrow> world \<Rightarrow> bool" where
  "rtl_buffered B N f h r buf n q w \<longleftrightarrow> radio_buffered (rtl_ready B f h r) B N h buf n q w"

lemma rtl_bufferedI: "rtl_plenty (s_rtl S) (rc_sdr r) (2 * B) \<Longrightarrow> rtl_buffered B N f h r buf n q w \<Longrightarrow>
    radio_buffered (\<lambda>w. rtl_plenty (s_rtl S) (rc_sdr r) (2 * B) \<and> rtl_ready B f h r w) B N h buf n q w"
  by (simp add: rtl_buffered_def radio_buffered_conj)

text \<open>A channel that is ready, and not buffered yet.\<close>

definition rtl_unbuffered :: "nat \<Rightarrow> addr \<Rightarrow> io_handle \<Rightarrow> rtlsdr_channel \<Rightarrow> world \<Rightarrow> bool" where
  "rtl_unbuffered B f h r w \<longleftrightarrow> 0 < B \<and> 2 * B < 2 ^ 31 \<and>
     (\<exists>c. radio_unbuffered API_RTLSDR f h c w \<and> sc_impl c = SDR_RTL r)"

lemma enable_buffering_ok:
  assumes U: "rtl_unbuffered B f h r w" and E: "pool_sound (s_mem S)" "pool_plenty (s_mem S) (N * (8 * B))"
    and hp: "heap_ok (w_heap w)" "covered (w_heap w) buf (8 * n)" and N: "0 < N" and n: "8 * n < sz_max"
  shows "\<exists>w1. sdrrx_enable_buffering S h B N w = Some w1 \<and> rtl_buffered B N f h r buf n [] w1 \<and>
    rtl_src S B h w1 = rtl_stream (s_rtl S) (rc_sdr r) B (w_hw w)"
proof -
  from U obtain c where c: "radio_unbuffered API_RTLSDR f h c w" "sc_impl c = SDR_RTL r" and B: "0 < B" "2 * B < 2 ^ 31"
    by (auto simp: rtl_unbuffered_def)
  have "8 * B < sz_max" using B(2) by (simp add: sz_max_def)
  from enable_buffering_ring [OF c(1) E hp N n B(1) this] obtain w1 d1 c1 rw es where
    R: "sdrrx_enable_buffering S h B N w = Some w1" "radio_ready API_RTLSDR f h w1" "w_hw w1 = w_hw w" "machine_get_desc h w1 = Some d1"
      "md_impl d1 = IMPL_SDR c1" "sc_impl c1 = sc_impl c" "chan_buf h w1 = Some rw" "sdr_ring B N buf n [] es (rw_rp rw) (rw_wp rw) (w_heap w1)"
    by blast
  have C1: "rtl_chan h w1 = Some (c1, r)" using R(4-6) c(2) by (simp add: rtl_chan_def chan_of_def rtl_of_def)
  then have "rtl_ready B f h r w1" using R(2) B by (simp add: rtl_ready_def rtl_ok_def)
  then have "rtl_buffered B N f h r buf n [] w1" using R(7,8) by (auto simp: rtl_buffered_def radio_buffered_def)
  moreover have "rtl_src S B h w1 = rtl_stream (s_rtl S) (rc_sdr r) B (w_hw w)" using C1 R(3) by (simp add: rtl_src_def)
  ultimately show ?thesis using R(1) by blast
qed

text \<open>The radio above, with a ring of three blocks of four samples, and the buffer of 64 bytes at address 1.\<close>

definition demo_rtl_channel :: rtlsdr_channel where
  "demo_rtl_channel = \<lparr>rc_sdr = 7, rc_gain_vals = [0, 90, 140], rc_gain_mode = 1, rc_test_mode = 0\<rparr>"

definition rtl_ring_world :: world where
  "rtl_ring_world = the (sdrrx_enable_buffering demo_sys 1 4 3 rtl_world)"

lemma rtl_world_ok: "rtl_unbuffered 4 983 1 demo_rtl_channel rtl_world" "heap_ok (w_heap rtl_world)" "covered (w_heap rtl_world) 1 64"
proof -
  obtain c where "radio_unbuffered API_RTLSDR 983 1 c rtl_world" "sc_impl c = SDR_RTL demo_rtl_channel"
    using rtl_world_view by (auto simp: rtl_view_def demo_rtl_channel_def intro: radio_unbufferedI)
  then show "rtl_unbuffered 4 983 1 demo_rtl_channel rtl_world" by (auto simp: rtl_unbuffered_def)
  show "heap_ok (w_heap rtl_world)" "covered (w_heap rtl_world) 1 64" using rtl_world_view by (auto simp: rtl_view_def heap_ok_def covered_def)
qed

lemma rtl_plenty_demo: "rtl_plenty (s_rtl demo_sys) (rc_sdr demo_rtl_channel) (2 * k)"
  by (simp add: rtl_plenty_def demo_sys_def demo_rtl_def demo_rtl_channel_def)

lemma fair_demo_sys: "fair demo_sys"
proof -
  have "\<exists>t' \<ge> t. even t'" "\<exists>t' \<ge> t. odd t'" for t :: nat
    by (rule exI [of _ "2 * t"], simp) (rule exI [of _ "2 * t + 1"], simp)
  then show ?thesis by (simp add: fair_def demo_sys_def)
qed

lemma rtl_ring_world_ok: "sdrrx_enable_buffering demo_sys 1 4 3 rtl_world = Some rtl_ring_world" "rtl_buffered 4 3 983 1 demo_rtl_channel 1 8 [] rtl_ring_world"
  using enable_buffering_ok [OF rtl_world_ok(1) demo_sys_ok(1) demo_sys_ok(2) rtl_world_ok(2), of 3 1 8] rtl_world_ok(3)
  by (auto simp: rtl_ring_world_def sz_max_def)

text \<open>C3. Reading an RTL-SDR through its buffer of \<open>N\<close> blocks of \<open>B\<close> samples, while another thread fills it, with a library that gives all the bytes
  of every call and no errors. Whatever the scheduler does, a read that returns is a
  success with all the samples that were asked for, and no sample is lost, doubled or out of order: what is now in the caller's buffer,
  then what the ring holds, then what the radio will give is what the ring held and the radio would have given before. The read returns
  if both threads get to run again and again, if no more is asked for than all blocks but one hold, and if the request
  ends at the end of a block or leaves no more of a block than it takes from it (else the rest is moved by a \<open>memcpy\<close> onto itself).\<close>

theorem rtlsdr_buffered_read:
  assumes "rtl_buffered B N f h r buf (bytes div 8) q w" and "rtl_plenty (s_rtl S) (rc_sdr r) (2 * B)" and "pool_plenty (s_mem S) 0"
  shows "(\<forall>st k w'. sdrrx_read S (sdr_api_of S) f buf bytes block align w = Some (st, k, w') \<longrightarrow>
      st = IO_SUCCESS \<and> k = 8 * (bytes div 8) \<and> (\<exists>q'. rtl_buffered B N f h r buf (bytes div 8) q' w' \<and>
        then_stream (mem_read (mem (w_heap w')) buf k @ q') (rtl_src S B h w') = then_stream q (rtl_src S B h w))) \<and>
    (fair S \<longrightarrow> bytes div 8 \<le> (N - 1) * B \<longrightarrow> half_ok B (first_block B q) (bytes div 8) \<longrightarrow>
      sdrrx_read S (sdr_api_of S) f buf bytes block align w \<noteq> None)"
  using rtl.read_ok [OF rtl_bufferedI [OF assms(2,1)] assms(3)] unfolding rtl_buffered_def radio_buffered_conj by blast

theorem rtlsdr_buffered_read_witness:
  "\<exists>w' q'. sdrrx_read demo_sys (sdr_api_of demo_sys) 983 1 64 IO_BLOCK 1 rtl_ring_world = Some (IO_SUCCESS, 64, w') \<and>
     rtl_buffered 4 3 983 1 demo_rtl_channel 1 8 q' w' \<and>
     then_stream (mem_read (mem (w_heap w')) 1 64 @ q') (rtl_src demo_sys 4 1 w') = then_stream [] (rtl_src demo_sys 4 1 rtl_ring_world)"
  using rtlsdr_buffered_read [of 4 3 983 1 demo_rtl_channel 1 64 "[]" rtl_ring_world demo_sys IO_BLOCK 1] rtl_ring_world_ok(2)
    rtl_plenty_demo [of 4] demo_sys_ok(2) [of 0] fair_demo_sys
  by (fastforce simp: half_ok_def first_block_def)

text \<open>C22. The first read after \<open>sdrrx_enable_buffering\<close> has made a ring of \<open>N\<close> blocks of \<open>B\<close> samples, with a library that gives all the bytes of every
  call, for no more than all blocks but one hold, and ending at the end of a block or taking at least half of its last block: under a fair
  scheduler it returns, and the caller's buffer has the samples of the next calls of the library, in order, each byte turned into a float.\<close>

theorem rtlsdr_first_samples:
  assumes "rtl_unbuffered B f h r w" and "rtl_plenty (s_rtl S) (rc_sdr r) (2 * B)" and "pool_sound (s_mem S)" "pool_plenty (s_mem S) (N * (8 * B))" and "heap_ok (w_heap w)"
    and "covered (w_heap w) buf (8 * (bytes div 8))" and "0 < N" and "bytes < sz_max" and "fair S" and "bytes div 8 \<le> (N - 1) * B"
    and "half_ok B 0 (bytes div 8)"
  shows "\<exists>w1 w2. sdrrx_enable_buffering S h B N w = Some w1 \<and>
    sdrrx_read S (sdr_api_of S) f buf bytes block align w1 = Some (IO_SUCCESS, 8 * (bytes div 8), w2) \<and>
    mem_read (mem (w_heap w2)) buf (8 * (bytes div 8)) = map (rtl_stream (s_rtl S) (rc_sdr r) B (w_hw w)) [0..<8 * (bytes div 8)]"
proof -
  have "8 * (bytes div 8) < sz_max" using assms(8) by (simp add: sz_max_def)
  from enable_buffering_ok [OF assms(1,3-7) this] obtain w1 where
    w1: "sdrrx_enable_buffering S h B N w = Some w1" "rtl_buffered B N f h r buf (bytes div 8) [] w1"
      "rtl_src S B h w1 = rtl_stream (s_rtl S) (rc_sdr r) B (w_hw w)" by blast
  from rtl.first_read [OF rtl_bufferedI [OF assms(2) w1(2)] assms(4,9-11)] show ?thesis using w1(1,3) by simp
qed

theorem rtlsdr_first_samples_witness:
  "\<exists>w2. sdrrx_read demo_sys (sdr_api_of demo_sys) 983 1 64 IO_BLOCK 1 rtl_ring_world = Some (IO_SUCCESS, 64, w2) \<and>
    mem_read (mem (w_heap w2)) 1 64 = map (rtl_stream demo_rtl 7 4 (w_hw rtl_world)) [0..<64]"
proof -
  have "pool_plenty (s_mem demo_sys) (3 * (8 * 4))" by (rule demo_sys_ok(2)) simp
  from rtlsdr_first_samples [OF rtl_world_ok(1) rtl_plenty_demo demo_sys_ok(1) this rtl_world_ok(2), of 1 64 IO_BLOCK 1] show ?thesis
    using rtl_world_ok(3) fair_demo_sys rtl_ring_world_ok(1) by (auto simp: sz_max_def demo_sys_def demo_rtl_channel_def half_ok_def)
qed

text \<open>C37. A device whose reads fail, read through the buffer when the ring holds less than the request: the error is stored in a block that stays
  empty, and the reader waits for that block. Under no scheduler does the read return, so no error is reported.\<close>

theorem rtlsdr_error_not_reported:
  assumes "radio_ready API_RTLSDR f h w" and "rtl_broken S h w" and "chan_buf h w = Some rw"
    and "sdr_ring B N buf (bytes div 8) fs es (rw_rp rw) (rw_wp rw) (w_heap w)" and "length (contents (w_heap w) fs) < 8 * (bytes div 8)"
  shows "sdrrx_read S (sdr_api_of S) f buf bytes block align w = None"
proof -
  let ?n = "bytes div 8"
  obtain d c where D: "machine_get_desc h w = Some d" "md_impl d = IMPL_SDR c" "sc_buffer c = Some rw" by (rule chan_bufE [OF assms(3)])
  have wait: "broken_rtl.waiting h S B N buf ?n fs es (first_step buf ?n rw) w'"
    if "sdr_ring B N buf ?n fs es (rw_rp rw) (rw_wp rw) (w_heap w')" "contents (w_heap w') fs = contents (w_heap w) fs" "chan_buf h w' = Some rw" "rtl_broken S h w'" for w'
    using that assms(5) by (simp add: broken_rtl.waiting_def lacking_def first_step_def)
  have live: "broken_rtl.waiting h S B N buf ?n fs es (first_step buf ?n rw) (add_live a sizeof_hw_fill w)" for a
    by (rule wait) (use assms(2-4) ring_live in \<open>simp_all add: add_live_def broken_rtl.other\<close>)
  note never = broken_rtl.broken_run_never [OF wait [OF assms(4) refl assms(3,2)]] broken_rtl.broken_run_never [OF live]
  have "read_from_buffer S (rtl_read_from_hw S) h buf ?n w = None"
    using D never [of S, unfolded first_step_def]
    by (cases "sc_obj c"; cases "pcalloc (s_mem S) (w_heap w) (md_pool d) sizeof_hw_fill") (simp_all add: read_from_buffer_def chan_of_def)
  then show ?thesis using sdrrx_read_buffered [OF assms(1)] by (simp add: sdr_api_of_def rtlsdr_api_def)
qed

text \<open>The same radio, unplugged.\<close>

definition unplugged_sys :: sys where
  "unplugged_sys = demo_sys\<lparr>s_rtl := demo_rtl\<lparr>rtlsdr_read_sync := (\<lambda>n d k. (- 1, []))\<rparr>\<rparr>"

theorem rtlsdr_error_not_reported_witness:
  "sdrrx_read unplugged_sys (sdr_api_of unplugged_sys) 983 1 64 IO_BLOCK 1 rtl_ring_world = None"
proof -
  from rtl_ring_world_ok(2) obtain rw fs es where R: "rtl_ready 4 983 1 demo_rtl_channel rtl_ring_world" "chan_buf 1 rtl_ring_world = Some rw"
    "sdr_ring 4 3 1 8 fs es (rw_rp rw) (rw_wp rw) (w_heap rtl_ring_world)" "contents (w_heap rtl_ring_world) fs = []"
    by (auto simp: rtl_buffered_def radio_buffered_def)
  have "rtl_broken unplugged_sys 1 rtl_ring_world" "radio_ready API_RTLSDR 983 1 rtl_ring_world"
    using R(1) by (auto simp: rtl_broken_def rtl_ready_def rtl_ok_def unplugged_sys_def)
  then show ?thesis using rtlsdr_error_not_reported [OF _ _ R(2), of 983 unplugged_sys 4 3 1 64 fs es] R(3,4) by simp
qed

text \<open>C24. \<open>uint8_to_float\<close> converts in place: the bytes lie in the last quarter of the floats' memory, and the result is as if they had been copied
  away first.\<close>

theorem uint8_to_float_in_place:
  "uint8_to_float f (f + 6 * n) n m = mem_write m f (float_array (map rtl_sample (mem_read m (f + 6 * n) (sz_mul n 2))))"
  by (rule uint8_to_float_ok) simp

end
