(* ===== verification/Sdr_Calls.thy ===== *)
theory Sdr_Calls
  imports Sdr_Radio
begin

text \<open>
  Radios whose library may give fewer samples than it is asked for: what a block of samples is then, and the stream of the blocks. The
  answers of the library are a function of the number of the call and of the samples that are wanted.
\<close>

section \<open>Blocks of answers\<close>

text \<open>The bytes of \<open>r\<close> samples from call \<open>n\<close> on, and the number of the call after them; between two calls for samples are \<open>step\<close> calls.\<close>

function take_block :: "nat \<Rightarrow> (nat \<Rightarrow> nat \<Rightarrow> byte list) \<Rightarrow> nat \<Rightarrow> nat \<Rightarrow> byte list \<times> nat" where
  "take_block step ans n r = (let s = length (ans n r) div 8 in
     if s = 0 \<or> r < s then ([], n)
     else let (bs, n') = take_block step ans (n + step) (r - s) in (ans n r @ bs, n'))"
  by pat_completeness auto
termination by (relation "measure (\<lambda>(step, ans, n, r). r)") auto

declare take_block.simps [simp del]

definition supplies :: "(nat \<Rightarrow> nat \<Rightarrow> byte list) \<Rightarrow> nat \<Rightarrow> bool" where
  "supplies ans B \<longleftrightarrow> (\<forall>n k. 0 < k \<longrightarrow> k \<le> B \<longrightarrow> (\<exists>s. 0 < s \<and> s \<le> k \<and> length (ans n k) = 8 * s))"

lemma take_block_0 [simp]: "take_block step ans n 0 = ([], n)"
  by (subst take_block.simps) (auto simp: Let_def)

lemma take_block_step:
  assumes "length (ans n r) = 8 * s" and "0 < s" and "s \<le> r"
  shows "take_block step ans n r = (ans n r @ fst (take_block step ans (n + step) (r - s)), snd (take_block step ans (n + step) (r - s)))"
  using assms by (subst take_block.simps) (simp add: Let_def case_prod_beta)

lemma take_block_length: "supplies ans B \<Longrightarrow> r \<le> B \<Longrightarrow> length (fst (take_block step ans n r)) = 8 * r"
proof (induction r arbitrary: n rule: less_induct)
  case (less r)
  show ?case
  proof (cases "r = 0")
    case False
    then obtain s where s: "0 < s" "s \<le> r" "length (ans n r) = 8 * s" using less.prems by (auto simp: supplies_def)
    then show ?thesis using less.IH [of "r - s" "n + step"] less.prems by (simp add: take_block_step)
  qed simp
qed

section \<open>The stream of the blocks\<close>

primrec block_start :: "nat \<Rightarrow> (nat \<Rightarrow> nat \<Rightarrow> byte list) \<Rightarrow> nat \<Rightarrow> nat \<Rightarrow> nat \<Rightarrow> nat" where
  "block_start step ans B n 0 = n"
| "block_start step ans B n (Suc j) = block_start step ans B (snd (take_block step ans n B)) j"

definition block_stream :: "nat \<Rightarrow> (nat \<Rightarrow> nat \<Rightarrow> byte list) \<Rightarrow> nat \<Rightarrow> nat \<Rightarrow> nat \<Rightarrow> byte" where
  "block_stream step ans B n i = fst (take_block step ans (block_start step ans B n (i div (8 * B))) B) ! (i mod (8 * B))"

lemma block_stream_first: "supplies ans B \<Longrightarrow> map (block_stream step ans B n) [0..<8 * B] = fst (take_block step ans n B)"
  by (intro nth_equalityI) (auto simp: block_stream_def take_block_length)

lemma block_stream_next: "0 < B \<Longrightarrow> block_stream step ans B (snd (take_block step ans n B)) = (\<lambda>i. block_stream step ans B n (8 * B + i))"
  by (simp add: block_stream_def fun_eq_iff)

section \<open>Changes of a channel\<close>

text \<open>Reading from the library changes, beside memory and the number of calls, only what the radio adds to its channel.\<close>

definition impl_step :: "io_handle \<Rightarrow> world \<Rightarrow> world \<Rightarrow> bool" where
  "impl_step h w w' \<longleftrightarrow> w_filters w' = w_filters w \<and> w_machines w' = w_machines w \<and> (\<forall>d c. machine_get_desc h w = Some d \<longrightarrow>
     md_impl d = IMPL_SDR c \<longrightarrow> (\<exists>x. machine_get_desc h w' = Some (d\<lparr>md_impl := IMPL_SDR (c\<lparr>sc_impl := x\<rparr>)\<rparr>)))"

lemma impl_step_refl: "w_filters w' = w_filters w \<Longrightarrow> w_machines w' = w_machines w \<Longrightarrow> w_descs w' = w_descs w \<Longrightarrow> impl_step h w w'"
proof -
  have "d\<lparr>md_impl := IMPL_SDR (c\<lparr>sc_impl := sc_impl c\<rparr>)\<rparr> = d" if "md_impl d = IMPL_SDR c" for d :: machine_desc and c
    using that by (cases d) simp
  then show "w_filters w' = w_filters w \<Longrightarrow> w_machines w' = w_machines w \<Longrightarrow> w_descs w' = w_descs w \<Longrightarrow> impl_step h w w'"
    unfolding impl_step_def machine_get_desc_def by metis
qed

lemma impl_step_trans: "impl_step h w w1 \<Longrightarrow> impl_step h w1 w2 \<Longrightarrow> impl_step h w w2"
  unfolding impl_step_def by fastforce

lemma impl_step_put:
  assumes "machine_get_desc h w = Some d" and "md_impl d = IMPL_SDR c"
  shows "impl_step h w (put_chan h (c\<lparr>sc_impl := x\<rparr>) w)"
  using assms get_put_chan [of h "c\<lparr>sc_impl := x\<rparr>" w] by (auto simp: impl_step_def put_chan_def upd_desc_def)

lemma impl_step_ready:
  assumes "impl_step h w w'" and "radio_ready i f h w"
  shows "radio_ready i f h w'" and "chan_buf h w' = chan_buf h w"
proof -
  obtain d c where D: "machine_get_desc h w = Some d" "md_impl d = IMPL_SDR c" using assms(2) by (auto simp: radio_ready_def)
  then obtain x where x: "machine_get_desc h w' = Some (d\<lparr>md_impl := IMPL_SDR (c\<lparr>sc_impl := x\<rparr>)\<rparr>)" using assms(1) by (auto simp: impl_step_def)
  show "radio_ready i f h w'" using assms(1) by (intro radio_ready_put [OF assms(2) _ _ D x]) (simp_all add: impl_step_def)
  show "chan_buf h w' = chan_buf h w" using D x by (simp add: chan_buf_def chan_of_def)
qed

end
