(* ===== verification/Uhd_Source.thy ===== *)
theory Uhd_Source
  imports Sdr_Calls
begin

text \<open>
  A radio behind the UHD library as a sample source: \<open>read_from_hw\<close> of \<open>src/sdr/uhd-machine.c\<close>, with a library that gives at least one
  sample and at most as many as it is asked for, without errors.
\<close>

definition uhd_ans :: "uhd_lib \<Rightarrow> nat \<Rightarrow> nat \<Rightarrow> nat \<Rightarrow> byte list" where
  "uhd_ans L streamer n k = fst (uhd_rx_streamer_recv L n streamer k)"

definition uhd_plenty :: "uhd_lib \<Rightarrow> nat \<Rightarrow> nat \<Rightarrow> nat \<Rightarrow> bool" where
  "uhd_plenty L streamer metadata B \<longleftrightarrow> (\<forall>n. uhd_rx_metadata_error_code L n metadata = (0, UHD_RX_METADATA_ERROR_CODE_NONE)) \<and>
     (\<forall>n k. 0 < k \<longrightarrow> k \<le> B \<longrightarrow> (\<exists>s bs. 0 < s \<and> s \<le> k \<and> length bs = 8 * s \<and> uhd_rx_streamer_recv L n streamer k = (bs, Some s)))"

lemma uhd_supplies: "uhd_plenty L streamer metadata B \<Longrightarrow> supplies (uhd_ans L streamer) B"
  unfolding uhd_plenty_def supplies_def uhd_ans_def by (metis fst_conv)

lemma uhd_chan_put:
  assumes "uhd_chan h w = Some (c, u)"
  shows "uhd_chan h (put_uhd h c u' w) = Some (c\<lparr>sc_impl := SDR_UHD u'\<rparr>, u')" and "impl_step h w (put_uhd h c u' w)"
proof -
  obtain d where D: "machine_get_desc h w = Some d" "md_impl d = IMPL_SDR c" using assms by (auto simp: uhd_chan_def bind_eq_Some_conv)
  then show "uhd_chan h (put_uhd h c u' w) = Some (c\<lparr>sc_impl := SDR_UHD u'\<rparr>, u')"
    using get_put_chan [of h _ w] by (simp add: put_uhd_def uhd_chan_def chan_of_def uhd_of_def)
  show "impl_step h w (put_uhd h c u' w)" using impl_step_put [OF D] by (simp add: put_uhd_def)
qed

lemma uhd_chan_frame: "uhd_chan h (w\<lparr>w_heap := hp\<rparr>) = uhd_chan h w" "uhd_chan h (w\<lparr>w_turn := t\<rparr>) = uhd_chan h w"
  "uhd_chan h (w\<lparr>w_hw := k\<rparr>) = uhd_chan h w"
  by (simp_all add: uhd_chan_def machine_get_desc_def)

lemma put_uhd_frame: "w_heap (put_uhd h c u w) = w_heap w" "w_hw (put_uhd h c u w) = w_hw w"
  by (simp_all add: put_uhd_def put_chan_def upd_desc_def)

text \<open>The loop fills the buffer with a block of answers.\<close>

lemma uhd_read_loop_ok:
  assumes "uhd_plenty (s_uhd S) streamer metadata B" and "uhd_chan h w = Some (c, u)" and "uc_rx_streamer u = streamer"
    and "uc_rx_metadata u = metadata" and "r \<le> B" and "k + r < sz_max"
  shows "\<exists>w' c' u'. uhd_read_loop S h n0 a r k IO_ERROR w = Some (IO_SUCCESS, k + r, w') \<and>
    uhd_chan h w' = Some (c', u') \<and> uc_rx_streamer u' = streamer \<and> uc_rx_metadata u' = metadata \<and> impl_step h w w' \<and>
    w_hw w' = snd (take_block 2 (uhd_ans (s_uhd S) streamer) (w_hw w) r) \<and>
    w_heap w' = (w_heap w)\<lparr>mem := mem_write (mem (w_heap w)) a (fst (take_block 2 (uhd_ans (s_uhd S) streamer) (w_hw w) r))\<rparr>"
  using assms(2-)
proof (induction r arbitrary: a k w c u rule: less_induct)
  case (less r)
  let ?ans = "uhd_ans (s_uhd S) streamer"
  show ?case
  proof (cases "r = 0")
    case True
    have "impl_step h w w" by (rule impl_step_refl) simp_all
    then show ?thesis using True less.prems by (subst uhd_read_loop.simps) simp
  next
    case False
    then obtain s bs where s: "0 < s" "s \<le> r" "length bs = 8 * s" "uhd_rx_streamer_recv (s_uhd S) (w_hw w) streamer r = (bs, Some s)"
      using assms(1) less.prems(4) unfolding uhd_plenty_def by (metis gr0I)
    have code: "uhd_rx_metadata_error_code (s_uhd S) n metadata = (0, UHD_RX_METADATA_ERROR_CODE_NONE)" for n
      using assms(1) by (simp add: uhd_plenty_def)
    let ?w1 = "(poke a bs w)\<lparr>w_hw := w_hw w + 2\<rparr>"
    let ?w2 = "put_uhd h c (u\<lparr>uc_error_counter := 0\<rparr>) ?w1"
    have sz: "sz_sub r s = r - s" "sz_add k s = k + s" using s less.prems(5) by (simp_all add: sz_sub_exact sz_add_exact)
    have C1: "uhd_chan h ?w1 = Some (c, u)" using less.prems(1) by (simp add: poke_def uhd_chan_frame)
    have step: "uhd_read_loop S h n0 a r k IO_ERROR w = uhd_read_loop S h n0 (a + 8 * s) (r - s) (k + s) IO_ERROR ?w2"
      using False less.prems s code sz by (subst uhd_read_loop.simps) (simp add: hw_call_def poke_def)
    note C2 = uhd_chan_put [OF C1, of "u\<lparr>uc_error_counter := 0\<rparr>"]
    have block: "take_block 2 ?ans (w_hw w) r = (bs @ fst (take_block 2 ?ans (w_hw w + 2) (r - s)), snd (take_block 2 ?ans (w_hw w + 2) (r - s)))"
      using take_block_step [of ?ans "w_hw w" r s 2] s by (simp add: uhd_ans_def)
    have le: "r - s < r" "r - s \<le> B" "k + s + (r - s) < sz_max" using s less.prems(4,5) by auto
    obtain w' c' u' where R: "uhd_read_loop S h n0 (a + 8 * s) (r - s) (k + s) IO_ERROR ?w2 = Some (IO_SUCCESS, k + s + (r - s), w')"
      "uhd_chan h w' = Some (c', u')" "uc_rx_streamer u' = streamer" "uc_rx_metadata u' = metadata" "impl_step h ?w2 w'"
      "w_hw w' = snd (take_block 2 ?ans (w_hw ?w2) (r - s))"
      "w_heap w' = (w_heap ?w2)\<lparr>mem := mem_write (mem (w_heap ?w2)) (a + 8 * s) (fst (take_block 2 ?ans (w_hw ?w2) (r - s)))\<rparr>"
      using less.IH [OF le(1) C2(1) _ _ le(2,3), of "a + 8 * s"] less.prems(2,3) by auto
    have "impl_step h w ?w1" by (rule impl_step_refl) (simp_all add: poke_def)
    then have "impl_step h w w'" using C2(2) R(5) impl_step_trans by blast
    then show ?thesis using R step block s(2,3) by (simp add: put_uhd_frame poke_def mem_write_append)
  qed
qed

section \<open>The source\<close>

definition uhd_src :: "sys \<Rightarrow> nat \<Rightarrow> io_handle \<Rightarrow> world \<Rightarrow> nat \<Rightarrow> byte" where
  "uhd_src S B h w = (case uhd_chan h w of
      Some (c, u) \<Rightarrow> block_stream 2 (uhd_ans (s_uhd S) (uc_rx_streamer u)) B (w_hw w)
    | None \<Rightarrow> (\<lambda>i. 0))"

text \<open>The channel with this streamer and these metadata is ready to be read through filter \<open>f\<close>, by blocks of \<open>B\<close> samples.\<close>

definition uhd_ready :: "sys \<Rightarrow> nat \<Rightarrow> addr \<Rightarrow> io_handle \<Rightarrow> nat \<Rightarrow> nat \<Rightarrow> world \<Rightarrow> bool" where
  "uhd_ready S B f h streamer metadata w \<longleftrightarrow> 0 < B \<and> 8 * B < sz_max \<and> \<not> envex_exists S ''BW_UHD_COUNTER_TEST'' \<and> radio_ready API_UHD f h w \<and>
     (\<exists>c u. uhd_chan h w = Some (c, u) \<and> uc_rx_streamer u = streamer \<and> uc_rx_metadata u = metadata)"

lemma uhd_frame:
  "uhd_src S B h (w\<lparr>w_heap := hp\<rparr>) = uhd_src S B h w" "uhd_src S B h (w\<lparr>w_turn := t\<rparr>) = uhd_src S B h w"
  "uhd_ready S B f h x y (w\<lparr>w_heap := hp\<rparr>) = uhd_ready S B f h x y w" "uhd_ready S B f h x y (w\<lparr>w_turn := t\<rparr>) = uhd_ready S B f h x y w"
  using radio_ready_cong [of "w\<lparr>w_heap := hp\<rparr>" w] radio_ready_cong [of "w\<lparr>w_turn := t\<rparr>" w]
  by (simp_all add: uhd_src_def uhd_ready_def uhd_chan_frame split: option.split)

interpretation uhd: radio_source "uhd_read_from_hw S" h B "uhd_src S B h"
    "\<lambda>w. uhd_plenty (s_uhd S) streamer metadata B \<and> uhd_ready S B f h streamer metadata w" S API_UHD f for S h B f streamer metadata
proof
  fix w a
  assume "uhd_plenty (s_uhd S) streamer metadata B \<and> uhd_ready S B f h streamer metadata w"
  then have ok: "uhd_ready S B f h streamer metadata w" and plenty: "uhd_plenty (s_uhd S) streamer metadata B" by simp_all
  then obtain c u where C: "uhd_chan h w = Some (c, u)" "uhd_plenty (s_uhd S) (uc_rx_streamer u) (uc_rx_metadata u) B"
      "uc_rx_streamer u = streamer" "uc_rx_metadata u = metadata" and B: "0 < B" "8 * B < sz_max" by (auto simp: uhd_ready_def)
  let ?ans = "uhd_ans (s_uhd S) (uc_rx_streamer u)"
  from uhd_read_loop_ok [OF C(2,1) refl refl, of B 0 B a] obtain w' c' u' where
    R: "uhd_read_from_hw S h a B w = Some (IO_SUCCESS, B, w')" "uhd_chan h w' = Some (c', u')" "uc_rx_streamer u' = uc_rx_streamer u"
      "uc_rx_metadata u' = uc_rx_metadata u" "impl_step h w w'" "w_hw w' = snd (take_block 2 ?ans (w_hw w) B)"
      "w_heap w' = (w_heap w)\<lparr>mem := mem_write (mem (w_heap w)) a (fst (take_block 2 ?ans (w_hw w) B))\<rparr>"
    using B(2) unfolding uhd_read_from_hw_def by auto
  have ready: "radio_ready API_UHD f h w" using ok by (simp add: uhd_ready_def)
  note kept = impl_step_ready [OF R(5) ready]
  have "uhd_src S B h w = block_stream 2 ?ans B (w_hw w)" "uhd_src S B h w' = block_stream 2 ?ans B (w_hw w')"
    using C(1) R(2,3) by (simp_all add: uhd_src_def)
  moreover have "uhd_ready S B f h streamer metadata w'" using ok kept(1) R(2-4) C by (simp add: uhd_ready_def)
  ultimately show "\<exists>w'. uhd_read_from_hw S h a B w = Some (IO_SUCCESS, B, w') \<and>
      w_heap w' = (w_heap w)\<lparr>mem := mem_write (mem (w_heap w)) a (map (uhd_src S B h w) [0..<8 * B])\<rparr> \<and>
      uhd_src S B h w' = (\<lambda>i. uhd_src S B h w (8 * B + i)) \<and>
      (uhd_plenty (s_uhd S) streamer metadata B \<and> uhd_ready S B f h streamer metadata w') \<and> chan_buf h w' = chan_buf h w"
    using plenty R(1,6,7) kept(2) block_stream_first [OF uhd_supplies [OF C(2)]] block_stream_next [OF B(1)] by simp
next
  fix w w' g
  assume "uhd_plenty (s_uhd S) streamer metadata B \<and> uhd_ready S B f h streamer metadata w"
  then have ok: "uhd_ready S B f h streamer metadata w" and plenty: "uhd_plenty (s_uhd S) streamer metadata B" by simp_all
  assume u: "upd_chan h g w = Some w'" and g: "\<And>c. \<exists>x y. g c = c\<lparr>sc_buffer := x, sc_obj := y\<rparr>"
  obtain d c v where D: "machine_get_desc h w = Some d" "md_impl d = IMPL_SDR c" and C: "uhd_chan h w = Some (c, v)" "uhd_of c = Some v"
    using ok by (auto simp: uhd_ready_def uhd_chan_def bind_eq_Some_conv)
  have same: "sc_impl (g c) = sc_impl c" "sc_state (g c) = sc_state c" "sc_mode (g c) = sc_mode c" for c using g [of c] by auto
  have w': "w' = put_chan h (g c) w" using upd_chan_ok [OF D, of g] u by simp
  then have C': "uhd_chan h w' = Some (g c, v)" "w_hw w' = w_hw w"
    using D(1) get_put_chan [of h "g c" w] C(2) same(1) by (simp_all add: uhd_chan_def chan_of_def uhd_of_def put_chan_def upd_desc_def)
  have "radio_ready API_UHD f h w'" using ok radio_ready_upd [OF _ u same(2,3)] by (simp add: uhd_ready_def)
  then show "uhd_src S B h w' = uhd_src S B h w \<and> uhd_plenty (s_uhd S) streamer metadata B \<and> uhd_ready S B f h streamer metadata w'"
    using plenty C C' ok by (simp add: uhd_src_def uhd_ready_def)
qed (simp_all add: uhd_frame, simp_all add: uhd_ready_def sdr_api_of_def uhd_api_def)

end
