(* ===== verification/Uhd_Properties.thy ===== *)
theory Uhd_Properties
  imports Uhd_Source Sdr_Properties
begin

text \<open>Properties of the radios behind UHD: reading through the ring of blocks.\<close>

section \<open>A radio\<close>

text \<open>A B210, and the same after a read of no samples, which starts it.\<close>

definition b210_idle_world :: world where
  "b210_idle_world = (case new_b210_rx_machine demo_sys (sdr_api_of demo_sys) empty_world of Some (h, w) \<Rightarrow> w | None \<Rightarrow> empty_world)"

definition b210_world :: world where
  "b210_world = (case sdrrx_read demo_sys (sdr_api_of demo_sys) 1218 1 0 IO_BLOCK 1 b210_idle_world of
      Some (st, n, w) \<Rightarrow> w | None \<Rightarrow> b210_idle_world)"

lemmas b210_create_defs = new_b210_rx_machine_def new_b210_rx_machine_devstr_def new_uhd_rx_machine_devstr_def get_uhd_rx_machine_def uhd_api_def
  uhd_create_device_def uhd_create_channel_def uhd_create_rx_filter_def sizeof_uhd_device_def sizeof_usrp_handle_def demo_uhd_def
  sdr_init_machine_functions_def sdr_create_def sdr_api_of_def hw_call_def zero_channel_def
  sdr_init_filters_def add_channel_def add_device_def get_dev_def SDR_RX_CHAN_ALLOC_def sizeof_chan_ptr_def

definition b210_view :: "world \<Rightarrow> io_handle option \<times> machine_desc option \<times> iom list \<times> (addr \<Rightarrow> block option) \<times> bool" where
  "b210_view w = (handle_of 1218 w, machine_get_desc 1 w, w_machines w, blocks (w_heap w), (1, 64) \<in> set (live (w_heap w)))"

lemma b210_idle_view:
  "\<exists>d c m u. b210_view b210_idle_world = (Some 1, Some d, [m], Map.empty, True) \<and> md_impl d = IMPL_SDR c \<and> md_machine d = 0 \<and>
     m_obj m = Some API_UHD \<and> sc_state c = SDR_CHAN_NOINIT \<and> sc_mode c = SDR_MODE_UNBUFFERED \<and> sc_buffer c = None \<and> sc_rate c = 0 \<and>
     sc_impl c = SDR_UHD u"
  by (simp add: b210_idle_world_def b210_view_def setup_defs b210_create_defs handle_of_def machine_get_desc_def)

text \<open>Setting and starting it change only what the radio adds to its channel.\<close>

definition uhd_step :: "io_handle \<Rightarrow> world \<Rightarrow> world \<Rightarrow> bool" where
  "uhd_step h w w' \<longleftrightarrow> impl_step h w w' \<and> w_heap w' = w_heap w"

lemma uhd_step_hw: "uhd_step h w (w\<lparr>w_hw := k\<rparr>)"
  by (simp add: uhd_step_def impl_step_refl)

lemma uhd_step_put: "uhd_chan h w = Some (c, u) \<Longrightarrow> uhd_step h w (put_uhd h c u' w)"
  using uhd_chan_put(2) by (simp add: uhd_step_def put_uhd_frame)

lemma uhd_step_trans: "uhd_step h w w1 \<Longrightarrow> uhd_step h w1 w2 \<Longrightarrow> uhd_step h w w2"
  using impl_step_trans by (simp add: uhd_step_def) blast

lemma demo_uhd_set:
  assumes "uhd_chan h w = Some (c, u)"
  shows "\<exists>w' c' u'. uhd_channel_set demo_sys h w = Some (IO_SUCCESS, w') \<and> uhd_chan h w' = Some (c', u') \<and> sc_rate c' = sc_rate c \<and> uhd_step h w w'"
proof -
  let ?u1 = "u\<lparr>uc_target_freq := sc_freq c\<rparr>"
  let ?w1 = "(put_uhd h c ?u1 (w\<lparr>w_hw := w_hw w + 2\<rparr>))\<lparr>w_hw := Suc (Suc (Suc (Suc (Suc (Suc (w_hw w))))))\<rparr>"
  let ?u2 = "?u1\<lparr>uc_max_samples := 2\<rparr>"
  let ?w2 = "put_uhd h c ?u2 ?w1"
  have C0: "uhd_chan h (w\<lparr>w_hw := w_hw w + 2\<rparr>) = Some (c, u)" using assms by (simp add: uhd_chan_frame)
  have C1: "uhd_chan h ?w1 = Some (c\<lparr>sc_impl := SDR_UHD ?u1\<rparr>, ?u1)" using uhd_chan_put(1) [OF C0] by (simp add: uhd_chan_frame)
  have w2: "?w2 = put_uhd h (c\<lparr>sc_impl := SDR_UHD ?u1\<rparr>) ?u2 ?w1" by (simp add: put_uhd_def)
  have "uhd_channel_set demo_sys h w = Some (IO_SUCCESS, ?w2)"
    using assms by (simp add: uhd_channel_set_def demo_sys_def demo_uhd_def hw_call_def put_uhd_frame Let_def)
  moreover have "uhd_chan h ?w2 = Some (c\<lparr>sc_impl := SDR_UHD ?u2\<rparr>, ?u2)" unfolding w2 using uhd_chan_put(1) [OF C1, of ?u2] by simp
  moreover have "uhd_step h w ?w2"
    unfolding w2 by (blast intro: uhd_step_trans uhd_step_hw uhd_step_put C0 C1)
  ultimately show ?thesis by fastforce
qed

lemma demo_uhd_start:
  assumes "uhd_chan h w = Some (c, u)" and "sc_rate c = 0"
  shows "\<exists>w' c' u'. uhd_channel_start demo_sys h w = Some (IO_SUCCESS, w') \<and> uhd_chan h w' = Some (c', u') \<and> uhd_step h w w'"
proof -
  let ?u1 = "u\<lparr>uc_stream_mode := UHD_STREAM_MODE_START_CONTINUOUS\<rparr>"
  let ?w1 = "put_uhd h c ?u1 w"
  have C1: "uhd_chan h ?w1 = Some (c\<lparr>sc_impl := SDR_UHD ?u1\<rparr>, ?u1)" using uhd_chan_put(1) [OF assms(1)] by simp
  have "uhd_channel_start demo_sys h w = Some (IO_SUCCESS, ?w1\<lparr>w_hw := w_hw w + 3\<rparr>)"
    using assms C1 by (simp add: uhd_channel_start_def stream_cmd_def hw_call_def demo_sys_def demo_uhd_def uhd_chan_frame put_uhd_frame
      dbl_to_size_def sz_max_def uhd_start_loop.simps)
  moreover have "uhd_chan h (?w1\<lparr>w_hw := w_hw w + 3\<rparr>) = Some (c\<lparr>sc_impl := SDR_UHD ?u1\<rparr>, ?u1)" using C1 by (simp add: uhd_chan_frame)
  ultimately show ?thesis using uhd_step_put [OF assms(1)] uhd_step_hw uhd_step_trans by blast
qed

lemma b210_world_view:
  "\<exists>c u. radio_unbuffered API_UHD 1218 1 c b210_world \<and> sc_impl c = SDR_UHD u \<and> heap_ok (w_heap b210_world) \<and> covered (w_heap b210_world) 1 64"
proof -
  obtain d c m u where V: "handle_of 1218 b210_idle_world = Some 1" "machine_get_desc 1 b210_idle_world = Some d" "w_machines b210_idle_world = [m]"
      "blocks (w_heap b210_idle_world) = Map.empty" "(1, 64) \<in> set (live (w_heap b210_idle_world))" "md_impl d = IMPL_SDR c" "md_machine d = 0"
      "m_obj m = Some API_UHD" "sc_state c = SDR_CHAN_NOINIT" "sc_mode c = SDR_MODE_UNBUFFERED" "sc_buffer c = None" "sc_rate c = 0"
      "sc_impl c = SDR_UHD u"
    using b210_idle_view by (auto simp: b210_view_def)
  have C: "uhd_chan 1 b210_idle_world = Some (c, u)" using V by (simp add: uhd_chan_def chan_of_def uhd_of_def)
  obtain w1 c1 u1 where set: "uhd_channel_set demo_sys 1 b210_idle_world = Some (IO_SUCCESS, w1)" "uhd_chan 1 w1 = Some (c1, u1)" "sc_rate c1 = sc_rate c"
    "uhd_step 1 b210_idle_world w1" using demo_uhd_set [OF C] by blast
  obtain w2 c2 u2 where start: "uhd_channel_start demo_sys 1 w1 = Some (IO_SUCCESS, w2)" "uhd_chan 1 w2 = Some (c2, u2)" "uhd_step 1 w1 w2"
    using demo_uhd_start [OF set(2)] set(3) V(12) by auto
  have step: "impl_step 1 b210_idle_world w2" "w_heap w2 = w_heap b210_idle_world"
    using uhd_step_trans [OF set(4) start(3)] by (simp_all add: uhd_step_def)
  then obtain x where D2: "machine_get_desc 1 w2 = Some (d\<lparr>md_impl := IMPL_SDR (c\<lparr>sc_impl := x\<rparr>)\<rparr>)" using V(2,6) by (auto simp: impl_step_def)
  have x: "x = SDR_UHD u2" using start(2) D2 by (auto simp: uhd_chan_def chan_of_def uhd_of_def bind_eq_Some_conv split: sdr_impl.splits)
  let ?c3 = "c\<lparr>sc_impl := x, sc_state := SDR_CHAN_READY\<rparr>"
  let ?w3 = "put_chan 1 ?c3 w2"
  have ready: "upd_chan 1 (sc_state_update (\<lambda>_. SDR_CHAN_READY)) w2 = Some ?w3" using upd_chan_ok [OF D2] by simp
  have D3: "machine_get_desc 1 ?w3 = Some (d\<lparr>md_impl := IMPL_SDR ?c3\<rparr>)" using D2 get_put_chan [of 1 ?c3 w2] by simp
  have api: "desc_api (sdr_api_of demo_sys) d b210_idle_world = Some (uhd_api demo_sys)"
    using V(3,7,8) by (simp add: desc_api_def get_iom_def sdr_api_of_def)
  have "sdrrx_read demo_sys (sdr_api_of demo_sys) 1218 1 0 IO_BLOCK 1 b210_idle_world = Some (IO_SUCCESS, 0, ?w3)"
    using V(1,2,6,9,10) api set(1) start(1) ready D3
    by (simp add: sdrrx_read_def chan_of_def sdr_make_ready_def uhd_api_def uhd_read_from_hw_def uhd_read_loop.simps sz_mul_def demo_sys_def)
  then have bw: "b210_world = ?w3" by (simp add: b210_world_def)
  have same: "w_filters ?w3 = w_filters b210_idle_world" "w_machines ?w3 = [m]" "w_heap ?w3 = w_heap b210_idle_world"
    using step V(3) by (simp_all add: put_chan_def upd_desc_def impl_step_def)
  have "radio_unbuffered API_UHD 1218 1 ?c3 ?w3"
    using V(1,7,8,11) handle_of_cong [OF same(1)] same(2) by (intro radio_unbufferedI [OF _ D3]) simp_all
  moreover have "heap_ok (w_heap ?w3)" "covered (w_heap ?w3) 1 64" using V(4,5) same(3) by (auto simp: heap_ok_def covered_def)
  ultimately show ?thesis using x unfolding bw by (intro exI [of _ ?c3] exI [of _ u2]) simp
qed

section \<open>Reading through the ring\<close>

text \<open>C19. Reading a radio behind UHD through its buffer of \<open>N\<close> blocks of \<open>B\<close> samples, while another thread fills it, with a library that gives at least
  one sample and at most what it is asked for in every call, and reports no error and no overflow. Whatever the scheduler does, a read that returns is a success with all the samples that were asked for, and no sample is lost, doubled or out of
  order: the caller's buffer, then the ring, then what the radio will give is what the ring held and the radio would have given. The read returns if both threads get
  to run again and again, if no more is asked for than all blocks but one hold, and if the request ends at the end of a block or leaves no more
  of a block than it takes from it.\<close>

theorem uhd_buffered_read:
  assumes "radio_buffered (uhd_ready S B f h streamer metadata) B N h buf (bytes div 8) q w" and "uhd_plenty (s_uhd S) streamer metadata B"
    and "pool_plenty (s_mem S) 0"
  shows "(\<forall>st k w'. sdrrx_read S (sdr_api_of S) f buf bytes block align w = Some (st, k, w') \<longrightarrow>
      st = IO_SUCCESS \<and> k = 8 * (bytes div 8) \<and> (\<exists>q'. radio_buffered (uhd_ready S B f h streamer metadata) B N h buf (bytes div 8) q' w' \<and>
        then_stream (mem_read (mem (w_heap w')) buf k @ q') (uhd_src S B h w') = then_stream q (uhd_src S B h w))) \<and>
    (fair S \<longrightarrow> bytes div 8 \<le> (N - 1) * B \<longrightarrow> half_ok B (first_block B q) (bytes div 8) \<longrightarrow>
      sdrrx_read S (sdr_api_of S) f buf bytes block align w \<noteq> None)"
  using uhd.read_ok [where streamer = streamer and metadata = metadata, unfolded radio_buffered_conj, OF conjI [OF assms(2,1)] assms(3)] by blast

text \<open>The B210 above, with a ring of three blocks of four samples, and the buffer of 64 bytes at address 1.\<close>

definition b210_ring_world :: world where
  "b210_ring_world = the (sdrrx_enable_buffering demo_sys 1 4 3 b210_world)"

lemma uhd_plenty_demo: "uhd_plenty (s_uhd demo_sys) streamer metadata 4"
  unfolding uhd_plenty_def by (auto simp: demo_sys_def demo_uhd_def intro!: exI [of _ "min 2 _"])

lemma b210_ring_world_ok: "\<exists>streamer metadata. radio_buffered (uhd_ready demo_sys 4 1218 1 streamer metadata) 4 3 1 1 8 [] b210_ring_world"
proof -
  obtain c u where U: "radio_unbuffered API_UHD 1218 1 c b210_world" "sc_impl c = SDR_UHD u" and hp: "heap_ok (w_heap b210_world)"
    "covered (w_heap b210_world) 1 (8 * 8)" using b210_world_view by auto
  have "pool_plenty (s_mem demo_sys) (3 * (8 * 4))" by (rule demo_sys_ok(2)) simp
  from enable_buffering_ring [OF U(1) demo_sys_ok(1) this hp] obtain w1 d1 c1 rw es where
    R: "sdrrx_enable_buffering demo_sys 1 4 3 b210_world = Some w1" "radio_ready API_UHD 1218 1 w1" "machine_get_desc 1 w1 = Some d1"
      "md_impl d1 = IMPL_SDR c1" "sc_impl c1 = sc_impl c" "chan_buf 1 w1 = Some rw" "sdr_ring 4 3 1 8 [] es (rw_rp rw) (rw_wp rw) (w_heap w1)"
    by (auto simp: sz_max_def)
  have "uhd_chan 1 w1 = Some (c1, u)" using R(3-5) U(2) by (simp add: uhd_chan_def chan_of_def uhd_of_def)
  then have "uhd_ready demo_sys 4 1218 1 (uc_rx_streamer u) (uc_rx_metadata u) w1" using R(2) by (simp add: uhd_ready_def sz_max_def demo_sys_def)
  then have "radio_buffered (uhd_ready demo_sys 4 1218 1 (uc_rx_streamer u) (uc_rx_metadata u)) 4 3 1 1 8 [] b210_ring_world"
    using R by (auto simp: b210_ring_world_def radio_buffered_def)
  then show ?thesis by blast
qed

theorem uhd_buffered_read_witness:
  "\<exists>w' q' streamer metadata. sdrrx_read demo_sys (sdr_api_of demo_sys) 1218 1 64 IO_BLOCK 1 b210_ring_world = Some (IO_SUCCESS, 64, w') \<and>
     radio_buffered (uhd_ready demo_sys 4 1218 1 streamer metadata) 4 3 1 1 8 q' w' \<and>
     then_stream (mem_read (mem (w_heap w')) 1 64 @ q') (uhd_src demo_sys 4 1 w') = then_stream [] (uhd_src demo_sys 4 1 b210_ring_world)"
proof -
  obtain x y where "radio_buffered (uhd_ready demo_sys 4 1218 1 x y) 4 3 1 1 8 [] b210_ring_world" using b210_ring_world_ok by blast
  then show ?thesis using uhd_buffered_read [of demo_sys 4 1218 1 x y 3 1 64 "[]" b210_ring_world IO_BLOCK 1] uhd_plenty_demo
      demo_sys_ok(2) [of 0] fair_demo_sys
    by (fastforce simp: half_ok_def first_block_def)
qed

end
