(* ===== verification/Soapy_Properties.thy ===== *)
theory Soapy_Properties
  imports Sdr_Calls Demo_World
begin

text \<open>
  Properties of the radios behind SoapySDR: reading samples while the clock is steady, what happens when it jumps, the start of a
  channel, and the gains of a LimeSDR.
\<close>

section \<open>A steady clock\<close>

definition soapy_ans :: "soapy_lib \<Rightarrow> soapy_channel \<Rightarrow> nat \<Rightarrow> nat \<Rightarrow> byte list" where
  "soapy_ans L s n k = fst (snd (SoapySDRDevice_readStream L n (so_sdr s) (so_rx s) k))"

text \<open>The time of the samples is within a nanosecond of the expected one.\<close>

definition on_time :: "soapy_channel \<Rightarrow> int \<Rightarrow> bool" where
  "on_time s t = (case clock_diff s t of Some d \<Rightarrow> - 1 \<le> d \<and> d \<le> 1 | None \<Rightarrow> False)"

definition after_read :: "soapy_channel \<Rightarrow> int \<Rightarrow> int \<Rightarrow> soapy_channel" where
  "after_read s t k = s\<lparr>so_expected_timestamp := next_timestamp (so_ns_per_sample s) t k, so_error_counter := 0\<rparr>"

text \<open>The calls from number \<open>n\<close> on that are made for \<open>r\<close> samples give at least one sample each, and all are on time.\<close>

function on_clock :: "soapy_lib \<Rightarrow> soapy_channel \<Rightarrow> nat \<Rightarrow> nat \<Rightarrow> bool" where
  "on_clock L s n r = (if r = 0 then True
     else case SoapySDRDevice_readStream L n (so_sdr s) (so_rx s) r of (k, bs, t) \<Rightarrow>
       if 0 < k \<and> k \<le> int r \<and> length bs = 8 * nat k \<and> on_time s t then on_clock L (after_read s t k) (Suc n) (r - nat k) else False)"
  by pat_completeness auto
termination by (relation "measure (\<lambda>(L, s, n, r). r)") auto

declare on_clock.simps [simp del]

text \<open>Below \<open>2 ^ 51\<close> nanoseconds, and with a whole number of nanoseconds per sample, the arithmetic of the clock is exact.\<close>

lemma clock_diff_exact:
  assumes "so_expected_timestamp s = Fin (of_int e)" and "0 \<le> e" and "e < 2 ^ 51" and "\<bar>t - e\<bar> < 2 ^ 31"
  shows "clock_diff s t = Some (t - e)"
proof -
  have half: "of_int e + 1 / 2 = (of_int (2 * e + 1) / 2 :: rat)" by (simp add: field_simps)
  have "dbl (of_int e + 1 / 2) = of_int (2 * e + 1) / 2" unfolding half by (rule dbl_half_exact) (use assms(2,3) in simp)
  moreover have "trunc (of_int (2 * e + 1) / 2) = e" using assms(2) by (simp add: trunc_def floor_eq_iff field_simps)
  ultimately have tr: "trunc (dbl (of_int e + 1 / 2)) = e" by (simp only:)
  have "(t - e + 2 ^ 31) mod 2 ^ 32 = t - e + 2 ^ 31" using assms(4) by (intro mod_pos_pos_trivial) auto
  then show ?thesis using assms tr by (auto simp: clock_diff_def cadd_def dbl_to_i64_def in_i64_def i64_to_int_def)
qed

lemma next_timestamp_exact:
  assumes "0 \<le> t" and "0 \<le> p * k" and "t + p * k < 2 ^ 51"
  shows "next_timestamp (Fin (of_int p)) t k = Fin (of_int (t + p * k))"
proof -
  have "dbl (of_int p * of_int k) = of_int (p * k)" using dbl_int_exact [of "p * k"] assms by simp
  moreover have "dbl (of_int t) = of_int t" using dbl_int_exact [of t] assms by simp
  moreover have "dbl (of_int t + of_int (p * k)) = of_int (t + p * k)" using dbl_int_exact [of "t + p * k"] assms by simp
  ultimately show ?thesis by (simp add: next_timestamp_def cmul_def)
qed

lemma soapy_chan_put:
  assumes "soapy_chan h w = Some (c, s)"
  shows "soapy_chan h (put_soapy h c s' w) = Some (c\<lparr>sc_impl := SDR_SOAPY s'\<rparr>, s')" and "impl_step h w (put_soapy h c s' w)"
proof -
  obtain d where D: "machine_get_desc h w = Some d" "md_impl d = IMPL_SDR c" using assms by (auto simp: soapy_chan_def bind_eq_Some_conv)
  then show "soapy_chan h (put_soapy h c s' w) = Some (c\<lparr>sc_impl := SDR_SOAPY s'\<rparr>, s')"
    using get_put_chan [of h _ w] by (simp add: put_soapy_def soapy_chan_def chan_of_def soapy_of_def)
  show "impl_step h w (put_soapy h c s' w)" using impl_step_put [OF D] by (simp add: put_soapy_def)
qed

lemma soapy_chan_frame: "soapy_chan h (w\<lparr>w_heap := hp\<rparr>) = soapy_chan h w" "soapy_chan h (w\<lparr>w_hw := k\<rparr>) = soapy_chan h w"
  by (simp_all add: soapy_chan_def machine_get_desc_def)

lemma put_soapy_frame: "w_heap (put_soapy h c s w) = w_heap w" "w_hw (put_soapy h c s w) = w_hw w"
  by (simp_all add: put_soapy_def put_chan_def upd_desc_def)

lemma soapy_ans_after [simp]: "soapy_ans L (after_read s t k) = soapy_ans L s"
  by (simp add: soapy_ans_def after_read_def fun_eq_iff)

lemma soapy_read_loop_ok:
  assumes "soapy_chan h w = Some (c, s)" and "on_clock (s_soapy S) s (w_hw w) r" and "k + r < sz_max"
  shows "\<exists>w'. soapy_read_loop S h a r k IO_ERROR w = Some (IO_SUCCESS, k + r, w') \<and> impl_step h w w' \<and>
    w_hw w' = snd (take_block 1 (soapy_ans (s_soapy S) s) (w_hw w) r) \<and>
    w_heap w' = (w_heap w)\<lparr>mem := mem_write (mem (w_heap w)) a (fst (take_block 1 (soapy_ans (s_soapy S) s) (w_hw w) r))\<rparr>"
  using assms
proof (induction r arbitrary: a k w c s rule: less_induct)
  case (less r)
  let ?ans = "soapy_ans (s_soapy S) s"
  show ?case
  proof (cases "r = 0")
    case True
    have "impl_step h w w" by (rule impl_step_refl) simp_all
    then show ?thesis using True by (subst soapy_read_loop.simps) simp
  next
    case False
    obtain x bs t where read: "SoapySDRDevice_readStream (s_soapy S) (w_hw w) (so_sdr s) (so_rx s) r = (x, bs, t)" by (metis prod_cases3)
    from less.prems(2) False have x: "0 < x" "x \<le> int r" "length bs = 8 * nat x" "on_time s t"
      and rest: "on_clock (s_soapy S) (after_read s t x) (Suc (w_hw w)) (r - nat x)"
      by (subst (asm) on_clock.simps, simp add: read split: if_splits)+
    from x(4) obtain diff where diff: "clock_diff s t = Some diff" "\<not> (diff < - 1 \<or> diff > 1)" by (auto simp: on_time_def split: option.splits)
    let ?w1 = "poke a bs (w\<lparr>w_hw := Suc (w_hw w)\<rparr>)"
    let ?w2 = "put_soapy h c (after_read s t x) ?w1"
    have le: "r - nat x < r" "k + nat x + (r - nat x) < sz_max" "nat x \<le> r" using x(1,2) less.prems(3) by auto
    have sz: "sz_sub r (nat x) = r - nat x" "sz_add k (nat x) = k + nat x" using le by (simp_all add: sz_sub_exact sz_add_exact)
    have C1: "soapy_chan h ?w1 = Some (c, s)" using less.prems(1) by (simp add: poke_def soapy_chan_frame)
    have step: "soapy_read_loop S h a r k IO_ERROR w = soapy_read_loop S h (a + 8 * nat x) (r - nat x) (k + nat x) IO_ERROR ?w2"
      using False less.prems(1) read x(1) diff sz
      by (subst soapy_read_loop.simps) (simp add: hw_call_def poke_def after_read_def)
    note C2 = soapy_chan_put [OF C1, of "after_read s t x"]
    have block: "take_block 1 ?ans (w_hw w) r = (bs @ fst (take_block 1 ?ans (Suc (w_hw w)) (r - nat x)), snd (take_block 1 ?ans (Suc (w_hw w)) (r - nat x)))"
      using take_block_step [of ?ans "w_hw w" r "nat x" 1] x le(3) read by (simp add: soapy_ans_def)
    have hw: "w_hw ?w2 = Suc (w_hw w)" by (simp add: put_soapy_frame poke_def)
    obtain w' where R: "soapy_read_loop S h (a + 8 * nat x) (r - nat x) (k + nat x) IO_ERROR ?w2 = Some (IO_SUCCESS, k + nat x + (r - nat x), w')"
      "impl_step h ?w2 w'" "w_hw w' = snd (take_block 1 ?ans (Suc (w_hw w)) (r - nat x))"
      "w_heap w' = (w_heap ?w2)\<lparr>mem := mem_write (mem (w_heap ?w2)) (a + 8 * nat x) (fst (take_block 1 ?ans (Suc (w_hw w)) (r - nat x)))\<rparr>"
      using less.IH [OF le(1) C2(1) _ le(2), of "a + 8 * nat x"] rest hw by auto
    have "impl_step h w ?w1" by (rule impl_step_refl) (simp_all add: poke_def)
    then have "impl_step h w w'" using C2(2) R(2) impl_step_trans by blast
    then show ?thesis using R(1,3,4) step block le(3) x(3) by (simp add: put_soapy_frame poke_def mem_write_append)
  qed
qed

section \<open>A radio\<close>

text \<open>Filter \<open>f\<close> reads the channel with handle \<open>h\<close>, which was started and has no ring; \<open>s\<close> are its fields.\<close>

definition soapy_unbuffered :: "sys \<Rightarrow> addr \<Rightarrow> io_handle \<Rightarrow> soapy_channel \<Rightarrow> world \<Rightarrow> bool" where
  "soapy_unbuffered S f h s w \<longleftrightarrow> \<not> envex_exists S ''BW_SOAPY_COUNTER_TEST'' \<and> handle_of f w = Some h \<and>
     (\<exists>d c i. machine_get_desc h w = Some d \<and> md_impl d = IMPL_SDR c \<and> sc_state c = SDR_CHAN_READY \<and> sc_mode c = SDR_MODE_UNBUFFERED \<and>
       sc_impl c = SDR_SOAPY s \<and> api_id_of d w = Some i \<and> i \<in> {API_SOAPY, API_LIME})"

text \<open>The start of a channel with one read.\<close>

lemma soapy_start_one:
  assumes "soapy_chan h w = Some (c, s)" and "dbl_to_size (dbl (sc_rate c * dbl (1 / 100))) = Some n"
    and "SoapySDRDevice_readStream (s_soapy S) (Suc (w_hw w)) (so_sdr s) (so_rx s) n = (k, bs, t)" and "0 \<le> k" and "t \<noteq> 0"
    and "clock_diff s t = Some diff"
  shows "soapy_channel_start S h w = Some (IO_SUCCESS,
    put_soapy h c (s\<lparr>so_expected_timestamp := next_timestamp (so_ns_per_sample s) t k\<rparr>) (w\<lparr>w_hw := Suc (Suc (w_hw w))\<rparr>))"
  using assms by (simp add: soapy_channel_start_def, subst soapy_start_loop.simps)
    (simp add: soapy_chan_frame hw_call_def Let_def soapy_start_loop.simps [of S h n _ 0 t])

text \<open>A LimeSDR at a rate of a million samples per second, and the same after a read of no samples, which starts it.\<close>

definition lime_idle_world :: world where
  "lime_idle_world = (case new_lime_rx_machine demo_sys (sdr_api_of demo_sys) empty_world of
      Some (h, w) \<Rightarrow> (case soapy_set_rx h 100000000 1000000 0 w of Some w1 \<Rightarrow> w1 | None \<Rightarrow> w)
    | None \<Rightarrow> empty_world)"

definition lime_world :: world where
  "lime_world = (case sdrrx_read demo_sys (sdr_api_of demo_sys) 994 1 0 IO_BLOCK 1 lime_idle_world of
      Some (st, n, w) \<Rightarrow> w | None \<Rightarrow> lime_idle_world)"

definition lime_fields :: soapy_channel where
  "lime_fields = \<lparr>so_sdr = 8, so_rx = 9, so_antenna = LIME_MINI_LNAH, so_error_counter = 0, so_tia_gain = 0, so_pga_gain = 0,
     so_expected_timestamp = Fin 12000, so_ns_per_sample = Fin 1000, so_chan = 0\<rparr>"

lemmas lime_create_defs = new_lime_rx_machine_def new_soapy_rx_machine_def get_soapy_rx_machine_def soapy_api_def lime_api_def
  soapy_create_device_def soapy_create_channel_def soapy_create_rx_filter_def sizeof_soapy_device_def sizeof_soapy_channel_def zero_soapy_def
  demo_soapy_def SOAPY_SERIAL_LEN_def sdr_init_machine_functions_def sdr_create_def sdr_api_of_def hw_call_def zero_channel_def
  sdr_init_filters_def add_channel_def add_device_def get_dev_def SDR_RX_CHAN_ALLOC_def sizeof_chan_ptr_def

definition lime_view :: "world \<Rightarrow> io_handle option \<times> machine_desc option \<times> iom list \<times> nat" where
  "lime_view w = (handle_of 994 w, machine_get_desc 1 w, w_machines w, w_hw w)"

lemma lime_idle_view:
  "\<exists>d c m. lime_view lime_idle_world = (Some 1, Some d, [m], 3) \<and> md_impl d = IMPL_SDR c \<and> md_machine d = 0 \<and> m_obj m = Some API_LIME \<and>
     sc_state c = SDR_CHAN_NOINIT \<and> sc_mode c = SDR_MODE_UNBUFFERED \<and> sc_rate c = 1000000 \<and>
     sc_impl c = SDR_SOAPY (zero_soapy\<lparr>so_sdr := 8, so_rx := 9\<rparr>)"
  by (simp add: lime_idle_world_def lime_view_def setup_defs lime_create_defs soapy_set_rx_def handle_of_def machine_get_desc_def chan_of_def
    upd_chan_def put_chan_def upd_desc_def)

lemma start_numbers:
  "dbl (1 / 100) = 5764607523034235 / 2 ^ 59" "dbl (1000000 * dbl (1 / 100)) = 10000" "0 < dbl (2 - dbl (1 / 100))"
  "dbl 1000 = 1000"
proof -
  have "dexp (1 / 100) = - 7" by (rule dexp_eq) (simp_all add: power_int_def power_divide)
  moreover have fl: "\<lfloor>144115188075855872 / 25 :: rat\<rfloor> = 5764607523034234" by (simp add: floor_eq_iff)
  ultimately show a: "dbl (1 / 100) = 5764607523034235 / 2 ^ 59"
    by (simp add: dbl_def rnd_def rnd_pos_def round_even_def Let_def power_int_def power_divide fl)
  have "dexp (1000000 * (5764607523034235 / 2 ^ 59)) = 13" by (rule dexp_eq) (simp_all add: power_int_def)
  moreover have fl: "\<lfloor>90071992547409921875 / 16384 :: rat\<rfloor> = 5497558138880000" by (simp add: floor_eq_iff)
  ultimately show "dbl (1000000 * dbl (1 / 100)) = 10000"
    unfolding a by (simp add: dbl_def rnd_def rnd_pos_def round_even_def Let_def power_int_def power_divide fl)
  have "0 < 2 - dbl (1 / 100)" unfolding a by simp
  then have "\<bar>dbl (2 - dbl (1 / 100)) - (2 - dbl (1 / 100))\<bar> \<le> (2 - dbl (1 / 100)) / 2 ^ 53" by (rule dbl_error)
  then show "0 < dbl (2 - dbl (1 / 100))" unfolding a by (simp add: abs_if split: if_splits)
  show "dbl 1000 = 1000" using dbl_nat_exact [of 1000] by simp
qed

lemma start_clock: "clock_diff (zero_soapy\<lparr>so_sdr := 8, so_rx := 9, so_ns_per_sample := Fin 1000\<rparr>) 11000 = Some 11000"
  "next_timestamp (Fin 1000) 11000 1 = Fin 12000"
  using clock_diff_exact [of "zero_soapy\<lparr>so_sdr := 8, so_rx := 9, so_ns_per_sample := Fin 1000\<rparr>" 0 11000] next_timestamp_exact [of 11000 1000 1]
  by (simp_all add: zero_soapy_def)

lemma lime_world_view:
  "\<exists>d c m. handle_of 994 lime_world = Some 1 \<and> machine_get_desc 1 lime_world = Some d \<and> w_machines lime_world = [m] \<and> w_hw lime_world = 12 \<and>
     md_impl d = IMPL_SDR c \<and> md_machine d = 0 \<and> m_obj m = Some API_LIME \<and> sc_state c = SDR_CHAN_READY \<and> sc_mode c = SDR_MODE_UNBUFFERED \<and>
     sc_rate c = 1000000 \<and> sc_impl c = SDR_SOAPY lime_fields"
proof -
  obtain d c m where V: "handle_of 994 lime_idle_world = Some 1" "machine_get_desc 1 lime_idle_world = Some d" "w_machines lime_idle_world = [m]"
     "w_hw lime_idle_world = 3" "md_impl d = IMPL_SDR c" "md_machine d = 0" "m_obj m = Some API_LIME" "sc_state c = SDR_CHAN_NOINIT"
     "sc_mode c = SDR_MODE_UNBUFFERED" "sc_rate c = 1000000" "sc_impl c = SDR_SOAPY (zero_soapy\<lparr>so_sdr := 8, so_rx := 9\<rparr>)"
    using lime_idle_view by (auto simp: lime_view_def)
  let ?s1 = "zero_soapy\<lparr>so_sdr := 8, so_rx := 9, so_ns_per_sample := Fin 1000\<rparr>"
  let ?w1 = "(put_soapy 1 c ?s1 (lime_idle_world\<lparr>w_hw := 5\<rparr>))\<lparr>w_hw := 10\<rparr>"
  let ?c1 = "c\<lparr>sc_impl := SDR_SOAPY ?s1\<rparr>"
  have C: "soapy_chan 1 lime_idle_world = Some (c, zero_soapy\<lparr>so_sdr := 8, so_rx := 9\<rparr>)" using V by (simp add: soapy_chan_def chan_of_def soapy_of_def)
  have set: "soapy_channel_set demo_sys 1 lime_idle_world = Some (IO_SUCCESS, ?w1)"
    using C V(4,10) start_numbers(4) by (simp add: soapy_channel_set_def demo_sys_def demo_soapy_def hw_call_def put_soapy_frame cdiv_def)
  have C1: "soapy_chan 1 ?w1 = Some (?c1, ?s1)" using soapy_chan_put(1) [of 1 "lime_idle_world\<lparr>w_hw := 5\<rparr>"] C by (simp add: soapy_chan_frame)
  let ?w2 = "put_soapy 1 ?c1 lime_fields (?w1\<lparr>w_hw := 12\<rparr>)"
  have start: "soapy_channel_start demo_sys 1 ?w1 = Some (IO_SUCCESS, ?w2)"
    using soapy_start_one [OF C1, of 10000 demo_sys 1 "replicate 8 11" 11000 11000] V(10) start_numbers(2) start_clock
    by (simp add: dbl_to_size_def sz_max_def demo_sys_def demo_soapy_def lime_fields_def zero_soapy_def)
  have D1: "machine_get_desc 1 ?w2 = Some (d\<lparr>md_impl := IMPL_SDR (c\<lparr>sc_impl := SDR_SOAPY lime_fields\<rparr>)\<rparr>)"
    using V(2) get_put_chan [of 1] by (simp add: put_soapy_def machine_get_desc_def put_chan_def upd_desc_def find_upd_first)
  let ?c3 = "c\<lparr>sc_impl := SDR_SOAPY lime_fields, sc_state := SDR_CHAN_READY\<rparr>"
  let ?w3 = "put_chan 1 ?c3 ?w2"
  have ready: "upd_chan 1 (sc_state_update (\<lambda>_. SDR_CHAN_READY)) ?w2 = Some ?w3" using upd_chan_ok [OF D1] by simp
  have D3: "machine_get_desc 1 ?w3 = Some (d\<lparr>md_impl := IMPL_SDR ?c3\<rparr>)" using D1 get_put_chan [of 1 ?c3 ?w2] by simp
  have api: "desc_api (sdr_api_of demo_sys) d lime_idle_world = Some (lime_api demo_sys)"
    using V(3,6,7) by (simp add: desc_api_def get_iom_def sdr_api_of_def)
  have "sdrrx_read demo_sys (sdr_api_of demo_sys) 994 1 0 IO_BLOCK 1 lime_idle_world = Some (IO_SUCCESS, 0, ?w3)"
    using V(1,2,5,8,9) api set start ready D3
    by (simp add: sdrrx_read_def chan_of_def sdr_make_ready_def lime_api_def soapy_api_def soapy_read_from_hw_def soapy_read_loop.simps sz_mul_def demo_sys_def)
  then have lw: "lime_world = ?w3" by (simp add: lime_world_def)
  have "handle_of 994 ?w3 = Some 1" using V(1) handle_of_cong [of ?w3 lime_idle_world 994] by (simp add: put_chan_def put_soapy_def upd_desc_def)
  moreover have "w_machines ?w3 = [m]" "w_hw ?w3 = 12" using V(3) by (simp_all add: put_chan_def put_soapy_def upd_desc_def)
  ultimately show ?thesis using D3 V(6,7,9,10) unfolding lw by (intro exI [of _ "d\<lparr>md_impl := IMPL_SDR ?c3\<rparr>"] exI [of _ ?c3] exI [of _ m]) simp
qed

section \<open>Reading\<close>

text \<open>C20. Reading a radio behind SoapySDR that was started and is not buffered, while its clock is steady: however few samples the library gives at
  a time, the read is a success with all the samples that were asked for, and the caller's buffer has what the library gave, in order.\<close>

theorem soapy_read_delivers:
  assumes "soapy_unbuffered S f h s w" and "on_clock (s_soapy S) s (w_hw w) (bytes div 8)" and "bytes < sz_max"
  shows "\<exists>w'. sdrrx_read S (sdr_api_of S) f buf bytes block align w = Some (IO_SUCCESS, 8 * (bytes div 8), w') \<and>
    w_heap w' = (w_heap w)\<lparr>mem := mem_write (mem (w_heap w)) buf (fst (take_block 1 (soapy_ans (s_soapy S) s) (w_hw w) (bytes div 8)))\<rparr>"
proof -
  obtain d c i where D: "\<not> envex_exists S ''BW_SOAPY_COUNTER_TEST''" "handle_of f w = Some h" "machine_get_desc h w = Some d" "md_impl d = IMPL_SDR c"
    "sc_state c = SDR_CHAN_READY" "sc_mode c = SDR_MODE_UNBUFFERED" "sc_impl c = SDR_SOAPY s" "api_id_of d w = Some i" "i = API_SOAPY \<or> i = API_LIME"
    using assms(1) by (auto simp: soapy_unbuffered_def)
  have C: "soapy_chan h w = Some (c, s)" using D by (simp add: soapy_chan_def chan_of_def soapy_of_def)
  have sz: "sz_mul (bytes div 8) 8 = 8 * (bytes div 8)" using assms(3) by (simp add: sz_mul_exact)
  have hw: "api_hw_read (sdr_api_of S i) = soapy_read_from_hw S" using D(1,9) by (auto simp: sdr_api_of_def lime_api_def soapy_api_def)
  have "0 + bytes div 8 < sz_max" using assms(3) by simp
  from soapy_read_loop_ok [OF C assms(2) this, of buf] obtain w' where
    "soapy_read_from_hw S h buf (bytes div 8) w = Some (IO_SUCCESS, bytes div 8, w')"
    "w_heap w' = (w_heap w)\<lparr>mem := mem_write (mem (w_heap w)) buf (fst (take_block 1 (soapy_ans (s_soapy S) s) (w_hw w) (bytes div 8)))\<rparr>"
    by (auto simp: soapy_read_from_hw_def)
  then show ?thesis using D(2-6) sz hw desc_api_of [OF D(8), of "sdr_api_of S"]
    by (simp add: sdrrx_read_def chan_of_def sdr_make_ready_def sizeof_complex_def Let_def)
qed

lemma lime_world_ready: "soapy_unbuffered demo_sys 994 1 lime_fields lime_world"
  using lime_world_view by (auto simp: soapy_unbuffered_def demo_sys_def api_id_of_def get_iom_def)

text \<open>The clock of the radio in \<open>lime_world\<close> is steady.\<close>

lemma lime_on_clock: "n < 1000000 \<Longrightarrow> r < 1000000 \<Longrightarrow>
  so_sdr s = 8 \<Longrightarrow> so_expected_timestamp s = Fin (of_int (1000 * int n)) \<Longrightarrow> so_ns_per_sample s = Fin 1000 \<Longrightarrow> n + r < 1000000 \<Longrightarrow>
  on_clock demo_soapy s n r"
proof (induction r arbitrary: n s)
  case 0
  show ?case by (simp add: on_clock.simps)
next
  case (Suc r)
  have "clock_diff s (1000 * int n) = Some 0" using clock_diff_exact [OF Suc.prems(4), of "1000 * int n"] Suc.prems(1) by simp
  then have t: "on_time s (1000 * int n)" by (simp add: on_time_def)
  have "next_timestamp (Fin 1000) (1000 * int n) 1 = Fin (of_int (1000 * int (Suc n)))"
    using next_timestamp_exact [of "1000 * int n" 1000 1] Suc.prems(1) by (simp add: algebra_simps)
  then have "on_clock demo_soapy (after_read s (1000 * int n) 1) (Suc n) r"
    using Suc.prems by (intro Suc.IH) (simp_all add: after_read_def)
  then show ?case using t by (subst on_clock.simps) (simp add: demo_soapy_def)
qed

theorem soapy_read_delivers_witness:
  "\<exists>w'. sdrrx_read demo_sys (sdr_api_of demo_sys) 994 1 16 IO_BLOCK 1 lime_world = Some (IO_SUCCESS, 16, w') \<and>
     mem_read (mem (w_heap w')) 1 16 = replicate 8 12 @ replicate 8 13"
proof -
  obtain d where hw: "w_hw lime_world = 12" using lime_world_view by blast
  have "on_clock (s_soapy demo_sys) lime_fields (w_hw lime_world) (16 div 8)"
    using lime_on_clock [of 12 2 lime_fields] by (simp add: hw demo_sys_def lime_fields_def)
  moreover have "fst (take_block 1 (soapy_ans demo_soapy lime_fields) 12 2) = replicate 8 12 @ replicate 8 13"
    using take_block_step [of "soapy_ans demo_soapy lime_fields" 12 2 1 1] take_block_step [of "soapy_ans demo_soapy lime_fields" 13 1 1 1]
    by (simp add: soapy_ans_def demo_soapy_def)
  ultimately show ?thesis
    using soapy_read_delivers [OF lime_world_ready, of 16 1 IO_BLOCK 1] hw mem_read_same [of _ 1 "replicate 8 12 @ replicate 8 13"]
    by (auto simp: sz_max_def demo_sys_def)
qed

text \<open>C38. When the clock jumps in the middle of a read: the first call of the library gives some of the samples, on time, and the second call gives
  more, but not on time. The read returns what the first call gave, as a break in the data or as an error; the samples of the second call are lost,
  for the channel then expects the sample after them.\<close>

theorem soapy_break_drops_samples:
  assumes "soapy_chan h w = Some (c, s)"
    and "SoapySDRDevice_readStream (s_soapy S) (w_hw w) (so_sdr s) (so_rx s) n = (k, bs, t)" and "0 < k" and "k < int n" and "n < sz_max" and "on_time s t"
    and "SoapySDRDevice_readStream (s_soapy S) (Suc (w_hw w)) (so_sdr s) (so_rx s) (n - nat k) = (k', bs', t')" and "0 \<le> k'"
    and "clock_diff (after_read s t k) t' = Some diff" and "diff < - 1 \<or> diff > 1"
  shows "\<exists>w' c' s'. soapy_read_from_hw S h buf n w = Some (if sc_allow_overruns c then IO_DATABREAK else IO_ERROR, nat k, w') \<and>
    w_hw w' = w_hw w + 2 \<and> soapy_chan h w' = Some (c', s') \<and> so_expected_timestamp s' = next_timestamp (so_ns_per_sample s) t' k'"
proof -
  obtain diff0 where diff0: "clock_diff s t = Some diff0" "\<not> (diff0 < - 1 \<or> diff0 > 1)" using assms(6) by (auto simp: on_time_def split: option.splits)
  let ?w1 = "put_soapy h c (after_read s t k) (poke buf bs (w\<lparr>w_hw := Suc (w_hw w)\<rparr>))"
  let ?c1 = "c\<lparr>sc_impl := SDR_SOAPY (after_read s t k)\<rparr>"
  have C1: "soapy_chan h ?w1 = Some (?c1, after_read s t k)"
    by (rule soapy_chan_put) (use assms(1) in \<open>simp add: poke_def soapy_chan_frame\<close>)
  have sz: "sz_sub n (nat k) = n - nat k" "sz_add 0 (nat k) = nat k" "n - nat k \<noteq> 0" "0 < nat k" using assms(3-5) by (auto simp: sz_sub_exact sz_add_exact)
  have first: "soapy_read_from_hw S h buf n w = soapy_read_loop S h (buf + 8 * nat k) (n - nat k) (nat k) IO_ERROR ?w1"
    unfolding soapy_read_from_hw_def using assms(1,2,3,4) diff0 sz
    by (subst soapy_read_loop.simps) (simp add: hw_call_def poke_def after_read_def)
  let ?s2 = "(after_read s t k)\<lparr>so_expected_timestamp := next_timestamp (so_ns_per_sample s) t' k'\<rparr>"
  let ?w2 = "put_soapy h ?c1 ?s2 (poke (buf + 8 * nat k) bs' (?w1\<lparr>w_hw := Suc (Suc (w_hw w))\<rparr>))"
  have hw: "w_hw ?w1 = Suc (w_hw w)" and s1: "so_sdr (after_read s t k) = so_sdr s" "so_rx (after_read s t k) = so_rx s"
      "so_ns_per_sample (after_read s t k) = so_ns_per_sample s" by (simp_all add: put_soapy_frame poke_def after_read_def)
  have second: "soapy_read_loop S h (buf + 8 * nat k) (n - nat k) (nat k) IO_ERROR ?w1 =
      Some (if sc_allow_overruns c then IO_DATABREAK else IO_ERROR, nat k, ?w2)"
    using C1 assms(7-10) sz(3,4) hw s1 by (subst soapy_read_loop.simps) (simp add: hw_call_def)
  have "soapy_chan h ?w2 = Some (?c1\<lparr>sc_impl := SDR_SOAPY ?s2\<rparr>, ?s2)"
    by (rule soapy_chan_put) (use C1 in \<open>simp add: poke_def soapy_chan_frame\<close>)
  moreover have "w_hw ?w2 = w_hw w + 2" by (simp add: put_soapy_frame poke_def)
  ultimately show ?thesis using first second by fastforce
qed

text \<open>The same radio, with a clock that is half a microsecond late at one call.\<close>

definition late_sys :: sys where
  "late_sys = demo_sys\<lparr>s_soapy := demo_soapy\<lparr>SoapySDRDevice_readStream :=
     (\<lambda>n d r k. (1, replicate 8 (of_nat n), 1000 * int n + (if n = 13 then 500 else 0)))\<rparr>\<rparr>"

lemma lime_chan:
  obtains c where "soapy_chan 1 lime_world = Some (c, lime_fields)" "sc_rate c = 1000000" "w_hw lime_world = 12"
  using lime_world_view by (auto simp: soapy_chan_def chan_of_def soapy_of_def)

theorem soapy_break_drops_samples_witness:
  "\<exists>st w' c' s'. soapy_read_from_hw late_sys 1 1 2 lime_world = Some (st, 1, w') \<and> w_hw w' = 14 \<and>
     soapy_chan 1 w' = Some (c', s') \<and> so_expected_timestamp s' = next_timestamp (Fin 1000) 13500 1"
proof -
  obtain c where C: "soapy_chan 1 lime_world = Some (c, lime_fields)" "w_hw lime_world = 12" by (rule lime_chan)
  have t: "on_time lime_fields 12000" using clock_diff_exact [of lime_fields 12000 12000] by (simp add: on_time_def lime_fields_def)
  have "next_timestamp (Fin 1000) 12000 1 = Fin 13000" using next_timestamp_exact [of 12000 1000 1] by simp
  then have "clock_diff (after_read lime_fields 12000 1) 13500 = Some 500"
    using clock_diff_exact [of "after_read lime_fields 12000 1" 13000 13500] by (simp add: after_read_def lime_fields_def)
  then show ?thesis
    using soapy_break_drops_samples [OF C(1), of late_sys 2 1 "replicate 8 12" 12000 1 "replicate 8 13" 13500 500 1] C(2) t
    by (auto simp: late_sys_def lime_fields_def sz_max_def)
qed

text \<open>The start of a channel is meant to wait until the time of the samples is the expected one. It ends with success at the first read that has a time
  at all, however far that time is from the expected one.\<close>

lemma soapy_start_not_synchronized:
  assumes "soapy_chan h w = Some (c, s)" and "dbl_to_size (dbl (sc_rate c * dbl (1 / 100))) = Some n"
    and "SoapySDRDevice_readStream (s_soapy S) (Suc (w_hw w)) (so_sdr s) (so_rx s) n = (k, bs, t)" and "0 \<le> k" and "t \<noteq> 0"
    and "clock_diff s t = Some diff"
  shows "\<exists>w'. soapy_channel_start S h w = Some (IO_SUCCESS, w') \<and> w_hw w' = w_hw w + 2"
  using soapy_start_one [OF assms] by (simp add: put_soapy_frame)

section \<open>Gains of a LimeSDR\<close>

lemma lime_exact:
  "k < 100 \<Longrightarrow> sgl (of_nat k) = of_nat k" "k < 100 \<Longrightarrow> dbl (of_nat k) = of_nat k"
  using sgl_nat_exact [of k] dbl_nat_exact [of k] by simp_all

lemma of_nat_minus: "a + b = c \<Longrightarrow> of_nat c - of_nat a = (of_nat b :: rat)"
  by (metis add_diff_cancel_left' of_nat_add)

lemma lime_inc_nat:
  assumes "gm_type m = GM_TYPE_LIME" and "gm_lna m = of_nat l" and "gm_pga m = of_nat p" and a: "l + a = 30" and b: "p + b = 19"
  shows "lime_rx_gain_inc m =
    (if 3 \<le> a then (0, m\<lparr>gm_lna := of_nat (l + 3)\<rparr>)
     else if 3 \<le> a + b then (0, m\<lparr>gm_lna := 30, gm_pga := of_nat (p + (3 - a))\<rparr>)
     else (1, m\<lparr>gm_lna := 30, gm_pga := 19\<rparr>))"
proof -
  have lna: "sgl (dbl (30 - of_nat l)) = of_nat a" using lime_exact [of a] a of_nat_minus [OF a] by simp
  have pga: "sgl (dbl (19 - of_nat p)) = of_nat b" using lime_exact [of b] b of_nat_minus [OF b] by simp
  have up: "sgl (of_nat x + of_nat y) = of_nat (x + y)" if "x + y < 100" for x y using lime_exact(1) [of "x + y"] that by simp
  show ?thesis
  proof (cases "3 \<le> a")
    case True
    then show ?thesis using assms(1-3) lna up [of l 3] a by (simp add: lime_rx_gain_inc_def Let_def)
  next
    case False
    then obtain c where c: "a + c = 3" by (metis le_add_diff_inverse nat_le_linear)
    have inc: "sgl (3 - of_nat a) = of_nat c" using lime_exact(1) [of c] c of_nat_minus [OF c] by simp
    have "sgl (of_nat l + of_nat a) = 30" "sgl (of_nat p + of_nat b) = 19" "sgl (of_nat p + of_nat c) = of_nat (p + c)"
      using up [of l a] up [of p b] up [of p c] a b c by simp_all
    moreover have "3 - a = c" "3 \<le> a + b \<longleftrightarrow> c \<le> b" using c by auto
    ultimately show ?thesis using assms(1-3) lna pga inc False by (simp add: lime_rx_gain_inc_def Let_def)
  qed
qed

lemma lime_dec_nat:
  assumes "gm_type m = GM_TYPE_LIME" and "gm_lna m = of_nat l" and "gm_pga m = of_nat p" and "l \<le> 30" and "p \<le> 19"
  shows "lime_rx_gain_dec m =
    (if 3 \<le> p then (0, m\<lparr>gm_pga := of_nat (p - 3)\<rparr>)
     else if 3 \<le> l + p then (0, m\<lparr>gm_lna := of_nat (l - (3 - p)), gm_pga := 0\<rparr>)
     else (1, m\<lparr>gm_lna := 0, gm_pga := 0\<rparr>))"
proof (cases "3 \<le> p")
  case True
  then obtain q where q: "3 + q = p" by (metis le_add_diff_inverse)
  then show ?thesis using assms True lime_exact(1) [of q] of_nat_minus [OF q] by (auto simp: lime_rx_gain_dec_def Let_def)
next
  case False
  then obtain c where c: "p + c = 3" by (metis le_add_diff_inverse nat_le_linear)
  have dec: "sgl (3 - of_nat p) = of_nat c" using lime_exact(1) [of c] c of_nat_minus [OF c] by simp
  show ?thesis
  proof (cases "c \<le> l")
    case True
    then obtain k where k: "c + k = l" by (metis le_add_diff_inverse)
    have "sgl (of_nat l - of_nat c) = of_nat k" using lime_exact(1) [of k] k assms(4) of_nat_minus [OF k] by simp
    moreover have "3 - p = c" "3 \<le> l + p" "l - c = k" using c k True by auto
    ultimately show ?thesis using assms dec False True by (simp add: lime_rx_gain_dec_def Let_def)
  next
    case F: False
    then have "\<not> 3 \<le> l + p" using c by simp
    then show ?thesis using assms dec False F by (simp add: lime_rx_gain_dec_def Let_def)
  qed
qed

text \<open>C21. The gain steps of a LimeSDR, for gains of whole decibels within their ranges. A step up raises the sum of the two gains by 3, but
  not beyond 49, and returns 1 exactly if fewer than 3 were left (the step from 46 to 49 returns 0). A step down lowers the sum by 3, but not below 0, and returns 1 exactly
  if the sum was less than 3. Both keep each gain within its range and change nothing else. If the second gain is 0 or the first is at its end, a step down
  after a full step up gives both gains back; otherwise the two gains can be left at other values with the same sum.\<close>

theorem lime_gain_steps:
  assumes "gm_type m = GM_TYPE_LIME" and "gm_lna m = of_nat l" and "gm_pga m = of_nat p" and "l \<le> 30" and "p \<le> 19"
  shows "(\<exists>l' p'. lime_rx_gain_inc m = (if 46 < l + p then 1 else 0, m\<lparr>gm_lna := of_nat l', gm_pga := of_nat p'\<rparr>) \<and>
      l' \<le> 30 \<and> p' \<le> 19 \<and> l' + p' = min 49 (l + p + 3)) \<and>
    (\<exists>l' p'. lime_rx_gain_dec m = (if l + p < 3 then 1 else 0, m\<lparr>gm_lna := of_nat l', gm_pga := of_nat p'\<rparr>) \<and>
      l' \<le> 30 \<and> p' \<le> 19 \<and> l' + p' = l + p - 3) \<and>
    (l + p \<le> 46 \<longrightarrow> (p = 0 \<or> l = 30) \<longrightarrow> lime_rx_gain_dec (snd (lime_rx_gain_inc m)) = (0, m))"
proof -
  obtain a b where a: "l + a = 30" and b: "p + b = 19" using assms(4,5) by (metis le_add_diff_inverse)
  note inc = lime_inc_nat [OF assms(1-3) a b] and dec = lime_dec_nat [OF assms]
  have same: "m\<lparr>gm_lna := of_nat l\<rparr> = m" "m\<lparr>gm_pga := of_nat p\<rparr> = m" using assms(2,3) by (cases m, simp)+
  have "\<exists>l' p'. lime_rx_gain_inc m = (if 46 < l + p then 1 else 0, m\<lparr>gm_lna := of_nat l', gm_pga := of_nat p'\<rparr>) \<and>
      l' \<le> 30 \<and> p' \<le> 19 \<and> l' + p' = min 49 (l + p + 3)"
  proof (cases "3 \<le> a")
    case True
    then show ?thesis using inc a b assms(3) by (intro exI [of _ "l + 3"] exI [of _ p]) (cases m; auto)
  next
    case False
    then show ?thesis using inc a b by (intro exI [of _ 30] exI [of _ "min 19 (p + (3 - a))"]) (auto simp: min_def)
  qed
  moreover have "\<exists>l' p'. lime_rx_gain_dec m = (if l + p < 3 then 1 else 0, m\<lparr>gm_lna := of_nat l', gm_pga := of_nat p'\<rparr>) \<and>
      l' \<le> 30 \<and> p' \<le> 19 \<and> l' + p' = l + p - 3"
  proof (cases "3 \<le> p")
    case True
    then show ?thesis using dec assms(2,4,5) by (intro exI [of _ l] exI [of _ "p - 3"]) (cases m; auto)
  next
    case False
    then show ?thesis using dec assms(4) by (intro exI [of _ "l - (3 - p)"] exI [of _ 0]) auto
  qed
  moreover have "lime_rx_gain_dec (snd (lime_rx_gain_inc m)) = (0, m)" if "l + p \<le> 46" "p = 0 \<or> l = 30"
  proof (cases "3 \<le> a")
    case True
    have "p = 0" using that True a by auto
    have "lime_rx_gain_dec (m\<lparr>gm_lna := of_nat (l + 3)\<rparr>) = (0, m)"
      using lime_dec_nat [of "m\<lparr>gm_lna := of_nat (l + 3)\<rparr>" "l + 3" 0] assms(1-3) True a \<open>p = 0\<close> same by (cases m) simp
    then show ?thesis using inc True by simp
  next
    case False
    let ?m = "m\<lparr>gm_lna := 30, gm_pga := of_nat (p + (3 - a))\<rparr>"
    have "lime_rx_gain_dec ?m = (0, m)"
      using lime_dec_nat [of ?m 30 "p + (3 - a)"] assms(1-3) False a b that by (cases m) (auto simp: of_nat_diff)
    then show ?thesis using inc False a b that by simp
  qed
  ultimately show ?thesis by blast
qed

theorem lime_gain_steps_witness:
  "lime_rx_gain_dec (snd (lime_rx_gain_inc \<lparr>gm_type = GM_TYPE_LIME, gm_len = 32, gm_lna = 28, gm_pga = 0, gm_tia = 0\<rparr>)) =
     (0, \<lparr>gm_type = GM_TYPE_LIME, gm_len = 32, gm_lna = 28, gm_pga = 0, gm_tia = 0\<rparr>)"
  using lime_gain_steps [of "\<lparr>gm_type = GM_TYPE_LIME, gm_len = 32, gm_lna = 28, gm_pga = 0, gm_tia = 0\<rparr>" 28 0] by simp

end
