(* ===== verification/Conversion_Properties.thy ===== *)
theory Conversion_Properties
  imports Conversions Demo_World
begin

text \<open>
  Properties of the conversion of samples (\<open>src/filter/conversions.c\<close>).
\<close>

section \<open>Formats\<close>

lemma float_of_bytes:
  assumes "x \<noteq> 0 \<Longrightarrow> 2 powi (- 126) \<le> \<bar>x\<bar>" and "\<bar>x\<bar> < 2 powi 127"
  shows "float_of (float_bytes x) = Fin (sgl x)"
proof -
  have "enc32 x < 256 ^ 4" by (auto simp: enc32_def Let_def min_def)
  then show ?thesis using dec32_enc32 [OF assms] by (simp add: float_of_def float_bytes_def le_nat_le_bytes)
qed

lemma length_int_bytes [simp]: "length (int_bytes k x) = k"
  by (simp add: int_bytes_def)

lemma int_of_int_bytes:
  assumes "0 < k" and "- (2 ^ (8 * k - 1)) \<le> x" and "x < 2 ^ (8 * k - 1)"
  shows "int_of_bytes k (int_bytes k x) = x"
proof -
  have two: "(2 :: int) ^ (8 * k) = 2 * 2 ^ (8 * k - 1)" using assms(1) power_Suc [of "2 :: int" "8 * k - 1"] by simp
  have "(256 :: nat) ^ k = 2 ^ (8 * k)" by (simp add: power_mult)
  then have "int (le_nat (int_bytes k x)) = int (nat (x mod 2 ^ (8 * k)) mod 2 ^ (8 * k))"
    by (simp add: int_bytes_def le_nat_le_bytes)
  also have "\<dots> = x mod 2 ^ (8 * k)" by (simp add: zmod_int)
  finally have n: "int (le_nat (int_bytes k x)) = x mod 2 ^ (8 * k)" .
  show ?thesis
  proof (cases "0 \<le> x")
    case True
    then have "x mod 2 ^ (8 * k) = x" using assms(3) two by (intro mod_pos_pos_trivial) auto
    then show ?thesis using n assms(3) by (simp add: int_of_bytes_def)
  next
    case False
    then have "(x + 2 ^ (8 * k)) mod 2 ^ (8 * k) = x + 2 ^ (8 * k)" using assms(2) two by (intro mod_pos_pos_trivial) auto
    then have "x mod 2 ^ (8 * k) = x + 2 ^ (8 * k)" by simp
    then show ?thesis using n assms(2) two by (simp add: int_of_bytes_def)
  qed
qed

lemma pull_all:
  assumes "0 < iq_data_size fmt" and "\<And>x. x \<in> set xs \<Longrightarrow> length (enc x) = iq_data_size fmt"
    and "mem_read m src (iq_data_size fmt * length xs) = concat (map enc xs)"
  shows "pull fmt m src (iq_data_size fmt * length xs) = map (\<lambda>x. pull_one (iq_type fmt) (enc x)) xs"
  using assms(2,3)
proof (induction xs arbitrary: src)
  case Nil
  then show ?case using assms(1) by (simp add: pull.simps [of fmt m src 0])
next
  case (Cons x xs)
  let ?k = "iq_data_size fmt"
  have len: "length (enc x) = ?k" using Cons.prems(1) by simp
  have "mem_read m src ?k @ mem_read m (src + ?k) (?k * length xs) = enc x @ concat (map enc xs)"
    using Cons.prems(2) mem_read_add [of m src ?k "?k * length xs"] by simp
  then have "mem_read m src ?k = enc x" "mem_read m (src + ?k) (?k * length xs) = concat (map enc xs)"
    using len append_eq_append_conv [of "mem_read m src ?k" "enc x"] by simp_all
  then show ?case using Cons.IH [of "src + ?k"] Cons.prems(1) assms(1) by (simp add: pull.simps [of fmt m src "?k + ?k * length xs"])
qed

lemma push_all:
  assumes "\<And>x. x \<in> set xs \<Longrightarrow> push_one (iq_type fmt) (v x) = Some (enc x)"
  shows "push fmt (map v xs) = Some (concat (map enc xs))"
  using assms by (induction xs) auto

section \<open>Rounding\<close>

lemma trunc_near:
  assumes "\<bar>v - of_int x\<bar> < 1"
  shows "\<bar>trunc v\<bar> \<le> \<bar>x\<bar> \<and> \<bar>x\<bar> - \<bar>trunc v\<bar> \<le> 1 \<and> 0 \<le> x * trunc v"
proof (cases x "0 :: int" rule: linorder_cases)
  case greater
  then have "0 \<le> v" using assms by linarith
  moreover have "x - 1 \<le> \<lfloor>v\<rfloor>" "\<lfloor>v\<rfloor> \<le> x" using assms by linarith+
  ultimately show ?thesis using greater by (auto simp: trunc_def)
next
  case equal
  then have "-1 < v" "v < 1" using assms by auto
  then have "trunc v = 0" unfolding trunc_def by (auto simp: floor_eq_iff ceiling_eq_iff)
  then show ?thesis using equal by simp
next
  case less
  then have "v < 0 \<or> v = 0" using assms by linarith
  moreover have "x \<le> \<lceil>v\<rceil>" "\<lceil>v\<rceil> \<le> x + 1" using assms by linarith+
  ultimately show ?thesis using less by (auto simp: trunc_def mult_nonpos_nonpos)
qed

text \<open>The value of a sample after it went to a float and back, with scale factor \<open>s\<close>.\<close>

definition there_and_back :: "rat \<Rightarrow> int \<Rightarrow> rat" where
  "there_and_back s x = dbl (sgl (dbl (of_int x / s)) * s)"

lemma there_and_back_error:
  assumes s: "0 < s"
  shows "\<bar>there_and_back s x - of_int x\<bar> \<le> \<bar>of_int x\<bar> / 2 ^ 22"
proof -
  let ?x = "of_int x :: rat"
  define q a b where "q = ?x / s" and "a = dbl q" and "b = sgl a"
  have a: "\<bar>a - q\<bar> \<le> \<bar>q\<bar> / 2 ^ 53" using rnd_error_abs [of 52 q] by (simp add: a_def dbl_def)
  have b: "\<bar>b - a\<bar> \<le> \<bar>a\<bar> / 2 ^ 24" using rnd_error_abs [of 23 a] by (simp add: b_def sgl_def)
  have "\<bar>b - q\<bar> \<le> \<bar>q\<bar> / 2 ^ 23" using a b by (auto simp: abs_if field_simps split: if_splits)
  then have "\<bar>b - q\<bar> * s \<le> \<bar>q\<bar> / 2 ^ 23 * s" using s by (intro mult_right_mono) auto
  moreover have "(b - q) * s = b * s - ?x" "\<bar>q\<bar> / 2 ^ 23 * s = \<bar>?x\<bar> / 2 ^ 23" using s by (simp_all add: q_def left_diff_distrib abs_divide)
  moreover have "\<bar>b - q\<bar> * s = \<bar>(b - q) * s\<bar>" using s by (simp add: abs_mult)
  ultimately have p: "\<bar>b * s - ?x\<bar> \<le> \<bar>?x\<bar> / 2 ^ 23" by simp
  have "\<bar>dbl (b * s) - b * s\<bar> \<le> \<bar>b * s\<bar> / 2 ^ 53" using rnd_error_abs [of 52 "b * s"] by (simp add: dbl_def)
  with p have "\<bar>dbl (b * s) - ?x\<bar> \<le> \<bar>?x\<bar> / 2 ^ 22" by (auto simp: abs_if field_simps split: if_splits)
  then show ?thesis by (simp add: there_and_back_def b_def a_def q_def)
qed

text \<open>One loss: 1 of at most 2047 becomes 0.\<close>

lemma there_and_back_loss: "trunc (there_and_back 2047 1) = 0"
proof -
  have "dexp (1 / 2047) = - 11" by (rule dexp_eq) (simp_all add: power_int_def power_divide)
  moreover have fl: "\<lfloor>9223372036854775808 / 2047 :: rat\<rfloor> = 4505799724892416" by (simp add: floor_eq_iff)
  ultimately have d: "dbl (1 / 2047) = 4505799724892416 / 2 ^ 63"
    by (simp add: dbl_def rnd_def rnd_pos_def round_even_def Let_def power_int_def power_divide fl)
  have "dexp (4505799724892416 / 2 ^ 63) = - 11" by (rule dexp_eq) (simp_all add: power_int_def power_divide)
  moreover have fl2: "\<lfloor>17600780175361 / 2097152 :: rat\<rfloor> = 8392706" by (simp add: floor_eq_iff)
  ultimately have s: "sgl (4505799724892416 / 2 ^ 63) = 8392706 / 2 ^ 34"
    by (simp add: sgl_def rnd_def rnd_pos_def round_even_def Let_def power_int_def power_divide fl2)
  let ?v = "8392706 / 2 ^ 34 * 2047 :: rat"
  have "\<bar>dbl ?v - ?v\<bar> \<le> ?v / 2 ^ 53" using rnd_error_abs [of 52 ?v] by (simp add: dbl_def)
  then have "0 \<le> dbl ?v" "dbl ?v < 1" by (auto simp: abs_if split: if_splits)
  then have "trunc (dbl ?v) = 0" by (simp add: trunc_def floor_eq_iff)
  then show ?thesis unfolding there_and_back_def of_int_1 d s .
qed

section \<open>Round trip\<close>

definition conv :: "int \<Rightarrow> iq_datatype \<Rightarrow> iq_datatype \<Rightarrow> gcb" where
  "conv p from to = \<lparr>cb_buf = 0, cb_tmp = 0, cb_precision = p, cb_from = from, cb_to = to\<rparr>"

definition FC32 :: iq_datatype where "FC32 = iq_desc ! 0"
definition SC16 :: iq_datatype where "SC16 = iq_desc ! 1"

lemmas fmt_defs = FC32_def SC16_def iq_desc_def

definition shorts :: "int list \<Rightarrow> byte list" where
  "shorts xs = concat (map (int_bytes 2) xs)"

lemma length_shorts [simp]: "length (shorts xs) = 2 * length xs"
  by (induction xs) (simp_all add: shorts_def)

lemma scale_factor_eq:
  assumes "2 < p" and "p \<le> 16"
  shows "scale_factor p = Some (of_int (2 ^ nat (p - 1) - 1))" and "(3 :: int) \<le> 2 ^ nat (p - 1) - 1" and "(2 :: int) ^ nat (p - 1) - 1 < 2 ^ 15"
proof -
  have "(2 :: int) ^ 2 \<le> 2 ^ nat (p - 1)" "(2 :: int) ^ nat (p - 1) \<le> 2 ^ 15" using assms by (intro power_increasing; simp)+
  then show le: "(3 :: int) \<le> 2 ^ nat (p - 1) - 1" "(2 :: int) ^ nat (p - 1) - 1 < 2 ^ 15" by simp_all
  have "sgl (of_nat (nat (2 ^ nat (p - 1) - 1))) = of_nat (nat (2 ^ nat (p - 1) - 1))" using le(2) by (intro sgl_nat_exact) simp
  moreover have "of_nat (nat (2 ^ nat (p - 1) - 1)) = (of_int (2 ^ nat (p - 1) - 1) :: rat)" using le(1) by (simp add: of_nat_nat)
  moreover have "(p + 128) mod 256 - 128 = p" using assms by simp
  ultimately show "scale_factor p = Some (of_int (2 ^ nat (p - 1) - 1))" using assms by (simp add: scale_factor_def)
qed

lemma dbl_double_half:
  shows "\<bar>q\<bar> \<le> 1 \<Longrightarrow> \<bar>dbl q\<bar> \<le> 2" and "1 / 2 ^ 15 \<le> \<bar>q\<bar> \<Longrightarrow> 1 / 2 ^ 16 \<le> \<bar>dbl q\<bar>"
  using rnd_error_abs [of 52 q] by (auto simp: dbl_def abs_if split: if_splits)

text \<open>The quotient of a sample and the scale factor is a float in the normal range.\<close>

lemma quotient_float:
  assumes "0 < s" and "s < 2 ^ 15" and "\<bar>x\<bar> \<le> s"
  shows "float_of (float_bytes (dbl (of_int x / of_int s))) = Fin (sgl (dbl (of_int x / of_int s)))"
proof (rule float_of_bytes)
  let ?q = "of_int x / of_int s :: rat"
  have "\<bar>?q\<bar> \<le> 1" using assms by (simp add: abs_divide divide_le_eq flip: of_int_abs)
  then have "\<bar>dbl ?q\<bar> \<le> 2" by (rule dbl_double_half)
  also have "(2 :: rat) < 2 powi 127" by (simp add: power_int_def)
  finally show "\<bar>dbl ?q\<bar> < 2 powi 127" .
  assume "dbl ?q \<noteq> 0"
  then have "x \<noteq> 0" by (auto simp: dbl_def rnd_def)
  then have "1 \<le> \<bar>of_int x :: rat\<bar>" by linarith
  then have "1 / 2 ^ 15 \<le> \<bar>?q\<bar>" using assms(1,2) by (simp add: abs_divide field_simps)
  then have "1 / 2 ^ 16 \<le> \<bar>dbl ?q\<bar>" by (rule dbl_double_half)
  moreover have "(2 :: rat) powi (- 126) \<le> 1 / 2 ^ 16" by (simp add: power_int_def field_simps)
  ultimately show "2 powi (- 126) \<le> \<bar>dbl ?q\<bar>" by linarith
qed

lemma to_float_eq:
  assumes p: "2 < p" "p \<le> 16" and xs: "\<forall>x \<in> set xs. \<bar>x\<bar> \<le> 2 ^ nat (p - 1) - 1"
  defines "s \<equiv> of_int (2 ^ nat (p - 1) - 1) :: rat"
  shows "convert (conv p SC16 FC32) (mem_write m a (shorts xs)) a (2 * length xs) = Some (float_array (map (\<lambda>x. dbl (of_int x / s)) xs))"
proof -
  note S = scale_factor_eq [OF p, folded s_def]
  have s: "s \<noteq> 1" "s \<noteq> 0" using S(2) unfolding s_def by (simp_all only: of_int_eq_1_iff of_int_eq_0_iff)
  have range: "- (2 ^ (8 * 2 - 1)) \<le> x \<and> x < 2 ^ (8 * 2 - 1)" if "x \<in> set xs" for x using xs that S(3) by force
  have "mem_read (mem_write m a (shorts xs)) a (2 * length xs) = concat (map (int_bytes 2) xs)"
    using mem_read_same [of m a "shorts xs"] by (simp add: shorts_def [symmetric])
  then have "pull SC16 (mem_write m a (shorts xs)) a (2 * length xs) = map (\<lambda>x. pull_one IQ_SC16 (int_bytes 2 x)) xs"
    using pull_all [of SC16 xs "int_bytes 2"] by (simp add: fmt_defs)
  also have "\<dots> = map (\<lambda>x. Fin (of_int x)) xs" using int_of_int_bytes [of 2] range by (simp add: pull_one_def)
  finally have pull: "pull SC16 (mem_write m a (shorts xs)) a (2 * length xs) = map (\<lambda>x. Fin (of_int x)) xs" .
  have "scale (conv p SC16 FC32) (map (\<lambda>x. Fin (of_int x)) xs) = Some (map (\<lambda>x. Fin (dbl (of_int x / s))) xs)"
    using S(1) s by (simp add: scale_def scale_integer_to_float_def conv_def fmt_defs cquot_def cdiv_def)
  moreover have "push FC32 (map (\<lambda>x. Fin (dbl (of_int x / s))) xs) = Some (concat (map (\<lambda>x. float_bytes (dbl (of_int x / s))) xs))"
    by (rule push_all) (simp add: push_one_def fmt_defs)
  ultimately show ?thesis using pull by (simp add: convert_def conv_def float_array_def comp_def)
qed

lemma to_short_eq:
  assumes p: "2 < p" "p \<le> 16" and xs: "\<forall>x \<in> set xs. \<bar>x\<bar> \<le> 2 ^ nat (p - 1) - 1"
  defines "s \<equiv> of_int (2 ^ nat (p - 1) - 1) :: rat"
  defines "fs \<equiv> float_array (map (\<lambda>x. dbl (of_int x / s)) xs)"
  shows "convert (conv p FC32 SC16) (mem_write m a fs) a (length fs) = Some (shorts (map (\<lambda>x. trunc (there_and_back s x)) xs))"
    and "\<forall>x \<in> set xs. \<bar>trunc (there_and_back s x)\<bar> \<le> \<bar>x\<bar> \<and> \<bar>x\<bar> - \<bar>trunc (there_and_back s x)\<bar> \<le> 1 \<and> 0 \<le> x * trunc (there_and_back s x)"
proof -
  note S = scale_factor_eq [OF p, folded s_def]
  have s: "s \<noteq> 1" "0 < s" using S(2) unfolding s_def of_int_eq_1_iff of_int_0_less_iff by simp_all
  show near: "\<forall>x \<in> set xs. \<bar>trunc (there_and_back s x)\<bar> \<le> \<bar>x\<bar> \<and> \<bar>x\<bar> - \<bar>trunc (there_and_back s x)\<bar> \<le> 1 \<and> 0 \<le> x * trunc (there_and_back s x)"
  proof
    fix x assume "x \<in> set xs"
    then have "\<bar>x\<bar> \<le> 2 ^ 15" using xs S(3) by force
    then have "of_int \<bar>x\<bar> \<le> (of_int (2 ^ 15) :: rat)" by (simp only: of_int_le_iff)
    then have "\<bar>of_int x :: rat\<bar> \<le> 2 ^ 15" by simp
    then have "\<bar>there_and_back s x - of_int x\<bar> < 1" using there_and_back_error [OF s(2), of x] by simp
    then show "\<bar>trunc (there_and_back s x)\<bar> \<le> \<bar>x\<bar> \<and> \<bar>x\<bar> - \<bar>trunc (there_and_back s x)\<bar> \<le> 1 \<and> 0 \<le> x * trunc (there_and_back s x)" by (rule trunc_near)
  qed
  have len: "length fs = 4 * length xs" by (simp add: fs_def)
  have fs: "fs = concat (map (\<lambda>x. float_bytes (dbl (of_int x / s))) xs)" by (simp add: fs_def float_array_def comp_def)
  have "mem_read (mem_write m a fs) a (4 * length xs) = fs" using mem_read_same [of m a fs] len by simp
  then have "pull FC32 (mem_write m a fs) a (4 * length xs) = map (\<lambda>x. pull_one IQ_FC32 (float_bytes (dbl (of_int x / s)))) xs"
    using pull_all [of FC32 xs "\<lambda>x. float_bytes (dbl (of_int x / s))"] fs by (simp add: fmt_defs)
  also have "\<dots> = map (\<lambda>x. Fin (sgl (dbl (of_int x / s)))) xs"
    using quotient_float [of "2 ^ nat (p - 1) - 1"] S(2,3) xs by (simp add: pull_one_def s_def)
  finally have pull: "pull FC32 (mem_write m a fs) a (4 * length xs) = map (\<lambda>x. Fin (sgl (dbl (of_int x / s)))) xs" .
  have "scale (conv p FC32 SC16) (map (\<lambda>x. Fin (sgl (dbl (of_int x / s)))) xs) = Some (map (\<lambda>x. Fin (there_and_back s x)) xs)"
    using S(1) s by (simp add: scale_def scale_float_to_integer_def conv_def fmt_defs cmul_def there_and_back_def)
  moreover have "push SC16 (map (\<lambda>x. Fin (there_and_back s x)) xs) = Some (concat (map (\<lambda>x. int_bytes 2 (trunc (there_and_back s x))) xs))"
  proof (rule push_all)
    fix x assume "x \<in> set xs"
    then have "\<bar>trunc (there_and_back s x)\<bar> < 2 ^ 15" using near xs S(3) by force
    then have "- (2 ^ 15) \<le> trunc (there_and_back s x)" "trunc (there_and_back s x) < 2 ^ 15" by linarith+
    then show "push_one (iq_type SC16) (Fin (there_and_back s x)) = Some (int_bytes 2 (trunc (there_and_back s x)))"
      by (simp add: push_one_def fmt_defs dbl_to_sint_def)
  qed
  ultimately show "convert (conv p FC32 SC16) (mem_write m a fs) a (length fs) = Some (shorts (map (\<lambda>x. trunc (there_and_back s x)) xs))"
    using pull len by (simp add: convert_def conv_def shorts_def comp_def)
qed

text \<open>C23. 16-bit samples within a precision of \<open>p\<close> bits, converted to floats and back: each comes back with its sign, and its magnitude
  is the same or one less. It is not always the same, because the way back truncates: with 12 bits, 1 becomes 0.\<close>

theorem sc16_roundtrip:
  assumes "2 < p" and "p \<le> 16" and "\<forall>x \<in> set xs. \<bar>x\<bar> \<le> 2 ^ nat (p - 1) - 1"
  shows "\<exists>fs zs. convert (conv p SC16 FC32) (mem_write m a (shorts xs)) a (2 * length xs) = Some fs \<and>
      convert (conv p FC32 SC16) (mem_write m' b fs) b (length fs) = Some (shorts zs) \<and>
      list_all2 (\<lambda>x z. \<bar>z\<bar> \<le> \<bar>x\<bar> \<and> \<bar>x\<bar> - \<bar>z\<bar> \<le> 1 \<and> 0 \<le> x * z \<and> (p = 12 \<and> x = 1 \<longrightarrow> z = 0)) xs zs"
proof -
  let ?s = "of_int (2 ^ nat (p - 1) - 1) :: rat"
  let ?zs = "map (\<lambda>x. trunc (there_and_back ?s x)) xs"
  have "trunc (there_and_back ?s 1) = 0" if "p = 12" using that there_and_back_loss by simp
  then have "list_all2 (\<lambda>x z. \<bar>z\<bar> \<le> \<bar>x\<bar> \<and> \<bar>x\<bar> - \<bar>z\<bar> \<le> 1 \<and> 0 \<le> x * z \<and> (p = 12 \<and> x = 1 \<longrightarrow> z = 0)) xs ?zs"
    using to_short_eq(2) [OF assms] by (auto simp: list_all2_conv_all_nth)
  then show ?thesis using to_float_eq [OF assms] to_short_eq(1) [OF assms] by blast
qed

theorem sc16_roundtrip_witness:
  "\<exists>fs zs. convert (conv 12 SC16 FC32) (mem_write (\<lambda>p. 0) 100 (shorts [1, - 2047])) 100 4 = Some fs \<and>
     convert (conv 12 FC32 SC16) (mem_write (\<lambda>p. 0) 200 fs) 200 (length fs) = Some (shorts (0 # zs))"
  using sc16_roundtrip [of 12 "[1, - 2047]" "\<lambda>p. 0" 100 "\<lambda>p. 0" 200] by (auto simp: list_all2_Cons1)

section \<open>Counting bytes\<close>

lemma get_iq_descE:
  assumes "get_iq_desc i = Some fmt"
  obtains "fmt = \<lparr>iq_type = IQ_FC32, iq_data_size = 4, iq_is_float = True\<rparr>"
    | "fmt = \<lparr>iq_type = IQ_SC16, iq_data_size = 2, iq_is_float = False\<rparr>"
    | "fmt = \<lparr>iq_type = IQ_SC8, iq_data_size = 1, iq_is_float = False\<rparr>"
  using assms by (auto simp: get_iq_desc_def iq_desc_def split: if_splits)

lemma length_pull: "0 < iq_data_size fmt \<Longrightarrow> length (pull fmt m src n) = n div iq_data_size fmt"
  by (induction fmt m src n rule: pull.induct) (auto simp: pull.simps le_div_geq)

lemma length_push_one: "get_iq_desc i = Some fmt \<Longrightarrow> push_one (iq_type fmt) d = Some x \<Longrightarrow> length x = iq_data_size fmt"
  by (erule get_iq_descE) (auto simp: push_one_def split: cdouble.splits)

lemma length_push: "get_iq_desc i = Some fmt \<Longrightarrow> push fmt ds = Some xs \<Longrightarrow> length xs = iq_data_size fmt * length ds"
  by (induction ds arbitrary: xs) (auto simp: bind_eq_Some_conv dest: length_push_one)

lemma length_scale: "scale b ds = Some ds' \<Longrightarrow> length ds' = length ds"
  by (auto simp: scale_def scale_integer_to_float_def scale_float_to_integer_def bind_eq_Some_conv split: if_splits)

lemma length_convert:
  assumes "get_iq_desc i = Some (cb_from b)" and "get_iq_desc j = Some (cb_to b)" and "convert b m src bytes = Some xs"
  shows "length xs = iq_data_size (cb_to b) * (bytes div iq_data_size (cb_from b))"
proof -
  have "0 < iq_data_size (cb_from b)" using assms(1) by (rule get_iq_descE) simp_all
  then show ?thesis using assms(2,3) length_push length_scale length_pull by (fastforce simp: convert_def bind_eq_Some_conv)
qed

text \<open>C36. A conversion filter on the write side of a machine, before a filter that takes all it is given: the next filter gets the converted samples,
  and the bytes reported are those of the whole samples that the caller gave, in the caller's format. If both formats are the same, all
  bytes are reported, also those of an incomplete sample at the end.\<close>

theorem conversion_write_counts:
  assumes f: "get_filter a w = Some f" "f_enabled f" "f_direction f = IOF_WRITE" "f_obj f = OBJ_CONV b"
    and fmt: "get_iq_desc i = Some (cb_from b)" "get_iq_desc j = Some (cb_to b)" and small: "4 * bytes < sz_max"
    and mem: "repalloc S (w_heap w) (cb_buf b) (sz_mul bytes ratio) (f_alloc f) = Some (cbuf, hp1)"
      "repalloc S hp1 (cb_tmp b) (sz_mul bytes 8) (f_alloc f) = Some (tmp, hp2)"
    and ratio: "ratio = max (iq_data_size (cb_to b)) (iq_data_size (cb_from b)) div min (iq_data_size (cb_to b)) (iq_data_size (cb_from b))"
    and xs: "convert b (mem hp2) buf bytes = Some xs"
    and rest: "\<forall>u. call (f_next f) cbuf (length xs) block (iq_data_size (cb_to b)) u = Some (IO_SUCCESS, length xs, g u)"
  shows "\<exists>u. mem_read (mem (w_heap u)) cbuf (length xs) = xs \<and> iq_type_conversion S call a buf bytes block align w =
    Some (IO_SUCCESS, if cb_from b = cb_to b then bytes else bytes - bytes mod iq_data_size (cb_from b), g u)"
proof -
  let ?b = "b\<lparr>cb_buf := cbuf, cb_tmp := tmp\<rparr>" and ?to = "iq_data_size (cb_to b)" and ?from = "iq_data_size (cb_from b)"
  have "w_filters w a = Some f" "a \<noteq> 0" using f(1) by (auto simp: get_filter_def split: if_splits)
  then obtain w1 where w1: "upd_filter a (f_obj_update (\<lambda>_. OBJ_CONV ?b)) (w\<lparr>w_heap := hp2\<rparr>) = Some w1" "w_heap w1 = hp2"
    by (simp add: upd_filter_def get_filter_def)
  have cv: "convert ?b (mem hp2) buf bytes = Some xs" using xs by (simp add: convert_def scale_def cong: if_cong)
  have k: "(if ?to > ?from then length xs div ratio else if ?to < ?from then sz_mul (length xs) ratio else bytes) =
      (if cb_from b = cb_to b then bytes else bytes - bytes mod ?from)"
  proof -
    have whole: "?from * (bytes div ?from) = bytes - bytes mod ?from" "?from * (bytes div ?from) < sz_max"
      using small by (simp_all add: minus_mod_eq_mult_div [symmetric])
    show ?thesis unfolding ratio
      by (rule get_iq_descE [OF fmt(1)]; rule get_iq_descE [OF fmt(2)])
        (use length_convert [OF fmt xs] whole in \<open>simp_all add: sz_mul_exact mult.commute flip: numeral_2_eq_2\<close>)
  qed
  let ?u = "put_mem cbuf xs w1"
  have "mem_read (mem (w_heap ?u)) cbuf (length xs) = xs" by (simp add: put_mem_def mem_simps)
  moreover have "iq_type_conversion S call a buf bytes block align w = Some (IO_SUCCESS,
      if ?to > ?from then length xs div ratio else if ?to < ?from then sz_mul (length xs) ratio else bytes, g ?u)"
    using f mem w1 cv rest by (simp add: iq_type_conversion_def unless_disabled_def Let_def ratio)
  ultimately show ?thesis unfolding k by blast
qed

text \<open>A filter from 8-bit to 16-bit samples, before one that takes everything; six bytes, 1 and five times 0, are written.\<close>

definition conv_world :: world where
  "conv_world = empty_world\<lparr>w_heap := (w_heap empty_world)\<lparr>mem := (\<lambda>p. if p = 1 then 1 else 0)\<rparr>,
     w_filters := [100 \<mapsto> \<lparr>f_enabled = True, f_direction = IOF_WRITE, f_name = ''conv'', f_alloc = 1,
       f_obj = OBJ_CONV (conv 12 (iq_desc ! 2) SC16), f_next = 7, f_call = FN_IQ_TYPE_CONVERSION, f_reset = None\<rparr>]\<rparr>"

theorem conversion_write_counts_witness:
  "\<exists>u. mem_read (mem (w_heap u)) 65 12 = [1, 0, 0, 0, 0, 0, 0, 0, 0, 0, 0, 0] \<and>
     iq_type_conversion demo_sys (\<lambda>f c n bl al w. Some (IO_SUCCESS, n, w)) 100 1 6 IO_BLOCK 1 conv_world = Some (IO_SUCCESS, 6, u)"
proof -
  let ?b = "conv 12 (iq_desc ! 2) SC16" and ?xs = "[1, 0, 0, 0, 0, 0, 0, 0, 0, 0, 0, 0] :: byte list"
  let ?hp1 = "(w_heap conv_world)\<lparr>live := [(65, 12), (1, 64)]\<rparr>"
  let ?hp2 = "(w_heap conv_world)\<lparr>live := [(77, 48), (65, 12), (1, 64)]\<rparr>"
  have xs: "convert ?b (mem ?hp2) 1 6 = Some ?xs"
  proof -
    have "pull (iq_desc ! 2) (mem ?hp2) 1 6 = map (\<lambda>x. pull_one IQ_SC8 (int_bytes 1 x)) [1, 0, 0, 0, 0, 0]"
    proof -
      have six: "iq_data_size (iq_desc ! 2) * length [1, 0, 0, 0, 0, 0 :: int] = 6" by (simp add: iq_desc_def)
      have "[Suc 0..<7] = [1, 2, 3, 4, 5, 6]" by (simp add: upt_rec)
      then show ?thesis using pull_all [of "iq_desc ! 2" "[1, 0, 0, 0, 0, 0]" "int_bytes 1" "mem ?hp2" 1, unfolded six]
        by (simp add: iq_desc_def int_bytes_def mem_read_def conv_world_def)
    qed
    also have "\<dots> = map (\<lambda>x. Fin (of_int x)) [1, 0, 0, 0, 0, 0]" by (simp add: pull_one_def int_of_int_bytes)
    finally show ?thesis using push_all [of "[1, 0, 0, 0, 0, 0]" SC16 "\<lambda>x. Fin (of_int x)" "int_bytes 2"]
      by (simp add: convert_def conv_def scale_def fmt_defs push_one_def dbl_to_sint_def trunc_def int_bytes_def numeral_2_eq_2)
  qed
  obtain f where f: "get_filter 100 conv_world = Some f" "f_enabled f" "f_direction f = IOF_WRITE" "f_obj f = OBJ_CONV ?b" "f_alloc f = 1"
    by (simp add: conv_world_def get_filter_def)
  have fmt: "get_iq_desc 2 = Some (cb_from ?b)" "get_iq_desc 1 = Some (cb_to ?b)"
    by (simp_all add: conv_def fmt_defs get_iq_desc_def iq_number_def)
  have mem: "repalloc demo_sys (w_heap conv_world) (cb_buf ?b) (sz_mul 6 2) (f_alloc f) = Some (65, ?hp1)"
    "repalloc demo_sys ?hp1 (cb_tmp ?b) (sz_mul 6 8) (f_alloc f) = Some (77, ?hp2)"
    by (simp_all add: demo_sys_def conv_world_def empty_world_def heap_top_def sz_mul_def sz_max_def)
  have len: "length ?xs = 12" by simp
  show ?thesis using conversion_write_counts [OF f(1-4) fmt _ mem _ xs, unfolded len, where g = "\<lambda>u. u" and block = IO_BLOCK and align = 1 and
      call = "\<lambda>f c n bl al w. Some (IO_SUCCESS, n, w)"] by (simp add: conv_def fmt_defs sz_max_def)
qed

end
