(* ===== verification/Reports.thy ===== *)
theory Reports
  imports Streams
begin

text \<open>
  What is computed and printed from the metrics: the formatting functions of \<open>src/bw-util.c\<close>, the calculations and the timers of
  \<open>src/machine-metrics.c\<close>, the reports of segments and streams; and the remaining entry points of \<open>src/stream.c\<close>. A report changes
  the metrics: calculating folds the counters into the totals.
\<close>

unbundle bit_operations_syntax

section \<open>Text\<close>

text \<open>\<open>printf\<close> with \<open>%.<k>f\<close>. The default NaN has its sign bit set.\<close>

definition digits_after :: "nat \<Rightarrow> nat \<Rightarrow> string" where
  "digits_after k n = (let s = dec n in replicate (k - length s) CHR ''0'' @ s)"

definition fmt_fixed :: "nat \<Rightarrow> cdouble \<Rightarrow> string" where
  "fmt_fixed k x = (case x of
      Fin v \<Rightarrow> (let n = nat (round_even (\<bar>v\<bar> * 10 ^ k)) in
        (if v < 0 then ''-'' else '''') @ dec (n div 10 ^ k) @ ''.'' @ digits_after k (n mod 10 ^ k))
    | PInf \<Rightarrow> ''inf''
    | NInf \<Rightarrow> ''-inf''
    | NaN \<Rightarrow> ''-nan'')"

definition double_fmt :: "nat \<Rightarrow> cdouble \<Rightarrow> string option" where
  "double_fmt n v = do {
     (vd, f10) \<leftarrow> double_fmt_loop v 0;
     Some (snprintf (n - 1) (fmt_fixed 2 vd @ '' '' @ fmt_suffix f10))
   }"

definition size_t_fmt :: "nat \<Rightarrow> size_t \<Rightarrow> string option" where
  "size_t_fmt n v = double_fmt n (Fin (dbl_of_size v))"

section \<open>Calculations\<close>

definition METRICS_CALC_FLAG :: "32 word" where "METRICS_CALC_FLAG = 0x000000ff"
definition METRICS_CALC_TYPE_INST :: "32 word" where "METRICS_CALC_TYPE_INST = 0x00000001"
definition METRICS_CALC_TYPE_AVG :: "32 word" where "METRICS_CALC_TYPE_AVG = 0x00000002"
definition METRICS_CALC_TYPE_FULL :: "32 word" where "METRICS_CALC_TYPE_FULL = 0x00000004"
definition METRICS_FMT_FLAG :: "32 word" where "METRICS_FMT_FLAG = 0x0000ff00"
definition METRICS_FMT_TYPE_ONELINE :: "32 word" where "METRICS_FMT_TYPE_ONELINE = 0x00000100"

definition zero_calc :: io_metrics_calc where
  "zero_calc = \<lparr>ca_time = zero_time, ca_elapsed = 0, ca_total_bytes = 0, ca_data_rate = Fin 0, ca_req_rate = Fin 0,
     ca_avg_req_size = Fin 0, ca_avg_rec_size = Fin 0, ca_utilization = Fin 0\<rparr>"

definition metrics_inst :: "io_metrics_data \<Rightarrow> io_metrics_calc option" where
  "metrics_inst m = (if mt_n_calc m < length (mt_calc m) then Some (mt_calc m ! mt_n_calc m) else None)"

text \<open>\<open>metrics_avg\<close> has an empty body.\<close>

definition metrics_avg :: "io_metrics_data \<Rightarrow> size_t \<Rightarrow> io_metrics_calc \<Rightarrow> io_metrics_calc" where
  "metrics_avg m n m0 = m0"

definition metrics_full :: "timeval \<Rightarrow> io_metrics_data \<Rightarrow> io_metrics_calc \<Rightarrow> io_metrics_calc" where
  "metrics_full now m m0 = (let sec = dbl (dbl (TIMEVAL_US now - TIMEVAL_US (mt_t_start m)) / 1000000);
       req = dbl_of_size (mc_total_count (mt_req m)); rec = dbl_of_size (mc_total_count (mt_rec m)) in
     m0\<lparr>ca_time := now, ca_elapsed := sec, ca_total_bytes := mc_total_bytes (mt_rec m),
       ca_data_rate := cdiv (dbl_of_size (mc_total_bytes (mt_rec m))) sec,
       ca_req_rate := cdiv req sec,
       ca_avg_req_size := cdiv (dbl_of_size (mc_total_bytes (mt_req m))) req,
       ca_avg_rec_size := cdiv (dbl_of_size (mc_total_bytes (mt_rec m))) rec,
       ca_utilization := cdiv rec req\<rparr>)"

text \<open>The calculation, the metrics after it, and the number of reads of the clock so far.\<close>

definition machine_metrics_calculate ::
    "(nat \<Rightarrow> timeval) \<Rightarrow> nat \<Rightarrow> 32 word \<Rightarrow> io_metrics_data \<Rightarrow> io_metrics_calc \<Rightarrow> (io_metrics_calc \<times> io_metrics_data \<times> nat) option" where
  "machine_metrics_calculate clock t flag m m0 = do {
     let m1 = (if mt_n_calc m = 0 then machine_metrics_update m else m);
     let type = flag AND METRICS_CALC_FLAG;
     if type = METRICS_CALC_TYPE_AVG then Some (metrics_avg m1 10 m0, m1, t)
     else if type = METRICS_CALC_TYPE_FULL then Some (metrics_full (clock t) m1 m0, m1, t + 1)
     else do { c \<leftarrow> metrics_inst m1; Some (c, m1, t) }
   }"

text \<open>A size from a double that is not finite is undefined.\<close>

definition size_of_double :: "cdouble \<Rightarrow> size_t option" where
  "size_of_double x = (case x of Fin v \<Rightarrow> dbl_to_size v | _ \<Rightarrow> None)"

definition machine_metrics_fmt ::
    "(nat \<Rightarrow> timeval) \<Rightarrow> nat \<Rightarrow> size_t \<Rightarrow> 32 word \<Rightarrow> io_metrics_data \<Rightarrow> (string \<times> io_metrics_data \<times> nat) option" where
  "machine_metrics_fmt clock t len flag m = do {
     (m0, m1, t1) \<leftarrow> machine_metrics_calculate clock t flag m zero_calc;
     bytes_str \<leftarrow> size_t_fmt 64 (ca_total_bytes m0);
     rate_str \<leftarrow> double_fmt 64 (ca_data_rate m0);
     reqsz \<leftarrow> size_of_double (ca_avg_req_size m0);
     reqsz_str \<leftarrow> size_t_fmt 64 reqsz;
     recsz \<leftarrow> size_of_double (ca_avg_rec_size m0);
     recsz_str \<leftarrow> size_t_fmt 64 recsz;
     let tab = [CHR 0x09];
     let nl = [CHR 0x0A];
     let s = (if flag AND METRICS_FMT_FLAG = METRICS_FMT_TYPE_ONELINE
       then bytes_str @ ''B '' @ rate_str @ ''B/s @ '' @ fmt_fixed 2 (ca_utilization m0) @ '' utilization''
       else tab @ bytes_str @ ''B'' @ nl @ tab @ rate_str @ ''B/s'' @ nl @ tab @ fmt_fixed 6 (ca_req_rate m0) @ '' requests/sec'' @ nl @
         tab @ reqsz_str @ ''B/request'' @ nl @ tab @ recsz_str @ ''B/receive'' @ nl @ tab @ fmt_fixed 6 (ca_utilization m0) @ '' utilization'' @ nl);
     Some (snprintf len s, m1, t1)
   }"

text \<open>The line that is printed.\<close>

definition machine_metrics_print :: "(nat \<Rightarrow> timeval) \<Rightarrow> nat \<Rightarrow> io_metrics_data \<Rightarrow> (string \<times> io_metrics_data \<times> nat) option" where
  "machine_metrics_print clock t m = do {
     (s, m1, t1) \<leftarrow> machine_metrics_fmt clock t 1024 0 m;
     Some (s @ [CHR 0x0A], m1, t1)
   }"

section \<open>Timers\<close>

text \<open>One round of the loop of \<open>run_timer\<close>: the counter, and whether the callback is called.\<close>

definition run_timer_round :: "size_t \<Rightarrow> size_t \<Rightarrow> size_t \<times> bool" where
  "run_timer_round ms_reset ms = (if ms < ms_reset then (sz_add ms 1, False) else (ms_reset, True))"

fun run_timer_rounds :: "nat \<Rightarrow> size_t \<Rightarrow> size_t \<Rightarrow> bool list" where
  "run_timer_rounds 0 ms_reset ms = []"
| "run_timer_rounds (Suc n) ms_reset ms = (case run_timer_round ms_reset ms of (ms', b) \<Rightarrow> b # run_timer_rounds n ms_reset ms')"

text \<open>The two timers of the library.\<close>

record timers =
  updater :: timer
  printer :: timer

definition machine_metrics_start :: "size_t \<Rightarrow> timers \<Rightarrow> timers" where
  "machine_metrics_start ms ts = ts\<lparr>updater := start_timer ms (updater ts)\<rparr>"

definition machine_metrics_stop :: "timers \<Rightarrow> timers" where
  "machine_metrics_stop ts = ts\<lparr>updater := stop_timer (updater ts)\<rparr>"

definition machine_metrics_print_start :: "size_t \<Rightarrow> timers \<Rightarrow> timers" where
  "machine_metrics_print_start ms ts = ts\<lparr>printer := start_timer ms (printer ts)\<rparr>"

definition machine_metrics_print_stop :: "timers \<Rightarrow> timers" where
  "machine_metrics_print_stop ts = ts\<lparr>printer := stop_timer (printer ts)\<rparr>"

definition machine_metrics_print_callback :: "world \<Rightarrow> world option" where
  "machine_metrics_print_callback w = raise_signals (w_signals w) w"

section \<open>Segments\<close>

datatype segment_direction_e = SEG_DIR_IN | SEG_DIR_OUT | SEG_DIR_OUT1

text \<open>\<open>seg_metrics\<close>: the line that is logged for a segment of the stream named \<open>grp\<close>.\<close>

definition seg_metrics :: "string \<Rightarrow> io_segment \<Rightarrow> string \<Rightarrow> string" where
  "seg_metrics grp s text = grp @ seg_gsep s @ seg_name s @ '': '' @ text"

definition segment_print_metrics_internal ::
    "sys \<Rightarrow> bool \<Rightarrow> string \<Rightarrow> io_segment \<Rightarrow> segment_direction_e \<Rightarrow> world \<Rightarrow> (string list \<times> world) option" where
  "segment_print_metrics_internal S enabled grp s dir w =
     (let h = (case dir of SEG_DIR_IN \<Rightarrow> seg_in s | SEG_DIR_OUT \<Rightarrow> seg_out s | SEG_DIR_OUT1 \<Rightarrow> seg_out1 s);
          flag = METRICS_FMT_TYPE_ONELINE OR METRICS_CALC_TYPE_FULL in
      if h = 0 then Some ([], w)
      else case machine_metrics h w of
        None \<Rightarrow> Some ([], w)
      | Some ms \<Rightarrow>
          if dir = SEG_DIR_IN then do {
            (str, m, t) \<leftarrow> machine_metrics_fmt (gettimeofday S) (w_ticks w) 1024 flag (ms_out ms);
            let w1 = (upd_desc h (md_metrics_update (\<lambda>_. Some (ms\<lparr>ms_out := m\<rparr>))) w)\<lparr>w_ticks := t\<rparr>;
            Some (if enabled then [seg_metrics grp s (''I: '' @ str)] else [], w1)
          } else do {
            (str, m, t) \<leftarrow> machine_metrics_fmt (gettimeofday S) (w_ticks w) 1024 flag (ms_in ms);
            let w1 = (upd_desc h (md_metrics_update (\<lambda>_. Some (ms\<lparr>ms_in := m\<rparr>))) w)\<lparr>w_ticks := t\<rparr>;
            Some (if enabled then [seg_metrics grp s (''O: '' @ str)] else [], w1)
          })"

definition segment_print_metrics :: "sys \<Rightarrow> bool \<Rightarrow> string \<Rightarrow> io_segment \<Rightarrow> world \<Rightarrow> (string list \<times> world) option" where
  "segment_print_metrics S enabled grp s w =
     (if seg_in s = 0 \<and> seg_out s = 0 \<and> seg_out1 s = 0 then Some ([], w)
      else do {
        (l1, w1) \<leftarrow> segment_print_metrics_internal S enabled grp s SEG_DIR_IN w;
        (l2, w2) \<leftarrow> segment_print_metrics_internal S enabled grp s SEG_DIR_OUT w1;
        (l3, w3) \<leftarrow> segment_print_metrics_internal S enabled grp s SEG_DIR_OUT1 w2;
        Some (l1 @ l2 @ l3, w3)
      })"

text \<open>\<open>segment_join\<close> returns once the thread has ended.\<close>

definition segment_join :: "io_segment \<Rightarrow> unit option" where
  "segment_join s = (if seg_thread s = SEG_EXIT then Some () else None)"

section \<open>Streams\<close>

fun print_all :: "sys \<Rightarrow> bool \<Rightarrow> string \<Rightarrow> io_segment list \<Rightarrow> world \<Rightarrow> (string list \<times> world) option" where
  "print_all S enabled grp [] w = Some ([], w)"
| "print_all S enabled grp (s # ss) w = do {
     (l1, w1) \<leftarrow> segment_print_metrics S enabled grp s w;
     (l2, w2) \<leftarrow> print_all S enabled grp ss w1;
     Some (l1 @ l2, w2)
   }"

definition stream_print_metrics :: "sys \<Rightarrow> io_stream \<Rightarrow> app \<Rightarrow> (string list \<times> app) option" where
  "stream_print_metrics S h a = (case get_stream h a of
      None \<Rightarrow> Some ([], a)
    | Some st \<Rightarrow> do {
        (ls, w) \<leftarrow> print_all S (a_metrics_enabled a) (st_name st) (st_segments st) (a_world a);
        Some (ls, a\<lparr>a_world := w\<rparr>)
      })"

text \<open>\<open>stream_get_status\<close> ends without a \<open>return\<close> for a stream that exists: its result is then some number \<open>garbage\<close>.\<close>

definition stream_get_status :: "int \<Rightarrow> io_stream \<Rightarrow> app \<Rightarrow> int" where
  "stream_get_status garbage h a = (case get_stream h a of None \<Rightarrow> 0 | Some st \<Rightarrow> garbage)"

text \<open>\<open>stop_stream_internal\<close> when no other thread acts: it waits for ever for a stream that was not started.\<close>

definition stop_stream_internal :: "stream \<Rightarrow> stream option" where
  "stop_stream_internal st = (case st_state st of
      STREAM_INIT \<Rightarrow> None
    | STREAM_READY \<Rightarrow> None
    | STREAM_RUNNING \<Rightarrow> Some (set_state STREAM_DONE st)
    | STREAM_FINISHING \<Rightarrow> Some (set_state STREAM_DONE st)
    | STREAM_STATE_ERROR \<Rightarrow> Some (st\<lparr>st_status := STREAM_ERROR_STOP_FAILURE\<rparr>)
    | _ \<Rightarrow> Some st)"

definition stop_stream :: "io_stream \<Rightarrow> app \<Rightarrow> (io_status \<times> app) option" where
  "stop_stream h a = (case get_stream h a of
      None \<Rightarrow> Some (IO_ERROR, a)
    | Some st \<Rightarrow> do {
        st' \<leftarrow> stop_stream_internal st;
        Some (IO_SUCCESS, a\<lparr>a_streams := upd_stream h (\<lambda>_. st') (a_streams a)\<rparr>)
      })"

fun stop_all :: "stream list \<Rightarrow> stream list option" where
  "stop_all [] = Some []"
| "stop_all (st # sts) = do {
     st' \<leftarrow> stop_stream_internal st;
     sts' \<leftarrow> stop_all sts;
     Some (st' # sts')
   }"

definition stop_streams :: "app \<Rightarrow> app option" where
  "stop_streams a = do {
     sts \<leftarrow> stop_all (a_streams a);
     Some (a\<lparr>a_streams := sts\<rparr>)
   }"

section \<open>What reports leave alone\<close>

text \<open>All bytes that were counted, before and after the last calculation.\<close>

definition counted :: "io_metrics_count \<Rightarrow> size_t" where
  "counted c = sz_add (mc_total_bytes c) (mc_bytes c)"

lemma counted_fold [simp]: "counted c < sz_max \<Longrightarrow> counted (fold_count c) = counted c"
  by (simp add: counted_def fold_count_def sz_add_def)

text \<open>A report moves counters into totals, and no byte is lost.\<close>

lemma report_keeps_counts:
  assumes "machine_metrics_fmt clock t len flag m = Some (s, m', t')"
  shows "counted (mt_req m') = counted (mt_req m)" and "counted (mt_rec m') = counted (mt_rec m)"
  using assms
  by (auto simp: machine_metrics_fmt_def machine_metrics_calculate_def machine_metrics_update_def Let_def counted_def fold_count_def sz_add_def
      bind_eq_Some_conv mod_simps split: if_splits)

text \<open>After the first period the callback of a timer is called in every round, a millisecond each: the counter is set to the end of the
  period and not to its beginning.\<close>

lemma timer_fires_always:
  assumes "ms_reset < sz_max"
  shows "run_timer_rounds n ms_reset 0 = replicate (min n ms_reset) False @ replicate (n - ms_reset) True"
proof -
  have late: "run_timer_rounds n ms_reset ms_reset = replicate n True" for n
    by (induction n) (simp_all add: run_timer_round_def)
  have "run_timer_rounds n ms_reset ms = replicate (min n (ms_reset - ms)) False @ replicate (n - (ms_reset - ms)) True" if "ms \<le> ms_reset" for ms
    using that
  proof (induction n arbitrary: ms)
    case (Suc n)
    show ?case
    proof (cases "ms = ms_reset")
      case True
      then show ?thesis using late [of "Suc n"] by simp
    next
      case False
      then have "sz_add ms 1 = Suc ms" "Suc ms \<le> ms_reset" "ms_reset - ms = Suc (ms_reset - Suc ms)" using Suc.prems assms by (simp_all add: sz_add_exact)
      then show ?thesis using Suc.IH [of "Suc ms"] False Suc.prems by (simp add: run_timer_round_def)
    qed
  qed simp
  then show ?thesis by simp
qed

text \<open>\<open>stop_stream_internal\<close> is what the steps of a caller (\<open>stop_step\<close>) do when nothing comes between them.\<close>

lemma stop_steps:
  assumes "stop_stream_internal st = Some st'"
  shows "\<exists>n \<in> {1, 2}. ((\<lambda>x. Option.bind x stop_step) ^^ n) (Some (st\<lparr>st_stop := STOP_LOOP\<rparr>)) = Some (st'\<lparr>st_stop := STOP_RETURNED\<rparr>)"
  using assms by (cases "st_state st") (auto simp: stop_stream_internal_def stop_step_def set_state_def Let_def numeral_2_eq_2 split: if_splits)

end
