(* ===== verification/Machine_Types.thy ===== *)
theory Machine_Types
  imports Registry
begin

text \<open>
  The casts of the machines. A filter finds its machine's descriptor by a handle and casts it to the
  type of its own machine, and so do the functions that a machine puts into its \<open>stop\<close> and
  \<open>destroy\<close>. The invariant says that every such cast meets a descriptor of the right type, and
  every operation on machines keeps it.
\<close>

section \<open>Types\<close>

text \<open>The type of a descriptor, and the type a function expects.\<close>

datatype impl_tag = TAG_NONE | TAG_RING | TAG_FBB | TAG_HQ | TAG_FILE | TAG_FIFO | TAG_SDR | TAG_EXT

fun tag_of :: "impl \<Rightarrow> impl_tag" where
  "tag_of IMPL_NONE = TAG_NONE"
| "tag_of (IMPL_RING r) = TAG_RING"
| "tag_of (IMPL_FBB r) = TAG_FBB"
| "tag_of (IMPL_HQ q) = TAG_HQ"
| "tag_of (IMPL_FILE fd) = TAG_FILE"
| "tag_of (IMPL_FIFO fd) = TAG_FIFO"
| "tag_of (IMPL_SDR c) = TAG_SDR"
| "tag_of (IMPL_EXT n) = TAG_EXT"

fun call_type :: "io_filter_fn \<Rightarrow> impl_tag option" where
  "call_type FN_RB_READ = Some TAG_RING"
| "call_type FN_RB_WRITE = Some TAG_RING"
| "call_type FN_FBB_READ = Some TAG_FBB"
| "call_type FN_FBB_WRITE = Some TAG_FBB"
| "call_type FN_HQ_READ = Some TAG_HQ"
| "call_type FN_HQ_WRITE = Some TAG_HQ"
| "call_type FN_FILE_READ = Some TAG_FILE"
| "call_type FN_FILE_WRITE = Some TAG_FILE"
| "call_type FN_FILE_ROTATE = Some TAG_FILE"
| "call_type FN_DIR_ROTATE = Some TAG_FILE"
| "call_type FN_FIFO_READ = Some TAG_FIFO"
| "call_type FN_FIFO_WRITE = Some TAG_FIFO"
| "call_type fn = None"

fun stop_type :: "io_stopper \<Rightarrow> impl_tag option" where
  "stop_type STOP_BUFFER = Some TAG_RING"
| "stop_type STOP_QUEUE = Some TAG_HQ"
| "stop_type fn = None"

fun destroy_type :: "io_destroyer \<Rightarrow> impl_tag option" where
  "destroy_type DESTROY_FILE = Some TAG_FILE"
| "destroy_type DESTROY_FIFO = Some TAG_FIFO"
| "destroy_type fn = None"

definition fits :: "impl_tag option \<Rightarrow> impl_tag \<Rightarrow> bool" where
  "fits expected t \<longleftrightarrow> expected = None \<or> expected = Some t"

text \<open>The functions that belong to the machines considered: radios, sockets, functions of the user and the filters
  that call those are left out.\<close>

definition plain :: "io_filter_fn \<Rightarrow> bool" where
  "plain fn \<longleftrightarrow> call_type fn \<noteq> None \<or>
     fn \<in> {FN_NULL_READ, FN_NULL_WRITE, FN_BYTE_COUNT_LIMITER, FN_TIME_LIMITER, FN_BYTE_COUNTER}"

definition plain_iom :: "iom \<Rightarrow> bool" where
  "plain_iom m \<longleftrightarrow> m_stop m \<in> {STOP_MACHINE, STOP_BUFFER, STOP_QUEUE, STOP_DISABLE_READ} \<and>
     m_destroy m \<in> {DESTROY_DESC, DESTROY_NULL, DESTROY_FILE, DESTROY_FIFO}"

text \<open>What matters of a descriptor, of a filter and of the state.\<close>

fun obj_handle :: "filter_obj \<Rightarrow> io_handle option" where
  "obj_handle (OBJ_HANDLE h) = Some h"
| "obj_handle (OBJ_DESC h) = Some h"
| "obj_handle ob = None"

definition desc_shape :: "machine_desc \<Rightarrow> io_handle \<times> nat \<times> impl_tag" where
  "desc_shape d = (md_handle d, md_machine d, tag_of (md_impl d))"

definition filter_shape :: "io_filter \<Rightarrow> io_filter_fn \<times> io_handle option" where
  "filter_shape f = (f_call f, obj_handle (f_obj f))"

definition filter_shapes :: "world \<Rightarrow> addr \<Rightarrow> (io_filter_fn \<times> io_handle option) option" where
  "filter_shapes w a = map_option filter_shape (w_filters w a)"

definition statics :: "world \<Rightarrow> (nat option \<times> impl_tag) list" where
  "statics w = [(w_rb_machine w, TAG_RING), (w_fbb_machine w, TAG_FBB), (w_hq_machine w, TAG_HQ),
     (w_null_machine w, TAG_NONE), (w_file_machine w, TAG_FILE), (w_fifo_machine w, TAG_FIFO)]"

definition shape where
  "shape w = (map desc_shape (w_descs w), filter_shapes w, w_machines w, w_handle_map w, w_handle_counter w, statics w)"

section \<open>The invariant\<close>

text \<open>A machine whose descriptors are of type \<open>t\<close>.\<close>

definition iom_typed :: "iom list \<Rightarrow> nat \<Rightarrow> impl_tag \<Rightarrow> bool" where
  "iom_typed ms m t \<longleftrightarrow> m < length ms \<and> plain_iom (ms ! m) \<and>
     fits (stop_type (m_stop (ms ! m))) t \<and> fits (destroy_type (m_destroy (ms ! m))) t"

definition call_typed :: "world \<Rightarrow> io_filter_fn \<times> io_handle option \<Rightarrow> bool" where
  "call_typed w = (\<lambda>(fn, r). plain fn \<and> (\<forall>h. r = Some h \<longrightarrow> h \<in> used_handles w \<and>
     (\<forall>m t. (h, m, t) \<in> desc_shape ` set (w_descs w) \<longrightarrow> fits (call_type fn) t)))"

definition machines_typed :: "world \<Rightarrow> bool" where
  "machines_typed w \<longleftrightarrow> handles_ok w \<and> distinct (map fst (w_handle_map w)) \<and>
     (\<forall>(h, m) \<in> set (w_handle_map w). \<exists>t. iom_typed (w_machines w) m t) \<and>
     (\<forall>a s. filter_shapes w a = Some s \<longrightarrow> call_typed w s) \<and>
     (\<forall>(h, m, t) \<in> desc_shape ` set (w_descs w). (h, m) \<in> set (w_handle_map w) \<and> iom_typed (w_machines w) m t) \<and>
     (\<forall>(s, t) \<in> set (statics w). \<forall>m. s = Some m \<longrightarrow> iom_typed (w_machines w) m t)"

lemma typed_callD: "machines_typed w \<Longrightarrow> filter_shapes w a = Some s \<Longrightarrow> call_typed w s"
  unfolding machines_typed_def by blast

lemma typed_descD:
  "machines_typed w \<Longrightarrow> (h, m, t) \<in> desc_shape ` set (w_descs w) \<Longrightarrow> (h, m) \<in> set (w_handle_map w) \<and> iom_typed (w_machines w) m t"
  unfolding machines_typed_def by blast

lemma machines_typed_cong:
  assumes "shape w' = shape w"
  shows "machines_typed w' = machines_typed w"
proof -
  have s: "map desc_shape (w_descs w') = map desc_shape (w_descs w)" "filter_shapes w' = filter_shapes w" "w_machines w' = w_machines w"
    "w_handle_map w' = w_handle_map w" "w_handle_counter w' = w_handle_counter w" "statics w' = statics w"
    using assms by (auto simp: shape_def)
  have set: "desc_shape ` set (w_descs w') = desc_shape ` set (w_descs w)" using arg_cong [OF s(1), of set] by simp
  have "map fst (map desc_shape (w_descs w')) = map fst (map desc_shape (w_descs w))" using s(1) by simp
  then have h: "map md_handle (w_descs w') = map md_handle (w_descs w)" by (simp add: desc_shape_def comp_def)
  have u: "used_handles w' = used_handles w" using s(4) by (simp add: used_handles_def)
  have hs: "md_handle ` set (w_descs w') = md_handle ` set (w_descs w)" using arg_cong [OF h, of set] by simp
  have "handles_ok w' = handles_ok w" using h hs u s(5) by (simp add: handles_ok_def)
  moreover have "call_typed w' = call_typed w" using set u by (simp add: call_typed_def)
  ultimately show ?thesis unfolding machines_typed_def using s set by simp
qed

section \<open>Steps that keep the shape\<close>

named_theorems same_shape

lemma shape_irrelevant [simp, same_shape]:
  "shape (w\<lparr>w_heap := hp\<rparr>) = shape w" "shape (w\<lparr>w_ticks := t\<rparr>) = shape w" "shape (w\<lparr>w_px := px\<rparr>) = shape w"
  "shape (w\<lparr>w_heap := hp, w_ticks := t\<rparr>) = shape w" "shape (w\<lparr>w_px := px, w_heap := hp\<rparr>) = shape w"
  "shape (add_live a n w) = shape w" "shape (discard_pool S p w) = shape w"
  by (simp_all add: shape_def filter_shapes_def statics_def add_live_def discard_pool_def fun_eq_iff)

lemma upd_first_shape:
  "(\<And>d. find (\<lambda>d. md_handle d = h) ds = Some d \<Longrightarrow> desc_shape (g d) = desc_shape d) \<Longrightarrow>
     map desc_shape (upd_first h g ds) = map desc_shape ds"
  by (induction ds) auto

lemma shape_upd_desc:
  assumes "\<And>d. machine_get_desc h w = Some d \<Longrightarrow> desc_shape (g d) = desc_shape d"
  shows "shape (upd_desc h g w) = shape w"
  using upd_first_shape [of h "w_descs w" g] assms
  by (simp add: shape_def upd_desc_def machine_get_desc_def filter_shapes_def statics_def fun_eq_iff)

lemma shape_upd_desc_same [simp]: "(\<And>d. desc_shape (g d) = desc_shape d) \<Longrightarrow> shape (upd_desc h g w) = shape w"
  by (rule shape_upd_desc)

lemma shape_set_state [simp, same_shape]:
  "shape (set_read_state h st w) = shape w" "shape (set_write_state h st w) = shape w"
  "shape (set_read_obj h a w) = shape w" "shape (set_write_obj h a w) = shape w"
  by (simp_all add: set_read_state_def set_write_state_def set_read_obj_def set_write_obj_def desc_shape_def)

lemma shape_put:
  assumes "machine_get_desc h w = Some d"
  shows "ring_of d = Some r \<Longrightarrow> shape (put_ring h r' hp w) = shape w"
    "fbb_of d = Some b \<Longrightarrow> shape (put_fbb h b' hp w) = shape w"
    "hq_of d = Some q \<Longrightarrow> shape (put_hq h q' w) = shape w"
    "file_of d = Some fd \<Longrightarrow> shape (put_file h fd' w) = shape w"
    "fifo_of d = Some ff \<Longrightarrow> shape (put_fifo h ff' w) = shape w"
  using assms
  by (auto simp: put_ring_def put_fbb_def put_hq_def put_file_def put_fifo_def desc_shape_def
      ring_of_def fbb_of_def hq_of_def file_of_def fifo_of_def split: impl.splits intro!: shape_upd_desc)

lemma shape_upd_filter:
  assumes "upd_filter a g w = Some w'" and "\<And>f. get_filter a w = Some f \<Longrightarrow> filter_shape (g f) = filter_shape f"
  shows "shape w' = shape w"
  using assms by (auto simp: upd_filter_def bind_eq_Some_conv shape_def filter_shapes_def statics_def fun_eq_iff get_filter_def split: if_splits)

text \<open>A call that keeps the shape, provided every filter is one of those considered.\<close>

definition plain_shape where
  "plain_shape = (\<lambda>(ds, fs, rest). \<forall>a fn r. fs a = Some (fn, r) \<longrightarrow> plain fn)"

definition keeps_shape :: "filter_call \<Rightarrow> bool" where
  "keeps_shape call \<longleftrightarrow> (\<forall>a buf n bl al w st m w'. call a buf n bl al w = Some (st, m, w') \<longrightarrow> plain_shape (shape w) \<longrightarrow>
     shape w' = shape w)"

lemma keeps_shapeD: "keeps_shape call \<Longrightarrow> call a buf n bl al w = Some (st, m, w') \<Longrightarrow> plain_shape (shape w) \<Longrightarrow> shape w' = shape w"
  by (auto simp: keeps_shape_def)

lemma keeps_shapeI:
  "(\<And>a buf n bl al w st m w'. call a buf n bl al w = Some (st, m, w') \<Longrightarrow> plain_shape (shape w) \<Longrightarrow> shape w' = shape w) \<Longrightarrow> keeps_shape call"
  by (simp add: keeps_shape_def)

lemma ring_calls_shape: "keeps_shape rbm_buf_read" "keeps_shape (rbm_buf_write S)"
  by (auto simp: keeps_shape_def rbm_buf_read_def rbm_buf_write_def bind_eq_Some_conv Let_def shape_put
      split: option.splits if_splits prod.splits)

lemma fbb_calls_shape: "keeps_shape fbbm_buf_read" "keeps_shape (fbbm_buf_write S)"
  by (auto simp: keeps_shape_def fbbm_buf_read_def fbbm_buf_write_def bind_eq_Some_conv Let_def shape_put
      split: option.splits if_splits prod.splits)

lemma get_desc_frame [simp]:
  "machine_get_desc h (w\<lparr>w_heap := hp, w_ticks := t\<rparr>) = machine_get_desc h w"
  "machine_get_desc h (w\<lparr>w_px := px\<rparr>) = machine_get_desc h w"
  by (simp_all add: machine_get_desc_def)

lemma queue_read_shape:
  assumes "queue_read S a buf n bl al w = Some (st, m, w')"
  shows "shape w' = shape w"
proof -
  obtain h where h: "handle_of a w = Some h" using assms by (auto simp: queue_read_def bind_eq_Some_conv)
  show ?thesis
  proof (cases "machine_get_desc h w")
    case (Some d)
    then obtain q where q: "hq_of d = Some q" using assms h by (auto simp: queue_read_def bind_eq_Some_conv)
    note put = shape_put(3) [OF Some q]
    consider "memex_list_pop S (hq_list q) = None" | l where "memex_list_pop S (hq_list q) = Some (None, l)"
      | e l where "memex_list_pop S (hq_list q) = Some (Some e, l)" by (metis option.exhaust surj_pair)
    then show ?thesis using assms h Some q
      by cases (auto simp: queue_read_def put split: if_split_asm option.split_asm)
  qed (use assms h in \<open>simp add: queue_read_def\<close>)
qed

lemma queue_calls_shape: "keeps_shape (queue_read S)" "keeps_shape (queue_write S)"
  by (auto simp: keeps_shape_def queue_write_def bind_eq_Some_conv Let_def shape_put split: option.split_asm
      dest: queue_read_shape)

lemma null_calls_shape: "keeps_shape null_read" "keeps_shape null_write"
  by (auto simp: keeps_shape_def null_read_def null_write_def)

lemma build_directory_path_shape:
  "build_directory_path S fd w = Some (x, fd', w') \<Longrightarrow> shape w' = shape w \<and> w_descs w' = w_descs w"
  by (auto simp: build_directory_path_def gen_timestamp_def Let_def elim!: bind_SomeE
      split: if_split_asm prod.split_asm)

lemma open_file_shape: "open_file S rw fd w = Some (x, fd', w') \<Longrightarrow> shape w' = shape w \<and> w_descs w' = w_descs w"
  by (auto simp: open_file_def open_read_def open_write_def Let_def elim!: bind_SomeE
      split: if_split_asm prod.split_asm dest!: build_directory_path_shape)

lemma file_fd_shape:
  "file_write_fd S buf n al fd w = Some (st, m, fd', w') \<Longrightarrow> shape w' = shape w \<and> w_descs w' = w_descs w"
  "file_read_fd S buf n al fd w = Some (st, m, fd', w') \<Longrightarrow> shape w' = shape w \<and> w_descs w' = w_descs w"
  by (auto simp: file_write_fd_def file_read_fd_def Let_def elim!: bind_SomeE
      split: if_split_asm prod.split_asm dest!: open_file_shape)

lemma shape_put_file:
  "machine_get_desc h w = Some d \<Longrightarrow> file_of d = Some fd \<Longrightarrow> w_descs w' = w_descs w \<Longrightarrow> shape (put_file h fd' w') = shape w'"
  using shape_put(4) [of h w' d fd fd'] by (simp add: machine_get_desc_def)

lemma file_calls_shape: "keeps_shape (file_read S)" "keeps_shape (file_write S)"
  by (auto simp: keeps_shape_def file_read_def file_write_def bind_eq_Some_conv shape_put_file
      split: option.splits if_splits dest!: file_fd_shape)

lemma fifo_calls_shape: "keeps_shape (fifo_read S)" "keeps_shape (fifo_write S)"
  by (auto simp: keeps_shape_def fifo_read_def fifo_write_def bind_eq_Some_conv Let_def shape_put
      split: option.splits if_splits)

lemma get_counterD: "get_counter a w = Some c \<Longrightarrow> get_filter a w = Some f \<Longrightarrow> f_obj f = OBJ_COUNTER c"
  by (cases "f_obj f") (simp_all add: get_counter_def)

lemma get_timeD: "get_time a w = Some t \<Longrightarrow> get_filter a w = Some f \<Longrightarrow> f_obj f = OBJ_TIME t"
  by (cases "f_obj f") (simp_all add: get_time_def)

lemma set_counter_shape: "set_counter a c' w = Some w' \<Longrightarrow> get_counter a w \<noteq> None \<Longrightarrow> shape w' = shape w"
  unfolding set_counter_def by (erule shape_upd_filter) (auto simp: filter_shape_def get_counterD)

lemma set_time_shape:
  "get_time a w = Some t \<Longrightarrow> upd_filter a (f_obj_update (\<lambda>_. OBJ_TIME t')) w = Some w' \<Longrightarrow> shape w' = shape w"
  by (erule shape_upd_filter) (simp add: filter_shape_def get_timeD)

lemma limiter_shape:
  assumes "keeps_shape call"
  shows "keeps_shape (byte_count_limiter call)"
  by (rule keeps_shapeI) (auto simp: byte_count_limiter_def unless_disabled_def limiter_end_def Let_def elim!: bind_SomeE
      split: if_split_asm prod.split_asm dest!: keeps_shapeD [OF assms] set_counter_shape)

lemma time_limiter_shape:
  assumes "keeps_shape call"
  shows "keeps_shape (time_limiter call)"
proof (rule keeps_shapeI)
  fix a buf n bl al w st m w'
  assume "plain_shape (shape w)" and e: "time_limiter call a buf n bl al w = Some (st, m, w')"
  then obtain f where f: "get_filter a w = Some f" by (auto simp: time_limiter_def unless_disabled_def bind_eq_Some_conv)
  note call = keeps_shapeD [OF assms] \<open>plain_shape (shape w)\<close>
  show "shape w' = shape w"
  proof (cases "f_enabled f")
    case True
    then obtain t where t: "get_time a w = Some t" using e f by (auto simp: time_limiter_def unless_disabled_def bind_eq_Some_conv)
    then show ?thesis using e f True set_time_shape [OF t] call
      by (cases "tl_state t") (auto simp: time_limiter_def unless_disabled_def bind_eq_Some_conv)
  qed (use e f call in \<open>simp add: time_limiter_def unless_disabled_def\<close>)
qed

lemma counter_shape:
  assumes "keeps_shape call"
  shows "keeps_shape (byte_counter call)"
proof (rule keeps_shapeI)
  fix a buf n bl al w st m w'
  assume p: "plain_shape (shape w)" and e: "byte_counter call a buf n bl al w = Some (st, m, w')"
  then obtain f where f: "get_filter a w = Some f" by (auto simp: byte_counter_def unless_disabled_def bind_eq_Some_conv)
  show "shape w' = shape w"
  proof (cases "f_enabled f")
    case True
    obtain ret k w1 f1 where c: "call (f_next f) buf n bl al w = Some (ret, k, w1)" "get_filter a w1 = Some f1"
      using e f True by (auto simp: byte_counter_def unless_disabled_def elim!: bind_SomeE)
    have "shape w1 = shape w" by (rule keeps_shapeD [OF assms c(1) p])
    then show ?thesis using e f True c set_counter_shape [of a _ w1 w']
      by (cases "f_obj f1") (auto simp: byte_counter_def unless_disabled_def get_counter_def Let_def elim!: bind_SomeE)
  qed (use e f keeps_shapeD [OF assms _ p] in \<open>simp add: byte_counter_def unless_disabled_def\<close>)
qed

lemma rotate_shape:
  assumes "keeps_shape call"
  shows "keeps_shape (rotate_fn S rot call)"
proof (rule keeps_shapeI)
  fix a buf n bl al w st m w'
  assume p: "plain_shape (shape w)" and e: "rotate_fn S rot call a buf n bl al w = Some (st, m, w')"
  then obtain f where f: "get_filter a w = Some f" by (auto simp: rotate_fn_def elim!: bind_SomeE)
  then show "shape w' = shape w" using e p keeps_shapeD [OF assms]
    by (cases "f_obj f") (auto simp: rotate_fn_def shape_put elim!: bind_SomeE split: if_split_asm)
qed

lemma filter_body_shape:
  assumes "keeps_shape call" and "plain fn"
  shows "keeps_shape (filter_body S call fn)"
  using assms ring_calls_shape fbb_calls_shape queue_calls_shape null_calls_shape file_calls_shape fifo_calls_shape
    limiter_shape time_limiter_shape counter_shape rotate_shape
  by (cases fn) (simp_all add: plain_def filter_body_def file_rotate_fn_def dir_rotate_fn_def)

lemma call_filter_shape: "keeps_shape (call_filter S n)"
proof (induction n)
  case (Suc n)
  show ?case
  proof (rule keeps_shapeI)
    fix a buf k bl al w st m w'
    assume p: "plain_shape (shape w)" and e: "call_filter S (Suc n) a buf k bl al w = Some (st, m, w')"
    then obtain f where f: "get_filter a w = Some f" "filter_body S (call_filter S n) (f_call f) a buf k bl al w = Some (st, m, w')"
      by (auto elim!: bind_SomeE)
    then have "plain (f_call f)" using p
      by (auto simp: plain_shape_def shape_def filter_shapes_def filter_shape_def get_filter_def split: if_split_asm)
    from keeps_shapeD [OF filter_body_shape [OF Suc this] f(2) p] show "shape w' = shape w" .
  qed
qed (simp add: keeps_shape_def)

text \<open>Reading, writing and stopping.\<close>

lemma count_shape [simp]: "shape (count_out S h st n m w) = shape w" "shape (count_in S h st n m w) = shape w"
  by (auto simp: count_out_def count_in_def Let_def desc_shape_def split: option.split prod.split)

lemma acquire_shape:
  "machine_desc_acquire h w = Some w' \<Longrightarrow> shape w' = shape w" "machine_desc_release h w = Some w' \<Longrightarrow> shape w' = shape w"
  by (auto simp: machine_desc_acquire_def machine_desc_release_def desc_shape_def elim!: bind_SomeE split: if_split_asm)

lemma machine_desc_read_shape:
  "machine_desc_read S (call_filter S n) h buf k w = Some (st, m, w') \<Longrightarrow> plain_shape (shape w) \<Longrightarrow> shape w' = shape w"
  by (auto simp: machine_desc_read_def split: option.split_asm if_split_asm io_desc_state_e.split_asm elim!: bind_SomeE
      dest!: acquire_shape keeps_shapeD [OF call_filter_shape])

lemma machine_desc_write_shape:
  "machine_desc_write S (call_filter S n) h buf k w = Some (st, m, w') \<Longrightarrow> plain_shape (shape w) \<Longrightarrow> shape w' = shape w"
  by (auto simp: machine_desc_write_def split: option.split_asm if_split_asm io_desc_state_e.split_asm elim!: bind_SomeE
      dest!: acquire_shape keeps_shapeD [OF call_filter_shape])

lemma impl_upd_shape:
  assumes "machine_get_desc h w = Some d" and "tag_of (md_impl d) = tag_of x"
  shows "shape (upd_desc h (md_impl_update (\<lambda>_. x)) w) = shape w"
    "shape (upd_desc h (md_impl_update (\<lambda>_. x)) (set_write_state h st w)) = shape w"
proof -
  show "shape (upd_desc h (md_impl_update (\<lambda>_. x)) w) = shape w"
    using assms by (auto simp: desc_shape_def intro!: shape_upd_desc)
  have "tag_of (md_impl e) = tag_of x" if "machine_get_desc h (set_write_state h st w) = Some e" for e
    using assms that by (auto simp: set_write_state_def upd_desc_def machine_get_desc_def find_upd_first)
  then have "shape (upd_desc h (md_impl_update (\<lambda>_. x)) (set_write_state h st w)) = shape (set_write_state h st w)"
    by (intro shape_upd_desc) (simp add: desc_shape_def)
  then show "shape (upd_desc h (md_impl_update (\<lambda>_. x)) (set_write_state h st w)) = shape w" by simp
qed

lemma stop_shape:
  "rbm_stop_buffer h w = Some w' \<Longrightarrow> shape w' = shape w" "stop_queue h w = Some w' \<Longrightarrow> shape w' = shape w"
  "machine_disable_read h w = Some w' \<Longrightarrow> shape w' = shape w" "shape (machine_stop h w) = shape w"
  by (auto simp: rbm_stop_buffer_def stop_queue_def machine_disable_read_def machine_stop_def update_out_metrics_def Let_def put_hq_def
      ring_of_def hq_of_def impl_upd_shape desc_shape_def split: option.split_asm option.split impl.split_asm elim!: bind_SomeE)

lemma get_machine_ref_in: "get_machine_ref h w = Some m \<Longrightarrow> (h, m) \<in> set (w_handle_map w)"
proof -
  assume "get_machine_ref h w = Some m"
  then obtain k where "find (\<lambda>hm. fst hm = h) (w_handle_map w) = Some (k, m)"
    by (auto simp: get_machine_ref_def get_machine_by_handle_def)
  then have "(k, m) \<in> set (w_handle_map w)" "k = h" by (auto simp: find_Some_iff) (metis fst_conv)
  then show ?thesis by simp
qed

lemma stop_machine_shape:
  assumes "stop_machine S (get_machine_ref h w) h w = Some w'" and "machines_typed w"
  shows "shape w' = shape w"
proof (cases "get_machine_ref h w")
  case (Some m)
  then have "(h, m) \<in> set (w_handle_map w)" by (rule get_machine_ref_in)
  then have "plain_iom (w_machines w ! m)" using assms(2) by (auto simp: machines_typed_def iom_typed_def)
  then show ?thesis using assms(1) Some
    by (auto simp: stop_machine_def get_iom_def iom_stop_def plain_iom_def stop_shape(4) split: if_split_asm dest: stop_shape(1-3))
qed (use assms in \<open>simp add: stop_machine_def\<close>)

text \<open>Chains of filters.\<close>

lemma filter_upd_shape:
  "upd_filter a (f_direction_update g) w = Some w' \<Longrightarrow> shape w' = shape w" "upd_filter a (f_next_update g') w = Some w' \<Longrightarrow> shape w' = shape w"
  by (auto elim!: shape_upd_filter simp: filter_shape_def)

lemma chain_end_shape:
  assumes "chain_end dir f w = Some r"
  shows "shape (snd r) = shape w"
proof (rule chain_end.raw_induct [where P = "\<lambda>dir f w r. shape (snd r) = shape w", OF _ assms])
  fix ce dir f w r
  assume IH: "\<And>dir f w r. ce dir f w = Some r \<Longrightarrow> shape (snd r) = shape w"
    and e: "do { fl \<leftarrow> get_filter f w; if f_next fl \<noteq> 0 then do { w' \<leftarrow> upd_filter f (f_direction_update (\<lambda>_. dir)) w; ce dir (f_next fl) w' }
      else Some (f, w) } = Some r"
  then obtain fl where fl: "get_filter f w = Some fl" by (auto elim!: bind_SomeE)
  show "shape (snd r) = shape w"
  proof (cases "f_next fl = 0")
    case False
    then obtain w' where "upd_filter f (f_direction_update (\<lambda>_. dir)) w = Some w'" "ce dir (f_next fl) w' = Some r"
      using e fl by (auto elim!: bind_SomeE)
    then show ?thesis using IH filter_upd_shape(1) by metis
  qed (use e fl in auto)
qed

lemma chain_end_shape': "chain_end dir f w = Some (e, w') \<Longrightarrow> shape w' = shape w"
  using chain_end_shape by fastforce

lemma lock_shape: "machine_lock h w = Some w' \<Longrightarrow> shape w' = shape w" "shape (machine_unlock h w) = shape w"
  by (auto simp: machine_lock_def machine_unlock_def desc_shape_def split: option.split_asm option.split if_split_asm)

lemma iom_lock_shape: "iom_lock m h w = Some w' \<Longrightarrow> shape w' = shape w" "iom_unlock m h w = Some w' \<Longrightarrow> shape w' = shape w"
  by (auto simp: iom_lock_def iom_unlock_def sdr_lock_def sdr_unlock_def lock_shape dest: lock_shape(1)
      elim!: bind_SomeE split: if_split_asm io_locker.split_asm)

lemma add_filter_shape:
  "add_read_filter h a w = Some w' \<Longrightarrow> shape w' = shape w" "add_write_filter h a w = Some w' \<Longrightarrow> shape w' = shape w"
  by (auto simp: add_read_filter_def add_write_filter_def elim!: bind_SomeE
      dest!: chain_end_shape' filter_upd_shape iom_lock_shape)

section \<open>New and destroyed machines\<close>

text \<open>A new filter that has no machine.\<close>

lemma typed_filter:
  assumes "machines_typed w" and "shape w' = shape (w\<lparr>w_filters := (w_filters w)(a \<mapsto> f)\<rparr>)" and "plain (f_call f)" and "obj_handle (f_obj f) = None"
  shows "machines_typed w'"
proof -
  let ?w = "w\<lparr>w_filters := (w_filters w)(a \<mapsto> f)\<rparr>"
  have "handles_ok ?w = handles_ok w" "call_typed ?w = call_typed w" "statics ?w = statics w"
    by (simp_all add: handles_ok_def call_typed_def used_handles_def statics_def)
  moreover have "call_typed w s" if "filter_shapes ?w b = Some s" for b s
  proof (cases "b = a")
    case True
    then show ?thesis using that assms(3,4) by (auto simp: filter_shapes_def call_typed_def filter_shape_def)
  next
    case False
    then have "filter_shapes w b = Some s" using that by (simp add: filter_shapes_def)
    then show ?thesis by (rule typed_callD [OF assms(1)])
  qed
  ultimately have "machines_typed ?w" using assms(1) by (auto simp: machines_typed_def)
  then show ?thesis using machines_typed_cong [OF assms(2)] by simp
qed

lemma create_filter_typed:
  assumes "create_filter S p name fn w = Some (a, w')" and "machines_typed w" and "plain fn"
  shows "machines_typed w'" "w_machines w' = w_machines w" "w_handle_counter w' = w_handle_counter w"
    "\<exists>f. w_filters w' = (w_filters w)(a \<mapsto> f) \<and> f_call f = fn \<and> f_obj f = OBJ_NULL"
proof -
  let ?f = "\<lparr>f_enabled = True, f_direction = IOF_BIDIRECTIONAL, f_name = take IO_MAX_NAME_LEN name,
    f_alloc = create_subpool (s_mem S) (w_heap w) p, f_obj = OBJ_NULL, f_next = 0, f_call = fn, f_reset = None\<rparr>"
  have w': "w' = (add_live a sizeof_filter w)\<lparr>w_filters := (w_filters w)(a \<mapsto> ?f)\<rparr>"
    using assms(1) by (auto simp: create_filter_def Let_def elim!: bind_SomeE)
  then have "shape w' = shape (w\<lparr>w_filters := (w_filters w)(a \<mapsto> ?f)\<rparr>)"
    by (simp add: shape_def add_live_def filter_shapes_def statics_def fun_eq_iff)
  from typed_filter [OF assms(2) this] show "machines_typed w'" using assms(3) by simp
  show "w_machines w' = w_machines w" "w_handle_counter w' = w_handle_counter w"
    "\<exists>f. w_filters w' = (w_filters w)(a \<mapsto> f) \<and> f_call f = fn \<and> f_obj f = OBJ_NULL"
    using w' by (auto simp: add_live_def intro!: exI [of _ ?f])
qed

lemma request_handle_statics: "request_handle S m w = Some (h, w') \<Longrightarrow> statics w' = statics w"
  by (auto simp: request_handle_def Let_def add_live_def statics_def elim!: bind_SomeE split: if_split_asm)

lemma set_filter_handle_calls:
  assumes "set_filter_handle io h w = Some w'"
  shows "statics w' = statics w"
    "filter_shapes w' a = Some s \<Longrightarrow> filter_shapes w a = Some s \<or>
      (\<exists>i f. io = Some i \<and> get_filter (io_obj i) w = Some f \<and> s = (f_call f, Some h))"
    "map_option f_call (get_filter b w') = map_option f_call (get_filter b w)"
proof -
  show "statics w' = statics w" "map_option f_call (get_filter b w') = map_option f_call (get_filter b w)"
    using assms by (auto simp: set_filter_handle_def upd_filter_def statics_def get_filter_def
      split: option.split_asm if_split_asm elim!: bind_SomeE)
  assume s: "filter_shapes w' a = Some s"
  show "filter_shapes w a = Some s \<or> (\<exists>i f. io = Some i \<and> get_filter (io_obj i) w = Some f \<and> s = (f_call f, Some h))"
  proof (cases io)
    case (Some i)
    then obtain f where f: "get_filter (io_obj i) w = Some f"
      "w' = w\<lparr>w_filters := (w_filters w)(io_obj i \<mapsto> f\<lparr>f_obj := OBJ_HANDLE h\<rparr>)\<rparr>"
      using assms by (auto simp: set_filter_handle_def upd_filter_def elim!: bind_SomeE)
    then show ?thesis using s Some by (cases "a = io_obj i") (auto simp: filter_shapes_def filter_shape_def)
  qed (use assms s in \<open>simp add: set_filter_handle_def\<close>)
qed

lemma register_typed:
  assumes T: "machines_typed w" and r: "machine_register_desc S d w = Some (h, w')" and c: "w_handle_counter w + 1 < 2 ^ 31"
    and m: "iom_typed (w_machines w) (md_machine d) (tag_of (md_impl d))"
    and io: "\<And>i f. md_io_read d = Some i \<or> md_io_write d = Some i \<Longrightarrow> get_filter (io_obj i) w = Some f \<Longrightarrow>
      plain (f_call f) \<and> fits (call_type (f_call f)) (tag_of (md_impl d))"
  shows "machines_typed w'"
proof -
  have ok: "handles_ok w" using T by (simp add: machines_typed_def)
  have sp: "0 < spare_handles w" using c by (simp add: spare_handles_def)
  note spec = machine_register_desc_spec [OF r c] and new = machines.create_fresh [OF ok sp r] and used = machines.create_used [OF ok sp r]
  obtain k w1 where q: "request_handle S (md_machine d) w = Some (k, w1)" using r by (auto simp: machine_register_desc_def elim!: bind_SomeE)
  note qs = request_handle_spec [OF q c]
  obtain w2 w3 where f: "set_filter_handle (md_io_read d) k w1 = Some w2" "set_filter_handle (md_io_write d) k w2 = Some w3"
    and w': "h = k" "w' = w3\<lparr>w_descs := w_descs w3 @ [d\<lparr>md_handle := k\<rparr>]\<rparr>"
    using r q qs(1) by (auto simp: machine_register_desc_def elim!: bind_SomeE)
  note s1 = set_filter_handle_calls [OF f(1)] and s2 = set_filter_handle_calls [OF f(2)]
  have ms: "w_machines w' = w_machines w"
    using w' qs(6) set_filter_handle_frame [OF f(1)] set_filter_handle_frame [OF f(2)] by simp
  have st: "statics w' = statics w" using w' s1(1) s2(1) request_handle_statics [OF q] by (simp add: statics_def)
  have eq1: "get_filter b w1 = get_filter b w" "filter_shapes w1 = filter_shapes w" for b
    using qs(5) by (simp_all add: get_filter_def filter_shapes_def fun_eq_iff)
  have descs: "desc_shape ` set (w_descs w') = insert (h, md_machine d, tag_of (md_impl d)) (desc_shape ` set (w_descs w))"
    using spec(2) by (simp add: desc_shape_def)
  have "call_typed w' s" if a: "filter_shapes w' a = Some s" for a s
  proof -
    have "filter_shapes w3 a = Some s" using a w' by (simp add: filter_shapes_def)
    from s2(2) [OF this] consider "filter_shapes w a = Some s" | i g where "md_io_read d = Some i \<or> md_io_write d = Some i"
      "get_filter (io_obj i) w = Some g" "s = (f_call g, Some h)"
    proof (elim disjE exE conjE)
      assume "filter_shapes w2 a = Some s"
      from s1(2) [OF this] show thesis using that eq1 w'(1) by auto
    next
      fix i g assume i: "md_io_write d = Some i" "get_filter (io_obj i) w2 = Some g" "s = (f_call g, Some k)"
      have "map_option f_call (get_filter (io_obj i) w) = Some (f_call g)" using s1(3) [of "io_obj i"] i(2) eq1 by simp
      then obtain g' where "get_filter (io_obj i) w = Some g'" "f_call g' = f_call g" by auto
      then show thesis using that(2) [of i g'] i w'(1) by simp
    qed
    then show ?thesis
    proof cases
      case 1
      then have "call_typed w s" by (rule typed_callD [OF T])
      then show ?thesis using new unfolding call_typed_def used descs by (cases s) (simp, blast)
    next
      case (2 i g)
      have "m = md_machine d \<and> t = tag_of (md_impl d)" if "(h, m, t) \<in> desc_shape ` set (w_descs w')" for m t
      proof -
        have "(h, m, t) \<notin> desc_shape ` set (w_descs w)"
          using new ok by (auto simp: desc_shape_def handles_ok_def)
        then show ?thesis using that descs by simp
      qed
      then show ?thesis using io [OF 2(1,2)] 2(3) used by (auto simp: call_typed_def)
    qed
  qed
  moreover have "distinct (map fst (w_handle_map w'))" using T spec(3) new by (auto simp: machines_typed_def used_handles_def)
  ultimately show ?thesis using T machines.create_ok [OF ok sp r] ms st spec(3) m descs
    unfolding machines_typed_def by auto
qed

lemma machine_desc_init_shape:
  assumes "machine_desc_init S p m d w = (st, d', w')"
  shows "shape w' = shape w" "md_impl d' = md_impl d" "\<not> st < IO_SUCCESS \<Longrightarrow> md_machine d' = m"
  using assms by (auto simp: machine_desc_init_def Let_def split: option.split_asm)

lemma filter_init_typed:
  assumes T: "machines_typed w" and fn: "plain fn"
    and e: "filter_read_init S p name fn d w = Some (a, d', w') \<or> filter_write_init S p name fn d w = Some (a, d', w')"
  shows "machines_typed w'" "w_machines w' = w_machines w" "w_handle_counter w' = w_handle_counter w"
    "md_impl d' = md_impl d" "md_machine d' = md_machine d"
    "a \<noteq> 0 \<Longrightarrow> \<exists>f. w_filters w' = (w_filters w)(a \<mapsto> f) \<and> f_call f = fn"
proof -
  have "a = 0 \<and> d' = d \<and> w' = w \<or> create_filter S p name fn w = Some (a, w') \<and> md_impl d' = md_impl d \<and> md_machine d' = md_machine d"
    using e by (auto simp: filter_read_init_def filter_write_init_def elim!: bind_SomeE split: option.split_asm)
  then show "machines_typed w'" "w_machines w' = w_machines w" "w_handle_counter w' = w_handle_counter w"
    "md_impl d' = md_impl d" "md_machine d' = md_machine d"
    "a \<noteq> 0 \<Longrightarrow> \<exists>f. w_filters w' = (w_filters w)(a \<mapsto> f) \<and> f_call f = fn"
    using T create_filter_typed [OF _ T fn, of S p name a w'] by auto
qed

lemma setup_desc_typed:
  assumes T: "machines_typed w" and e: "setup_desc S p m rn rfn wn wfn d w = Some (h, w')" and c: "w_handle_counter w + 1 < 2 ^ 31"
    and m: "iom_typed (w_machines w) m (tag_of (md_impl d))"
    and fn: "plain rfn" "plain wfn" "fits (call_type rfn) (tag_of (md_impl d))" "fits (call_type wfn) (tag_of (md_impl d))"
  shows "machines_typed w'"
proof -
  obtain st d1 w1 where i: "machine_desc_init S p m d w = (st, d1, w1)" by (metis surj_pair)
  note s1 = machine_desc_init_shape [OF i]
  have T1: "machines_typed w1" using T machines_typed_cong [OF s1(1)] by simp
  have w1: "w_machines w1 = w_machines w" "w_handle_counter w1 = w_handle_counter w" using s1(1) by (simp_all add: shape_def)
  have disc: "machines_typed (discard_pool S p v)" if "machines_typed v" for v
    using machines_typed_cong [of "discard_pool S p v" v] that by simp
  show ?thesis
  proof (cases "st < IO_SUCCESS")
    case False
    then obtain fr d2 w2 where r: "filter_read_init S p rn rfn d1 w1 = Some (fr, d2, w2)"
      using e i by (auto simp: setup_desc_def elim!: bind_SomeE)
    note s2 = filter_init_typed [OF T1 fn(1) disjI1 [OF r]]
    show ?thesis
    proof (cases "fr = 0")
      case nz: False
      then obtain fw d3 w3 where wr: "filter_write_init S p wn wfn d2 w2 = Some (fw, d3, w3)"
        using e i r False by (auto simp: setup_desc_def elim!: bind_SomeE)
      note s3 = filter_init_typed [OF s2(1) fn(2) disjI2 [OF wr]]
      show ?thesis
      proof (cases "fw = 0")
        case nw: False
        then have reg: "machine_register_desc S d3 w3 = Some (h, w')" using e i r wr False nz by (simp add: setup_desc_def)
        have d3: "md_impl d3 = md_impl d" "md_machine d3 = m" using s1 s2 s3 False by simp_all
        obtain f g where fg: "w_filters w2 = (w_filters w1)(fr \<mapsto> f)" "f_call f = rfn" "w_filters w3 = (w_filters w2)(fw \<mapsto> g)" "f_call g = wfn"
          using s2(6) [OF nz] s3(6) [OF nw] by auto
        have io: "io_obj x = fr \<or> io_obj x = fw" if "md_io_read d3 = Some x \<or> md_io_write d3 = Some x" for x
          using that r wr nz nw by (auto simp: filter_read_init_def filter_write_init_def split: option.split_asm elim!: bind_SomeE)
        show ?thesis
        proof (rule register_typed [OF s3(1) reg])
          show "w_handle_counter w3 + 1 < 2 ^ 31" using c w1 s2 s3 by simp
          show "iom_typed (w_machines w3) (md_machine d3) (tag_of (md_impl d3))" using m w1 s2 s3 d3 by simp
          show "plain (f_call k) \<and> fits (call_type (f_call k)) (tag_of (md_impl d3))"
            if "md_io_read d3 = Some x \<or> md_io_write d3 = Some x" "get_filter (io_obj x) w3 = Some k" for x k
            using io [OF that(1)] that(2) fg fn d3 by (auto simp: get_filter_def split: if_split_asm)
        qed
      qed (use e i r wr False nz s3(1) disc in \<open>auto simp: setup_desc_def\<close>)
    qed (use e i r False s2(1) disc in \<open>auto simp: setup_desc_def\<close>)
  qed (use e i T1 disc in \<open>auto simp: setup_desc_def\<close>)
qed

end
