(* ===== verification/Type_Properties.thy ===== *)
theory Type_Properties
  imports Machine_Types Demo_World
begin

text \<open>
  The functions that make and destroy machines and filters keep the types of the descriptors, and
  so does every sequence of operations on machines, from a state with no machines on.
\<close>

section \<open>Registered machines\<close>

lemma iom_typed_append: "iom_typed ms m t \<Longrightarrow> iom_typed (ms @ [y]) m t"
  by (auto simp: iom_typed_def nth_append)

lemma new_iom_typed:
  assumes T: "machines_typed w" and ms: "w_machines w' = w_machines w @ [y]" and y: "plain_iom y"
    and same: "w_descs w' = w_descs w" "w_filters w' = w_filters w" "w_handle_map w' = w_handle_map w" "w_handle_counter w' = w_handle_counter w"
    and st: "\<And>s t. (s, t) \<in> set (statics w') \<Longrightarrow> (s, t) \<in> set (statics w) \<or>
      s = Some (length (w_machines w)) \<and> fits (stop_type (m_stop y)) t \<and> fits (destroy_type (m_destroy y)) t"
  shows "machines_typed w'"
proof -
  have "handles_ok w' = handles_ok w" "call_typed w' = call_typed w" "filter_shapes w' = filter_shapes w"
    using same by (simp_all add: handles_ok_def call_typed_def used_handles_def filter_shapes_def fun_eq_iff)
  moreover have ap: "iom_typed (w_machines w') m u" if "iom_typed (w_machines w) m u" for m u
    using iom_typed_append [OF that] ms by simp
  moreover have "iom_typed (w_machines w') m t" if "(s, t) \<in> set (statics w')" "s = Some m" for s t m
    using st [OF that(1)]
  proof
    assume "(s, t) \<in> set (statics w)"
    then have "iom_typed (w_machines w) m t" using T that(2) unfolding machines_typed_def by blast
    then show ?thesis by (rule ap)
  next
    assume "s = Some (length (w_machines w)) \<and> fits (stop_type (m_stop y)) t \<and> fits (destroy_type (m_destroy y)) t"
    then show ?thesis using that(2) y ms by (simp add: iom_typed_def)
  qed
  ultimately show ?thesis using T same unfolding machines_typed_def by fastforce
qed

lemma machine_register_spec:
  assumes "machine_register S name w = Some (Some m, w')"
  shows "m = length (w_machines w)" "w_descs w' = w_descs w" "w_filters w' = w_filters w" "w_handle_map w' = w_handle_map w"
    "w_handle_counter w' = w_handle_counter w" "statics w' = statics w"
    "\<exists>y. w_machines w' = w_machines w @ [y] \<and> m_stop y = STOP_MACHINE"
  using assms by (auto simp: machine_register_def Let_def add_live_def statics_def elim!: bind_SomeE split: option.split_asm)

lemma registered_typed:
  assumes T: "machines_typed w" and r: "machine_register S name w = Some (Some m, w1)"
    and w': "w_descs w' = w_descs w1" "w_filters w' = w_filters w1" "w_handle_map w' = w_handle_map w1" "w_handle_counter w' = w_handle_counter w1"
    and x: "m < length (w_machines w1) \<Longrightarrow> m_stop (w_machines w1 ! m) = STOP_MACHINE \<Longrightarrow>
      w_machines w' = (w_machines w1)[m := w_machines w' ! m] \<and> plain_iom (w_machines w' ! m)"
    and st: "\<And>s t. m < length (w_machines w1) \<Longrightarrow> m_stop (w_machines w1 ! m) = STOP_MACHINE \<Longrightarrow> (s, t) \<in> set (statics w') \<Longrightarrow>
      (s, t) \<in> set (statics w1) \<or> s = Some m \<and> fits (stop_type (m_stop (w_machines w' ! m))) t \<and> fits (destroy_type (m_destroy (w_machines w' ! m))) t"
  shows "machines_typed w'"
proof -
  note spec = machine_register_spec [OF r]
  obtain y where y: "w_machines w1 = w_machines w @ [y]" "m_stop y = STOP_MACHINE" using spec(7) by blast
  then have m: "m < length (w_machines w1)" "m_stop (w_machines w1 ! m) = STOP_MACHINE" using spec(1) by simp_all
  define z where "z = w_machines w' ! m"
  have "w_machines w' = w_machines w @ [z]" "plain_iom z" using x [OF m] y(1) spec(1) unfolding z_def [symmetric] by simp_all
  from new_iom_typed [OF T this] show ?thesis using st [OF m, folded z_def] w' spec by simp
qed

lemma get_machine_typed:
  assumes "machines_typed w"
  shows "get_rb_machine S w = Some (m, w') \<Longrightarrow> machines_typed w'" "get_fbb_machine S w = Some (m, w') \<Longrightarrow> machines_typed w'"
    "get_hq_machine S w = Some (m, w') \<Longrightarrow> machines_typed w'" "get_null_machine S w = Some (m, w') \<Longrightarrow> machines_typed w'"
    "get_file_machine S w = Some (m, w') \<Longrightarrow> machines_typed w'" "get_fifo_machine S w = Some (m, w') \<Longrightarrow> machines_typed w'"
  using assms
  by (auto simp: get_rb_machine_def get_fbb_machine_def get_hq_machine_def get_null_machine_def get_file_machine_def get_fifo_machine_def
      Let_def elim!: bind_SomeE split: option.split_asm)
   (erule (1) registered_typed; auto simp: plain_iom_def statics_def fits_def)+

section \<open>New machines\<close>

lemma get_machine_counter:
  "get_rb_machine S w = Some (m, w') \<Longrightarrow> w_handle_counter w' = w_handle_counter w"
  "get_fbb_machine S w = Some (m, w') \<Longrightarrow> w_handle_counter w' = w_handle_counter w"
  "get_hq_machine S w = Some (m, w') \<Longrightarrow> w_handle_counter w' = w_handle_counter w"
  "get_null_machine S w = Some (m, w') \<Longrightarrow> w_handle_counter w' = w_handle_counter w"
  "get_file_machine S w = Some (m, w') \<Longrightarrow> w_handle_counter w' = w_handle_counter w"
  "get_fifo_machine S w = Some (m, w') \<Longrightarrow> w_handle_counter w' = w_handle_counter w"
  by (auto simp: get_rb_machine_def get_fbb_machine_def get_hq_machine_def get_null_machine_def get_file_machine_def get_fifo_machine_def
      Let_def elim!: bind_SomeE split: option.split_asm dest!: machine_register_spec(5))

text \<open>The end of a \<open>create\<close> function, after steps that keep the shape.\<close>

lemma setup_typed:
  assumes T: "machines_typed w" and c: "w_handle_counter w + 1 < 2 ^ 31" and e: "setup_desc S p m rn rfn wn wfn d v = Some (h, w')"
    and v: "shape v = shape w" and m: "(Some m, tag_of (md_impl d)) \<in> set (statics w)"
    and fn: "plain rfn" "plain wfn" "fits (call_type rfn) (tag_of (md_impl d))" "fits (call_type wfn) (tag_of (md_impl d))"
  shows "machines_typed w'"
proof (rule setup_desc_typed [OF _ e _ _ fn])
  show "machines_typed v" using T machines_typed_cong [OF v] by simp
  show "w_handle_counter v + 1 < 2 ^ 31" using c v by (simp add: shape_def)
  have "iom_typed (w_machines w) m (tag_of (md_impl d))" using T m unfolding machines_typed_def by blast
  then show "iom_typed (w_machines v) m (tag_of (md_impl d))" using v by (simp add: shape_def)
qed

lemma typed_shape: "machines_typed w \<Longrightarrow> shape w' = shape w \<Longrightarrow> machines_typed w'"
  using machines_typed_cong by blast

lemmas typed_irrelevant = shape_irrelevant [THEN machines_typed_cong]

lemma get_iom_static: "get_iom s w = Some (m, x) \<Longrightarrow> s = Some m"
  by (auto simp: get_iom_def split: option.split_asm if_split_asm)

lemmas setup_simps = statics_def plain_def fits_def zero_desc_def Let_def

lemma input_shape:
  "set_input_str k S p src dst w = Some (x, w') \<Longrightarrow> shape w' = shape w" "input_opt S p src' w = Some (x, w') \<Longrightarrow> shape w' = shape w"
  "init_basedir S p b fd w = Some (fd', w') \<Longrightarrow> shape w' = shape w" "fifo_set_input_str S p src dst w = Some (x, w') \<Longrightarrow> shape w' = shape w"
proof -
  show str: "shape w' = shape w" if "set_input_str k S p src dst w = Some (x, w')" for k p src dst x w w'
    using that by (auto simp: set_input_str_def Let_def elim!: bind_SomeE split: option.split_asm if_split_asm)
  show "input_opt S p src' w = Some (x, w') \<Longrightarrow> shape w' = shape w" by (auto simp: input_opt_def split: option.split_asm dest: str)
  show "init_basedir S p b fd w = Some (fd', w') \<Longrightarrow> shape w' = shape w"
    by (auto simp: init_basedir_def elim!: bind_SomeE split: option.split_asm dest: str)
  show "fifo_set_input_str S p src dst w = Some (x, w') \<Longrightarrow> shape w' = shape w" by (auto simp: fifo_set_input_str_def dest: str)
qed

lemma create_typed:
  assumes T: "machines_typed w" and c: "w_handle_counter w + 1 < 2 ^ 31"
  shows "rbm_create_buffer S w = Some (h, w') \<Longrightarrow> machines_typed w'"
    "fbbm_create_buffer S args w = Some (h, w') \<Longrightarrow> machines_typed w'"
    "create_queue S ty w = Some (h, w') \<Longrightarrow> machines_typed w'"
    "create_null S w = Some (h, w') \<Longrightarrow> machines_typed w'"
  using T by (auto simp: rbm_create_buffer_def fbbm_create_buffer_def create_queue_def create_null_def Let_def elim!: bind_SomeE
      split: option.split_asm if_split_asm dest!: get_iom_static simp: typed_irrelevant)
   (erule setup_typed [OF T c]; simp add: setup_simps)+

lemma create_file_typed:
  assumes T: "machines_typed w" and c: "w_handle_counter w + 1 < 2 ^ 31"
  shows "create_file S fargs w = Some (h, w') \<Longrightarrow> machines_typed w'" "create_fifo S fname flags w = Some (h, w') \<Longrightarrow> machines_typed w'"
  using T by (auto simp: create_file_def create_fifo_def Let_def elim!: bind_SomeE
      split: option.split_asm if_split_asm dest!: get_iom_static input_shape simp: typed_irrelevant)
   (erule setup_typed [OF T c]; simp add: setup_simps)+

text \<open>No function that makes a machine hands out more than one handle.\<close>

lemma shape_counter: "shape w' = shape w \<Longrightarrow> w_handle_counter w' = w_handle_counter w"
  by (simp add: shape_def)

lemma create_filter_counter: "create_filter S p name fn w = Some (a, w') \<Longrightarrow> w_handle_counter w' = w_handle_counter w"
  by (auto simp: create_filter_def Let_def add_live_def elim!: bind_SomeE)

lemma filter_init_counter:
  "filter_read_init S p name fn d w = Some (a, d', w') \<Longrightarrow> w_handle_counter w' = w_handle_counter w"
  "filter_write_init S p name fn d w = Some (a, d', w') \<Longrightarrow> w_handle_counter w' = w_handle_counter w"
  by (auto simp: filter_read_init_def filter_write_init_def elim!: bind_SomeE split: option.split_asm dest: create_filter_counter)

lemma register_counter:
  assumes "machine_register_desc S d w = Some (h, w')" and "w_handle_counter w + 1 < 2 ^ 31"
  shows "w_handle_counter w' = w_handle_counter w + 1"
  using assms request_handle_spec(2) [OF _ assms(2)]
  by (auto simp: machine_register_desc_def elim!: bind_SomeE split: if_split_asm dest!: set_filter_handle_frame)

lemma setup_counter:
  assumes "setup_desc S p m rn rfn wn wfn d v = Some (h, w')" and "shape v = shape w" and "w_handle_counter w + 1 < 2 ^ 31"
  shows "w_handle_counter w' \<le> Suc (w_handle_counter w)"
proof -
  have v: "w_handle_counter v = w_handle_counter w" by (rule shape_counter [OF assms(2)])
  obtain st d1 w1 where i: "machine_desc_init S p m d v = (st, d1, w1)" by (metis surj_pair)
  have w1: "w_handle_counter w1 = w_handle_counter w" using shape_counter [OF machine_desc_init_shape(1) [OF i]] v by simp
  have disc: "w_handle_counter (discard_pool S p u) = w_handle_counter u" for u by (simp add: discard_pool_def)
  show ?thesis using assms(1,3) i w1
    by (auto simp: setup_desc_def disc elim!: bind_SomeE split: if_split_asm dest!: filter_init_counter register_counter)
qed

lemma create_counter:
  assumes c: "w_handle_counter w + 1 < 2 ^ 31"
  shows "rbm_create_buffer S w = Some (h, w') \<Longrightarrow> w_handle_counter w' \<le> Suc (w_handle_counter w)"
    "fbbm_create_buffer S args w = Some (h, w') \<Longrightarrow> w_handle_counter w' \<le> Suc (w_handle_counter w)"
    "create_queue S ty w = Some (h, w') \<Longrightarrow> w_handle_counter w' \<le> Suc (w_handle_counter w)"
    "create_null S w = Some (h, w') \<Longrightarrow> w_handle_counter w' \<le> Suc (w_handle_counter w)"
    "create_file S fargs w = Some (h, w') \<Longrightarrow> w_handle_counter w' \<le> Suc (w_handle_counter w)"
    "create_fifo S fname flags w = Some (h, w') \<Longrightarrow> w_handle_counter w' \<le> Suc (w_handle_counter w)"
  by (auto simp: rbm_create_buffer_def fbbm_create_buffer_def create_queue_def create_null_def create_file_def create_fifo_def Let_def
      discard_pool_def add_live_def elim!: bind_SomeE split: option.split_asm if_split_asm dest!: get_iom_static input_shape)
   (erule setup_counter [OF _ _ c]; simp)+

section \<open>Filters and their machines\<close>

lemma desc_unique:
  assumes "handles_ok w" and "machine_get_desc h w = Some d" and "(h, m, t) \<in> desc_shape ` set (w_descs w)"
  shows "m = md_machine d" "t = tag_of (md_impl d)"
proof -
  obtain e where e: "e \<in> set (w_descs w)" "md_handle e = h" "m = md_machine e" "t = tag_of (md_impl e)"
    using assms(3) by (auto simp: desc_shape_def)
  have "d \<in> set (w_descs w)" "md_handle d = h" using assms(2) by (auto simp: machine_get_desc_def find_Some_iff)
  then have "e = d" using e assms(1) by (auto simp: handles_ok_def distinct_map dest: inj_onD)
  then show "m = md_machine d" "t = tag_of (md_impl d)" using e by simp_all
qed

lemma upd_obj_typed:
  assumes T: "machines_typed w" and e: "upd_filter a (f_obj_update (\<lambda>_. ob)) w = Some w'"
    and ob: "\<And>h f. obj_handle ob = Some h \<Longrightarrow> get_filter a w = Some f \<Longrightarrow>
      \<exists>d. machine_get_desc h w = Some d \<and> fits (call_type (f_call f)) (tag_of (md_impl d))"
  shows "machines_typed w'"
proof -
  obtain f where f: "get_filter a w = Some f" "w' = w\<lparr>w_filters := (w_filters w)(a \<mapsto> f\<lparr>f_obj := ob\<rparr>)\<rparr>"
    using e by (auto simp: upd_filter_def elim!: bind_SomeE)
  have ok: "handles_ok w" using T by (simp add: machines_typed_def)
  have same: "handles_ok w' = handles_ok w" "call_typed w' = call_typed w" "statics w' = statics w"
    using f(2) by (simp_all add: handles_ok_def call_typed_def used_handles_def statics_def)
  have "filter_shapes w a = Some (f_call f, obj_handle (f_obj f))"
    using f(1) by (auto simp: get_filter_def filter_shapes_def filter_shape_def split: if_split_asm)
  from typed_callD [OF T this] have p: "plain (f_call f)" by (simp add: call_typed_def)
  have new: "call_typed w (f_call f, obj_handle ob)"
  proof -
    have "h \<in> used_handles w \<and> (\<forall>m t. (h, m, t) \<in> desc_shape ` set (w_descs w) \<longrightarrow> fits (call_type (f_call f)) t)"
      if h: "obj_handle ob = Some h" for h
    proof -
      obtain d where d: "machine_get_desc h w = Some d" "fits (call_type (f_call f)) (tag_of (md_impl d))" using ob [OF h f(1)] by blast
      then show ?thesis using machines.lookup_used [OF ok] desc_unique(2) [OF ok d(1)] by blast
    qed
    then show ?thesis using p by (simp add: call_typed_def)
  qed
  have "call_typed w s" if "filter_shapes w' b = Some s" for b s
    using that new typed_callD [OF T, of b s] f(2) by (cases "b = a") (auto simp: filter_shapes_def filter_shape_def)
  then show ?thesis using T same f(2) unfolding machines_typed_def by simp
qed

lemma upd_filter_frame:
  "upd_filter a g w = Some w' \<Longrightarrow> w_handle_counter w' = w_handle_counter w \<and> w_descs w' = w_descs w"
  by (auto simp: upd_filter_def elim!: bind_SomeE)

text \<open>A filter is made and given an object.\<close>

lemma attach_typed:
  assumes T: "machines_typed w" and f: "create_filter S p name fn w = Some (a, w1)" and v: "shape v = shape w1"
    and u: "upd_filter a (f_obj_update (\<lambda>_. ob)) v = Some w'" and fn: "plain fn"
    and ob: "\<And>h. obj_handle ob = Some h \<Longrightarrow> \<exists>d. machine_get_desc h v = Some d \<and> fits (call_type fn) (tag_of (md_impl d))"
  shows "machines_typed w' \<and> w_handle_counter w' = w_handle_counter w"
proof -
  note c = create_filter_typed [OF f T fn]
  obtain g where g: "w_filters w1 = (w_filters w)(a \<mapsto> g)" "f_call g = fn" using c(4) by blast
  have "filter_shapes v a = filter_shapes w1 a" using v by (simp add: shape_def)
  then have call: "f_call k = fn" if "get_filter a v = Some k" for k
    using that g by (auto simp: filter_shapes_def filter_shape_def get_filter_def split: if_split_asm)
  have "machines_typed w'"
    by (rule upd_obj_typed [OF typed_shape [OF c(1) v] u]) (use ob call in auto)
  then show ?thesis using upd_filter_frame [OF u] shape_counter [OF v] c(3) by simp
qed

lemma simple_filters_typed:
  assumes T: "machines_typed w"
  shows "create_byte_count_limit_filter S p name n x w = Some (a, w') \<Longrightarrow> machines_typed w' \<and> w_handle_counter w' = w_handle_counter w"
    "create_time_limit_filter S p name n w = Some (a, w') \<Longrightarrow> machines_typed w' \<and> w_handle_counter w' = w_handle_counter w"
    "create_byte_counter_filter S p name n w = Some (a, w') \<Longrightarrow> machines_typed w' \<and> w_handle_counter w' = w_handle_counter w"
  by (auto simp: create_byte_count_limit_filter_def create_time_limit_filter_def create_byte_counter_filter_def plain_def
      elim!: bind_SomeE dest: attach_typed [OF T _ shape_irrelevant(6)])

text \<open>The filters that rotate files hold the descriptor of a file machine.\<close>

lemma rotate_filter_typed:
  assumes T: "machines_typed w" and d: "machine_get_desc h w = Some d" "file_of d = Some fd"
    and f: "create_filter S p name fn w = Some (a, w1)" and v: "shape v = shape w1" "w_descs v = w_descs w1"
    and u: "upd_filter a (f_obj_update (\<lambda>_. OBJ_DESC h)) v = Some w2" and fn: "fn \<in> {FN_FILE_ROTATE, FN_DIR_ROTATE}"
  shows "machines_typed (put_file h fd' w2) \<and> w_handle_counter (put_file h fd' w2) = w_handle_counter w"
proof -
  have "w_descs w1 = w_descs w" using f by (auto simp: create_filter_def Let_def add_live_def elim!: bind_SomeE)
  then have dv: "machine_get_desc h v = Some d" "machine_get_desc h w2 = Some d"
    using d(1) v(2) upd_filter_frame [OF u] by (simp_all add: machine_get_desc_def)
  have "tag_of (md_impl d) = TAG_FILE" using d(2) by (auto simp: file_of_def split: impl.split_asm)
  then have "machines_typed w2 \<and> w_handle_counter w2 = w_handle_counter w"
    using dv(1) fn by (intro attach_typed [OF T f v(1) u]) (auto simp: plain_def fits_def)
  then show ?thesis using typed_shape [OF _ shape_put(4) [OF dv(2) d(2)]] shape_counter [OF shape_put(4) [OF dv(2) d(2)]] by auto
qed

lemma init_basedir_descs: "init_basedir S p b fd w = Some (fd', w') \<Longrightarrow> w_descs w' = w_descs w"
  by (auto simp: init_basedir_def set_input_str_def Let_def add_live_def elim!: bind_SomeE split: option.split_asm if_split_asm)

lemma file_filters_typed:
  assumes T: "machines_typed w"
  shows "file_rotate_filter S h w = Some (a, w') \<Longrightarrow> machines_typed w' \<and> w_handle_counter w' = w_handle_counter w"
    "file_dir_rotate_filter S h b w = Some (a, w') \<Longrightarrow> machines_typed w' \<and> w_handle_counter w' = w_handle_counter w"
proof -
  show "machines_typed w' \<and> w_handle_counter w' = w_handle_counter w" if "file_rotate_filter S h w = Some (a, w')"
    using that T by (auto simp: file_rotate_filter_def Let_def elim!: bind_SomeE split: option.split_asm
      dest: rotate_filter_typed [OF T _ _ _ refl refl])
  show "machines_typed w' \<and> w_handle_counter w' = w_handle_counter w" if "file_dir_rotate_filter S h b w = Some (a, w')"
    using that T by (auto simp: file_dir_rotate_filter_def Let_def elim!: bind_SomeE split: option.split_asm
      dest: rotate_filter_typed [OF T _ _ _ input_shape(3) init_basedir_descs])
qed

section \<open>Destruction\<close>

lemma destroy_desc_typed:
  assumes T: "machines_typed w" and e: "machine_destroy_desc S h w = Some w'"
  shows "machines_typed w' \<and> w_handle_counter w' = w_handle_counter w"
proof -
  have ok: "handles_ok w" using T by (simp add: machines_typed_def)
  note spec = machine_destroy_desc_spec [OF e]
  have same: "w_filters w' = w_filters w" "w_machines w' = w_machines w" "statics w' = statics w"
    using e by (auto simp: machine_destroy_desc_def statics_def split: option.split_asm if_split_asm)
  have sub: "desc_shape ` set (w_descs w') \<subseteq> desc_shape ` set (w_descs w)" using spec(3) remove_first_set [of h "w_descs w"] by (auto split: if_split_asm)
  have "call_typed w' s" if "filter_shapes w' a = Some s" for a s
  proof -
    have "call_typed w s" using typed_callD [OF T, of a s] that same(1) by (simp add: filter_shapes_def)
    then show ?thesis using sub spec(1) unfolding call_typed_def used_handles_def by (cases s) (simp, blast)
  qed
  moreover have "\<forall>(h, m, t) \<in> desc_shape ` set (w_descs w'). (h, m) \<in> set (w_handle_map w) \<and> iom_typed (w_machines w) m t"
    using sub typed_descD [OF T] by fast
  ultimately show ?thesis using T machines.destroy_ok [OF ok e] spec(1,2) same unfolding machines_typed_def by simp
qed

lemma destroy_machine_typed:
  assumes T: "machines_typed w" and e: "destroy_machine S h w = Some w'"
  shows "machines_typed w' \<and> w_handle_counter w' = w_handle_counter w"
proof (cases "h = 0 \<or> get_machine_ref h w = None")
  case False
  then obtain m where m: "get_machine_ref h w = Some m" by auto
  then have "plain_iom (w_machines w ! m)" using T get_machine_ref_in [OF m] by (auto simp: machines_typed_def iom_typed_def)
  moreover have "machines_typed (w\<lparr>w_px := px\<rparr>)" "w_handle_counter (w\<lparr>w_px := px\<rparr>) = w_handle_counter w" for px
    using T by (simp_all add: typed_irrelevant)
  ultimately show ?thesis using e m False T destroy_desc_typed
    by (auto simp: destroy_machine_def get_iom_def iom_destroy_def plain_iom_def destroy_null_def destroy_file_def destroy_fifo_def
        elim!: bind_SomeE split: if_split_asm dest!: destroy_desc_typed [rotated])
qed (use assms in \<open>auto simp: destroy_machine_def split: if_split_asm\<close>)

section \<open>Casts\<close>

text \<open>The descriptor is of the type that the function casts it to.\<close>

definition call_cast :: "io_filter_fn \<Rightarrow> machine_desc \<Rightarrow> bool" where
  "call_cast fn d = (case fn of
      FN_RB_READ \<Rightarrow> ring_of d \<noteq> None | FN_RB_WRITE \<Rightarrow> ring_of d \<noteq> None
    | FN_FBB_READ \<Rightarrow> fbb_of d \<noteq> None | FN_FBB_WRITE \<Rightarrow> fbb_of d \<noteq> None
    | FN_HQ_READ \<Rightarrow> hq_of d \<noteq> None | FN_HQ_WRITE \<Rightarrow> hq_of d \<noteq> None
    | FN_FILE_READ \<Rightarrow> file_of d \<noteq> None | FN_FILE_WRITE \<Rightarrow> file_of d \<noteq> None
    | FN_FILE_ROTATE \<Rightarrow> file_of d \<noteq> None | FN_DIR_ROTATE \<Rightarrow> file_of d \<noteq> None
    | FN_FIFO_READ \<Rightarrow> fifo_of d \<noteq> None | FN_FIFO_WRITE \<Rightarrow> fifo_of d \<noteq> None
    | _ \<Rightarrow> True)"

definition stop_cast :: "io_stopper \<Rightarrow> machine_desc \<Rightarrow> bool" where
  "stop_cast fn d = (case fn of STOP_BUFFER \<Rightarrow> ring_of d \<noteq> None | STOP_QUEUE \<Rightarrow> hq_of d \<noteq> None | _ \<Rightarrow> True)"

definition destroy_cast :: "io_destroyer \<Rightarrow> machine_desc \<Rightarrow> bool" where
  "destroy_cast fn d = (case fn of DESTROY_FILE \<Rightarrow> file_of d \<noteq> None | DESTROY_FIFO \<Rightarrow> fifo_of d \<noteq> None | _ \<Rightarrow> True)"

lemmas cast_defs = call_cast_def stop_cast_def destroy_cast_def fits_def ring_of_def fbb_of_def hq_of_def file_of_def fifo_of_def

lemma casts_fit:
  "call_cast fn d \<longleftrightarrow> fits (call_type fn) (tag_of (md_impl d))" "stop_cast sf d \<longleftrightarrow> fits (stop_type sf) (tag_of (md_impl d))"
  "destroy_cast df d \<longleftrightarrow> fits (destroy_type df) (tag_of (md_impl d))"
proof -
  show "call_cast fn d \<longleftrightarrow> fits (call_type fn) (tag_of (md_impl d))" by (cases fn) (auto simp: cast_defs split: impl.split)
  show "stop_cast sf d \<longleftrightarrow> fits (stop_type sf) (tag_of (md_impl d))" by (cases sf) (auto simp: cast_defs split: impl.split)
  show "destroy_cast df d \<longleftrightarrow> fits (destroy_type df) (tag_of (md_impl d))" by (cases df) (auto simp: cast_defs split: impl.split)
qed

lemma get_desc_shape:
  assumes "machine_get_desc h w = Some d"
  shows "(h, md_machine d, tag_of (md_impl d)) \<in> desc_shape ` set (w_descs w)"
proof -
  have "d \<in> set (w_descs w)" "md_handle d = h" using assms by (auto simp: machine_get_desc_def find_Some_iff)
  then show ?thesis by (auto simp: desc_shape_def image_iff)
qed

lemma typed_call_cast:
  assumes T: "machines_typed w" and f: "get_filter a w = Some f" "obj_handle (f_obj f) = Some h" and d: "machine_get_desc h w = Some d"
  shows "call_cast (f_call f) d"
proof -
  have "filter_shapes w a = Some (f_call f, Some h)"
    using f by (auto simp: get_filter_def filter_shapes_def filter_shape_def split: if_split_asm)
  from typed_callD [OF T this] get_desc_shape [OF d] show ?thesis unfolding call_typed_def casts_fit by blast
qed

lemma typed_iom:
  assumes T: "machines_typed w" and d: "machine_get_desc h w = Some d"
  shows "\<exists>m. get_machine_ref h w = Some m \<and> m < length (w_machines w) \<and>
    stop_cast (m_stop (w_machines w ! m)) d \<and> destroy_cast (m_destroy (w_machines w ! m)) d"
proof -
  note td = typed_descD [OF T get_desc_shape [OF d]]
  have "get_machine_ref h w \<noteq> None" using td by (auto simp: get_machine_ref_def get_machine_by_handle_def find_None_iff)
  then obtain m where m: "get_machine_ref h w = Some m" by blast
  have "distinct (map fst (w_handle_map w))" using T by (simp add: machines_typed_def)
  then have "m = md_machine d" using get_machine_ref_in [OF m] td by (blast dest: eq_key_imp_eq_value)
  then show ?thesis using m td by (auto simp: iom_typed_def casts_fit)
qed

section \<open>Operations\<close>

text \<open>What a program does with machines: it makes them, reads, writes, stops and destroys them by their handle,
  makes filters and puts them before the filters of a machine.\<close>

datatype machine_op =
    NEW_RB | NEW_FBB size_t size_t | NEW_FBB_FILL size_t size_t | NEW_HQ | NEW_HQ_FIFO | NEW_HQ_STACK | NEW_NULL
  | NEW_FILE "string option" "string option" "string option" "32 word" | NEW_FIFO "string option" "32 word"
  | READ io_handle addr size_t | WRITE io_handle addr size_t | STOP io_handle | DESTROY io_handle
  | NEW_LIMIT pool string size_t size_t | NEW_TIME_LIMIT pool string size_t | NEW_COUNTER pool string size_t
  | NEW_ROTATE io_handle | NEW_DIR_ROTATE io_handle "string option" | ADD_READ io_handle addr | ADD_WRITE io_handle addr

fun machine_step :: "sys \<Rightarrow> nat \<Rightarrow> machine_op \<Rightarrow> world \<Rightarrow> world option" where
  "machine_step S n NEW_RB w = map_option snd (new_rb_machine S w)"
| "machine_step S n (NEW_FBB k b) w = map_option snd (new_fbb_machine S k b w)"
| "machine_step S n (NEW_FBB_FILL k b) w = map_option snd (new_fbb_machine_fill S k b w)"
| "machine_step S n NEW_HQ w = map_option snd (new_hq_machine S w)"
| "machine_step S n NEW_HQ_FIFO w = map_option snd (new_hq_fifo_machine S w)"
| "machine_step S n NEW_HQ_STACK w = map_option snd (new_hq_stack_machine S w)"
| "machine_step S n NEW_NULL w = map_option snd (new_null_machine S w)"
| "machine_step S n (NEW_FILE dir name ext flags) w = map_option snd (new_file_machine S dir name ext flags w)"
| "machine_step S n (NEW_FIFO name flags) w = map_option snd (new_fifo_machine S name flags w)"
| "machine_step S n (READ h buf k) w = map_option (snd \<circ> snd) (machine_desc_read S (call_filter S n) h buf k w)"
| "machine_step S n (WRITE h buf k) w = map_option (snd \<circ> snd) (machine_desc_write S (call_filter S n) h buf k w)"
| "machine_step S n (STOP h) w = stop_machine S (get_machine_ref h w) h w"
| "machine_step S n (DESTROY h) w = destroy_machine S h w"
| "machine_step S n (NEW_LIMIT p name k x) w = map_option snd (create_byte_count_limit_filter S p name k x w)"
| "machine_step S n (NEW_TIME_LIMIT p name k) w = map_option snd (create_time_limit_filter S p name k w)"
| "machine_step S n (NEW_COUNTER p name k) w = map_option snd (create_byte_counter_filter S p name k w)"
| "machine_step S n (NEW_ROTATE h) w = map_option snd (file_rotate_filter S h w)"
| "machine_step S n (NEW_DIR_ROTATE h b) w = map_option snd (file_dir_rotate_filter S h b w)"
| "machine_step S n (ADD_READ h a) w = add_read_filter h a w"
| "machine_step S n (ADD_WRITE h a) w = add_write_filter h a w"

fun machine_run :: "sys \<Rightarrow> nat \<Rightarrow> machine_op list \<Rightarrow> world \<Rightarrow> world option" where
  "machine_run S n [] w = Some w"
| "machine_run S n (op # ops) w = do { w1 \<leftarrow> machine_step S n op w; machine_run S n ops w1 }"

definition no_machines :: "world \<Rightarrow> bool" where
  "no_machines w \<longleftrightarrow> w_descs w = [] \<and> w_filters w = Map.empty \<and> w_machines w = [] \<and> w_handle_map w = [] \<and> w_handle_counter w = 0 \<and>
     (\<forall>(s, t) \<in> set (statics w). s = None)"

lemma no_machines_typed: "no_machines w \<Longrightarrow> machines_typed w"
  by (auto simp: no_machines_def machines_typed_def handles_ok_def used_handles_def filter_shapes_def)

lemma get_then_create:
  assumes T: "machines_typed w" and c: "w_handle_counter w + 1 < 2 ^ 31" and e: "do { (m, w1) \<leftarrow> get; create w1 } = Some (h, w')"
    and get: "\<And>m w1. get = Some (m, w1) \<Longrightarrow> machines_typed w1 \<and> w_handle_counter w1 = w_handle_counter w"
    and create: "\<And>w1. machines_typed w1 \<Longrightarrow> w_handle_counter w1 + 1 < 2 ^ 31 \<Longrightarrow> create w1 = Some (h, w') \<Longrightarrow>
      machines_typed w' \<and> w_handle_counter w' \<le> Suc (w_handle_counter w1)"
  shows "machines_typed w' \<and> w_handle_counter w' \<le> Suc (w_handle_counter w)"
proof -
  obtain m w1 where g: "get = Some (m, w1)" "create w1 = Some (h, w')" using e by (auto elim!: bind_SomeE)
  show ?thesis using get [OF g(1)] create [OF _ _ g(2)] c by simp
qed

lemma new_machine_typed:
  assumes T: "machines_typed w" and c: "w_handle_counter w + 1 < 2 ^ 31"
  shows "new_rb_machine S w = Some (h, w') \<Longrightarrow> machines_typed w' \<and> w_handle_counter w' \<le> Suc (w_handle_counter w)"
    "new_fbb_machine S k b w = Some (h, w') \<Longrightarrow> machines_typed w' \<and> w_handle_counter w' \<le> Suc (w_handle_counter w)"
    "new_fbb_machine_fill S k b w = Some (h, w') \<Longrightarrow> machines_typed w' \<and> w_handle_counter w' \<le> Suc (w_handle_counter w)"
    "new_hq_machine S w = Some (h, w') \<Longrightarrow> machines_typed w' \<and> w_handle_counter w' \<le> Suc (w_handle_counter w)"
    "new_hq_fifo_machine S w = Some (h, w') \<Longrightarrow> machines_typed w' \<and> w_handle_counter w' \<le> Suc (w_handle_counter w)"
    "new_hq_stack_machine S w = Some (h, w') \<Longrightarrow> machines_typed w' \<and> w_handle_counter w' \<le> Suc (w_handle_counter w)"
    "new_null_machine S w = Some (h, w') \<Longrightarrow> machines_typed w' \<and> w_handle_counter w' \<le> Suc (w_handle_counter w)"
    "new_file_machine S dir name ext flags w = Some (h, w') \<Longrightarrow> machines_typed w' \<and> w_handle_counter w' \<le> Suc (w_handle_counter w)"
    "new_fifo_machine S name flags w = Some (h, w') \<Longrightarrow> machines_typed w' \<and> w_handle_counter w' \<le> Suc (w_handle_counter w)"
  unfolding new_rb_machine_def new_fbb_machine_def new_fbb_machine_fill_def new_hq_machine_def new_hq_fifo_machine_def
    new_hq_stack_machine_def new_null_machine_def new_file_machine_def new_fifo_machine_def
  by (erule get_then_create [OF T c]; blast intro: get_machine_typed [OF T] get_machine_counter create_typed create_file_typed create_counter)+

lemma machine_step_typed:
  assumes T: "machines_typed w" and c: "w_handle_counter w + 1 < 2 ^ 31" and e: "machine_step S n op w = Some w'"
  shows "machines_typed w' \<and> w_handle_counter w' \<le> Suc (w_handle_counter w)"
proof -
  have p: "plain_shape (shape w)" using typed_callD [OF T] by (auto simp: plain_shape_def shape_def call_typed_def)
  have sh: "machines_typed w' \<and> w_handle_counter w' \<le> Suc (w_handle_counter w)" if "shape w' = shape w"
    using typed_shape [OF T that] shape_counter [OF that] by simp
  note made = new_machine_typed [OF T c] and flt = simple_filters_typed [OF T] file_filters_typed [OF T]
  show ?thesis
  proof (cases op)
    case (READ h buf k)
    then show ?thesis using e by (auto intro!: sh dest: machine_desc_read_shape [OF _ p])
  next
    case (WRITE h buf k)
    then show ?thesis using e by (auto intro!: sh dest: machine_desc_write_shape [OF _ p])
  next
    case (STOP h)
    then show ?thesis using e by (auto intro!: sh dest: stop_machine_shape [OF _ T])
  next
    case (DESTROY h)
    then show ?thesis using e by (auto dest: destroy_machine_typed [OF T])
  next
    case (ADD_READ h a)
    then show ?thesis using e by (auto intro!: sh dest: add_filter_shape)
  next
    case (ADD_WRITE h a)
    then show ?thesis using e by (auto intro!: sh dest: add_filter_shape)
  qed (use e in \<open>auto dest!: made flt\<close>)
qed

lemma machine_run_typed:
  "machines_typed w \<Longrightarrow> w_handle_counter w + length ops < 2 ^ 31 \<Longrightarrow> machine_run S n ops w = Some w' \<Longrightarrow> machines_typed w'"
proof (induction ops arbitrary: w)
  case (Cons op ops)
  then obtain w1 where s: "machine_step S n op w = Some w1" "machine_run S n ops w1 = Some w'" by (auto elim!: bind_SomeE)
  have "w_handle_counter w + 1 < 2 ^ 31" using Cons.prems(2) by simp
  from machine_step_typed [OF Cons.prems(1) this s(1)] have "machines_typed w1" "w_handle_counter w1 + length ops < 2 ^ 31"
    using Cons.prems(2) by auto
  then show ?case by (rule Cons.IH [OF _ _ s(2)])
qed simp

text \<open>C11. From a state with no machines on, every sequence of operations that make, read, write, stop and destroy
  machines and make and add filters (shorter than the range of handles, and returning) leaves a state in which the casts
  are sound: a function pointer that will be called with the handle of a machine, as the \<open>call\<close> of a filter or as the \<open>stop\<close>
  or \<open>destroy\<close> of the machine registered for the handle, casts the descriptor to the type it was created with.\<close>

theorem machine_casts_sound:
  assumes "no_machines w" and "length ops < 2 ^ 31" and "machine_run S depth ops w = Some w'" and "machine_get_desc h w' = Some d"
  shows "(\<forall>a f. get_filter a w' = Some f \<and> obj_handle (f_obj f) = Some h \<longrightarrow> call_cast (f_call f) d) \<and>
    (\<exists>m. get_machine_ref h w' = Some m \<and> m < length (w_machines w') \<and>
       stop_cast (m_stop (w_machines w' ! m)) d \<and> destroy_cast (m_destroy (w_machines w' ! m)) d)"
proof -
  have "machines_typed w" by (rule no_machines_typed [OF assms(1)])
  moreover have "w_handle_counter w + length ops < 2 ^ 31" using assms(1,2) by (simp add: no_machines_def)
  ultimately have T: "machines_typed w'" using assms(3) by (rule machine_run_typed)
  show ?thesis using typed_call_cast [OF T _ _ assms(4)] typed_iom [OF T assms(4)] by blast
qed

definition demo_ops :: "machine_op list" where
  "demo_ops = [NEW_NULL, NEW_HQ, STOP 2]"

lemma demo_ops_view:
  "map_option (\<lambda>w. map_option (\<lambda>d. (tag_of (md_impl d), hq_of d)) (machine_get_desc 2 w)) (machine_run demo_sys 1 demo_ops empty_world) =
     Some (Some (TAG_HQ, Some \<lparr>hq_list = memex_fifo_create demo_sys 1, hq_flush = True\<rparr>))"
  by (simp add: demo_ops_def new_null_machine_def get_null_machine_def create_null_def new_hq_machine_def get_hq_machine_def create_queue_def
      setup_defs thread_defs sizeof_hq_def stop_queue_def set_write_state_def put_hq_def hq_of_def)

theorem machine_casts_sound_witness:
  "\<exists>w' d m. machine_run demo_sys 1 demo_ops empty_world = Some w' \<and> machine_get_desc 2 w' = Some d \<and> tag_of (md_impl d) = TAG_HQ \<and>
     get_machine_ref 2 w' = Some m \<and> stop_cast (m_stop (w_machines w' ! m)) d \<and>
     (\<forall>a f. get_filter a w' = Some f \<and> obj_handle (f_obj f) = Some 2 \<longrightarrow> call_cast (f_call f) d)"
proof -
  obtain w' d where w': "machine_run demo_sys 1 demo_ops empty_world = Some w'" "machine_get_desc 2 w' = Some d" "tag_of (md_impl d) = TAG_HQ"
    using demo_ops_view by auto
  have "no_machines empty_world" by (simp add: no_machines_def empty_world_def statics_def)
  moreover have "length demo_ops < 2 ^ 31" by (simp add: demo_ops_def)
  ultimately show ?thesis using machine_casts_sound [OF _ _ w'(1,2)] w' by blast
qed

end
