(* ===== verification/Spec2Isabelle.thy ===== *)
theory Spec2Isabelle
  imports Ring_Properties Stream_Properties Machine_Properties Metrics_Properties Filter_Properties
    Packet_Properties Queue_Properties File_Properties Socket_Properties Sdr_Properties
    Uhd_Properties Soapy_Properties Conversion_Properties Reports Registry Type_Properties
begin

text \<open>
  Verification of bingewatch, a C library that moves byte streams between machines (buffers, files,
  pipes, radios) through chains of filters, driven by threads.

  \<^bold>\<open>The program.\<close> A machine is known by a handle. Its descriptor (\<open>machine.h\<close>) has a lock, a use count, metrics, and a read
  and a write side, each with a state and a chain of filters; the last filter of a chain belongs to the machine and moves
  the bytes. A segment (\<open>segment.c\<close>) is a thread that reads from one machine and writes to one or two others. A stream
  (\<open>stream.c\<close>) is a thread that starts segments, waits for one of them to complete or fail, and stops the rest;
  segments tell their stream through callbacks.

  \<^bold>\<open>The model.\<close> C functions are functions of the state they touch. A result \<open>None\<close> stands for a call that does not come back:
  it follows a pointer to no object, takes a lock that is held, or spins. Everything else, errors included, is \<open>Some\<close> of a
  status, a byte count and a state. \<open>size_t\<close> values are natural numbers, with the wrap-around in \<open>sz_add\<close>, \<open>sz_sub\<close>,
  \<open>sz_mul\<close>; flags and 32-bit indices are words; doubles are rationals with rounding written out. A function pointer is
  a constructor of a datatype, and a call through it a case distinction (\<open>Dispatch\<close>). Undefined behaviour
  of C (a read outside an array, a conversion of a float that does not fit, a \<open>memcpy\<close> within a block of a radio's ring from an
  area to one that overlaps it) is \<open>None\<close> as well. Other copies are between a caller's buffer and memory of the library, which the properties assume to be apart.

  \<^descr> \<open>BW_Prelude\<close>: \<open>size_t\<close>, byte memory, status values, paths through next pointers. \<open>C_Double\<close>: doubles.
    \<open>C_Float\<close>: floats, their bytes and their arrays.
    \<open>Posix\<close>: strings, the file system, \<open>stdio.h\<close>, named pipes, datagram sockets.
  \<^descr> \<open>Block_List\<close>: \<open>src/buf/block-list-buf.c\<close>, lists of blocks in a heap of blocks and bytes; the heap records
    which memory was handed out.
  \<^descr> \<open>Ring_Buf\<close>, \<open>Ring_Machine\<close>: \<open>src/buf/ring-buf.c\<close>, the ring and the machine around it.
  \<^descr> \<open>Fixed_Block\<close>: \<open>src/buf/fixed-block-buf.c\<close>. \<open>Handle_Queue\<close>: \<open>src/buf/handle-queue.c\<close> and \<open>src/null-machine.c\<close>.
  \<^descr> \<open>File_Machine\<close>: \<open>src/file-machine.c\<close>. \<open>Fifo_Machine\<close>: \<open>src/fifo-machine.c\<close>. \<open>Socket_Machine\<close>:
    \<open>src/socket-machine.c\<close>.
  \<^descr> \<open>World\<close>: \<open>include/machine.h\<close>, \<open>include/filter.h\<close>, and the record \<open>world\<close> of everything the library keeps.
    \<open>Machine\<close>: \<open>src/machine.c\<close>, \<open>src/machine-mgmt.c\<close>. \<open>Metrics\<close>: the counting of
    \<open>src/machine-metrics.c\<close>. \<open>Reports\<close>: its texts and timers, \<open>src/bw-util.c\<close>, and the functions of
    \<open>src/segment.c\<close> and \<open>src/stream.c\<close> that report and stop.
  \<^descr> \<open>Locks\<close>: the locks that a machine points to, \<open>machine_lock\<close>, or \<open>sdr_lock\<close> for radios.
    \<open>Filter_Chain\<close>: \<open>src/filter.c\<close>, which takes them. \<open>Simple_Filters\<close>: \<open>src/filter/filters.c\<close>. \<open>Conversions\<close>:
    \<open>src/filter/conversions.c\<close>.
  \<^descr> \<open>Radio\<close>: \<open>include/sdr-machine.h\<close>. \<open>Sdr_Rx\<close>: \<open>src/sdr/sdr-rx-machine.c\<close>, the receiving machine all radios
    share, with its thread that fills a ring of blocks while the reader empties it. \<open>Rtlsdr\<close>:
    \<open>src/sdr/rtlsdr-machine.c\<close>. \<open>Soapy\<close>, \<open>Lime\<close>: \<open>src/sdr/soapy-machine.c\<close>, \<open>src/sdr/lime-machine.c\<close>. \<open>Uhd\<close>: \<open>src/sdr/uhd-machine.c\<close>
    and \<open>src/sdr/b210-machine.c\<close>. \<open>Sdr_Apis\<close>: the tables of functions of the radios.
  \<^descr> \<open>Segment\<close>: \<open>src/segment.c\<close>. \<open>Streams\<close>: \<open>src/stream.c\<close>, and the step relation \<open>stream_step\<close> of a stream, its
    segments and a thread that stops it. One step is what a thread does between two points where others can act: an
    access to the state of the stream under its lock, one read or write of a machine, one test of a loop.

  \<^bold>\<open>Contracts.\<close> Eight locales say what a client may rely on. \<open>byte_queue\<close>: bytes come out in the order they went in (the ring
  buffer, alone and behind a machine). \<open>packet_queue\<close>: the same for packets (fixed-block buffer, handle queue). \<open>byte_sink\<close>
  and \<open>byte_source\<close>: one-way transfers (files, a ring buffer that was stopped). \<open>registry\<close>: handles are not reused while there are new ones left. \<open>sample_source\<close>:
  what the receiving machine needs of a radio to hand on its samples in order, and \<open>broken_source\<close>: a radio that fails
  every read (\<open>Sdr_Buffer\<close>); \<open>radio_source\<close> (\<open>Sdr_Radio\<close>) extends \<open>sample_source\<close> by the way from a filter to the
  radio. Each is interpreted on the definitions above, in \<open>Ring_Fifo\<close>, \<open>Machine_Ring\<close>, \<open>Fixed_Block_Queue\<close>, \<open>Handle_Queue_Fifo\<close>, \<open>File_Store\<close>, \<open>Machine_Properties\<close>, \<open>Registry\<close>, \<open>Sdr_Counter\<close> (the test
  radio that counts), \<open>Rtl_Source\<close> and \<open>Uhd_Source\<close>.

  \<^bold>\<open>What is shown.\<close> \<open>Ring_Properties\<close>, \<open>Machine_Properties\<close>: the ring buffer is a queue of bytes, from its creation on, also
  through the machine interface; after a stop its readers get the rest and then the end; handles are not reused as long as their counter fits into an \<open>int\<close>, and
  a machine that is destroyed takes no other's memory with it.
  \<open>Type_Properties\<close>, over the invariant of \<open>Machine_Types\<close>: the functions that a filter or a machine points to cast a
  descriptor to the type it has, whatever was done with machines and filters before (radios, sockets and functions
  of the user apart). \<open>Packet_Properties\<close>, \<open>Queue_Properties\<close>: the two packet buffers, and what the first one drops. \<open>File_Properties\<close>: what file machines store, read, rotate
  and which directories they make. \<open>Socket_Properties\<close>: datagrams carry the bytes of a write to a read of the same length.
  \<open>Sdr_Properties\<close>: however the two threads of a radio are scheduled, a read that returns has the samples the radio delivered, in
  order. With \<open>N\<close> blocks of \<open>B\<close> samples it does return, under a fair scheduler, for up to \<open>(N - 1) * B\<close> samples, if the request does not end in the first half of what
  a block holds (\<open>half_ok\<close>); there, the \<open>memcpy\<close> that moves the rest of the block overlaps. An error of the radio is not reported. \<open>Uhd_Properties\<close>: the same for a
  library that gives fewer samples than it is asked for. \<open>Soapy_Properties\<close>: reading while the clock is steady, and what is lost when it jumps; the gains of a
  LimeSDR. \<open>Conversion_Properties\<close>: 16-bit samples survive the way to floats and back. \<open>Stream_Properties\<close>, over \<open>Stream_Invariant\<close>: in all interleavings, states change in
  order, three stores apart that overwrite what another thread has stored; errors are reported, callbacks exclude each other, a stream ends after all its segments, and a stream that is
  done, with its segments between two transfers, can always go on towards its end. \<open>Filter_Properties\<close>: the bytes that a limiter lets through to a ring buffer, and what adding a chain of filters changes. \<open>Metrics_Properties\<close>: all bytes are
  counted. Where the code does not do what it means to, the property states what it does.

  \<^bold>\<open>What is assumed.\<close> memex is a parameter (records \<open>env\<close> and \<open>sys\<close>): \<open>pool_sound\<close> says that memory handed out is
  not handed out twice, \<open>pool_plenty\<close> that it does not run out, \<open>frees_only\<close> that a pool is freed with what belongs to it and nothing
  else, \<open>memex_fifo\<close> that its list is a queue. The system is a parameter
  \<open>os\<close>: \<open>stdio_progress\<close> says that transfers move at least one byte,
  \<open>network_ok\<close> that datagrams are accepted and delivered. The radio libraries are parameters (\<open>rtl_lib\<close>, \<open>soapy_lib\<close>,
  \<open>uhd_lib\<close>): \<open>rtl_plenty\<close> says that every call gives all the bytes asked for, \<open>uhd_plenty\<close> that every call gives at least one sample and no error or overflow, \<open>on_clock\<close> that
  samples are on time. The scheduler of the two threads of a radio is a parameter: \<open>fair\<close> says that
  both run again and again. \<open>Demo_World\<close> has concrete instances, on which every
  property is applied once.

  \<^bold>\<open>Fuel.\<close> \<open>call_filter\<close> bounds the depth of calls from filter to filter; a chain of \<open>n\<close> filters needs \<open>n\<close>, a machine without
  added filters 1. \<open>drain\<close> bounds the number of reads; one more than there are bytes is enough. Loops that may not end
  are partial functions, and where a property says that they end, it says so with a result.

  \<^bold>\<open>Not modelled.\<close> Messages to the log, and what the radio machines print about devices; the setters of log levels; the
  programs under \<open>test\<close> and \<open>ref\<close>. The array of calculated metrics is a list; its growth is a length. Floats are rationals with infinities and one value that is not a number: the sign of zero and the payload of a NaN are not kept.
\<close>

end
